(* ===== verification/Prelude.thy ===== *)
theory Prelude
  imports Main "HOL-Library.Word"
begin

text \<open>
  Vocabulary shared by all components: fixed-width integer types, the C idioms for testing,
  setting and clearing flag bits, array access with the array bound written out, and the lemma
  collections used by the component theories.
\<close>

unbundle bit_operations_syntax

named_theorems io_flag \<open>flag and register constants of the PX4IO protocol\<close>
named_theorems io_upd \<open>reads of a field or register after an update\<close>
named_theorems len_simps \<open>array lengths kept by updates\<close>

section \<open>Fixed-width integers\<close>

type_synonym u8 = "8 word"
type_synonym u16 = "16 word"
type_synonym u32 = "32 word"
type_synonym u64 = "64 word"

section \<open>Flag words\<close>

text \<open>The C expression \<^verbatim>\<open>(1 << n)\<close> used as a flag of a register.\<close>

definition BIT :: "nat \<Rightarrow> 'a::len word" where
  "BIT n = push_bit n 1"

text \<open>The C condition \<^verbatim>\<open>if (w & m)\<close>.\<close>

definition tst :: "'a::len word \<Rightarrow> 'a word \<Rightarrow> bool" where
  "tst w m \<longleftrightarrow> w AND m \<noteq> 0"

lemma bit_BIT [simp]: "bit (BIT n :: 'a::len word) m \<longleftrightarrow> m = n \<and> n < LENGTH('a)"
  by (auto simp: BIT_def bit_simps)

lemma tst_iff: "tst w m \<longleftrightarrow> (\<exists>n. bit w n \<and> bit m n)"
  by (auto simp: tst_def bit_eq_iff bit_simps dest: bit_imp_le_length)

lemma tst_BIT [simp]: "tst (w :: 'a::len word) (BIT n) \<longleftrightarrow> bit w n"
  by (auto simp: tst_iff dest: bit_imp_le_length)

lemma tst_or_right [simp]: "tst w (a OR b) \<longleftrightarrow> tst w a \<or> tst w b"
  by (auto simp: tst_iff bit_simps)

lemma tst_0 [simp]: "\<not> tst w 0" "\<not> tst 0 w"
  by (simp_all add: tst_def)

text \<open>Bits of the results of \<^verbatim>\<open>w |= m\<close>, \<^verbatim>\<open>w &= m\<close> and \<^verbatim>\<open>w &= ~m\<close>.\<close>

lemma bit_or_word [simp]: "bit (a OR b :: 'a::len word) n \<longleftrightarrow> bit a n \<or> bit b n"
  by (simp add: bit_simps)

lemma bit_and_word [simp]: "bit (a AND b :: 'a::len word) n \<longleftrightarrow> bit a n \<and> bit b n"
  by (simp add: bit_simps)

lemma bit_not_word [simp]: "bit (NOT a :: 'a::len word) n \<longleftrightarrow> n < LENGTH('a) \<and> \<not> bit a n"
  by (auto simp: bit_simps)

section \<open>Widening and narrowing\<close>

lemma unat_ucast_widen:
  "LENGTH('a::len) \<le> LENGTH('b::len) \<Longrightarrow> unat (ucast (w :: 'a word) :: 'b word) = unat w"
proof -
  assume "LENGTH('a) \<le> LENGTH('b)"
  then have "unat w < 2 ^ LENGTH('b)"
    using unsigned_less [of w] by (meson less_le_trans one_le_numeral power_increasing)
  then show ?thesis
    by (simp add: unsigned_ucast_eq take_bit_nat_eq_self)
qed

lemma unat_ucast_fits:
  "unat (w :: 'a::len word) < 2 ^ LENGTH('b::len) \<Longrightarrow> unat (ucast w :: 'b word) = unat w"
  by (simp add: unsigned_ucast_eq take_bit_nat_eq_self)

section \<open>Bytes in memory\<close>

text \<open>16-bit and 32-bit words as they lie in memory (little endian).\<close>

definition le_bytes :: "u16 \<Rightarrow> u8 list" where
  "le_bytes w = [ucast w, ucast (drop_bit 8 w)]"

definition le_bytes32 :: "u32 \<Rightarrow> u8 list" where
  "le_bytes32 w = le_bytes (ucast w) @ le_bytes (ucast (drop_bit 16 w))"

definition rd16 :: "(nat \<Rightarrow> u8) \<Rightarrow> nat \<Rightarrow> u16" where
  "rd16 m a = ucast (m a) OR push_bit 8 (ucast (m (a + 1)))"

definition rd32 :: "(nat \<Rightarrow> u8) \<Rightarrow> nat \<Rightarrow> u32" where
  "rd32 m a = ucast (rd16 m a) OR push_bit 16 (ucast (rd16 m (a + 2)))"

definition rd_bytes :: "(nat \<Rightarrow> u8) \<Rightarrow> nat \<Rightarrow> nat \<Rightarrow> u8 list" where
  "rd_bytes m a n = map (\<lambda>i. m (a + i)) [0..<n]"

definition wr_bytes :: "nat \<Rightarrow> u8 list \<Rightarrow> (nat \<Rightarrow> u8) \<Rightarrow> nat \<Rightarrow> u8" where
  "wr_bytes a bs m = (\<lambda>x. if a \<le> x \<and> x < a + length bs then bs ! (x - a) else m x)"

lemma length_le_bytes [simp]: "length (le_bytes w) = 2" "length (le_bytes32 v) = 4"
  by (simp_all add: le_bytes_def le_bytes32_def)

lemma length_rd_bytes [simp]: "length (rd_bytes m a n) = n"
  by (simp add: rd_bytes_def)

lemma rd16_le: "m a = ucast w \<Longrightarrow> m (Suc a) = ucast (drop_bit 8 w) \<Longrightarrow> rd16 m a = (w :: u16)"
  by (rule bit_eqI) (auto simp: rd16_def bit_simps)

lemma rd32_le:
  "rd16 m a = ucast w \<Longrightarrow> rd16 m (a + 2) = ucast (drop_bit 16 w) \<Longrightarrow> rd32 m a = (w :: u32)"
  by (rule bit_eqI) (auto simp: rd32_def bit_simps)

lemma rd16_cong: "m a = m' a \<Longrightarrow> m (Suc a) = m' (Suc a) \<Longrightarrow> rd16 m a = rd16 m' a"
  by (simp add: rd16_def)

lemma rd_bytes_wr: "rd_bytes (wr_bytes a bs m) a (length bs) = bs"
  by (rule nth_equalityI) (simp_all add: rd_bytes_def wr_bytes_def)

lemma and_byte_mask [simp]: "(x :: u8) AND 0xff = x"
proof -
  have "(0xff :: u8) = - 1"
    by simp
  then show ?thesis
    by (simp only: and.right_neutral)
qed

section \<open>Arrays\<close>

text \<open>
  A C array is a list of fixed length. \<open>mapi_upd\<close> writes a run of values starting at an
  offset and stops at the end of the array or of the values, as the copy loops of the register
  file do; each element is combined with the old one by \<open>f old new\<close>.
\<close>

fun copy_loop :: "('a \<Rightarrow> 'b \<Rightarrow> 'a) \<Rightarrow> nat \<Rightarrow> nat \<Rightarrow> 'b list \<Rightarrow> 'a list \<Rightarrow> 'a list" where
  "copy_loop f limit offset [] arr = arr"
| "copy_loop f limit offset (v # vs) arr =
     (if offset < limit
      then copy_loop f limit (Suc offset) vs (arr[offset := f (arr ! offset) v])
      else arr)"

lemma length_copy_loop [simp]: "length (copy_loop f limit off vs arr) = length arr"
  by (induction f limit off vs arr rule: copy_loop.induct) auto

lemma copy_loop_nth:
  "i < length arr \<Longrightarrow>
   copy_loop f limit off vs arr ! i =
     (if off \<le> i \<and> i < limit \<and> i < off + length vs then f (arr ! i) (vs ! (i - off)) else arr ! i)"
proof (induction f limit off vs arr rule: copy_loop.induct)
  case (2 f limit offset v vs arr)
  then show ?case
    by (auto simp: nth_list_update nth_Cons' Suc_le_eq)
qed auto

lemma copy_loop_all:
  assumes "\<forall>x \<in> set arr. P x" "\<And>x v. P x \<Longrightarrow> P (f x v)" "limit \<le> length arr"
  shows "\<forall>x \<in> set (copy_loop f limit off vs arr). P x"
  using assms
proof (induction f limit off vs arr rule: copy_loop.induct)
  case (2 f limit offset v vs arr)
  show ?case
  proof (cases "offset < limit")
    case True
    with 2 have "\<forall>x \<in> set (arr[offset := f (arr ! offset) v]). P x"
      by (auto dest!: set_update_subset_insert [THEN subsetD])
    with True 2 show ?thesis by simp
  qed (use 2 in simp)
qed simp

lemma split_at:
  "x \<notin> set xs \<Longrightarrow> dropWhile (\<lambda>y. y \<noteq> x) (xs @ x # ys) = x # ys"
  "x \<notin> set xs \<Longrightarrow> takeWhile (\<lambda>y. y \<noteq> x) (xs @ x # ys) = xs"
  by (induction xs) auto


text \<open>A write that is checked against the size of the object.\<close>

definition store :: "nat \<Rightarrow> 'a \<Rightarrow> 'a list \<Rightarrow> 'a list option" where
  "store i v m = (if i < length m then Some (m[i := v]) else None)"

text \<open>A loop that writes a value computed from the index at each of a sequence of indices.\<close>

fun store_each :: "(nat \<Rightarrow> 'a) \<Rightarrow> nat list \<Rightarrow> 'a list \<Rightarrow> 'a list option" where
  "store_each f [] m = Some m"
| "store_each f (i # is) m = Option.bind (store i (f i) m) (store_each f is)"

lemma store_each_upt:
  "a \<le> b \<Longrightarrow> b \<le> length m \<Longrightarrow> store_each f [a..<b] m = Some (take a m @ map f [a..<b] @ drop b m)"
proof (induction "b - a" arbitrary: a m)
  case (Suc k)
  then have "store_each f [a..<b] m = store_each f [Suc a..<b] (m[a := f a])"
    by (simp add: upt_conv_Cons store_def)
  also have "\<dots> = Some (take (Suc a) (m[a := f a]) @ map f [Suc a..<b] @ drop b (m[a := f a]))"
    using Suc by (intro Suc(1)) auto
  finally show ?case
    using Suc by (simp add: take_Suc_conv_app_nth upt_conv_Cons)
qed simp

lemma unat_succ: "unat (w :: u8) < 255 \<Longrightarrow> unat (w + 1) = unat w + 1"
  by (simp add: unat_word_ariths(1))

lemma take_nth:
  assumes "take k (drop i xs) = ys @ zs" and "j < length ys"
  shows "xs ! (i + j) = ys ! j"
proof -
  have "j < length (take k (drop i xs))"
    using assms by simp
  then have "i \<le> length xs" "j < k"
    by auto
  then have "take k (drop i xs) ! j = xs ! (i + j)"
    by simp
  then show ?thesis
    using assms by (simp add: nth_append)
qed


end
