(* ===== verification/IO_Protocol.thy ===== *)
theory IO_Protocol
  imports Prelude
begin

text \<open>
  The FMU-IO protocol (\<^verbatim>\<open>src/modules/px4iofirmware/protocol.h\<close>): page numbers, register
  indices and flags with the header's names, the packet of the serial link and its CRC-8.
  The table-driven \<open>crc_packet\<close> is related to the bitwise CRC with polynomial 0x07.
\<close>

section \<open>Pages, registers and flags\<close>

definition PX4IO_PROTOCOL_VERSION :: nat where [simp]: "PX4IO_PROTOCOL_VERSION = 4"
definition PX4IO_PROTOCOL_MAX_CONTROL_COUNT :: nat where [simp]: "PX4IO_PROTOCOL_MAX_CONTROL_COUNT = 8"
definition PX4IO_PAGE_CONFIG :: u8 where [simp]: "PX4IO_PAGE_CONFIG = 0"
definition PX4IO_P_CONFIG_PROTOCOL_VERSION :: nat where [simp]: "PX4IO_P_CONFIG_PROTOCOL_VERSION = 0"
definition PX4IO_P_CONFIG_HARDWARE_VERSION :: nat where [simp]: "PX4IO_P_CONFIG_HARDWARE_VERSION = 1"
definition PX4IO_P_CONFIG_BOOTLOADER_VERSION :: nat where [simp]: "PX4IO_P_CONFIG_BOOTLOADER_VERSION = 2"
definition PX4IO_P_CONFIG_MAX_TRANSFER :: nat where [simp]: "PX4IO_P_CONFIG_MAX_TRANSFER = 3"
definition PX4IO_P_CONFIG_CONTROL_COUNT :: nat where [simp]: "PX4IO_P_CONFIG_CONTROL_COUNT = 4"
definition PX4IO_P_CONFIG_ACTUATOR_COUNT :: nat where [simp]: "PX4IO_P_CONFIG_ACTUATOR_COUNT = 5"
definition PX4IO_P_CONFIG_RC_INPUT_COUNT :: nat where [simp]: "PX4IO_P_CONFIG_RC_INPUT_COUNT = 6"
definition PX4IO_P_CONFIG_ADC_INPUT_COUNT :: nat where [simp]: "PX4IO_P_CONFIG_ADC_INPUT_COUNT = 7"
definition PX4IO_P_CONFIG_RELAY_COUNT :: nat where [simp]: "PX4IO_P_CONFIG_RELAY_COUNT = 8"
definition PX4IO_MAX_TRANSFER_LEN :: nat where [simp]: "PX4IO_MAX_TRANSFER_LEN = 64"
definition PX4IO_PAGE_STATUS :: u8 where [simp]: "PX4IO_PAGE_STATUS = 1"
definition PX4IO_P_STATUS_FREEMEM :: nat where [simp]: "PX4IO_P_STATUS_FREEMEM = 0"
definition PX4IO_P_STATUS_CPULOAD :: nat where [simp]: "PX4IO_P_STATUS_CPULOAD = 1"
definition PX4IO_P_STATUS_FLAGS :: nat where [simp]: "PX4IO_P_STATUS_FLAGS = 2"
definition PX4IO_P_STATUS_FLAGS_OUTPUTS_ARMED :: u16 where [simp]: "PX4IO_P_STATUS_FLAGS_OUTPUTS_ARMED = BIT 0"
definition PX4IO_P_STATUS_FLAGS_OVERRIDE :: u16 where [simp]: "PX4IO_P_STATUS_FLAGS_OVERRIDE = BIT 1"
definition PX4IO_P_STATUS_FLAGS_RC_OK :: u16 where [simp]: "PX4IO_P_STATUS_FLAGS_RC_OK = BIT 2"
definition PX4IO_P_STATUS_FLAGS_RC_PPM :: u16 where [simp]: "PX4IO_P_STATUS_FLAGS_RC_PPM = BIT 3"
definition PX4IO_P_STATUS_FLAGS_RC_DSM :: u16 where [simp]: "PX4IO_P_STATUS_FLAGS_RC_DSM = BIT 4"
definition PX4IO_P_STATUS_FLAGS_RC_SBUS :: u16 where [simp]: "PX4IO_P_STATUS_FLAGS_RC_SBUS = BIT 5"
definition PX4IO_P_STATUS_FLAGS_FMU_OK :: u16 where [simp]: "PX4IO_P_STATUS_FLAGS_FMU_OK = BIT 6"
definition PX4IO_P_STATUS_FLAGS_RAW_PWM :: u16 where [simp]: "PX4IO_P_STATUS_FLAGS_RAW_PWM = BIT 7"
definition PX4IO_P_STATUS_FLAGS_MIXER_OK :: u16 where [simp]: "PX4IO_P_STATUS_FLAGS_MIXER_OK = BIT 8"
definition PX4IO_P_STATUS_FLAGS_ARM_SYNC :: u16 where [simp]: "PX4IO_P_STATUS_FLAGS_ARM_SYNC = BIT 9"
definition PX4IO_P_STATUS_FLAGS_INIT_OK :: u16 where [simp]: "PX4IO_P_STATUS_FLAGS_INIT_OK = BIT 10"
definition PX4IO_P_STATUS_FLAGS_FAILSAFE :: u16 where [simp]: "PX4IO_P_STATUS_FLAGS_FAILSAFE = BIT 11"
definition PX4IO_P_STATUS_FLAGS_SAFETY_OFF :: u16 where [simp]: "PX4IO_P_STATUS_FLAGS_SAFETY_OFF = BIT 12"
definition PX4IO_P_STATUS_FLAGS_FMU_INITIALIZED :: u16 where [simp]: "PX4IO_P_STATUS_FLAGS_FMU_INITIALIZED = BIT 13"
definition PX4IO_P_STATUS_FLAGS_RC_ST24 :: u16 where [simp]: "PX4IO_P_STATUS_FLAGS_RC_ST24 = BIT 14"
definition PX4IO_P_STATUS_FLAGS_RC_SUMD :: u16 where [simp]: "PX4IO_P_STATUS_FLAGS_RC_SUMD = BIT 15"
definition PX4IO_P_STATUS_ALARMS :: nat where [simp]: "PX4IO_P_STATUS_ALARMS = 3"
definition PX4IO_P_STATUS_ALARMS_VBATT_LOW :: u16 where [simp]: "PX4IO_P_STATUS_ALARMS_VBATT_LOW = BIT 0"
definition PX4IO_P_STATUS_ALARMS_TEMPERATURE :: u16 where [simp]: "PX4IO_P_STATUS_ALARMS_TEMPERATURE = BIT 1"
definition PX4IO_P_STATUS_ALARMS_SERVO_CURRENT :: u16 where [simp]: "PX4IO_P_STATUS_ALARMS_SERVO_CURRENT = BIT 2"
definition PX4IO_P_STATUS_ALARMS_ACC_CURRENT :: u16 where [simp]: "PX4IO_P_STATUS_ALARMS_ACC_CURRENT = BIT 3"
definition PX4IO_P_STATUS_ALARMS_FMU_LOST :: u16 where [simp]: "PX4IO_P_STATUS_ALARMS_FMU_LOST = BIT 4"
definition PX4IO_P_STATUS_ALARMS_RC_LOST :: u16 where [simp]: "PX4IO_P_STATUS_ALARMS_RC_LOST = BIT 5"
definition PX4IO_P_STATUS_ALARMS_PWM_ERROR :: u16 where [simp]: "PX4IO_P_STATUS_ALARMS_PWM_ERROR = BIT 6"
definition PX4IO_P_STATUS_ALARMS_VSERVO_FAULT :: u16 where [simp]: "PX4IO_P_STATUS_ALARMS_VSERVO_FAULT = BIT 7"
definition PX4IO_P_STATUS_VSERVO :: nat where [simp]: "PX4IO_P_STATUS_VSERVO = 6"
definition PX4IO_P_STATUS_VRSSI :: nat where [simp]: "PX4IO_P_STATUS_VRSSI = 7"
definition PX4IO_P_STATUS_PRSSI :: nat where [simp]: "PX4IO_P_STATUS_PRSSI = 8"
definition PX4IO_P_STATUS_MIXER :: nat where [simp]: "PX4IO_P_STATUS_MIXER = 9"
definition PX4IO_PAGE_ACTUATORS :: u8 where [simp]: "PX4IO_PAGE_ACTUATORS = 2"
definition PX4IO_PAGE_SERVOS :: u8 where [simp]: "PX4IO_PAGE_SERVOS = 3"
definition PX4IO_PAGE_RAW_RC_INPUT :: u8 where [simp]: "PX4IO_PAGE_RAW_RC_INPUT = 4"
definition PX4IO_P_RAW_RC_COUNT :: nat where [simp]: "PX4IO_P_RAW_RC_COUNT = 0"
definition PX4IO_P_RAW_RC_FLAGS :: nat where [simp]: "PX4IO_P_RAW_RC_FLAGS = 1"
definition PX4IO_P_RAW_RC_FLAGS_FRAME_DROP :: u16 where [simp]: "PX4IO_P_RAW_RC_FLAGS_FRAME_DROP = BIT 0"
definition PX4IO_P_RAW_RC_FLAGS_FAILSAFE :: u16 where [simp]: "PX4IO_P_RAW_RC_FLAGS_FAILSAFE = BIT 1"
definition PX4IO_P_RAW_RC_FLAGS_RC_DSM11 :: u16 where [simp]: "PX4IO_P_RAW_RC_FLAGS_RC_DSM11 = BIT 2"
definition PX4IO_P_RAW_RC_FLAGS_MAPPING_OK :: u16 where [simp]: "PX4IO_P_RAW_RC_FLAGS_MAPPING_OK = BIT 3"
definition PX4IO_P_RAW_RC_FLAGS_RC_OK :: u16 where [simp]: "PX4IO_P_RAW_RC_FLAGS_RC_OK = BIT 4"
definition PX4IO_P_RAW_RC_NRSSI :: nat where [simp]: "PX4IO_P_RAW_RC_NRSSI = 2"
definition PX4IO_P_RAW_RC_DATA :: nat where [simp]: "PX4IO_P_RAW_RC_DATA = 3"
definition PX4IO_P_RAW_FRAME_COUNT :: nat where [simp]: "PX4IO_P_RAW_FRAME_COUNT = 4"
definition PX4IO_P_RAW_LOST_FRAME_COUNT :: nat where [simp]: "PX4IO_P_RAW_LOST_FRAME_COUNT = 5"
definition PX4IO_P_RAW_RC_BASE :: nat where [simp]: "PX4IO_P_RAW_RC_BASE = 6"
definition PX4IO_PAGE_RC_INPUT :: u8 where [simp]: "PX4IO_PAGE_RC_INPUT = 5"
definition PX4IO_P_RC_VALID :: nat where [simp]: "PX4IO_P_RC_VALID = 0"
definition PX4IO_P_RC_BASE :: nat where [simp]: "PX4IO_P_RC_BASE = 1"
definition PX4IO_PAGE_RAW_ADC_INPUT :: u8 where [simp]: "PX4IO_PAGE_RAW_ADC_INPUT = 6"
definition PX4IO_PAGE_PWM_INFO :: u8 where [simp]: "PX4IO_PAGE_PWM_INFO = 7"
definition PX4IO_RATE_MAP_BASE :: nat where [simp]: "PX4IO_RATE_MAP_BASE = 0"
definition PX4IO_PAGE_SETUP :: u8 where [simp]: "PX4IO_PAGE_SETUP = 50"
definition PX4IO_P_SETUP_FEATURES :: nat where [simp]: "PX4IO_P_SETUP_FEATURES = 0"
definition PX4IO_P_SETUP_FEATURES_SBUS1_OUT :: u16 where [simp]: "PX4IO_P_SETUP_FEATURES_SBUS1_OUT = BIT 0"
definition PX4IO_P_SETUP_FEATURES_SBUS2_OUT :: u16 where [simp]: "PX4IO_P_SETUP_FEATURES_SBUS2_OUT = BIT 1"
definition PX4IO_P_SETUP_FEATURES_PWM_RSSI :: u16 where [simp]: "PX4IO_P_SETUP_FEATURES_PWM_RSSI = BIT 2"
definition PX4IO_P_SETUP_FEATURES_ADC_RSSI :: u16 where [simp]: "PX4IO_P_SETUP_FEATURES_ADC_RSSI = BIT 3"
definition PX4IO_P_SETUP_ARMING :: nat where [simp]: "PX4IO_P_SETUP_ARMING = 1"
definition PX4IO_P_SETUP_ARMING_IO_ARM_OK :: u16 where [simp]: "PX4IO_P_SETUP_ARMING_IO_ARM_OK = BIT 0"
definition PX4IO_P_SETUP_ARMING_FMU_ARMED :: u16 where [simp]: "PX4IO_P_SETUP_ARMING_FMU_ARMED = BIT 1"
definition PX4IO_P_SETUP_ARMING_FMU_PREARMED :: u16 where [simp]: "PX4IO_P_SETUP_ARMING_FMU_PREARMED = BIT 2"
definition PX4IO_P_SETUP_ARMING_MANUAL_OVERRIDE_OK :: u16 where [simp]: "PX4IO_P_SETUP_ARMING_MANUAL_OVERRIDE_OK = BIT 3"
definition PX4IO_P_SETUP_ARMING_FAILSAFE_CUSTOM :: u16 where [simp]: "PX4IO_P_SETUP_ARMING_FAILSAFE_CUSTOM = BIT 4"
definition PX4IO_P_SETUP_ARMING_INAIR_RESTART_OK :: u16 where [simp]: "PX4IO_P_SETUP_ARMING_INAIR_RESTART_OK = BIT 5"
definition PX4IO_P_SETUP_ARMING_ALWAYS_PWM_ENABLE :: u16 where [simp]: "PX4IO_P_SETUP_ARMING_ALWAYS_PWM_ENABLE = BIT 6"
definition PX4IO_P_SETUP_ARMING_RC_HANDLING_DISABLED :: u16 where [simp]: "PX4IO_P_SETUP_ARMING_RC_HANDLING_DISABLED = BIT 7"
definition PX4IO_P_SETUP_ARMING_LOCKDOWN :: u16 where [simp]: "PX4IO_P_SETUP_ARMING_LOCKDOWN = BIT 8"
definition PX4IO_P_SETUP_ARMING_FORCE_FAILSAFE :: u16 where [simp]: "PX4IO_P_SETUP_ARMING_FORCE_FAILSAFE = BIT 9"
definition PX4IO_P_SETUP_ARMING_TERMINATION_FAILSAFE :: u16 where [simp]: "PX4IO_P_SETUP_ARMING_TERMINATION_FAILSAFE = BIT 10"
definition PX4IO_P_SETUP_ARMING_OVERRIDE_IMMEDIATE :: u16 where [simp]: "PX4IO_P_SETUP_ARMING_OVERRIDE_IMMEDIATE = BIT 11"
definition PX4IO_P_SETUP_PWM_RATES :: nat where [simp]: "PX4IO_P_SETUP_PWM_RATES = 2"
definition PX4IO_P_SETUP_PWM_DEFAULTRATE :: nat where [simp]: "PX4IO_P_SETUP_PWM_DEFAULTRATE = 3"
definition PX4IO_P_SETUP_PWM_ALTRATE :: nat where [simp]: "PX4IO_P_SETUP_PWM_ALTRATE = 4"
definition PX4IO_P_SETUP_RELAYS_PAD :: nat where [simp]: "PX4IO_P_SETUP_RELAYS_PAD = 5"
definition PX4IO_P_SETUP_VSERVO_SCALE :: nat where [simp]: "PX4IO_P_SETUP_VSERVO_SCALE = 6"
definition PX4IO_P_SETUP_DSM :: nat where [simp]: "PX4IO_P_SETUP_DSM = 7"
definition PX4IO_P_SETUP_SET_DEBUG :: nat where [simp]: "PX4IO_P_SETUP_SET_DEBUG = 9"
definition PX4IO_P_SETUP_REBOOT_BL :: nat where [simp]: "PX4IO_P_SETUP_REBOOT_BL = 10"
definition PX4IO_REBOOT_BL_MAGIC :: u16 where [simp]: "PX4IO_REBOOT_BL_MAGIC = 14662"
definition PX4IO_P_SETUP_CRC :: nat where [simp]: "PX4IO_P_SETUP_CRC = 11"
definition PX4IO_P_SETUP_FORCE_SAFETY_OFF :: nat where [simp]: "PX4IO_P_SETUP_FORCE_SAFETY_OFF = 12"
definition PX4IO_P_SETUP_RC_THR_FAILSAFE_US :: nat where [simp]: "PX4IO_P_SETUP_RC_THR_FAILSAFE_US = 13"
definition PX4IO_P_SETUP_FORCE_SAFETY_ON :: nat where [simp]: "PX4IO_P_SETUP_FORCE_SAFETY_ON = 14"
definition PX4IO_FORCE_SAFETY_MAGIC :: u16 where [simp]: "PX4IO_FORCE_SAFETY_MAGIC = 22027"
definition PX4IO_P_SETUP_PWM_REVERSE :: nat where [simp]: "PX4IO_P_SETUP_PWM_REVERSE = 15"
definition PX4IO_P_SETUP_TRIM_ROLL :: nat where [simp]: "PX4IO_P_SETUP_TRIM_ROLL = 16"
definition PX4IO_P_SETUP_TRIM_PITCH :: nat where [simp]: "PX4IO_P_SETUP_TRIM_PITCH = 17"
definition PX4IO_P_SETUP_TRIM_YAW :: nat where [simp]: "PX4IO_P_SETUP_TRIM_YAW = 18"
definition PX4IO_P_SETUP_SCALE_ROLL :: nat where [simp]: "PX4IO_P_SETUP_SCALE_ROLL = 19"
definition PX4IO_P_SETUP_SCALE_PITCH :: nat where [simp]: "PX4IO_P_SETUP_SCALE_PITCH = 20"
definition PX4IO_P_SETUP_SCALE_YAW :: nat where [simp]: "PX4IO_P_SETUP_SCALE_YAW = 21"
definition PX4IO_P_SETUP_SBUS_RATE :: nat where [simp]: "PX4IO_P_SETUP_SBUS_RATE = 22"
definition PX4IO_P_SETUP_MOTOR_SLEW_MAX :: nat where [simp]: "PX4IO_P_SETUP_MOTOR_SLEW_MAX = 24"
definition PX4IO_P_SETUP_THR_MDL_FAC :: nat where [simp]: "PX4IO_P_SETUP_THR_MDL_FAC = 25"
definition PX4IO_P_SETUP_THERMAL :: nat where [simp]: "PX4IO_P_SETUP_THERMAL = 26"
definition PX4IO_P_SETUP_AIRMODE :: nat where [simp]: "PX4IO_P_SETUP_AIRMODE = 27"
definition PX4IO_P_SETUP_ENABLE_FLIGHTTERMINATION :: nat where [simp]: "PX4IO_P_SETUP_ENABLE_FLIGHTTERMINATION = 28"
definition PX4IO_THERMAL_IGNORE :: u16 where [simp]: "PX4IO_THERMAL_IGNORE = 0xFFFF"
definition PX4IO_THERMAL_OFF :: u16 where [simp]: "PX4IO_THERMAL_OFF = 0"
definition PX4IO_THERMAL_FULL :: u16 where [simp]: "PX4IO_THERMAL_FULL = 10000"
definition PX4IO_PAGE_CONTROLS :: u8 where [simp]: "PX4IO_PAGE_CONTROLS = 51"
definition PX4IO_P_CONTROLS_GROUP_0 :: nat where [simp]: "PX4IO_P_CONTROLS_GROUP_0 = 0"
definition PX4IO_P_CONTROLS_GROUP_1 :: nat where [simp]: "PX4IO_P_CONTROLS_GROUP_1 = 8 * 1"
definition PX4IO_P_CONTROLS_GROUP_2 :: nat where [simp]: "PX4IO_P_CONTROLS_GROUP_2 = 8 * 2"
definition PX4IO_P_CONTROLS_GROUP_3 :: nat where [simp]: "PX4IO_P_CONTROLS_GROUP_3 = 8 * 3"
definition PX4IO_P_CONTROLS_GROUP_VALID :: nat where [simp]: "PX4IO_P_CONTROLS_GROUP_VALID = 64"
definition PX4IO_P_CONTROLS_GROUP_VALID_GROUP0 :: u16 where [simp]: "PX4IO_P_CONTROLS_GROUP_VALID_GROUP0 = BIT 0"
definition PX4IO_P_CONTROLS_GROUP_VALID_GROUP1 :: u16 where [simp]: "PX4IO_P_CONTROLS_GROUP_VALID_GROUP1 = BIT 1"
definition PX4IO_P_CONTROLS_GROUP_VALID_GROUP2 :: u16 where [simp]: "PX4IO_P_CONTROLS_GROUP_VALID_GROUP2 = BIT 2"
definition PX4IO_P_CONTROLS_GROUP_VALID_GROUP3 :: u16 where [simp]: "PX4IO_P_CONTROLS_GROUP_VALID_GROUP3 = BIT 3"
definition PX4IO_PAGE_MIXERLOAD :: u8 where [simp]: "PX4IO_PAGE_MIXERLOAD = 52"
definition PX4IO_PAGE_RC_CONFIG :: u8 where [simp]: "PX4IO_PAGE_RC_CONFIG = 53"
definition PX4IO_P_RC_CONFIG_MIN :: nat where [simp]: "PX4IO_P_RC_CONFIG_MIN = 0"
definition PX4IO_P_RC_CONFIG_CENTER :: nat where [simp]: "PX4IO_P_RC_CONFIG_CENTER = 1"
definition PX4IO_P_RC_CONFIG_MAX :: nat where [simp]: "PX4IO_P_RC_CONFIG_MAX = 2"
definition PX4IO_P_RC_CONFIG_DEADZONE :: nat where [simp]: "PX4IO_P_RC_CONFIG_DEADZONE = 3"
definition PX4IO_P_RC_CONFIG_ASSIGNMENT :: nat where [simp]: "PX4IO_P_RC_CONFIG_ASSIGNMENT = 4"
definition PX4IO_P_RC_CONFIG_ASSIGNMENT_MODESWITCH :: u16 where [simp]: "PX4IO_P_RC_CONFIG_ASSIGNMENT_MODESWITCH = 100"
definition PX4IO_P_RC_CONFIG_OPTIONS :: nat where [simp]: "PX4IO_P_RC_CONFIG_OPTIONS = 5"
definition PX4IO_P_RC_CONFIG_OPTIONS_ENABLED :: u16 where [simp]: "PX4IO_P_RC_CONFIG_OPTIONS_ENABLED = BIT 0"
definition PX4IO_P_RC_CONFIG_OPTIONS_REVERSE :: u16 where [simp]: "PX4IO_P_RC_CONFIG_OPTIONS_REVERSE = BIT 1"
definition PX4IO_P_RC_CONFIG_STRIDE :: nat where [simp]: "PX4IO_P_RC_CONFIG_STRIDE = 6"
definition PX4IO_PAGE_DIRECT_PWM :: u8 where [simp]: "PX4IO_PAGE_DIRECT_PWM = 54"
definition PX4IO_PAGE_FAILSAFE_PWM :: u8 where [simp]: "PX4IO_PAGE_FAILSAFE_PWM = 55"
definition PX4IO_PAGE_SENSORS :: u8 where [simp]: "PX4IO_PAGE_SENSORS = 56"
definition PX4IO_P_SENSORS_ALTITUDE :: nat where [simp]: "PX4IO_P_SENSORS_ALTITUDE = 0"
definition PX4IO_PAGE_TEST :: u8 where [simp]: "PX4IO_PAGE_TEST = 127"
definition PX4IO_P_TEST_LED :: nat where [simp]: "PX4IO_P_TEST_LED = 0"
definition PX4IO_PAGE_CONTROL_MIN_PWM :: u8 where [simp]: "PX4IO_PAGE_CONTROL_MIN_PWM = 106"
definition PX4IO_PAGE_CONTROL_MAX_PWM :: u8 where [simp]: "PX4IO_PAGE_CONTROL_MAX_PWM = 107"
definition PX4IO_PAGE_CONTROL_TRIM_PWM :: u8 where [simp]: "PX4IO_PAGE_CONTROL_TRIM_PWM = 108"
definition PX4IO_PAGE_DISARMED_PWM :: u8 where [simp]: "PX4IO_PAGE_DISARMED_PWM = 109"
definition F2I_MIXER_MAGIC :: u16 where [simp]: "F2I_MIXER_MAGIC = 0x6d74"
definition F2I_MIXER_ACTION_RESET :: nat where [simp]: "F2I_MIXER_ACTION_RESET = 0"
definition F2I_MIXER_ACTION_APPEND :: nat where [simp]: "F2I_MIXER_ACTION_APPEND = 1"
definition PKT_MAX_REGS :: nat where [simp]: "PKT_MAX_REGS = 32"
definition PKT_CODE_READ :: u8 where [simp]: "PKT_CODE_READ = 0x00"
definition PKT_CODE_WRITE :: u8 where [simp]: "PKT_CODE_WRITE = 0x40"
definition PKT_CODE_SUCCESS :: u8 where [simp]: "PKT_CODE_SUCCESS = 0x00"
definition PKT_CODE_CORRUPT :: u8 where [simp]: "PKT_CODE_CORRUPT = 0x40"
definition PKT_CODE_ERROR :: u8 where [simp]: "PKT_CODE_ERROR = 0x80"
definition PKT_CODE_MASK :: u8 where [simp]: "PKT_CODE_MASK = 0xc0"
definition PKT_COUNT_MASK :: u8 where [simp]: "PKT_COUNT_MASK = 0x3f"

section \<open>Packets\<close>

record IOPacket =
  count_code :: u8
  crc :: u8
  page :: u8
  offset :: u8
  regs :: "u16 list"  \<comment> \<open>PKT_MAX_REGS entries\<close>

definition PKT_COUNT :: "IOPacket \<Rightarrow> nat" where
  "PKT_COUNT p = unat (count_code p AND PKT_COUNT_MASK)"

definition PKT_CODE :: "IOPacket \<Rightarrow> u8" where
  "PKT_CODE p = count_code p AND PKT_CODE_MASK"

definition PKT_SIZE :: "IOPacket \<Rightarrow> nat" where
  "PKT_SIZE p = 4 + 2 * PKT_COUNT p"

text \<open>The packed structure occupies 68 bytes.\<close>

definition sizeof_IOPacket :: nat where
  "sizeof_IOPacket = 4 + 2 * PKT_MAX_REGS"

section \<open>CRC-8\<close>

definition crc8_tab :: "u8 list" where
  "crc8_tab = [
    0x00, 0x07, 0x0E, 0x09, 0x1C, 0x1B, 0x12, 0x15,
    0x38, 0x3F, 0x36, 0x31, 0x24, 0x23, 0x2A, 0x2D,
    0x70, 0x77, 0x7E, 0x79, 0x6C, 0x6B, 0x62, 0x65,
    0x48, 0x4F, 0x46, 0x41, 0x54, 0x53, 0x5A, 0x5D,
    0xE0, 0xE7, 0xEE, 0xE9, 0xFC, 0xFB, 0xF2, 0xF5,
    0xD8, 0xDF, 0xD6, 0xD1, 0xC4, 0xC3, 0xCA, 0xCD,
    0x90, 0x97, 0x9E, 0x99, 0x8C, 0x8B, 0x82, 0x85,
    0xA8, 0xAF, 0xA6, 0xA1, 0xB4, 0xB3, 0xBA, 0xBD,
    0xC7, 0xC0, 0xC9, 0xCE, 0xDB, 0xDC, 0xD5, 0xD2,
    0xFF, 0xF8, 0xF1, 0xF6, 0xE3, 0xE4, 0xED, 0xEA,
    0xB7, 0xB0, 0xB9, 0xBE, 0xAB, 0xAC, 0xA5, 0xA2,
    0x8F, 0x88, 0x81, 0x86, 0x93, 0x94, 0x9D, 0x9A,
    0x27, 0x20, 0x29, 0x2E, 0x3B, 0x3C, 0x35, 0x32,
    0x1F, 0x18, 0x11, 0x16, 0x03, 0x04, 0x0D, 0x0A,
    0x57, 0x50, 0x59, 0x5E, 0x4B, 0x4C, 0x45, 0x42,
    0x6F, 0x68, 0x61, 0x66, 0x73, 0x74, 0x7D, 0x7A,
    0x89, 0x8E, 0x87, 0x80, 0x95, 0x92, 0x9B, 0x9C,
    0xB1, 0xB6, 0xBF, 0xB8, 0xAD, 0xAA, 0xA3, 0xA4,
    0xF9, 0xFE, 0xF7, 0xF0, 0xE5, 0xE2, 0xEB, 0xEC,
    0xC1, 0xC6, 0xCF, 0xC8, 0xDD, 0xDA, 0xD3, 0xD4,
    0x69, 0x6E, 0x67, 0x60, 0x75, 0x72, 0x7B, 0x7C,
    0x51, 0x56, 0x5F, 0x58, 0x4D, 0x4A, 0x43, 0x44,
    0x19, 0x1E, 0x17, 0x10, 0x05, 0x02, 0x0B, 0x0C,
    0x21, 0x26, 0x2F, 0x28, 0x3D, 0x3A, 0x33, 0x34,
    0x4E, 0x49, 0x40, 0x47, 0x52, 0x55, 0x5C, 0x5B,
    0x76, 0x71, 0x78, 0x7F, 0x6A, 0x6D, 0x64, 0x63,
    0x3E, 0x39, 0x30, 0x37, 0x22, 0x25, 0x2C, 0x2B,
    0x06, 0x01, 0x08, 0x0F, 0x1A, 0x1D, 0x14, 0x13,
    0xAE, 0xA9, 0xA0, 0xA7, 0xB2, 0xB5, 0xBC, 0xBB,
    0x96, 0x91, 0x98, 0x9F, 0x8A, 0x8D, 0x84, 0x83,
    0xDE, 0xD9, 0xD0, 0xD7, 0xC2, 0xC5, 0xCC, 0xCB,
    0xE6, 0xE1, 0xE8, 0xEF, 0xFA, 0xFD, 0xF4, 0xF3
  ]"

definition packet_bytes :: "IOPacket \<Rightarrow> u8 list" where
  "packet_bytes p = [count_code p, crc p, page p, offset p] @ concat (map le_bytes (regs p))"

definition crc8_step :: "u8 \<Rightarrow> u8 \<Rightarrow> u8" where
  "crc8_step c b = crc8_tab ! unat (c XOR b)"

text \<open>
  The loop runs from the packet's first byte to \<^verbatim>\<open>&regs[PKT_COUNT]\<close>. The count field has six
  bits, so it can name up to 63 registers while the packet holds \<^const>\<open>PKT_MAX_REGS\<close>: with a
  larger count the loop leaves the object, an out-of-bounds read (\<open>None\<close>).
\<close>

definition crc_packet :: "IOPacket \<Rightarrow> u8 option" where
  "crc_packet p =
     (if PKT_COUNT p \<le> length (regs p)
      then Some (foldl crc8_step 0 (take (PKT_SIZE p) (packet_bytes p)))
      else None)"

section \<open>Reference definition of the CRC\<close>

text \<open>One division step by x^8 + x^2 + x + 1, and eight of them for a byte.\<close>

definition crc8_shift :: "u8 \<Rightarrow> u8" where
  "crc8_shift c = (if bit c 7 then push_bit 1 c XOR 0x07 else push_bit 1 c)"

definition crc8_byte :: "u8 \<Rightarrow> u8" where
  "crc8_byte c = (crc8_shift ^^ 8) c"

definition crc8_ref :: "u8 \<Rightarrow> u8 list \<Rightarrow> u8" where
  "crc8_ref = foldl (\<lambda>c b. crc8_byte (c XOR b))"

lemma crc8_shift_ground:
  "crc8_shift 0 = 0" "crc8_shift 1 = 2"
  "crc8_shift (numeral k) =
     (if bit (numeral k :: u8) 7 then push_bit 1 (numeral k) XOR 7 else push_bit 1 (numeral k))"
  by (simp_all add: crc8_shift_def)

lemma crc8_byte_unroll:
  "crc8_byte c = crc8_shift (crc8_shift (crc8_shift (crc8_shift
     (crc8_shift (crc8_shift (crc8_shift (crc8_shift c)))))))"
  by (simp add: crc8_byte_def numeral_eq_Suc)

lemma crc8_byte_ground:
  "crc8_byte 0 = 0" "crc8_byte 1 = 7"
  "crc8_byte (numeral k) = crc8_shift (crc8_shift (crc8_shift (crc8_shift
     (crc8_shift (crc8_shift (crc8_shift (crc8_shift (numeral k))))))))"
  by (simp_all add: crc8_byte_unroll crc8_shift_ground)

lemma crc8_tab_eq: "crc8_tab = map (\<lambda>i. crc8_byte (word_of_nat i)) [0..<256]"
  by (simp add: crc8_tab_def upt_conv_Cons crc8_byte_ground crc8_shift_ground)

lemma crc8_step_eq: "crc8_step c b = crc8_byte (c XOR b)"
proof -
  have "unat (c XOR b) < 256"
    using unsigned_less [of "c XOR b"] by simp
  then show ?thesis
    by (simp add: crc8_step_def crc8_tab_eq)
qed
lemma foldl_crc8_step: "foldl crc8_step c bs = crc8_ref c bs"
  by (simp add: crc8_ref_def crc8_step_eq [abs_def])

text \<open>
  C11. For every packet whose count field fits the register array, the table-driven checksum
  computed over the packet's memory image is the CRC-8 with polynomial x^8 + x^2 + x + 1 of the
  same bytes, computed bit by bit.
\<close>

theorem crc_packet_is_crc8:
  assumes "PKT_COUNT p \<le> length (regs p)"
  shows "crc_packet p =
     Some (foldl (\<lambda>c b. (crc8_shift ^^ 8) (c XOR b)) 0 (take (PKT_SIZE p) (packet_bytes p)))"
  using assms by (simp add: crc_packet_def foldl_crc8_step crc8_ref_def crc8_byte_def)

theorem crc_packet_is_crc8_witness:
  "crc_packet \<lparr>count_code = 0x41, crc = 0, page = 51, offset = 2, regs = 0x12 # replicate 31 0\<rparr> =
     Some (foldl (\<lambda>c b. (crc8_shift ^^ 8) (c XOR b)) 0 [0x41, 0, 51, 2, 0x12, 0])"
proof -
  let ?p = "\<lparr>count_code = 0x41, crc = 0, page = 51, offset = 2, regs = 0x12 # replicate 31 0\<rparr> :: IOPacket"
  have "PKT_COUNT ?p \<le> length (regs ?p)"
    by (simp add: PKT_COUNT_def)
  from crc_packet_is_crc8 [OF this] show ?thesis
    by (simp add: PKT_SIZE_def PKT_COUNT_def packet_bytes_def le_bytes_def)
qed

end
