(* ===== verification/Float32.thy ===== *)
theory Float32
  imports Complex_Main "HOL-Library.Log_Nat"
begin

text \<open>
  Single-precision arithmetic as the firmware uses it. A finite value is a rational; every
  operation rounds its exact result to 24 significant bits, ties to even. Magnitudes that would
  overflow or become subnormal are outside the range of the code modelled here, and NaN is a
  separate constructor where the code can produce it.
\<close>

definition ilog2 :: "rat \<Rightarrow> int" where
  "ilog2 x =
     (let (p, q) = quotient_of x; e = int (floorlog 2 (nat p)) - int (floorlog 2 (nat q))
      in if 2 powi e \<le> x then e else e - 1)"

definition rne :: "rat \<Rightarrow> int" where
  "rne x =
     (let f = \<lfloor>x\<rfloor>; d = x - of_int f
      in if d < 1 / 2 then f else if d > 1 / 2 then f + 1 else if even f then f else f + 1)"

definition f32 :: "rat \<Rightarrow> rat" where
  "f32 x = (if x = 0 then 0 else let u = 2 powi (ilog2 \<bar>x\<bar> - 23) in of_int (rne (x / u)) * u)"

definition f32_add :: "rat \<Rightarrow> rat \<Rightarrow> rat" where "f32_add x y = f32 (x + y)"
definition f32_mult :: "rat \<Rightarrow> rat \<Rightarrow> rat" where "f32_mult x y = f32 (x * y)"
definition f32_div :: "rat \<Rightarrow> rat \<Rightarrow> rat" where "f32_div x y = f32 (x / y)"

text \<open>Conversion to an integer type truncates towards zero.\<close>

definition f32_trunc :: "rat \<Rightarrow> int" where
  "f32_trunc x = (if x < 0 then - \<lfloor>- x\<rfloor> else \<lfloor>x\<rfloor>)"

lemma nat_powi_bounds:
  assumes "2 ^ (a - 1) \<le> nat p" "nat p < 2 ^ a" "0 < a" "0 < p"
  shows "2 powi (int a - 1) \<le> (of_int p :: rat)" "(of_int p :: rat) < 2 powi int a"
proof -
  have p: "(of_int p :: rat) = of_nat (nat p)"
    using assms(4) by simp
  have "int a - 1 = int (a - 1)"
    using assms(3) by simp
  then have "(2::rat) powi (int a - 1) = of_nat (2 ^ (a - 1))"
    by (simp only: power_int_of_nat) simp
  with assms(1) show "2 powi (int a - 1) \<le> (of_int p :: rat)"
    unfolding p by (simp only: of_nat_le_iff)
  have "(2::rat) powi int a = of_nat (2 ^ a)"
    by simp
  with assms(2) show "(of_int p :: rat) < 2 powi int a"
    unfolding p by (simp only: of_nat_less_iff)
qed

lemma ilog2_bounds:
  assumes "0 < x"
  shows "2 powi ilog2 x \<le> x" and "x < 2 powi (ilog2 x + 1)"
proof -
  obtain p q where pq: "quotient_of x = (p, q)"
    by fastforce
  then have q: "q > 0" and x: "x = of_int p / of_int q"
    by (auto simp: quotient_of_denom_pos intro: quotient_of_div)
  from assms q x have p: "p > 0"
    by (simp add: zero_less_divide_iff)
  define a b where "a = floorlog 2 (nat p)" and "b = floorlog 2 (nat q)"
  have a: "2 ^ (a - 1) \<le> nat p" "nat p < 2 ^ a" "a > 0" and b: "2 ^ (b - 1) \<le> nat q" "nat q < 2 ^ b" "b > 0"
    using p q floorlog_bounds [of "nat p" 2] floorlog_bounds [of "nat q" 2]
    by (auto simp: a_def b_def floorlog_def)
  note pa = nat_powi_bounds [OF a p] and qb = nat_powi_bounds [OF b q]
  have "2 powi (int a - 1) / 2 powi int b \<le> x"
    unfolding x using pa(1) qb p q by (intro frac_le) simp_all
  then have lo: "2 powi (int a - int b - 1) \<le> x"
    by (simp add: power_int_diff)
  have "x < 2 powi int a / 2 powi (int b - 1)"
    unfolding x using pa qb p q by (intro frac_less) simp_all
  then have hi: "x < 2 powi (int a - int b + 1)"
    by (simp add: power_int_diff power_int_add)
  show "2 powi ilog2 x \<le> x" and "x < 2 powi (ilog2 x + 1)"
    using lo hi by (auto simp: ilog2_def pq a_def b_def Let_def)
qed

lemma ilog2_mono:
  assumes "0 < x" and "x \<le> y"
  shows "ilog2 x \<le> ilog2 y"
proof (rule ccontr)
  assume "\<not> ilog2 x \<le> ilog2 y"
  then have "(2::rat) powi (ilog2 y + 1) \<le> 2 powi ilog2 x"
    by (intro power_int_increasing) auto
  with ilog2_bounds [of x] ilog2_bounds [of y] assms show False
    by linarith
qed

lemma rne_floor: "\<lfloor>x\<rfloor> \<le> rne x" "rne x \<le> \<lfloor>x\<rfloor> + 1"
  by (simp_all add: rne_def Let_def)

lemma rne_mono:
  assumes "x \<le> y"
  shows "rne x \<le> rne y"
proof (cases "\<lfloor>x\<rfloor> = \<lfloor>y\<rfloor>")
  case True
  with assms show ?thesis
    by (auto simp: rne_def Let_def)
next
  case False
  with floor_mono [OF assms] rne_floor [of x] rne_floor [of y] show ?thesis
    by linarith
qed

lemma rne_of_int [simp]: "rne (of_int n) = n"
  by (simp add: rne_def)

lemma rne_neg: "rne (- x) = - rne x"
proof (cases "x = of_int \<lfloor>x\<rfloor>")
  case True
  then show ?thesis
    by (metis of_int_minus rne_of_int)
next
  case False
  then have f: "\<lfloor>- x\<rfloor> = - \<lfloor>x\<rfloor> - 1"
    by (simp add: floor_eq_iff) linarith
  show ?thesis
    by (auto simp: rne_def Let_def f)
qed

lemma f32_0 [simp]: "f32 0 = 0"
  by (simp add: f32_def)

lemma f32_neg: "f32 (- x) = - f32 x"
  by (simp add: f32_def Let_def rne_neg)

lemma f32_binade:
  assumes "0 < x"
  shows "2 powi ilog2 x \<le> f32 x" and "f32 x \<le> 2 powi (ilog2 x + 1)"
proof -
  define u :: rat where "u = 2 powi (ilog2 x - 23)"
  have u: "0 < u"
    by (simp add: u_def)
  have ux: "f32 x = of_int (rne (x / u)) * u"
    using assms by (simp add: f32_def u_def Let_def)
  have lo: "2 powi ilog2 x = of_int (2 ^ 23) * u" and hi: "2 powi (ilog2 x + 1) = of_int (2 ^ 24) * u"
    by (simp_all add: u_def power_int_diff power_int_add)
  have "rne (of_int (2 ^ 23)) \<le> rne (x / u)"
    using ilog2_bounds(1) [OF assms] u unfolding lo by (intro rne_mono) (simp add: le_divide_eq)
  then show "2 powi ilog2 x \<le> f32 x"
    unfolding lo ux using u by (simp only: rne_of_int of_int_le_iff mult_le_cancel_right_pos)
  have "rne (x / u) \<le> rne (of_int (2 ^ 24))"
    using ilog2_bounds(2) [OF assms] u unfolding hi by (intro rne_mono) (simp add: divide_le_eq)
  then show "f32 x \<le> 2 powi (ilog2 x + 1)"
    unfolding hi ux using u by (simp only: rne_of_int of_int_le_iff mult_le_cancel_right_pos)
qed

lemma f32_pos: "0 < x \<Longrightarrow> 0 < f32 x"
  using f32_binade(1) [of x] by (meson less_le_trans zero_less_power_int zero_less_numeral)

lemma f32_mono_pos:
  assumes "0 < x" and "x \<le> y"
  shows "f32 x \<le> f32 y"
proof (cases "ilog2 x = ilog2 y")
  case True
  have "x / 2 powi (ilog2 x - 23) \<le> y / 2 powi (ilog2 x - 23)"
    using assms(2) by (simp add: divide_right_mono)
  from rne_mono [OF this] assms True show ?thesis
    by (simp add: f32_def Let_def mult_right_mono)
next
  case False
  with ilog2_mono [OF assms] have "(2::rat) powi (ilog2 x + 1) \<le> 2 powi ilog2 y"
    by (intro power_int_increasing) auto
  with f32_binade [of x] f32_binade [of y] assms show ?thesis
    by linarith
qed

lemma f32_mono:
  assumes "x \<le> y"
  shows "f32 x \<le> f32 y"
proof -
  consider "0 < x" | "x \<le> 0" "0 \<le> y" | "y < 0"
    by linarith
  then show ?thesis
  proof cases
    case 1
    then show ?thesis using assms by (rule f32_mono_pos)
  next
    case 2
    then have "0 \<le> f32 y" "0 \<le> f32 (- x)"
      using f32_pos [of y] f32_pos [of "- x"] f32_0 by (metis less_le neg_0_le_iff_le)+
    then show ?thesis by (simp add: f32_neg)
  next
    case 3
    with assms have "f32 (- y) \<le> f32 (- x)"
      by (intro f32_mono_pos) auto
    then show ?thesis by (simp add: f32_neg)
  qed
qed

lemma f32_of_nat:
  assumes "n < 2 ^ 24"
  shows "f32 (of_nat n) = of_nat n"
proof (cases "n = 0")
  case False
  let ?x = "of_nat n :: rat"
  have x: "0 < ?x"
    using False by simp
  have "?x < of_nat (2 ^ 24)"
    using assms by (simp only: of_nat_less_iff)
  then have "(2::rat) powi ilog2 ?x < 2 powi 24"
    using ilog2_bounds(1) [OF x] by simp
  then have "ilog2 ?x \<le> 23"
    using power_int_increasing [of 24 "ilog2 ?x" "2::rat"] by fastforce
  then obtain k where k: "23 - ilog2 ?x = int k"
    by (metis diff_ge_0_iff_ge nonneg_int_cases)
  then have u: "(2::rat) powi (ilog2 ?x - 23) = 1 / 2 ^ k"
    by (metis minus_diff_eq power_int_minus_divide power_int_of_nat)
  have "?x / (1 / 2 ^ k) = of_int (int n * 2 ^ k)"
    by simp
  then have "rne (?x / (1 / 2 ^ k)) = int n * 2 ^ k"
    by (simp only: rne_of_int)
  then show ?thesis
    using False by (simp add: f32_def u Let_def)
qed simp

lemma f32_of_int:
  assumes "\<bar>n\<bar> < 2 ^ 24"
  shows "f32 (of_int n) = of_int n"
proof (cases "0 \<le> n")
  case True
  with f32_of_nat [of "nat n"] assms show ?thesis
    by simp
next
  case False
  with f32_of_nat [of "nat (- n)"] assms show ?thesis
    by (simp add: f32_neg)
qed

lemma f32_trunc_of_int [simp]: "f32_trunc (of_int n) = n"
  by (simp add: f32_trunc_def flip: of_int_minus)

lemma f32_trunc_neg: "f32_trunc (- x) = - f32_trunc x"
  by (auto simp: f32_trunc_def)

lemma f32_trunc_mono:
  assumes "x \<le> y"
  shows "f32_trunc x \<le> f32_trunc y"
proof (cases "x < 0 \<and> 0 \<le> y")
  case True
  then have "0 \<le> \<lfloor>- x\<rfloor>" "0 \<le> \<lfloor>y\<rfloor>"
    by simp_all
  then have "- \<lfloor>- x\<rfloor> \<le> \<lfloor>y\<rfloor>"
    by linarith
  with True show ?thesis
    by (simp add: f32_trunc_def)
next
  case False
  with assms floor_mono [OF assms] floor_mono [of "- y" "- x"] show ?thesis
    by (auto simp: f32_trunc_def)
qed

text \<open>
  What the numeric code relies on: rounding is monotone, odd and exact on the integers that fit
  the significand. The bounds used by the components follow from these laws.
\<close>

locale rounding =
  fixes rnd :: "rat \<Rightarrow> rat" and bits :: nat
  assumes mono: "x \<le> y \<Longrightarrow> rnd x \<le> rnd y"
    and neg: "rnd (- x) = - rnd x"
    and exact: "\<bar>n\<bar> < 2 ^ bits \<Longrightarrow> rnd (of_int n) = of_int n"
begin

lemma bound:
  assumes "\<bar>x\<bar> \<le> of_int n" and "n < 2 ^ bits"
  shows "\<bar>rnd x\<bar> \<le> of_int n"
proof -
  have "0 \<le> n"
    using assms(1) by (metis abs_ge_zero of_int_0_le_iff order_trans)
  with assms(2) have "rnd (of_int n) = of_int n"
    by (simp add: exact)
  with mono [of x "of_int n"] mono [of "- x" "of_int n"] assms(1) show ?thesis
    by (auto simp: abs_le_iff neg)
qed

lemma sign: "0 \<le> x \<Longrightarrow> 0 \<le> rnd x" "x \<le> 0 \<Longrightarrow> rnd x \<le> 0"
  using mono [of 0 x] mono [of x 0] exact [of 0] by simp_all

end

interpretation f32: rounding f32 24
  by unfold_locales (rule f32_mono f32_neg f32_of_int; assumption?)+

lemma f32_trunc_bound: "\<bar>x\<bar> \<le> of_int n \<Longrightarrow> \<bar>f32_trunc x\<bar> \<le> n"
  using f32_trunc_mono [of x "of_int n"] f32_trunc_mono [of "- of_int n" x]
  by (auto simp: abs_le_iff f32_trunc_neg)

lemma f32_trunc_eq: "0 \<le> n \<Longrightarrow> of_int n \<le> x \<Longrightarrow> x < of_int n + 1 \<Longrightarrow> f32_trunc x = n"
  by (auto simp: f32_trunc_def floor_eq_iff)

text \<open>Multiples of a power of two that fit the significand are exact too, and bound what lies between them.\<close>

lemma f32_dyadic:
  assumes "\<bar>n\<bar> < 2 ^ 24"
  shows "f32 (of_int n / 2 ^ j) = of_int n / 2 ^ j"
proof -
  have pos: "f32 (of_int m / 2 ^ j) = of_int m / 2 ^ j" if m: "0 < m" "m < 2 ^ 24" for m :: int
  proof -
    let ?x = "of_int m / 2 ^ j :: rat"
    have x: "0 < ?x"
      using m by simp
    have "of_int m < (of_int (2 ^ 24) :: rat)"
      using m(2) by (simp only: of_int_less_iff)
    then have "?x < 2 powi (24 - int j)"
      by (simp add: power_int_diff divide_strict_right_mono)
    then have "(2::rat) powi ilog2 ?x < 2 powi (24 - int j)"
      using ilog2_bounds(1) [OF x] by (rule order.strict_trans1 [rotated])
    then have "ilog2 ?x < 24 - int j"
      using power_int_increasing [of "24 - int j" "ilog2 ?x" "2::rat"] by fastforce
    then obtain k where "23 - int j - ilog2 ?x = int k"
      using nonneg_int_cases [of "23 - int j - ilog2 ?x"] by auto
    then have "ilog2 ?x - 23 = - int (j + k)"
      by simp
    then have u: "(2::rat) powi (ilog2 ?x - 23) = 1 / 2 ^ (j + k)"
      by (simp only: power_int_minus_divide power_int_of_nat)
    have "?x / (1 / 2 ^ (j + k)) = of_int (m * 2 ^ k)"
      by (simp add: power_add)
    then have "rne (?x / (1 / 2 ^ (j + k))) = m * 2 ^ k"
      by (simp only: rne_of_int)
    moreover have "\<bar>?x\<bar> = ?x"
      using x by (rule abs_of_pos)
    ultimately show ?thesis
      using x by (simp only: f32_def u Let_def) (simp add: power_add)
  qed
  consider "n = 0" | "0 < n" | "0 < - n"
    by linarith
  then show ?thesis
  proof cases
    case 3
    then show ?thesis
      using pos [of "- n"] assms f32_neg [of "of_int n / 2 ^ j"] by simp
  qed (use pos assms in simp_all)
qed

lemma f32_between:
  assumes "of_int a / 2 ^ j \<le> x" "x \<le> of_int b / 2 ^ j" "\<bar>a\<bar> < 2 ^ 24" "\<bar>b\<bar> < 2 ^ 24"
  shows "of_int a / 2 ^ j \<le> f32 x" "f32 x \<le> of_int b / 2 ^ j"
  using f32_mono [OF assms(1)] f32_mono [OF assms(2)] f32_dyadic [OF assms(3)] f32_dyadic [OF assms(4)] by simp_all
end
