(* ===== verification/Output_Limit.thy ===== *)
theory Output_Limit
  imports Prelude Float32
begin

text \<open>
  The output limiter (\<^verbatim>\<open>src/lib/output_limit\<close>): the state machine that holds outputs at their
  disarmed value, ramps them up after arming and then scales controls to pulse widths. Control
  values are single-precision numbers; a channel can be disabled by a NaN.
\<close>

datatype flt = Fin rat | NaN

datatype output_limit_state =
  OUTPUT_LIMIT_STATE_OFF | OUTPUT_LIMIT_STATE_INIT | OUTPUT_LIMIT_STATE_RAMP | OUTPUT_LIMIT_STATE_ON

record output_limit_t =
  state :: output_limit_state
  time_armed :: u64
  ramp_up :: bool

definition INIT_TIME_US :: u64 where [simp]: "INIT_TIME_US = 50000"
definition RAMP_TIME_US :: u64 where [simp]: "RAMP_TIME_US = 500000"
definition PROGRESS_INT_SCALING :: u64 where [simp]: "PROGRESS_INT_SCALING = 10000"

definition output_limit_init :: "output_limit_t \<Rightarrow> output_limit_t" where
  "output_limit_init l = l\<lparr>state := OUTPUT_LIMIT_STATE_INIT, time_armed := 0, ramp_up := True\<rparr>"

definition output_limit_step :: "u64 \<Rightarrow> bool \<Rightarrow> output_limit_t \<Rightarrow> output_limit_t" where
  "output_limit_step now armed l =
     (case state l of
        OUTPUT_LIMIT_STATE_INIT \<Rightarrow>
          if armed then
            let l1 = (if time_armed l = 0 then l\<lparr>time_armed := now\<rparr> else l)
            in if now - time_armed l1 \<ge> INIT_TIME_US then l1\<lparr>state := OUTPUT_LIMIT_STATE_OFF\<rparr> else l1
          else l
      | OUTPUT_LIMIT_STATE_OFF \<Rightarrow>
          if armed then
            l\<lparr>state := (if ramp_up l then OUTPUT_LIMIT_STATE_RAMP else OUTPUT_LIMIT_STATE_ON),
              time_armed := now\<rparr>
          else l
      | OUTPUT_LIMIT_STATE_RAMP \<Rightarrow>
          if \<not> armed then l\<lparr>state := OUTPUT_LIMIT_STATE_OFF\<rparr>
          else if now - time_armed l \<ge> RAMP_TIME_US then l\<lparr>state := OUTPUT_LIMIT_STATE_ON\<rparr>
          else l
      | OUTPUT_LIMIT_STATE_ON \<Rightarrow>
          if \<not> armed then l\<lparr>state := OUTPUT_LIMIT_STATE_OFF\<rparr> else l)"

text \<open>\<^verbatim>\<open>control * (max - min) / 2 + (max + min) / 2\<close>, converted to 16 bits, then clamped.\<close>

definition scale_output :: "u16 \<Rightarrow> u16 \<Rightarrow> bool \<Rightarrow> rat \<Rightarrow> u16" where
  "scale_output min_out max_out reversed control_value =
     (let c = (if reversed then f32_mult (- 1) control_value else control_value);
          x = f32_add (f32_div (f32_mult c (of_int (uint max_out - uint min_out))) 2)
                (of_int ((uint max_out + uint min_out) div 2));
          out = of_int (f32_trunc x)
      in if out < min_out then min_out else if out > max_out then max_out else out)"

definition ramp_progress :: "u64 \<Rightarrow> u32" where
  "ramp_progress diff =
     (let p = ucast (diff * PROGRESS_INT_SCALING div RAMP_TIME_US) :: u32
      in if p > 10000 then 10000 else p)"

definition ramp_min_output :: "u32 \<Rightarrow> u16 \<Rightarrow> u16 \<Rightarrow> u16" where
  "ramp_min_output progress disarmed_out min_out =
     (if disarmed_out > 0 then
        let disarmed = (if disarmed_out > min_out then ucast min_out else ucast disarmed_out) :: u32;
            disarmed_min_diff = ucast min_out - disarmed
        in ucast (disarmed + (disarmed_min_diff * progress) div 10000)
      else min_out)"

definition output_limit_channel ::
    "output_limit_state \<Rightarrow> u32 \<Rightarrow> bool \<Rightarrow> u16 \<Rightarrow> u16 \<Rightarrow> u16 \<Rightarrow> flt \<Rightarrow> u16" where
  "output_limit_channel st progress reversed disarmed_out min_out max_out control =
     (case st of
        OUTPUT_LIMIT_STATE_OFF \<Rightarrow> disarmed_out
      | OUTPUT_LIMIT_STATE_INIT \<Rightarrow> disarmed_out
      | OUTPUT_LIMIT_STATE_RAMP \<Rightarrow>
          (case control of NaN \<Rightarrow> disarmed_out
           | Fin c \<Rightarrow> scale_output (ramp_min_output progress disarmed_out min_out) max_out reversed c)
      | OUTPUT_LIMIT_STATE_ON \<Rightarrow>
          (case control of NaN \<Rightarrow> disarmed_out | Fin c \<Rightarrow> scale_output min_out max_out reversed c))"

definition output_limit_calc ::
    "u64 \<Rightarrow> bool \<Rightarrow> bool \<Rightarrow> nat \<Rightarrow> u16 \<Rightarrow> u16 list \<Rightarrow> u16 list \<Rightarrow> u16 list \<Rightarrow> flt list \<Rightarrow>
     u16 list \<Rightarrow> output_limit_t \<Rightarrow> u16 list \<times> output_limit_t" where
  "output_limit_calc now armed pre_armed num_channels reverse_mask disarmed_output min_output max_output
       output effective_output l =
     (let l' = output_limit_step now armed l;
          local_limit_state = (if pre_armed then OUTPUT_LIMIT_STATE_ON else state l');
          progress = ramp_progress (now - time_armed l')
      in (map (\<lambda>i. output_limit_channel local_limit_state progress (bit reverse_mask i)
                    (disarmed_output ! i) (min_output ! i) (max_output ! i) (output ! i))
            [0..<num_channels] @ drop num_channels effective_output, l'))"

section \<open>Lemmas\<close>

lemma scale_output_range:
  "min_out \<le> max_out \<Longrightarrow>
   min_out \<le> scale_output min_out max_out r c \<and> scale_output min_out max_out r c \<le> max_out"
  by (simp add: scale_output_def Let_def not_less)

lemma ramp_progress_le: "ramp_progress d \<le> 10000"
  by (simp add: ramp_progress_def Let_def not_less)

lemma ramp_min_nat:
  fixes m :: u16
  assumes "p \<le> 10000" and "0 < d"
  defines "e \<equiv> min (unat d) (unat m)"
  shows "unat (ramp_min_output p d m) = e + (unat m - e) * unat p div 10000"
    and "e + (unat m - e) * unat p div 10000 \<le> unat m"
proof -
  define D :: u32 where "D = (if d > m then ucast m else ucast d)"
  have m: "unat m < 65536" and em: "e \<le> unat m"
    using unsigned_less [of m] by (simp_all add: e_def)
  have p: "unat p \<le> 10000"
    using assms(1) by (simp add: word_le_nat_alt)
  have D: "unat D = e"
    by (auto simp: D_def e_def word_less_nat_alt unat_ucast_widen)
  have diff: "unat (ucast m - D) = unat m - e"
    using em D by (subst unat_sub) (auto simp: word_le_nat_alt unat_ucast_widen)
  have "(unat m - e) * unat p \<le> (unat m - e) * 10000"
    using p by simp
  then have "(unat m - e) * unat p div 10000 \<le> unat m - e"
    using div_le_mono [of _ "(unat m - e) * 10000" 10000] by simp
  with em show sum: "e + (unat m - e) * unat p div 10000 \<le> unat m"
    by linarith
  have "(unat m - e) * unat p < 2 ^ 32"
  proof -
    have "unat m - e \<le> 65535"
      using m by linarith
    with p show ?thesis
      using mult_le_mono [of "unat m - e" 65535 "unat p" 10000] by simp
  qed
  then have prod: "unat ((ucast m - D) * p) = (unat m - e) * unat p"
    by (simp add: unat_word_ariths diff)
  have quot: "unat ((ucast m - D) * p div 10000) = (unat m - e) * unat p div 10000"
    by (simp add: unat_div prod)
  then have "unat (D + (ucast m - D) * p div 10000) = e + (unat m - e) * unat p div 10000"
    using sum m by (simp add: unat_word_ariths D)
  moreover have "ramp_min_output p d m = ucast (D + (ucast m - D) * p div 10000)"
    using assms(2) by (simp add: ramp_min_output_def D_def Let_def)
  ultimately show "unat (ramp_min_output p d m) = e + (unat m - e) * unat p div 10000"
    using sum m by (simp add: unat_ucast_fits)
qed

lemma ramp_min_le: "p \<le> 10000 \<Longrightarrow> ramp_min_output p d m \<le> m"
proof (cases "0 < d")
  case True
  moreover assume "p \<le> 10000"
  ultimately show ?thesis
    using ramp_min_nat [of p d m] by (simp add: word_le_nat_alt)
qed (simp add: ramp_min_output_def)


lemma output_limit_calc_nth:
  assumes "i < num_channels"
  shows "fst (output_limit_calc now armed pre_armed num_channels rm dis mi ma out eff l) ! i =
     (let l' = output_limit_step now armed l
      in output_limit_channel (if pre_armed then OUTPUT_LIMIT_STATE_ON else state l')
           (ramp_progress (now - time_armed l')) (bit rm i) (dis ! i) (mi ! i) (ma ! i) (out ! i))"
  using assms by (simp add: output_limit_calc_def Let_def nth_append)

lemma output_limit_channel_range:
  assumes "mi \<le> ma" and "p \<le> 10000"
  shows "output_limit_channel st p r di mi ma c = di \<or>
     output_limit_channel st p r di mi ma c \<le> ma \<and>
     ((if di = 0 then mi else min di mi) \<le> output_limit_channel st p r di mi ma c)"
proof (cases "\<exists>x. c = Fin x \<and> st = OUTPUT_LIMIT_STATE_RAMP")
  case True
  then obtain x where x: "c = Fin x" "st = OUTPUT_LIMIT_STATE_RAMP"
    by blast
  let ?r = "ramp_min_output p di mi"
  have le: "?r \<le> mi" and lo: "(if di = 0 then mi else min di mi) \<le> ?r"
    using ramp_min_le [OF assms(2)] ramp_min_nat [OF assms(2), of di mi]
    by (auto simp: ramp_min_output_def word_le_nat_alt word_neq_0_conv min_def)
  have "?r \<le> scale_output ?r ma r x" "scale_output ?r ma r x \<le> ma"
    using scale_output_range [of ?r ma r x] le assms(1) by auto
  with lo x show ?thesis
    by (auto simp: output_limit_channel_def simp del: min_le_iff_disj intro: order_trans)
next
  case False
  with scale_output_range [OF assms(1), of r] show ?thesis
    by (cases c; cases st) (auto simp: output_limit_channel_def min_def intro: order_trans)
qed

section \<open>Results\<close>

text \<open>
  Last line of defence: whatever the control values (out of range, or NaN), every output the
  limiter computes is the disarmed value of its channel or lies between its lower end (the minimum,
  or the disarmed value where that is set and smaller) and its maximum.
\<close>

lemma output_limit_in_range:
  assumes "i < num_channels" and "mi ! i \<le> ma ! i"
  shows "let v = fst (output_limit_calc now armed pre_armed num_channels rm dis mi ma out eff l) ! i
         in v = dis ! i \<or>
            v \<le> ma ! i \<and> (if dis ! i = 0 then mi ! i else min (dis ! i) (mi ! i)) \<le> v"
  unfolding Let_def output_limit_calc_nth [OF assms(1)]
  by (rule output_limit_channel_range [OF assms(2) ramp_progress_le])

text \<open>
  Disarmed outputs: as long as the limiter is told neither armed nor pre-armed, every output is
  the disarmed value of its channel, in every state of the limiter.
\<close>

lemma output_limit_disarmed:
  assumes "i < num_channels"
  shows "fst (output_limit_calc now False False num_channels rm dis mi ma out eff l) ! i = dis ! i"
  unfolding output_limit_calc_nth [OF assms]
  by (simp add: output_limit_step_def output_limit_channel_def Let_def split: output_limit_state.split)

end
