(* ===== verification/IO_State.thy ===== *)
theory IO_State
  imports IO_Protocol Output_Limit
begin

text \<open>
  The global state of the PX4IO firmware (\<^verbatim>\<open>src/modules/px4iofirmware\<close>): the register pages of
  \<^verbatim>\<open>registers.c\<close>, the \<^verbatim>\<open>system_state\<close> structure, the static variables of \<^verbatim>\<open>safety.c\<close>,
  \<^verbatim>\<open>controls.c\<close>, \<^verbatim>\<open>mixer.cpp\<close> and \<^verbatim>\<open>px4io.c\<close>, and the commands given to the
  hardware, in the order they are issued. The theory fixes the sizes of the pages (\<open>io_wf\<close>), the
  state after static initialisation (\<open>io_init\<close>) and the register aliases of \<^verbatim>\<open>px4io.h\<close>.
\<close>

section \<open>Sizes and limits\<close>

definition PX4IO_BL_VERSION :: nat where [simp]: "PX4IO_BL_VERSION = 3"
definition PX4IO_SERVO_COUNT :: nat where [simp]: "PX4IO_SERVO_COUNT = 8"
definition PX4IO_CONTROL_CHANNELS :: nat where [simp]: "PX4IO_CONTROL_CHANNELS = 8"
definition PX4IO_CONTROL_GROUPS :: nat where [simp]: "PX4IO_CONTROL_GROUPS = 4"
definition PX4IO_RC_INPUT_CHANNELS :: nat where [simp]: "PX4IO_RC_INPUT_CHANNELS = 18"
definition PX4IO_RC_MAPPED_CONTROL_CHANNELS :: nat where
  [simp]: "PX4IO_RC_MAPPED_CONTROL_CHANNELS = 8"
definition PX4IO_RELAY_CHANNELS :: nat where [simp]: "PX4IO_RELAY_CHANNELS = 0"
definition PX4IO_ADC_CHANNEL_COUNT :: nat where [simp]: "PX4IO_ADC_CHANNEL_COUNT = 2"
definition ADC_VSERVO :: nat where [simp]: "ADC_VSERVO = 4"
definition ADC_RSSI :: nat where [simp]: "ADC_RSSI = 5"

definition PWM_LOWEST_MIN :: u16 where [simp]: "PWM_LOWEST_MIN = 90"
definition PWM_DEFAULT_MIN :: u16 where [simp]: "PWM_DEFAULT_MIN = 1000"
definition PWM_HIGHEST_MIN :: u16 where [simp]: "PWM_HIGHEST_MIN = 1600"
definition PWM_HIGHEST_MAX :: u16 where [simp]: "PWM_HIGHEST_MAX = 2500"
definition PWM_DEFAULT_MAX :: u16 where [simp]: "PWM_DEFAULT_MAX = 2000"
definition PWM_DEFAULT_TRIM :: u16 where [simp]: "PWM_DEFAULT_TRIM = 0"
definition PWM_LOWEST_MAX :: u16 where [simp]: "PWM_LOWEST_MAX = 200"
definition PWM_IGNORE_THIS_CHANNEL :: u16 where [simp]: "PWM_IGNORE_THIS_CHANNEL = 0xFFFF"

section \<open>Hardware\<close>

text \<open>
  Commands to the drivers and pins, and what the drivers answer when a register page is read or
  a PWM rate is configured. The answers are inputs of the firmware: a record of functions.
\<close>

datatype hw_cmd =
    UpPwmUpdate
  | UpPwmServoArm bool
  | UpPwmServoSet nat u16
  | UpPwmRateGroup nat u16
  | EnableSbusOut bool
  | Sbus1SetRate u16
  | Sbus1Output "u16 list"
  | Sbus2Output "u16 list"
  | DsmBind u16 u16
  | LedAmber bool
  | LedBlue bool
  | LedSafety bool
  | LedRing bool
  | SystemReset

record io_hw =
  rate_group :: "nat \<Rightarrow> u32"              \<comment> \<open>up_pwm_servo_get_rate_group\<close>
  set_rate_ok :: "nat \<Rightarrow> u16 \<Rightarrow> bool"    \<comment> \<open>up_pwm_servo_set_rate_group_update == OK\<close>
  adc :: "nat \<Rightarrow> u16"                     \<comment> \<open>adc_measure, 0xffff on error\<close>

section \<open>State\<close>

datatype mixer_source =
  MIX_NONE | MIX_DISARMED | MIX_FMU | MIX_OVERRIDE | MIX_FAILSAFE | MIX_OVERRIDE_FMU_OK

record io =
  r_page_status :: "u16 list"
  r_page_actuators :: "u16 list"
  r_page_servos :: "u16 list"
  r_page_raw_rc_input :: "u16 list"
  r_page_rc_input :: "u16 list"
  r_page_scratch :: "u16 list"
  r_page_direct_pwm :: "u16 list"
  r_page_setup :: "u16 list"
  r_page_controls :: "u16 list"
  r_page_rc_input_config :: "u16 list"
  r_page_servo_failsafe :: "u16 list"
  r_page_servo_control_min :: "u16 list"
  r_page_servo_control_max :: "u16 list"
  r_page_servo_control_trim :: "u16 list"
  r_page_servo_disarmed :: "u16 list"
  update_mc_thrust_param :: bool
  update_trims :: bool
  last_page :: u8
  last_offset :: u8
  rc_channels_timestamp_received :: u64
  rc_channels_timestamp_valid :: u64
  fmu_data_received_time :: u64
  reboot_time :: u64
  msg_counter :: u32
  last_msg_counter :: u32
  button_counter :: u32                 \<comment> \<open>\<^verbatim>\<open>counter\<close> of safety.c\<close>
  blink_counter :: u32
  failsafe_phase :: bool                \<comment> \<open>\<^verbatim>\<open>failsafe\<close> of failsafe_blink\<close>
  rc_value_override :: u16
  rssi_adc_counts :: u32
  rssi :: u16
  frame_drops :: u32
  ppm_last_valid_decode :: u64          \<comment> \<open>set by the PPM decoder of the timer interrupt\<close>
  mixer_servos_armed :: bool
  should_arm :: bool
  should_arm_nothrottle :: bool
  should_always_enable_pwm :: bool
  mix_failsafe :: bool
  new_fmu_data :: bool
  last_fmu_update :: u64
  source :: mixer_source
  pwm_limit :: output_limit_t
  mixer_text :: "u8 list"               \<comment> \<open>the first \<^verbatim>\<open>mixer_text_length\<close> bytes\<close>
  mixer_update_pending :: bool
  mixer_reset_pending :: bool
  hw :: "hw_cmd list"

definition io_init :: io where
  "io_init = \<lparr>
     r_page_status = replicate 10 0,
     r_page_actuators = replicate 8 0,
     r_page_servos = replicate 8 0,
     r_page_raw_rc_input = replicate 25 0,
     r_page_rc_input = replicate 10 0,
     r_page_scratch = replicate 32 0,
     r_page_direct_pwm = replicate 8 0,
     r_page_setup =
       [PX4IO_P_SETUP_FEATURES_ADC_RSSI, PX4IO_P_SETUP_ARMING_OVERRIDE_IMMEDIATE, 0, 50, 200, 0,
        10000, 0, 0, 0, 0, 0, 0, 0, 0, 0, 0, 0, 0, 10000, 10000, 10000, 72, 0, 0, 0,
        PX4IO_THERMAL_IGNORE, 0, 0],
     r_page_controls = replicate 32 0,
     r_page_rc_input_config = replicate 108 0,
     r_page_servo_failsafe = replicate 8 0,
     r_page_servo_control_min = replicate 8 PWM_DEFAULT_MIN,
     r_page_servo_control_max = replicate 8 PWM_DEFAULT_MAX,
     r_page_servo_control_trim = replicate 8 PWM_DEFAULT_TRIM,
     r_page_servo_disarmed = replicate 8 0,
     update_mc_thrust_param = False, update_trims = False,
     last_page = 0, last_offset = 0,
     rc_channels_timestamp_received = 0, rc_channels_timestamp_valid = 0,
     fmu_data_received_time = 0, reboot_time = 0,
     msg_counter = 0, last_msg_counter = 0,
     button_counter = 0, blink_counter = 0, failsafe_phase = False,
     rc_value_override = 0, rssi_adc_counts = 0, rssi = 0, frame_drops = 0,
     ppm_last_valid_decode = 0,
     mixer_servos_armed = False, should_arm = False, should_arm_nothrottle = False,
     should_always_enable_pwm = False, mix_failsafe = False, new_fmu_data = False,
     last_fmu_update = 0, source = MIX_NONE,
     pwm_limit = \<lparr>state = OUTPUT_LIMIT_STATE_OFF, time_armed = 0, ramp_up = False\<rparr>,
     mixer_text = [], mixer_update_pending = False, mixer_reset_pending = False,
     hw = []\<rparr>"

definition io_wf :: "io \<Rightarrow> bool" where
  "io_wf s \<longleftrightarrow>
     length (r_page_status s) = 10 \<and>
     length (r_page_actuators s) = PX4IO_SERVO_COUNT \<and>
     length (r_page_servos s) = PX4IO_SERVO_COUNT \<and>
     length (r_page_raw_rc_input s) = 25 \<and>
     length (r_page_rc_input s) = 10 \<and>
     length (r_page_scratch s) = 32 \<and>
     length (r_page_direct_pwm s) = PX4IO_SERVO_COUNT \<and>
     length (r_page_setup s) = 29 \<and>
     length (r_page_controls s) = PX4IO_CONTROL_GROUPS * PX4IO_CONTROL_CHANNELS \<and>
     length (r_page_rc_input_config s) = PX4IO_RC_INPUT_CHANNELS * PX4IO_P_RC_CONFIG_STRIDE \<and>
     length (r_page_servo_failsafe s) = PX4IO_SERVO_COUNT \<and>
     length (r_page_servo_control_min s) = PX4IO_SERVO_COUNT \<and>
     length (r_page_servo_control_max s) = PX4IO_SERVO_COUNT \<and>
     length (r_page_servo_control_trim s) = PX4IO_SERVO_COUNT \<and>
     length (r_page_servo_disarmed s) = PX4IO_SERVO_COUNT"

section \<open>Register aliases and updates\<close>

definition r_status_flags :: "io \<Rightarrow> u16" where
  "r_status_flags s = r_page_status s ! PX4IO_P_STATUS_FLAGS"

definition r_status_alarms :: "io \<Rightarrow> u16" where
  "r_status_alarms s = r_page_status s ! PX4IO_P_STATUS_ALARMS"

definition r_setup_arming :: "io \<Rightarrow> u16" where
  "r_setup_arming s = r_page_setup s ! PX4IO_P_SETUP_ARMING"

definition r_setup_features :: "io \<Rightarrow> u16" where
  "r_setup_features s = r_page_setup s ! PX4IO_P_SETUP_FEATURES"

definition r_raw_rc_flags :: "io \<Rightarrow> u16" where
  "r_raw_rc_flags s = r_page_raw_rc_input s ! PX4IO_P_RAW_RC_FLAGS"

definition r_raw_rc_count :: "io \<Rightarrow> u16" where
  "r_raw_rc_count s = r_page_raw_rc_input s ! PX4IO_P_RAW_RC_COUNT"

definition r_rc_valid :: "io \<Rightarrow> u16" where
  "r_rc_valid s = r_page_rc_input s ! PX4IO_P_RC_VALID"

definition set_status :: "nat \<Rightarrow> u16 \<Rightarrow> io \<Rightarrow> io" where
  "set_status i v s = s\<lparr>r_page_status := (r_page_status s)[i := v]\<rparr>"

definition set_setup :: "nat \<Rightarrow> u16 \<Rightarrow> io \<Rightarrow> io" where
  "set_setup i v s = s\<lparr>r_page_setup := (r_page_setup s)[i := v]\<rparr>"

definition set_raw_rc :: "nat \<Rightarrow> u16 \<Rightarrow> io \<Rightarrow> io" where
  "set_raw_rc i v s = s\<lparr>r_page_raw_rc_input := (r_page_raw_rc_input s)[i := v]\<rparr>"

definition set_rc :: "nat \<Rightarrow> u16 \<Rightarrow> io \<Rightarrow> io" where
  "set_rc i v s = s\<lparr>r_page_rc_input := (r_page_rc_input s)[i := v]\<rparr>"

text \<open>
  \<^verbatim>\<open>r_status_flags |= m\<close> and its kin; in the main loop the same updates are
  \<^verbatim>\<open>atomic_modify_or\<close> and \<^verbatim>\<open>atomic_modify_clear\<close>, which skip the store when it changes nothing.
\<close>

definition status_or :: "nat \<Rightarrow> u16 \<Rightarrow> io \<Rightarrow> io" where
  "status_or i m s = set_status i (r_page_status s ! i OR m) s"

definition status_clear :: "nat \<Rightarrow> u16 \<Rightarrow> io \<Rightarrow> io" where
  "status_clear i m s = set_status i (r_page_status s ! i AND NOT m) s"

definition setup_or :: "nat \<Rightarrow> u16 \<Rightarrow> io \<Rightarrow> io" where
  "setup_or i m s = set_setup i (r_page_setup s ! i OR m) s"

definition setup_clear :: "nat \<Rightarrow> u16 \<Rightarrow> io \<Rightarrow> io" where
  "setup_clear i m s = set_setup i (r_page_setup s ! i AND NOT m) s"

definition raw_rc_or :: "nat \<Rightarrow> u16 \<Rightarrow> io \<Rightarrow> io" where
  "raw_rc_or i m s = set_raw_rc i (r_page_raw_rc_input s ! i OR m) s"

definition raw_rc_clear :: "nat \<Rightarrow> u16 \<Rightarrow> io \<Rightarrow> io" where
  "raw_rc_clear i m s = set_raw_rc i (r_page_raw_rc_input s ! i AND NOT m) s"

definition emit :: "hw_cmd \<Rightarrow> io \<Rightarrow> io" where
  "emit c s = s\<lparr>hw := hw s @ [c]\<rparr>"

definition atomic_modify_or :: "u16 \<Rightarrow> u16 \<Rightarrow> u16" where
  "atomic_modify_or target modification =
     (if target OR modification \<noteq> target then target OR modification else target)"

definition atomic_modify_clear :: "u16 \<Rightarrow> u16 \<Rightarrow> u16" where
  "atomic_modify_clear target modification =
     (if target AND NOT modification \<noteq> target then target AND NOT modification else target)"

definition atomic_modify_and :: "u16 \<Rightarrow> u16 \<Rightarrow> u16" where
  "atomic_modify_and target modification =
     (if target AND modification \<noteq> target then target AND modification else target)"

text \<open>Debug text goes to a console; of \<^verbatim>\<open>isr_debug\<close> the model keeps the level test and the counter.\<close>

definition isr_debug :: "u16 \<Rightarrow> io \<Rightarrow> io" where
  "isr_debug level s =
     (if level > r_page_setup s ! PX4IO_P_SETUP_SET_DEBUG then s
      else s\<lparr>msg_counter := msg_counter s + 1\<rparr>)"

definition schedule_reboot :: "u64 \<Rightarrow> u32 \<Rightarrow> io \<Rightarrow> io" where
  "schedule_reboot now time_delta_usec s = s\<lparr>reboot_time := now + ucast time_delta_usec\<rparr>"

definition interrupt_mixer_set_failsafe :: "io \<Rightarrow> io" where
  "interrupt_mixer_set_failsafe s = s\<lparr>mix_failsafe := True\<rparr>"

lemmas io_alias_defs =
  r_status_flags_def r_status_alarms_def r_setup_arming_def r_setup_features_def
  r_raw_rc_flags_def r_raw_rc_count_def r_rc_valid_def

lemmas io_set_defs = set_status_def set_setup_def set_raw_rc_def set_rc_def
  status_or_def status_clear_def setup_or_def setup_clear_def raw_rc_or_def raw_rc_clear_def
  emit_def isr_debug_def schedule_reboot_def interrupt_mixer_set_failsafe_def

lemma io_wf_init: "io_wf io_init"
  by (simp add: io_wf_def io_init_def)

lemma io_wf_set [simp, intro]:
  "io_wf s \<Longrightarrow> io_wf (set_status i v s)"
  "io_wf s \<Longrightarrow> io_wf (set_setup i v s)"
  "io_wf s \<Longrightarrow> io_wf (set_raw_rc i v s)"
  "io_wf s \<Longrightarrow> io_wf (set_rc i v s)"
  "io_wf s \<Longrightarrow> io_wf (status_or i v s)"
  "io_wf s \<Longrightarrow> io_wf (status_clear i v s)"
  "io_wf s \<Longrightarrow> io_wf (setup_or i v s)"
  "io_wf s \<Longrightarrow> io_wf (setup_clear i v s)"
  "io_wf s \<Longrightarrow> io_wf (raw_rc_or i v s)"
  "io_wf s \<Longrightarrow> io_wf (raw_rc_clear i v s)"
  "io_wf s \<Longrightarrow> io_wf (emit c s)"
  "io_wf s \<Longrightarrow> io_wf (isr_debug l s)"
  "io_wf s \<Longrightarrow> io_wf (schedule_reboot now d s)"
  "io_wf s \<Longrightarrow> io_wf (interrupt_mixer_set_failsafe s)"
  by (auto simp: io_wf_def io_set_defs)

end
