(* ===== verification/IO_Registers.thy ===== *)
theory IO_Registers
  imports IO_State
begin

text \<open>
  The register file of the PX4IO firmware (\<^verbatim>\<open>registers.c\<close>): \<open>registers_set\<close>,
  \<open>registers_set_one\<close> (one definition per page), \<open>registers_get\<close> and
  \<open>pwm_configure_rates\<close>, with the text buffer of the mixer (\<^verbatim>\<open>mixer.cpp\<close>) that the
  MIXERLOAD page feeds. A register write returns the C result code and the new state.
\<close>

section \<open>Valid bits of the setup registers\<close>

definition PX4IO_P_SETUP_FEATURES_VALID :: u16 where
  [simp]: "PX4IO_P_SETUP_FEATURES_VALID =
     PX4IO_P_SETUP_FEATURES_SBUS1_OUT OR PX4IO_P_SETUP_FEATURES_SBUS2_OUT OR
     PX4IO_P_SETUP_FEATURES_ADC_RSSI OR PX4IO_P_SETUP_FEATURES_PWM_RSSI"

definition PX4IO_P_SETUP_ARMING_VALID :: u16 where
  [simp]: "PX4IO_P_SETUP_ARMING_VALID =
     PX4IO_P_SETUP_ARMING_FMU_ARMED OR
     PX4IO_P_SETUP_ARMING_FMU_PREARMED OR
     PX4IO_P_SETUP_ARMING_MANUAL_OVERRIDE_OK OR
     PX4IO_P_SETUP_ARMING_INAIR_RESTART_OK OR
     PX4IO_P_SETUP_ARMING_IO_ARM_OK OR
     PX4IO_P_SETUP_ARMING_FAILSAFE_CUSTOM OR
     PX4IO_P_SETUP_ARMING_ALWAYS_PWM_ENABLE OR
     PX4IO_P_SETUP_ARMING_RC_HANDLING_DISABLED OR
     PX4IO_P_SETUP_ARMING_LOCKDOWN OR
     PX4IO_P_SETUP_ARMING_FORCE_FAILSAFE OR
     PX4IO_P_SETUP_ARMING_TERMINATION_FAILSAFE OR
     PX4IO_P_SETUP_ARMING_OVERRIDE_IMMEDIATE"

definition PX4IO_P_SETUP_RATES_VALID :: u16 where
  [simp]: "PX4IO_P_SETUP_RATES_VALID = BIT PX4IO_SERVO_COUNT - 1"

definition PX4IO_P_RC_CONFIG_OPTIONS_VALID :: u16 where
  [simp]: "PX4IO_P_RC_CONFIG_OPTIONS_VALID =
     PX4IO_P_RC_CONFIG_OPTIONS_REVERSE OR PX4IO_P_RC_CONFIG_OPTIONS_ENABLED"

definition r_page_config :: "u16 list" where
  "r_page_config =
     [of_nat PX4IO_PROTOCOL_VERSION, 2, of_nat PX4IO_BL_VERSION, of_nat PX4IO_MAX_TRANSFER_LEN,
      of_nat PX4IO_CONTROL_CHANNELS, of_nat PX4IO_SERVO_COUNT, of_nat PX4IO_RC_INPUT_CHANNELS,
      of_nat PX4IO_ADC_CHANNEL_COUNT, of_nat PX4IO_RELAY_CHANNELS]"

section \<open>PWM rates\<close>

text \<open>
  Pass 0 of the loop looks for a group that is only partly in the map; pass 1 configures each
  group. As in the code, pass 1 hands the driver the rates the setup page holds at that time, and
  the new rates are stored after the loop.
\<close>

definition rate_groups :: "io_hw \<Rightarrow> nat list" where
  "rate_groups h = filter (\<lambda>g. rate_group h g \<noteq> 0) [0..<PX4IO_SERVO_COUNT]"

definition rate_map_illegal :: "io_hw \<Rightarrow> u16 \<Rightarrow> bool" where
  "rate_map_illegal h rmap \<longleftrightarrow>
     list_ex (\<lambda>g. let mask = rate_group h g; alt = ucast rmap AND mask in alt \<noteq> 0 \<and> alt \<noteq> mask)
       (rate_groups h)"

definition set_group_rate :: "io_hw \<Rightarrow> u16 \<Rightarrow> nat \<Rightarrow> io \<Rightarrow> io" where
  "set_group_rate h rmap g s =
     (let alt = ucast rmap AND rate_group h g;
          rate = (if alt \<noteq> 0 then r_page_setup s ! PX4IO_P_SETUP_PWM_ALTRATE
                  else r_page_setup s ! PX4IO_P_SETUP_PWM_DEFAULTRATE);
          s' = emit (UpPwmRateGroup g rate) s
      in if set_rate_ok h g rate then s'
         else status_or PX4IO_P_STATUS_ALARMS PX4IO_P_STATUS_ALARMS_PWM_ERROR s')"

definition pwm_configure_rates :: "io_hw \<Rightarrow> u16 \<Rightarrow> u16 \<Rightarrow> u16 \<Rightarrow> io \<Rightarrow> io" where
  "pwm_configure_rates h rmap defaultrate altrate s =
     (if rate_map_illegal h rmap
      then status_or PX4IO_P_STATUS_ALARMS PX4IO_P_STATUS_ALARMS_PWM_ERROR s
      else set_setup PX4IO_P_SETUP_PWM_ALTRATE altrate
             (set_setup PX4IO_P_SETUP_PWM_DEFAULTRATE defaultrate
               (set_setup PX4IO_P_SETUP_PWM_RATES rmap
                 (fold (set_group_rate h rmap) (rate_groups h) s))))"

section \<open>Mixer text\<close>

definition PX4IO_MAX_MIXER_LENGTH :: nat where [simp]: "PX4IO_MAX_MIXER_LENGTH = 330"
definition sizeof_mixdata :: nat where [simp]: "sizeof_mixdata = 3"

text \<open>
  The buffer is the packet's registers as bytes: a 16-bit magic, the action byte and the text.
  A reset falls through to append.
\<close>

definition interrupt_mixer_handle_text :: "u8 list \<Rightarrow> io \<Rightarrow> int \<times> io" where
  "interrupt_mixer_handle_text buffer s =
     (if tst (r_status_flags s) PX4IO_P_STATUS_FLAGS_SAFETY_OFF \<and>
         tst (r_setup_arming s) PX4IO_P_SETUP_ARMING_FMU_ARMED
      then (1, s)
      else
        let s1 = isr_debug 2 (status_clear PX4IO_P_STATUS_FLAGS PX4IO_P_STATUS_FLAGS_MIXER_OK s)
        in if length buffer < sizeof_mixdata then (0, s1)
           else
             let action = unat (buffer ! 2);
                 text = drop sizeof_mixdata buffer;
                 s2 = (if action = F2I_MIXER_ACTION_RESET
                       then (isr_debug 2 s1)\<lparr>mixer_reset_pending := True, mixer_text := []\<rparr>
                       else s1)
             in if action = F2I_MIXER_ACTION_RESET \<or> action = F2I_MIXER_ACTION_APPEND
                then let s3 = isr_debug 2 s2
                     in if length (mixer_text s3) + length text + 1 > PX4IO_MAX_MIXER_LENGTH
                        then (0, status_clear PX4IO_P_STATUS_FLAGS PX4IO_P_STATUS_FLAGS_MIXER_OK s3)
                        else if mixer_update_pending s3 then (1, s3)
                        else (0, (isr_debug 2 (s3\<lparr>mixer_text := mixer_text s3 @ text\<rparr>))
                                   \<lparr>mixer_update_pending := True\<rparr>)
                else (0, s2))"

section \<open>Single registers\<close>

definition set_status_reg :: "nat \<Rightarrow> u16 \<Rightarrow> io \<Rightarrow> int \<times> io" where
  "set_status_reg off value s =
     (if off = PX4IO_P_STATUS_ALARMS then (0, status_clear PX4IO_P_STATUS_ALARMS value s)
      else if off = PX4IO_P_STATUS_FLAGS then
        let s1 = (if tst PX4IO_P_STATUS_FLAGS_MIXER_OK value
                  then status_or PX4IO_P_STATUS_FLAGS PX4IO_P_STATUS_FLAGS_MIXER_OK s
                  else if \<not> tst (r_status_flags s) PX4IO_P_STATUS_FLAGS_ARM_SYNC
                  then set_status PX4IO_P_STATUS_FLAGS value s
                  else s)
        in (0, if tst PX4IO_P_STATUS_FLAGS_MIXER_OK (r_status_flags s1)
               then interrupt_mixer_set_failsafe s1 else s1)
      else (0, s))"

text \<open>The value stored in the FEATURES register: conflicting options are dropped in this order.\<close>

definition features_value :: "u16 \<Rightarrow> u16" where
  "features_value value =
     (let v0 = value AND PX4IO_P_SETUP_FEATURES_VALID;
          v1 = (if tst v0 PX4IO_P_SETUP_FEATURES_SBUS1_OUT
                then v0 AND NOT (PX4IO_P_SETUP_FEATURES_PWM_RSSI OR PX4IO_P_SETUP_FEATURES_ADC_RSSI OR
                                 PX4IO_P_SETUP_FEATURES_SBUS2_OUT)
                else v0);
          v2 = (if tst v1 PX4IO_P_SETUP_FEATURES_SBUS2_OUT
                then v1 AND NOT (PX4IO_P_SETUP_FEATURES_PWM_RSSI OR PX4IO_P_SETUP_FEATURES_ADC_RSSI OR
                                 PX4IO_P_SETUP_FEATURES_SBUS1_OUT)
                else v1);
          v3 = (if tst v2 PX4IO_P_SETUP_FEATURES_ADC_RSSI
                then v2 AND NOT (PX4IO_P_SETUP_FEATURES_PWM_RSSI OR PX4IO_P_SETUP_FEATURES_SBUS1_OUT OR
                                 PX4IO_P_SETUP_FEATURES_SBUS2_OUT)
                else v2)
      in if tst v3 PX4IO_P_SETUP_FEATURES_PWM_RSSI
         then v3 AND NOT (PX4IO_P_SETUP_FEATURES_ADC_RSSI OR PX4IO_P_SETUP_FEATURES_SBUS1_OUT OR
                          PX4IO_P_SETUP_FEATURES_SBUS2_OUT)
         else v3)"

definition set_features :: "u16 \<Rightarrow> io \<Rightarrow> io" where
  "set_features value s =
     set_setup PX4IO_P_SETUP_FEATURES (features_value value)
       (emit (EnableSbusOut (tst (value AND PX4IO_P_SETUP_FEATURES_VALID)
                (PX4IO_P_SETUP_FEATURES_SBUS1_OUT OR PX4IO_P_SETUP_FEATURES_SBUS2_OUT))) s)"

definition set_arming :: "u16 \<Rightarrow> io \<Rightarrow> io" where
  "set_arming value s =
     (let v0 = value AND PX4IO_P_SETUP_ARMING_VALID;
          s1 = (if tst v0 PX4IO_P_SETUP_ARMING_RC_HANDLING_DISABLED
                then status_or PX4IO_P_STATUS_FLAGS PX4IO_P_STATUS_FLAGS_INIT_OK s else s);
          v1 = v0 OR (r_setup_arming s AND PX4IO_P_SETUP_ARMING_TERMINATION_FAILSAFE);
          v2 = (if tst (r_setup_arming s) PX4IO_P_SETUP_ARMING_TERMINATION_FAILSAFE
                then v1 OR (r_setup_arming s AND PX4IO_P_SETUP_ARMING_FORCE_FAILSAFE) else v1)
      in set_setup PX4IO_P_SETUP_ARMING v2 s1)"

definition clamp_rate :: "u16 \<Rightarrow> u16" where
  "clamp_rate value = (let v = (if value < 25 then 25 else value) in if v > 400 then 400 else v)"

text \<open>The registers of the setup page that are stored as they are written.\<close>

definition plain_setup_regs :: "nat list" where
  [simp]: "plain_setup_regs =
     [PX4IO_P_SETUP_PWM_REVERSE, PX4IO_P_SETUP_TRIM_ROLL, PX4IO_P_SETUP_TRIM_PITCH,
      PX4IO_P_SETUP_TRIM_YAW, PX4IO_P_SETUP_SCALE_ROLL, PX4IO_P_SETUP_SCALE_PITCH,
      PX4IO_P_SETUP_SCALE_YAW, PX4IO_P_SETUP_MOTOR_SLEW_MAX, PX4IO_P_SETUP_AIRMODE,
      PX4IO_P_SETUP_THERMAL, PX4IO_P_SETUP_ENABLE_FLIGHTTERMINATION]"

definition set_setup_reg :: "io_hw \<Rightarrow> u64 \<Rightarrow> nat \<Rightarrow> u16 \<Rightarrow> io \<Rightarrow> int \<times> io" where
  "set_setup_reg h now off value s =
     (if off = PX4IO_P_SETUP_FEATURES then (0, set_features value s)
      else if off = PX4IO_P_SETUP_ARMING then (0, set_arming value s)
      else if off = PX4IO_P_SETUP_PWM_RATES then
        (0, pwm_configure_rates h (value AND PX4IO_P_SETUP_RATES_VALID)
              (r_page_setup s ! PX4IO_P_SETUP_PWM_DEFAULTRATE)
              (r_page_setup s ! PX4IO_P_SETUP_PWM_ALTRATE) s)
      else if off = PX4IO_P_SETUP_PWM_DEFAULTRATE then
        (0, pwm_configure_rates h (r_page_setup s ! PX4IO_P_SETUP_PWM_RATES) (clamp_rate value)
              (r_page_setup s ! PX4IO_P_SETUP_PWM_ALTRATE) s)
      else if off = PX4IO_P_SETUP_PWM_ALTRATE then
        (0, pwm_configure_rates h (r_page_setup s ! PX4IO_P_SETUP_PWM_RATES)
              (r_page_setup s ! PX4IO_P_SETUP_PWM_DEFAULTRATE)
              (if value \<noteq> 0 then clamp_rate value else value) s)
      else if off = PX4IO_P_SETUP_SET_DEBUG then
        (0, isr_debug 0 (set_setup PX4IO_P_SETUP_SET_DEBUG value s))
      else if off = PX4IO_P_SETUP_REBOOT_BL then
        (0, if tst (r_status_flags s) PX4IO_P_STATUS_FLAGS_SAFETY_OFF then s
            else if value \<noteq> PX4IO_REBOOT_BL_MAGIC then s
            else schedule_reboot now 100000 s)
      else if off = PX4IO_P_SETUP_DSM then
        (0, emit (DsmBind (value AND 0x0f) (drop_bit 4 value AND 0xF)) s)
      else if off = PX4IO_P_SETUP_FORCE_SAFETY_ON then
        (if value = PX4IO_FORCE_SAFETY_MAGIC
         then (0, status_clear PX4IO_P_STATUS_FLAGS PX4IO_P_STATUS_FLAGS_SAFETY_OFF s)
         else (-1, s))
      else if off = PX4IO_P_SETUP_FORCE_SAFETY_OFF then
        (if value = PX4IO_FORCE_SAFETY_MAGIC
         then (0, status_or PX4IO_P_STATUS_FLAGS PX4IO_P_STATUS_FLAGS_SAFETY_OFF s)
         else (-1, s))
      else if off = PX4IO_P_SETUP_RC_THR_FAILSAFE_US then
        (0, if value > 650 \<and> value < 2350
            then set_setup PX4IO_P_SETUP_RC_THR_FAILSAFE_US value s else s)
      else if off = PX4IO_P_SETUP_SBUS_RATE then
        (0, emit (Sbus1SetRate value) (set_setup off value s))
      else if off = PX4IO_P_SETUP_THR_MDL_FAC then
        (0, set_setup off value (s\<lparr>update_mc_thrust_param := True\<rparr>))
      else if off \<in> set plain_setup_regs then (0, set_setup off value s)
      else (-1, s))"

section \<open>R/C channel configuration\<close>

definition rc_conf :: "io \<Rightarrow> nat \<Rightarrow> nat \<Rightarrow> u16" where
  "rc_conf s channel i = r_page_rc_input_config s ! (channel * PX4IO_P_RC_CONFIG_STRIDE + i)"

definition set_rc_conf :: "nat \<Rightarrow> nat \<Rightarrow> u16 \<Rightarrow> io \<Rightarrow> io" where
  "set_rc_conf channel i v s =
     s\<lparr>r_page_rc_input_config :=
         (r_page_rc_input_config s)[channel * PX4IO_P_RC_CONFIG_STRIDE + i := v]\<rparr>"

text \<open>The counter of configuration errors, and whether the channel is assigned to nothing.\<close>

definition rc_conf_errors :: "io \<Rightarrow> nat \<Rightarrow> nat" where
  "rc_conf_errors s channel =
     (if rc_conf s channel PX4IO_P_RC_CONFIG_MIN < 500 then 1 else 0) +
     (if rc_conf s channel PX4IO_P_RC_CONFIG_MAX > 2500 then 1 else 0) +
     (if rc_conf s channel PX4IO_P_RC_CONFIG_CENTER < rc_conf s channel PX4IO_P_RC_CONFIG_MIN
      then 1 else 0) +
     (if rc_conf s channel PX4IO_P_RC_CONFIG_CENTER > rc_conf s channel PX4IO_P_RC_CONFIG_MAX
      then 1 else 0) +
     (if rc_conf s channel PX4IO_P_RC_CONFIG_DEADZONE > 500 then 1 else 0) +
     (if rc_conf s channel PX4IO_P_RC_CONFIG_ASSIGNMENT = 0xFF then 0
      else if rc_conf s channel PX4IO_P_RC_CONFIG_ASSIGNMENT \<ge> of_nat PX4IO_RC_MAPPED_CONTROL_CHANNELS \<and>
              rc_conf s channel PX4IO_P_RC_CONFIG_ASSIGNMENT \<noteq> PX4IO_P_RC_CONFIG_ASSIGNMENT_MODESWITCH
      then 1 else 0)"

definition set_rc_options :: "nat \<Rightarrow> u16 \<Rightarrow> io \<Rightarrow> io" where
  "set_rc_options channel value0 s =
     (let value = value0 AND PX4IO_P_RC_CONFIG_OPTIONS_VALID;
          s1 = status_or PX4IO_P_STATUS_FLAGS PX4IO_P_STATUS_FLAGS_INIT_OK s;
          s2 = setup_clear PX4IO_P_SETUP_ARMING PX4IO_P_SETUP_ARMING_RC_HANDLING_DISABLED s1;
          s3 = set_rc_conf channel PX4IO_P_RC_CONFIG_OPTIONS
                 (value AND NOT PX4IO_P_RC_CONFIG_OPTIONS_ENABLED) s2
      in if tst value PX4IO_P_RC_CONFIG_OPTIONS_ENABLED then
           if rc_conf_errors s3 channel \<noteq> 0
           then status_clear PX4IO_P_STATUS_FLAGS PX4IO_P_STATUS_FLAGS_INIT_OK (isr_debug 0 s3)
           else if rc_conf s3 channel PX4IO_P_RC_CONFIG_ASSIGNMENT \<noteq> 0xFF
           then set_rc_conf channel PX4IO_P_RC_CONFIG_OPTIONS
                  (rc_conf s3 channel PX4IO_P_RC_CONFIG_OPTIONS OR PX4IO_P_RC_CONFIG_OPTIONS_ENABLED) s3
           else s3
         else s3)"

definition set_rc_config_reg :: "nat \<Rightarrow> u16 \<Rightarrow> io \<Rightarrow> int \<times> io" where
  "set_rc_config_reg off value s =
     (if tst (r_status_flags s) PX4IO_P_STATUS_FLAGS_SAFETY_OFF then (0, s)
      else
        let channel = off div PX4IO_P_RC_CONFIG_STRIDE;
            index = off - channel * PX4IO_P_RC_CONFIG_STRIDE
        in if channel \<ge> PX4IO_RC_INPUT_CHANNELS then (-1, s)
           else
             let s1 = set_rc_conf channel PX4IO_P_RC_CONFIG_OPTIONS
                        (rc_conf s channel PX4IO_P_RC_CONFIG_OPTIONS AND
                         PX4IO_P_RC_CONFIG_OPTIONS_ENABLED) s
             in if index = PX4IO_P_RC_CONFIG_OPTIONS then (0, set_rc_options channel value s1)
                else (0, set_rc_conf channel index value s1))"

definition registers_set_one :: "io_hw \<Rightarrow> u64 \<Rightarrow> u8 \<Rightarrow> nat \<Rightarrow> u16 \<Rightarrow> io \<Rightarrow> int \<times> io" where
  "registers_set_one h now pg off value s =
     (if pg = PX4IO_PAGE_STATUS then set_status_reg off value s
      else if pg = PX4IO_PAGE_SETUP then set_setup_reg h now off value s
      else if pg = PX4IO_PAGE_RC_CONFIG then set_rc_config_reg off value s
      else if pg = PX4IO_PAGE_TEST then
        (0, if off = PX4IO_P_TEST_LED then emit (LedAmber (tst value 1)) s else s)
      else (-1, s))"

section \<open>Writing a run of registers\<close>

definition failsafe_value :: "u16 \<Rightarrow> u16 \<Rightarrow> u16" where
  "failsafe_value old v =
     (if v = 0 then old
      else if v < PWM_LOWEST_MIN then PWM_LOWEST_MIN
      else if v > PWM_HIGHEST_MAX then PWM_HIGHEST_MAX
      else v)"

definition control_min_value :: "u16 \<Rightarrow> u16 \<Rightarrow> u16" where
  "control_min_value old v =
     (if v = 0 then old
      else if v > PWM_HIGHEST_MIN then PWM_HIGHEST_MIN
      else if v < PWM_LOWEST_MIN then PWM_LOWEST_MIN
      else v)"

definition control_max_value :: "u16 \<Rightarrow> u16 \<Rightarrow> u16" where
  "control_max_value old v =
     (if v = 0 then old
      else if v > PWM_HIGHEST_MAX then PWM_HIGHEST_MAX
      else if v < PWM_LOWEST_MAX then PWM_LOWEST_MAX
      else v)"

definition disarmed_value :: "u16 \<Rightarrow> u16 \<Rightarrow> u16" where
  "disarmed_value old v =
     (if v = 0 then 0
      else if v < PWM_LOWEST_MIN then PWM_LOWEST_MIN
      else if v > PWM_HIGHEST_MAX then PWM_HIGHEST_MAX
      else v)"

definition direct_pwm_value :: "u16 \<Rightarrow> u16 \<Rightarrow> u16" where
  "direct_pwm_value old v = (if v \<noteq> PWM_IGNORE_THIS_CHANNEL then v else old)"

text \<open>The loop of the default case: the first register that fails ends it with -1.\<close>

fun registers_set_each :: "io_hw \<Rightarrow> u64 \<Rightarrow> u8 \<Rightarrow> nat \<Rightarrow> u16 list \<Rightarrow> io \<Rightarrow> int \<times> io" where
  "registers_set_each h now pg off [] s = (0, s)"
| "registers_set_each h now pg off (v # vs) s =
     (case registers_set_one h now pg off v s of
        (r, s') \<Rightarrow> if r \<noteq> 0 then (-1, s') else registers_set_each h now pg (Suc off) vs s')"

definition registers_set :: "io_hw \<Rightarrow> u64 \<Rightarrow> u8 \<Rightarrow> u8 \<Rightarrow> u16 list \<Rightarrow> io \<Rightarrow> int \<times> io" where
  "registers_set h now pg offset8 values s =
     (let off = unat offset8 in
      if pg = PX4IO_PAGE_CONTROLS then
        (0, (status_clear PX4IO_P_STATUS_FLAGS PX4IO_P_STATUS_FLAGS_RAW_PWM
               (s\<lparr>r_page_controls :=
                    copy_loop (\<lambda>_ v. v) (PX4IO_CONTROL_GROUPS * PX4IO_CONTROL_CHANNELS) off values
                      (r_page_controls s)\<rparr>))\<lparr>fmu_data_received_time := now\<rparr>)
      else if pg = PX4IO_PAGE_DIRECT_PWM then
        (0, emit UpPwmUpdate
              (status_or PX4IO_P_STATUS_FLAGS PX4IO_P_STATUS_FLAGS_RAW_PWM
                (s\<lparr>r_page_direct_pwm :=
                     copy_loop direct_pwm_value PX4IO_CONTROL_CHANNELS off values
                       (r_page_direct_pwm s),
                   fmu_data_received_time := now\<rparr>)))
      else if pg = PX4IO_PAGE_FAILSAFE_PWM then
        (0, (let s' = s\<lparr>r_page_servo_failsafe :=
                   copy_loop failsafe_value PX4IO_SERVO_COUNT off values (r_page_servo_failsafe s)\<rparr>
             in if off < PX4IO_SERVO_COUNT \<and> values \<noteq> []
                then setup_or PX4IO_P_SETUP_ARMING PX4IO_P_SETUP_ARMING_FAILSAFE_CUSTOM s'
                else s'))
      else if pg = PX4IO_PAGE_CONTROL_MIN_PWM then
        (0, s\<lparr>r_page_servo_control_min :=
                copy_loop control_min_value PX4IO_SERVO_COUNT off values (r_page_servo_control_min s)\<rparr>)
      else if pg = PX4IO_PAGE_CONTROL_MAX_PWM then
        (0, s\<lparr>r_page_servo_control_max :=
                copy_loop control_max_value PX4IO_SERVO_COUNT off values (r_page_servo_control_max s)\<rparr>)
      else if pg = PX4IO_PAGE_CONTROL_TRIM_PWM then
        (0, s\<lparr>r_page_servo_control_trim :=
                copy_loop (\<lambda>_ v. v) PX4IO_SERVO_COUNT off values (r_page_servo_control_trim s),
              update_trims := True\<rparr>)
      else if pg = PX4IO_PAGE_DISARMED_PWM then
        (0, (let all_disarmed_off = (\<forall>v \<in> set (take (PX4IO_SERVO_COUNT - off) values). v = 0);
                 s' = s\<lparr>r_page_servo_disarmed :=
                   copy_loop disarmed_value PX4IO_SERVO_COUNT off values (r_page_servo_disarmed s)\<rparr>
             in if all_disarmed_off
                then setup_clear PX4IO_P_SETUP_ARMING PX4IO_P_SETUP_ARMING_ALWAYS_PWM_ENABLE s'
                else setup_or PX4IO_P_SETUP_ARMING PX4IO_P_SETUP_ARMING_ALWAYS_PWM_ENABLE s'))
      else if pg = PX4IO_PAGE_MIXERLOAD then
        interrupt_mixer_handle_text (concat (map le_bytes values)) s
      else
        registers_set_each h now pg off
          (if off + length values > 255 then take (255 - off) values else values) s)"

section \<open>Reading registers\<close>

text \<open>The status page refreshes two voltages; 32-bit arithmetic, stored in 16 bits.\<close>

definition status_refresh :: "io_hw \<Rightarrow> io \<Rightarrow> io" where
  "status_refresh h s =
     (let c1 = adc h ADC_VSERVO; c2 = adc h ADC_RSSI;
          s1 = (if c1 \<noteq> 0xffff
                then set_status PX4IO_P_STATUS_VSERVO (ucast ((ucast c1 :: u32) * 9900 div 4096)) s else s)
      in if c2 \<noteq> 0xffff
         then set_status PX4IO_P_STATUS_VRSSI (ucast ((ucast c2 :: u32) * 3300 div 4096)) s1 else s1)"

definition page_select :: "io_hw \<Rightarrow> u8 \<Rightarrow> io \<Rightarrow> (u16 list \<times> io) option" where
  "page_select h pg s =
     (if pg = PX4IO_PAGE_STATUS then
        (let s' = status_refresh h s in Some (r_page_status s', s'))
      else if pg = PX4IO_PAGE_RAW_ADC_INPUT then
        (let s' = s\<lparr>r_page_scratch := (replicate 32 0)[0 := adc h ADC_VSERVO, 1 := adc h ADC_RSSI]\<rparr>
         in Some (r_page_scratch s', s'))
      else if pg = PX4IO_PAGE_PWM_INFO then
        (let s' = s\<lparr>r_page_scratch :=
               map (\<lambda>i. ucast (rate_group h i)) [0..<PX4IO_SERVO_COUNT] @ replicate 24 0\<rparr>
         in Some (r_page_scratch s', s'))
      else if pg = PX4IO_PAGE_CONFIG then Some (r_page_config, s)
      else if pg = PX4IO_PAGE_ACTUATORS then Some (r_page_actuators s, s)
      else if pg = PX4IO_PAGE_SERVOS then Some (r_page_servos s, s)
      else if pg = PX4IO_PAGE_RAW_RC_INPUT then Some (r_page_raw_rc_input s, s)
      else if pg = PX4IO_PAGE_RC_INPUT then Some (r_page_rc_input s, s)
      else if pg = PX4IO_PAGE_SETUP then Some (r_page_setup s, s)
      else if pg = PX4IO_PAGE_CONTROLS then Some (r_page_controls s, s)
      else if pg = PX4IO_PAGE_RC_CONFIG then Some (r_page_rc_input_config s, s)
      else if pg = PX4IO_PAGE_DIRECT_PWM then Some (r_page_direct_pwm s, s)
      else if pg = PX4IO_PAGE_FAILSAFE_PWM then Some (r_page_servo_failsafe s, s)
      else if pg = PX4IO_PAGE_CONTROL_MIN_PWM then Some (r_page_servo_control_min s, s)
      else if pg = PX4IO_PAGE_CONTROL_MAX_PWM then Some (r_page_servo_control_max s, s)
      else if pg = PX4IO_PAGE_CONTROL_TRIM_PWM then Some (r_page_servo_control_trim s, s)
      else if pg = PX4IO_PAGE_DISARMED_PWM then Some (r_page_servo_disarmed s, s)
      else None)"

text \<open>
  \<open>None\<close> is the result -1. The page and offset of the request are remembered even when the
  offset lies beyond the page.
\<close>

definition registers_get :: "io_hw \<Rightarrow> u8 \<Rightarrow> u8 \<Rightarrow> io \<Rightarrow> u16 list option \<times> io" where
  "registers_get h pg off s =
     (case page_select h pg s of
        None \<Rightarrow> (None, s)
      | Some (values, s') \<Rightarrow>
          (if unat off \<ge> length values then None else Some (drop (unat off) values),
           s'\<lparr>last_page := pg, last_offset := off\<rparr>))"

section \<open>Array sizes\<close>

lemma io_wf_set_rc_conf [simp, intro]: "io_wf s \<Longrightarrow> io_wf (set_rc_conf c i v s)"
  by (simp add: io_wf_def set_rc_conf_def)

lemma io_wf_fields [simp]:
  "io_wf (s\<lparr>fmu_data_received_time := t\<rparr>) = io_wf s"
  "io_wf (s\<lparr>update_mc_thrust_param := b\<rparr>) = io_wf s"
  "io_wf (s\<lparr>mixer_text := tx\<rparr>) = io_wf s"
  "io_wf (s\<lparr>mixer_update_pending := b\<rparr>) = io_wf s"
  "io_wf (s\<lparr>mixer_reset_pending := b\<rparr>) = io_wf s"
  "io_wf (s\<lparr>last_page := p\<rparr>) = io_wf s"
  "io_wf (s\<lparr>last_offset := p\<rparr>) = io_wf s"
  by (simp_all add: io_wf_def)

lemma io_wf_set_group_rate [simp, intro]: "io_wf s \<Longrightarrow> io_wf (set_group_rate h m g s)"
  by (simp add: set_group_rate_def Let_def)

lemma io_wf_fold_group_rate [simp, intro]: "io_wf s \<Longrightarrow> io_wf (fold (set_group_rate h m) gs s)"
  by (induction gs arbitrary: s) auto

lemma io_wf_pwm_configure_rates [simp, intro]: "io_wf s \<Longrightarrow> io_wf (pwm_configure_rates h m d a s)"
  by (simp add: pwm_configure_rates_def)

lemma io_wf_mixer_text [simp]: "io_wf s \<Longrightarrow> io_wf (snd (interrupt_mixer_handle_text b s))"
  by (simp add: interrupt_mixer_handle_text_def Let_def)

lemma io_wf_set_status_reg: "io_wf s \<Longrightarrow> io_wf (snd (set_status_reg off v s))"
  by (simp add: set_status_reg_def Let_def)

lemma io_wf_set_setup_reg: "io_wf s \<Longrightarrow> io_wf (snd (set_setup_reg h now off v s))"
  by (simp add: set_setup_reg_def set_features_def set_arming_def Let_def)

lemma io_wf_set_rc_config_reg: "io_wf s \<Longrightarrow> io_wf (snd (set_rc_config_reg off v s))"
  by (simp add: set_rc_config_reg_def set_rc_options_def Let_def)

lemma io_wf_registers_set_one: "io_wf s \<Longrightarrow> io_wf (snd (registers_set_one h now pg off v s))"
  by (simp add: registers_set_one_def io_wf_set_status_reg io_wf_set_setup_reg io_wf_set_rc_config_reg)


section \<open>Invariants of the register file\<close>

definition bulk_pages :: "u8 list" where
  [simp]: "bulk_pages = [PX4IO_PAGE_CONTROLS, PX4IO_PAGE_DIRECT_PWM, PX4IO_PAGE_FAILSAFE_PWM,
     PX4IO_PAGE_CONTROL_MIN_PWM, PX4IO_PAGE_CONTROL_MAX_PWM, PX4IO_PAGE_CONTROL_TRIM_PWM,
     PX4IO_PAGE_DISARMED_PWM, PX4IO_PAGE_MIXERLOAD]"

locale register_invariant =
  fixes I :: "io \<Rightarrow> bool"
  assumes set_one: "I s \<Longrightarrow> I (snd (registers_set_one h now pg off v s))"
    and set_bulk: "I s \<Longrightarrow> pg \<in> set bulk_pages \<Longrightarrow> I (snd (registers_set h now pg off8 vs s))"
begin

lemma set_each: "I s \<Longrightarrow> I (snd (registers_set_each h now pg off vs s))"
proof (induction vs arbitrary: off s)
  case (Cons v vs)
  obtain r s' where one: "registers_set_one h now pg off v s = (r, s')"
    by fastforce
  with set_one [OF Cons.prems, of h now pg off v] have "I s'"
    by simp
  with Cons.IH one show ?case
    by simp
qed simp

lemma set_all: "I s \<Longrightarrow> I (snd (registers_set h now pg off8 vs s))"
proof (cases "pg \<in> set bulk_pages")
  case False
  moreover assume "I s"
  ultimately show ?thesis
    by (simp add: registers_set_def Let_def set_each)
qed (rule set_bulk)

end


lemma bulk_page_cases:
  assumes "pg \<in> set bulk_pages"
  obtains "pg = PX4IO_PAGE_CONTROLS" | "pg = PX4IO_PAGE_DIRECT_PWM" | "pg = PX4IO_PAGE_FAILSAFE_PWM"
    | "pg = PX4IO_PAGE_CONTROL_MIN_PWM" | "pg = PX4IO_PAGE_CONTROL_MAX_PWM"
    | "pg = PX4IO_PAGE_CONTROL_TRIM_PWM" | "pg = PX4IO_PAGE_DISARMED_PWM"
    | "pg = PX4IO_PAGE_MIXERLOAD"
  using assms by auto

lemma io_wf_bulk:
  assumes "io_wf s" and "pg \<in> set bulk_pages"
  shows "io_wf (snd (registers_set h now pg off8 vs s))"
  using assms(2)
proof (cases rule: bulk_page_cases)
  case 8
  with assms(1) show ?thesis
    by (simp add: registers_set_def Let_def)
qed (use assms(1) in \<open>simp add: registers_set_def Let_def io_wf_def io_set_defs\<close>)+

interpretation wf_regs: register_invariant io_wf
  by unfold_locales (auto intro: io_wf_registers_set_one io_wf_bulk)

definition pwm_range :: "u16 \<Rightarrow> bool" where
  "pwm_range v \<longleftrightarrow> v = 0 \<or> PWM_LOWEST_MIN \<le> v \<and> v \<le> PWM_HIGHEST_MAX"

definition rate_range :: "u16 \<Rightarrow> bool" where
  "rate_range v \<longleftrightarrow> 25 \<le> v \<and> v \<le> 400"

definition pwm_limits_ok :: "io \<Rightarrow> bool" where
  "pwm_limits_ok s \<longleftrightarrow>
     (\<forall>v \<in> set (r_page_servo_failsafe s). pwm_range v) \<and>
     (\<forall>v \<in> set (r_page_servo_disarmed s). pwm_range v) \<and>
     (\<forall>v \<in> set (r_page_servo_control_min s). PWM_LOWEST_MIN \<le> v \<and> v \<le> PWM_HIGHEST_MIN) \<and>
     (\<forall>v \<in> set (r_page_servo_control_max s). PWM_LOWEST_MAX \<le> v \<and> v \<le> PWM_HIGHEST_MAX) \<and>
     rate_range (r_page_setup s ! PX4IO_P_SETUP_PWM_DEFAULTRATE) \<and>
     (r_page_setup s ! PX4IO_P_SETUP_PWM_ALTRATE = 0 \<or>
      rate_range (r_page_setup s ! PX4IO_P_SETUP_PWM_ALTRATE))"

lemma clamp_rate_range: "rate_range (clamp_rate v)"
  by (simp add: rate_range_def clamp_rate_def Let_def not_less)

lemma pwm_value_ranges:
  "pwm_range old \<Longrightarrow> pwm_range (failsafe_value old v)"
  "pwm_range (disarmed_value old v)"
  "90 \<le> old \<and> old \<le> 1600 \<Longrightarrow> 90 \<le> control_min_value old v \<and> control_min_value old v \<le> 1600"
  "200 \<le> old \<and> old \<le> 2500 \<Longrightarrow> 200 \<le> control_max_value old v \<and> control_max_value old v \<le> 2500"
  by (auto simp: pwm_range_def failsafe_value_def disarmed_value_def control_min_value_def
      control_max_value_def not_less)

text \<open>Frame facts: which pages a register write cannot touch.\<close>

lemma set_frames [simp]:
  "r_page_setup (status_or i m s) = r_page_setup s"
  "r_page_setup (status_clear i m s) = r_page_setup s"
  "r_page_setup (set_status i m s) = r_page_setup s"
  "r_page_setup (emit c s) = r_page_setup s"
  "r_page_setup (isr_debug l s) = r_page_setup s"
  "r_page_setup (schedule_reboot now d s) = r_page_setup s"
  "r_page_setup (interrupt_mixer_set_failsafe s) = r_page_setup s"
  "r_page_setup (set_rc_conf ch i v s) = r_page_setup s"
  "r_page_setup (set_setup i v s) = (r_page_setup s)[i := v]"
  "r_page_setup (setup_or i v s) = (r_page_setup s)[i := r_page_setup s ! i OR v]"
  "r_page_setup (setup_clear i v s) = (r_page_setup s)[i := r_page_setup s ! i AND NOT v]"
  "r_page_status (set_setup i v s) = r_page_status s"
  "r_page_status (setup_or i v s) = r_page_status s"
  "r_page_status (setup_clear i v s) = r_page_status s"
  "r_page_status (emit c s) = r_page_status s"
  "r_page_status (isr_debug l s) = r_page_status s"
  "r_page_status (schedule_reboot now d s) = r_page_status s"
  "r_page_status (interrupt_mixer_set_failsafe s) = r_page_status s"
  "r_page_status (set_rc_conf ch i v s) = r_page_status s"
  "r_page_status (set_status i v s) = (r_page_status s)[i := v]"
  "r_page_status (status_or i v s) = (r_page_status s)[i := r_page_status s ! i OR v]"
  "r_page_status (status_clear i v s) = (r_page_status s)[i := r_page_status s ! i AND NOT v]"
  by (simp_all add: io_set_defs set_rc_conf_def)


text \<open>What configuring the rates leaves alone.\<close>

definition same_config :: "io \<Rightarrow> io \<Rightarrow> bool" where
  "same_config s t \<longleftrightarrow>
     r_page_servo_failsafe t = r_page_servo_failsafe s \<and>
     r_page_servo_disarmed t = r_page_servo_disarmed s \<and>
     r_page_servo_control_min t = r_page_servo_control_min s \<and>
     r_page_servo_control_max t = r_page_servo_control_max s"

lemma same_config_refl [simp]: "same_config s s"
  by (simp add: same_config_def)

lemma same_config_set [simp]:
  "same_config s (set_status i v t) = same_config s t"
  "same_config s (status_or i v t) = same_config s t"
  "same_config s (status_clear i v t) = same_config s t"
  "same_config s (set_setup i v t) = same_config s t"
  "same_config s (setup_or i v t) = same_config s t"
  "same_config s (setup_clear i v t) = same_config s t"
  "same_config s (set_rc_conf ch i v t) = same_config s t"
  "same_config s (emit c t) = same_config s t"
  "same_config s (isr_debug l t) = same_config s t"
  "same_config s (schedule_reboot now d t) = same_config s t"
  "same_config s (interrupt_mixer_set_failsafe t) = same_config s t"
  "same_config s (t\<lparr>update_mc_thrust_param := b\<rparr>) = same_config s t"
  by (simp_all add: same_config_def io_set_defs set_rc_conf_def)

lemma fold_group_rate_frame [simp]:
  "r_page_setup (fold (set_group_rate h m) gs s) = r_page_setup s"
  "same_config s0 (fold (set_group_rate h m) gs s) = same_config s0 s"
  "length (r_page_status (fold (set_group_rate h m) gs s)) = length (r_page_status s)"
  "r_status_flags (fold (set_group_rate h m) gs s) = r_status_flags s"
  by (induction gs arbitrary: s) (auto simp: set_group_rate_def Let_def r_status_flags_def)


lemma same_config_parts [simp]:
  "same_config s (set_features v t) = same_config s t"
  "same_config s (set_arming v t) = same_config s t"
  "same_config s (pwm_configure_rates h m d a t) = same_config s t"
  "same_config s (set_rc_options ch v t) = same_config s t"
  by (simp_all add: set_features_def set_arming_def pwm_configure_rates_def set_rc_options_def Let_def)

lemma same_config_pages:
  "same_config s (snd (set_status_reg off v s))"
  "same_config s (snd (set_rc_config_reg off v s))"
  by (simp_all add: set_status_reg_def set_rc_config_reg_def Let_def)

lemma same_config_setup:
  "same_config s (snd (set_setup_reg h now off v s))"
  by (simp add: set_setup_reg_def del: plain_setup_regs_def)

lemma same_config_registers_set_one: "same_config s (snd (registers_set_one h now pg off v s))"
  by (simp add: registers_set_one_def same_config_pages same_config_setup)

definition rates_ok :: "io \<Rightarrow> bool" where
  "rates_ok s \<longleftrightarrow>
     length (r_page_setup s) = 29 \<and>
     rate_range (r_page_setup s ! PX4IO_P_SETUP_PWM_DEFAULTRATE) \<and>
     (r_page_setup s ! PX4IO_P_SETUP_PWM_ALTRATE = 0 \<or>
      rate_range (r_page_setup s ! PX4IO_P_SETUP_PWM_ALTRATE))"

lemma rates_ok_upd [simp]:
  "rates_ok (set_status i v s) = rates_ok s"
  "rates_ok (status_or i v s) = rates_ok s"
  "rates_ok (status_clear i v s) = rates_ok s"
  "rates_ok (set_rc_conf ch i v s) = rates_ok s"
  "rates_ok (emit c s) = rates_ok s"
  "rates_ok (isr_debug l s) = rates_ok s"
  "rates_ok (schedule_reboot now d s) = rates_ok s"
  "rates_ok (interrupt_mixer_set_failsafe s) = rates_ok s"
  "rates_ok (s\<lparr>update_mc_thrust_param := b\<rparr>) = rates_ok s"
  "rates_ok (fold (set_group_rate h m) gs s) = rates_ok s"
  "i \<noteq> 3 \<Longrightarrow> i \<noteq> 4 \<Longrightarrow> rates_ok (set_setup i v s) = rates_ok s"
  "i \<noteq> 3 \<Longrightarrow> i \<noteq> 4 \<Longrightarrow> rates_ok (setup_or i v s) = rates_ok s"
  "i \<noteq> 3 \<Longrightarrow> i \<noteq> 4 \<Longrightarrow> rates_ok (setup_clear i v s) = rates_ok s"
  by (simp_all add: rates_ok_def)

lemma rates_ok_configure:
  assumes "rates_ok s" "rate_range d" "a = 0 \<or> rate_range a"
  shows "rates_ok (pwm_configure_rates h m d a s)"
  using assms by (simp add: rates_ok_def pwm_configure_rates_def nth_list_update)

lemma rates_ok_regs:
  "rates_ok s \<Longrightarrow> rate_range (r_page_setup s ! 3)"
  "rates_ok s \<Longrightarrow> r_page_setup s ! 4 = 0 \<or> rate_range (r_page_setup s ! 4)"
  by (simp_all add: rates_ok_def)

lemma rates_ok_parts [simp]:
  "rates_ok (set_features v s) = rates_ok s"
  "rates_ok (set_arming v s) = rates_ok s"
  "rates_ok (set_rc_options ch v s) = rates_ok s"
  by (simp_all add: set_features_def set_arming_def set_rc_options_def Let_def)

lemma rates_ok_setup: "rates_ok s \<Longrightarrow> rates_ok (snd (set_setup_reg h now off v s))"
  by (auto simp: set_setup_reg_def rates_ok_configure rates_ok_regs clamp_rate_range)

lemma rates_ok_registers_set_one: "rates_ok s \<Longrightarrow> rates_ok (snd (registers_set_one h now pg off v s))"
  by (simp add: registers_set_one_def rates_ok_setup set_status_reg_def set_rc_config_reg_def Let_def)

lemma pwm_limits_registers_set_one:
  assumes "io_wf s" and "pwm_limits_ok s"
  shows "pwm_limits_ok (snd (registers_set_one h now pg off v s))"
proof -
  from assms have "rates_ok s"
    by (simp add: rates_ok_def pwm_limits_ok_def io_wf_def)
  then have "rates_ok (snd (registers_set_one h now pg off v s))"
    by (rule rates_ok_registers_set_one)
  with same_config_registers_set_one [of s h now pg off v] assms show ?thesis
    by (simp add: pwm_limits_ok_def same_config_def rates_ok_def)
qed

lemma pwm_limits_copy:
  assumes "io_wf s" and "pwm_limits_ok s"
  shows "\<forall>v \<in> set (copy_loop failsafe_value 8 off vs (r_page_servo_failsafe s)). pwm_range v"
    and "\<forall>v \<in> set (copy_loop disarmed_value 8 off vs (r_page_servo_disarmed s)). pwm_range v"
    and "\<forall>v \<in> set (copy_loop control_min_value 8 off vs (r_page_servo_control_min s)). 90 \<le> v \<and> v \<le> 1600"
    and "\<forall>v \<in> set (copy_loop control_max_value 8 off vs (r_page_servo_control_max s)). 200 \<le> v \<and> v \<le> 2500"
  using assms
  by (intro copy_loop_all pwm_value_ranges; simp add: pwm_limits_ok_def io_wf_def)+

lemma pwm_limits_bulk:
  assumes "io_wf s" and "pwm_limits_ok s" and "pg \<in> set bulk_pages"
  shows "pwm_limits_ok (snd (registers_set h now pg off8 vs s))"
  using assms(3)
proof (cases rule: bulk_page_cases)
  case 8
  with assms(2) show ?thesis
    by (simp add: registers_set_def interrupt_mixer_handle_text_def pwm_limits_ok_def Let_def io_set_defs)
qed (use assms(2) pwm_limits_copy [OF assms(1,2)] in
     \<open>simp add: registers_set_def Let_def pwm_limits_ok_def io_set_defs\<close>)+

interpretation pwm_regs: register_invariant "\<lambda>s. io_wf s \<and> pwm_limits_ok s"
  by unfold_locales
    (auto intro: io_wf_registers_set_one io_wf_bulk pwm_limits_registers_set_one pwm_limits_bulk)


lemma alias_upd [simp]:
  "io_wf s \<Longrightarrow> r_status_flags (status_or i m s) = (if i = 2 then r_status_flags s OR m else r_status_flags s)"
  "io_wf s \<Longrightarrow> r_status_flags (status_clear i m s) = (if i = 2 then r_status_flags s AND NOT m else r_status_flags s)"
  "io_wf s \<Longrightarrow> r_status_flags (set_status i m s) = (if i = 2 then m else r_status_flags s)"
  "r_status_flags (setup_or i m s) = r_status_flags s"
  "r_status_flags (setup_clear i m s) = r_status_flags s"
  "r_status_flags (set_setup i m s) = r_status_flags s"
  "r_status_flags (set_rc_conf ch i m s) = r_status_flags s"
  "r_status_flags (emit c s) = r_status_flags s"
  "r_status_flags (isr_debug l s) = r_status_flags s"
  "r_status_flags (schedule_reboot now d s) = r_status_flags s"
  "r_status_flags (interrupt_mixer_set_failsafe s) = r_status_flags s"
  "io_wf s \<Longrightarrow> r_setup_arming (setup_or i m s) = (if i = 1 then r_setup_arming s OR m else r_setup_arming s)"
  "io_wf s \<Longrightarrow> r_setup_arming (setup_clear i m s) = (if i = 1 then r_setup_arming s AND NOT m else r_setup_arming s)"
  "io_wf s \<Longrightarrow> r_setup_arming (set_setup i m s) = (if i = 1 then m else r_setup_arming s)"
  "r_setup_arming (status_or i m s) = r_setup_arming s"
  "r_setup_arming (status_clear i m s) = r_setup_arming s"
  "r_setup_arming (set_status i m s) = r_setup_arming s"
  "r_setup_arming (set_rc_conf ch i m s) = r_setup_arming s"
  "r_setup_arming (emit c s) = r_setup_arming s"
  "r_setup_arming (isr_debug l s) = r_setup_arming s"
  "r_setup_arming (schedule_reboot now d s) = r_setup_arming s"
  "r_setup_arming (interrupt_mixer_set_failsafe s) = r_setup_arming s"
  by (auto simp: io_alias_defs io_set_defs set_rc_conf_def io_wf_def nth_list_update)

lemma alias_fields [simp]:
  "r_status_flags (s\<lparr>update_mc_thrust_param := b\<rparr>) = r_status_flags s"
  "r_status_flags (s\<lparr>fmu_data_received_time := t\<rparr>) = r_status_flags s"
  "r_setup_arming (s\<lparr>update_mc_thrust_param := b\<rparr>) = r_setup_arming s"
  "r_setup_arming (s\<lparr>fmu_data_received_time := t\<rparr>) = r_setup_arming s"
  by (simp_all add: io_alias_defs)

lemma pwm_configure_alias [simp]:
  "io_wf s \<Longrightarrow> r_status_flags (pwm_configure_rates h m d a s) = r_status_flags s"
  "io_wf s \<Longrightarrow> r_setup_arming (pwm_configure_rates h m d a s) = r_setup_arming s"
  by (simp_all add: pwm_configure_rates_def) (simp add: r_setup_arming_def)

text \<open>The termination latch.\<close>

definition latched :: "bool \<Rightarrow> io \<Rightarrow> bool" where
  "latched forced s \<longleftrightarrow> io_wf s \<and>
     tst (r_setup_arming s) PX4IO_P_SETUP_ARMING_TERMINATION_FAILSAFE \<and>
     (forced \<longrightarrow> tst (r_setup_arming s) PX4IO_P_SETUP_ARMING_FORCE_FAILSAFE)"

lemma latched_wf: "latched f s \<Longrightarrow> io_wf s"
  by (simp add: latched_def)

lemma latched_parts [simp]:
  "latched f s \<Longrightarrow> latched f (set_features v s)"
  "latched f s \<Longrightarrow> latched f (set_arming v s)"
  "latched f s \<Longrightarrow> latched f (set_rc_options ch v s)"
  "latched f s \<Longrightarrow> latched f (pwm_configure_rates h m d a s)"
  by (simp_all add: latched_def set_features_def set_arming_def set_rc_options_def Let_def)

lemma latched_upd [simp]:
  "latched f s \<Longrightarrow> latched f (set_status i v s)"
  "latched f s \<Longrightarrow> latched f (status_or i v s)"
  "latched f s \<Longrightarrow> latched f (status_clear i v s)"
  "latched f s \<Longrightarrow> latched f (set_rc_conf ch i v s)"
  "latched f s \<Longrightarrow> latched f (emit c s)"
  "latched f s \<Longrightarrow> latched f (isr_debug l s)"
  "latched f s \<Longrightarrow> latched f (schedule_reboot now d s)"
  "latched f s \<Longrightarrow> latched f (interrupt_mixer_set_failsafe s)"
  "latched f s \<Longrightarrow> latched f (s\<lparr>update_mc_thrust_param := b\<rparr>)"
  "latched f s \<Longrightarrow> i \<noteq> 1 \<Longrightarrow> latched f (set_setup i v s)"
  by (simp_all add: latched_def)

lemma latched_setup: "latched f s \<Longrightarrow> latched f (snd (set_setup_reg h now off v s))"
  by (simp add: set_setup_reg_def)

lemma latched_registers_set_one: "latched f s \<Longrightarrow> latched f (snd (registers_set_one h now pg off v s))"
  by (simp add: registers_set_one_def latched_setup set_status_reg_def set_rc_config_reg_def Let_def)

lemma latched_bulk:
  assumes "latched f s" and "pg \<in> set bulk_pages"
  shows "latched f (snd (registers_set h now pg off8 vs s))"
proof -
  have "io_wf (snd (registers_set h now pg off8 vs s))"
    using assms by (auto intro: io_wf_bulk latched_wf)
  with assms(2) show ?thesis
  proof (cases rule: bulk_page_cases)
    case 8
    with assms(1) show ?thesis
      by (simp add: latched_def registers_set_def interrupt_mixer_handle_text_def Let_def)
        (auto simp: r_setup_arming_def)
  qed (use assms(1) in \<open>simp add: latched_def registers_set_def Let_def r_setup_arming_def io_set_defs io_wf_def\<close>)+
qed

interpretation latch_regs: register_invariant "latched forced" for forced
  by unfold_locales (auto intro: latched_registers_set_one latched_bulk)


section \<open>Who can switch the safety\<close>

lemma set_parts_flags [simp]:
  "io_wf s \<Longrightarrow> r_status_flags (set_features v s) = r_status_flags s"
  "io_wf s \<Longrightarrow> bit (r_status_flags (set_arming v s)) 12 = bit (r_status_flags s) 12"
  "io_wf s \<Longrightarrow> bit (r_status_flags (set_rc_options ch v s)) 12 = bit (r_status_flags s) 12"
  by (simp_all add: set_features_def set_arming_def set_rc_options_def Let_def)

lemma safety_set_setup_reg:
  assumes "io_wf s" and "\<not> ((off = 12 \<or> off = 14) \<and> v = PX4IO_FORCE_SAFETY_MAGIC)"
  shows "bit (r_status_flags (snd (set_setup_reg h now off v s))) 12 = bit (r_status_flags s) 12"
  using assms by (auto simp: set_setup_reg_def)

lemma safety_set_status_reg:
  assumes "io_wf s" and "off \<noteq> 2 \<or> tst (r_status_flags s) PX4IO_P_STATUS_FLAGS_ARM_SYNC"
  shows "bit (r_status_flags (snd (set_status_reg off v s))) 12 = bit (r_status_flags s) 12"
  using assms by (auto simp: set_status_reg_def Let_def)

lemma safety_set_rc_config_reg:
  "io_wf s \<Longrightarrow> bit (r_status_flags (snd (set_rc_config_reg off v s))) 12 = bit (r_status_flags s) 12"
  by (simp add: set_rc_config_reg_def Let_def)

section \<open>R/C channel configuration\<close>

lemma rc_conf_index:
  assumes "i < 6" and "j < 6"
  shows "c * 6 + i = c' * 6 + j \<longleftrightarrow> c = c' \<and> i = (j::nat)"
proof -
  have "(c * 6 + i) div 6 = c" "(c' * 6 + j) div 6 = c'"
    using assms by simp_all
  then have "c * 6 + i = c' * 6 + j \<Longrightarrow> c = c'"
    by metis
  then show ?thesis by auto
qed

lemma rc_conf_set [simp]:
  "io_wf s \<Longrightarrow> c < 18 \<Longrightarrow> i < 6 \<Longrightarrow> j < 6 \<Longrightarrow> c' < 18 \<Longrightarrow>
   rc_conf (set_rc_conf c i v s) c' j = (if c' = c \<and> j = i then v else rc_conf s c' j)"
  by (auto simp: rc_conf_def set_rc_conf_def io_wf_def nth_list_update rc_conf_index)

lemma rc_conf_frames [simp]:
  "rc_conf (status_or i m s) c j = rc_conf s c j"
  "rc_conf (status_clear i m s) c j = rc_conf s c j"
  "rc_conf (setup_clear i m s) c j = rc_conf s c j"
  "rc_conf (isr_debug l s) c j = rc_conf s c j"
  by (simp_all add: rc_conf_def io_set_defs)

lemma rc_conf_errors_cong:
  "(\<And>j. j < 5 \<Longrightarrow> rc_conf s c j = rc_conf t c j) \<Longrightarrow> rc_conf_errors s c = rc_conf_errors t c"
  by (simp add: rc_conf_errors_def)

definition rc_enabled :: "io \<Rightarrow> nat \<Rightarrow> bool" where
  "rc_enabled s c \<longleftrightarrow> tst (rc_conf s c PX4IO_P_RC_CONFIG_OPTIONS) PX4IO_P_RC_CONFIG_OPTIONS_ENABLED"

lemma set_rc_options_enabled:
  assumes "io_wf s" and "c < 18" and "rc_enabled (set_rc_options c v s) c"
  shows "rc_conf_errors (set_rc_options c v s) c = 0"
    and "rc_conf (set_rc_options c v s) c PX4IO_P_RC_CONFIG_ASSIGNMENT \<noteq> 0xFF"
proof -
  define s3 where "s3 = set_rc_conf c PX4IO_P_RC_CONFIG_OPTIONS
      ((v AND PX4IO_P_RC_CONFIG_OPTIONS_VALID) AND NOT PX4IO_P_RC_CONFIG_OPTIONS_ENABLED)
      (setup_clear PX4IO_P_SETUP_ARMING PX4IO_P_SETUP_ARMING_RC_HANDLING_DISABLED
        (status_or PX4IO_P_STATUS_FLAGS PX4IO_P_STATUS_FLAGS_INIT_OK s))"
  have wf3: "io_wf s3" and dis: "\<not> rc_enabled s3 c"
    using assms(1,2) by (simp_all add: s3_def rc_enabled_def)
  have eq: "set_rc_options c v s =
     (if tst (v AND PX4IO_P_RC_CONFIG_OPTIONS_VALID) PX4IO_P_RC_CONFIG_OPTIONS_ENABLED then
        if rc_conf_errors s3 c \<noteq> 0
        then status_clear PX4IO_P_STATUS_FLAGS PX4IO_P_STATUS_FLAGS_INIT_OK (isr_debug 0 s3)
        else if rc_conf s3 c PX4IO_P_RC_CONFIG_ASSIGNMENT \<noteq> 0xFF
        then set_rc_conf c PX4IO_P_RC_CONFIG_OPTIONS
               (rc_conf s3 c PX4IO_P_RC_CONFIG_OPTIONS OR PX4IO_P_RC_CONFIG_OPTIONS_ENABLED) s3
        else s3 else s3)"
    by (simp add: set_rc_options_def Let_def s3_def)
  have on: "rc_conf_errors s3 c = 0" "rc_conf s3 c PX4IO_P_RC_CONFIG_ASSIGNMENT \<noteq> 0xFF"
    "set_rc_options c v s = set_rc_conf c PX4IO_P_RC_CONFIG_OPTIONS
        (rc_conf s3 c PX4IO_P_RC_CONFIG_OPTIONS OR PX4IO_P_RC_CONFIG_OPTIONS_ENABLED) s3"
    using assms(3) dis unfolding eq by (auto simp: rc_enabled_def split: if_splits)
  then show "rc_conf_errors (set_rc_options c v s) c = 0"
    using wf3 assms(2) rc_conf_errors_cong [of "set_rc_options c v s" c s3] by simp
  from on show "rc_conf (set_rc_options c v s) c PX4IO_P_RC_CONFIG_ASSIGNMENT \<noteq> 0xFF"
    using wf3 assms(2) by simp
qed


section \<open>Behaviour of single operations\<close>

lemma safety_registers_set_one:
  assumes "io_wf s" and "pg \<noteq> PX4IO_PAGE_STATUS" and "v \<noteq> PX4IO_FORCE_SAFETY_MAGIC"
  shows "bit (r_status_flags (snd (registers_set_one h now pg off v s))) 12 = bit (r_status_flags s) 12"
  using assms by (simp add: registers_set_one_def safety_set_setup_reg safety_set_rc_config_reg)

lemma safety_registers_set_each:
  assumes "io_wf s" and "pg \<noteq> PX4IO_PAGE_STATUS" and "PX4IO_FORCE_SAFETY_MAGIC \<notin> set vs"
  shows "bit (r_status_flags (snd (registers_set_each h now pg off vs s))) 12 = bit (r_status_flags s) 12"
  using assms
proof (induction vs arbitrary: off s)
  case (Cons v vs)
  obtain r s' where one: "registers_set_one h now pg off v s = (r, s')"
    by fastforce
  moreover have "io_wf s'"
    using io_wf_registers_set_one [OF Cons.prems(1), of h now pg off v] one by simp
  moreover have "bit (r_status_flags s') 12 = bit (r_status_flags s) 12"
    using safety_registers_set_one [OF Cons.prems(1,2), of v h now off] Cons.prems(3) one by simp
  ultimately show ?case
    using Cons.IH [of s' "Suc off"] Cons.prems by simp
qed simp

lemma safety_bulk:
  assumes "io_wf s" and "pg \<in> set bulk_pages"
  shows "bit (r_status_flags (snd (registers_set h now pg off8 vs s))) 12 = bit (r_status_flags s) 12"
  using assms(2)
proof (cases rule: bulk_page_cases)
  case 8
  with assms(1) show ?thesis
    by (simp add: registers_set_def interrupt_mixer_handle_text_def Let_def)
      (simp add: r_status_flags_def io_set_defs io_wf_def)
qed (use assms(1) in \<open>simp add: registers_set_def Let_def r_status_flags_def io_set_defs io_wf_def\<close>)+

lemma hw_fold_group_rate:
  "hw (fold (set_group_rate h m) gs s) =
     hw s @ map (\<lambda>g. UpPwmRateGroup g
                  (if ucast m AND rate_group h g \<noteq> 0 then r_page_setup s ! PX4IO_P_SETUP_PWM_ALTRATE
                   else r_page_setup s ! PX4IO_P_SETUP_PWM_DEFAULTRATE)) gs"
proof (induction gs arbitrary: s)
  case (Cons g gs)
  have "hw (set_group_rate h m g s) = hw s @ [UpPwmRateGroup g
       (if ucast m AND rate_group h g \<noteq> 0 then r_page_setup s ! PX4IO_P_SETUP_PWM_ALTRATE
        else r_page_setup s ! PX4IO_P_SETUP_PWM_DEFAULTRATE)]"
    and "r_page_setup (set_group_rate h m g s) = r_page_setup s"
    by (simp_all add: set_group_rate_def Let_def io_set_defs)
  with Cons.IH [of "set_group_rate h m g s"] show ?case
    by simp
qed simp

lemma copy_loop_replace:
  "off \<le> length arr \<Longrightarrow>
   copy_loop (\<lambda>_ v. v) (length arr) off vs arr =
     take off arr @ take (length arr - off) vs @ drop (off + length vs) arr"
  by (rule nth_equalityI) (auto simp: copy_loop_nth nth_append min_def)

section \<open>Results\<close>

text \<open>A board whose eight outputs form two rate groups, and a state with one configured channel.\<close>

definition demo_hw :: io_hw where
  "demo_hw = \<lparr>rate_group = (\<lambda>g. if g = 0 then 0x0F else if g = 4 then 0xF0 else 0),
     set_rate_ok = (\<lambda>g r. True), adc = (\<lambda>c. 100)\<rparr>"

definition demo_rc :: "u16 \<Rightarrow> io" where
  "demo_rc options =
     io_init\<lparr>r_page_rc_input_config := [1000, 1500, 2000, 30, 0, options] @ replicate 102 0\<rparr>"

lemma demo_rc_facts:
  "io_wf (demo_rc options)"
  "\<not> tst (r_status_flags (demo_rc options)) PX4IO_P_STATUS_FLAGS_SAFETY_OFF"
  by (simp_all add: demo_rc_def io_init_def io_wf_def r_status_flags_def)

text \<open>
  C6. Every register write of the FMU, whatever the page, offset and values, keeps the array
  sizes of the register file and keeps every PWM limit in the range the firmware promises:
  failsafe and disarmed pulses are off or within 90..2500 us, the minimum of an armed output
  within 90..1600 us, its maximum within 200..2500 us, the default rate within 25..400 Hz and the
  alternate rate either 0 (oneshot) or within 25..400 Hz.
\<close>

theorem registers_set_keeps_pwm_limits:
  assumes "io_wf s" and "pwm_limits_ok s"
  shows "io_wf (snd (registers_set h now pg off vs s)) \<and>
         pwm_limits_ok (snd (registers_set h now pg off vs s))"
  using pwm_regs.set_all assms by blast

theorem registers_set_keeps_pwm_limits_witness:
  "pwm_limits_ok io_init \<and>
   pwm_limits_ok (snd (registers_set demo_hw 0 PX4IO_PAGE_FAILSAFE_PWM 6 [10, 9000, 1500] io_init))"
proof -
  have "pwm_limits_ok io_init"
    by (simp add: pwm_limits_ok_def io_init_def pwm_range_def rate_range_def)
  with registers_set_keeps_pwm_limits [OF io_wf_init this] show ?thesis
    by blast
qed


text \<open>
  The safety switch: a write to any page but STATUS leaves the safety-off flag as it is unless
  one of the values written is the magic number of the force-safety registers.
\<close>

lemma safety_needs_magic:
  assumes "io_wf s" and "pg \<noteq> PX4IO_PAGE_STATUS" and "PX4IO_FORCE_SAFETY_MAGIC \<notin> set vs"
  shows "tst (r_status_flags (snd (registers_set h now pg off vs s))) PX4IO_P_STATUS_FLAGS_SAFETY_OFF =
         tst (r_status_flags s) PX4IO_P_STATUS_FLAGS_SAFETY_OFF"
proof (cases "pg \<in> set bulk_pages")
  case True
  with assms(1) show ?thesis
    by (simp only: PX4IO_P_STATUS_FLAGS_SAFETY_OFF_def tst_BIT safety_bulk)
next
  case False
  have "PX4IO_FORCE_SAFETY_MAGIC \<notin> set (take k vs)" for k
    using assms(3) by (auto dest: in_set_takeD)
  with False assms show ?thesis
    by (simp add: registers_set_def Let_def safety_registers_set_each)
qed


text \<open>
  A write to the OPTIONS register of an R/C channel leaves the channel enabled only when its
  limits are ordered and in range (500 \<le> min \<le> center \<le> max \<le> 2500, dead zone at most 500) and it
  is assigned to a control or to the mode switch.
\<close>

lemma rc_channel_enabled_only_if_sane:
  assumes "io_wf s" and "c < PX4IO_RC_INPUT_CHANNELS"
    and "set_rc_config_reg (c * 6 + 5) v s = (r, s')"
    and "\<not> tst (r_status_flags s) PX4IO_P_STATUS_FLAGS_SAFETY_OFF"
    and "rc_enabled s' c"
  shows "500 \<le> rc_conf s' c 0 \<and> rc_conf s' c 0 \<le> rc_conf s' c 1 \<and> rc_conf s' c 1 \<le> rc_conf s' c 2 \<and>
         rc_conf s' c 2 \<le> 2500 \<and> rc_conf s' c 3 \<le> 500 \<and>
         (rc_conf s' c 4 < 8 \<or> rc_conf s' c 4 = 100)"
proof -
  let ?s1 = "set_rc_conf c 5 (rc_conf s c 5 AND BIT 0) s"
  have s': "s' = set_rc_options c v ?s1"
    using assms(2-4) by (simp add: set_rc_config_reg_def Let_def)
  have "io_wf ?s1" "c < 18"
    using assms(1,2) by simp_all
  note sane = set_rc_options_enabled [OF this assms(5) [unfolded s']]
  from sane show ?thesis
    unfolding s' [symmetric]
    by (auto simp: rc_conf_errors_def not_less split: if_splits)
qed

text \<open>
  Writing any other parameter of an R/C channel (its limits, dead zone or assignment) while
  safety is on leaves an enabled channel enabled, with whatever value was written: the new limits
  are not checked, and only the other option bits are cleared.
\<close>

lemma rc_parameter_write_keeps_enabled:
  assumes "io_wf s" and "c < PX4IO_RC_INPUT_CHANNELS" and "i < 5"
    and "\<not> tst (r_status_flags s) PX4IO_P_STATUS_FLAGS_SAFETY_OFF"
    and "rc_enabled s c"
  shows "\<exists>s'. set_rc_config_reg (c * 6 + i) v s = (0, s') \<and>
           rc_enabled s' c \<and> rc_conf s' c i = v \<and> rc_conf s' c 5 = PX4IO_P_RC_CONFIG_OPTIONS_ENABLED"
proof -
  have "(c * 6 + i) div 6 = c"
    using assms(3) by simp
  moreover have "rc_conf s c 5 AND BIT 0 = BIT 0"
    using assms(5) by (auto simp: rc_enabled_def intro!: bit_eqI)
  ultimately show ?thesis
    using assms by (simp add: set_rc_config_reg_def Let_def rc_enabled_def)
qed


text \<open>
  The options of the FEATURES register exclude each other: whatever value is written, at most
  one of the four is stored, S.BUS 1 before S.BUS 2 before ADC RSSI before PWM RSSI, and nothing
  else is stored.
\<close>

lemma features_exclusive:
  "features_value v =
     (if tst v PX4IO_P_SETUP_FEATURES_SBUS1_OUT then PX4IO_P_SETUP_FEATURES_SBUS1_OUT
      else if tst v PX4IO_P_SETUP_FEATURES_SBUS2_OUT then PX4IO_P_SETUP_FEATURES_SBUS2_OUT
      else if tst v PX4IO_P_SETUP_FEATURES_ADC_RSSI then PX4IO_P_SETUP_FEATURES_ADC_RSSI
      else if tst v PX4IO_P_SETUP_FEATURES_PWM_RSSI then PX4IO_P_SETUP_FEATURES_PWM_RSSI
      else 0)"
  by (rule bit_eqI) (auto simp: features_value_def Let_def intro: gr0I)

text \<open>
  Changing a PWM rate: with a legal map the driver is given, for every rate group, the rate the
  setup page held before the write, and only then the new rates are stored; the hardware sees a
  new rate at the next configuration.
\<close>

lemma pwm_rates_applied_late:
  assumes "io_wf s" and "\<not> rate_map_illegal h m"
  shows "hw (pwm_configure_rates h m d a s) =
           hw s @ map (\<lambda>g. UpPwmRateGroup g (if ucast m AND rate_group h g \<noteq> 0
                    then r_page_setup s ! PX4IO_P_SETUP_PWM_ALTRATE
                    else r_page_setup s ! PX4IO_P_SETUP_PWM_DEFAULTRATE)) (rate_groups h) \<and>
         r_page_setup (pwm_configure_rates h m d a s) =
           (r_page_setup s)[PX4IO_P_SETUP_PWM_RATES := m, PX4IO_P_SETUP_PWM_DEFAULTRATE := d,
                            PX4IO_P_SETUP_PWM_ALTRATE := a]"
proof -
  have "hw (set_setup i v t) = hw t" for i v t
    by (simp add: set_setup_def)
  then show ?thesis
    using assms by (simp add: pwm_configure_rates_def hw_fold_group_rate)
qed

text \<open>
  Round trip: what the FMU writes to the control page is what it reads back, up to the end of
  the page.
\<close>

lemma controls_write_read:
  assumes "io_wf s" and "unat off < 32" and "vs \<noteq> []"
  shows "fst (registers_get h PX4IO_PAGE_CONTROLS off
               (snd (registers_set h now PX4IO_PAGE_CONTROLS off vs s))) =
         Some (take (32 - unat off) vs @ drop (unat off + length vs) (r_page_controls s))"
proof -
  have "copy_loop (\<lambda>_ v. v) 32 (unat off) vs (r_page_controls s) =
          take (unat off) (r_page_controls s) @ take (32 - unat off) vs @
          drop (unat off + length vs) (r_page_controls s)"
    using assms copy_loop_replace [of "unat off" "r_page_controls s" vs] by (simp add: io_wf_def)
  with assms show ?thesis
    by (simp add: registers_get_def page_select_def registers_set_def Let_def io_set_defs io_wf_def)
qed


end
