(* ===== verification/IO_Safety.thy ===== *)
theory IO_Safety
  imports IO_Registers
begin

text \<open>
  The safety button and the status LEDs of the PX4IO firmware (\<^verbatim>\<open>safety.c\<close>). Both handlers are
  called periodically by the high resolution timer: the button at 10 Hz, the failsafe LED at 8 Hz.
\<close>

definition LED_PATTERN_FMU_OK_TO_ARM :: u16 where [simp]: "LED_PATTERN_FMU_OK_TO_ARM = 0x0003"
definition LED_PATTERN_FMU_REFUSE_TO_ARM :: u16 where [simp]: "LED_PATTERN_FMU_REFUSE_TO_ARM = 0x5555"
definition LED_PATTERN_IO_ARMED :: u16 where [simp]: "LED_PATTERN_IO_ARMED = 0x5050"
definition LED_PATTERN_FMU_ARMED :: u16 where [simp]: "LED_PATTERN_FMU_ARMED = 0x5500"
definition LED_PATTERN_IO_FMU_ARMED :: u16 where [simp]: "LED_PATTERN_IO_FMU_ARMED = 0xffff"
definition ARM_COUNTER_THRESHOLD :: u32 where [simp]: "ARM_COUNTER_THRESHOLD = 10"

text \<open>The button counter: ten samples in a row switch the safety off.\<close>

definition button_count :: "bool \<Rightarrow> io \<Rightarrow> io" where
  "button_count safety_button_pressed s =
     (if safety_button_pressed \<and> \<not> tst (r_status_flags s) PX4IO_P_STATUS_FLAGS_SAFETY_OFF \<and>
         tst (r_setup_arming s) PX4IO_P_SETUP_ARMING_IO_ARM_OK
      then let c = (if button_counter s \<le> ARM_COUNTER_THRESHOLD then button_counter s + 1
                    else button_counter s);
               s' = s\<lparr>button_counter := c\<rparr>
           in if c = ARM_COUNTER_THRESHOLD
              then status_or PX4IO_P_STATUS_FLAGS PX4IO_P_STATUS_FLAGS_SAFETY_OFF s' else s'
      else s\<lparr>button_counter := 0\<rparr>)"

definition led_pattern :: "io \<Rightarrow> u16" where
  "led_pattern s =
     (if tst (r_status_flags s) PX4IO_P_STATUS_FLAGS_SAFETY_OFF then
        if tst (r_setup_arming s) PX4IO_P_SETUP_ARMING_FMU_ARMED then LED_PATTERN_IO_FMU_ARMED
        else LED_PATTERN_IO_ARMED
      else if tst (r_setup_arming s) PX4IO_P_SETUP_ARMING_FMU_ARMED then LED_PATTERN_FMU_ARMED
      else if tst (r_setup_arming s) PX4IO_P_SETUP_ARMING_IO_ARM_OK then LED_PATTERN_FMU_OK_TO_ARM
      else LED_PATTERN_FMU_REFUSE_TO_ARM)"

definition safety_check_button :: "bool \<Rightarrow> io \<Rightarrow> io" where
  "safety_check_button safety_button_pressed s =
     (let s1 = button_count safety_button_pressed s;
          s2 = emit (LedSafety (bit (led_pattern s1) (unat (blink_counter s1)))) s1;
          b = blink_counter s2 + 1
      in s2\<lparr>blink_counter := (if b > 15 then 0 else b)\<rparr>)"

definition failsafe_blink :: "io \<Rightarrow> io" where
  "failsafe_blink s =
     (if \<not> tst (r_status_flags s) PX4IO_P_STATUS_FLAGS_INIT_OK then emit (LedAmber True) s
      else let failsafe = (if \<not> tst (r_status_flags s) PX4IO_P_STATUS_FLAGS_FMU_OK
                           then \<not> failsafe_phase s else False)
           in emit (LedAmber failsafe) (s\<lparr>failsafe_phase := failsafe\<rparr>))"

text \<open>A run of the button handler over the samples of the pin.\<close>

definition button_run :: "bool list \<Rightarrow> io \<Rightarrow> io" where
  "button_run samples s = fold safety_check_button samples s"

section \<open>Lemmas\<close>

lemma alias_button_fields [simp]:
  "r_status_flags (s\<lparr>button_counter := c\<rparr>) = r_status_flags s"
  "r_setup_arming (s\<lparr>button_counter := c\<rparr>) = r_setup_arming s"
  "r_status_flags (s\<lparr>blink_counter := c\<rparr>) = r_status_flags s"
  "r_setup_arming (s\<lparr>blink_counter := c\<rparr>) = r_setup_arming s"
  "io_wf (s\<lparr>button_counter := c\<rparr>) = io_wf s"
  "io_wf (s\<lparr>blink_counter := c\<rparr>) = io_wf s"
  by (simp_all add: io_alias_defs io_wf_def)

lemma button_count_simps:
  assumes "io_wf s"
  shows "io_wf (button_count p s)"
    and "r_setup_arming (button_count p s) = r_setup_arming s"
    and "bit (r_status_flags s) 12 \<Longrightarrow> bit (r_status_flags (button_count p s)) 12"
  using assms by (simp_all add: button_count_def Let_def)

lemma button_counter_frames [simp]:
  "button_counter (status_or i m s) = button_counter s"
  "button_counter (emit c s) = button_counter s"
  "button_counter (setup_or i m s) = button_counter s"
  by (simp_all add: io_set_defs)

lemma safety_check_button_simps:
  assumes "io_wf s"
  shows "io_wf (safety_check_button p s)"
    and "r_setup_arming (safety_check_button p s) = r_setup_arming s"
    and "r_status_flags (safety_check_button p s) = r_status_flags (button_count p s)"
    and "button_counter (safety_check_button p s) = button_counter (button_count p s)"
  using button_count_simps [OF assms] by (simp_all add: safety_check_button_def Let_def)

lemma button_count_on:
  assumes "io_wf s" and "\<not> bit (r_status_flags s) 12" and "button_counter s < 10"
  shows "bit (r_status_flags (button_count p s)) 12 \<longleftrightarrow>
           p \<and> bit (r_setup_arming s) 0 \<and> button_counter s = 9"
    and "button_counter (button_count p s) =
           (if p \<and> bit (r_setup_arming s) 0 then button_counter s + 1 else 0)"
proof -
  have "button_counter s + 1 = 10 \<longleftrightarrow> button_counter s = 9"
    using add_right_cancel [of "button_counter s" 1 9] by simp
  then show "bit (r_status_flags (button_count p s)) 12 \<longleftrightarrow>
           p \<and> bit (r_setup_arming s) 0 \<and> button_counter s = 9"
    using assms by (auto simp: button_count_def Let_def)
  show "button_counter (button_count p s) =
           (if p \<and> bit (r_setup_arming s) 0 then button_counter s + 1 else 0)"
    using assms by (simp add: button_count_def Let_def less_imp_le)
qed


text \<open>While safety is on, the counter is the length of the current run of pressed samples.\<close>

lemma button_run_off_window:
  assumes "io_wf s" and "\<not> bit (r_status_flags s) 12" and "unat (button_counter s) = c" and "c < 10"
    and "bit (r_status_flags (button_run xs s)) 12"
  shows "bit (r_setup_arming s) 0 \<and> (\<exists>ys zs. replicate c True @ xs = ys @ replicate 10 True @ zs)"
  using assms
proof (induction xs arbitrary: s c)
  case Nil
  then show ?case by (simp add: button_run_def)
next
  case (Cons x xs)
  let ?s = "safety_check_button x s"
  have lt: "button_counter s < 10"
    using Cons.prems(3,4) by (simp add: word_less_nat_alt)
  note on = button_count_on [OF Cons.prems(1,2) lt, of x]
  note simps = safety_check_button_simps [OF Cons.prems(1), of x]
  have run: "bit (r_status_flags (button_run xs ?s)) 12"
    using Cons.prems(5) by (simp add: button_run_def)
  consider "x \<and> bit (r_setup_arming s) 0" "c = 9" | "x \<and> bit (r_setup_arming s) 0" "c < 9"
    | "\<not> (x \<and> bit (r_setup_arming s) 0)"
    using Cons.prems(4) by linarith
  then show ?case
  proof cases
    case 1
    then have "replicate c True @ x # xs = [] @ replicate 10 True @ xs"
      by (simp add: numeral_eq_Suc)
    then show ?thesis using 1 by blast
  next
    case 2
    then have "unat (button_counter s + 1) = Suc c"
      using Cons.prems(3) by (simp add: unat_word_ariths)
    moreover have "button_counter s \<noteq> 9"
      using 2 Cons.prems(3) by auto
    ultimately obtain ys zs where "replicate (Suc c) True @ xs = ys @ replicate 10 True @ zs"
      using Cons.IH [of ?s "Suc c"] simps on run 2 by auto
    moreover have "replicate c True @ x # xs = replicate (Suc c) True @ xs"
      using 2 by (simp add: replicate_app_Cons_same)
    ultimately show ?thesis
      using 2 by auto
  next
    case 3
    with on simps have "\<not> bit (r_status_flags ?s) 12" "button_counter ?s = 0"
      by auto
    with Cons.IH [of ?s 0] simps run
    obtain ys zs where arm: "bit (r_setup_arming s) 0" and "xs = ys @ replicate 10 True @ zs"
      by auto
    then have "replicate c True @ x # xs = (replicate c True @ x # ys) @ replicate 10 True @ zs"
      by simp
    with arm show ?thesis by blast
  qed
qed

lemma button_run_keeps_off:
  "io_wf s \<Longrightarrow> bit (r_status_flags s) 12 \<Longrightarrow> bit (r_status_flags (button_run xs s)) 12"
proof (induction xs arbitrary: s)
  case (Cons x xs)
  then show ?case
    using safety_check_button_simps [of s x] button_count_simps [of s x] by (simp add: button_run_def)
qed (simp add: button_run_def)

lemma button_run_pressed:
  assumes "io_wf s" and "\<not> bit (r_status_flags s) 12" and "bit (r_setup_arming s) 0"
    and "unat (button_counter s) + n = 10" and "0 < n"
  shows "bit (r_status_flags (button_run (replicate n True) s)) 12"
  using assms
proof (induction n arbitrary: s)
  case (Suc n)
  let ?s = "safety_check_button True s"
  have lt: "button_counter s < 10"
    using Suc.prems(4) by (simp add: word_less_nat_alt)
  note on = button_count_on [OF Suc.prems(1,2) lt, of True]
  note simps = safety_check_button_simps [OF Suc.prems(1), of True]
  show ?case
  proof (cases "n = 0")
    case True
    with Suc.prems(4) have "button_counter s = 9"
      by (simp add: word_unat_eq_iff)
    with True on simps Suc.prems(3) show ?thesis
      by (simp add: button_run_def)
  next
    case False
    then have ne: "button_counter s \<noteq> 9" and inc: "unat (button_counter s + 1) = Suc (unat (button_counter s))"
      using Suc.prems(4) by (auto simp: unat_word_ariths)
    then have "bit (r_status_flags (button_run (replicate n True) ?s)) 12"
      using Suc.IH [of ?s] Suc.prems False simps on by simp
    then show ?thesis
      by (simp add: button_run_def)
  qed
qed simp

lemma button_run_state:
  assumes "io_wf s" and "button_counter s < 10 \<or> bit (r_status_flags s) 12"
  shows "io_wf (button_run xs s) \<and> r_setup_arming (button_run xs s) = r_setup_arming s \<and>
    (button_counter (button_run xs s) < 10 \<or> bit (r_status_flags (button_run xs s)) 12)"
  using assms
proof (induction xs arbitrary: s)
  case (Cons x xs)
  note simps = safety_check_button_simps [OF Cons.prems(1), of x]
  have "button_counter (safety_check_button x s) < 10 \<or> bit (r_status_flags (safety_check_button x s)) 12"
  proof (cases "bit (r_status_flags s) 12")
    case True
    with button_count_simps [OF Cons.prems(1)] simps show ?thesis by simp
  next
    case False
    with Cons.prems(2) have lt: "button_counter s < 10" by simp
    then have "button_counter s = 9 \<or> button_counter s + 1 < 10"
      by unat_arith
    with button_count_on [OF Cons.prems(1) False lt, of x] simps show ?thesis
      by auto
  qed
  with Cons.IH [of "safety_check_button x s"] simps show ?case
    by (simp add: button_run_def)
qed (simp add: button_run_def)

lemma button_run_append: "button_run (xs @ ys) s = button_run ys (button_run xs s)"
  by (simp add: button_run_def)

lemma button_run_window:
  assumes "io_wf s" and "button_counter s < 10" and "bit (r_setup_arming s) 0"
  shows "bit (r_status_flags (button_run (ys @ replicate 10 True @ zs) s)) 12"
proof -
  define t where "t = button_run ys s"
  have t: "io_wf t" "bit (r_setup_arming t) 0" "button_counter t < 10 \<or> bit (r_status_flags t) 12"
    using button_run_state [of s ys] assms by (simp_all add: t_def)
  have "bit (r_status_flags (button_run (replicate 10 True) t)) 12"
  proof (cases "bit (r_status_flags t) 12")
    case True
    with t(1) show ?thesis by (rule button_run_keeps_off)
  next
    case False
    let ?n = "10 - unat (button_counter t)"
    have c: "unat (button_counter t) < 10"
      using False t(3) by (simp add: word_less_nat_alt)
    then have "replicate 10 True = replicate ?n True @ replicate (unat (button_counter t)) True"
      by (simp flip: replicate_add)
    moreover have "bit (r_status_flags (button_run (replicate ?n True) t)) 12"
      using t False c by (intro button_run_pressed) auto
    ultimately show ?thesis
      using button_run_keeps_off button_run_state [OF t(1,3)] by (metis button_run_append)
  qed
  then show ?thesis
    using button_run_keeps_off button_run_state [OF t(1,3)] by (metis button_run_append t_def)
qed

section \<open>Results\<close>

text \<open>
  C9. The button takes effect only after a full second: if safety is on and no press has been
  counted, a sequence of samples leaves safety off exactly when arming the IO board is allowed and
  ten consecutive samples saw the button pressed; and once safety is off the button never turns it
  on again.
\<close>

theorem safety_button_needs_ten_samples:
  assumes "io_wf s" and "\<not> tst (r_status_flags s) PX4IO_P_STATUS_FLAGS_SAFETY_OFF"
    and "button_counter s = 0"
  shows "tst (r_status_flags (button_run xs s)) PX4IO_P_STATUS_FLAGS_SAFETY_OFF \<longleftrightarrow>
           tst (r_setup_arming s) PX4IO_P_SETUP_ARMING_IO_ARM_OK \<and>
           (\<exists>ys zs. xs = ys @ replicate 10 True @ zs)"
proof
  assume "tst (r_status_flags (button_run xs s)) PX4IO_P_STATUS_FLAGS_SAFETY_OFF"
  with button_run_off_window [of s 0 xs] assms
  show "tst (r_setup_arming s) PX4IO_P_SETUP_ARMING_IO_ARM_OK \<and> (\<exists>ys zs. xs = ys @ replicate 10 True @ zs)"
    by simp
next
  assume "tst (r_setup_arming s) PX4IO_P_SETUP_ARMING_IO_ARM_OK \<and> (\<exists>ys zs. xs = ys @ replicate 10 True @ zs)"
  with assms show "tst (r_status_flags (button_run xs s)) PX4IO_P_STATUS_FLAGS_SAFETY_OFF"
    by (auto intro: button_run_window)
qed

theorem safety_button_needs_ten_samples_witness:
  "tst (r_status_flags (button_run (replicate 10 True) (setup_or 1 PX4IO_P_SETUP_ARMING_IO_ARM_OK io_init)))
       PX4IO_P_STATUS_FLAGS_SAFETY_OFF \<and>
   \<not> tst (r_status_flags (button_run (replicate 10 True) io_init)) PX4IO_P_STATUS_FLAGS_SAFETY_OFF"
proof -
  have init: "\<not> tst (r_status_flags io_init) PX4IO_P_STATUS_FLAGS_SAFETY_OFF" "button_counter io_init = 0"
    "\<not> tst (r_setup_arming io_init) PX4IO_P_SETUP_ARMING_IO_ARM_OK"
    by (simp_all add: io_alias_defs io_init_def)
  let ?s = "setup_or 1 PX4IO_P_SETUP_ARMING_IO_ARM_OK io_init"
  have "io_wf ?s" "\<not> tst (r_status_flags ?s) PX4IO_P_STATUS_FLAGS_SAFETY_OFF" "button_counter ?s = 0"
    "tst (r_setup_arming ?s) PX4IO_P_SETUP_ARMING_IO_ARM_OK"
    using init io_wf_init by simp_all
  then show ?thesis
    using safety_button_needs_ten_samples [of ?s "replicate 10 True"]
      safety_button_needs_ten_samples [OF io_wf_init init(1,2), of "replicate 10 True"] init(3)
    by (metis append.left_neutral append.right_neutral)
qed

end
