(* ===== verification/IO_Serial.thy ===== *)
theory IO_Serial
  imports IO_Registers
begin

text \<open>
  The serial link to the FMU (\<^verbatim>\<open>serial.c\<close>): the packet handler, the DMA callback that answers a
  packet and the UART interrupt that detects its end. An access outside the packet buffer makes
  the model's result \<open>None\<close>.
\<close>

datatype uart_cmd = SendBreak | DmaReset | SendReply IOPacket nat

record serial =
  abort_on_idle :: bool
  dma_packet :: IOPacket
  uart :: "uart_cmd list"

record usart_sr =
  USART_SR_ORE :: bool
  USART_SR_NE :: bool
  USART_SR_FE :: bool
  USART_SR_IDLE :: bool

definition serial_init :: serial where
  "serial_init = \<lparr>abort_on_idle = False,
     dma_packet = \<lparr>count_code = 0, crc = 0, page = 0, offset = 0, regs = replicate PKT_MAX_REGS 0\<rparr>,
     uart = [DmaReset]\<rparr>"

definition uart_do :: "uart_cmd \<Rightarrow> serial \<Rightarrow> serial" where
  "uart_do c ser = ser\<lparr>uart := uart ser @ [c]\<rparr>"

definition rx_handle_packet :: "io_hw \<Rightarrow> u64 \<Rightarrow> IOPacket \<Rightarrow> io \<Rightarrow> (IOPacket \<times> io) option" where
  "rx_handle_packet h now p0 s =
     (let p = p0\<lparr>crc := 0\<rparr> in
      case crc_packet p of
        None \<Rightarrow> None
      | Some c \<Rightarrow> Some (
          if crc p0 \<noteq> c then (p\<lparr>count_code := PKT_CODE_CORRUPT, page := 0xff, offset := 0xff\<rparr>, s)
          else if PKT_CODE p = PKT_CODE_WRITE then
            (case registers_set h now (page p) (offset p) (take (PKT_COUNT p) (regs p)) s of
               (r, s') \<Rightarrow> (p\<lparr>count_code := (if r \<noteq> 0 then PKT_CODE_ERROR else PKT_CODE_SUCCESS)\<rparr>, s'))
          else if PKT_CODE p = PKT_CODE_READ then
            (case registers_get h (page p) (offset p) s of
               (None, s') \<Rightarrow> (p\<lparr>count_code := PKT_CODE_ERROR\<rparr>, s')
             | (Some registers, s') \<Rightarrow>
                 (let count0 = (if length registers > PKT_MAX_REGS then PKT_MAX_REGS else length registers);
                      count = (if count0 > PKT_COUNT p then PKT_COUNT p else count0)
                  in (p\<lparr>regs := take count registers @ drop count (regs p),
                        count_code := of_nat count OR PKT_CODE_SUCCESS\<rparr>, s')))
          else (p\<lparr>count_code := PKT_CODE_CORRUPT, page := 0xff, offset := 0xfe\<rparr>, s)))"

definition rx_dma_callback :: "io_hw \<Rightarrow> u64 \<Rightarrow> serial \<times> io \<Rightarrow> (serial \<times> io) option" where
  "rx_dma_callback h now = (\<lambda>(ser, s).
     case rx_handle_packet h now (dma_packet ser) s of
       None \<Rightarrow> None
     | Some (p, s') \<Rightarrow>
         (case crc_packet (p\<lparr>crc := 0\<rparr>) of
            None \<Rightarrow> None
          | Some c \<Rightarrow>
              let reply = p\<lparr>crc := c\<rparr>
              in Some (uart_do (SendReply reply (PKT_SIZE reply))
                        (uart_do DmaReset (ser\<lparr>dma_packet := reply\<rparr>)), s')))"

definition serial_interrupt ::
    "io_hw \<Rightarrow> u64 \<Rightarrow> usart_sr \<Rightarrow> nat \<Rightarrow> serial \<times> io \<Rightarrow> (serial \<times> io) option" where
  "serial_interrupt h now sr residual = (\<lambda>(ser0, s).
     let ser = (if USART_SR_ORE sr \<or> USART_SR_NE sr \<or> USART_SR_FE sr
                then (uart_do SendBreak ser0)\<lparr>abort_on_idle := True\<rparr> else ser0)
     in if USART_SR_IDLE sr then
          if abort_on_idle ser then Some (uart_do DmaReset (ser\<lparr>abort_on_idle := False\<rparr>), s)
          else let len = sizeof_IOPacket - residual
               in if len < 1 \<or> len < PKT_SIZE (dma_packet ser)
                  then Some (uart_do DmaReset ser, s)
                  else rx_dma_callback h now (ser, s)
        else Some (ser, s))"

section \<open>Lemmas\<close>

lemma PKT_COUNT_less: "PKT_COUNT p < 64"
proof -
  have "count_code p AND 63 \<le> 63"
    by (rule word_and_le1)
  then show ?thesis
    by (simp add: PKT_COUNT_def word_le_nat_alt)
qed

lemma PKT_CODE_of_nat: "n < 64 \<Longrightarrow> (of_nat n :: u8) AND PKT_CODE_MASK = 0"
proof -
  assume "n < 64"
  then have "take_bit 6 (of_nat n :: u8) = of_nat n"
    by (simp add: take_bit_of_nat take_bit_nat_eq_self)
  then have "(of_nat n :: u8) AND 0xc0 = (of_nat n AND mask 6) AND 0xc0"
    by (simp add: take_bit_eq_mask)
  also have "\<dots> = 0"
    by (simp add: and.assoc mask_numeral)
  finally show ?thesis
    by simp
qed

lemma PKT_COUNT_of_nat:
  assumes "n < 64" and "count_code p = of_nat n"
  shows "PKT_COUNT p = n"
proof -
  have "(63 :: u8) = mask 6"
    by (simp add: mask_numeral)
  then have "PKT_COUNT p = unat (take_bit 6 (of_nat n :: u8))"
    by (simp add: PKT_COUNT_def assms(2) take_bit_eq_mask)
  then show ?thesis
    using assms(1) by (simp add: unsigned_take_bit_eq unat_of_nat take_bit_nat_eq_self)
qed

lemma crc_packet_Some: "length (regs p) = 32 \<Longrightarrow> PKT_COUNT p \<le> 32 \<Longrightarrow> \<exists>c. crc_packet p = Some c"
  by (simp add: crc_packet_def)


text \<open>A packet buffer as the firmware has it, and the result of handling it.\<close>

definition packet_wf :: "IOPacket \<Rightarrow> bool" where
  "packet_wf p \<longleftrightarrow> length (regs p) = PKT_MAX_REGS"

lemma PKT_COUNT_upd [simp]:
  "PKT_COUNT (p\<lparr>crc := c\<rparr>) = PKT_COUNT p"
  "PKT_COUNT (p\<lparr>page := c\<rparr>) = PKT_COUNT p"
  "PKT_COUNT (p\<lparr>offset := c\<rparr>) = PKT_COUNT p"
  "PKT_COUNT (p\<lparr>count_code := 0\<rparr>) = 0"
  "PKT_COUNT (p\<lparr>count_code := 64\<rparr>) = 0"
  "PKT_COUNT (p\<lparr>count_code := 128\<rparr>) = 0"
  "n < 64 \<Longrightarrow> PKT_COUNT (p\<lparr>regs := rs, count_code := of_nat n\<rparr>) = n"
  by (simp_all add: PKT_COUNT_def) (use PKT_COUNT_of_nat [of n "p\<lparr>count_code := of_nat n\<rparr>"] in
      \<open>simp add: PKT_COUNT_def\<close>)

lemma PKT_COUNT_32 [simp]: "PKT_COUNT (p\<lparr>count_code := 32\<rparr>) = 32"
  by (simp add: PKT_COUNT_def)

lemma rx_handle_packet_None:
  assumes "packet_wf p"
  shows "rx_handle_packet h now p s = None \<longleftrightarrow> PKT_COUNT p > PKT_MAX_REGS"
  using assms by (auto simp: rx_handle_packet_def crc_packet_def packet_wf_def Let_def)

lemma rx_handle_packet_reply:
  assumes "packet_wf p" and "rx_handle_packet h now p s = Some (q, s')"
  shows "packet_wf q \<and> PKT_COUNT q \<le> PKT_MAX_REGS"
proof -
  let ?k = "\<lambda>l. min (min l 32) (PKT_COUNT p)"
  have "(if (if 32 < l then 32 else l) > PKT_COUNT p then PKT_COUNT p else (if 32 < l then 32 else l)) = ?k l"
    for l :: nat by simp
  with assms show ?thesis
    by (auto simp: rx_handle_packet_def packet_wf_def Let_def split: option.splits if_splits prod.splits)
qed

lemma rx_dma_callback_None:
  assumes "packet_wf (dma_packet ser)"
  shows "rx_dma_callback h now (ser, s) = None \<longleftrightarrow> PKT_COUNT (dma_packet ser) > PKT_MAX_REGS"
proof (cases "rx_handle_packet h now (dma_packet ser) s")
  case None
  with rx_handle_packet_None [OF assms] show ?thesis
    by (simp add: rx_dma_callback_def)
next
  case (Some qs)
  obtain q s' where qs: "qs = (q, s')"
    by fastforce
  with rx_handle_packet_reply [OF assms] Some have "packet_wf q" "PKT_COUNT q \<le> PKT_MAX_REGS"
    by blast+
  then obtain c where "crc_packet (q\<lparr>crc := 0\<rparr>) = Some c"
    using crc_packet_Some [of "q\<lparr>crc := 0\<rparr>"] by (auto simp: packet_wf_def)
  with Some qs rx_handle_packet_None [OF assms, of h now s] show ?thesis
    by (simp add: rx_dma_callback_def Let_def)
qed

lemma rx_dma_callback_Some:
  assumes "packet_wf (dma_packet ser)" and "rx_dma_callback h now (ser, s) = Some (ser', s')"
  obtains q c where "rx_handle_packet h now (dma_packet ser) s = Some (q, s')"
    and "crc_packet (q\<lparr>crc := 0\<rparr>) = Some c" and "dma_packet ser' = q\<lparr>crc := c\<rparr>"
    and "uart ser' = uart ser @ [DmaReset, SendReply (q\<lparr>crc := c\<rparr>) (PKT_SIZE q)]"
    and "packet_wf q" and "PKT_COUNT q \<le> PKT_MAX_REGS"
  using assms rx_handle_packet_reply [OF assms(1)]
  by (auto simp: rx_dma_callback_def uart_do_def Let_def PKT_SIZE_def split: option.splits prod.splits)

section \<open>Results\<close>

text \<open>
  End of packet detected by an idle line: whatever bytes were received and whatever length the
  header claims, the handler never reads or writes outside the packet buffer. (The DMA transfers at
  most the size of the buffer.)
\<close>

lemma idle_packet_in_bounds:
  assumes "packet_wf (dma_packet ser)" and "residual \<le> sizeof_IOPacket"
  shows "\<exists>ser' s'. serial_interrupt h now sr residual (ser, s) = Some (ser', s') \<and>
           packet_wf (dma_packet ser')"
proof -
  define t where "t = (if USART_SR_ORE sr \<or> USART_SR_NE sr \<or> USART_SR_FE sr
      then (uart_do SendBreak ser)\<lparr>abort_on_idle := True\<rparr> else ser)"
  have wf: "packet_wf (dma_packet t)"
    using assms(1) by (simp add: t_def uart_do_def)
  have si: "serial_interrupt h now sr residual (ser, s) =
     (if USART_SR_IDLE sr then
        if abort_on_idle t then Some (uart_do DmaReset (t\<lparr>abort_on_idle := False\<rparr>), s)
        else if sizeof_IOPacket - residual < 1 \<or> sizeof_IOPacket - residual < PKT_SIZE (dma_packet t)
        then Some (uart_do DmaReset t, s)
        else rx_dma_callback h now (t, s)
      else Some (t, s))"
    unfolding t_def by (simp add: serial_interrupt_def Let_def)
  show ?thesis
  proof (cases "sizeof_IOPacket - residual < PKT_SIZE (dma_packet t)")
    case False
    then have "PKT_COUNT (dma_packet t) \<le> PKT_MAX_REGS"
      by (simp add: PKT_SIZE_def sizeof_IOPacket_def)
    with rx_dma_callback_None [OF wf, of h now s] obtain ser' s'
      where cb: "rx_dma_callback h now (t, s) = Some (ser', s')"
      by (cases "rx_dma_callback h now (t, s)") auto
    moreover have "packet_wf (dma_packet ser')"
      by (rule rx_dma_callback_Some [OF wf cb]) (simp add: packet_wf_def)
    ultimately show ?thesis
      using wf by (simp add: si uart_do_def)
  qed (use wf in \<open>simp add: si uart_do_def\<close>)
qed

text \<open>
  The same callback is also the completion callback of the receive DMA, entered when the buffer
  is full; on that path it is the header's count alone that decides: a count above 32 makes the
  checksum loop run past the end of the buffer.
\<close>

lemma full_packet_overrun:
  assumes "packet_wf (dma_packet ser)"
  shows "rx_dma_callback h now (ser, s) = None \<longleftrightarrow> PKT_COUNT (dma_packet ser) > PKT_MAX_REGS"
  using assms by (rule rx_dma_callback_None)

text \<open>
  C10. A packet whose checksum is wrong, or whose code is neither read nor write, changes nothing in
  the register file and is answered with the CORRUPT code and page 0xff.
\<close>

theorem corrupt_packet_ignored:
  assumes "packet_wf p" and "PKT_COUNT p \<le> PKT_MAX_REGS"
    and "crc_packet (p\<lparr>crc := 0\<rparr>) \<noteq> Some (crc p) \<or>
         PKT_CODE p \<noteq> PKT_CODE_WRITE \<and> PKT_CODE p \<noteq> PKT_CODE_READ"
  shows "\<exists>q. rx_handle_packet h now p s = Some (q, s) \<and> count_code q = PKT_CODE_CORRUPT \<and> page q = 0xff"
proof -
  obtain c where "crc_packet (p\<lparr>crc := 0\<rparr>) = Some c"
    using assms(1,2) crc_packet_Some [of "p\<lparr>crc := 0\<rparr>"] by (auto simp: packet_wf_def)
  moreover have "PKT_CODE (p\<lparr>crc := 0\<rparr>) = PKT_CODE p"
    by (simp add: PKT_CODE_def)
  ultimately show ?thesis
    using assms(3) by (auto simp: rx_handle_packet_def Let_def)
qed

theorem corrupt_packet_ignored_witness:
  "\<exists>q. rx_handle_packet demo_hw 5 \<lparr>count_code = 0xC0, crc = 0, page = 50, offset = 1,
         regs = replicate 32 0\<rparr> io_init = Some (q, io_init) \<and>
       count_code q = PKT_CODE_CORRUPT \<and> page q = 0xff"
  by (rule corrupt_packet_ignored) (simp_all add: packet_wf_def PKT_COUNT_def PKT_CODE_def)

text \<open>
  Every request that is answered is answered with a packet the FMU can check: at most 32
  registers, and the stored checksum is the checksum of the reply.
\<close>

lemma reply_has_valid_crc:
  assumes "packet_wf (dma_packet ser)" and "rx_dma_callback h now (ser, s) = Some (ser', s')"
  shows "\<exists>reply. uart ser' = uart ser @ [DmaReset, SendReply reply (PKT_SIZE reply)] \<and>
           PKT_COUNT reply \<le> PKT_MAX_REGS \<and> crc_packet (reply\<lparr>crc := 0\<rparr>) = Some (crc reply)"
proof (rule rx_dma_callback_Some [OF assms])
  fix q c
  assume *: "crc_packet (q\<lparr>crc := 0\<rparr>) = Some c" "PKT_COUNT q \<le> PKT_MAX_REGS"
    "uart ser' = uart ser @ [DmaReset, SendReply (q\<lparr>crc := c\<rparr>) (PKT_SIZE q)]"
  have "PKT_SIZE (q\<lparr>crc := c\<rparr>) = PKT_SIZE q"
    by (simp add: PKT_SIZE_def)
  with * show ?thesis
    by (intro exI [of _ "q\<lparr>crc := c\<rparr>"]) simp
qed

text \<open>
  A read request with a correct checksum for an existing register returns the registers of the
  page from the offset on: as many as were asked for, as the page has left and as fit a packet.
\<close>

lemma read_reply_contents:
  assumes "packet_wf p" and "crc_packet (p\<lparr>crc := 0\<rparr>) = Some (crc p)" and "PKT_CODE p = PKT_CODE_READ"
    and "registers_get h (page p) (offset p) s = (Some values, s')"
  shows "\<exists>q. rx_handle_packet h now p s = Some (q, s') \<and>
           PKT_COUNT q = min (PKT_COUNT p) (min (length values) PKT_MAX_REGS) \<and>
           take (PKT_COUNT q) (regs q) = take (PKT_COUNT q) values"
proof -
  let ?n = "min (PKT_COUNT p) (min (length values) 32)"
  let ?q = "p\<lparr>crc := 0, regs := take ?n values @ drop ?n (regs p), count_code := of_nat ?n\<rparr>"
  have n: "(if (if 32 < length values then 32 else length values) > PKT_COUNT p then PKT_COUNT p
            else (if 32 < length values then 32 else length values)) = ?n"
    by auto
  have code: "PKT_CODE (p\<lparr>crc := 0\<rparr>) = 0"
    using assms(3) by (simp add: PKT_CODE_def)
  have "rx_handle_packet h now p s = Some (?q, s')"
    using assms(2,4) code by (simp add: rx_handle_packet_def Let_def n del: min_def)
  moreover have "PKT_COUNT ?q = ?n"
    using PKT_COUNT_less [of p] by (simp add: PKT_COUNT_upd(7))
  ultimately show ?thesis
    by (intro exI [of _ ?q]) simp
qed

end
