(* ===== verification/IO_Mixer.thy ===== *)
theory IO_Mixer
  imports IO_Registers
begin

text \<open>
  The output side of the PX4IO firmware (\<^verbatim>\<open>mixer.cpp\<close>): loss of the FMU, the choice of the
  control source, arming of the outputs, failsafe and lockdown. The mixer library that turns
  controls into actuator values is a parameter: parsing of the mixer text, mixing (given the
  control callback), its saturation flags, and the result of converting a NaN to an integer.
\<close>

definition FMU_INPUT_DROP_LIMIT_US :: u64 where [simp]: "FMU_INPUT_DROP_LIMIT_US = 500000"
definition GROUP_INDEX_ATTITUDE :: nat where [simp]: "GROUP_INDEX_ATTITUDE = 0"
definition GROUP_INDEX_ATTITUDE_ALTERNATE :: nat where [simp]: "GROUP_INDEX_ATTITUDE_ALTERNATE = 1"
definition INDEX_ROLL :: nat where [simp]: "INDEX_ROLL = 0"
definition INDEX_PITCH :: nat where [simp]: "INDEX_PITCH = 1"
definition INDEX_YAW :: nat where [simp]: "INDEX_YAW = 2"
definition INDEX_THROTTLE :: nat where [simp]: "INDEX_THROTTLE = 3"

record mixer_lib =
  load_from_buf :: "u8 list \<Rightarrow> nat"
  mix :: "(nat \<Rightarrow> nat \<Rightarrow> flt option) \<Rightarrow> flt list"
  saturation :: u16
  nan_reg :: u16

section \<open>Conversions\<close>

definition REG_TO_FLOAT :: "u16 \<Rightarrow> rat" where
  "REG_TO_FLOAT reg = f32_div (of_int (sint reg)) 10000"

definition FLOAT_TO_REG :: "u16 \<Rightarrow> flt \<Rightarrow> u16" where
  "FLOAT_TO_REG nan f =
     (case f of NaN \<Rightarrow> nan | Fin x \<Rightarrow> of_int \<lfloor>f32_mult (f32_add x (f32 (5 / 100000))) 10000\<rfloor>)"

definition servo_to_reg :: "u16 \<Rightarrow> u16" where
  "servo_to_reg v = FLOAT_TO_REG 0 (Fin (f32_div (of_int (uint v - 1500)) 600))"

definition failsafe_pulse :: "u16 \<Rightarrow> flt \<Rightarrow> u16" where
  "failsafe_pulse nan f =
     (case f of NaN \<Rightarrow> nan | Fin x \<Rightarrow> of_int (f32_trunc (f32_add (f32_mult x 600) 1500)))"

section \<open>Control callback\<close>

definition rc_control :: "io \<Rightarrow> nat \<Rightarrow> nat \<Rightarrow> flt option" where
  "rc_control s grp index =
     (if bit (r_rc_valid s) (grp * PX4IO_CONTROL_CHANNELS + index)
      then Some (Fin (REG_TO_FLOAT (r_page_rc_input s ! (PX4IO_P_RC_BASE + index)))) else None)"

definition fmu_control :: "io \<Rightarrow> nat \<Rightarrow> nat \<Rightarrow> u16" where
  "fmu_control s grp index = r_page_controls s ! (grp * PX4IO_CONTROL_CHANNELS + index)"

definition raw_control :: "io \<Rightarrow> nat \<Rightarrow> nat \<Rightarrow> flt option" where
  "raw_control s grp index =
     (case source s of
        MIX_FMU \<Rightarrow>
          if index < PX4IO_CONTROL_CHANNELS \<and> grp < PX4IO_CONTROL_GROUPS
          then if fmu_control s grp index = 0x7FFF then Some NaN
               else Some (Fin (REG_TO_FLOAT (fmu_control s grp index)))
          else None
      | MIX_OVERRIDE \<Rightarrow> rc_control s grp index
      | MIX_OVERRIDE_FMU_OK \<Rightarrow>
          (case rc_control s grp index of
             Some c \<Rightarrow> Some c
           | None \<Rightarrow> if index < PX4IO_CONTROL_CHANNELS \<and> grp < PX4IO_CONTROL_GROUPS
                     then Some (Fin (REG_TO_FLOAT (fmu_control s grp index))) else None)
      | _ \<Rightarrow> None)"

definition trim_control :: "io \<Rightarrow> nat \<Rightarrow> rat \<Rightarrow> rat" where
  "trim_control s index c =
     (let scaled = (\<lambda>sc tr. f32_add (f32_mult c (REG_TO_FLOAT (r_page_setup s ! sc)))
                              (REG_TO_FLOAT (r_page_setup s ! tr)))
      in if index = INDEX_ROLL then scaled PX4IO_P_SETUP_SCALE_ROLL PX4IO_P_SETUP_TRIM_ROLL
         else if index = INDEX_PITCH then scaled PX4IO_P_SETUP_SCALE_PITCH PX4IO_P_SETUP_TRIM_PITCH
         else if index = INDEX_YAW then scaled PX4IO_P_SETUP_SCALE_YAW PX4IO_P_SETUP_TRIM_YAW
         else c)"

definition map_flt :: "(rat \<Rightarrow> rat) \<Rightarrow> flt \<Rightarrow> flt" where
  "map_flt f x = (case x of NaN \<Rightarrow> NaN | Fin c \<Rightarrow> Fin (f c))"

definition constrain :: "rat \<Rightarrow> rat" where
  "constrain c = (if c < - 1 then - 1 else if c > 1 then 1 else c)"

definition is_throttle :: "nat \<Rightarrow> nat \<Rightarrow> bool" where
  "is_throttle grp index \<longleftrightarrow>
     (grp = GROUP_INDEX_ATTITUDE \<or> grp = GROUP_INDEX_ATTITUDE_ALTERNATE) \<and> index = INDEX_THROTTLE"

definition mixer_callback :: "io \<Rightarrow> nat \<Rightarrow> nat \<Rightarrow> flt option" where
  "mixer_callback s grp index =
     (if grp \<ge> PX4IO_CONTROL_GROUPS then None
      else case raw_control s grp index of
        None \<Rightarrow> None
      | Some c0 \<Rightarrow>
          let c1 = (if (source s = MIX_OVERRIDE \<or> source s = MIX_OVERRIDE_FMU_OK) \<and>
                       grp = GROUP_INDEX_ATTITUDE
                    then map_flt (trim_control s index) c0 else c0);
              c2 = map_flt constrain c1;
              c3 = (if (state (pwm_limit s) = OUTPUT_LIMIT_STATE_RAMP \<or>
                        should_arm_nothrottle s \<and> \<not> should_arm s) \<and> is_throttle grp index
                    then Fin 0 else c2)
          in Some (if should_arm_nothrottle s \<and> \<not> should_arm s \<and> is_throttle grp index
                   then NaN else c3))"

section \<open>Mixer text and failsafe mixing\<close>

definition mixer_handle_text_create_mixer :: "mixer_lib \<Rightarrow> io \<Rightarrow> io" where
  "mixer_handle_text_create_mixer lib s =
     (if tst (r_status_flags s) PX4IO_P_STATUS_FLAGS_SAFETY_OFF \<and>
         tst (r_setup_arming s) PX4IO_P_SETUP_ARMING_FMU_ARMED
      then s
      else
        let s1 = (if mixer_reset_pending s then s\<lparr>mixer_reset_pending := False\<rparr> else s)
        in if \<not> mixer_update_pending s1 \<or> mixer_text s1 = [] then s1
           else
             let resid = load_from_buf lib (mixer_text s1);
                 len = length (mixer_text s1);
                 s2 = (if resid \<noteq> len
                       then (isr_debug 2 s1)\<lparr>mixer_text := drop (len - resid) (mixer_text s1)\<rparr> else s1)
             in s2\<lparr>mixer_update_pending := False, update_trims := True,
                   update_mc_thrust_param := True\<rparr>)"

definition mixer_mix_failsafe :: "mixer_lib \<Rightarrow> io \<Rightarrow> io" where
  "mixer_mix_failsafe lib s =
     (if tst (r_setup_arming s) PX4IO_P_SETUP_ARMING_FAILSAFE_CUSTOM \<or>
         \<not> tst (r_status_flags s) PX4IO_P_STATUS_FLAGS_MIXER_OK
      then s
      else
        let s1 = s\<lparr>update_mc_thrust_param := False\<rparr>;
            outputs = take PX4IO_SERVO_COUNT (mix lib (mixer_callback s1));
            mixed = length outputs
        in (set_status PX4IO_P_STATUS_MIXER (saturation lib) s1)
             \<lparr>r_page_servo_failsafe :=
                map (failsafe_pulse (nan_reg lib)) outputs @ replicate (PX4IO_SERVO_COUNT - mixed) 0\<rparr>)"

section \<open>The tick\<close>

definition fmu_check :: "u64 \<Rightarrow> io \<Rightarrow> io" where
  "fmu_check now s =
     (let t = fmu_data_received_time s in
      if t = 0 \<or> now - t > FMU_INPUT_DROP_LIMIT_US then
        let s1 = (if tst (r_status_flags s) PX4IO_P_STATUS_FLAGS_FMU_OK then isr_debug 1 s else s)
        in status_or PX4IO_P_STATUS_ALARMS PX4IO_P_STATUS_ALARMS_FMU_LOST
             (status_clear PX4IO_P_STATUS_FLAGS PX4IO_P_STATUS_FLAGS_FMU_OK s1)
      else
        let s1 = status_or PX4IO_P_STATUS_FLAGS PX4IO_P_STATUS_FLAGS_FMU_INITIALIZED
                   (status_or PX4IO_P_STATUS_FLAGS PX4IO_P_STATUS_FLAGS_FMU_OK s)
        in if t > last_fmu_update s1 then s1\<lparr>new_fmu_data := True, last_fmu_update := t\<rparr> else s1)"

definition select_source :: "io \<Rightarrow> io" where
  "select_source s =
     (let f = r_status_flags s in
      if tst f PX4IO_P_STATUS_FLAGS_RAW_PWM \<and> tst f PX4IO_P_STATUS_FLAGS_FMU_OK then
        if tst f PX4IO_P_STATUS_FLAGS_OVERRIDE then s\<lparr>source := MIX_OVERRIDE_FMU_OK\<rparr>
        else s\<lparr>source := MIX_NONE, r_page_servos := r_page_direct_pwm s\<rparr>
      else if \<not> tst f PX4IO_P_STATUS_FLAGS_OVERRIDE \<and> tst f PX4IO_P_STATUS_FLAGS_FMU_OK \<and>
              tst f PX4IO_P_STATUS_FLAGS_MIXER_OK
      then s\<lparr>source := MIX_FMU\<rparr>
      else if tst f PX4IO_P_STATUS_FLAGS_OVERRIDE then
        if tst f PX4IO_P_STATUS_FLAGS_FMU_OK then s\<lparr>source := MIX_OVERRIDE_FMU_OK\<rparr>
        else s\<lparr>source := MIX_OVERRIDE\<rparr>
      else s\<lparr>source := MIX_DISARMED\<rparr>)"

definition decide_arming :: "io \<Rightarrow> io" where
  "decide_arming s =
     (let f = r_status_flags s; a = r_setup_arming s;
          ok = tst f PX4IO_P_STATUS_FLAGS_INIT_OK \<and> tst f PX4IO_P_STATUS_FLAGS_SAFETY_OFF
      in s\<lparr>should_arm := ok \<and>
             (tst a PX4IO_P_SETUP_ARMING_FMU_ARMED \<and> tst f PX4IO_P_STATUS_FLAGS_MIXER_OK \<or>
              tst f PX4IO_P_STATUS_FLAGS_RAW_PWM),
           should_arm_nothrottle := ok \<and>
             (tst a PX4IO_P_SETUP_ARMING_FMU_PREARMED \<and> tst f PX4IO_P_STATUS_FLAGS_MIXER_OK \<or>
              tst f PX4IO_P_STATUS_FLAGS_RAW_PWM),
           should_always_enable_pwm :=
             tst a PX4IO_P_SETUP_ARMING_ALWAYS_PWM_ENABLE \<and>
             tst f PX4IO_P_STATUS_FLAGS_INIT_OK \<and> tst f PX4IO_P_STATUS_FLAGS_FMU_OK\<rparr>)"

definition failsafe_check :: "io \<Rightarrow> io" where
  "failsafe_check s =
     (let s1 = (if r_page_setup s ! PX4IO_P_SETUP_ENABLE_FLIGHTTERMINATION \<noteq> 0 \<and>
                   source s = MIX_DISARMED \<and> should_arm s \<and>
                   tst (r_status_flags s) PX4IO_P_STATUS_FLAGS_FMU_INITIALIZED
                then setup_or PX4IO_P_SETUP_ARMING PX4IO_P_SETUP_ARMING_FORCE_FAILSAFE s else s);
          s2 = (if tst (r_setup_arming s1) PX4IO_P_SETUP_ARMING_FORCE_FAILSAFE
                then s1\<lparr>source := MIX_FAILSAFE\<rparr> else s1)
      in if source s2 = MIX_FAILSAFE
         then status_or PX4IO_P_STATUS_FLAGS PX4IO_P_STATUS_FLAGS_FAILSAFE s2
         else status_clear PX4IO_P_STATUS_FLAGS PX4IO_P_STATUS_FLAGS_FAILSAFE s2)"

definition mix_outputs :: "mixer_lib \<Rightarrow> u64 \<Rightarrow> io \<Rightarrow> io" where
  "mix_outputs lib now s =
     (let s1 = s\<lparr>update_mc_thrust_param := False\<rparr>;
          outputs = take PX4IO_SERVO_COUNT (mix lib (mixer_callback s1));
          mixed = length outputs;
          s2 = set_status PX4IO_P_STATUS_MIXER (saturation lib) s1;
          lim = output_limit_calc now (should_arm s2) (should_arm_nothrottle s2) mixed
                  (r_page_setup s2 ! PX4IO_P_SETUP_PWM_REVERSE) (r_page_servo_disarmed s2)
                  (r_page_servo_control_min s2) (r_page_servo_control_max s2) outputs
                  (r_page_servos s2) (pwm_limit s2);
          s3 = s2\<lparr>r_page_servos := take mixed (fst lim) @ replicate (PX4IO_SERVO_COUNT - mixed) 0,
                  pwm_limit := snd lim,
                  r_page_actuators := map (FLOAT_TO_REG (nan_reg lib))
                    (outputs @ replicate (PX4IO_SERVO_COUNT - mixed) (Fin 0))\<rparr>
      in if mixed \<noteq> 0 \<and> new_fmu_data s3 then emit UpPwmUpdate (s3\<lparr>new_fmu_data := False\<rparr>) else s3)"

definition run_mixers :: "mixer_lib \<Rightarrow> u64 \<Rightarrow> io \<Rightarrow> io" where
  "run_mixers lib now s0 =
     (let s = (if update_trims s0 \<and> tst (r_status_flags s0) PX4IO_P_STATUS_FLAGS_MIXER_OK
               then s0\<lparr>update_trims := False\<rparr> else s0)
      in if source s = MIX_FAILSAFE then
           s\<lparr>r_page_servos := r_page_servo_failsafe s,
             r_page_actuators := map servo_to_reg (r_page_servo_failsafe s)\<rparr>
         else if source s = MIX_DISARMED then
           s\<lparr>r_page_servos := r_page_servo_disarmed s,
             r_page_actuators := map servo_to_reg (r_page_servo_disarmed s)\<rparr>
         else if source s \<noteq> MIX_NONE \<and> tst (r_status_flags s) PX4IO_P_STATUS_FLAGS_MIXER_OK \<and>
                 \<not> tst (r_setup_arming s) PX4IO_P_SETUP_ARMING_LOCKDOWN
         then mix_outputs lib now s
         else s)"

definition arm_outputs :: "io \<Rightarrow> io" where
  "arm_outputs s =
     (let needs_to_arm = should_arm s \<or> should_arm_nothrottle s \<or> should_always_enable_pwm s \<or>
                         tst (r_setup_arming s) PX4IO_P_SETUP_ARMING_LOCKDOWN
      in if needs_to_arm \<and> \<not> mixer_servos_armed s then
           isr_debug 5 (status_or PX4IO_P_STATUS_FLAGS PX4IO_P_STATUS_FLAGS_OUTPUTS_ARMED
             ((emit (UpPwmServoArm True) s)\<lparr>mixer_servos_armed := True\<rparr>))
         else if \<not> needs_to_arm \<and> mixer_servos_armed s then
           isr_debug 5 (status_clear PX4IO_P_STATUS_FLAGS PX4IO_P_STATUS_FLAGS_OUTPUTS_ARMED
             ((emit (UpPwmServoArm False) s)\<lparr>mixer_servos_armed := False\<rparr>))
         else s)"

definition emit_servos :: "u16 list \<Rightarrow> io \<Rightarrow> io" where
  "emit_servos vs s = s\<lparr>hw := hw s @ map (\<lambda>i. UpPwmServoSet i (vs ! i)) [0..<PX4IO_SERVO_COUNT]\<rparr>"

definition write_outputs :: "io \<Rightarrow> io" where
  "write_outputs s =
     (if mixer_servos_armed s \<and>
         (should_arm s \<or> should_arm_nothrottle s \<or> source s = MIX_FAILSAFE) \<and>
         \<not> tst (r_setup_arming s) PX4IO_P_SETUP_ARMING_LOCKDOWN
      then let s1 = emit_servos (r_page_servos s) s
           in if tst (r_setup_features s1) PX4IO_P_SETUP_FEATURES_SBUS2_OUT
              then emit (Sbus2Output (r_page_servos s1)) s1
              else if tst (r_setup_features s1) PX4IO_P_SETUP_FEATURES_SBUS1_OUT
              then emit (Sbus1Output (r_page_servos s1)) s1
              else s1
      else if mixer_servos_armed s \<and>
              (should_always_enable_pwm s \<or> tst (r_setup_arming s) PX4IO_P_SETUP_ARMING_LOCKDOWN)
      then let s1 = (emit_servos (r_page_servo_disarmed s) s)\<lparr>r_page_servos := r_page_servo_disarmed s\<rparr>;
               s2 = (if tst (r_setup_features s1) PX4IO_P_SETUP_FEATURES_SBUS1_OUT
                     then emit (Sbus1Output (r_page_servo_disarmed s1)) s1 else s1)
           in if tst (r_setup_features s2) PX4IO_P_SETUP_FEATURES_SBUS2_OUT
              then emit (Sbus2Output (r_page_servo_disarmed s2)) s2 else s2
      else s)"

definition mixer_prepare :: "mixer_lib \<Rightarrow> io \<Rightarrow> io" where
  "mixer_prepare lib s =
     (let s1 = mixer_handle_text_create_mixer lib s
      in if mix_failsafe s1 then (mixer_mix_failsafe lib s1)\<lparr>mix_failsafe := False\<rparr> else s1)"

definition mixer_decide :: "u64 \<Rightarrow> io \<Rightarrow> io" where
  "mixer_decide now s = failsafe_check (decide_arming (select_source (fmu_check now s)))"

definition mixer_tick :: "mixer_lib \<Rightarrow> u64 \<Rightarrow> io \<Rightarrow> io" where
  "mixer_tick lib now s =
     write_outputs (arm_outputs (run_mixers lib now (mixer_decide now (mixer_prepare lib s))))"

section \<open>What each phase of the tick keeps\<close>

lemma length_output_limit_calc:
  "n \<le> length eff \<Longrightarrow> length (fst (output_limit_calc now a p n rm dis mi ma out eff l)) = length eff"
  by (simp add: output_limit_calc_def Let_def)

text \<open>The sizes of the register pages survive every phase.\<close>

lemma io_wf_mixer_fields [simp]:
  "io_wf (s\<lparr>update_trims := b\<rparr>) = io_wf s"
  "io_wf (s\<lparr>mix_failsafe := b\<rparr>) = io_wf s"
  "io_wf (s\<lparr>source := src\<rparr>) = io_wf s"
  "io_wf (s\<lparr>should_arm := b\<rparr>) = io_wf s"
  "io_wf (s\<lparr>should_arm_nothrottle := b\<rparr>) = io_wf s"
  "io_wf (s\<lparr>should_always_enable_pwm := b\<rparr>) = io_wf s"
  "io_wf (s\<lparr>mixer_servos_armed := b\<rparr>) = io_wf s"
  "io_wf (s\<lparr>pwm_limit := lmt\<rparr>) = io_wf s"
  "io_wf (s\<lparr>new_fmu_data := b\<rparr>) = io_wf s"
  "io_wf (s\<lparr>last_fmu_update := t\<rparr>) = io_wf s"
  by (simp_all add: io_wf_def)

lemma alias_mixer_fields [simp]:
  "r_status_flags (s\<lparr>update_trims := b\<rparr>) = r_status_flags s"
  "r_status_flags (s\<lparr>mix_failsafe := b\<rparr>) = r_status_flags s"
  "r_status_flags (s\<lparr>source := src\<rparr>) = r_status_flags s"
  "r_status_flags (s\<lparr>should_arm := b\<rparr>) = r_status_flags s"
  "r_status_flags (s\<lparr>should_arm_nothrottle := b\<rparr>) = r_status_flags s"
  "r_status_flags (s\<lparr>should_always_enable_pwm := b\<rparr>) = r_status_flags s"
  "r_status_flags (s\<lparr>mixer_servos_armed := b\<rparr>) = r_status_flags s"
  "r_status_flags (s\<lparr>pwm_limit := lmt\<rparr>) = r_status_flags s"
  "r_status_flags (s\<lparr>new_fmu_data := b\<rparr>) = r_status_flags s"
  "r_status_flags (s\<lparr>last_fmu_update := t\<rparr>) = r_status_flags s"
  "r_status_flags (s\<lparr>r_page_servos := p\<rparr>) = r_status_flags s"
  "r_status_flags (s\<lparr>r_page_actuators := p\<rparr>) = r_status_flags s"
  "r_status_flags (s\<lparr>r_page_servo_failsafe := p\<rparr>) = r_status_flags s"
  "r_status_flags (s\<lparr>hw := cs\<rparr>) = r_status_flags s"
  "r_setup_arming (s\<lparr>update_trims := b\<rparr>) = r_setup_arming s"
  "r_setup_arming (s\<lparr>mix_failsafe := b\<rparr>) = r_setup_arming s"
  "r_setup_arming (s\<lparr>source := src\<rparr>) = r_setup_arming s"
  "r_setup_arming (s\<lparr>should_arm := b\<rparr>) = r_setup_arming s"
  "r_setup_arming (s\<lparr>should_arm_nothrottle := b\<rparr>) = r_setup_arming s"
  "r_setup_arming (s\<lparr>should_always_enable_pwm := b\<rparr>) = r_setup_arming s"
  "r_setup_arming (s\<lparr>mixer_servos_armed := b\<rparr>) = r_setup_arming s"
  "r_setup_arming (s\<lparr>pwm_limit := lmt\<rparr>) = r_setup_arming s"
  "r_setup_arming (s\<lparr>new_fmu_data := b\<rparr>) = r_setup_arming s"
  "r_setup_arming (s\<lparr>last_fmu_update := t\<rparr>) = r_setup_arming s"
  "r_setup_arming (s\<lparr>r_page_servos := p\<rparr>) = r_setup_arming s"
  "r_setup_arming (s\<lparr>r_page_actuators := p\<rparr>) = r_setup_arming s"
  "r_setup_arming (s\<lparr>r_page_servo_failsafe := p\<rparr>) = r_setup_arming s"
  "r_setup_arming (s\<lparr>hw := cs\<rparr>) = r_setup_arming s"
  by (simp_all add: io_alias_defs)


lemma io_wf_text [simp]: "io_wf s \<Longrightarrow> io_wf (mixer_handle_text_create_mixer lib s)"
  by (simp add: mixer_handle_text_create_mixer_def Let_def)

lemma io_wf_mix_failsafe [simp]: "io_wf s \<Longrightarrow> io_wf (mixer_mix_failsafe lib s)"
  by (simp add: mixer_mix_failsafe_def Let_def) (simp add: io_wf_def io_set_defs)

lemma io_wf_fmu_check [simp]: "io_wf s \<Longrightarrow> io_wf (fmu_check now s)"
  by (simp add: fmu_check_def Let_def)

lemma io_wf_select_source [simp]: "io_wf s \<Longrightarrow> io_wf (select_source s)"
  by (simp add: select_source_def Let_def) (simp add: io_wf_def)

lemma io_wf_decide_arming [simp]: "io_wf s \<Longrightarrow> io_wf (decide_arming s)"
  by (simp add: decide_arming_def Let_def)

lemma io_wf_failsafe_check [simp]: "io_wf s \<Longrightarrow> io_wf (failsafe_check s)"
  by (simp add: failsafe_check_def Let_def)

lemma io_wf_mix_outputs [simp]: "io_wf s \<Longrightarrow> io_wf (mix_outputs lib now s)"
  by (simp add: mix_outputs_def Let_def io_wf_def io_set_defs length_output_limit_calc)

lemma io_wf_run_mixers [simp]: "io_wf s \<Longrightarrow> io_wf (run_mixers lib now s)"
  by (simp add: run_mixers_def Let_def) (simp add: io_wf_def)

lemma io_wf_arm_outputs [simp]: "io_wf s \<Longrightarrow> io_wf (arm_outputs s)"
  by (simp add: arm_outputs_def Let_def)

lemma io_wf_write_outputs [simp]: "io_wf s \<Longrightarrow> io_wf (write_outputs s)"
  by (simp add: write_outputs_def emit_servos_def Let_def) (simp add: io_wf_def io_set_defs)

lemma io_wf_phases [simp]:
  "io_wf s \<Longrightarrow> io_wf (mixer_prepare lib s)"
  "io_wf s \<Longrightarrow> io_wf (mixer_decide now s)"
  "io_wf s \<Longrightarrow> io_wf (mixer_tick lib now s)"
  by (simp_all add: mixer_prepare_def mixer_decide_def mixer_tick_def Let_def)

text \<open>Loss of the FMU, as the tick decides it.\<close>

definition fmu_lost :: "u64 \<Rightarrow> io \<Rightarrow> bool" where
  "fmu_lost now s \<longleftrightarrow>
     fmu_data_received_time s = 0 \<or> now - fmu_data_received_time s > FMU_INPUT_DROP_LIMIT_US"

lemma prepare_frame [simp]:
  "io_wf s \<Longrightarrow> r_status_flags (mixer_prepare lib s) = r_status_flags s"
  "r_page_setup (mixer_prepare lib s) = r_page_setup s"
  "r_setup_arming (mixer_prepare lib s) = r_setup_arming s"
  "fmu_data_received_time (mixer_prepare lib s) = fmu_data_received_time s"
  "r_page_servo_disarmed (mixer_prepare lib s) = r_page_servo_disarmed s"
  "mixer_servos_armed (mixer_prepare lib s) = mixer_servos_armed s"
  "hw (mixer_prepare lib s) = hw s"
  by (simp_all add: mixer_prepare_def mixer_handle_text_create_mixer_def mixer_mix_failsafe_def
      io_alias_defs io_set_defs io_wf_def Let_def)

lemma fmu_check_frame [simp]:
  "r_page_setup (fmu_check now s) = r_page_setup s"
  "r_setup_arming (fmu_check now s) = r_setup_arming s"
  "r_page_servo_disarmed (fmu_check now s) = r_page_servo_disarmed s"
  "r_page_servo_failsafe (fmu_check now s) = r_page_servo_failsafe s"
  "mixer_servos_armed (fmu_check now s) = mixer_servos_armed s"
  "hw (fmu_check now s) = hw s"
  by (simp_all add: fmu_check_def Let_def) (simp_all add: io_set_defs)

lemma fmu_check_flags [simp]:
  "io_wf s \<Longrightarrow> r_status_flags (fmu_check now s) =
     (if fmu_lost now s then r_status_flags s AND NOT PX4IO_P_STATUS_FLAGS_FMU_OK
      else r_status_flags s OR PX4IO_P_STATUS_FLAGS_FMU_OK OR PX4IO_P_STATUS_FLAGS_FMU_INITIALIZED)"
  by (simp add: fmu_check_def fmu_lost_def Let_def or.assoc)

lemma select_source_frame [simp]:
  "r_page_setup (select_source s) = r_page_setup s"
  "r_page_status (select_source s) = r_page_status s"
  "r_setup_arming (select_source s) = r_setup_arming s"
  "r_status_flags (select_source s) = r_status_flags s"
  "r_page_servo_disarmed (select_source s) = r_page_servo_disarmed s"
  "r_page_servo_failsafe (select_source s) = r_page_servo_failsafe s"
  "mixer_servos_armed (select_source s) = mixer_servos_armed s"
  "hw (select_source s) = hw s"
  by (simp_all add: select_source_def Let_def)

lemma decide_arming_frame [simp]:
  "r_page_setup (decide_arming s) = r_page_setup s"
  "r_page_status (decide_arming s) = r_page_status s"
  "r_setup_arming (decide_arming s) = r_setup_arming s"
  "r_status_flags (decide_arming s) = r_status_flags s"
  "r_page_servo_disarmed (decide_arming s) = r_page_servo_disarmed s"
  "r_page_servo_failsafe (decide_arming s) = r_page_servo_failsafe s"
  "mixer_servos_armed (decide_arming s) = mixer_servos_armed s"
  "source (decide_arming s) = source s"
  "hw (decide_arming s) = hw s"
  by (simp_all add: decide_arming_def Let_def)

lemma failsafe_check_frame [simp]:
  "r_page_servo_disarmed (failsafe_check s) = r_page_servo_disarmed s"
  "r_page_servo_failsafe (failsafe_check s) = r_page_servo_failsafe s"
  "mixer_servos_armed (failsafe_check s) = mixer_servos_armed s"
  "should_arm (failsafe_check s) = should_arm s"
  "should_arm_nothrottle (failsafe_check s) = should_arm_nothrottle s"
  "should_always_enable_pwm (failsafe_check s) = should_always_enable_pwm s"
  "hw (failsafe_check s) = hw s"
  by (simp_all add: failsafe_check_def Let_def) (simp_all add: io_set_defs)

text \<open>Termination: when the FMU dies in flight and termination is enabled, failsafe is forced.\<close>

definition must_terminate :: "io \<Rightarrow> bool" where
  "must_terminate s \<longleftrightarrow> r_page_setup s ! PX4IO_P_SETUP_ENABLE_FLIGHTTERMINATION \<noteq> 0 \<and>
     source s = MIX_DISARMED \<and> should_arm s \<and>
     tst (r_status_flags s) PX4IO_P_STATUS_FLAGS_FMU_INITIALIZED"

lemma failsafe_check_arming:
  "io_wf s \<Longrightarrow> r_setup_arming (failsafe_check s) =
     (if must_terminate s then r_setup_arming s OR PX4IO_P_SETUP_ARMING_FORCE_FAILSAFE
      else r_setup_arming s)"
  by (simp add: failsafe_check_def must_terminate_def Let_def)

lemma failsafe_check_source:
  "io_wf s \<Longrightarrow> source (failsafe_check s) =
     (if must_terminate s \<or> tst (r_setup_arming s) PX4IO_P_SETUP_ARMING_FORCE_FAILSAFE
      then MIX_FAILSAFE else source s)"
  by (simp add: failsafe_check_def must_terminate_def Let_def) (simp add: io_set_defs)

lemma failsafe_check_flags:
  "io_wf s \<Longrightarrow> r_status_flags (failsafe_check s) =
     (if source (failsafe_check s) = MIX_FAILSAFE then r_status_flags s OR PX4IO_P_STATUS_FLAGS_FAILSAFE
      else r_status_flags s AND NOT PX4IO_P_STATUS_FLAGS_FAILSAFE)"
  by (simp add: failsafe_check_source) (simp add: failsafe_check_def must_terminate_def Let_def)

lemma run_mixers_frame [simp]:
  "io_wf s \<Longrightarrow> r_status_flags (run_mixers lib now s) = r_status_flags s"
  "r_page_setup (run_mixers lib now s) = r_page_setup s"
  "r_setup_arming (run_mixers lib now s) = r_setup_arming s"
  "r_page_servo_disarmed (run_mixers lib now s) = r_page_servo_disarmed s"
  "r_page_servo_failsafe (run_mixers lib now s) = r_page_servo_failsafe s"
  "mixer_servos_armed (run_mixers lib now s) = mixer_servos_armed s"
  "source (run_mixers lib now s) = source s"
  "should_arm (run_mixers lib now s) = should_arm s"
  "should_arm_nothrottle (run_mixers lib now s) = should_arm_nothrottle s"
  "should_always_enable_pwm (run_mixers lib now s) = should_always_enable_pwm s"
  by (simp_all add: run_mixers_def mix_outputs_def Let_def)
    (simp_all add: io_set_defs io_alias_defs io_wf_def)

lemma run_mixers_hw: "\<exists>us. set us \<subseteq> {UpPwmUpdate} \<and> hw (run_mixers lib now s) = hw s @ us"
  by (auto simp: run_mixers_def mix_outputs_def Let_def emit_def set_status_def)

lemma run_mixers_failsafe:
  "source s = MIX_FAILSAFE \<Longrightarrow> r_page_servos (run_mixers lib now s) = r_page_servo_failsafe s"
  by (simp add: run_mixers_def Let_def)

definition needs_to_arm :: "io \<Rightarrow> bool" where
  "needs_to_arm s \<longleftrightarrow> should_arm s \<or> should_arm_nothrottle s \<or> should_always_enable_pwm s \<or>
     tst (r_setup_arming s) PX4IO_P_SETUP_ARMING_LOCKDOWN"

lemma arm_outputs_armed [simp]: "mixer_servos_armed (arm_outputs s) = needs_to_arm s"
  by (simp add: arm_outputs_def needs_to_arm_def Let_def io_set_defs)

lemma arm_outputs_frame [simp]:
  "r_page_setup (arm_outputs s) = r_page_setup s"
  "r_setup_arming (arm_outputs s) = r_setup_arming s"
  "r_page_servos (arm_outputs s) = r_page_servos s"
  "r_page_servo_disarmed (arm_outputs s) = r_page_servo_disarmed s"
  "r_page_servo_failsafe (arm_outputs s) = r_page_servo_failsafe s"
  "source (arm_outputs s) = source s"
  "should_arm (arm_outputs s) = should_arm s"
  "should_arm_nothrottle (arm_outputs s) = should_arm_nothrottle s"
  "should_always_enable_pwm (arm_outputs s) = should_always_enable_pwm s"
  by (simp_all add: arm_outputs_def Let_def) (simp_all add: io_set_defs)

lemma arm_outputs_flags:
  "io_wf s \<Longrightarrow> n \<noteq> 0 \<Longrightarrow> bit (r_status_flags (arm_outputs s)) n = bit (r_status_flags s) n"
  by (auto simp: arm_outputs_def Let_def dest: bit_imp_le_length)

lemma arm_outputs_hw: "\<exists>b us. set us \<subseteq> {UpPwmServoArm b} \<and> hw (arm_outputs s) = hw s @ us"
  by (auto simp: arm_outputs_def Let_def io_set_defs)

lemma write_outputs_frame [simp]:
  "r_page_setup (write_outputs s) = r_page_setup s"
  "r_page_servo_failsafe (write_outputs s) = r_page_servo_failsafe s"
  "r_setup_arming (write_outputs s) = r_setup_arming s"
  "r_status_flags (write_outputs s) = r_status_flags s"
  "mixer_servos_armed (write_outputs s) = mixer_servos_armed s"
  "source (write_outputs s) = source s"
  by (simp_all add: write_outputs_def emit_servos_def Let_def) (simp_all add: emit_def r_status_flags_def)

lemma write_outputs_unarmed: "\<not> mixer_servos_armed s \<Longrightarrow> write_outputs s = s"
  by (simp add: write_outputs_def)

text \<open>The pulse widths that the commands of a tick give to the servo driver.\<close>

definition servo_sets :: "hw_cmd list \<Rightarrow> (nat \<times> u16) list" where
  "servo_sets cs = List.map_filter (\<lambda>c. case c of UpPwmServoSet i v \<Rightarrow> Some (i, v) | _ \<Rightarrow> None) cs"

lemma servo_sets_append [simp]: "servo_sets (a @ b) = servo_sets a @ servo_sets b"
  by (simp add: servo_sets_def map_filter_def)

lemma servo_sets_none [simp]: "\<forall>c \<in> set cs. \<forall>i v. c \<noteq> UpPwmServoSet i v \<Longrightarrow> servo_sets cs = []"
  by (induction cs) (auto simp: servo_sets_def map_filter_simps split: hw_cmd.splits)

lemma servo_sets_emit [simp]:
  "servo_sets (hw (emit (Sbus1Output vs) s)) = servo_sets (hw s)"
  "servo_sets (hw (emit (Sbus2Output vs) s)) = servo_sets (hw s)"
  by (simp_all add: emit_def)

lemma servo_sets_emit_servos [simp]:
  "servo_sets (hw (emit_servos vs s)) =
     servo_sets (hw s) @ map (\<lambda>i. (i, vs ! i)) [0..<PX4IO_SERVO_COUNT]"
  by (simp add: emit_servos_def servo_sets_def map_filter_def comp_def)

lemma tick_servo_sets_before:
  "servo_sets (hw (arm_outputs (run_mixers lib now (mixer_decide now (mixer_prepare lib s))))) =
   servo_sets (hw s)"
proof -
  let ?d = "mixer_decide now (mixer_prepare lib s)"
  obtain us where us: "set us \<subseteq> {UpPwmUpdate}" "hw (run_mixers lib now ?d) = hw ?d @ us"
    using run_mixers_hw by blast
  obtain b vs where vs: "set vs \<subseteq> {UpPwmServoArm b}"
      "hw (arm_outputs (run_mixers lib now ?d)) = hw (run_mixers lib now ?d) @ vs"
    using arm_outputs_hw by blast
  have "servo_sets us = []" "servo_sets vs = []"
    using us(1) vs(1) by (auto intro!: servo_sets_none)
  moreover have "hw ?d = hw s"
    by (simp add: mixer_decide_def)
  ultimately show ?thesis
    by (simp add: us(2) vs(2))
qed

lemma tick_armed:
  "mixer_servos_armed (mixer_tick lib now s) = needs_to_arm (mixer_decide now (mixer_prepare lib s))"
  by (simp add: mixer_tick_def) (simp add: needs_to_arm_def)

lemma decide_should:
  assumes "io_wf s"
  shows "should_arm (mixer_decide now s) \<longleftrightarrow> bit (r_status_flags s) 10 \<and> bit (r_status_flags s) 12 \<and>
           (bit (r_setup_arming s) 1 \<and> bit (r_status_flags s) 8 \<or> bit (r_status_flags s) 7)"
    and "should_arm_nothrottle (mixer_decide now s) \<longleftrightarrow>
           bit (r_status_flags s) 10 \<and> bit (r_status_flags s) 12 \<and>
           (bit (r_setup_arming s) 2 \<and> bit (r_status_flags s) 8 \<or> bit (r_status_flags s) 7)"
    and "should_always_enable_pwm (mixer_decide now s) \<longleftrightarrow>
           bit (r_setup_arming s) 6 \<and> bit (r_status_flags s) 10 \<and> \<not> fmu_lost now s"
  using assms by (simp_all add: mixer_decide_def decide_arming_def Let_def)

lemma decide_arming_bits:
  "io_wf s \<Longrightarrow> n \<noteq> 9 \<Longrightarrow> bit (r_setup_arming (mixer_decide now s)) n = bit (r_setup_arming s) n"
  by (auto simp: mixer_decide_def failsafe_check_arming dest: bit_imp_le_length)

lemma decide_force:
  "io_wf s \<Longrightarrow> bit (r_setup_arming s) 9 \<Longrightarrow> bit (r_setup_arming (mixer_decide now s)) 9"
  by (simp add: mixer_decide_def failsafe_check_arming)

lemma decide_source_failsafe:
  "io_wf s \<Longrightarrow> source (mixer_decide now s) = MIX_FAILSAFE \<longleftrightarrow> bit (r_setup_arming (mixer_decide now s)) 9"
  by (simp add: mixer_decide_def failsafe_check_source failsafe_check_arming)
    (simp add: select_source_def Let_def)

lemma tick_failsafe_page:
  "r_page_servo_failsafe (mixer_tick lib now s) = r_page_servo_failsafe (mixer_prepare lib s)"
  by (simp add: mixer_tick_def) (simp add: mixer_decide_def)

lemma tick_arming [simp]:
  "r_setup_arming (mixer_tick lib now s) = r_setup_arming (mixer_decide now (mixer_prepare lib s))"
  by (simp add: mixer_tick_def)

lemma tick_source [simp]:
  "source (mixer_tick lib now s) = source (mixer_decide now (mixer_prepare lib s))"
  by (simp add: mixer_tick_def)

lemma tick_flags:
  "io_wf s \<Longrightarrow> n \<noteq> 0 \<Longrightarrow> bit (r_status_flags (mixer_tick lib now s)) n =
     bit (r_status_flags (mixer_decide now (mixer_prepare lib s))) n"
  by (simp add: mixer_tick_def arm_outputs_flags)

lemma decide_flags:
  assumes "io_wf s"
  shows "bit (r_status_flags (mixer_decide now s)) 11 \<longleftrightarrow> source (mixer_decide now s) = MIX_FAILSAFE"
    and "bit (r_status_flags (mixer_decide now s)) 6 \<longleftrightarrow> \<not> fmu_lost now s"
  using assms by (simp_all add: mixer_decide_def failsafe_check_flags)

lemma decide_source_lost:
  "io_wf s \<Longrightarrow> fmu_lost now s \<Longrightarrow>
   source (mixer_decide now s) \<in> {MIX_DISARMED, MIX_OVERRIDE, MIX_FAILSAFE}"
  by (simp add: mixer_decide_def failsafe_check_source) (simp add: select_source_def Let_def)

text \<open>Pulse widths of the mixing path.\<close>

lemma scale_output_between:
  "scale_output mi ma r c = mi \<or> scale_output mi ma r c = ma \<or>
   mi \<le> scale_output mi ma r c \<and> scale_output mi ma r c \<le> ma"
  by (simp add: scale_output_def Let_def not_less)

lemma scale_output_pwm:
  "90 \<le> mi \<Longrightarrow> mi \<le> 1600 \<Longrightarrow> 200 \<le> ma \<Longrightarrow> ma \<le> 2500 \<Longrightarrow> pwm_range (scale_output mi ma r c)"
  using scale_output_between [of mi ma r c]
  by (auto simp: pwm_range_def word_le_nat_alt)

lemma ramp_min_pwm:
  assumes "p \<le> 10000" and "pwm_range di" and "90 \<le> mi"
  shows "90 \<le> ramp_min_output p di mi"
proof (cases "0 < di")
  case True
  with assms ramp_min_nat(1) [OF assms(1) True, of mi] show ?thesis
    by (auto simp: pwm_range_def word_le_nat_alt)
qed (use assms in \<open>simp add: ramp_min_output_def\<close>)

lemma output_limit_channel_pwm:
  assumes "p \<le> 10000" and "pwm_range di" and "90 \<le> mi" "mi \<le> 1600" and "200 \<le> ma" "ma \<le> 2500"
  shows "pwm_range (output_limit_channel st p r di mi ma c)"
proof -
  have "ramp_min_output p di mi \<le> 1600"
    using ramp_min_le [OF assms(1)] assms(4) order_trans by blast
  with ramp_min_pwm [OF assms(1-3)] assms show ?thesis
    by (cases st; cases c) (simp_all add: output_limit_channel_def scale_output_pwm)
qed

lemma output_limit_calc_pwm:
  assumes "\<forall>v \<in> set dis. pwm_range v" "\<forall>v \<in> set mi. 90 \<le> v \<and> v \<le> 1600"
    and "\<forall>v \<in> set ma. 200 \<le> v \<and> v \<le> 2500"
    and "n \<le> length dis" "n \<le> length mi" "n \<le> length ma" "i < n"
  shows "pwm_range (fst (output_limit_calc now a p n rm dis mi ma out eff l) ! i)"
  unfolding output_limit_calc_nth [OF assms(7)] Let_def
  using assms by (intro output_limit_channel_pwm ramp_progress_le) auto

lemma mix_outputs_servos:
  obtains mixed a p rm out eff l where "mixed \<le> PX4IO_SERVO_COUNT"
    and "r_page_servos (mix_outputs lib now s) =
      take mixed (fst (output_limit_calc now a p mixed rm (r_page_servo_disarmed s)
        (r_page_servo_control_min s) (r_page_servo_control_max s) out eff l)) @
      replicate (PX4IO_SERVO_COUNT - mixed) 0"
proof -
  let ?out = "take PX4IO_SERVO_COUNT (mix lib (mixer_callback (s\<lparr>update_mc_thrust_param := False\<rparr>)))"
  show thesis
    by (rule that [of "length ?out" "should_arm s" "should_arm_nothrottle s"
          "r_page_setup s ! PX4IO_P_SETUP_PWM_REVERSE" ?out "r_page_servos s" "pwm_limit s"])
      (simp_all add: mix_outputs_def Let_def io_set_defs)
qed

lemma mix_outputs_pwm:
  assumes "io_wf s" "pwm_limits_ok s" "i < PX4IO_SERVO_COUNT"
  shows "pwm_range (r_page_servos (mix_outputs lib now s) ! i)"
proof -
  obtain mixed a p rm out eff l where m: "mixed \<le> PX4IO_SERVO_COUNT"
    "r_page_servos (mix_outputs lib now s) =
      take mixed (fst (output_limit_calc now a p mixed rm (r_page_servo_disarmed s)
        (r_page_servo_control_min s) (r_page_servo_control_max s) out eff l)) @
      replicate (PX4IO_SERVO_COUNT - mixed) 0"
    by (rule mix_outputs_servos)
  have len: "mixed \<le> length (fst (output_limit_calc now a p mixed rm (r_page_servo_disarmed s)
        (r_page_servo_control_min s) (r_page_servo_control_max s) out eff l))"
    by (simp add: output_limit_calc_def Let_def)
  show ?thesis
  proof (cases "i < mixed")
    case True
    with assms m(1) show ?thesis
      by (auto simp: m(2) nth_append min_absorb2 [OF len] pwm_limits_ok_def io_wf_def
          intro!: output_limit_calc_pwm)
  next
    case False
    with m(1) assms(3) show ?thesis
      by (simp add: m(2) nth_append min_absorb2 [OF len] pwm_range_def)
  qed
qed

lemma prepare_limits:
  assumes "\<not> mix_failsafe s"
  shows "r_page_servo_failsafe (mixer_prepare lib s) = r_page_servo_failsafe s"
    and "pwm_limits_ok (mixer_prepare lib s) = pwm_limits_ok s"
  using assms by (simp_all add: mixer_prepare_def mixer_handle_text_create_mixer_def Let_def)
    (simp_all add: pwm_limits_ok_def isr_debug_def)

lemma decide_limits: "io_wf s \<Longrightarrow> pwm_limits_ok (mixer_decide now s) = pwm_limits_ok s"
  by (simp add: mixer_decide_def failsafe_check_def decide_arming_def select_source_def fmu_check_def Let_def)
    (simp add: pwm_limits_ok_def io_set_defs io_wf_def)

lemma run_mixers_pwm:
  assumes "io_wf s" "pwm_limits_ok s" "source s \<noteq> MIX_NONE" "i < PX4IO_SERVO_COUNT"
    and "bit (r_status_flags s) 8" "\<not> bit (r_setup_arming s) 8"
  shows "pwm_range (r_page_servos (run_mixers lib now s) ! i)"
proof -
  let ?s = "s\<lparr>update_trims := False\<rparr>"
  have "pwm_limits_ok ?s"
    using assms(2) by (simp add: pwm_limits_ok_def)
  with assms show ?thesis
    using mix_outputs_pwm [of ?s i lib now] mix_outputs_pwm [of s i lib now]
    by (auto simp: run_mixers_def Let_def) (auto simp: pwm_limits_ok_def io_wf_def)
qed

lemma write_outputs_sets:
  "servo_sets (hw (write_outputs s)) = servo_sets (hw s) @
     (if mixer_servos_armed s \<and> (should_arm s \<or> should_arm_nothrottle s \<or> source s = MIX_FAILSAFE) \<and>
         \<not> bit (r_setup_arming s) 8
      then map (\<lambda>i. (i, r_page_servos s ! i)) [0..<PX4IO_SERVO_COUNT]
      else if mixer_servos_armed s \<and> (should_always_enable_pwm s \<or> bit (r_setup_arming s) 8)
      then map (\<lambda>i. (i, r_page_servo_disarmed s ! i)) [0..<PX4IO_SERVO_COUNT] else [])"
  by (simp add: write_outputs_def Let_def)

text \<open>A state in flight: initialised, safety off, FMU armed, mixer loaded, termination enabled.\<close>

definition demo_flying :: "u16 \<Rightarrow> io" where
  "demo_flying arming = io_init
     \<lparr>r_page_status := [0, 0, BIT 10 OR BIT 12 OR BIT 8 OR BIT 13, 0, 0, 0, 0, 0, 0, 0],
      r_page_setup := (r_page_setup io_init)[1 := arming, 28 := 1],
      r_page_servo_failsafe := replicate 8 900, fmu_data_received_time := 1\<rparr>"

definition demo_lib :: mixer_lib where
  "demo_lib = \<lparr>load_from_buf = length, mix = (\<lambda>cb. [Fin 0, Fin 1]), saturation = 0, nan_reg = 0\<rparr>"

lemma io_init_facts [simp]:
  "r_status_flags io_init = 0" "r_setup_arming io_init = BIT 11" "hw io_init = []"
  by (simp_all add: io_init_def io_alias_defs)

lemma demo_flying_facts [simp]:
  "io_wf (demo_flying a)"
  "r_status_flags (demo_flying a) = BIT 10 OR BIT 12 OR BIT 8 OR BIT 13"
  "r_setup_arming (demo_flying a) = a"
  "fmu_data_received_time (demo_flying a) = 1"
  by (simp_all add: demo_flying_def io_init_def io_wf_def io_alias_defs)

section \<open>Results\<close>

text \<open>
  C2. Safety on means no pulses: while the safety switch is on, and neither lockdown nor
  always-on PWM is requested, a mixer tick leaves the outputs disarmed and gives no pulse width
  to the servo driver, whatever the FMU, the receiver or the mixer library supply.
\<close>

theorem safety_on_no_pulses:
  assumes "io_wf s"
    and "\<not> tst (r_status_flags s) PX4IO_P_STATUS_FLAGS_SAFETY_OFF"
    and "\<not> tst (r_setup_arming s) PX4IO_P_SETUP_ARMING_LOCKDOWN"
    and "\<not> tst (r_setup_arming s) PX4IO_P_SETUP_ARMING_ALWAYS_PWM_ENABLE"
  shows "\<not> mixer_servos_armed (mixer_tick lib now s) \<and>
         servo_sets (hw (mixer_tick lib now s)) = servo_sets (hw s)"
proof -
  have armed: "\<not> mixer_servos_armed (mixer_tick lib now s)"
    using assms by (simp add: tick_armed needs_to_arm_def decide_should decide_arming_bits)
  then show ?thesis
    by (simp add: mixer_tick_def write_outputs_unarmed tick_servo_sets_before)
qed

theorem safety_on_no_pulses_witness:
  "\<not> mixer_servos_armed (mixer_tick demo_lib 0 (io_init\<lparr>mixer_servos_armed := True\<rparr>)) \<and>
   servo_sets (hw (mixer_tick demo_lib 0 (io_init\<lparr>mixer_servos_armed := True\<rparr>))) = []"
  using safety_on_no_pulses [of "io_init\<lparr>mixer_servos_armed := True\<rparr>" demo_lib 0] io_wf_init
  by simp

text \<open>
  C3. Forced failsafe reaches the motors: with the force-failsafe flag set and the outputs armed
  (safety off, initialised, FMU armed with a mixer), a tick raises the failsafe status flag and
  drives every servo with its failsafe value, and nothing else, unless lockdown is active.
\<close>

theorem forced_failsafe_drives_failsafe:
  assumes "io_wf s"
    and "tst (r_setup_arming s) PX4IO_P_SETUP_ARMING_FORCE_FAILSAFE"
    and "\<not> tst (r_setup_arming s) PX4IO_P_SETUP_ARMING_LOCKDOWN"
    and "tst (r_status_flags s) PX4IO_P_STATUS_FLAGS_INIT_OK"
    and "tst (r_status_flags s) PX4IO_P_STATUS_FLAGS_SAFETY_OFF"
    and "tst (r_setup_arming s) PX4IO_P_SETUP_ARMING_FMU_ARMED \<and>
         tst (r_status_flags s) PX4IO_P_STATUS_FLAGS_MIXER_OK \<or>
         tst (r_status_flags s) PX4IO_P_STATUS_FLAGS_RAW_PWM"
  shows "let t = mixer_tick lib now s in
     tst (r_status_flags t) PX4IO_P_STATUS_FLAGS_FAILSAFE \<and>
     servo_sets (hw t) = servo_sets (hw s) @
       map (\<lambda>i. (i, r_page_servo_failsafe t ! i)) [0..<PX4IO_SERVO_COUNT]"
proof -
  let ?d = "mixer_decide now (mixer_prepare lib s)"
  let ?a = "arm_outputs (run_mixers lib now ?d)"
  have src: "source ?d = MIX_FAILSAFE"
    using assms(1,2) by (simp add: decide_source_failsafe decide_force)
  have "should_arm ?d"
    using assms by (auto simp: decide_should)
  then have guard: "mixer_servos_armed ?a" "should_arm ?a" "\<not> tst (r_setup_arming ?a) PX4IO_P_SETUP_ARMING_LOCKDOWN"
    using assms(1,3) by (simp_all add: needs_to_arm_def decide_arming_bits)
  have page: "r_page_servos (run_mixers lib now ?d) = r_page_servo_failsafe (mixer_prepare lib s)"
    using src by (simp add: run_mixers_failsafe) (simp add: mixer_decide_def)
  have "servo_sets (hw (write_outputs ?a)) =
      servo_sets (hw s) @ map (\<lambda>i. (i, r_page_servo_failsafe (mixer_prepare lib s) ! i)) [0..<PX4IO_SERVO_COUNT]"
    using guard by (simp add: write_outputs_sets tick_servo_sets_before page)
  with src assms(1) show ?thesis
    by (simp add: Let_def tick_failsafe_page tick_flags decide_flags flip: mixer_tick_def)
qed

theorem forced_failsafe_drives_failsafe_witness:
  "servo_sets (hw (mixer_tick demo_lib 7 (demo_flying (BIT 1 OR BIT 9)))) \<noteq> []"
  using forced_failsafe_drives_failsafe [of "demo_flying (BIT 1 OR BIT 9)" demo_lib 7]
  by (simp add: Let_def)

text \<open>
  C4. Loss of the FMU: when no FMU packet has ever arrived, or none for more than 500 ms, the tick
  clears FMU_OK and no longer takes control values or raw pulses from the FMU: the outputs are
  the disarmed values, the pilot's override or failsafe. Where flight termination is enabled, the
  FMU had been seen and the vehicle was armed with no override, the tick forces failsafe.
\<close>

theorem fmu_loss:
  assumes "io_wf s" and "fmu_lost now s"
  shows "let t = mixer_tick lib now s in
     \<not> tst (r_status_flags t) PX4IO_P_STATUS_FLAGS_FMU_OK \<and>
     source t \<in> {MIX_DISARMED, MIX_OVERRIDE, MIX_FAILSAFE} \<and>
     (r_page_setup s ! PX4IO_P_SETUP_ENABLE_FLIGHTTERMINATION \<noteq> 0 \<and>
      tst (r_status_flags s) PX4IO_P_STATUS_FLAGS_FMU_INITIALIZED \<and>
      tst (r_status_flags s) PX4IO_P_STATUS_FLAGS_INIT_OK \<and>
      tst (r_status_flags s) PX4IO_P_STATUS_FLAGS_SAFETY_OFF \<and>
      tst (r_status_flags s) PX4IO_P_STATUS_FLAGS_MIXER_OK \<and>
      tst (r_setup_arming s) PX4IO_P_SETUP_ARMING_FMU_ARMED \<and>
      \<not> tst (r_status_flags s) PX4IO_P_STATUS_FLAGS_OVERRIDE \<longrightarrow>
      tst (r_setup_arming t) PX4IO_P_SETUP_ARMING_FORCE_FAILSAFE \<and> source t = MIX_FAILSAFE)"
proof -
  let ?p = "mixer_prepare lib s"
  have lost: "fmu_lost now ?p"
    using assms(2) by (simp add: fmu_lost_def)
  have "must_terminate (decide_arming (select_source (fmu_check now ?p)))"
    if "r_page_setup s ! 28 \<noteq> 0" "bit (r_status_flags s) 13" "bit (r_status_flags s) 10"
      "bit (r_status_flags s) 12" "bit (r_status_flags s) 8" "bit (r_setup_arming s) 1"
      "\<not> bit (r_status_flags s) 1"
    using that assms(1) lost
    by (simp add: must_terminate_def) (simp add: decide_arming_def select_source_def Let_def)
  with assms(1) lost decide_source_lost [of ?p now] show ?thesis
    by (simp add: Let_def tick_flags decide_flags)
      (simp add: mixer_decide_def failsafe_check_arming failsafe_check_source)
qed

theorem fmu_loss_witness:
  "source (mixer_tick demo_lib 600000 (demo_flying (BIT 1))) = MIX_FAILSAFE"
proof -
  have "fmu_lost 600000 (demo_flying (BIT 1))" "r_page_setup (demo_flying (BIT 1)) ! 28 = 1"
    by (simp_all add: fmu_lost_def demo_flying_def io_init_def)
  with fmu_loss [of "demo_flying (BIT 1)" 600000 demo_lib] show ?thesis
    by (simp add: Let_def)
qed



text \<open>
  Lockdown: with the lockdown flag set, a tick keeps the outputs armed and drives every servo
  with its disarmed value, whatever the safety switch, the FMU or the mixer say.
\<close>

lemma lockdown_drives_disarmed:
  assumes "io_wf s" and "tst (r_setup_arming s) PX4IO_P_SETUP_ARMING_LOCKDOWN"
  shows "let t = mixer_tick lib now s in
     mixer_servos_armed t \<and>
     servo_sets (hw t) = servo_sets (hw s) @
       map (\<lambda>i. (i, r_page_servo_disarmed s ! i)) [0..<PX4IO_SERVO_COUNT]"
proof -
  let ?d = "mixer_decide now (mixer_prepare lib s)"
  let ?a = "arm_outputs (run_mixers lib now ?d)"
  have lock: "bit (r_setup_arming ?d) 8"
    using assms by (simp add: decide_arming_bits)
  have "r_page_servo_disarmed ?a = r_page_servo_disarmed s"
    by (simp add: mixer_decide_def)
  moreover have "mixer_servos_armed ?a" "bit (r_setup_arming ?a) 8"
    using lock by (simp_all add: needs_to_arm_def)
  ultimately have "servo_sets (hw (write_outputs ?a)) = servo_sets (hw ?a) @
       map (\<lambda>i. (i, r_page_servo_disarmed s ! i)) [0..<PX4IO_SERVO_COUNT]"
    by (simp add: write_outputs_sets del: arm_outputs_frame arm_outputs_armed)
  with lock show ?thesis
    by (simp add: Let_def tick_armed needs_to_arm_def tick_servo_sets_before flip: mixer_tick_def)
qed

text \<open>
  What the mixers are given: every control value is NaN or within -1..1; while the motors spin up
  the throttle is zero; while only pre-armed (safety off, not armed) the throttle is NaN, so that
  it cannot start a motor.
\<close>

lemma mixer_callback_guarded:
  assumes "mixer_callback s grp index = Some c"
  shows "(c = NaN \<or> (\<exists>x. c = Fin x \<and> - 1 \<le> x \<and> x \<le> 1)) \<and>
     (is_throttle grp index \<and> should_arm_nothrottle s \<and> \<not> should_arm s \<longrightarrow> c = NaN) \<and>
     (is_throttle grp index \<and> state (pwm_limit s) = OUTPUT_LIMIT_STATE_RAMP \<and>
      (should_arm s \<or> \<not> should_arm_nothrottle s) \<longrightarrow> c = Fin 0)"
  using assms
  by (auto simp: mixer_callback_def Let_def map_flt_def constrain_def not_less
      split: if_splits option.splits flt.splits)

end
