(* ===== verification/IO_Controls.thy ===== *)
theory IO_Controls
  imports IO_Registers
begin

text \<open>
  R/C input of the PX4IO firmware (\<^verbatim>\<open>controls.c\<close>): gathering a frame from the S.BUS, PPM and DSM
  ports, scaling and mapping of the channels, loss of the receiver, and the decision on manual
  override. The serial decoders (\<^verbatim>\<open>sbus_input\<close>, \<^verbatim>\<open>dsm_input\<close>, \<^verbatim>\<open>st24_decode\<close>, \<^verbatim>\<open>sumd_decode\<close>), the ADC,
  the PPM buffer and the clock are inputs of a tick: a record of functions and values. A decoder gets
  the maximum number of channels and writes a run of values from the base of the channel array.
\<close>

section \<open>Inputs of a tick\<close>

definition RC_INPUT_RSSI_MAX :: nat where [simp]: "RC_INPUT_RSSI_MAX = 100"
definition PPM_MAX_CHANNELS :: nat where [simp]: "PPM_MAX_CHANNELS = 12"
definition RC_CHANNEL_LOW_THRESH :: int where [simp]: "RC_CHANNEL_LOW_THRESH = - 8000"

record sbus_out =
  sbus_values :: "u16 list"
  sbus_count :: u16
  sbus_failsafe :: bool
  sbus_frame_drop :: bool

record dsm_out =
  dsm_values :: "u16 list"
  dsm_count :: u16
  dsm_11_bit :: bool
  spektrum_rssi :: int
  dsm_frame_drops :: u32

record decode_out =
  dec_values :: "u16 list"
  dec_rssi :: u8
  dec_lost :: u8
  dec_count :: u16
  dec_failsafe :: bool

text \<open>
  \<open>sbus\<close> and \<open>dsm\<close> are \<open>Some\<close> when a frame was decoded. \<open>dsm_bytes\<close> are the bytes that \<^verbatim>\<open>dsm_input\<close>
  read from the port. The byte decoders of ST24 and SUMD keep state of their own: \<open>st24 i b\<close> is the
  outcome of the call for byte number \<open>i\<close>, \<open>Some\<close> when it completed a packet.
\<close>

record rc_env =
  rssi_adc :: u16
  sbus :: "sbus_out option"
  dsm :: "dsm_out option"
  dsm_bytes :: "u8 list"
  st24 :: "nat \<Rightarrow> u8 \<Rightarrow> decode_out option"
  sumd :: "nat \<Rightarrow> u8 \<Rightarrow> decode_out option"
  ppm_decoded_channels :: u32
  ppm_buffer :: "nat \<Rightarrow> u16"
  ppm_frame_length :: u16
  t_ppm :: u64
  t_frame :: u64
  t_check :: u64
  cast_undef :: u16       \<comment> \<open>a conversion to 16 bits whose value does not fit\<close>

definition overlay :: "u16 list \<Rightarrow> u16 list \<Rightarrow> u16 list" where
  "overlay vs old = take (length old) vs @ drop (length vs) old"

definition write_raw_values :: "u16 list \<Rightarrow> io \<Rightarrow> io" where
  "write_raw_values vs s =
     s\<lparr>r_page_raw_rc_input := take PX4IO_P_RAW_RC_BASE (r_page_raw_rc_input s) @
         overlay (take PX4IO_RC_INPUT_CHANNELS vs) (drop PX4IO_P_RAW_RC_BASE (r_page_raw_rc_input s))\<rparr>"

definition set_raw_count :: "u16 \<Rightarrow> io \<Rightarrow> io" where
  "set_raw_count n s = set_raw_rc PX4IO_P_RAW_RC_COUNT n s"

section \<open>Signal strength\<close>

definition rssi_low_pass :: "u32 \<Rightarrow> u16 \<Rightarrow> u32" where
  "rssi_low_pass acc counts =
     of_int (f32_trunc (f32_add (f32_mult (f32 (of_nat (unat acc))) (f32 (998 / 1000)))
                                (f32_mult (of_nat (unat counts)) (f32 (2 / 1000)))))"

definition rssi_scale :: "u32 \<Rightarrow> u16" where
  "rssi_scale acc =
     (let mV = acc * 3300 div 4095; r = ucast (mV * of_nat RC_INPUT_RSSI_MAX div 3300) :: u16
      in if r > of_nat RC_INPUT_RSSI_MAX then of_nat RC_INPUT_RSSI_MAX else r)"

definition gather_rssi :: "rc_env \<Rightarrow> io \<Rightarrow> io" where
  "gather_rssi e s =
     (let s1 = (if tst (r_setup_features s) PX4IO_P_SETUP_FEATURES_ADC_RSSI \<and> rssi_adc e \<noteq> 0xffff
                then let acc = rssi_low_pass (rssi_adc_counts s) (rssi_adc e)
                     in s\<lparr>rssi_adc_counts := acc, rssi := rssi_scale acc\<rparr>
                else s)
      in if \<not> tst (r_raw_rc_flags s1) PX4IO_P_RAW_RC_FLAGS_RC_OK then s1\<lparr>rssi := 0\<rparr> else s1)"

section \<open>Frames\<close>

definition gather_sbus :: "rc_env \<Rightarrow> io \<Rightarrow> bool \<times> io" where
  "gather_sbus e s =
     (if tst (r_status_flags s) (PX4IO_P_STATUS_FLAGS_RC_DSM OR PX4IO_P_STATUS_FLAGS_RC_ST24 OR
                                 PX4IO_P_STATUS_FLAGS_RC_SUMD)
      then (False, s)
      else case sbus e of
        None \<Rightarrow> (False, s)
      | Some f \<Rightarrow>
          let s1 = status_or PX4IO_P_STATUS_FLAGS PX4IO_P_STATUS_FLAGS_RC_SBUS
                     (set_raw_count (sbus_count f) (write_raw_values (sbus_values f) s));
              s2 = (if sbus_frame_drop f
                    then raw_rc_or PX4IO_P_RAW_RC_FLAGS PX4IO_P_RAW_RC_FLAGS_FRAME_DROP s1
                    else raw_rc_clear PX4IO_P_RAW_RC_FLAGS PX4IO_P_RAW_RC_FLAGS_FRAME_DROP s1);
              s3 = (if sbus_failsafe f
                    then raw_rc_or PX4IO_P_RAW_RC_FLAGS PX4IO_P_RAW_RC_FLAGS_FAILSAFE s2
                    else raw_rc_clear PX4IO_P_RAW_RC_FLAGS PX4IO_P_RAW_RC_FLAGS_FAILSAFE s2)
          in (True, if tst (r_setup_features s3) PX4IO_P_SETUP_FEATURES_ADC_RSSI then s3
                    else s3\<lparr>rssi := of_nat (if sbus_frame_drop f then RC_INPUT_RSSI_MAX div 2
                                            else RC_INPUT_RSSI_MAX)\<rparr>))"

definition ppm_input :: "rc_env \<Rightarrow> io \<Rightarrow> bool \<times> io" where
  "ppm_input e s =
     (if t_ppm e - ppm_last_valid_decode s < 200000 then
        let n0 = ucast (ppm_decoded_channels e) :: u16;
            n = (if n0 > of_nat PX4IO_RC_INPUT_CHANNELS then of_nat PX4IO_RC_INPUT_CHANNELS else n0);
            s1 = write_raw_values (map (ppm_buffer e) [0..<min (unat n) PPM_MAX_CHANNELS]) (set_raw_count n s)
        in (n > 0, set_raw_rc PX4IO_P_RAW_RC_DATA (ppm_frame_length e) (s1\<lparr>ppm_last_valid_decode := 0\<rparr>))
      else (False, s))"

definition gather_ppm :: "rc_env \<Rightarrow> io \<Rightarrow> bool \<times> io" where
  "gather_ppm e s =
     (case ppm_input e s of
        (True, s1) \<Rightarrow>
          (True, raw_rc_clear PX4IO_P_RAW_RC_FLAGS PX4IO_P_RAW_RC_FLAGS_FAILSAFE
                   (raw_rc_clear PX4IO_P_RAW_RC_FLAGS PX4IO_P_RAW_RC_FLAGS_FRAME_DROP
                     (status_or PX4IO_P_STATUS_FLAGS PX4IO_P_STATUS_FLAGS_RC_PPM s1)))
      | (False, s1) \<Rightarrow> (False, s1))"

definition dsm_frame :: "rc_env \<Rightarrow> io \<Rightarrow> bool \<times> io" where
  "dsm_frame e s =
     (case dsm e of
        None \<Rightarrow> (False, s)
      | Some f \<Rightarrow>
          let s1 = set_raw_count (dsm_count f) (write_raw_values (dsm_values f) s);
              s2 = (if dsm_11_bit f then raw_rc_or PX4IO_P_RAW_RC_FLAGS PX4IO_P_RAW_RC_FLAGS_RC_DSM11 s1
                    else raw_rc_clear PX4IO_P_RAW_RC_FLAGS PX4IO_P_RAW_RC_FLAGS_RC_DSM11 s1);
              s3 = (if dsm_frame_drops f = frame_drops s2
                    then raw_rc_clear PX4IO_P_RAW_RC_FLAGS PX4IO_P_RAW_RC_FLAGS_FRAME_DROP s2
                    else raw_rc_or PX4IO_P_RAW_RC_FLAGS PX4IO_P_RAW_RC_FLAGS_FRAME_DROP s2);
              s4 = raw_rc_clear PX4IO_P_RAW_RC_FLAGS PX4IO_P_RAW_RC_FLAGS_FAILSAFE
                     (s3\<lparr>frame_drops := dsm_frame_drops f\<rparr>)
          in (True, if spektrum_rssi f \<ge> 0 \<and> spektrum_rssi f \<le> 100
                    then (setup_clear PX4IO_P_SETUP_FEATURES PX4IO_P_SETUP_FEATURES_ADC_RSSI s4)
                           \<lparr>rssi := of_int (spektrum_rssi f)\<rparr>
                    else s4))"

text \<open>The byte loops: every completed packet is written to the channel array; the last one is reported.\<close>

fun decode_bytes ::
    "(nat \<Rightarrow> u8 \<Rightarrow> decode_out option) \<Rightarrow> nat \<Rightarrow> u8 list \<Rightarrow> decode_out option \<Rightarrow> io \<Rightarrow> decode_out option \<times> io" where
  "decode_bytes d i [] lst s = (lst, s)"
| "decode_bytes d i (b # bs) lst s =
     (case d i b of
        None \<Rightarrow> decode_bytes d (Suc i) bs
                  (map_option (\<lambda>r. r\<lparr>dec_rssi := of_nat RC_INPUT_RSSI_MAX\<rparr>) lst) s
      | Some r \<Rightarrow> decode_bytes d (Suc i) bs (Some r) (write_raw_values (dec_values r) s))"

definition st24_frame :: "rc_env \<Rightarrow> io \<Rightarrow> bool \<times> io" where
  "st24_frame e s =
     (if tst (r_status_flags s) (PX4IO_P_STATUS_FLAGS_RC_DSM OR PX4IO_P_STATUS_FLAGS_RC_SUMD)
      then (False, s)
      else case decode_bytes (st24 e) 0 (dsm_bytes e) None s of
        (None, s1) \<Rightarrow> (False, s1)
      | (Some r, s1) \<Rightarrow>
          (True,
           if dec_lost r = 0 then
             raw_rc_clear PX4IO_P_RAW_RC_FLAGS PX4IO_P_RAW_RC_FLAGS_FAILSAFE
               (raw_rc_clear PX4IO_P_RAW_RC_FLAGS PX4IO_P_RAW_RC_FLAGS_FRAME_DROP
                 (status_or PX4IO_P_STATUS_FLAGS PX4IO_P_STATUS_FLAGS_RC_ST24
                   (set_raw_count (dec_count r)
                     ((setup_clear PX4IO_P_SETUP_FEATURES PX4IO_P_SETUP_FEATURES_ADC_RSSI s1)
                        \<lparr>rssi := ucast (dec_rssi r)\<rparr>))))
           else s1))"

definition sumd_frame :: "rc_env \<Rightarrow> io \<Rightarrow> bool \<times> io" where
  "sumd_frame e s =
     (if tst (r_status_flags s) (PX4IO_P_STATUS_FLAGS_RC_DSM OR PX4IO_P_STATUS_FLAGS_RC_ST24)
      then (False, s)
      else case decode_bytes (sumd e) 0 (dsm_bytes e) None s of
        (None, s1) \<Rightarrow> (False, s1)
      | (Some r, s1) \<Rightarrow>
          let s2 = raw_rc_clear PX4IO_P_RAW_RC_FLAGS PX4IO_P_RAW_RC_FLAGS_FRAME_DROP
                     (status_or PX4IO_P_STATUS_FLAGS PX4IO_P_STATUS_FLAGS_RC_SUMD
                       (set_raw_count (dec_count r) s1))
          in (True, if dec_failsafe r
                    then raw_rc_or PX4IO_P_RAW_RC_FLAGS PX4IO_P_RAW_RC_FLAGS_FAILSAFE s2
                    else raw_rc_clear PX4IO_P_RAW_RC_FLAGS PX4IO_P_RAW_RC_FLAGS_FAILSAFE s2))"

definition dsm_port_input :: "rc_env \<Rightarrow> io \<Rightarrow> (bool \<times> bool \<times> bool) \<times> io" where
  "dsm_port_input e s =
     (let (d, s1) = dsm_frame e s; (st, s2) = st24_frame e s1; (su, s3) = sumd_frame e s2
      in ((d, st, su), s3))"

definition gather_dsm :: "rc_env \<Rightarrow> io \<Rightarrow> bool \<times> io" where
  "gather_dsm e s =
     (if tst (r_status_flags s) (PX4IO_P_STATUS_FLAGS_RC_SBUS OR PX4IO_P_STATUS_FLAGS_RC_PPM)
      then (False, s)
      else let ((d, st, su), s1) = dsm_port_input e s;
               s2 = (if d then status_or PX4IO_P_STATUS_FLAGS PX4IO_P_STATUS_FLAGS_RC_DSM s1 else s1);
               s3 = (if st then status_or PX4IO_P_STATUS_FLAGS PX4IO_P_STATUS_FLAGS_RC_ST24 s2 else s2);
               s4 = (if su then status_or PX4IO_P_STATUS_FLAGS PX4IO_P_STATUS_FLAGS_RC_SUMD s3 else s3)
           in (d \<or> st \<or> su, s4))"

definition gather_frame :: "rc_env \<Rightarrow> io \<Rightarrow> bool \<times> io" where
  "gather_frame e s =
     (let (a, s1) = gather_sbus e (gather_rssi e s);
          (b, s2) = gather_ppm e s1;
          (c, s3) = gather_dsm e s2;
          s4 = (if r_raw_rc_count s3 > of_nat PX4IO_RC_INPUT_CHANNELS
                then set_raw_count (of_nat PX4IO_RC_INPUT_CHANNELS) s3 else s3)
      in (a \<or> b \<or> c, set_raw_rc PX4IO_P_RAW_RC_NRSSI (rssi s4) s4))"

section \<open>Scaling and mapping\<close>

definition clamp_raw :: "u16 \<Rightarrow> u16 \<Rightarrow> u16 \<Rightarrow> u16" where
  "clamp_raw lo hi raw = (let r = (if raw < lo then lo else raw) in if r > hi then hi else r)"

text \<open>
  Conversion of a float to \<^verbatim>\<open>int16_t\<close>: the division has no value when the denominator is zero and the
  conversion none when the result does not fit; both are the parameter \<open>undef\<close>.
\<close>

definition scale_ratio :: "u16 \<Rightarrow> int \<Rightarrow> int \<Rightarrow> u16" where
  "scale_ratio undef num den =
     (if den = 0 then undef
      else let x = f32_trunc (f32_mult 10000 (f32_div (of_int num) (of_int den)))
           in if - 32768 \<le> x \<and> x \<le> 32767 then of_int x else undef)"

definition rc_scale :: "u16 \<Rightarrow> u16 \<Rightarrow> u16 \<Rightarrow> u16 \<Rightarrow> u16 \<Rightarrow> u16 \<Rightarrow> u16" where
  "rc_scale undef lo center hi dz raw =
     (if uint raw > uint center + uint dz
      then scale_ratio undef (uint raw - uint center - uint dz) (uint hi - uint center - uint dz)
      else if uint raw < uint center - uint dz
      then scale_ratio undef (uint raw - uint center + uint dz) (uint center - uint dz - uint lo)
      else 0)"

definition throttle_failsafe :: "u16 \<Rightarrow> u16 \<Rightarrow> u16 \<Rightarrow> u16 \<Rightarrow> bool" where
  "throttle_failsafe thr lo hi raw \<longleftrightarrow> raw < lo \<and> raw < thr \<or> raw > hi \<and> raw > thr"

definition map_channel :: "u16 \<Rightarrow> nat \<Rightarrow> io \<times> u32 \<Rightarrow> io \<times> u32" where
  "map_channel undef i = (\<lambda>(s, assigned).
     if tst (rc_conf s i PX4IO_P_RC_CONFIG_OPTIONS) PX4IO_P_RC_CONFIG_OPTIONS_ENABLED then
       let lo = rc_conf s i PX4IO_P_RC_CONFIG_MIN; hi = rc_conf s i PX4IO_P_RC_CONFIG_MAX;
           raw = clamp_raw lo hi (r_page_raw_rc_input s ! (PX4IO_P_RAW_RC_BASE + i));
           sc0 = rc_scale undef lo (rc_conf s i PX4IO_P_RC_CONFIG_CENTER) hi
                   (rc_conf s i PX4IO_P_RC_CONFIG_DEADZONE) raw;
           sc1 = (if tst (rc_conf s i PX4IO_P_RC_CONFIG_OPTIONS) PX4IO_P_RC_CONFIG_OPTIONS_REVERSE
                  then - sc0 else sc0);
           mapped = rc_conf s i PX4IO_P_RC_CONFIG_ASSIGNMENT;
           thr = r_page_setup s ! PX4IO_P_SETUP_RC_THR_FAILSAFE_US
       in if mapped < of_nat PX4IO_CONTROL_CHANNELS then
            let sc2 = (if mapped = 1 then - sc1 else sc1);
                s1 = (if mapped = 3 \<and> thr \<noteq> 0
                      then if throttle_failsafe thr lo hi raw
                           then raw_rc_or PX4IO_P_RAW_RC_FLAGS PX4IO_P_RAW_RC_FLAGS_FAILSAFE s
                           else raw_rc_clear PX4IO_P_RAW_RC_FLAGS PX4IO_P_RAW_RC_FLAGS_FAILSAFE s
                      else s)
            in (set_rc (PX4IO_P_RC_BASE + unat mapped) sc2 s1, assigned OR BIT (unat mapped))
          else if mapped = PX4IO_P_RC_CONFIG_ASSIGNMENT_MODESWITCH
          then (s\<lparr>rc_value_override := sc1\<rparr>, assigned)
          else (s, assigned)
     else (s, assigned))"

definition zero_unassigned :: "u32 \<Rightarrow> nat \<Rightarrow> io \<Rightarrow> io" where
  "zero_unassigned assigned i s = (if bit assigned i then s else set_rc (PX4IO_P_RC_BASE + i) 0 s)"

definition process_frame :: "rc_env \<Rightarrow> io \<Rightarrow> io" where
  "process_frame e s =
     (let s1 = s\<lparr>rc_channels_timestamp_received := t_frame e, rc_channels_timestamp_valid := t_frame e\<rparr>;
          (s2, assigned) = fold (map_channel (cast_undef e)) [0..<unat (r_raw_rc_count s1)] (s1, 0);
          s3 = fold (zero_unassigned assigned) [0..<PX4IO_CONTROL_CHANNELS] s2;
          s4 = raw_rc_or PX4IO_P_RAW_RC_FLAGS PX4IO_P_RAW_RC_FLAGS_RC_OK
                 (status_or PX4IO_P_STATUS_FLAGS PX4IO_P_STATUS_FLAGS_RC_OK s3);
          s5 = (if assigned > 4
                then raw_rc_or PX4IO_P_RAW_RC_FLAGS PX4IO_P_RAW_RC_FLAGS_MAPPING_OK s4
                else raw_rc_clear PX4IO_P_RAW_RC_FLAGS PX4IO_P_RAW_RC_FLAGS_MAPPING_OK s4)
      in set_rc PX4IO_P_RC_VALID (ucast assigned) s5)"

section \<open>Loss of the receiver and manual override\<close>

definition rc_input_lost :: "rc_env \<Rightarrow> io \<Rightarrow> bool" where
  "rc_input_lost e s \<longleftrightarrow> t_check e - rc_channels_timestamp_received s > 200000"

definition rc_source_flags :: u16 where
  [simp]: "rc_source_flags = PX4IO_P_STATUS_FLAGS_RC_PPM OR PX4IO_P_STATUS_FLAGS_RC_DSM OR
     PX4IO_P_STATUS_FLAGS_RC_SBUS OR PX4IO_P_STATUS_FLAGS_RC_ST24 OR PX4IO_P_STATUS_FLAGS_RC_SUMD"

definition handle_rc_loss :: "rc_env \<Rightarrow> io \<Rightarrow> io" where
  "handle_rc_loss e s =
     (let lost = rc_input_lost e s;
          s1 = (if lost then status_clear PX4IO_P_STATUS_FLAGS rc_source_flags s else s);
          s2 = (if tst (r_raw_rc_flags s1) PX4IO_P_RAW_RC_FLAGS_FAILSAFE
                then status_clear PX4IO_P_STATUS_FLAGS PX4IO_P_STATUS_FLAGS_OVERRIDE s1 else s1)
      in if lost then
           status_or PX4IO_P_STATUS_ALARMS PX4IO_P_STATUS_ALARMS_RC_LOST
             (set_raw_count 0
               (set_rc PX4IO_P_RC_VALID 0
                 (raw_rc_clear PX4IO_P_RAW_RC_FLAGS PX4IO_P_RAW_RC_FLAGS_RC_OK
                   (status_clear PX4IO_P_STATUS_FLAGS
                     (PX4IO_P_STATUS_FLAGS_OVERRIDE OR PX4IO_P_STATUS_FLAGS_RC_OK) s2))))
         else s2)"

definition override_allowed :: "io \<Rightarrow> bool" where
  "override_allowed s \<longleftrightarrow>
     tst (r_setup_arming s) PX4IO_P_SETUP_ARMING_MANUAL_OVERRIDE_OK \<and>
     tst (r_status_flags s) PX4IO_P_STATUS_FLAGS_RC_OK \<and>
     \<not> tst (r_raw_rc_flags s) PX4IO_P_RAW_RC_FLAGS_FAILSAFE \<and>
     \<not> tst (r_setup_arming s) PX4IO_P_SETUP_ARMING_RC_HANDLING_DISABLED \<and>
     tst (r_status_flags s) PX4IO_P_STATUS_FLAGS_MIXER_OK"

definition override_wanted :: "io \<Rightarrow> bool" where
  "override_wanted s \<longleftrightarrow>
     tst (r_status_flags s) PX4IO_P_STATUS_FLAGS_RC_OK \<and>
     sint (rc_value_override s) < RC_CHANNEL_LOW_THRESH \<or>
     \<not> tst (r_status_flags s) PX4IO_P_STATUS_FLAGS_FMU_OK \<and>
     tst (r_setup_arming s) PX4IO_P_SETUP_ARMING_OVERRIDE_IMMEDIATE \<and>
     \<not> tst (r_setup_arming s) PX4IO_P_SETUP_ARMING_TERMINATION_FAILSAFE"

definition check_override :: "io \<Rightarrow> io" where
  "check_override s =
     (if override_allowed s then
        if override_wanted s then status_or PX4IO_P_STATUS_FLAGS PX4IO_P_STATUS_FLAGS_OVERRIDE s
        else status_clear PX4IO_P_STATUS_FLAGS PX4IO_P_STATUS_FLAGS_OVERRIDE s
      else status_clear PX4IO_P_STATUS_FLAGS PX4IO_P_STATUS_FLAGS_OVERRIDE s)"

definition controls_tick :: "rc_env \<Rightarrow> io \<Rightarrow> io" where
  "controls_tick e s =
     (let (updated, s1) = gather_frame e s;
          s2 = (if updated then process_frame e s1 else s1)
      in check_override (handle_rc_loss e s2))"

definition init_channel :: "nat \<Rightarrow> io \<Rightarrow> io" where
  "init_channel i s =
     set_rc_conf i PX4IO_P_RC_CONFIG_OPTIONS PX4IO_P_RC_CONFIG_OPTIONS_ENABLED
       (set_rc_conf i PX4IO_P_RC_CONFIG_ASSIGNMENT (of_nat i)
         (set_rc_conf i PX4IO_P_RC_CONFIG_DEADZONE 30
           (set_rc_conf i PX4IO_P_RC_CONFIG_MAX 2000
             (set_rc_conf i PX4IO_P_RC_CONFIG_CENTER 1500
               (set_rc_conf i PX4IO_P_RC_CONFIG_MIN 1000
                 (set_rc_conf i PX4IO_P_RC_CONFIG_OPTIONS 0 s))))))"

definition controls_init :: "io \<Rightarrow> io" where
  "controls_init s =
     fold init_channel [0..<PX4IO_RC_INPUT_CHANNELS]
       ((set_raw_count 0 s)\<lparr>rc_channels_timestamp_received := 0, rc_channels_timestamp_valid := 0\<rparr>)"

section \<open>Frame lemmas\<close>

lemma io_wf_rc_fields [simp]:
  "io_wf (s\<lparr>rssi := r\<rparr>) = io_wf s"
  "io_wf (s\<lparr>rssi_adc_counts := c\<rparr>) = io_wf s"
  "io_wf (s\<lparr>frame_drops := d\<rparr>) = io_wf s"
  "io_wf (s\<lparr>ppm_last_valid_decode := t\<rparr>) = io_wf s"
  "io_wf (s\<lparr>rc_channels_timestamp_received := t\<rparr>) = io_wf s"
  "io_wf (s\<lparr>rc_channels_timestamp_valid := t\<rparr>) = io_wf s"
  "io_wf (s\<lparr>rc_value_override := v\<rparr>) = io_wf s"
  by (simp_all add: io_wf_def)

lemma alias_rc_fields [simp]:
  "r_status_flags (s\<lparr>rssi := r\<rparr>) = r_status_flags s"
  "r_status_flags (s\<lparr>rssi_adc_counts := c\<rparr>) = r_status_flags s"
  "r_status_flags (s\<lparr>frame_drops := d\<rparr>) = r_status_flags s"
  "r_status_flags (s\<lparr>ppm_last_valid_decode := t\<rparr>) = r_status_flags s"
  "r_status_flags (s\<lparr>rc_channels_timestamp_received := t\<rparr>) = r_status_flags s"
  "r_status_flags (s\<lparr>rc_channels_timestamp_valid := t\<rparr>) = r_status_flags s"
  "r_status_flags (s\<lparr>rc_value_override := v\<rparr>) = r_status_flags s"
  "r_setup_arming (s\<lparr>rssi := r\<rparr>) = r_setup_arming s"
  "r_setup_arming (s\<lparr>rssi_adc_counts := c\<rparr>) = r_setup_arming s"
  "r_setup_arming (s\<lparr>frame_drops := d\<rparr>) = r_setup_arming s"
  "r_setup_arming (s\<lparr>ppm_last_valid_decode := t\<rparr>) = r_setup_arming s"
  "r_setup_arming (s\<lparr>rc_channels_timestamp_received := t\<rparr>) = r_setup_arming s"
  "r_setup_arming (s\<lparr>rc_channels_timestamp_valid := t\<rparr>) = r_setup_arming s"
  "r_setup_arming (s\<lparr>rc_value_override := v\<rparr>) = r_setup_arming s"
  "r_raw_rc_flags (s\<lparr>rssi := r\<rparr>) = r_raw_rc_flags s"
  "r_raw_rc_flags (s\<lparr>rssi_adc_counts := c\<rparr>) = r_raw_rc_flags s"
  "r_raw_rc_flags (s\<lparr>frame_drops := d\<rparr>) = r_raw_rc_flags s"
  "r_raw_rc_flags (s\<lparr>ppm_last_valid_decode := t\<rparr>) = r_raw_rc_flags s"
  "r_raw_rc_flags (s\<lparr>rc_channels_timestamp_received := t\<rparr>) = r_raw_rc_flags s"
  "r_raw_rc_flags (s\<lparr>rc_channels_timestamp_valid := t\<rparr>) = r_raw_rc_flags s"
  "r_raw_rc_flags (s\<lparr>rc_value_override := v\<rparr>) = r_raw_rc_flags s"
  by (simp_all add: io_alias_defs)

lemma io_wf_write_raw [simp]: "io_wf s \<Longrightarrow> io_wf (write_raw_values vs s)"
  by (simp add: io_wf_def write_raw_values_def overlay_def)

lemma io_wf_raw_count [simp]: "io_wf s \<Longrightarrow> io_wf (set_raw_count n s)"
  by (simp add: set_raw_count_def)

text \<open>The R/C input never touches the arming register, and the flags only through \<open>status_or\<close> and
  \<open>status_clear\<close>. Both are carried by one predicate, closed under the updates the input makes.\<close>

definition rc_step :: "io \<Rightarrow> io \<Rightarrow> bool" where
  "rc_step s t \<longleftrightarrow> io_wf t \<and> r_setup_arming t = r_setup_arming s \<and>
     rc_channels_timestamp_received t = rc_channels_timestamp_received s"

lemma rc_step_refl [simp]: "rc_step s s \<longleftrightarrow> io_wf s"
  by (simp add: rc_step_def)

lemma rc_step_upd [simp]:
  "rc_step s t \<Longrightarrow> rc_step s (status_or i m t)"
  "rc_step s t \<Longrightarrow> rc_step s (status_clear i m t)"
  "rc_step s t \<Longrightarrow> rc_step s (raw_rc_or i m t)"
  "rc_step s t \<Longrightarrow> rc_step s (raw_rc_clear i m t)"
  "rc_step s t \<Longrightarrow> rc_step s (set_raw_rc i m t)"
  "rc_step s t \<Longrightarrow> rc_step s (set_rc i m t)"
  "rc_step s t \<Longrightarrow> rc_step s (set_raw_count n t)"
  "rc_step s t \<Longrightarrow> rc_step s (write_raw_values vs t)"
  "rc_step s t \<Longrightarrow> i \<noteq> 1 \<Longrightarrow> rc_step s (setup_clear i m t)"
  by (simp_all add: rc_step_def)
    (simp_all add: io_set_defs r_setup_arming_def set_raw_count_def write_raw_values_def)

lemma rc_step_fields [simp]:
  "rc_step s (t\<lparr>rssi := r\<rparr>) = rc_step s t"
  "rc_step s (t\<lparr>rssi_adc_counts := c\<rparr>) = rc_step s t"
  "rc_step s (t\<lparr>frame_drops := d\<rparr>) = rc_step s t"
  "rc_step s (t\<lparr>ppm_last_valid_decode := u\<rparr>) = rc_step s t"
  "rc_step s (t\<lparr>rc_value_override := v\<rparr>) = rc_step s t"
  by (simp_all add: rc_step_def)

lemma rc_step_gather_parts:
  "rc_step s t \<Longrightarrow> rc_step s (gather_rssi e t)"
  "rc_step s t \<Longrightarrow> rc_step s (snd (gather_sbus e t))"
  "rc_step s t \<Longrightarrow> rc_step s (snd (ppm_input e t))"
  "rc_step s t \<Longrightarrow> rc_step s (snd (dsm_frame e t))"
  by (simp_all add: gather_rssi_def gather_sbus_def ppm_input_def dsm_frame_def Let_def split: option.split)

lemma rc_step_decode: "rc_step s t \<Longrightarrow> rc_step s (snd (decode_bytes d i bs lst t))"
  by (induction d i bs lst t rule: decode_bytes.induct) (auto split: option.splits)

lemma rc_step_serial:
  "rc_step s t \<Longrightarrow> rc_step s (snd (st24_frame e t))"
  "rc_step s t \<Longrightarrow> rc_step s (snd (sumd_frame e t))"
  using rc_step_decode [of s t "st24 e" 0 "dsm_bytes e" None] rc_step_decode [of s t "sumd e" 0 "dsm_bytes e" None]
  by (auto simp: st24_frame_def sumd_frame_def Let_def split: option.split prod.split)

lemma rc_step_gather_ppm: "rc_step s t \<Longrightarrow> rc_step s (snd (gather_ppm e t))"
  using rc_step_gather_parts(3) [of s t e] by (auto simp: gather_ppm_def split: prod.split bool.split)

lemma rc_step_gather_dsm: "rc_step s t \<Longrightarrow> rc_step s (snd (gather_dsm e t))"
  using rc_step_gather_parts(4) [of s t e] rc_step_serial(1) [of s "snd (dsm_frame e t)" e]
    rc_step_serial(2) [of s "snd (st24_frame e (snd (dsm_frame e t)))" e]
  by (auto simp: gather_dsm_def dsm_port_input_def Let_def split: prod.split)

lemma rc_step_gather_frame: "io_wf s \<Longrightarrow> rc_step s (snd (gather_frame e s))"
proof -
  assume "io_wf s"
  let ?a = "gather_sbus e (gather_rssi e s)" and ?b = "gather_ppm e (snd (gather_sbus e (gather_rssi e s)))"
  have "rc_step s (snd ?a)"
    using \<open>io_wf s\<close> by (intro rc_step_gather_parts) simp
  then have "rc_step s (snd ?b)"
    by (rule rc_step_gather_ppm)
  then have "rc_step s (snd (gather_dsm e (snd ?b)))"
    by (rule rc_step_gather_dsm)
  then show ?thesis
    by (auto simp: gather_frame_def Let_def split: prod.split)
qed

lemma rc_step_map_channel: "rc_step s (fst p) \<Longrightarrow> rc_step s (fst (map_channel u i p))"
  by (cases p) (auto simp: map_channel_def Let_def)

lemma rc_step_map_channels: "rc_step s (fst p) \<Longrightarrow> rc_step s (fst (fold (map_channel u) is p))"
  by (induction "is" arbitrary: p) (auto simp: rc_step_map_channel)

lemma rc_step_zero: "rc_step s t \<Longrightarrow> rc_step s (fold (zero_unassigned a) is t)"
  by (induction "is" arbitrary: t) (auto simp: zero_unassigned_def)

lemma rc_step_tail [simp]:
  "rc_step s t \<Longrightarrow> rc_step s (handle_rc_loss e t)"
  "rc_step s t \<Longrightarrow> rc_step s (check_override t)"
  by (simp_all add: handle_rc_loss_def check_override_def Let_def)

lemma process_frame_step:
  assumes "io_wf s"
  shows "io_wf (process_frame e s)" "r_setup_arming (process_frame e s) = r_setup_arming s"
    "rc_channels_timestamp_received (process_frame e s) = t_frame e"
proof -
  let ?s1 = "s\<lparr>rc_channels_timestamp_received := t_frame e, rc_channels_timestamp_valid := t_frame e\<rparr>"
  have "rc_step ?s1 (process_frame e s)"
    using assms rc_step_map_channels [of ?s1 "(?s1, 0)" "cast_undef e" "[0..<unat (r_raw_rc_count ?s1)]"]
    by (cases "fold (map_channel (cast_undef e)) [0..<unat (r_raw_rc_count ?s1)] (?s1, 0)")
      (simp add: process_frame_def Let_def rc_step_zero)
  then show "io_wf (process_frame e s)" "r_setup_arming (process_frame e s) = r_setup_arming s"
      "rc_channels_timestamp_received (process_frame e s) = t_frame e"
    by (simp_all add: rc_step_def)
qed

lemma controls_tick_eq:
  "controls_tick e s = check_override (handle_rc_loss e
     (if fst (gather_frame e s) then process_frame e (snd (gather_frame e s)) else snd (gather_frame e s)))"
  by (simp add: controls_tick_def case_prod_beta)

lemma controls_tick_keeps:
  assumes "io_wf s"
  shows "io_wf (controls_tick e s)" "r_setup_arming (controls_tick e s) = r_setup_arming s"
proof -
  let ?g = "snd (gather_frame e s)"
  have g: "rc_step s ?g"
    by (rule rc_step_gather_frame [OF assms])
  let ?m = "if fst (gather_frame e s) then process_frame e ?g else ?g"
  have m: "io_wf ?m" "r_setup_arming ?m = r_setup_arming s"
    using g process_frame_step [of ?g e] by (simp_all add: rc_step_def)
  have "rc_step ?m (controls_tick e s)"
    unfolding controls_tick_eq using m(1) by (intro rc_step_tail) (simp only: rc_step_refl)
  with m show "io_wf (controls_tick e s)" "r_setup_arming (controls_tick e s) = r_setup_arming s"
    by (simp_all add: rc_step_def)
qed

lemma raw_flags_upd [simp]:
  "r_raw_rc_flags (status_or i m s) = r_raw_rc_flags s"
  "r_raw_rc_flags (status_clear i m s) = r_raw_rc_flags s"
  "r_raw_rc_flags (set_rc i m s) = r_raw_rc_flags s"
  "io_wf s \<Longrightarrow> r_raw_rc_flags (set_raw_count n s) = r_raw_rc_flags s"
  "io_wf s \<Longrightarrow> r_raw_rc_flags (raw_rc_or (Suc 0) m s) = r_raw_rc_flags s OR m"
  "io_wf s \<Longrightarrow> r_raw_rc_flags (raw_rc_clear (Suc 0) m s) = r_raw_rc_flags s AND NOT m"
  by (simp_all add: io_alias_defs io_set_defs io_wf_def set_raw_count_def)

lemma flags_rc_upd [simp]:
  "r_status_flags (set_raw_rc i m s) = r_status_flags s"
  "r_status_flags (raw_rc_clear i m s) = r_status_flags s"
  "r_status_flags (raw_rc_or i m s) = r_status_flags s"
  "r_status_flags (set_rc i m s) = r_status_flags s"
  "r_status_flags (set_raw_count n s) = r_status_flags s"
  by (simp_all add: io_alias_defs io_set_defs set_raw_count_def)

section \<open>Scaling\<close>

definition rc_bounded :: "u16 \<Rightarrow> bool" where
  "rc_bounded v \<longleftrightarrow> \<bar>sint v\<bar> \<le> 10000"

lemma sint_of_int_fits:
  "- 32768 \<le> x \<Longrightarrow> x \<le> 32767 \<Longrightarrow> sint (of_int x :: u16) = x"
  by (simp add: sint_sbintrunc' signed_take_bit_int_eq_self)

lemma rc_bounded_neg: "rc_bounded v \<Longrightarrow> rc_bounded (- v)"
proof -
  assume v: "rc_bounded v"
  have "- v = of_int (- sint v)"
    by simp
  then show ?thesis
    using v sint_of_int_fits [of "- sint v"] unfolding rc_bounded_def by simp
qed

lemma scale_ratio_bounded:
  assumes "0 < den" and "\<bar>num\<bar> \<le> den"
  shows "rc_bounded (scale_ratio undef num den)"
proof -
  have "\<bar>of_int num / of_int den :: rat\<bar> \<le> of_int 1"
    using assms by (simp add: divide_le_eq flip: of_int_abs)
  then have r: "\<bar>f32_div (of_int num) (of_int den)\<bar> \<le> of_int 1"
    unfolding f32_div_def by (rule f32.bound) simp
  have "\<bar>10000 * f32_div (of_int num) (of_int den)\<bar> \<le> of_int 10000"
    using r by (simp add: abs_mult)
  then have "\<bar>f32_mult 10000 (f32_div (of_int num) (of_int den))\<bar> \<le> of_int 10000"
    unfolding f32_mult_def by (rule f32.bound) simp
  then have "\<bar>f32_trunc (f32_mult 10000 (f32_div (of_int num) (of_int den)))\<bar> \<le> 10000"
    by (rule f32_trunc_bound)
  with assms(1) show ?thesis
    by (simp add: scale_ratio_def rc_bounded_def Let_def sint_of_int_fits abs_le_iff)
qed

lemma rc_scale_bounded:
  assumes "lo \<le> raw" and "raw \<le> hi"
  shows "rc_bounded (rc_scale undef lo center hi dz raw)"
proof -
  have "uint lo \<le> uint raw" "uint raw \<le> uint hi"
    using assms by (simp_all add: word_le_def)
  then show ?thesis
    by (simp add: rc_scale_def scale_ratio_bounded) (simp add: rc_bounded_def)
qed

lemma clamp_raw_range: "lo \<le> hi \<Longrightarrow> lo \<le> clamp_raw lo hi raw \<and> clamp_raw lo hi raw \<le> hi"
  by (simp add: clamp_raw_def Let_def not_less)

section \<open>Mapping\<close>

text \<open>
  The state of the mapping loop after the first \<open>n\<close> channels: the configuration is untouched, the
  assigned set is what the enabled channels below \<open>n\<close> ask for, and assigned values are in range.
\<close>

definition mapping_inv :: "io \<Rightarrow> nat \<Rightarrow> io \<times> u32 \<Rightarrow> bool" where
  "mapping_inv s0 n p \<longleftrightarrow> io_wf (fst p) \<and>
     r_page_rc_input_config (fst p) = r_page_rc_input_config s0 \<and>
     (\<forall>i. bit (snd p) i \<longleftrightarrow> i < 8 \<and> (\<exists>j<n. rc_enabled s0 j \<and> rc_conf s0 j 4 = of_nat i)) \<and>
     (\<forall>i<8. bit (snd p) i \<longrightarrow> rc_bounded (r_page_rc_input (fst p) ! Suc i))"

lemma small_u16: "(m :: u16) < 8 \<Longrightarrow> unat m < 8"
  by (simp add: word_less_nat_alt)

lemma u16_of_nat_eq: "i < 8 \<Longrightarrow> m = (of_nat i :: u16) \<longleftrightarrow> unat m = i"
  by (auto simp: word_unat_eq_iff unsigned_of_nat take_bit_nat_eq_self)

lemma map_channel_disabled: "\<not> rc_enabled (fst p) n \<Longrightarrow> map_channel u n p = p"
  by (cases p) (simp add: map_channel_def rc_enabled_def)

lemma map_channel_unmapped:
  assumes "\<not> rc_conf (fst p) n 4 < 8"
  shows "\<exists>v. map_channel u n p = ((fst p)\<lparr>rc_value_override := v\<rparr>, snd p) \<or> map_channel u n p = p"
  using assms by (cases p) (auto simp: map_channel_def Let_def)

lemma map_channel_mapped:
  assumes "rc_enabled (fst p) n" and "rc_conf (fst p) n 4 < 8"
    and "rc_conf (fst p) n 0 \<le> rc_conf (fst p) n 2"
  shows "\<exists>v t. rc_bounded v \<and> (t = fst p \<or> (\<exists>m. t = raw_rc_clear 1 m (fst p))) \<and>
     map_channel u n p = (set_rc (Suc (unat (rc_conf (fst p) n 4))) v t,
       snd p OR BIT (unat (rc_conf (fst p) n 4)))"
proof -
  obtain s a where p: "p = (s, a)"
    by fastforce
  let ?raw = "clamp_raw (rc_conf s n 0) (rc_conf s n 2) (r_page_raw_rc_input s ! (6 + n))"
  let ?sc = "rc_scale u (rc_conf s n 0) (rc_conf s n 1) (rc_conf s n 2) (rc_conf s n 3) ?raw"
  have range: "rc_conf s n 0 \<le> ?raw" "?raw \<le> rc_conf s n 2"
    using clamp_raw_range assms(3) by (auto simp: p)
  then have b: "rc_bounded ?sc" and thr: "\<not> throttle_failsafe thr (rc_conf s n 0) (rc_conf s n 2) ?raw" for thr
    by (auto simp: rc_scale_bounded throttle_failsafe_def)
  have "\<exists>v. rc_bounded v \<and> (\<exists>t. (t = s \<or> (\<exists>m. t = raw_rc_clear 1 m s)) \<and>
      map_channel u n (s, a) = (set_rc (Suc (unat (rc_conf s n 4))) v t, a OR BIT (unat (rc_conf s n 4))))"
    using assms(1,2) b thr
    by (simp add: map_channel_def Let_def p rc_enabled_def) (auto intro: rc_bounded_neg)
  then show ?thesis
    by (auto simp: p)
qed

lemma rc_conf_cong:
  "r_page_rc_input_config t = r_page_rc_input_config s \<Longrightarrow> rc_conf t i k = rc_conf s i k"
  by (simp add: rc_conf_def)

lemma mapping_inv_frame:
  assumes "mapping_inv s0 n p" "snd q = snd p" "io_wf (fst q)"
    "r_page_rc_input_config (fst q) = r_page_rc_input_config (fst p)"
    "r_page_rc_input (fst q) = r_page_rc_input (fst p)"
    and "rc_enabled s0 n \<Longrightarrow> \<not> rc_conf s0 n 4 < 8"
  shows "mapping_inv s0 (Suc n) q"
proof -
  have "rc_conf s0 n 4 \<noteq> of_nat i" if "rc_enabled s0 n" "i < 8" for i
    using assms(6) [OF that(1)] that(2) small_u16 by (auto simp: u16_of_nat_eq word_less_nat_alt)
  with assms(1-5) show ?thesis
    by (auto simp: mapping_inv_def less_Suc_eq)
qed

lemma mapping_inv_step:
  assumes inv: "mapping_inv s0 n p" and sane: "rc_enabled s0 n \<Longrightarrow> rc_conf s0 n 0 \<le> rc_conf s0 n 2"
  shows "mapping_inv s0 (Suc n) (map_channel u n p)"
proof -
  have conf: "rc_conf (fst p) n k = rc_conf s0 n k" for k
    using inv by (intro rc_conf_cong) (simp add: mapping_inv_def)
  have en: "rc_enabled (fst p) n = rc_enabled s0 n"
    by (simp add: rc_enabled_def conf)
  have wf: "io_wf (fst p)"
    using inv by (simp add: mapping_inv_def)
  let ?m = "unat (rc_conf s0 n 4)"
  show ?thesis
  proof (cases "rc_enabled s0 n \<and> rc_conf s0 n 4 < 8")
    case True
    then obtain v t where v: "rc_bounded v" "t = fst p \<or> (\<exists>m. t = raw_rc_clear 1 m (fst p))"
      "map_channel u n p = (set_rc (Suc ?m) v t, snd p OR BIT ?m)"
      using map_channel_mapped [of p n u] sane conf en by auto
    have tw: "io_wf t"
      using v(2) wf by auto
    have t: "r_page_rc_input t = r_page_rc_input (fst p)"
        "r_page_rc_input_config t = r_page_rc_input_config (fst p)"
      using v(2) by (auto simp: raw_rc_clear_def set_raw_rc_def)
    have m: "?m < 8"
      using True small_u16 by simp
    have bits: "bit (snd p OR BIT ?m :: u32) i \<longleftrightarrow> bit (snd p) i \<or> i = ?m" for i
      using m by auto
    have len: "length (r_page_rc_input (fst p)) = 10"
      using wf by (simp add: io_wf_def)
    show ?thesis
      using inv tw t True v(1) m len bits
      by (auto simp: mapping_inv_def v(3) set_rc_def io_wf_def nth_list_update less_Suc_eq u16_of_nat_eq)
  next
    case False
    consider "map_channel u n p = p" | w where "map_channel u n p = ((fst p)\<lparr>rc_value_override := w\<rparr>, snd p)"
      using False map_channel_disabled [of p n u] map_channel_unmapped [of p n u] conf en by auto
    then show ?thesis
      by cases (use inv wf False in \<open>auto intro!: mapping_inv_frame [OF inv]\<close>)
  qed
qed

lemma mapping_inv_fold:
  assumes "io_wf s" and "\<forall>j<n. rc_enabled s j \<longrightarrow> rc_conf s j 0 \<le> rc_conf s j 2"
  shows "mapping_inv s n (fold (map_channel u) [0..<n] (s, 0))"
  using assms(2)
proof (induction n)
  case 0
  with assms(1) show ?case
    by (simp add: mapping_inv_def)
next
  case (Suc n)
  then show ?case
    by (simp add: mapping_inv_step)
qed

lemma fold_zero_unassigned:
  "n \<le> 8 \<Longrightarrow> io_wf s \<Longrightarrow>
   io_wf (fold (zero_unassigned a) [0..<n] s) \<and>
   (\<forall>i<8. r_page_rc_input (fold (zero_unassigned a) [0..<n] s) ! Suc i =
     (if i < n \<and> \<not> bit a i then 0 else r_page_rc_input s ! Suc i))"
proof (induction n)
  case (Suc n)
  let ?f = "fold (zero_unassigned a) [0..<n] s"
  have "length (r_page_rc_input ?f) = 10"
    using Suc by (simp add: io_wf_def)
  with Suc show ?case
    by (auto simp: zero_unassigned_def set_rc_def io_wf_def nth_list_update less_Suc_eq)
qed simp

section \<open>Results\<close>

text \<open>
  C8. Loss of the receiver: when no frame arrives and none has for more than 200 ms, a tick clears
  the R/C valid flag, the override flag and every input-source flag (so that another receiver
  type can be detected), marks all channels invalid, reports no channels and raises the alarm.
\<close>

theorem rc_loss:
  assumes "io_wf s" and "\<not> fst (gather_frame e s)"
    and "t_check e - rc_channels_timestamp_received s > 200000"
  shows "let t = controls_tick e s in
     \<not> tst (r_status_flags t) (PX4IO_P_STATUS_FLAGS_RC_OK OR PX4IO_P_STATUS_FLAGS_OVERRIDE OR rc_source_flags) \<and>
     \<not> tst (r_raw_rc_flags t) PX4IO_P_RAW_RC_FLAGS_RC_OK \<and>
     r_rc_valid t = 0 \<and> r_raw_rc_count t = 0 \<and>
     tst (r_status_alarms t) PX4IO_P_STATUS_ALARMS_RC_LOST"
proof -
  let ?g = "snd (gather_frame e s)" and ?h = "handle_rc_loss e (snd (gather_frame e s))"
  have g: "io_wf ?g" "rc_input_lost e ?g"
    using rc_step_gather_frame [OF assms(1), of e] assms(3) by (simp_all add: rc_step_def rc_input_lost_def)
  have tick: "controls_tick e s = check_override ?h"
    using assms(2) by (simp add: controls_tick_eq)
  have h: "io_wf ?h" "\<not> bit (r_status_flags ?h) 2"
      "\<not> tst (r_status_flags ?h) rc_source_flags"
    using g by (simp_all add: handle_rc_loss_def Let_def)
  have "r_rc_valid ?h = 0 \<and> r_raw_rc_count ?h = 0 \<and> tst (r_status_alarms ?h) PX4IO_P_STATUS_ALARMS_RC_LOST \<and>
      \<not> tst (r_raw_rc_flags ?h) PX4IO_P_RAW_RC_FLAGS_RC_OK"
    using g by (simp add: handle_rc_loss_def Let_def)
      (simp add: io_alias_defs io_set_defs set_raw_count_def io_wf_def)
  moreover have "check_override ?h = status_clear PX4IO_P_STATUS_FLAGS PX4IO_P_STATUS_FLAGS_OVERRIDE ?h"
    using h by (simp add: check_override_def override_allowed_def)
  moreover have "r_rc_valid (status_clear PX4IO_P_STATUS_FLAGS m ?h) = r_rc_valid ?h"
      "r_raw_rc_count (status_clear PX4IO_P_STATUS_FLAGS m ?h) = r_raw_rc_count ?h"
      "r_status_alarms (status_clear PX4IO_P_STATUS_FLAGS m ?h) = r_status_alarms ?h" for m
    by (simp_all add: io_alias_defs io_set_defs)
  ultimately show ?thesis
    using h by (simp add: tick Let_def)
qed

definition demo_env :: rc_env where
  "demo_env = \<lparr>rssi_adc = 0, sbus = None, dsm = None, dsm_bytes = [], st24 = (\<lambda>_ _. None),
     sumd = (\<lambda>_ _. None), ppm_decoded_channels = 0, ppm_buffer = (\<lambda>_. 0), ppm_frame_length = 0,
     t_ppm = 900000, t_frame = 900000, t_check = 900000, cast_undef = 0\<rparr>"

lemma demo_env_facts [simp]:
  "sbus demo_env = None" "dsm demo_env = None" "dsm_bytes demo_env = []" "t_ppm demo_env = 900000"
  "t_check demo_env = 900000"
  by (simp_all add: demo_env_def)

lemma gather_demo: "ppm_last_valid_decode s = 0 \<Longrightarrow> \<not> fst (gather_frame demo_env s)"
proof -
  assume "ppm_last_valid_decode s = 0"
  then have "ppm_last_valid_decode (gather_rssi demo_env s) = 0"
    by (simp add: gather_rssi_def Let_def)
  then show ?thesis
    by (simp add: gather_frame_def gather_sbus_def gather_ppm_def ppm_input_def gather_dsm_def dsm_port_input_def
        dsm_frame_def st24_frame_def sumd_frame_def Let_def)
qed

theorem rc_loss_witness:
  "r_rc_valid (controls_tick demo_env (io_init\<lparr>r_page_rc_input := replicate 10 7\<rparr>)) = 0"
proof -
  let ?s = "io_init\<lparr>r_page_rc_input := replicate 10 7\<rparr>"
  have "io_wf ?s" "\<not> fst (gather_frame demo_env ?s)"
      "t_check demo_env - rc_channels_timestamp_received ?s > 200000"
    using gather_demo [of ?s] by (simp_all add: io_init_def io_wf_def)
  from rc_loss [OF this] show ?thesis
    by (simp add: Let_def)
qed

text \<open>
  Manual override, exactly: after a tick the override flag is set if and only if override is
  enabled, R/C input is valid and not in failsafe, R/C handling is not disabled and a mixer is
  loaded, and either the override channel is below the threshold or the FMU is gone, immediate
  override is configured and termination failsafe is not.
\<close>

lemma override_exact:
  assumes "io_wf s"
  shows "let t = controls_tick e s in
     tst (r_status_flags t) PX4IO_P_STATUS_FLAGS_OVERRIDE \<longleftrightarrow>
     tst (r_setup_arming t) PX4IO_P_SETUP_ARMING_MANUAL_OVERRIDE_OK \<and>
     tst (r_status_flags t) PX4IO_P_STATUS_FLAGS_RC_OK \<and>
     \<not> tst (r_raw_rc_flags t) PX4IO_P_RAW_RC_FLAGS_FAILSAFE \<and>
     \<not> tst (r_setup_arming t) PX4IO_P_SETUP_ARMING_RC_HANDLING_DISABLED \<and>
     tst (r_status_flags t) PX4IO_P_STATUS_FLAGS_MIXER_OK \<and>
     (sint (rc_value_override t) < - 8000 \<or>
      \<not> tst (r_status_flags t) PX4IO_P_STATUS_FLAGS_FMU_OK \<and>
      tst (r_setup_arming t) PX4IO_P_SETUP_ARMING_OVERRIDE_IMMEDIATE \<and>
      \<not> tst (r_setup_arming t) PX4IO_P_SETUP_ARMING_TERMINATION_FAILSAFE)"
proof -
  let ?g = "snd (gather_frame e s)"
  let ?h = "handle_rc_loss e (if fst (gather_frame e s) then process_frame e ?g else ?g)"
  have "io_wf ?g"
    using rc_step_gather_frame [OF assms, of e] by (simp add: rc_step_def)
  then have "io_wf (if fst (gather_frame e s) then process_frame e ?g else ?g)"
    using process_frame_step(1) by simp
  then have h: "io_wf ?h"
    using rc_step_tail(1) rc_step_def rc_step_refl by blast
  have ov: "rc_value_override (check_override ?h) = rc_value_override ?h"
    by (simp add: check_override_def io_set_defs)
  show ?thesis
    unfolding controls_tick_eq Let_def ov using h
    by (auto simp: check_override_def override_allowed_def override_wanted_def)
qed

text \<open>
  C7. A received frame: provided each enabled channel among those received has minimum <= maximum, a
  processed frame leaves every mapped control within -10000..10000 whatever the raw pulses (no
  division by zero, no overflow of the 16-bit value), the validity mask is exactly the set of
  controls an enabled channel is assigned to, and every other control is zero.
\<close>

theorem rc_frame_mapped:
  assumes "io_wf s"
    and "\<forall>j < unat (r_raw_rc_count s). rc_enabled s j \<longrightarrow>
           rc_conf s j PX4IO_P_RC_CONFIG_MIN \<le> rc_conf s j PX4IO_P_RC_CONFIG_MAX"
    and "i < PX4IO_CONTROL_CHANNELS"
  shows "let t = process_frame e s; v = r_page_rc_input t ! (PX4IO_P_RC_BASE + i) in
     rc_bounded v \<and>
     (bit (r_rc_valid t) i \<longleftrightarrow>
        (\<exists>j < unat (r_raw_rc_count s). rc_enabled s j \<and> rc_conf s j PX4IO_P_RC_CONFIG_ASSIGNMENT = of_nat i)) \<and>
     (\<not> bit (r_rc_valid t) i \<longrightarrow> v = 0)"
proof -
  let ?s1 = "s\<lparr>rc_channels_timestamp_received := t_frame e, rc_channels_timestamp_valid := t_frame e\<rparr>"
  let ?n = "unat (r_raw_rc_count s)"
  let ?p = "fold (map_channel (cast_undef e)) [0..<?n] (?s1, 0)"
  let ?z = "fold (zero_unassigned (snd ?p)) [0..<8] (fst ?p)"
  have same: "rc_conf ?s1 j k = rc_conf s j k" "rc_enabled ?s1 j = rc_enabled s j" for j k
    by (simp_all add: rc_conf_def rc_enabled_def)
  have inv: "mapping_inv ?s1 ?n ?p"
    using assms by (intro mapping_inv_fold) (simp_all add: same)
  have z: "io_wf ?z" "r_page_rc_input ?z ! Suc i = (if bit (snd ?p) i then r_page_rc_input (fst ?p) ! Suc i else 0)"
    using inv fold_zero_unassigned [of 8 "fst ?p" "snd ?p"] assms(3) by (auto simp: mapping_inv_def)
  have count: "r_raw_rc_count ?s1 = r_raw_rc_count s"
    by (simp add: r_raw_rc_count_def)
  have page: "r_page_rc_input (process_frame e s) = (r_page_rc_input ?z)[0 := ucast (snd ?p)]"
    by (cases ?p) (simp add: process_frame_def Let_def count set_rc_def, simp add: io_set_defs)
  have "r_rc_valid (process_frame e s) = ucast (snd ?p)"
      "r_page_rc_input (process_frame e s) ! Suc i = r_page_rc_input ?z ! Suc i"
    using z(1) by (simp_all add: r_rc_valid_def page io_wf_def)
  with inv z(2) assms(3) show ?thesis
    by (auto simp: Let_def mapping_inv_def same bit_unsigned_iff rc_bounded_def)
qed

definition demo_frame :: "u16 \<Rightarrow> io" where
  "demo_frame raw = (demo_rc (BIT 0))\<lparr>r_page_raw_rc_input := [1, 0, 0, 0, 0, 0, raw] @ replicate 18 0\<rparr>"

lemma demo_frame_facts:
  "io_wf (demo_frame raw)" "r_raw_rc_count (demo_frame raw) = 1" "rc_conf (demo_frame raw) 0 0 = 1000"
  "rc_conf (demo_frame raw) 0 2 = 2000" "rc_conf (demo_frame raw) 0 4 = 0" "rc_enabled (demo_frame raw) 0"
  by (simp_all add: demo_frame_def demo_rc_def io_init_def io_wf_def io_alias_defs rc_conf_def rc_enabled_def)

theorem rc_frame_mapped_witness:
  "bit (r_rc_valid (process_frame demo_env (demo_frame 9000))) 0"
  using rc_frame_mapped [of "demo_frame 9000" 0 demo_env] demo_frame_facts [of 9000]
  by (simp add: Let_def)

text \<open>
  The throttle failsafe test comes after the raw value has been clamped to the calibrated range:
  for a channel with minimum <= maximum, processing the throttle channel with a failsafe threshold
  configured always clears the failsafe flag, even for a raw pulse below the minimum and below the
  threshold, which the test is there to detect.
\<close>

lemma throttle_failsafe_undetected:
  assumes "io_wf s" and "rc_enabled s i" and "rc_conf s i PX4IO_P_RC_CONFIG_ASSIGNMENT = 3"
    and "rc_conf s i PX4IO_P_RC_CONFIG_MIN \<le> rc_conf s i PX4IO_P_RC_CONFIG_MAX"
    and "r_page_setup s ! PX4IO_P_SETUP_RC_THR_FAILSAFE_US \<noteq> 0"
  shows "\<not> tst (r_raw_rc_flags (fst (map_channel u i (s, a)))) PX4IO_P_RAW_RC_FLAGS_FAILSAFE"
proof -
  let ?lo = "rc_conf s i PX4IO_P_RC_CONFIG_MIN" and ?hi = "rc_conf s i PX4IO_P_RC_CONFIG_MAX"
  have "\<not> throttle_failsafe thr ?lo ?hi (clamp_raw ?lo ?hi raw)" for thr raw
    using clamp_raw_range [OF assms(4), of raw] by (auto simp: throttle_failsafe_def)
  with assms show ?thesis
    by (simp add: map_channel_def rc_enabled_def Let_def)
qed

text \<open>
  Defaults: after \<^verbatim>\<open>controls_init\<close> every one of the 18 channels is enabled, calibrated to
  1000..1500..2000 with a dead zone of 30 and mapped one to one, so that the first frame meets
  the hypotheses of the mapping theorem.
\<close>

lemma init_channel_conf:
  assumes "io_wf s" and "i < 18" and "j < 18" and "k < 6"
  shows "rc_conf (init_channel i s) j k =
     (if j = i then [1000, 1500, 2000, 30, of_nat i, BIT 0] ! k else rc_conf s j k)"
proof -
  have "k \<in> {0, 1, 2, 3, 4, 5}"
    using assms(4) by auto
  then show ?thesis
    using assms by (auto simp: init_channel_def rc_conf_set)
qed

lemma fold_init_channel:
  assumes "io_wf s" and "n \<le> 18"
  shows "io_wf (fold init_channel [0..<n] s) \<and>
     (\<forall>j<n. \<forall>k<6. rc_conf (fold init_channel [0..<n] s) j k = [1000, 1500, 2000, 30, of_nat j, BIT 0] ! k)"
  using assms(2)
proof (induction n)
  case (Suc n)
  let ?f = "fold init_channel [0..<n] s"
  have "io_wf ?f"
    using Suc by simp
  with Suc show ?case
    by (auto simp: init_channel_conf less_Suc_eq) (simp_all add: init_channel_def)
qed (simp add: assms(1))


lemma controls_init_sane:
  assumes "io_wf s"
  shows "io_wf (controls_init s)"
    and "\<forall>j<18. rc_enabled (controls_init s) j \<and>
           rc_conf (controls_init s) j PX4IO_P_RC_CONFIG_MIN \<le> rc_conf (controls_init s) j PX4IO_P_RC_CONFIG_MAX"
  using fold_init_channel [of "(set_raw_count 0 s)\<lparr>rc_channels_timestamp_received := 0,
    rc_channels_timestamp_valid := 0\<rparr>" 18] assms
  by (simp_all add: controls_init_def rc_enabled_def)

end
