(* ===== verification/IO_Main.thy ===== *)
theory IO_Main
  imports IO_Safety IO_Serial IO_Mixer IO_Controls
begin

text \<open>
  The main program of the PX4IO firmware (\<^verbatim>\<open>px4io.c\<close>, \<^verbatim>\<open>adc.c\<close>): start-up, the housekeeping of
  the main loop, the polled ADC conversion, and the firmware as a whole. The whole is a step
  relation: the main loop runs the mixer, the R/C input and the housekeeping, the interrupts run
  the packet handler and the button and failsafe timers. A step is one call of one of these
  functions; the interrupt handlers are taken to run between, not inside, the main-loop functions.
\<close>

section \<open>Housekeeping\<close>

record ring =
  ring_counter :: u32
  brightness :: u32
  brightness_counter :: u32
  on_counter :: u32

record io_loop =
  last_mem_time :: u64
  heartbeat :: bool
  led_ring :: ring
  msg_next_out :: u8
  dt :: rat
  last_debug_time :: u64
  last_heartbeat_time :: u64
  last_loop_time :: u64

definition NUM_MSG :: nat where [simp]: "NUM_MSG = 1"
definition max_brightness :: u32 where [simp]: "max_brightness = 118"

definition show_debug_messages :: "io_loop \<times> io \<Rightarrow> io_loop \<times> io" where
  "show_debug_messages = (\<lambda>(l, s).
     if msg_counter s \<noteq> last_msg_counter s then
       let n0 = msg_counter s - last_msg_counter s;
           n = (if n0 > of_nat NUM_MSG then of_nat NUM_MSG else n0)
       in (l\<lparr>msg_next_out := of_nat ((unat (msg_next_out l) + unat n) mod NUM_MSG)\<rparr>,
           s\<lparr>last_msg_counter := msg_counter s\<rparr>)
     else (l, s))"

definition both_armed :: "io \<Rightarrow> bool" where
  "both_armed s \<longleftrightarrow> tst (r_status_flags s) PX4IO_P_STATUS_FLAGS_SAFETY_OFF \<and>
     tst (r_setup_arming s) PX4IO_P_SETUP_ARMING_FMU_ARMED"

definition update_mem_usage :: "u64 \<Rightarrow> u32 \<Rightarrow> io_loop \<times> io \<Rightarrow> io_loop \<times> io" where
  "update_mem_usage now fordblks = (\<lambda>(l, s).
     if both_armed s then (l, s)
     else if now - last_mem_time l > 500 * 1000
     then (l\<lparr>last_mem_time := now\<rparr>, set_status PX4IO_P_STATUS_FREEMEM (ucast fordblks) s)
     else (l, s))"

definition heartbeat_blink :: "io_loop \<times> io \<Rightarrow> io_loop \<times> io" where
  "heartbeat_blink = (\<lambda>(l, s). (l\<lparr>heartbeat := \<not> heartbeat l\<rparr>, emit (LedBlue (\<not> heartbeat l)) s))"

text \<open>
  \<open>div0\<close> is what the processor's unsigned division returns for a zero divisor: on the first step of
  every brightness cycle the code divides by \<^verbatim>\<open>brightness_counter\<close>, which is zero there.
\<close>

definition udiv :: "(u32 \<Rightarrow> u32) \<Rightarrow> u32 \<Rightarrow> u32 \<Rightarrow> u32" where
  "udiv div0 a b = (if b = 0 then div0 a else a div b)"

definition ring_blink :: "(u32 \<Rightarrow> u32) \<Rightarrow> io_loop \<times> io \<Rightarrow> io_loop \<times> io" where
  "ring_blink div0 = (\<lambda>(l, s).
     if both_armed s then (l, emit (LedRing True) s)
     else
       let r = led_ring l in
       if brightness_counter r < max_brightness then
         let on = (udiv div0 (on_counter r * 100) (brightness_counter r) + 1 \<le>
                   brightness r * 100 div max_brightness + 1)
         in (l\<lparr>led_ring := r\<lparr>brightness_counter := brightness_counter r + 1,
                on_counter := (if on then on_counter r + 1 else on_counter r)\<rparr>\<rparr>,
             emit (LedRing (\<not> on)) s)
       else
         let c = (if ring_counter r \<ge> 62 then 0 else ring_counter r);
             n = (if c < 32 then c else 62 - c)
         in (l\<lparr>led_ring := \<lparr>ring_counter = c + 1, brightness = n * n div 8,
                brightness_counter = 0, on_counter = 0\<rparr>\<rparr>, s))"

definition check_reboot :: "u64 \<Rightarrow> io \<Rightarrow> io" where
  "check_reboot now s = (if reboot_time s \<noteq> 0 \<and> now > reboot_time s then emit SystemReset s else s)"

definition clamp_dt :: "rat \<Rightarrow> rat" where
  "clamp_dt x = (if x < f32 (1 / 10000) then f32 (1 / 10000) else if x > f32 (2 / 100) then f32 (2 / 100) else x)"

definition loop_timing :: "u64 \<Rightarrow> io_loop \<Rightarrow> io_loop" where
  "loop_timing now l =
     l\<lparr>dt := clamp_dt (f32_div (f32 (of_nat (unat (now - last_loop_time l)))) 1000000),
       last_loop_time := now\<rparr>"

definition blue_led :: "u64 \<Rightarrow> io_loop \<times> io \<Rightarrow> io_loop \<times> io" where
  "blue_led now = (\<lambda>(l, s).
     if r_page_setup s ! PX4IO_P_SETUP_THERMAL = PX4IO_THERMAL_IGNORE then
       let period = (if tst (r_status_flags s) PX4IO_P_STATUS_FLAGS_OVERRIDE then 250000 div 4 else 250000)
       in if now - last_heartbeat_time l > period
          then heartbeat_blink (l\<lparr>last_heartbeat_time := now\<rparr>, s) else (l, s)
     else if r_page_setup s ! PX4IO_P_SETUP_THERMAL < PX4IO_THERMAL_FULL
     then (l, emit (LedBlue False) s)
     else (l, emit (LedBlue True) s))"

definition debug_state :: "u64 \<Rightarrow> io_loop \<times> io \<Rightarrow> io_loop \<times> io" where
  "debug_state now = (\<lambda>(l, s).
     if now - last_debug_time l > 1000 * 1000
     then (l\<lparr>last_debug_time := now\<rparr>, isr_debug 1 s) else (l, s))"

definition housekeeping :: "(u32 \<Rightarrow> u32) \<Rightarrow> u64 \<Rightarrow> u32 \<Rightarrow> io_loop \<times> io \<Rightarrow> io_loop \<times> io" where
  "housekeeping div0 now fordblks ls =
     (let (l, s) = ring_blink div0 (update_mem_usage now fordblks (blue_led now ls))
      in debug_state now (show_debug_messages (l, check_reboot now s)))"

text \<open>One round of the main loop, with no interrupt in between.\<close>

definition main_round ::
    "mixer_lib \<Rightarrow> rc_env \<Rightarrow> (u32 \<Rightarrow> u32) \<Rightarrow> u64 \<Rightarrow> u32 \<Rightarrow> io_loop \<times> io \<Rightarrow> io_loop \<times> io" where
  "main_round lib e div0 now fordblks = (\<lambda>(l, s).
     housekeeping div0 now fordblks (loop_timing now l, controls_tick e (mixer_tick lib now s)))"

section \<open>Start-up\<close>

definition APP_SIZE_MAX :: nat where [simp]: "APP_SIZE_MAX = 0xf000"
definition APP_LOAD_ADDRESS :: nat where [simp]: "APP_LOAD_ADDRESS = 0x08001000"

definition fw_crc_sum :: "(u8 list \<Rightarrow> u32 \<Rightarrow> u32) \<Rightarrow> (nat \<Rightarrow> u32) \<Rightarrow> u32" where
  "fw_crc_sum crc32part mem =
     fold (\<lambda>i sum. crc32part (le_bytes32 (mem (APP_LOAD_ADDRESS + 4 * i))) sum) [0..<APP_SIZE_MAX div 4] 0"

definition calculate_fw_crc :: "(u8 list \<Rightarrow> u32 \<Rightarrow> u32) \<Rightarrow> (nat \<Rightarrow> u32) \<Rightarrow> io \<Rightarrow> io" where
  "calculate_fw_crc crc32part mem s =
     (let sum = fw_crc_sum crc32part mem
      in set_setup (PX4IO_P_SETUP_CRC + 1) (ucast (drop_bit 16 sum))
           (set_setup PX4IO_P_SETUP_CRC (ucast (sum AND 0xFFFF)) s))"

definition io_loop_init :: io_loop where
  "io_loop_init = \<lparr>last_mem_time = 0, heartbeat = False,
     led_ring = \<lparr>ring_counter = 0, brightness = max_brightness, brightness_counter = 0, on_counter = 0\<rparr>,
     msg_next_out = 0, dt = 0, last_debug_time = 0, last_heartbeat_time = 0, last_loop_time = 0\<rparr>"

datatype boot = NotEnoughMemory io | Running serial io_loop io

definition user_start :: "(u8 list \<Rightarrow> u32 \<Rightarrow> u32) \<Rightarrow> (nat \<Rightarrow> u32) \<Rightarrow> u32 \<Rightarrow> io \<Rightarrow> boot" where
  "user_start crc32part mem mxordblk s0 =
     (let s1 = s0\<lparr>rc_channels_timestamp_received := 0, rc_channels_timestamp_valid := 0,
                  fmu_data_received_time := 0\<rparr>;
          s2 = calculate_fw_crc crc32part mem s1;
          s3 = emit (EnableSbusOut False) (emit (LedRing False)
                 (emit (LedSafety False) (emit (LedBlue False) (emit (LedAmber False) s2))));
          s4 = set_status PX4IO_P_STATUS_FREEMEM (ucast mxordblk) (controls_init s3);
          s5 = s4\<lparr>pwm_limit := output_limit_init (pwm_limit s4)\<rparr>
      in if mxordblk < 550 then NotEnoughMemory s5 else Running serial_init io_loop_init s5)"

section \<open>ADC\<close>

text \<open>
  \<open>eoc i\<close> is the end-of-conversion bit at poll \<open>i\<close>, \<open>clk i\<close> the clock read after a poll that found
  it clear. The loop has no bound of its own: it returns as soon as one of the two ends it.
\<close>

partial_function (option) adc_wait :: "(nat \<Rightarrow> bool) \<Rightarrow> (nat \<Rightarrow> u64) \<Rightarrow> u64 \<Rightarrow> nat \<Rightarrow> bool option" where
  "adc_wait eoc clk start i =
     (if eoc i then Some True
      else if clk i - start > 100 then Some False
      else adc_wait eoc clk start (Suc i))"

definition adc_measure :: "(nat \<Rightarrow> bool) \<Rightarrow> (nat \<Rightarrow> u64) \<Rightarrow> u64 \<Rightarrow> u16 \<Rightarrow> u16 option" where
  "adc_measure eoc clk start dr =
     map_option (\<lambda>done. if done then dr else 0xffff) (adc_wait eoc clk start 0)"

section \<open>The firmware as a whole\<close>

text \<open>
  A state of the firmware is the serial link, the loop variables and the registers. Outside events are
  the DMA filling the packet buffer and the PPM decoder delivering a frame.
\<close>

type_synonym fw = "serial \<times> io_loop \<times> io"

inductive fw_step :: "fw \<Rightarrow> fw \<Rightarrow> bool" where
  dma_data: "packet_wf p \<Longrightarrow> fw_step (ser, l, s) (ser\<lparr>dma_packet := p\<rparr>, l, s)"
| uart_irq: "serial_interrupt h now sr residual (ser, s) = Some (ser', s') \<Longrightarrow>
    fw_step (ser, l, s) (ser', l, s')"
| dma_irq: "rx_dma_callback h now (ser, s) = Some (ser', s') \<Longrightarrow> fw_step (ser, l, s) (ser', l, s')"
| button: "fw_step (ser, l, s) (ser, l, safety_check_button pressed s)"
| blink: "fw_step (ser, l, s) (ser, l, failsafe_blink s)"
| ppm: "fw_step (ser, l, s) (ser, l, s\<lparr>ppm_last_valid_decode := t\<rparr>)"
| timing: "fw_step (ser, l, s) (ser, loop_timing now l, s)"
| mixer: "fw_step (ser, l, s) (ser, l, mixer_tick lib now s)"
| controls: "fw_step (ser, l, s) (ser, l, controls_tick e s)"
| house: "housekeeping div0 now fordblks (l, s) = (l', s') \<Longrightarrow> fw_step (ser, l, s) (ser, l', s')"

inductive_cases fw_stepE: "fw_step x y"

definition regs_of :: "fw \<Rightarrow> io" where
  "regs_of x = snd (snd x)"

text \<open>
  An invariant of the registers that the register file keeps (\<open>register_invariant\<close>), and that
  reads, the timers and the main-loop functions keep, holds for ever.
\<close>

locale firmware_invariant = register_invariant +
  assumes get: "I s \<Longrightarrow> I (snd (registers_get h pg off s))"
    and button: "I s \<Longrightarrow> I (safety_check_button pressed s)"
    and blink: "I s \<Longrightarrow> I (failsafe_blink s)"
    and ppm: "I s \<Longrightarrow> I (s\<lparr>ppm_last_valid_decode := t\<rparr>)"
    and mixer: "I s \<Longrightarrow> I (mixer_tick lib now s)"
    and controls: "I s \<Longrightarrow> I (controls_tick e s)"
    and house: "I s \<Longrightarrow> I (snd (housekeeping div0 now fordblks (l, s)))"
begin

lemma packet:
  assumes "I s" and "rx_handle_packet h now p s = Some (q, s')"
  shows "I s'"
proof -
  have "I (snd (registers_set h now pg off vs s))" "I (snd (registers_get h pg off s))" for pg off vs
    using assms(1) by (simp_all add: set_all get)
  note keep = this
  show ?thesis
    using assms(1) assms(2)
      keep(1) [of "page p" "offset p" "take (PKT_COUNT (p\<lparr>crc := 0\<rparr>)) (regs p)"]
      keep(2) [of "page p" "offset p"]
    by (auto simp: rx_handle_packet_def Let_def split: option.splits if_splits prod.splits)
qed

lemma dma: "I s \<Longrightarrow> rx_dma_callback h now (ser, s) = Some (ser', s') \<Longrightarrow> I s'"
  using packet by (auto simp: rx_dma_callback_def Let_def split: option.splits prod.splits)

lemma uart: "I s \<Longrightarrow> serial_interrupt h now sr residual (ser, s) = Some (ser', s') \<Longrightarrow> I s'"
  using dma by (auto simp: serial_interrupt_def Let_def split: if_splits)

lemma step: "fw_step x y \<Longrightarrow> I (regs_of x) \<Longrightarrow> I (regs_of y)"
proof (induction rule: fw_step.induct)
  case (house div0 now fordblks l s l' s' ser)
  then show ?case
    using firmware_invariant.house [OF firmware_invariant_axioms, of s div0 now fordblks l] by (simp add: regs_of_def)
qed (auto simp: regs_of_def button blink ppm mixer controls intro: uart dma)

lemma always: "fw_step\<^sup>*\<^sup>* x y \<Longrightarrow> I (regs_of x) \<Longrightarrow> I (regs_of y)"
  by (induction rule: rtranclp_induct) (auto intro: step)

end

text \<open>What the remaining steps keep.\<close>

lemma get_keeps:
  "io_wf s \<Longrightarrow> io_wf (snd (registers_get h pg off s))"
  "r_setup_arming (snd (registers_get h pg off s)) = r_setup_arming s"
proof -
  have refresh: "io_wf s \<Longrightarrow> io_wf (status_refresh h s)" "r_setup_arming (status_refresh h s) = r_setup_arming s"
    by (simp_all add: status_refresh_def Let_def)
  have scratch: "length xs = 32 \<Longrightarrow> io_wf s \<Longrightarrow> io_wf (s\<lparr>r_page_scratch := xs\<rparr>)"
      "r_setup_arming (s\<lparr>r_page_scratch := xs\<rparr>) = r_setup_arming s" for xs
    by (simp_all add: io_wf_def r_setup_arming_def)
  have sel: "io_wf s \<Longrightarrow> page_select h pg s = Some (vs, t) \<Longrightarrow> io_wf t"
      "page_select h pg s = Some (vs, t) \<Longrightarrow> r_setup_arming t = r_setup_arming s" for vs t
    using refresh scratch by (auto simp: page_select_def Let_def split: if_splits)
  then show "io_wf s \<Longrightarrow> io_wf (snd (registers_get h pg off s))"
    by (auto simp: registers_get_def split: option.split)
  from sel(2) show "r_setup_arming (snd (registers_get h pg off s)) = r_setup_arming s"
    by (auto simp: registers_get_def r_setup_arming_def split: option.split)
qed

lemma timers_keep:
  "io_wf s \<Longrightarrow> io_wf (safety_check_button pressed s)"
  "r_setup_arming (safety_check_button pressed s) = r_setup_arming s"
  "io_wf s \<Longrightarrow> io_wf (failsafe_blink s)"
  "r_setup_arming (failsafe_blink s) = r_setup_arming s"
  by (simp_all add: safety_check_button_def button_count_def failsafe_blink_def Let_def)
    (simp_all add: io_wf_def io_set_defs r_setup_arming_def)

lemma house_keeps:
  assumes "io_wf s"
  shows "io_wf (snd (housekeeping div0 now m (l, s))) \<and>
    r_setup_arming (snd (housekeeping div0 now m (l, s))) = r_setup_arming s"
proof -
  define P where "P = (\<lambda>t. io_wf t \<and> r_setup_arming t = r_setup_arming s)"
  have keep: "P (snd (blue_led now x))" "P (snd (update_mem_usage now m x))" "P (snd (ring_blink div0 x))"
      "P (snd (show_debug_messages x))" "P (snd (debug_state now x))" if "P (snd x)" for x
    using that by (cases x; auto simp: P_def blue_led_def heartbeat_blink_def update_mem_usage_def ring_blink_def
        show_debug_messages_def debug_state_def Let_def; simp add: io_wf_def r_setup_arming_def)+
  have reboot: "P (check_reboot now t)" if "P t" for t
    using that by (simp add: P_def check_reboot_def)
  have "P s"
    using assms by (simp add: P_def)
  then have "P (snd (housekeeping div0 now m (l, s)))"
    by (simp add: housekeeping_def case_prod_beta keep reboot)
  then show ?thesis
    by (simp add: P_def)
qed

lemma latched_same: "latched f s \<Longrightarrow> io_wf t \<Longrightarrow> r_setup_arming t = r_setup_arming s \<Longrightarrow> latched f t"
  by (simp add: latched_def)

lemma latched_mixer_tick: "latched f s \<Longrightarrow> latched f (mixer_tick lib now s)"
  by (auto simp: latched_def decide_arming_bits decide_force)

interpretation wf_fw: firmware_invariant io_wf
  by unfold_locales
    (simp_all add: get_keeps timers_keep controls_tick_keeps house_keeps)

interpretation latch_fw: firmware_invariant "latched forced" for forced
proof unfold_locales
  fix s
  assume l: "latched forced s"
  note wf = latched_wf [OF l]
  show "latched forced (snd (registers_get h pg off s))" for h pg off
    by (rule latched_same [OF l]) (simp_all add: get_keeps wf)
  show "latched forced (safety_check_button pressed s)" "latched forced (failsafe_blink s)" for pressed
    by (rule latched_same [OF l]; simp add: timers_keep wf)+
  show "latched forced (s\<lparr>ppm_last_valid_decode := t\<rparr>)" for t
    by (rule latched_same [OF l]) (simp_all add: wf)
  show "latched forced (mixer_tick lib now s)" for lib now
    by (rule latched_mixer_tick [OF l])
  show "latched forced (controls_tick e s)" for e
    by (rule latched_same [OF l]) (simp_all add: controls_tick_keeps wf)
  show "latched forced (snd (housekeeping div0 now m (lo, s)))" for div0 now m lo
    by (rule latched_same [OF l]) (simp_all add: house_keeps wf)
qed

lemma adc_wait_prefix:
  assumes "\<forall>j<n. \<not> eoc (i + j) \<and> \<not> clk (i + j) - start > 100"
  shows "adc_wait eoc clk start i = adc_wait eoc clk start (i + n)"
  using assms
proof (induction n arbitrary: i)
  case (Suc n)
  then have "adc_wait eoc clk start (Suc i) = adc_wait eoc clk start (Suc i + n)"
    by (metis add_Suc add_Suc_right Suc_less_eq)
  moreover have "\<not> eoc i \<and> \<not> clk i - start > 100"
    using Suc.prems [THEN spec, of 0] by simp
  ultimately show ?case
    by (simp add: adc_wait.simps [of eoc clk start i])
qed simp

section \<open>Results\<close>

text \<open>
  C1. Termination is final: once the FMU has set both termination failsafe and force failsafe, no
  sequence of steps of the firmware (packets of any content, button presses, receiver input, ticks
  of the main loop) clears either flag, and every later mixer tick selects the failsafe outputs and
  reports failsafe.
\<close>

theorem termination_is_final:
  assumes "fw_step\<^sup>*\<^sup>* x y" and "io_wf (regs_of x)"
    and "tst (r_setup_arming (regs_of x)) PX4IO_P_SETUP_ARMING_TERMINATION_FAILSAFE"
    and "tst (r_setup_arming (regs_of x)) PX4IO_P_SETUP_ARMING_FORCE_FAILSAFE"
  shows "tst (r_setup_arming (regs_of y)) PX4IO_P_SETUP_ARMING_TERMINATION_FAILSAFE \<and>
     tst (r_setup_arming (regs_of y)) PX4IO_P_SETUP_ARMING_FORCE_FAILSAFE \<and>
     source (mixer_tick lib now (regs_of y)) = MIX_FAILSAFE \<and>
     tst (r_status_flags (mixer_tick lib now (regs_of y))) PX4IO_P_STATUS_FLAGS_FAILSAFE"
proof -
  have "latched True (regs_of x)"
    using assms by (simp add: latched_def)
  then have y: "latched True (regs_of y)"
    using latch_fw.always assms(1) by blast
  then have "bit (r_setup_arming (mixer_decide now (mixer_prepare lib (regs_of y)))) 9"
    by (simp add: latched_def decide_force)
  with y show ?thesis
    by (simp add: latched_def tick_flags decide_flags decide_source_failsafe)
qed

theorem termination_is_final_witness:
  "let s = demo_flying (BIT 1 OR BIT 9 OR BIT 10)
   in fw_step (serial_init, io_loop_init, s) (serial_init, io_loop_init, controls_tick demo_env s) \<and>
      source (mixer_tick demo_lib 9 (controls_tick demo_env s)) = MIX_FAILSAFE"
proof -
  let ?s = "demo_flying (BIT 1 OR BIT 9 OR BIT 10)"
  have st: "fw_step (serial_init, io_loop_init, ?s) (serial_init, io_loop_init, controls_tick demo_env ?s)"
    by (rule fw_step.controls)
  from termination_is_final [OF r_into_rtranclp, OF st, of demo_lib 9] st show ?thesis
    by (simp add: regs_of_def Let_def)
qed

text \<open>
  The polled ADC conversion returns: if poll \<open>n\<close> is the first that finds the end-of-conversion bit
  or a clock more than 100 us past the start, \<^verbatim>\<open>adc_measure\<close> returns, with the data register when the
  bit is set there and with the error value 0xffff otherwise. The bit wins over the clock.
\<close>

lemma adc_measure_returns:
  assumes "\<forall>j<n. \<not> eoc j \<and> \<not> clk j - start > 100" and "eoc n \<or> clk n - start > 100"
  shows "adc_measure eoc clk start dr = Some (if eoc n then dr else 0xffff)"
proof -
  have "adc_wait eoc clk start 0 = adc_wait eoc clk start n"
    using adc_wait_prefix [of n eoc 0 clk start] assms(1) by simp
  with assms(2) show ?thesis
    by (auto simp: adc_measure_def adc_wait.simps [of eoc clk start n])
qed

end
