(* ===== verification/Rc_St24.thy ===== *)
theory Rc_St24
  imports IO_Protocol Float32
begin

text \<open>
  The byte-wise decoder of the ST24 receiver protocol, \<^verbatim>\<open>src/src/lib/rc/st24.cpp\<close>. The received packet is
  kept as the bytes of the packed structure \<^verbatim>\<open>ReceiverFcPacket\<close>, so that an index past the data array hits
  the next field of the structure as it does in memory; a write or read outside the structure, and a write
  past the caller's array of channels, give \<open>None\<close>. Results are the return code of the code: 0 a decoded
  packet, 1 none yet, 2 unknown type, 3 out of sync, 4 checksum error, 5 ignored packet.
\<close>

section \<open>Data\<close>

definition ST24_DATA_LEN_MAX :: nat where [simp]: "ST24_DATA_LEN_MAX = 64"
definition ST24_STX1 :: u8 where [simp]: "ST24_STX1 = 0x55"
definition ST24_STX2 :: u8 where [simp]: "ST24_STX2 = 0x55"

definition ST24_PACKET_TYPE_CHANNELDATA12 :: u8 where [simp]: "ST24_PACKET_TYPE_CHANNELDATA12 = 0"
definition ST24_PACKET_TYPE_CHANNELDATA24 :: u8 where [simp]: "ST24_PACKET_TYPE_CHANNELDATA24 = 1"
definition ST24_PACKET_TYPE_TRANSMITTERGPSDATA :: u8 where [simp]: "ST24_PACKET_TYPE_TRANSMITTERGPSDATA = 2"

datatype st24_decode_state =
    ST24_DECODE_STATE_UNSYNCED
  | ST24_DECODE_STATE_GOT_STX1
  | ST24_DECODE_STATE_GOT_STX2
  | ST24_DECODE_STATE_GOT_LEN
  | ST24_DECODE_STATE_GOT_TYPE
  | ST24_DECODE_STATE_GOT_DATA

text \<open>Offsets in the packed structure, and in the channel data that starts at its data array.\<close>

definition st_length :: nat where [simp]: "st_length = 2"
definition st_type :: nat where [simp]: "st_type = 3"
definition st_data :: nat where [simp]: "st_data = 4"
definition st_crc8 :: nat where [simp]: "st_crc8 = 68"
definition sizeof_ReceiverFcPacket :: nat where [simp]: "sizeof_ReceiverFcPacket = 69"
definition cd_rssi :: nat where [simp]: "cd_rssi = 2"
definition cd_lost_count :: nat where [simp]: "cd_lost_count = 3"
definition cd_channel :: nat where [simp]: "cd_channel = 4"

record st24 =
  decode_state :: st24_decode_state
  rxlen :: u8
  rxpacket :: "u8 list"

text \<open>The variables the caller passes by reference.\<close>

record st24_out =
  st24_rssi :: u8
  st24_lost_count :: u8
  st24_channel_count :: u16
  st24_channels :: "u16 list"

section \<open>Checksum and scaling\<close>

definition st24_crc_bit :: "u8 \<Rightarrow> u8 \<Rightarrow> u8 \<Rightarrow> u8" where
  "st24_crc_bit byte c0 i =
     (let c = (if c0 AND 0x80 \<noteq> 0 then push_bit 1 c0 XOR 0x07 else push_bit 1 c0)
      in if byte AND i \<noteq> 0 then c XOR 0x07 else c)"

definition st24_crc_byte :: "u8 \<Rightarrow> u8 \<Rightarrow> u8" where
  "st24_crc_byte c0 byte = foldl (st24_crc_bit byte) c0 [0x80, 0x40, 0x20, 0x10, 0x08, 0x04, 0x02, 0x01]"

definition st24_common_crc8 :: "u8 list \<Rightarrow> u8" where
  "st24_common_crc8 bytes = foldl st24_crc_byte 0 bytes"

definition ST24_SCALE_FACTOR :: rat where
  "ST24_SCALE_FACTOR = f32_div (f32_add 2000 (- 1000)) (f32_add 3500 (- 500))"

definition ST24_SCALE_OFFSET :: int where
  "ST24_SCALE_OFFSET = f32_trunc (f32_add 1000 (- f32_add (f32_mult ST24_SCALE_FACTOR 500) (1 / 2)))"

definition st24_scale :: "u16 \<Rightarrow> u16" where
  "st24_scale v =
     word_of_int (f32_trunc (f32_add (f32_mult (of_int (uint v)) ST24_SCALE_FACTOR) (1 / 2))) + word_of_int ST24_SCALE_OFFSET"

definition st24_scale_rssi :: "u8 \<Rightarrow> u8" where
  "st24_scale_rssi r = word_of_int (f32_trunc (f32_mult (of_int (uint r)) (f32_div 100 255)))"

section \<open>Channels\<close>

text \<open>Three bytes hold two channels of 12 bits.\<close>

definition stride_first :: "u8 \<Rightarrow> u8 \<Rightarrow> u16" where
  "stride_first b0 b1 = push_bit 4 (ucast b0) OR drop_bit 4 (ucast (0xF0 AND b1))"

definition stride_second :: "u8 \<Rightarrow> u8 \<Rightarrow> u16" where
  "stride_second b1 b2 = ucast b2 OR push_bit 8 (ucast (0x0F AND b1))"

function st24_strides :: "u8 list \<Rightarrow> nat \<Rightarrow> nat \<Rightarrow> nat \<Rightarrow> u16 list \<Rightarrow> u16 list option" where
  "st24_strides pkt stride_count i chan_index channels =
     (if i < stride_count then
        let b = (\<lambda>k. pkt ! (st_data + cd_channel + i + k)) in
        Option.bind (store chan_index (st24_scale (stride_first (b 0) (b 1))) channels) (\<lambda>ch1.
        Option.bind (store (chan_index + 1) (st24_scale (stride_second (b 1) (b 2))) ch1) (\<lambda>ch2.
          st24_strides pkt stride_count (i + 3) (chan_index + 2) ch2))
      else Some channels)"
  by pat_completeness auto
termination
  by (relation "measure (\<lambda>(_, n, i, _, _). n - i)") auto

declare st24_strides.simps [simp del]

definition st24_channel_data :: "nat \<Rightarrow> u16 \<Rightarrow> u8 list \<Rightarrow> st24_out \<Rightarrow> st24_out option" where
  "st24_channel_data n max_chan_count pkt out =
     (let count = (if unat max_chan_count < n then max_chan_count else of_nat n);
          out1 = out\<lparr>st24_rssi := st24_scale_rssi (pkt ! (st_data + cd_rssi)),
                     st24_lost_count := pkt ! (st_data + cd_lost_count), st24_channel_count := count\<rparr>
      in map_option (\<lambda>ch. out1\<lparr>st24_channels := ch\<rparr>)
           (st24_strides pkt (unat count * 3 div 2) 0 0 (st24_channels out1)))"

definition st24_packet :: "u16 \<Rightarrow> u8 list \<Rightarrow> st24_out \<Rightarrow> (int \<times> st24_out) option" where
  "st24_packet max_chan_count pkt out =
     (let t = pkt ! st_type in
      if t = ST24_PACKET_TYPE_CHANNELDATA12 then map_option (Pair 0) (st24_channel_data 12 max_chan_count pkt out)
      else if t = ST24_PACKET_TYPE_CHANNELDATA24 then map_option (Pair 0) (st24_channel_data 24 max_chan_count pkt out)
      else if t = ST24_PACKET_TYPE_TRANSMITTERGPSDATA then Some (5, out)
      else Some (2, out))"

section \<open>The decoder\<close>

definition st24_decode :: "u16 \<Rightarrow> u8 \<Rightarrow> st24 \<times> st24_out \<Rightarrow> (int \<times> st24 \<times> st24_out) option" where
  "st24_decode max_chan_count byte so =
     (case so of (s, out) \<Rightarrow>
      case decode_state s of
        ST24_DECODE_STATE_UNSYNCED \<Rightarrow>
          if byte = ST24_STX1 then Some (1, s\<lparr>decode_state := ST24_DECODE_STATE_GOT_STX1\<rparr>, out)
          else Some (3, s, out)
      | ST24_DECODE_STATE_GOT_STX1 \<Rightarrow>
          if byte = ST24_STX2 then Some (1, s\<lparr>decode_state := ST24_DECODE_STATE_GOT_STX2\<rparr>, out)
          else Some (1, s\<lparr>decode_state := ST24_DECODE_STATE_UNSYNCED\<rparr>, out)
      | ST24_DECODE_STATE_GOT_STX2 \<Rightarrow>
          if unat byte \<le> 1 + 1 + ST24_DATA_LEN_MAX
          then Some (1, s\<lparr>rxpacket := (rxpacket s)[st_length := byte], rxlen := 0,
                          decode_state := ST24_DECODE_STATE_GOT_LEN\<rparr>, out)
          else Some (1, s\<lparr>decode_state := ST24_DECODE_STATE_UNSYNCED\<rparr>, out)
      | ST24_DECODE_STATE_GOT_LEN \<Rightarrow>
          Some (1, s\<lparr>rxpacket := (rxpacket s)[st_type := byte], rxlen := rxlen s + 1,
                     decode_state := ST24_DECODE_STATE_GOT_TYPE\<rparr>, out)
      | ST24_DECODE_STATE_GOT_TYPE \<Rightarrow>
          (case store (st_data + unat (rxlen s) - 1) byte (rxpacket s) of
             None \<Rightarrow> None
           | Some pkt \<Rightarrow>
               let n = rxlen s + 1
               in Some (1, s\<lparr>rxpacket := pkt, rxlen := n,
                             decode_state := (if uint n = uint (pkt ! st_length) - 1
                                              then ST24_DECODE_STATE_GOT_DATA else ST24_DECODE_STATE_GOT_TYPE)\<rparr>, out))
      | ST24_DECODE_STATE_GOT_DATA \<Rightarrow>
          let pkt = (rxpacket s)[st_crc8 := byte]; n = rxlen s + 1;
              s1 = s\<lparr>rxpacket := pkt, rxlen := n, decode_state := ST24_DECODE_STATE_UNSYNCED\<rparr>
          in if st_length + unat n > length pkt then None
             else if st24_common_crc8 (take (unat n) (drop st_length pkt)) = pkt ! st_crc8
             then map_option (\<lambda>(r, out1). (r, s1, out1)) (st24_packet max_chan_count pkt out)
             else Some (4, s1, out))"

text \<open>A sequence of bytes, with the last return code.\<close>

fun st24_run :: "u16 \<Rightarrow> u8 list \<Rightarrow> int \<times> st24 \<times> st24_out \<Rightarrow> (int \<times> st24 \<times> st24_out) option" where
  "st24_run m [] rso = Some rso"
| "st24_run m (b # bs) rso = Option.bind (st24_decode m b (snd rso)) (st24_run m bs)"

lemma st24_run_append: "st24_run m (as @ bs) rso = Option.bind (st24_run m as rso) (st24_run m bs)"
  by (induction as arbitrary: rso) (auto simp: Option.bind_assoc split: bind_splits)

section \<open>Collecting a packet\<close>

definition st24_collecting :: "u8 \<Rightarrow> u8 list \<Rightarrow> st24 \<Rightarrow> bool" where
  "st24_collecting t bs s \<longleftrightarrow> length (rxpacket s) = sizeof_ReceiverFcPacket \<and> rxpacket s ! st_type = t \<and>
     unat (rxlen s) = length bs + 1 \<and> take (length bs) (drop st_data (rxpacket s)) = bs"

lemma uint_pred_iff:
  fixes w v :: u8
  assumes "unat w = k"
  shows "uint w = uint v - 1 \<longleftrightarrow> k + 1 = unat v"
proof -
  have "uint w = int k" "uint v = int (unat v)"
    using arg_cong [OF assms, of int] by simp_all
  then show ?thesis by linarith
qed

lemma collect_byte:
  assumes "decode_state s = ST24_DECODE_STATE_GOT_TYPE" and "st24_collecting t bs s" and "length bs < ST24_DATA_LEN_MAX"
  shows "\<exists>s'. st24_decode m b (s, out) = Some (1, s', out) \<and> st24_collecting t (bs @ [b]) s' \<and>
           rxpacket s' ! st_length = rxpacket s ! st_length \<and>
           decode_state s' = (if length bs + 3 = unat (rxpacket s ! st_length)
                              then ST24_DECODE_STATE_GOT_DATA else ST24_DECODE_STATE_GOT_TYPE)"
proof -
  have n: "unat (rxlen s) = length bs + 1" "length (rxpacket s) = 69" "unat (rxlen s + 1) = length bs + 2"
    using assms(2,3) unat_succ [of "rxlen s"] by (simp_all add: st24_collecting_def)
  have "uint (rxlen s + 1) = uint v - 1 \<longleftrightarrow> length bs + 3 = unat v" for v :: u8
    using uint_pred_iff [OF n(3)] by (simp add: numeral_3_eq_3)
  moreover have "take (length bs + 1) (drop 4 ((rxpacket s)[4 + length bs := b])) = bs @ [b]"
    using assms(2,3) n(2) by (simp add: st24_collecting_def drop_update_swap take_Suc_conv_app_nth)
  ultimately show ?thesis
    using assms n by (auto simp: st24_decode_def store_def st24_collecting_def Let_def)
qed

lemma collect_bytes:
  assumes "decode_state s = ST24_DECODE_STATE_GOT_TYPE" and "st24_collecting t bs s" and "cs \<noteq> []"
    and "length (bs @ cs) \<le> ST24_DATA_LEN_MAX" and "unat (rxpacket s ! st_length) = length (bs @ cs) + 2"
  shows "\<exists>s'. st24_run m cs (1, s, out) = Some (1, s', out) \<and> st24_collecting t (bs @ cs) s' \<and>
           rxpacket s' ! st_length = rxpacket s ! st_length \<and> decode_state s' = ST24_DECODE_STATE_GOT_DATA"
  using assms
proof (induction cs arbitrary: bs s)
  case (Cons c cs)
  obtain s1 where s1: "st24_decode m c (s, out) = Some (1, s1, out)" "st24_collecting t (bs @ [c]) s1"
      "rxpacket s1 ! st_length = rxpacket s ! st_length"
      "decode_state s1 = (if length bs + 3 = unat (rxpacket s ! st_length)
          then ST24_DECODE_STATE_GOT_DATA else ST24_DECODE_STATE_GOT_TYPE)"
    using collect_byte [OF Cons(2,3), of m c out] Cons(5) by auto
  show ?case
  proof (cases "cs = []")
    case True
    then show ?thesis using s1 Cons(6) by simp
  next
    case False
    then show ?thesis
      using Cons(1) [of s1 "bs @ [c]"] s1 Cons(5,6) by simp
  qed
qed simp

text \<open>Header, length and type.\<close>

lemma st24_header:
  assumes "decode_state s = ST24_DECODE_STATE_UNSYNCED" and "length (rxpacket s) = sizeof_ReceiverFcPacket"
    and "unat l \<le> 2 + ST24_DATA_LEN_MAX"
  shows "\<exists>s'. st24_run m [ST24_STX1, ST24_STX2, l, t] (r, s, out) = Some (1, s', out) \<and> st24_collecting t [] s' \<and>
           rxpacket s' ! st_length = l \<and> decode_state s' = ST24_DECODE_STATE_GOT_TYPE"
  using assms by (simp add: st24_decode_def st24_collecting_def)

section \<open>Sending\<close>

text \<open>What a transmitter sends: two channels of 12 bits in three bytes, and a packet with its checksum.\<close>

definition pack_pair :: "u16 \<Rightarrow> u16 \<Rightarrow> u8 list" where
  "pack_pair a b = [ucast (drop_bit 4 a), ucast (push_bit 4 (a AND 0xF)) OR ucast (drop_bit 8 b), ucast b]"

fun st24_pack :: "u16 list \<Rightarrow> u8 list" where
  "st24_pack (a # b # vs) = pack_pair a b @ st24_pack vs"
| "st24_pack _ = []"

definition st24_frame_bytes :: "u8 \<Rightarrow> u8 list \<Rightarrow> u8 list" where
  "st24_frame_bytes t data =
     (let l = of_nat (length data + 2)
      in [ST24_STX1, ST24_STX2, l, t] @ data @ [st24_common_crc8 (l # t # data)])"

lemma bit_12: "(a :: u16) < 4096 \<Longrightarrow> bit a n \<Longrightarrow> n < 12"
proof -
  assume a: "a < 4096" "bit a n"
  have "take_bit 12 a = a"
    using a(1) by (simp add: take_bit_eq_mod word_less_nat_alt word_unat_eq_iff unat_mod)
  then show ?thesis
    using a(2) by (metis bit_take_bit_iff)
qed

lemma nibbles: "(0xF0 :: u8) = push_bit 4 (mask 4)" "(0x0F :: u8) = mask 4" "(0xF :: u16) = mask 4"
  by (simp_all add: push_bit_eq_mult mask_eq_exp_minus_1)

lemma unpack_pair:
  assumes "a < 4096" and "b < 4096"
  shows "stride_first (pack_pair a b ! 0) (pack_pair a b ! 1) = a" and "stride_second (pack_pair a b ! 1) (pack_pair a b ! 2) = b"
proof -
  have bits: "bit a n \<Longrightarrow> n < 12" "\<not> bit b (12 + n)" "bit b n \<Longrightarrow> n < 12" for n
    using bit_12 [OF assms(1), of n] bit_12 [OF assms(2), of n] bit_12 [OF assms(2), of "12 + n"] by auto
  show "stride_first (pack_pair a b ! 0) (pack_pair a b ! 1) = a"
  proof (rule bit_word_eqI)
    fix n assume "n < LENGTH(16)"
    then show "bit (stride_first (pack_pair a b ! 0) (pack_pair a b ! 1)) n = bit a n"
      using bits(1) [of n] bits(2) [of n] unfolding stride_first_def pack_pair_def nibbles
      by (cases "n < 4") (auto simp: bit_simps)
  qed
  show "stride_second (pack_pair a b ! 1) (pack_pair a b ! 2) = b"
  proof (rule bit_word_eqI)
    fix n assume "n < LENGTH(16)"
    then show "bit (stride_second (pack_pair a b ! 1) (pack_pair a b ! 2)) n = bit b n"
      using bits(3) [of n] unfolding stride_second_def pack_pair_def nibbles
      by (cases "n < 8") (auto simp: bit_simps)
  qed
qed

lemma length_pack_pair [simp]: "length (pack_pair a b) = 3"
  by (simp add: pack_pair_def)

lemma length_st24_pack: "even (length vs) \<Longrightarrow> length (st24_pack vs) = 3 * (length vs div 2)"
  by (induction vs rule: st24_pack.induct) (auto simp: pack_pair_def)

lemma st24_strides_unpack:
  assumes "even (length vs)" and "\<forall>v\<in>set vs. v < 4096" and "n = i + 3 * (length vs div 2)"
    and "take (length (st24_pack vs)) (drop (8 + i) pkt) = st24_pack vs" and "c + length vs \<le> length ch"
  shows "st24_strides pkt n i c ch = Some (take c ch @ map st24_scale vs @ drop (c + length vs) ch)"
  using assms
proof (induction vs arbitrary: i c ch rule: st24_pack.induct)
  case (1 a b vs)
  have more: "take (3 + length (st24_pack vs)) (drop (8 + i) pkt) = pack_pair a b @ st24_pack vs"
    using 1(5) by simp
  have nth: "pkt ! (8 + i + j) = pack_pair a b ! j" if "j < 3" for j
    using take_nth [OF more, of j] that by simp
  have rest: "take (length (st24_pack vs)) (drop (8 + (i + 3)) pkt) = st24_pack vs"
    using arg_cong [OF more, of "drop 3"] by (simp add: drop_take ac_simps)
  have v: "stride_first (pack_pair a b ! 0) (pack_pair a b ! 1) = a" "stride_second (pack_pair a b ! 1) (pack_pair a b ! 2) = b"
    using unpack_pair [of a b] 1(3) by simp_all
  let ?ch = "ch[c := st24_scale a, c + 1 := st24_scale b]"
  have "st24_strides pkt n i c ch = st24_strides pkt n (i + 3) (c + 2) ?ch"
    using 1(4,6) nth [of 0] nth [of 1] nth [of 2] v
    by (subst st24_strides.simps) (simp add: store_def)
  also have "\<dots> = Some (take (c + 2) ?ch @ map st24_scale vs @ drop (c + 2 + length vs) ?ch)"
    using 1(2-) rest by (intro 1(1)) auto
  also have "take (c + 2) ?ch = take c ch @ [st24_scale a, st24_scale b]"
    using 1(6) by (simp add: take_Suc_conv_app_nth)
  finally show ?case by simp
qed (simp_all add: st24_strides.simps)

section \<open>A packet is accepted\<close>

lemma take_split: "take (n + 2) (drop 2 p) = p ! 2 # p ! 3 # take n (drop 4 p)" if "4 \<le> length p"
proof -
  have "drop 2 p = p ! 2 # p ! 3 # drop 4 p"
    using that by (simp add: Cons_nth_drop_Suc eval_nat_numeral)
  then show ?thesis by simp
qed

lemma st24_frame_accepted:
  assumes "decode_state s = ST24_DECODE_STATE_UNSYNCED" and "length (rxpacket s) = sizeof_ReceiverFcPacket"
    and "data \<noteq> []" and "length data \<le> ST24_DATA_LEN_MAX"
  shows "\<exists>s' pkt. st24_run m (st24_frame_bytes t data) (r, s, out) =
             map_option (\<lambda>(r, out1). (r, s', out1)) (st24_packet m pkt out) \<and>
           decode_state s' = ST24_DECODE_STATE_UNSYNCED \<and> length pkt = sizeof_ReceiverFcPacket \<and>
           length (rxpacket s') = sizeof_ReceiverFcPacket \<and>
           pkt ! st_type = t \<and> take (length data) (drop st_data pkt) = data"
proof -
  define l where "l = (of_nat (length data + 2) :: u8)"
  have l: "unat l = length data + 2"
    unfolding l_def unsigned_of_nat of_nat_id using assms(4) by (intro take_bit_nat_eq_self) simp
  define c where "c = st24_common_crc8 (l # t # data)"
  obtain s1 where s1: "st24_run m [ST24_STX1, ST24_STX2, l, t] (r, s, out) = Some (1, s1, out)"
      "st24_collecting t [] s1" "rxpacket s1 ! st_length = l" "decode_state s1 = ST24_DECODE_STATE_GOT_TYPE"
    using st24_header [OF assms(1,2), of l m t r out] assms(4) l by auto
  obtain s2 where s2: "st24_run m data (1, s1, out) = Some (1, s2, out)" "st24_collecting t data s2"
      "rxpacket s2 ! st_length = l" "decode_state s2 = ST24_DECODE_STATE_GOT_DATA"
    using collect_bytes [OF s1(4,2) assms(3), of m out] s1(3) assms(4) l by auto
  define pkt where "pkt = (rxpacket s2)[st_crc8 := c]"
  have pk: "(rxpacket s2)[68 := c] = pkt"
    by (simp add: pkt_def)
  define s3 where "s3 = s2\<lparr>rxpacket := pkt, rxlen := rxlen s2 + 1, decode_state := ST24_DECODE_STATE_UNSYNCED\<rparr>"
  have len: "length pkt = 69" "unat (rxlen s2 + 1) = length data + 2"
    using s2(2) assms(4) unat_succ [of "rxlen s2"] by (simp_all add: pkt_def st24_collecting_def)
  have data: "take (length data) (drop 4 pkt) = data"
    using s2(2) assms(4) by (simp add: pkt_def st24_collecting_def drop_update_swap)
  have fields: "pkt ! 2 = l" "pkt ! 3 = t" "pkt ! 68 = c"
    using s2(2,3) by (simp_all add: pkt_def st24_collecting_def)
  have "st24_common_crc8 (take (length data + 2) (drop 2 pkt)) = c"
    using take_split [of pkt "length data"] len(1) data fields by (simp add: c_def)
  then have "st24_decode m c (s2, out) = map_option (\<lambda>(r, out1). (r, s3, out1)) (st24_packet m pkt out)"
    using s2(4) len fields(3) assms(4) by (simp add: st24_decode_def Let_def s3_def pk)
  moreover have "st24_run m [x] (1, s2, out) = st24_decode m x (s2, out)" for x
    by (simp split: bind_splits)
  ultimately have "st24_run m (st24_frame_bytes t data) (r, s, out) = map_option (\<lambda>(r, out1). (r, s3, out1)) (st24_packet m pkt out)"
    using s1(1) s2(1) by (simp only: st24_frame_bytes_def Let_def st24_run_append l_def [symmetric] c_def [symmetric] bind.simps)
  then show ?thesis
    using len(1) data fields by (intro exI [of _ s3] exI [of _ pkt]) (simp add: s3_def)
qed

section \<open>Properties\<close>

text \<open>
  C22. A channel packet is decoded to what was sent: the bytes of a packet with twelve channels of 12
  bits, received in any out-of-sync state, give return code 0 at the last byte, the twelve values
  scaled, their number and the lost-frame counter, and leave the decoder ready for the next packet.
\<close>

theorem st24_packet_decoded:
  assumes "decode_state s = ST24_DECODE_STATE_UNSYNCED" and "length (rxpacket s) = sizeof_ReceiverFcPacket"
    and "length vs = 12" and "\<forall>v\<in>set vs. v < 4096"
    and "12 \<le> unat m" and "12 \<le> length (st24_channels out)"
  shows "\<exists>s' out'. st24_run m (st24_frame_bytes ST24_PACKET_TYPE_CHANNELDATA12 ([t0, t1, rs, lost] @ st24_pack vs)) (r, s, out) =
             Some (0, s', out') \<and> decode_state s' = ST24_DECODE_STATE_UNSYNCED \<and>
           take 12 (st24_channels out') = map st24_scale vs \<and> st24_channel_count out' = 12 \<and> st24_lost_count out' = lost"
proof -
  let ?d = "[t0, t1, rs, lost] @ st24_pack vs"
  have len: "length (st24_pack vs) = 18"
    using length_st24_pack [of vs] assms(3) by simp
  then have d: "?d \<noteq> []" "length ?d \<le> ST24_DATA_LEN_MAX"
    by simp_all
  obtain s' pkt where p: "st24_run m (st24_frame_bytes ST24_PACKET_TYPE_CHANNELDATA12 ?d) (r, s, out) =
        map_option (\<lambda>(r, out1). (r, s', out1)) (st24_packet m pkt out)"
      "decode_state s' = ST24_DECODE_STATE_UNSYNCED" "pkt ! 3 = 0" "take 22 (drop 4 pkt) = ?d"
    using st24_frame_accepted [OF assms(1,2) d, of m ST24_PACKET_TYPE_CHANNELDATA12 r out] len by auto
  have lost: "pkt ! 7 = lost"
    using take_nth [of 22 4 pkt "[t0, t1, rs, lost]" "st24_pack vs" 3] p(4) by simp
  have "take 18 (drop 8 pkt) = st24_pack vs"
    using arg_cong [OF p(4), of "drop 4"] by (simp add: drop_take)
  then have str: "st24_strides pkt 18 0 0 ch = Some (map st24_scale vs @ drop 12 ch)" if "12 \<le> length ch" for ch
    using st24_strides_unpack [of vs 18 0 pkt 0 ch] assms(3,4) that len by simp
  have "\<exists>out'. st24_packet m pkt out = Some (0, out') \<and> take 12 (st24_channels out') = map st24_scale vs \<and>
      st24_channel_count out' = 12 \<and> st24_lost_count out' = lost"
    using p(3) str assms(3,5,6) lost by (simp add: st24_packet_def st24_channel_data_def Let_def not_less)
  then show ?thesis
    using p(1,2) by auto
qed

definition demo_st24 :: st24 where
  "demo_st24 = \<lparr>decode_state = ST24_DECODE_STATE_UNSYNCED, rxlen = 0, rxpacket = replicate 69 0\<rparr>"

definition demo_st24_out :: st24_out where
  "demo_st24_out = \<lparr>st24_rssi = 0, st24_lost_count = 0, st24_channel_count = 0, st24_channels = replicate 18 0\<rparr>"

theorem st24_packet_decoded_witness:
  "\<exists>s' out'. st24_run 18 (st24_frame_bytes ST24_PACKET_TYPE_CHANNELDATA12 ([1, 2, 200, 3] @ st24_pack (replicate 12 2048)))
       (1, demo_st24, demo_st24_out) = Some (0, s', out') \<and> take 12 (st24_channels out') = replicate 12 (st24_scale 2048)"
  using st24_packet_decoded [of demo_st24 "replicate 12 2048" 18 demo_st24_out 1 2 200 3 1]
  by (auto simp: demo_st24_def demo_st24_out_def)

lemma short_length_overflow:
  assumes "decode_state s = ST24_DECODE_STATE_GOT_TYPE" and "length (rxpacket s) = 69" and "unat (rxpacket s ! 2) \<le> 2"
    and "1 \<le> unat (rxlen s)" and "unat (rxlen s) + length bs = 67" and "bs \<noteq> []"
  shows "st24_run m bs (r, s, out) = None"
  using assms
proof (induction bs arbitrary: r s)
  case (Cons b bs)
  show ?case
  proof (cases "bs = []")
    case True
    then show ?thesis using Cons(2,3,6) by (simp add: st24_decode_def store_def)
  next
    case False
    define s1 where "s1 = s\<lparr>rxpacket := (rxpacket s)[3 + unat (rxlen s) := b], rxlen := rxlen s + 1\<rparr>"
    have lt: "unat (rxlen s) < 66"
      using Cons(6) False by (cases bs) auto
    then have n: "unat (rxlen s + 1) = unat (rxlen s) + 1"
      using unat_succ [of "rxlen s"] by simp
    have "uint (rxlen s + 1) \<noteq> uint (rxpacket s ! 2) - 1"
      using uint_pred_iff [OF n, of "rxpacket s ! 2"] Cons(4,5) by simp
    then have "st24_decode m b (s, out) = Some (1, s1, out)"
      using Cons(2,3) lt by (simp add: st24_decode_def store_def s1_def Let_def)
    moreover have "st24_run m bs (1, s1, out) = None"
      using Cons(2-6) n False by (intro Cons(1)) (simp_all add: s1_def)
    ultimately show ?thesis by simp
  qed
qed simp

text \<open>
  A short packet overruns the buffer: the comment at the length check says that no data overflow is
  possible, but a length byte below 3 passes it and never matches the end-of-data test, so the 66 bytes
  after the type are written one after the other, the last of them past the end of the structure.
\<close>

lemma st24_short_packet_overrun:
  assumes "decode_state s = ST24_DECODE_STATE_UNSYNCED" and "length (rxpacket s) = sizeof_ReceiverFcPacket"
    and "unat l \<le> 2" and "length bs = 66"
  shows "st24_run m ([ST24_STX1, ST24_STX2, l, t] @ bs) (r, s, out) = None"
proof -
  obtain s1 where "st24_run m [ST24_STX1, ST24_STX2, l, t] (r, s, out) = Some (1, s1, out)"
      "st24_collecting t [] s1" "rxpacket s1 ! st_length = l" "decode_state s1 = ST24_DECODE_STATE_GOT_TYPE"
    using st24_header [OF assms(1,2), of l m t r out] assms(3) by auto
  moreover have "st24_run m bs (1, s1, out) = None"
    using calculation assms(3,4) by (intro short_length_overflow) (auto simp: st24_collecting_def)
  ultimately show ?thesis
    by (simp only: st24_run_append bind.simps)
qed

section \<open>Every other packet stays inside\<close>

definition st24_wf :: "st24 \<Rightarrow> bool" where
  "st24_wf s \<longleftrightarrow> length (rxpacket s) = sizeof_ReceiverFcPacket \<and>
     (let l = unat (rxpacket s ! st_length); n = unat (rxlen s) in
      case decode_state s of
        ST24_DECODE_STATE_GOT_LEN \<Rightarrow> 3 \<le> l \<and> l \<le> 66 \<and> n = 0
      | ST24_DECODE_STATE_GOT_TYPE \<Rightarrow> l \<le> 66 \<and> 1 \<le> n \<and> n + 1 < l
      | ST24_DECODE_STATE_GOT_DATA \<Rightarrow> l \<le> 66 \<and> 1 \<le> n \<and> n + 1 = l
      | _ \<Rightarrow> True)"

lemma st24_strides_fit:
  "c + 2 * ((n - i + 2) div 3) \<le> length ch \<Longrightarrow> \<exists>ch'. st24_strides pkt n i c ch = Some ch' \<and> length ch' = length ch"
proof (induction "n - i" arbitrary: i c ch rule: less_induct)
  case less
  show ?case
  proof (cases "i < n")
    case True
    let ?ch = "ch[c := st24_scale (stride_first (pkt ! (8 + i)) (pkt ! (9 + i))),
                  c + 1 := st24_scale (stride_second (pkt ! (9 + i)) (pkt ! (10 + i)))]"
    have "(n - i + 2) div 3 = Suc ((n - (i + 3) + 2) div 3)"
      using True by (cases "n - i \<le> 3") (auto simp: div_if [of "n - i + 2"] algebra_simps)
    then have fit: "c + 2 + 2 * ((n - (i + 3) + 2) div 3) \<le> length ?ch"
      using less(2) by simp
    moreover have "st24_strides pkt n i c ch = st24_strides pkt n (i + 3) (c + 2) ?ch"
      using fit True by (subst st24_strides.simps) (simp add: store_def)
    ultimately show ?thesis
      using less(1) [of "i + 3" "c + 2" ?ch] True by simp
  next
    case False
    then show ?thesis by (subst st24_strides.simps) simp
  qed
qed

text \<open>
  Apart from such lengths the decoder never leaves its buffers: given a byte that is not a length
  below 3, and an array of channels that is at least as long as the even number of channels asked for, it
  returns and stays well formed.
\<close>

lemma st24_decode_in_bounds:
  assumes "st24_wf s" and "decode_state s = ST24_DECODE_STATE_GOT_STX2 \<longrightarrow> 3 \<le> unat byte"
    and "even (unat m)" and "unat m \<le> length (st24_channels out)"
  shows "\<exists>r s' out'. st24_decode m byte (s, out) = Some (r, s', out') \<and> st24_wf s' \<and>
           length (st24_channels out') = length (st24_channels out)"
proof -
  have len: "length (rxpacket s) = 69"
    using assms(1) by (simp add: st24_wf_def)
  have chan: "\<exists>o'. st24_channel_data n m pkt out = Some o' \<and> length (st24_channels o') = length (st24_channels out)"
    if "n \<in> {12, 24}" for n pkt
  proof -
    let ?c = "unat (if unat m < n then m else of_nat n)"
    have c: "even ?c" "?c \<le> length (st24_channels out)"
      using assms(3,4) that by auto
    obtain b where "?c = 2 * b"
      using c(1) by blast
    moreover have "(3 * b + 2) div 3 = b"
      by simp
    ultimately have "2 * ((?c * 3 div 2 + 2) div 3) \<le> length (st24_channels out)"
      using c(2) by (simp add: ac_simps)
    then show ?thesis
      using st24_strides_fit [of 0 "?c * 3 div 2" 0 "st24_channels out" pkt]
      by (auto simp: st24_channel_data_def Let_def)
  qed
  have pkt: "\<exists>r o'. st24_packet m pkt out = Some (r, o') \<and> length (st24_channels o') = length (st24_channels out)" for pkt
    using chan [of 12 pkt] chan [of 24 pkt] by (auto simp: st24_packet_def Let_def)
  show ?thesis
  proof (cases "decode_state s")
    case ST24_DECODE_STATE_GOT_TYPE
    then have n: "1 \<le> unat (rxlen s)" "unat (rxlen s) + 1 < unat (rxpacket s ! 2)" "unat (rxpacket s ! 2) \<le> 66"
      using assms(1) by (simp_all add: st24_wf_def Let_def)
    then have u: "unat (rxlen s + 1) = unat (rxlen s) + 1"
      using unat_succ [of "rxlen s"] by simp
    then show ?thesis
      using ST24_DECODE_STATE_GOT_TYPE n len uint_pred_iff [OF u, of "rxpacket s ! 2"]
      by (auto simp: st24_decode_def store_def st24_wf_def Let_def)
  next
    case ST24_DECODE_STATE_GOT_DATA
    then have n: "unat (rxlen s) + 1 = unat (rxpacket s ! 2)" "unat (rxpacket s ! 2) \<le> 66"
      using assms(1) by (simp_all add: st24_wf_def Let_def)
    then have "unat (rxlen s + 1) \<le> 66"
      using unat_succ [of "rxlen s"] by simp
    then show ?thesis
      using ST24_DECODE_STATE_GOT_DATA len pkt [of "(rxpacket s)[68 := byte]"]
      by (auto simp: st24_decode_def st24_wf_def Let_def)
  qed (use assms(1,2) len unat_succ [of "rxlen s"] in \<open>auto simp: st24_decode_def st24_wf_def Let_def\<close>)
qed

end
