(* ===== verification/Rc_Sumd.thy ===== *)
theory Rc_Sumd
  imports Prelude
begin

text \<open>
  The byte-wise decoder of the SUMD and SUMH receiver protocols, \<^verbatim>\<open>src/src/lib/rc/sumd.cpp\<close>. As for ST24, the
  packet is kept as the bytes of the packed structure \<^verbatim>\<open>ReceiverFcPacketHoTT\<close>, and a write outside the
  structure or past the caller's array of channels gives \<open>None\<close>.
\<close>

section \<open>Data\<close>

definition SUMD_MAX_CHANNELS :: nat where [simp]: "SUMD_MAX_CHANNELS = 32"
definition SUMD_HEADER_ID :: u8 where [simp]: "SUMD_HEADER_ID = 0xA8"
definition SUMD_ID_SUMH :: u8 where [simp]: "SUMD_ID_SUMH = 0x00"
definition SUMD_ID_SUMD :: u8 where [simp]: "SUMD_ID_SUMD = 0x01"
definition SUMD_ID_FAILSAFE :: u8 where [simp]: "SUMD_ID_FAILSAFE = 0x81"

datatype sumd_decode_state =
    SUMD_DECODE_STATE_UNSYNCED
  | SUMD_DECODE_STATE_GOT_HEADER
  | SUMD_DECODE_STATE_GOT_STATE
  | SUMD_DECODE_STATE_GOT_LEN
  | SUMD_DECODE_STATE_GOT_DATA
  | SUMD_DECODE_STATE_GOT_CRC
  | SUMD_DECODE_STATE_GOT_CRC16_BYTE_1
  | SUMD_DECODE_STATE_GOT_CRC16_BYTE_2

text \<open>Offsets in the packed structure.\<close>

definition su_status :: nat where [simp]: "su_status = 1"
definition su_length :: nat where [simp]: "su_length = 2"
definition su_data :: nat where [simp]: "su_data = 3"
definition su_crc16_high :: nat where [simp]: "su_crc16_high = 67"
definition su_crc16_low :: nat where [simp]: "su_crc16_low = 68"
definition su_telemetry :: nat where [simp]: "su_telemetry = 69"
definition su_crc8 :: nat where [simp]: "su_crc8 = 70"
definition sizeof_ReceiverFcPacketHoTT :: nat where [simp]: "sizeof_ReceiverFcPacketHoTT = 71"

record sumd =
  su_state :: sumd_decode_state
  su_rxlen :: u8
  su_packet :: "u8 list"
  crc8_acc :: u8
  crc16_acc :: u16
  is_sumd :: bool
  crcOK :: bool

record sumd_out =
  sumd_rssi :: u8
  sumd_rx_count :: u8
  sumd_channel_count :: u16
  sumd_channels :: "u16 list"
  sumd_failsafe :: bool

section \<open>Checksums\<close>

definition sumd_crc16_bit :: "u16 \<Rightarrow> u16" where
  "sumd_crc16_bit c = (if c AND 0x8000 \<noteq> 0 then push_bit 1 c XOR 0x1021 else push_bit 1 c)"

definition sumd_crc16 :: "u16 \<Rightarrow> u8 \<Rightarrow> u16" where
  "sumd_crc16 c value = (sumd_crc16_bit ^^ 8) (c XOR push_bit 8 (ucast value))"

definition sumd_crc8 :: "u8 \<Rightarrow> u8 \<Rightarrow> u8" where
  "sumd_crc8 c value = c + value"

definition add_crc :: "u8 \<Rightarrow> sumd \<Rightarrow> sumd" where
  "add_crc byte s =
     (if is_sumd s then s\<lparr>crc16_acc := sumd_crc16 (crc16_acc s) byte\<rparr>
      else s\<lparr>crc8_acc := sumd_crc8 (crc8_acc s) byte\<rparr>)"

section \<open>Channels\<close>

definition su_value :: "u8 list \<Rightarrow> nat \<Rightarrow> u16" where
  "su_value pkt i =
     drop_bit 3 (push_bit 8 (ucast (pkt ! (su_data + i * 2 + 1))) OR ucast (pkt ! (su_data + i * 2 + 2)))"

definition sumd_rest :: "u8 list \<Rightarrow> nat list \<Rightarrow> u16 list \<Rightarrow> u16 list option" where
  "sumd_rest pkt is ch = store_each (su_value pkt) is ch"

text \<open>The first four channels are reordered and always written; the others follow in order.\<close>

definition sumd_channel_values :: "u8 list \<Rightarrow> u16 list \<Rightarrow> u16 list option" where
  "sumd_channel_values pkt ch =
     Option.bind (store 0 (su_value pkt 1) ch) (\<lambda>c1.
     Option.bind (store 1 (su_value pkt 2) c1) (\<lambda>c2.
     Option.bind (store 2 (su_value pkt 0) c2) (\<lambda>c3.
     Option.bind (store 3 (su_value pkt 3) c3) (\<lambda>c4.
       sumd_rest pkt [4..<unat (pkt ! su_length)] c4))))"

definition sumd_packet :: "u16 \<Rightarrow> sumd \<Rightarrow> sumd_out \<Rightarrow> (sumd \<times> sumd_out) option" where
  "sumd_packet max_chan_count s out =
     (let pkt = (if ucast (su_packet s ! su_length) > max_chan_count
                 then (su_packet s)[su_length := ucast max_chan_count] else su_packet s);
          out1 = out\<lparr>sumd_rx_count := sumd_rx_count out + 1, sumd_rssi := 100,
                     sumd_failsafe := (pkt ! su_status = SUMD_ID_FAILSAFE),
                     sumd_channel_count := ucast (pkt ! su_length)\<rparr>
      in map_option (\<lambda>ch. (s\<lparr>su_packet := pkt\<rparr>, out1\<lparr>sumd_channels := ch\<rparr>))
           (sumd_channel_values pkt (sumd_channels out1)))"

section \<open>The decoder\<close>

definition sumd_header :: "u8 \<Rightarrow> sumd \<Rightarrow> int \<times> sumd" where
  "sumd_header byte s =
     (if byte = SUMD_HEADER_ID
      then (1, s\<lparr>su_packet := (su_packet s)[0 := byte], is_sumd := True, su_rxlen := 0, crcOK := False,
                 crc16_acc := sumd_crc16 0 byte, crc8_acc := sumd_crc8 0 byte,
                 su_state := SUMD_DECODE_STATE_GOT_HEADER\<rparr>)
      else (3, s))"

definition sumd_status :: "u8 \<Rightarrow> sumd \<Rightarrow> sumd" where
  "sumd_status byte s =
     (if byte = SUMD_ID_SUMD \<or> byte = SUMD_ID_FAILSAFE \<or> byte = SUMD_ID_SUMH
      then let s1 = s\<lparr>su_packet := (su_packet s)[su_status := byte]\<rparr>;
               s2 = (if byte = SUMD_ID_SUMH then s1\<lparr>is_sumd := False\<rparr> else s1)
           in (add_crc byte s2)\<lparr>su_state := SUMD_DECODE_STATE_GOT_STATE\<rparr>
      else s\<lparr>su_state := SUMD_DECODE_STATE_UNSYNCED\<rparr>)"

definition sumd_length :: "u8 \<Rightarrow> sumd \<Rightarrow> sumd" where
  "sumd_length byte s =
     (if 2 \<le> unat byte \<and> unat byte \<le> SUMD_MAX_CHANNELS
      then let s1 = add_crc byte (s\<lparr>su_packet := (su_packet s)[su_length := byte]\<rparr>)
           in s1\<lparr>su_rxlen := su_rxlen s1 + 1, su_state := SUMD_DECODE_STATE_GOT_LEN\<rparr>
      else s\<lparr>su_state := SUMD_DECODE_STATE_UNSYNCED\<rparr>)"

definition sumd_data :: "u8 \<Rightarrow> sumd \<Rightarrow> sumd option" where
  "sumd_data byte s =
     (case store (su_data + unat (su_rxlen s)) byte (su_packet s) of
        None \<Rightarrow> None
      | Some pkt \<Rightarrow>
          let s1 = add_crc byte (s\<lparr>su_packet := pkt\<rparr>); n = su_rxlen s1 + 1
          in Some (s1\<lparr>su_rxlen := n,
                      su_state := (if unat n \<le> unat (pkt ! su_length) * 2
                                   then SUMD_DECODE_STATE_GOT_LEN else SUMD_DECODE_STATE_GOT_DATA)\<rparr>))"

definition sumd_check :: "u8 \<Rightarrow> sumd \<Rightarrow> sumd" where
  "sumd_check byte s =
     (if is_sumd s
      then let s1 = s\<lparr>su_packet := (su_packet s)[su_crc16_low := byte]\<rparr>
           in if crc16_acc s1 = push_bit 8 (ucast (su_packet s1 ! su_crc16_high)) + ucast (su_packet s1 ! su_crc16_low)
              then s1\<lparr>crcOK := True\<rparr> else s1
      else let s1 = s\<lparr>su_packet := (su_packet s)[su_crc8 := byte]\<rparr>
           in if crc8_acc s1 = su_packet s1 ! su_crc8 then s1\<lparr>crcOK := True\<rparr> else s1)"

definition sumd_decode :: "u16 \<Rightarrow> u8 \<Rightarrow> sumd \<times> sumd_out \<Rightarrow> (int \<times> sumd \<times> sumd_out) option" where
  "sumd_decode max_chan_count byte so =
     (case so of (s, out) \<Rightarrow>
      case su_state s of
        SUMD_DECODE_STATE_UNSYNCED \<Rightarrow> (case sumd_header byte s of (r, s1) \<Rightarrow> Some (r, s1, out))
      | SUMD_DECODE_STATE_GOT_HEADER \<Rightarrow> Some (1, sumd_status byte s, out)
      | SUMD_DECODE_STATE_GOT_STATE \<Rightarrow> Some (1, sumd_length byte s, out)
      | SUMD_DECODE_STATE_GOT_LEN \<Rightarrow> map_option (\<lambda>s1. (1, s1, out)) (sumd_data byte s)
      | SUMD_DECODE_STATE_GOT_DATA \<Rightarrow>
          Some (1, s\<lparr>su_packet := (su_packet s)[su_crc16_high := byte],
                     su_state := (if is_sumd s then SUMD_DECODE_STATE_GOT_CRC else SUMD_DECODE_STATE_GOT_CRC16_BYTE_1)\<rparr>, out)
      | SUMD_DECODE_STATE_GOT_CRC16_BYTE_1 \<Rightarrow>
          Some (1, s\<lparr>su_packet := (su_packet s)[su_crc16_low := byte], su_state := SUMD_DECODE_STATE_GOT_CRC16_BYTE_2\<rparr>, out)
      | SUMD_DECODE_STATE_GOT_CRC16_BYTE_2 \<Rightarrow>
          Some (1, s\<lparr>su_packet := (su_packet s)[su_telemetry := byte], su_state := SUMD_DECODE_STATE_GOT_CRC\<rparr>, out)
      | SUMD_DECODE_STATE_GOT_CRC \<Rightarrow>
          let s1 = sumd_check byte s
          in if crcOK s1
             then map_option (\<lambda>(s2, out2). (0, s2\<lparr>su_state := SUMD_DECODE_STATE_UNSYNCED\<rparr>, out2))
                    (sumd_packet max_chan_count s1 out)
             else Some (4, s1\<lparr>su_state := SUMD_DECODE_STATE_UNSYNCED\<rparr>, out))"

fun sumd_run :: "u16 \<Rightarrow> u8 list \<Rightarrow> int \<times> sumd \<times> sumd_out \<Rightarrow> (int \<times> sumd \<times> sumd_out) option" where
  "sumd_run m [] rso = Some rso"
| "sumd_run m (b # bs) rso = Option.bind (sumd_decode m b (snd rso)) (sumd_run m bs)"

lemma sumd_run_append: "sumd_run m (as @ bs) rso = Option.bind (sumd_run m as rso) (sumd_run m bs)"
  by (induction as arbitrary: rso) (auto simp: Option.bind_assoc split: bind_splits)

section \<open>Collecting a packet\<close>

text \<open>After the header, the status of a live SUMD frame, the length byte and the data bytes \<open>bs\<close>.\<close>

definition sumd_collecting :: "u8 \<Rightarrow> u8 list \<Rightarrow> sumd \<Rightarrow> bool" where
  "sumd_collecting l bs s \<longleftrightarrow> length (su_packet s) = sizeof_ReceiverFcPacketHoTT \<and> is_sumd s \<and> \<not> crcOK s \<and>
     su_packet s ! su_status = SUMD_ID_SUMD \<and> su_packet s ! su_length = l \<and> unat (su_rxlen s) = length bs + 1 \<and>
     (\<forall>j<length bs. su_packet s ! (4 + j) = bs ! j) \<and>
     crc16_acc s = foldl sumd_crc16 0 ([SUMD_HEADER_ID, SUMD_ID_SUMD, l] @ bs)"

lemma sumd_start:
  assumes "su_state s = SUMD_DECODE_STATE_UNSYNCED" and "length (su_packet s) = sizeof_ReceiverFcPacketHoTT"
    and "2 \<le> unat l" and "unat l \<le> 32"
  shows "\<exists>s'. sumd_run m [SUMD_HEADER_ID, SUMD_ID_SUMD, l] (r, s, out) = Some (1, s', out) \<and>
           sumd_collecting l [] s' \<and> su_state s' = SUMD_DECODE_STATE_GOT_LEN"
  using assms
  by (simp add: sumd_decode_def sumd_header_def sumd_status_def sumd_length_def add_crc_def sumd_collecting_def Let_def)

lemma sumd_collect_byte:
  assumes "su_state s = SUMD_DECODE_STATE_GOT_LEN" and "sumd_collecting l bs s" and "length bs < 2 * unat l" and "unat l \<le> 32"
  shows "\<exists>s'. sumd_decode m b (s, out) = Some (1, s', out) \<and> sumd_collecting l (bs @ [b]) s' \<and>
           su_state s' = (if length bs + 1 < 2 * unat l then SUMD_DECODE_STATE_GOT_LEN else SUMD_DECODE_STATE_GOT_DATA)"
proof -
  have n: "unat (su_rxlen s) = length bs + 1" "length (su_packet s) = 71"
    using assms(2) by (simp_all add: sumd_collecting_def)
  then have u: "unat (su_rxlen s + 1) = length bs + 2"
    using unat_succ [of "su_rxlen s"] assms(3,4) by simp
  define s1 where "s1 = s\<lparr>su_packet := (su_packet s)[4 + length bs := b], crc16_acc := sumd_crc16 (crc16_acc s) b,
     su_rxlen := su_rxlen s + 1,
     su_state := (if length bs + 1 < 2 * unat l then SUMD_DECODE_STATE_GOT_LEN else SUMD_DECODE_STATE_GOT_DATA)\<rparr>"
  have "sumd_decode m b (s, out) = Some (1, s1, out)"
    using assms n u by (auto simp: sumd_decode_def sumd_data_def store_def add_crc_def sumd_collecting_def Let_def s1_def)
  moreover have "sumd_collecting l (bs @ [b]) s1"
    using assms(2,3,4) n u by (auto simp: sumd_collecting_def s1_def nth_append nth_list_update)
  ultimately show ?thesis
    by (auto simp: s1_def)
qed

lemma sumd_collect_bytes:
  assumes "su_state s = SUMD_DECODE_STATE_GOT_LEN" and "sumd_collecting l bs s" and "cs \<noteq> []"
    and "length (bs @ cs) = 2 * unat l" and "unat l \<le> 32"
  shows "\<exists>s'. sumd_run m cs (1, s, out) = Some (1, s', out) \<and> sumd_collecting l (bs @ cs) s' \<and>
           su_state s' = SUMD_DECODE_STATE_GOT_DATA"
  using assms
proof (induction cs arbitrary: bs s)
  case (Cons c cs)
  obtain s1 where s1: "sumd_decode m c (s, out) = Some (1, s1, out)" "sumd_collecting l (bs @ [c]) s1"
      "su_state s1 = (if length bs + 1 < 2 * unat l then SUMD_DECODE_STATE_GOT_LEN else SUMD_DECODE_STATE_GOT_DATA)"
    using sumd_collect_byte [OF Cons(2,3), of m c out] Cons(5,6) by auto
  show ?case
  proof (cases "cs = []")
    case True
    then show ?thesis using s1 Cons(5) by simp
  next
    case False
    then have "length bs + 1 < 2 * unat l" using Cons(5) by (cases cs) auto
    then show ?thesis using False Cons(1) [of s1 "bs @ [c]"] s1 Cons(5,6) by simp
  qed
qed simp

lemma sumd_collected:
  assumes "su_state s = SUMD_DECODE_STATE_UNSYNCED" and "length (su_packet s) = sizeof_ReceiverFcPacketHoTT"
    and "2 \<le> unat l" and "unat l \<le> 32" and "length bs = 2 * unat l"
  shows "\<exists>s'. sumd_run m ([SUMD_HEADER_ID, SUMD_ID_SUMD, l] @ bs) (r, s, out) = Some (1, s', out) \<and>
           sumd_collecting l bs s' \<and> su_state s' = SUMD_DECODE_STATE_GOT_DATA"
proof -
  have ne: "bs \<noteq> []" using assms(3,5) by auto
  obtain s1 where s1: "sumd_run m [SUMD_HEADER_ID, SUMD_ID_SUMD, l] (r, s, out) = Some (1, s1, out)"
      "sumd_collecting l [] s1" "su_state s1 = SUMD_DECODE_STATE_GOT_LEN"
    using sumd_start [OF assms(1-4), of m r out] by auto
  show ?thesis
    using sumd_collect_bytes [OF s1(3,2) ne, of m out] assms(4,5) s1(1)
    by (simp only: sumd_run_append Option.bind.simps) simp
qed

section \<open>Sending\<close>

definition su_bytes :: "u16 \<Rightarrow> u8 list" where
  "su_bytes v = [ucast (drop_bit 8 (push_bit 3 v)), ucast (push_bit 3 v)]"

definition sumd_frame_bytes :: "u16 list \<Rightarrow> u8 list" where
  "sumd_frame_bytes vs =
     (let body = [SUMD_HEADER_ID, SUMD_ID_SUMD, of_nat (length vs)] @ concat (map su_bytes vs);
          c = foldl sumd_crc16 0 body
      in body @ [ucast (drop_bit 8 c), ucast c])"

lemma join_bytes: "push_bit 8 (ucast (ucast (drop_bit 8 c) :: u8)) + ucast (ucast c :: u8) = (c :: u16)"
proof -
  have "push_bit 8 (ucast (ucast (drop_bit 8 c) :: u8)) AND ucast (ucast c :: u8) = (0 :: u16)"
    by (rule bit_word_eqI) (auto simp: bit_simps)
  then have "push_bit 8 (ucast (ucast (drop_bit 8 c) :: u8)) + ucast (ucast c :: u8) =
      (push_bit 8 (ucast (ucast (drop_bit 8 c) :: u8)) OR ucast (ucast c :: u8) :: u16)"
    by (rule disjunctive_add_eq_or)
  also have "\<dots> = c"
    by (rule bit_word_eqI) (auto simp: bit_simps)
  finally show ?thesis .
qed

lemma su_value_bytes:
  assumes "v < 8192"
  shows "drop_bit 3 (push_bit 8 (ucast (su_bytes v ! 0)) OR ucast (su_bytes v ! 1)) = v"
proof -
  have "bit v n \<Longrightarrow> n < 13" for n
  proof -
    have "take_bit 13 v = v"
      using assms by (simp add: take_bit_eq_mod word_less_nat_alt word_unat_eq_iff unat_mod)
    then show "bit v n \<Longrightarrow> n < 13" by (metis bit_take_bit_iff)
  qed
  then show ?thesis
    unfolding su_bytes_def by (intro bit_word_eqI) (fastforce simp: bit_simps)
qed

lemma length_su_bytes [simp]: "length (su_bytes v) = 2"
  by (simp add: su_bytes_def)

lemma length_concat_su [simp]: "length (concat (map su_bytes vs)) = 2 * length vs"
  by (induction vs) auto

lemma nth_concat_su:
  "i < length vs \<Longrightarrow> concat (map su_bytes vs) ! (2 * i) = su_bytes (vs ! i) ! 0 \<and>
     concat (map su_bytes vs) ! (2 * i + 1) = su_bytes (vs ! i) ! 1"
proof (induction vs arbitrary: i)
  case (Cons v vs)
  then show ?case by (cases i) (auto simp: nth_append su_bytes_def)
qed simp

section \<open>Channels of a packet\<close>

lemma sumd_rest_upt:
  "a \<le> b \<Longrightarrow> b \<le> length ch \<Longrightarrow>
   sumd_rest pkt [a..<b] ch = Some (take a ch @ map (su_value pkt) [a..<b] @ drop b ch)"
  by (simp add: sumd_rest_def store_each_upt)

lemma sumd_channel_values_eq:
  assumes "4 \<le> unat (pkt ! 2)" and "unat (pkt ! 2) \<le> length ch"
  shows "sumd_channel_values pkt ch =
     Some ([su_value pkt 1, su_value pkt 2, su_value pkt 0, su_value pkt 3] @ map (su_value pkt) [4..<unat (pkt ! 2)] @
           drop (unat (pkt ! 2)) ch)"
proof -
  obtain a b c d rest where ch: "ch = a # b # c # d # rest"
    using le_trans [OF assms] by (auto simp: numeral_eq_Suc Suc_le_length_iff)
  show ?thesis
    using assms sumd_rest_upt [of 4 "unat (pkt ! 2)" "su_value pkt 1 # su_value pkt 2 # su_value pkt 0 # su_value pkt 3 # rest" pkt]
    by (cases "unat (pkt ! 2)"; auto simp: sumd_channel_values_def store_def ch numeral_eq_Suc Suc_le_eq less_iff_Suc_add)
qed

section \<open>Frames accepted\<close>

text \<open>The last two bytes of a frame with a matching checksum hand the packet over.\<close>

lemma sumd_finish:
  assumes "su_state s = SUMD_DECODE_STATE_GOT_DATA" and "sumd_collecting l bs s"
    and c: "c = foldl sumd_crc16 0 ([SUMD_HEADER_ID, SUMD_ID_SUMD, l] @ bs)"
  shows "\<exists>s'. sumd_run m [ucast (drop_bit 8 c), ucast c] (1, s, out) =
           map_option (\<lambda>(s2, out2). (0, s2\<lparr>su_state := SUMD_DECODE_STATE_UNSYNCED\<rparr>, out2)) (sumd_packet m s' out) \<and>
           su_packet s' = (su_packet s)[67 := ucast (drop_bit 8 c), 68 := ucast c]"
proof -
  define s1 where "s1 = s\<lparr>su_packet := (su_packet s)[67 := ucast (drop_bit 8 c)], su_state := SUMD_DECODE_STATE_GOT_CRC\<rparr>"
  define s2 where "s2 = s1\<lparr>su_packet := (su_packet s1)[68 := ucast c], crcOK := True\<rparr>"
  have n: "length (su_packet s) = 71" "is_sumd s" "crc16_acc s = c"
    using assms(2) c by (simp_all add: sumd_collecting_def)
  have 1: "sumd_decode m (ucast (drop_bit 8 c)) (s, out) = Some (1, s1, out)"
    using assms(1) n by (simp add: sumd_decode_def s1_def)
  have "sumd_check (ucast c) s1 = s2"
    using n join_bytes [of c] by (simp add: sumd_check_def s1_def s2_def Let_def)
  then have "sumd_decode m (ucast c) (s1, out) =
      map_option (\<lambda>(s2, out2). (0, s2\<lparr>su_state := SUMD_DECODE_STATE_UNSYNCED\<rparr>, out2)) (sumd_packet m s2 out)"
    by (simp add: sumd_decode_def s1_def s2_def Let_def)
  then show ?thesis
    using 1 by (intro exI [of _ s2]) (auto simp: s1_def s2_def split: option.splits bind_splits)
qed

text \<open>The checksum a transmitter sends for the channels \<open>vs\<close>.\<close>

definition sumd_frame_crc :: "u16 list \<Rightarrow> u16" where
  "sumd_frame_crc vs =
     foldl sumd_crc16 0 ([SUMD_HEADER_ID, SUMD_ID_SUMD, of_nat (length vs)] @ concat (map su_bytes vs))"

text \<open>
  A frame of four to 32 channels, whatever their values, is accepted, and the channels are read from the packet with
  the checksum's bytes written to it last.
\<close>

lemma sumd_frame_received:
  assumes "su_state s = SUMD_DECODE_STATE_UNSYNCED" and "length (su_packet s) = 71"
    and "4 \<le> length vs" and "length vs \<le> 32" and "length vs \<le> unat m" and "length vs \<le> length (sumd_channels out)"
  shows "\<exists>s' out'. sumd_run m (sumd_frame_bytes vs) (r, s, out) = Some (0, s', out') \<and>
           su_state s' = SUMD_DECODE_STATE_UNSYNCED \<and> length (su_packet s') = 71 \<and>
           su_packet s' ! 67 = ucast (drop_bit 8 (sumd_frame_crc vs)) \<and>
           (\<forall>j<min (2 * length vs) 63. su_packet s' ! (4 + j) = concat (map su_bytes vs) ! j) \<and>
           out' = \<lparr>sumd_rssi = 100, sumd_rx_count = sumd_rx_count out + 1, sumd_channel_count = of_nat (length vs),
                   sumd_channels = map (su_value (su_packet s')) ([1, 2, 0, 3] @ [4..<length vs]) @
                                   drop (length vs) (sumd_channels out),
                   sumd_failsafe = False\<rparr>"
proof -
  define l :: u8 where "l = of_nat (length vs)"
  define bs where "bs = concat (map su_bytes vs)"
  define c where "c = sumd_frame_crc vs"
  have l: "unat l = length vs"
    using assms(4) by (simp add: l_def unsigned_of_nat take_bit_nat_eq_self)
  have bs: "length bs = 2 * length vs"
    by (simp add: bs_def)
  obtain s2 where s2: "sumd_run m ([SUMD_HEADER_ID, SUMD_ID_SUMD, l] @ bs) (r, s, out) = Some (1, s2, out)"
      "sumd_collecting l bs s2" "su_state s2 = SUMD_DECODE_STATE_GOT_DATA"
    using sumd_collected [OF assms(1), of l bs m r out] assms(2,3,4) l bs by auto
  have c': "c = foldl sumd_crc16 0 ([SUMD_HEADER_ID, SUMD_ID_SUMD, l] @ bs)"
    by (simp add: c_def sumd_frame_crc_def bs_def l_def)
  obtain s3 where s3: "sumd_run m [ucast (drop_bit 8 c), ucast c] (1, s2, out) =
        map_option (\<lambda>(s2, out2). (0, s2\<lparr>su_state := SUMD_DECODE_STATE_UNSYNCED\<rparr>, out2)) (sumd_packet m s3 out)"
      "su_packet s3 = (su_packet s2)[67 := ucast (drop_bit 8 c), 68 := ucast c]"
    using sumd_finish [OF s2(3,2) c', of m out] by auto
  have pkt: "su_packet s3 ! 2 = l" "su_packet s3 ! 1 = 1" "length (su_packet s3) = 71"
      "su_packet s3 ! 67 = ucast (drop_bit 8 c)" "\<forall>j<min (2 * length vs) 63. su_packet s3 ! (4 + j) = bs ! j"
    using s2(2) s3(2) bs by (auto simp: sumd_collecting_def)
  have "\<not> ucast l > m"
    using assms(4,5) l by (simp add: word_less_nat_alt unsigned_ucast_eq take_bit_nat_eq_self)
  then have "sumd_packet m s3 out = Some (s3, \<lparr>sumd_rssi = 100, sumd_rx_count = sumd_rx_count out + 1,
      sumd_channel_count = ucast l,
      sumd_channels = map (su_value (su_packet s3)) ([1, 2, 0, 3] @ [4..<length vs]) @
                                   drop (length vs) (sumd_channels out), sumd_failsafe = False\<rparr>)"
    using pkt l assms(3,6) sumd_channel_values_eq [of "su_packet s3" "sumd_channels out"]
    by (simp add: sumd_packet_def Let_def)
  moreover have "sumd_run m (sumd_frame_bytes vs) (r, s, out) = sumd_run m [ucast (drop_bit 8 c), ucast c] (1, s2, out)"
  proof -
    have "sumd_frame_bytes vs = ([SUMD_HEADER_ID, SUMD_ID_SUMD, l] @ bs) @ [ucast (drop_bit 8 c), ucast c]"
      by (simp add: sumd_frame_bytes_def c_def sumd_frame_crc_def l_def bs_def Let_def)
    then show ?thesis
      using s2(1) by (simp only: sumd_run_append Option.bind.simps)
  qed
  moreover have "(ucast l :: u16) = of_nat (length vs)"
    using l by (simp add: word_unat_eq_iff unsigned_ucast_eq take_bit_nat_eq_self unsigned_of_nat)
  ultimately show ?thesis
    using s3(1) pkt by (intro exI [of _ "s3\<lparr>su_state := SUMD_DECODE_STATE_UNSYNCED\<rparr>"]) (simp add: c_def bs_def)
qed

lemma su_value_read:
  assumes "\<forall>j<min (2 * length vs) 63. pkt ! (4 + j) = concat (map su_bytes vs) ! j"
    and "i < length vs" and "i < 31" and "vs ! i < 8192"
  shows "su_value pkt i = vs ! i"
proof -
  have "pkt ! (4 + 2 * i) = su_bytes (vs ! i) ! 0" "pkt ! (4 + (2 * i + 1)) = su_bytes (vs ! i) ! 1"
    using assms(1) [rule_format, of "2 * i"] assms(1) [rule_format, of "2 * i + 1"] nth_concat_su [OF assms(2)] assms(2,3)
    by auto
  then show ?thesis
    using su_value_bytes [OF assms(4)] by (simp add: su_value_def mult.commute)
qed

text \<open>
  C23. A transmitter's SUMD frame of four to 31 channels is decoded to the values sent: whatever the decoder's packet
  buffer held before, its last byte returns 0, the three first channels are reordered as roll, pitch, throttle, every
  other channel keeps its place, the entries of the caller's array past the channels sent are left alone, and the
  decoder waits for the next header.
\<close>

theorem sumd_frame_decoded:
  assumes "su_state s = SUMD_DECODE_STATE_UNSYNCED" and "length (su_packet s) = sizeof_ReceiverFcPacketHoTT"
    and "4 \<le> length vs" and "length vs \<le> 31" and "\<forall>v\<in>set vs. v < 8192"
    and "length vs \<le> unat m" and "length vs \<le> length (sumd_channels out)"
  shows "\<exists>s'. sumd_run m (sumd_frame_bytes vs) (r, s, out) =
     Some (0, s', \<lparr>sumd_rssi = 100, sumd_rx_count = sumd_rx_count out + 1, sumd_channel_count = of_nat (length vs),
                   sumd_channels = [vs ! 1, vs ! 2, vs ! 0] @ drop 3 vs @ drop (length vs) (sumd_channels out),
                   sumd_failsafe = False\<rparr>) \<and>
     su_state s' = SUMD_DECODE_STATE_UNSYNCED \<and> length (su_packet s') = sizeof_ReceiverFcPacketHoTT"
proof -
  obtain s' out' where *: "sumd_run m (sumd_frame_bytes vs) (r, s, out) = Some (0, s', out')"
      "su_state s' = SUMD_DECODE_STATE_UNSYNCED" "length (su_packet s') = 71"
      "\<forall>j<min (2 * length vs) 63. su_packet s' ! (4 + j) = concat (map su_bytes vs) ! j"
      "out' = \<lparr>sumd_rssi = 100, sumd_rx_count = sumd_rx_count out + 1, sumd_channel_count = of_nat (length vs),
              sumd_channels = map (su_value (su_packet s')) ([1, 2, 0, 3] @ [4..<length vs]) @
                              drop (length vs) (sumd_channels out), sumd_failsafe = False\<rparr>"
    using sumd_frame_received [OF assms(1) _ assms(3) _ assms(6,7), of r] assms(2,4) by auto
  have v: "su_value (su_packet s') i = vs ! i" if "i < length vs" for i
    using su_value_read [OF *(4) that] assms(4,5) that by simp
  have "[1, 2, 0, 3] @ [4..<length vs] = [1, 2, 0] @ [3..<length vs]"
    using assms(3) upt_conv_Cons [of 3 "length vs"] by simp
  moreover have "map (su_value (su_packet s')) [3..<length vs] = drop 3 vs"
    by (rule nth_equalityI) (auto simp: v)
  ultimately show ?thesis
    using * v [of 1] v [of 2] v [OF less_le_trans [OF _ assms(3)], of 0] assms(3) by simp
qed

definition sumd_demo :: sumd where
  "sumd_demo = \<lparr>su_state = SUMD_DECODE_STATE_UNSYNCED, su_rxlen = 0, su_packet = replicate 71 0, crc8_acc = 0,
     crc16_acc = 0, is_sumd = True, crcOK = False\<rparr>"

definition sumd_demo_out :: sumd_out where
  "sumd_demo_out = \<lparr>sumd_rssi = 0, sumd_rx_count = 0, sumd_channel_count = 0, sumd_channels = replicate 32 0,
     sumd_failsafe = False\<rparr>"

theorem sumd_frame_decoded_witness:
  "\<exists>s'. sumd_run 18 (sumd_frame_bytes [1000, 1500, 1600, 1700, 2000]) (3, sumd_demo, sumd_demo_out) =
     Some (0, s', \<lparr>sumd_rssi = 100, sumd_rx_count = 1, sumd_channel_count = 5,
                   sumd_channels = [1500, 1600, 1000, 1700, 2000] @ replicate 27 0, sumd_failsafe = False\<rparr>) \<and>
     su_state s' = SUMD_DECODE_STATE_UNSYNCED \<and> length (su_packet s') = sizeof_ReceiverFcPacketHoTT"
  using sumd_frame_decoded [of sumd_demo "[1000, 1500, 1600, 1700, 2000]" 18 sumd_demo_out 3]
  by (simp add: sumd_demo_def sumd_demo_out_def)

text \<open>
  With all 32 channels that the length check admits, the last channel is not the one sent. The data bytes are
  stored from index 1 of \<^verbatim>\<open>sumd_data\<close>, so the 64th lands one past its end, on \<^verbatim>\<open>crc16_high\<close>,
  and the high byte of the checksum overwrites it before the channels are read.
\<close>

lemma sumd_last_channel_overwritten:
  assumes "su_state s = SUMD_DECODE_STATE_UNSYNCED" and "length (su_packet s) = sizeof_ReceiverFcPacketHoTT"
    and "length vs = 32" and "32 \<le> unat m" and "32 \<le> length (sumd_channels out)"
  shows "\<exists>s' out'. sumd_run m (sumd_frame_bytes vs) (r, s, out) = Some (0, s', out') \<and>
     sumd_channels out' ! 31 = drop_bit 3 (push_bit 8 (ucast (su_bytes (vs ! 31) ! 0)) OR drop_bit 8 (sumd_frame_crc vs))"
proof -
  obtain s' out' where *: "sumd_run m (sumd_frame_bytes vs) (r, s, out) = Some (0, s', out')"
      "su_packet s' ! 67 = ucast (drop_bit 8 (sumd_frame_crc vs))"
      "\<forall>j<min (2 * length vs) 63. su_packet s' ! (4 + j) = concat (map su_bytes vs) ! j"
      "sumd_channels out' = map (su_value (su_packet s')) ([1, 2, 0, 3] @ [4..<length vs]) @
                            drop (length vs) (sumd_channels out)"
    using sumd_frame_received [OF assms(1), of vs m out r] assms(2-5) by auto
  have "ucast (ucast (drop_bit 8 c) :: u8) = drop_bit 8 c" for c :: u16
    by (rule bit_word_eqI) (auto simp: bit_simps dest: bit_imp_le_length)
  moreover have "su_packet s' ! 66 = su_bytes (vs ! 31) ! 0"
    using *(3) [rule_format, of 62] nth_concat_su [of 31 vs] assms(3) by simp
  ultimately have "su_value (su_packet s') 31 =
      drop_bit 3 (push_bit 8 (ucast (su_bytes (vs ! 31) ! 0)) OR drop_bit 8 (sumd_frame_crc vs))"
    using *(2) by (simp add: su_value_def)
  then show ?thesis
    using * assms(3) by (simp add: nth_append)
qed

end
