(* ===== verification/Rc_Sbus.thy ===== *)
theory Rc_Sbus
  imports IO_Controls "HOL-Library.Monad_Syntax"
begin

text \<open>
  The S.BUS receiver and transmitter, \<^verbatim>\<open>src/src/lib/rc/sbus.cpp\<close>, as built for the PX4IO (NuttX). The frame buffer is
  \<open>sbus_frame\<close>; a write outside it, outside the caller's array of channels or outside the frame being sent, and a
  conversion of a floating-point value that does not fit the integer type, give \<open>None\<close>. Settings of the serial port
  are left out; the bytes that \<^verbatim>\<open>read\<close> returns and the time are arguments.
\<close>

section \<open>Data\<close>

definition SBUS_START_SYMBOL :: u8 where [simp]: "SBUS_START_SYMBOL = 0x0f"
definition SBUS_INPUT_CHANNELS :: nat where [simp]: "SBUS_INPUT_CHANNELS = 16"
definition SBUS_FLAGS_BYTE :: nat where [simp]: "SBUS_FLAGS_BYTE = 23"
definition SBUS_FAILSAFE_BIT :: nat where [simp]: "SBUS_FAILSAFE_BIT = 3"
definition SBUS_FRAMELOST_BIT :: nat where [simp]: "SBUS_FRAMELOST_BIT = 2"
definition SBUS1_MAX_RATE_HZ :: u16 where [simp]: "SBUS1_MAX_RATE_HZ = 300"
definition SBUS1_MIN_RATE_HZ :: u16 where [simp]: "SBUS1_MIN_RATE_HZ = 50"
definition SBUS1_DEFAULT_RATE_HZ :: u32 where [simp]: "SBUS1_DEFAULT_RATE_HZ = 72"
definition SBUS_FRAME_SIZE :: nat where [simp]: "SBUS_FRAME_SIZE = 25"
definition SBUS_BUFFER_SIZE :: nat where [simp]: "SBUS_BUFFER_SIZE = SBUS_FRAME_SIZE + SBUS_FRAME_SIZE div 2"
definition SBUS2_FRAME_SIZE_RX_VOLTAGE :: nat where [simp]: "SBUS2_FRAME_SIZE_RX_VOLTAGE = 3"

definition SBUS_RANGE_MIN :: rat where [simp]: "SBUS_RANGE_MIN = 200"
definition SBUS_RANGE_MAX :: rat where [simp]: "SBUS_RANGE_MAX = 1800"
definition SBUS_TARGET_MIN :: rat where [simp]: "SBUS_TARGET_MIN = 1000"
definition SBUS_TARGET_MAX :: rat where [simp]: "SBUS_TARGET_MAX = 2000"

definition SBUS_SCALE_FACTOR :: rat where
  "SBUS_SCALE_FACTOR = f32_div (f32_add SBUS_TARGET_MAX (- SBUS_TARGET_MIN)) (f32_add SBUS_RANGE_MAX (- SBUS_RANGE_MIN))"

definition SBUS_SCALE_OFFSET :: int where
  "SBUS_SCALE_OFFSET =
     f32_trunc (f32_add SBUS_TARGET_MIN (- f32_add (f32_mult SBUS_SCALE_FACTOR SBUS_RANGE_MIN) (1 / 2)))"

datatype SBUS2_DECODE_STATE =
    SBUS2_DECODE_STATE_DESYNC
  | SBUS2_DECODE_STATE_SBUS_START
  | SBUS2_DECODE_STATE_SBUS1_SYNC
  | SBUS2_DECODE_STATE_SBUS2_SYNC
  | SBUS2_DECODE_STATE_SBUS2_RX_VOLTAGE
  | SBUS2_DECODE_STATE_SBUS2_GPS
  | SBUS2_DECODE_STATE_SBUS2_DATA1
  | SBUS2_DECODE_STATE_SBUS2_DATA2

record sbus_vars =
  last_rx_time :: u64
  last_txframe_time :: u64
  sbus_decode_state :: SBUS2_DECODE_STATE
  sbus_frame :: "u8 list"
  partial_frame_count :: u32
  sbus1_frame_delay :: u32
  sbus_frame_drops :: u32

definition sbus_vars_init :: "u8 list \<Rightarrow> sbus_vars" where
  "sbus_vars_init buf =
     \<lparr>last_rx_time = 0, last_txframe_time = 0, sbus_decode_state = SBUS2_DECODE_STATE_DESYNC, sbus_frame = buf,
      partial_frame_count = 0, sbus1_frame_delay = 1000 * 1000 div SBUS1_DEFAULT_RATE_HZ, sbus_frame_drops = 0\<rparr>"

section \<open>Configuration\<close>

text \<open>\<open>now\<close> is the time \<^verbatim>\<open>hrt_absolute_time\<close> returns; \<open>fd\<close> in \<open>sbus_init\<close> is what \<^verbatim>\<open>open\<close> returns.\<close>

definition sbus_dropped_frames :: "sbus_vars \<Rightarrow> u32" where
  "sbus_dropped_frames s = sbus_frame_drops s"

definition sbus_config :: "int \<Rightarrow> u64 \<Rightarrow> sbus_vars \<Rightarrow> int \<times> sbus_vars" where
  "sbus_config sbus_fd now s =
     (if sbus_fd \<ge> 0 then 0 else -1, s\<lparr>partial_frame_count := 0, last_rx_time := now, sbus_frame_drops := 0\<rparr>)"

definition sbus_init :: "int \<Rightarrow> u64 \<Rightarrow> sbus_vars \<Rightarrow> int \<times> sbus_vars" where
  "sbus_init sbus_fd now s =
     (case sbus_config sbus_fd now s of (ret, s1) \<Rightarrow> (if ret = 0 then sbus_fd else -1, s1))"

definition sbus1_set_output_rate_hz :: "u16 \<Rightarrow> sbus_vars \<Rightarrow> sbus_vars" where
  "sbus1_set_output_rate_hz rate_hz s =
     (let r1 = (if rate_hz > SBUS1_MAX_RATE_HZ then SBUS1_MAX_RATE_HZ else rate_hz);
          r2 = (if r1 < SBUS1_MIN_RATE_HZ then SBUS1_MIN_RATE_HZ else r1)
      in s\<lparr>sbus1_frame_delay := 1000 * 1000 div ucast r2\<rparr>)"

section \<open>Sending\<close>

definition sbus1_value :: "u16 \<Rightarrow> u16 option" where
  "sbus1_value v =
     (let x = f32_trunc (f32_add (f32_div (f32 (of_int (uint v - SBUS_SCALE_OFFSET))) SBUS_SCALE_FACTOR) (1 / 2))
      in if 0 \<le> x \<and> x < 2 ^ 16
         then let value = of_int x in Some (if value > 0x07ff then 0x07ff else value)
         else None)"

function sbus1_carry :: "u8 \<Rightarrow> u8 \<Rightarrow> u8 \<times> u8" where
  "sbus1_carry byteindex ofs =
     (if ofs \<ge> 8 then sbus1_carry (byteindex + 1) (ofs - 8) else (byteindex, ofs))"
  by pat_completeness auto
termination
  by (relation "measure (\<lambda>(_, ofs). unat ofs)") (auto simp: word_le_nat_alt unat_sub_if')

declare sbus1_carry.simps [simp del]

definition or_store :: "nat \<Rightarrow> u8 \<Rightarrow> u8 list \<Rightarrow> u8 list option" where
  "or_store i v m = (if i < length m then Some (m[i := m ! i OR v]) else None)"

definition sbus1_put :: "u16 \<Rightarrow> u8 \<Rightarrow> u8 \<Rightarrow> u8 list \<Rightarrow> u8 list option" where
  "sbus1_put value byteindex ofs oframe =
     (let v = ucast value :: u32; b = unat byteindex; k = unat ofs
      in do {
           f1 \<leftarrow> or_store b (ucast (push_bit k v AND 0xff)) oframe;
           f2 \<leftarrow> or_store (b + 1) (ucast (drop_bit (8 - k) v AND 0xff)) f1;
           or_store (b + 2) (ucast (drop_bit (16 - k) v AND 0xff)) f2
         })"

text \<open>The loop over the channels, from channel \<open>i\<close> on.\<close>

fun sbus1_channels :: "u16 list \<Rightarrow> nat list \<Rightarrow> u8 \<Rightarrow> u8 \<Rightarrow> u8 list \<Rightarrow> u8 list option" where
  "sbus1_channels values [] byteindex ofs oframe = Some oframe"
| "sbus1_channels values (i # is) byteindex ofs oframe =
     (if i < length values
      then do {
        value \<leftarrow> sbus1_value (values ! i);
        let (b, k) = sbus1_carry byteindex ofs;
        f \<leftarrow> sbus1_put value b k oframe;
        sbus1_channels values is b (k + 11) f
      }
      else None)"

text \<open>The result is the frame written to the port, if one is due.\<close>

definition sbus1_output :: "u64 \<Rightarrow> u16 list \<Rightarrow> u16 \<Rightarrow> sbus_vars \<Rightarrow> (u8 list option \<times> sbus_vars) option" where
  "sbus1_output now values num_values s =
     (if now - last_txframe_time s > ucast (sbus1_frame_delay s)
      then map_option (\<lambda>f. (Some f, s\<lparr>last_txframe_time := now\<rparr>))
             (sbus1_channels values [0..<min (unat num_values) 16] 1 0 (0x0f # replicate 24 0))
      else Some (None, s))"

definition sbus2_output :: "u64 \<Rightarrow> u16 list \<Rightarrow> u16 \<Rightarrow> sbus_vars \<Rightarrow> (u8 list option \<times> sbus_vars) option" where
  "sbus2_output now values num_values s = sbus1_output now values num_values s"

section \<open>The decoder matrix\<close>

record sbus_bit_pick =
  pick_byte :: u8
  pick_rshift :: u8
  pick_mask :: u8
  pick_lshift :: u8

abbreviation pick :: "u8 \<Rightarrow> u8 \<Rightarrow> u8 \<Rightarrow> u8 \<Rightarrow> sbus_bit_pick" where
  "pick b r m l \<equiv> \<lparr>pick_byte = b, pick_rshift = r, pick_mask = m, pick_lshift = l\<rparr>"

definition sbus_decoder :: "sbus_bit_pick list list" where
  "sbus_decoder =
     [[pick  0 0 0xff 0, pick  1 0 0x07 8, pick  0 0 0x00  0],
      [pick  1 3 0x1f 0, pick  2 0 0x3f 5, pick  0 0 0x00  0],
      [pick  2 6 0x03 0, pick  3 0 0xff 2, pick  4 0 0x01 10],
      [pick  4 1 0x7f 0, pick  5 0 0x0f 7, pick  0 0 0x00  0],
      [pick  5 4 0x0f 0, pick  6 0 0x7f 4, pick  0 0 0x00  0],
      [pick  6 7 0x01 0, pick  7 0 0xff 1, pick  8 0 0x03  9],
      [pick  8 2 0x3f 0, pick  9 0 0x1f 6, pick  0 0 0x00  0],
      [pick  9 5 0x07 0, pick 10 0 0xff 3, pick  0 0 0x00  0],
      [pick 11 0 0xff 0, pick 12 0 0x07 8, pick  0 0 0x00  0],
      [pick 12 3 0x1f 0, pick 13 0 0x3f 5, pick  0 0 0x00  0],
      [pick 13 6 0x03 0, pick 14 0 0xff 2, pick 15 0 0x01 10],
      [pick 15 1 0x7f 0, pick 16 0 0x0f 7, pick  0 0 0x00  0],
      [pick 16 4 0x0f 0, pick 17 0 0x7f 4, pick  0 0 0x00  0],
      [pick 17 7 0x01 0, pick 18 0 0xff 1, pick 19 0 0x03  9],
      [pick 19 2 0x3f 0, pick 20 0 0x1f 6, pick  0 0 0x00  0],
      [pick 20 5 0x07 0, pick 21 0 0xff 3, pick  0 0 0x00  0]]"

definition sbus_piece :: "u8 list \<Rightarrow> sbus_bit_pick \<Rightarrow> u32" where
  "sbus_piece frame decode =
     (if pick_mask decode \<noteq> 0
      then push_bit (unat (pick_lshift decode))
             (drop_bit (unat (pick_rshift decode)) (ucast (frame ! (1 + unat (pick_byte decode)))) AND ucast (pick_mask decode))
      else 0)"

definition sbus_raw :: "u8 list \<Rightarrow> nat \<Rightarrow> u32" where
  "sbus_raw frame channel = fold (\<lambda>decode value. value OR sbus_piece frame decode) (sbus_decoder ! channel) 0"

text \<open>Scaling to microseconds; the sum is computed as an \<^verbatim>\<open>int\<close> and stored in 16 bits.\<close>

definition sbus_scaled :: "u32 \<Rightarrow> u16" where
  "sbus_scaled value =
     of_int (uint (of_int (f32_trunc (f32_add (f32_mult (f32 (of_nat (unat value))) SBUS_SCALE_FACTOR) (1 / 2))) :: u16)
             + SBUS_SCALE_OFFSET)"

definition sbus_channels :: "u8 list \<Rightarrow> nat \<Rightarrow> u16 list \<Rightarrow> u16 list option" where
  "sbus_channels frame chancount values =
     store_each (\<lambda>channel. sbus_scaled (sbus_raw frame channel)) [0..<chancount] values"

section \<open>Decoding a frame\<close>

definition sbus_following :: "u8 \<Rightarrow> SBUS2_DECODE_STATE option" where
  "sbus_following b =
     (if b = 0x00 then Some SBUS2_DECODE_STATE_SBUS1_SYNC
      else if b = 0x04 then Some SBUS2_DECODE_STATE_SBUS2_RX_VOLTAGE
      else if b = 0x14 then Some SBUS2_DECODE_STATE_SBUS2_GPS
      else if b = 0x24 \<or> b = 0x34 then Some SBUS2_DECODE_STATE_SBUS2_SYNC
      else None)"

definition sbus_switch :: "u8 list \<Rightarrow> nat \<Rightarrow> u16" where
  "sbus_switch frame n = (if tst (frame ! SBUS_FLAGS_BYTE) (BIT n) then 1000 else 0) + 998"

definition sbus_flags :: "u8 list \<Rightarrow> sbus_out \<Rightarrow> sbus_out" where
  "sbus_flags frame out =
     (if tst (frame ! SBUS_FLAGS_BYTE) (BIT SBUS_FAILSAFE_BIT)
      then out\<lparr>sbus_failsafe := True, sbus_frame_drop := True\<rparr>
      else if tst (frame ! SBUS_FLAGS_BYTE) (BIT SBUS_FRAMELOST_BIT)
      then out\<lparr>sbus_failsafe := False, sbus_frame_drop := True\<rparr>
      else out\<lparr>sbus_failsafe := False, sbus_frame_drop := False\<rparr>)"

definition sbus_decode ::
  "u16 \<Rightarrow> sbus_vars \<Rightarrow> sbus_out \<Rightarrow> (bool \<times> sbus_vars \<times> sbus_out) option" where
  "sbus_decode max_values s out =
     (let frame = sbus_frame s in
      if frame ! 0 \<noteq> SBUS_START_SYMBOL
      then Some (False, s\<lparr>sbus_frame_drops := sbus_frame_drops s + 1,
                          sbus_decode_state := SBUS2_DECODE_STATE_DESYNC\<rparr>, out)
      else case sbus_following (frame ! 24) of
        None \<Rightarrow> Some (False, s\<lparr>sbus_decode_state := SBUS2_DECODE_STATE_DESYNC\<rparr>, out)
      | Some st \<Rightarrow>
          let chancount = (if unat max_values > SBUS_INPUT_CHANNELS then SBUS_INPUT_CHANNELS else unat max_values) in do {
            values \<leftarrow> sbus_channels frame chancount (sbus_values out);
            (n, values) \<leftarrow>
              (if unat max_values > 17 \<and> chancount > 15
               then do {
                 v1 \<leftarrow> store 16 (sbus_switch frame 0) values;
                 v2 \<leftarrow> store 17 (sbus_switch frame 1) v1;
                 Some (18, v2)
               }
               else Some (chancount, values));
            Some (True, s\<lparr>sbus_decode_state := st\<rparr>,
                  sbus_flags frame (out\<lparr>sbus_values := values, sbus_count := of_nat n\<rparr>))
          })"

section \<open>The state machine\<close>

text \<open>The first start symbol after the first byte of the buffered bytes, 0 when there is none.\<close>

fun sbus_find_start :: "u8 list \<Rightarrow> nat list \<Rightarrow> nat" where
  "sbus_find_start frame [] = 0"
| "sbus_find_start frame (i # is) = (if frame ! i = SBUS_START_SYMBOL then i else sbus_find_start frame is)"

fun sbus_shift :: "nat \<Rightarrow> nat list \<Rightarrow> u8 list \<Rightarrow> u8 list" where
  "sbus_shift start_index [] frame = frame"
| "sbus_shift start_index (i # is) frame = sbus_shift start_index is (frame[i := frame ! (i + start_index)])"

definition sbus_recover :: "bool \<Rightarrow> sbus_vars \<Rightarrow> sbus_vars" where
  "sbus_recover decode_ret s =
     (let n = unat (partial_frame_count s);
          start_index = (if \<not> decode_ret \<and> sbus_decode_state s = SBUS2_DECODE_STATE_DESYNC
                         then sbus_find_start (sbus_frame s) [1..<n] else 0)
      in if start_index \<noteq> 0
         then s\<lparr>sbus_frame := sbus_shift start_index [0..<n - start_index] (sbus_frame s),
                partial_frame_count := partial_frame_count s - of_nat start_index,
                sbus_decode_state := SBUS2_DECODE_STATE_SBUS_START\<rparr>
         else s\<lparr>partial_frame_count := 0\<rparr>)"

definition sbus_push :: "u8 \<Rightarrow> sbus_vars \<Rightarrow> sbus_vars option" where
  "sbus_push b s =
     map_option (\<lambda>f. s\<lparr>sbus_frame := f, partial_frame_count := partial_frame_count s + 1\<rparr>)
       (store (unat (partial_frame_count s)) b (sbus_frame s))"

definition sbus_limits :: "sbus_vars \<Rightarrow> sbus_vars" where
  "sbus_limits s =
     (let s1 = (if unat (partial_frame_count s) = SBUS_BUFFER_SIZE
                then s\<lparr>partial_frame_count := 0, sbus_decode_state := SBUS2_DECODE_STATE_DESYNC\<rparr> else s)
      in if unat (partial_frame_count s1) = SBUS_FRAME_SIZE
         then s1\<lparr>partial_frame_count := 0, sbus_decode_state := SBUS2_DECODE_STATE_DESYNC\<rparr> else s1)"

definition sbus_slot_start :: "sbus_vars \<Rightarrow> sbus_vars" where
  "sbus_slot_start s =
     (if partial_frame_count s = 1 \<and> sbus_frame s ! 0 = SBUS_START_SYMBOL
      then s\<lparr>sbus_decode_state := SBUS2_DECODE_STATE_SBUS2_SYNC\<rparr> else s)"

definition sbus_slot_end :: "nat \<Rightarrow> u8 \<Rightarrow> sbus_vars \<Rightarrow> sbus_vars" where
  "sbus_slot_end slot payload s =
     (if unat (partial_frame_count s) < slot then s
      else if sbus_frame s ! 0 = payload then s\<lparr>partial_frame_count := 0\<rparr>
      else s\<lparr>sbus_decode_state := SBUS2_DECODE_STATE_DESYNC, sbus_frame_drops := sbus_frame_drops s + 1\<rparr>)"

definition sbus_byte ::
  "u16 \<Rightarrow> u8 \<Rightarrow> bool \<times> sbus_vars \<times> sbus_out \<Rightarrow> (bool \<times> sbus_vars \<times> sbus_out) option" where
  "sbus_byte max_channels b r =
     (case r of (decode_ret, s0, out) \<Rightarrow>
      let s = sbus_limits s0 in
      case sbus_decode_state s of
        SBUS2_DECODE_STATE_DESYNC \<Rightarrow>
          if b = SBUS_START_SYMBOL
          then map_option (\<lambda>s1. (decode_ret, s1, out))
                 (sbus_push b (s\<lparr>sbus_decode_state := SBUS2_DECODE_STATE_SBUS_START, partial_frame_count := 0\<rparr>))
          else Some (decode_ret, s, out)
      | SBUS2_DECODE_STATE_SBUS2_RX_VOLTAGE \<Rightarrow>
          map_option (\<lambda>s1. (decode_ret, sbus_slot_end SBUS2_FRAME_SIZE_RX_VOLTAGE 0x03 (sbus_slot_start s1), out))
            (sbus_push b s)
      | SBUS2_DECODE_STATE_SBUS2_GPS \<Rightarrow>
          map_option (\<lambda>s1. (decode_ret, sbus_slot_end 24 0x13 (sbus_slot_start s1), out)) (sbus_push b s)
      | SBUS2_DECODE_STATE_SBUS2_DATA1 \<Rightarrow> Some (False, s, out)
      | SBUS2_DECODE_STATE_SBUS2_DATA2 \<Rightarrow> Some (False, s, out)
      | _ \<Rightarrow> do {
          s1 \<leftarrow> sbus_push b s;
          if unat (partial_frame_count s1) < SBUS_FRAME_SIZE then Some (decode_ret, s1, out)
          else do {
            (ok, s2, out2) \<leftarrow> sbus_decode max_channels s1 out;
            Some (ok, sbus_recover ok s2, out2)
          }
        })"

fun sbus_bytes ::
  "u16 \<Rightarrow> u8 list \<Rightarrow> bool \<times> sbus_vars \<times> sbus_out \<Rightarrow> (bool \<times> sbus_vars \<times> sbus_out) option" where
  "sbus_bytes max_channels [] r = Some r"
| "sbus_bytes max_channels (b # bs) r = sbus_byte max_channels b r \<bind> sbus_bytes max_channels bs"

text \<open>\<open>drops\<close> is \<open>None\<close> for a null pointer; the new value is returned.\<close>

definition sbus_parse ::
  "u64 \<Rightarrow> u8 list \<Rightarrow> u32 option \<Rightarrow> u16 \<Rightarrow> sbus_vars \<Rightarrow> sbus_out \<Rightarrow>
   (bool \<times> u32 option \<times> sbus_vars \<times> sbus_out) option" where
  "sbus_parse now frame drops max_channels s out =
     map_option (\<lambda>(ret, s1, out1). (ret, map_option (\<lambda>_. sbus_frame_drops s1) drops, s1, out1))
       (sbus_bytes max_channels frame (False, s\<lparr>last_rx_time := now\<rparr>, out))"

text \<open>\<open>buf\<close> are the bytes read, \<open>None\<close> when \<^verbatim>\<open>read\<close> reports an error.\<close>

definition sbus_input ::
  "u8 list option \<Rightarrow> u64 \<Rightarrow> u16 \<Rightarrow> sbus_vars \<Rightarrow> sbus_out \<Rightarrow> (bool \<times> sbus_vars \<times> sbus_out) option" where
  "sbus_input buf now max_channels s out =
     (case buf of
        None \<Rightarrow> Some (False, s, out)
      | Some [] \<Rightarrow> Some (False, s, out)
      | Some (b # bs) \<Rightarrow>
          let s1 = (if now - last_rx_time s > 3000 \<and> partial_frame_count s > 0
                    then s\<lparr>partial_frame_count := 0, sbus_decode_state := SBUS2_DECODE_STATE_DESYNC\<rparr> else s)
          in if partial_frame_count s1 = 0 \<and> b \<noteq> SBUS_START_SYMBOL
             then Some (False, s1\<lparr>sbus_decode_state := SBUS2_DECODE_STATE_DESYNC\<rparr>, out)
             else map_option (\<lambda>(ret, _, s2, out2). (ret, s2, out2))
                    (sbus_parse now (b # bs) (Some (sbus_frame_drops s1)) max_channels s1 out))"

section \<open>Scaling\<close>

lemma SBUS_SCALE_FACTOR_eq [simp]: "SBUS_SCALE_FACTOR = 5 / 8"
  using f32_of_int [of 1000] f32_of_int [of 1600] f32_dyadic [of 5 3]
  by (simp add: SBUS_SCALE_FACTOR_def f32_add_def f32_div_def)

lemma SBUS_SCALE_OFFSET_eq [simp]: "SBUS_SCALE_OFFSET = 874"
proof -
  have "SBUS_SCALE_OFFSET = f32_trunc (f32 (1000 - f32 (251 / 2)))"
    using f32_of_int [of 125] by (simp add: SBUS_SCALE_OFFSET_def f32_add_def f32_mult_def)
  also have "\<dots> = f32_trunc (1749 / 2)"
  proof -
    have "f32 (251 / 2) = 251 / 2" and *: "f32 (1749 / 2) = 1749 / 2"
      using f32_dyadic [of 251 1] f32_dyadic [of 1749 1] by simp_all
    then have "1000 - f32 (251 / 2) = 1749 / 2"
      by simp
    then show ?thesis
      by (simp only: *)
  qed
  also have "\<dots> = 874"
    by (simp add: f32_trunc_def floor_eq_iff)
  finally show ?thesis .
qed

lemma sbus_scaled_eq:
  assumes "unat v \<le> 2047"
  shows "unat (sbus_scaled v) = 874 + (5 * unat v + 4) div 8"
proof -
  define n where "n = int (unat v)"
  have n: "0 \<le> n" "n \<le> 2047"
    using assms unfolding n_def by linarith+
  have "f32_trunc (f32_add (f32_mult (f32 (of_int n)) (5 / 8)) (1 / 2)) = f32_trunc (of_int (5 * n + 4) / 2 ^ 3)"
  proof -
    have "f32 (of_int n * (5 / 8)) = of_int (5 * n) / 2 ^ 3"
      using n f32_dyadic [of "5 * n" 3] by (simp add: mult.commute)
    moreover have "of_int (5 * n) / 2 ^ 3 + 1 / 2 = (of_int (5 * n + 4) / 2 ^ 3 :: rat)"
      by (simp add: add_divide_distrib)
    moreover have "f32 (of_int (5 * n + 4) / 2 ^ 3) = of_int (5 * n + 4) / 2 ^ 3" "f32 (of_int n) = of_int n"
      using n by (intro f32_dyadic f32_of_int; simp)+
    ultimately show ?thesis
      by (simp only: f32_add_def f32_mult_def)
  qed
  also have "\<dots> = (5 * n + 4) div 8"
    using n by (simp add: f32_trunc_def floor_divide_of_int_eq [where k = "5 * n + 4" and l = 8, where ?'a = rat, simplified])
  finally have s: "sbus_scaled v = of_int (uint (of_int ((5 * n + 4) div 8) :: u16) + 874)"
    by (simp add: sbus_scaled_def n_def)
  have q: "(5 * n + 4) div 8 \<le> 1279" "0 \<le> (5 * n + 4) div 8"
    using n by linarith+
  then have "sbus_scaled v = of_int ((5 * n + 4) div 8 + 874)"
    unfolding s by (simp add: uint_word_of_int_eq take_bit_int_eq_self)
  then have "uint (sbus_scaled v) = (5 * n + 4) div 8 + 874"
    using q by (simp only: uint_word_of_int_eq) (simp add: take_bit_int_eq_self)
  then have "int (unat (sbus_scaled v)) = int (874 + (5 * unat v + 4) div 8)"
    by (simp add: n_def zdiv_int)
  then show ?thesis
    by (simp only: of_nat_eq_iff)
qed

lemma sbus1_value_eq:
  assumes "874 \<le> unat v" "unat v \<le> 41833"
  shows "sbus1_value v = Some (of_nat (min 2047 ((16 * (unat v - 874) + 5) div 10)))"
proof -
  define x where "x = int (unat v) - 874"
  define y where "y = 8 * of_int x / (5 :: rat)"
  define a where "a = (512 * x) div 5"
  have x: "0 \<le> x" "x \<le> 40959"
    using assms unfolding x_def by linarith+
  then have a: "0 \<le> a" "a \<le> 4194304" "5 * a \<le> 512 * x" "512 * x < 5 * a + 5"
    by (simp_all add: a_def)
  have "(of_int (5 * a) :: rat) \<le> of_int (512 * x)" "(of_int (512 * x) :: rat) \<le> of_int (5 * a + 5)"
    using a by (simp_all only: of_int_le_iff)
  then have "of_int a / 2 ^ 6 \<le> y" "y \<le> of_int (a + 1) / 2 ^ 6"
    by (simp_all add: y_def)
  from f32_between [OF this] a
  have "of_int (a + 32) / 2 ^ 6 \<le> f32 y + 1 / 2" "f32 y + 1 / 2 \<le> of_int (a + 33) / 2 ^ 6"
    by (simp_all add: add_divide_distrib)
  from f32_between [OF this] a
  have f: "of_int (a + 32) / 64 \<le> f32 (f32 y + 1 / 2)" "f32 (f32 y + 1 / 2) \<le> of_int (a + 33) / 64"
    by simp_all
  define r where "r = (16 * x + 5) div 10"
  have "10 * r \<le> 16 * x + 5" "16 * x + 5 < 10 * r + 10"
    by (simp_all add: r_def)
  with a have "64 * r \<le> a + 32" "a + 33 < 64 * r + 64"
    by linarith+
  then have "(of_int (64 * r) :: rat) \<le> of_int (a + 32)" "(of_int (a + 33) :: rat) < of_int (64 * r + 64)"
    by (simp_all only: of_int_le_iff of_int_less_iff)
  then have "of_int r \<le> f32 (f32 y + 1 / 2)" "f32 (f32 y + 1 / 2) < of_int r + 1"
    using f by (simp_all add: field_simps)
  moreover have r: "0 \<le> r" "r < 2 ^ 16"
    using x by (simp_all add: r_def)
  ultimately have t: "f32_trunc (f32 (f32 y + 1 / 2)) = r"
    by (intro f32_trunc_eq)
  have "uint v - 874 = x"
    by (simp add: x_def)
  then have "sbus1_value v = Some (if (of_int r :: u16) > 0x07ff then 0x07ff else of_int r)"
    using r t x f32_of_int [of x] by (simp add: sbus1_value_def f32_add_def f32_div_def y_def Let_def mult.commute)
  also have "(if (of_int r :: u16) > 0x07ff then 0x07ff else of_int r) = (of_int (min 2047 r) :: u16)"
  proof -
    have "(of_int r :: u16) > 0x07ff \<longleftrightarrow> r > 2047"
      using r by (simp add: word_less_def take_bit_int_eq_self uint_word_of_int_eq)
    then show ?thesis
      by (simp add: min_def)
  qed
  also have "(of_int (min 2047 r) :: u16) = of_nat (min 2047 ((16 * (unat v - 874) + 5) div 10))"
  proof -
    have "int ((16 * (unat v - 874) + 5) div 10) = r"
      using assms by (simp add: r_def x_def zdiv_int of_nat_diff)
    then have "min 2047 r = int (min 2047 ((16 * (unat v - 874) + 5) div 10))"
      by (simp only: of_nat_min of_nat_numeral)
    then show ?thesis
      by simp
  qed
  finally show ?thesis .
qed

lemma sbus1_value_undefined:
  assumes "unat v < 874"
  shows "sbus1_value v = None"
proof -
  define x where "x = int (unat v) - 874"
  have x: "x \<le> - 1" "- 874 \<le> x"
    using assms unfolding x_def by linarith+
  have "f32 (of_int x / (5 / 8)) \<le> f32 (of_int (- 1) / (5 / 8))"
    using x by (intro f32_mono) simp
  moreover have "f32 (- (8 / 5)) \<le> - 102 / 64"
    using f32_between(2) [of "- 103" 6 "- (8 / 5)" "- 102"] by simp
  ultimately have "f32 (of_int x / (5 / 8)) + 1 / 2 \<le> of_int (- 70) / 2 ^ 6"
    by simp
  from f32_mono [OF this] have "f32 (f32 (of_int x / (5 / 8)) + 1 / 2) \<le> of_int (- 70) / 2 ^ 6"
    by (simp add: f32_dyadic [of "- 70" 6, simplified])
  then have "f32 (f32 (of_int x / (5 / 8)) + 1 / 2) \<le> of_int (- 1)"
    by simp
  from f32_trunc_mono [OF this] have "f32_trunc (f32 (f32 (of_int x / (5 / 8)) + 1 / 2)) \<le> - 1"
    by (simp only: f32_trunc_of_int)
  moreover have "f32 (of_int x) = of_int x"
    using x by (intro f32_of_int) simp
  moreover have "uint v - 874 = x"
    by (simp add: x_def)
  ultimately show ?thesis
    by (simp add: sbus1_value_def f32_add_def f32_div_def)
qed


lemma sbus1_carry_eq:
  "sbus1_carry b k = (b + of_nat (unat k div 8), of_nat (unat k mod 8))"
proof (induction b k rule: sbus1_carry.induct)
  case (1 b k)
  show ?case
  proof (cases "k \<ge> 8")
    case True
    then have "unat (k - 8) = unat k - 8" "8 \<le> unat k"
      by (simp_all add: word_le_nat_alt unat_sub)
    then have "unat k div 8 = Suc (unat (k - 8) div 8)" "unat k mod 8 = unat (k - 8) mod 8"
      by (simp_all add: le_div_geq le_mod_geq)
    with True 1 show ?thesis
      by (subst sbus1_carry.simps) (simp add: algebra_simps)
  next
    case False
    then have "unat k < 8"
      by (simp add: word_le_nat_alt not_le)
    with False show ?thesis
      by (subst sbus1_carry.simps) simp
  qed
qed

lemma sbus1_put_bits:
  assumes "unat b + 2 < length f" "unat k < 8"
  shows "\<exists>f'. sbus1_put w b k f = Some f' \<and> length f' = length f \<and>
           (\<forall>j < length f. \<forall>m < 8. bit (f' ! j) m \<longleftrightarrow>
              bit (f ! j) m \<or> 8 * unat b + unat k \<le> 8 * j + m \<and> bit w (8 * j + m - (8 * unat b + unat k)))"
proof -
  define B K where "B = unat b" and "K = unat k"
  define x0 x1 x2 :: u8 where "x0 = ucast (push_bit K (ucast w :: u32) AND 0xff)"
    and "x1 = ucast (drop_bit (8 - K) (ucast w :: u32) AND 0xff)"
    and "x2 = ucast (drop_bit (16 - K) (ucast w :: u32) AND 0xff)"
  define f' where "f' = f[B := f ! B OR x0, B + 1 := f ! (B + 1) OR x1, B + 2 := f ! (B + 2) OR x2]"
  have ff: "(0xff :: u32) = mask 8"
    by (simp add: mask_eq_exp_minus_1)
  have x: "bit x0 m \<longleftrightarrow> K \<le> m \<and> bit w (m - K)" "bit x1 m \<longleftrightarrow> bit w (8 + m - K)" "bit x2 m \<longleftrightarrow> bit w (16 + m - K)"
    if "m < 8" for m
    using that assms(2) by (auto simp: x0_def x1_def x2_def ff bit_simps K_def add.commute dest: bit_imp_le_length)
  have B: "B + 2 < length f" "K < 8"
    using assms by (simp_all add: B_def K_def)
  have "sbus1_put w b k f = Some f'"
    using B by (simp add: sbus1_put_def or_store_def Let_def f'_def x0_def x1_def x2_def flip: B_def K_def)
  moreover have "bit (f' ! j) m \<longleftrightarrow> bit (f ! j) m \<or> 8 * B + K \<le> 8 * j + m \<and> bit w (8 * j + m - (8 * B + K))"
    if "j < length f" "m < 8" for j m
  proof -
    consider "j < B" | "j = B" | "j = B + 1" | "j = B + 2" | "B + 3 \<le> j"
      by linarith
    then show ?thesis
    proof cases
      case 5
      then have "16 \<le> 8 * j + m - (8 * B + K)"
        using B by linarith
      then have "\<not> bit w (8 * j + m - (8 * B + K))"
        by (auto dest: bit_imp_le_length)
      with 5 that show ?thesis
        by (simp add: f'_def nth_list_update)
    qed (use B x that in \<open>simp_all add: f'_def nth_list_update algebra_simps\<close>)
  qed
  ultimately show ?thesis
    by (intro exI [of _ f']) (simp add: f'_def B_def K_def)
qed


lemma bit_times_2: "bit (x * 2 :: u32) n \<longleftrightarrow> n < 32 \<and> 0 < n \<and> bit x (n - 1)"
  by (auto simp: bit_double_iff mult.commute [of x])

lemma all_less_numeral: "(\<forall>i<n. P i) \<longleftrightarrow> list_all P [0..<n]"
  by (auto simp: list_all_iff)

lemma upt_nums:
  "[0..<16] = [0, 1, 2, 3, 4, 5, 6, 7, 8, 9, 10, 11, 12, 13, 14, 15]"
  "[0..<32] = [0, 1, 2, 3, 4, 5, 6, 7, 8, 9, 10, 11, 12, 13, 14, 15, 16, 17, 18, 19, 20, 21, 22, 23, 24, 25, 26, 27, 28, 29, 30, 31]"
  by (simp_all add: upt_rec)

text \<open>The decoder matrix reads channel \<open>c\<close> as the eleven bits from bit \<open>11 * c\<close> of the data bytes.\<close>

lemma sbus_raw_bits:
  assumes "c < 16"
  shows "bit (sbus_raw f c) i \<longleftrightarrow> i < 11 \<and> bit (f ! (1 + (11 * c + i) div 8)) ((11 * c + i) mod 8)"
proof -
  have "\<forall>c<16. \<forall>i<32. bit (sbus_raw f c) i \<longleftrightarrow> i < 11 \<and> bit (f ! (1 + (11 * c + i) div 8)) ((11 * c + i) mod 8)"
    unfolding all_less_numeral upt_nums list.pred_inject
    by (simp add: sbus_raw_def sbus_decoder_def sbus_piece_def bit_simps bit_times_2) (simp add: numeral_eq_Suc)
  then show ?thesis using assms by (cases "i < 32") (auto dest: bit_imp_le_length)
qed

section \<open>The bits of a frame\<close>

text \<open>The first \<open>n\<close> channels \<open>ws\<close> follow the start symbol, eleven bits each, least significant bit first.\<close>

definition sbus_stream :: "nat \<Rightarrow> u16 list \<Rightarrow> u8 list \<Rightarrow> bool" where
  "sbus_stream n ws f \<longleftrightarrow> length f = 25 \<and>
     (\<forall>j<25. \<forall>m<8. bit (f ! j) m \<longleftrightarrow>
        (if j = 0 then m < 4 else let q = 8 * j + m - 8 in q < 11 * n \<and> bit (ws ! (q div 11)) (q mod 11)))"

lemma bit_start_symbol: "bit (0x0f :: int) m \<longleftrightarrow> m < 4"
proof -
  have e: "(0x0f :: int) = mask 4"
    by (simp add: mask_eq_exp_minus_1)
  show ?thesis
    unfolding e by (auto simp: bit_mask_iff)
qed

lemma sbus_stream_start: "sbus_stream 0 ws (0x0f # replicate 24 0)"
  by (simp add: sbus_stream_def nth_Cons' bit_start_symbol)

lemma sbus_stream_step:
  assumes "sbus_stream i ws f" and "length f' = 25" and "\<And>m. bit (ws ! i) m \<Longrightarrow> m < 11"
    and f': "\<forall>j<25. \<forall>m<8. bit (f' ! j) m \<longleftrightarrow>
               bit (f ! j) m \<or> 8 + 11 * i \<le> 8 * j + m \<and> bit (ws ! i) (8 * j + m - (8 + 11 * i))"
  shows "sbus_stream (Suc i) ws f'"
proof -
  have "bit (f' ! j) m \<longleftrightarrow> q < 11 * Suc i \<and> bit (ws ! (q div 11)) (q mod 11)"
    if "0 < j" "j < 25" "m < 8" "q = 8 * j + m - 8" for j m q
  proof -
    have q: "8 * j + m = 8 + q"
      using that by simp
    have "bit (f ! j) m \<longleftrightarrow> q < 11 * i \<and> bit (ws ! (q div 11)) (q mod 11)"
      using assms(1) that by (simp add: sbus_stream_def Let_def)
    then have b: "bit (f' ! j) m \<longleftrightarrow> q < 11 * i \<and> bit (ws ! (q div 11)) (q mod 11) \<or> 11 * i \<le> q \<and> bit (ws ! i) (q - 11 * i)"
      using f' that(2,3) q by simp
    consider "q < 11 * i" | r where "q = 11 * i + r" "r < 11" | "11 * Suc i \<le> q"
      by (metis add.commute le_add_diff_inverse less_diff_conv2 linorder_not_le mult_Suc_right)
    then show ?thesis
      using b assms(3) [of "q - 11 * i"] by cases auto
  qed
  moreover have "bit (f' ! 0) m \<longleftrightarrow> m < 4" if "m < 8" for m
    using assms(1) f' that by (simp add: sbus_stream_def)
  ultimately show ?thesis
    using assms(2) by (simp add: sbus_stream_def Let_def)
qed

lemma sbus1_channels_stream:
  assumes "\<forall>j<n. sbus1_value (values ! j) = Some (ws ! j) \<and> (\<forall>m. bit (ws ! j) m \<longrightarrow> m < 11)"
    and "n \<le> 16" and "n \<le> length values"
  shows "i \<le> n \<Longrightarrow> 8 * unat b + unat k = 8 + 11 * i \<Longrightarrow> unat k < 19 \<Longrightarrow> sbus_stream i ws f \<Longrightarrow>
    \<exists>f'. sbus1_channels values [i..<n] b k f = Some f' \<and> sbus_stream n ws f'"
proof (induction "n - i" arbitrary: i b k f)
  case 0
  then show ?case by simp
next
  case (Suc d)
  then have i: "i < n" by simp
  define b' k' :: u8 where "b' = b + of_nat (unat k div 8)" and "k' = of_nat (unat k mod 8)"
  have "unat b \<le> 30" "unat k div 8 \<le> 2"
    using Suc(4,5) i assms(2) by linarith+
  then have bk: "unat b' = unat b + unat k div 8" "unat k' = unat k mod 8"
    by (simp_all add: b'_def k'_def unat_word_ariths unsigned_of_nat take_bit_nat_eq_self)
  then have pos: "8 * unat b' + unat k' = 8 + 11 * i" "unat k' < 8"
    using Suc(4) mult_div_mod_eq [of 8 "unat k"] by (simp_all only: distrib_left)
  have len: "length f = 25"
    using Suc(6) by (simp add: sbus_stream_def)
  have "unat b' + 2 < length f"
    using pos i assms(2) len by linarith
  then obtain f1 where f1: "sbus1_put (ws ! i) b' k' f = Some f1" "length f1 = 25"
      "\<forall>j<25. \<forall>m<8. bit (f1 ! j) m \<longleftrightarrow>
        bit (f ! j) m \<or> 8 + 11 * i \<le> 8 * j + m \<and> bit (ws ! i) (8 * j + m - (8 + 11 * i))"
    using sbus1_put_bits [of b' f k' "ws ! i"] pos len by auto
  have "sbus_stream (Suc i) ws f1"
    using assms(1) i by (intro sbus_stream_step [OF Suc(6) f1(2) _ f1(3)]) auto
  moreover have "unat (k' + 11) = unat k' + 11"
    using pos(2) by (simp add: unat_word_ariths)
  ultimately have "\<exists>f'. sbus1_channels values [Suc i..<n] b' (k' + 11) f1 = Some f' \<and> sbus_stream n ws f'"
    using Suc(2) i pos by (intro Suc(1)) auto
  moreover have "sbus1_channels values [i..<n] b k f = sbus1_channels values [Suc i..<n] b' (k' + 11) f1"
    using i assms f1(1) by (simp add: upt_conv_Cons sbus1_carry_eq b'_def k'_def)
  ultimately show ?case by simp
qed

lemma sbus_stream_frame:
  assumes "sbus_stream n ws f" and "n \<le> 16"
  shows "length f = 25" "f ! 0 = 0x0f" "f ! 23 = 0" "f ! 24 = 0"
    and "c < 16 \<Longrightarrow> \<forall>m. bit (ws ! c) m \<longrightarrow> m < 11 \<Longrightarrow> sbus_raw f c = (if c < n then ucast (ws ! c) else 0)"
proof -
  show "length f = 25"
    using assms by (simp add: sbus_stream_def)
  show "f ! 0 = 0x0f"
    using assms by (intro bit_word_eqI) (simp add: sbus_stream_def bit_start_symbol)
  show "f ! 23 = 0" "f ! 24 = 0"
    using assms by (intro bit_word_eqI; simp add: sbus_stream_def Let_def)+
  show "sbus_raw f c = (if c < n then ucast (ws ! c) else 0)" if "c < 16" "\<forall>m. bit (ws ! c) m \<longrightarrow> m < 11"
  proof (rule bit_eqI)
    fix i
    define q where "q = 11 * c + i"
    have "bit (sbus_raw f c) i \<longleftrightarrow> i < 11 \<and> q < 11 * n \<and> bit (ws ! (q div 11)) (q mod 11)"
    proof (cases "i < 11")
      case True
      then have "q div 8 < 22"
        using that(1) by (simp add: q_def)
      then have "bit (f ! (1 + q div 8)) (q mod 8) \<longleftrightarrow> q < 11 * n \<and> bit (ws ! (q div 11)) (q mod 11)"
        using assms(1) by (simp add: sbus_stream_def Let_def)
      then show ?thesis
        using sbus_raw_bits [OF that(1), of f i] by (simp add: q_def)
    qed (use sbus_raw_bits [OF that(1), of f i] in simp)
    also have "\<dots> \<longleftrightarrow> i < 11 \<and> c < n \<and> bit (ws ! c) i"
      by (auto simp: q_def)
    also have "\<dots> \<longleftrightarrow> bit (if c < n then ucast (ws ! c) else 0 :: u32) i"
      using that(2) by (auto simp: bit_simps)
    finally show "bit (sbus_raw f c) i \<longleftrightarrow> bit (if c < n then ucast (ws ! c) else 0 :: u32) i" .
  qed
qed

section \<open>Channels of a frame\<close>

text \<open>What a caller with room for \<open>m\<close> channels gets from an accepted frame.\<close>

definition sbus_decoded :: "u8 list \<Rightarrow> nat \<Rightarrow> sbus_out \<Rightarrow> sbus_out" where
  "sbus_decoded f m out =
     sbus_flags f (out\<lparr>sbus_values := map (\<lambda>c. sbus_scaled (sbus_raw f c)) [0..<min m 16] @
                         (if m > 17 then [sbus_switch f 0, sbus_switch f 1] @ drop 18 (sbus_values out)
                          else drop (min m 16) (sbus_values out)),
                       sbus_count := of_nat (if m > 17 then 18 else min m 16)\<rparr>)"

lemma sbus_decode_cases:
  assumes "unat m \<le> length (sbus_values out)"
  shows "sbus_decode m s out =
     (if sbus_frame s ! 0 \<noteq> 0x0f
      then Some (False, s\<lparr>sbus_frame_drops := sbus_frame_drops s + 1, sbus_decode_state := SBUS2_DECODE_STATE_DESYNC\<rparr>, out)
      else case sbus_following (sbus_frame s ! 24) of
        None \<Rightarrow> Some (False, s\<lparr>sbus_decode_state := SBUS2_DECODE_STATE_DESYNC\<rparr>, out)
      | Some st \<Rightarrow> Some (True, s\<lparr>sbus_decode_state := st\<rparr>, sbus_decoded (sbus_frame s) (unat m) out))"
proof -
  let ?f = "sbus_frame s" and ?vs = "sbus_values out"
  let ?w = "\<lambda>k. map (\<lambda>c. sbus_scaled (sbus_raw ?f c)) [0..<k]"
  have ch: "sbus_channels ?f k ?vs = Some (?w k @ drop k ?vs)" if "k \<le> length ?vs" for k
    using that by (simp add: sbus_channels_def store_each_upt)
  have sw: "do { v1 \<leftarrow> store 16 x (?w 16 @ drop 16 ?vs); v2 \<leftarrow> store 17 y v1; g v2 } = g (?w 16 @ x # y # drop 18 ?vs)"
    if "17 < unat m" for x y and g :: "u16 list \<Rightarrow> (bool \<times> sbus_vars \<times> sbus_out) option"
  proof -
    have "drop 16 ?vs = ?vs ! 16 # ?vs ! 17 # drop 18 ?vs"
      using that assms Cons_nth_drop_Suc [of 16 ?vs] Cons_nth_drop_Suc [of 17 ?vs] by simp
    then obtain a b where d: "drop 16 ?vs = a # b # drop 18 ?vs"
      by blast
    show ?thesis
      by (simp add: store_def d list_update_append)
  qed
  consider "17 < unat m" | "unat m = 17" | "unat m \<le> 16"
    by linarith
  then show ?thesis
    using assms by cases (auto simp: sbus_decode_def Let_def ch sw sbus_decoded_def split: option.splits)
qed

lemma sbus_raw_cong:
  assumes "c < 16" and "\<forall>i<25. f ! i = f' ! i"
  shows "sbus_raw f c = sbus_raw f' c"
proof (rule bit_eqI)
  fix i
  have "1 + (11 * c + i) div 8 < 25" if "i < 11"
    using that assms(1) by linarith
  then show "bit (sbus_raw f c) i \<longleftrightarrow> bit (sbus_raw f' c) i"
    using assms by (auto simp: sbus_raw_bits)
qed

lemma sbus_decoded_cong:
  assumes "\<forall>i<25. f ! i = f' ! i"
  shows "sbus_decoded f m out = sbus_decoded f' m out"
  using assms by (simp add: sbus_decoded_def sbus_flags_def sbus_switch_def sbus_raw_cong [OF _ assms] cong: map_cong)

lemma unat_sbus_raw: "c < 16 \<Longrightarrow> unat (sbus_raw f c) \<le> 2047"
proof -
  assume c: "c < 16"
  have "take_bit 11 (sbus_raw f c) = sbus_raw f c"
    by (rule bit_eqI) (auto simp: bit_take_bit_iff sbus_raw_bits c)
  then have "unat (sbus_raw f c) = take_bit 11 (unat (sbus_raw f c))"
    by (metis unsigned_take_bit_eq)
  also have "\<dots> < 2 ^ 11"
    by (rule take_bit_nat_less_exp)
  finally show ?thesis by simp
qed

section \<open>The state machine\<close>

text \<open>Between bytes the buffer is filled less than a frame or slot of the state needs.\<close>

definition sbus_ok :: "sbus_vars \<Rightarrow> bool" where
  "sbus_ok s \<longleftrightarrow> length (sbus_frame s) = SBUS_BUFFER_SIZE \<and> unat (partial_frame_count s) < SBUS_FRAME_SIZE \<and>
     (sbus_decode_state s = SBUS2_DECODE_STATE_SBUS2_RX_VOLTAGE \<longrightarrow> unat (partial_frame_count s) < SBUS2_FRAME_SIZE_RX_VOLTAGE) \<and>
     (sbus_decode_state s = SBUS2_DECODE_STATE_SBUS2_GPS \<longrightarrow> unat (partial_frame_count s) < 24) \<and>
     sbus_decode_state s \<noteq> SBUS2_DECODE_STATE_SBUS2_DATA1 \<and> sbus_decode_state s \<noteq> SBUS2_DECODE_STATE_SBUS2_DATA2"

lemma sbus_ok_limits [simp]: "sbus_ok s \<Longrightarrow> sbus_limits s = s"
  by (simp add: sbus_ok_def sbus_limits_def Let_def)

lemma sbus_following_ok:
  "sbus_following b = Some st \<Longrightarrow> st \<noteq> SBUS2_DECODE_STATE_SBUS2_DATA1 \<and> st \<noteq> SBUS2_DECODE_STATE_SBUS2_DATA2"
  by (auto simp: sbus_following_def split: if_splits)

lemma sbus_push_eq:
  assumes "unat (partial_frame_count s) < 25" "length (sbus_frame s) = 37"
  shows "sbus_push b s = Some (s\<lparr>sbus_frame := (sbus_frame s)[unat (partial_frame_count s) := b],
            partial_frame_count := partial_frame_count s + 1\<rparr>)"
    and "unat (partial_frame_count s + 1) = unat (partial_frame_count s) + 1"
  using assms by (simp_all add: sbus_push_def store_def unat_word_ariths)

lemma sbus_find_start_mem: "sbus_find_start f is \<noteq> 0 \<Longrightarrow> sbus_find_start f is \<in> set is"
  by (induction "is") auto

lemma length_sbus_shift [simp]: "length (sbus_shift k is f) = length f"
  by (induction "is" arbitrary: f) auto

lemma sbus_recover_ok:
  assumes "length (sbus_frame s) = 37" "partial_frame_count s = 25"
    "sbus_decode_state s \<noteq> SBUS2_DECODE_STATE_SBUS2_DATA1" "sbus_decode_state s \<noteq> SBUS2_DECODE_STATE_SBUS2_DATA2"
  shows "sbus_ok (sbus_recover ok s)"
proof (cases "\<not> ok \<and> sbus_decode_state s = SBUS2_DECODE_STATE_DESYNC \<and> sbus_find_start (sbus_frame s) [Suc 0..<25] \<noteq> 0")
  case True
  define k where "k = sbus_find_start (sbus_frame s) [Suc 0..<25]"
  have k: "1 \<le> k" "k < 25"
    using sbus_find_start_mem [of "sbus_frame s" "[Suc 0..<25]"] True by (auto simp: k_def)
  then have "unat (25 - of_nat k :: u32) = 25 - k"
    by (simp add: unat_sub word_le_nat_alt unsigned_of_nat take_bit_nat_eq_self)
  then show ?thesis
    using True assms k by (simp add: sbus_recover_def sbus_ok_def Let_def flip: k_def)
next
  case False
  then show ?thesis
    using assms by (auto simp: sbus_recover_def sbus_ok_def Let_def)
qed

lemma sbus_recover_True [simp]: "sbus_recover True s = s\<lparr>partial_frame_count := 0\<rparr>"
  by (simp add: sbus_recover_def Let_def)

lemma last_rx_time_recover [simp]: "last_rx_time (sbus_recover ok s) = last_rx_time s"
  by (simp add: sbus_recover_def Let_def)

text \<open>A full buffer is either accepted as a frame, which empties it, or the caller's data stay as they are.\<close>

lemma sbus_complete_ok:
  assumes "length (sbus_frame s) = 37" and "partial_frame_count s = 25" and "unat m \<le> length (sbus_values out)"
  shows "\<exists>ok s' out'. do { (ok, s2, out2) \<leftarrow> sbus_decode m s out; Some (ok, sbus_recover ok s2, out2) } = Some (ok, s', out') \<and>
     sbus_ok s' \<and> last_rx_time s' = last_rx_time s \<and>
     (ok \<and> partial_frame_count s' = 0 \<and> (\<exists>f. out' = sbus_decoded f (unat m) out) \<or> \<not> ok \<and> out' = out)"
proof -
  let ?desync = "s\<lparr>sbus_decode_state := SBUS2_DECODE_STATE_DESYNC\<rparr>"
  note dec = sbus_decode_cases [OF assms(3), of s]
  consider s2 where "sbus_decode m s out = Some (False, s2, out)"
        "s2 = ?desync \<or> s2 = ?desync\<lparr>sbus_frame_drops := sbus_frame_drops s + 1\<rparr>"
    | st where "sbus_following (sbus_frame s ! 24) = Some st"
        "sbus_decode m s out = Some (True, s\<lparr>sbus_decode_state := st\<rparr>, sbus_decoded (sbus_frame s) (unat m) out)"
  proof (cases "sbus_frame s ! 0 = 0x0f")
    case True
    then show ?thesis
      using that(1) [of ?desync] that(2) dec by (cases "sbus_following (sbus_frame s ! 24)") simp_all
  next
    case False
    then show ?thesis
      using that(1) [of "?desync\<lparr>sbus_frame_drops := sbus_frame_drops s + 1\<rparr>"] dec by simp
  qed
  then show ?thesis
  proof cases
    case (1 s2)
    then have "sbus_ok (sbus_recover False s2)" "last_rx_time s2 = last_rx_time s"
      using assms by (auto intro!: sbus_recover_ok)
    with 1(1) show ?thesis
      by auto
  next
    case (2 st)
    then have "sbus_ok (s\<lparr>sbus_decode_state := st, partial_frame_count := 0\<rparr>)"
      using assms sbus_following_ok [OF 2(1)] by (simp add: sbus_ok_def)
    with 2(2) show ?thesis
      by auto
  qed
qed

text \<open>
  One byte: nothing is written outside a buffer. Either the outcome so far stays and the buffer grows by at most a
  byte, or the buffer was one byte short of a frame.
\<close>

lemma sbus_byte_ok:
  assumes "sbus_ok s" and "unat m \<le> length (sbus_values out)"
  shows "\<exists>ret' s' out'. sbus_byte m b (ret, s, out) = Some (ret', s', out') \<and> sbus_ok s' \<and>
     last_rx_time s' = last_rx_time s \<and>
     (ret' = ret \<and> out' = out \<and> unat (partial_frame_count s') \<le> Suc (unat (partial_frame_count s)) \<or>
      unat (partial_frame_count s) = 24 \<and>
      (ret' \<and> partial_frame_count s' = 0 \<and> (\<exists>f. out' = sbus_decoded f (unat m) out) \<or> \<not> ret' \<and> out' = out))"
proof -
  define s1 where "s1 = s\<lparr>sbus_frame := (sbus_frame s)[unat (partial_frame_count s) := b],
            partial_frame_count := partial_frame_count s + 1\<rparr>"
  have p: "length (sbus_frame s) = 37" "unat (partial_frame_count s) < 25"
    using assms(1) by (simp_all add: sbus_ok_def)
  note push = sbus_push_eq(1) [OF p(2,1), of b, folded s1_def] sbus_push_eq(2) [OF p(2,1)]
  show ?thesis
  proof (cases "sbus_decode_state s \<in> {SBUS2_DECODE_STATE_SBUS_START, SBUS2_DECODE_STATE_SBUS1_SYNC, SBUS2_DECODE_STATE_SBUS2_SYNC}")
    case sync: True
    have byte: "sbus_byte m b (ret, s, out) =
        (if unat (partial_frame_count s1) < 25 then Some (ret, s1, out)
         else do { (ok, s2, out2) \<leftarrow> sbus_decode m s1 out; Some (ok, sbus_recover ok s2, out2) })"
      using sync assms(1) push by (auto simp: sbus_byte_def Let_def)
    show ?thesis
    proof (cases "unat (partial_frame_count s1) < 25")
      case True
      then show ?thesis
        using byte p push sync by (auto simp: sbus_ok_def s1_def)
    next
      case False
      then have "unat (partial_frame_count s) = 24" "partial_frame_count s1 = 25" "length (sbus_frame s1) = 37"
          "last_rx_time s1 = last_rx_time s"
        using p push by (auto simp: s1_def word_unat_eq_iff)
      with sbus_complete_ok [of s1 m out] byte False assms(2) show ?thesis
        by (simp only: if_False) blast
    qed
  next
    case False
    then show ?thesis
      using p assms(1) push
      by (cases "sbus_decode_state s")
        (auto simp: sbus_byte_def Let_def sbus_ok_def s1_def sbus_slot_start_def sbus_slot_end_def sbus_push_def store_def)
  qed
qed

lemma sbus_bytes_append: "sbus_bytes m (as @ bs) r = sbus_bytes m as r \<bind> sbus_bytes m bs"
  by (induction as arbitrary: r) (auto split: bind_splits)

lemma length_sbus_decoded:
  "m \<le> length (sbus_values out) \<Longrightarrow> length (sbus_values (sbus_decoded f m out)) = length (sbus_values out)"
  by (auto simp: sbus_decoded_def sbus_flags_def)

text \<open>A reported frame stays reported while the buffer cannot fill.\<close>

lemma sbus_bytes_reported:
  assumes "sbus_ok s" and "unat m \<le> length (sbus_values out)" and "unat (partial_frame_count s) + length bs < 25"
  shows "\<exists>s'. sbus_bytes m bs (ret, s, out) = Some (ret, s', out) \<and> sbus_ok s' \<and> last_rx_time s' = last_rx_time s"
  using assms
proof (induction bs arbitrary: s)
  case (Cons b bs)
  obtain s1 where s1: "sbus_byte m b (ret, s, out) = Some (ret, s1, out)" "sbus_ok s1" "last_rx_time s1 = last_rx_time s"
      "unat (partial_frame_count s1) \<le> Suc (unat (partial_frame_count s))"
    using sbus_byte_ok [OF Cons(2,3), of b ret] Cons(4) by auto
  show ?case
    using Cons(1) [OF s1(2) Cons(3)] Cons(4) s1 by fastforce
qed simp

lemma sbus_bytes_ok:
  assumes "sbus_ok s" and "unat m \<le> length (sbus_values out)" and "length bs \<le> 25"
  shows "\<exists>ret s' out'. sbus_bytes m bs (False, s, out) = Some (ret, s', out') \<and> sbus_ok s' \<and>
           last_rx_time s' = last_rx_time s \<and> (if ret then \<exists>f. out' = sbus_decoded f (unat m) out else out' = out)"
  using assms
proof (induction bs arbitrary: s)
  case (Cons b bs)
  obtain ret1 s1 out1 where s1: "sbus_byte m b (False, s, out) = Some (ret1, s1, out1)" "sbus_ok s1"
      "last_rx_time s1 = last_rx_time s"
      "\<not> ret1 \<and> out1 = out \<or> ret1 \<and> partial_frame_count s1 = 0 \<and> (\<exists>f. out1 = sbus_decoded f (unat m) out)"
    using sbus_byte_ok [OF Cons(2,3), of b False] by blast
  from s1(4) show ?case
  proof
    assume "\<not> ret1 \<and> out1 = out"
    then show ?thesis
      using s1 Cons(1) [OF s1(2) Cons(3)] Cons(4) by auto
  next
    assume "ret1 \<and> partial_frame_count s1 = 0 \<and> (\<exists>f. out1 = sbus_decoded f (unat m) out)"
    then show ?thesis
      using s1 sbus_bytes_reported [OF s1(2), of m out1 bs True] Cons(3,4) by (fastforce simp: length_sbus_decoded)
  qed
qed (auto intro: exI [of _ False])

text \<open>What the caller can rely on in the channels of a frame.\<close>

lemma sbus_scaled_range: "c < 16 \<Longrightarrow> 874 \<le> unat (sbus_scaled (sbus_raw f c)) \<and> unat (sbus_scaled (sbus_raw f c)) \<le> 2153"
  using sbus_scaled_eq [OF unat_sbus_raw, of c f] unat_sbus_raw [of c f] by simp

lemma sbus_decoded_simps:
  "sbus_count (sbus_decoded f m out) = of_nat (if m > 17 then 18 else min m 16)"
  "sbus_values (sbus_decoded f m out) =
     map (\<lambda>c. sbus_scaled (sbus_raw f c)) [0..<min m 16] @
     (if m > 17 then [sbus_switch f 0, sbus_switch f 1] @ drop 18 (sbus_values out) else drop (min m 16) (sbus_values out))"
  by (simp_all add: sbus_decoded_def sbus_flags_def)

lemma sbus_decoded_range:
  assumes "m \<le> length (sbus_values out)" and "n = unat (sbus_count (sbus_decoded f m out))"
  shows "n \<le> m" and "drop n (sbus_values (sbus_decoded f m out)) = drop n (sbus_values out)"
    and "i < n \<Longrightarrow> 874 \<le> unat (sbus_values (sbus_decoded f m out) ! i) \<and> unat (sbus_values (sbus_decoded f m out) ! i) \<le> 2153"
proof -
  have n: "n = (if m > 17 then 18 else min m 16)"
    by (simp add: assms(2) sbus_decoded_simps unsigned_of_nat take_bit_nat_eq_self)
  show "n \<le> m" and "drop n (sbus_values (sbus_decoded f m out)) = drop n (sbus_values out)"
    using assms(1) by (auto simp: n sbus_decoded_simps)
  show "874 \<le> unat (sbus_values (sbus_decoded f m out) ! i) \<and> unat (sbus_values (sbus_decoded f m out) ! i) \<le> 2153" if "i < n"
  proof (cases "i < min m 16")
    case True
    then show ?thesis
      using sbus_scaled_range [of i f] by (simp add: sbus_decoded_simps nth_append)
  next
    case False
    then have "17 < m" "i = 16 \<or> i = 17"
      using that by (auto simp: n split: if_splits)
    then show ?thesis
      by (auto simp: sbus_decoded_simps nth_append sbus_switch_def)
  qed
qed

section \<open>Reading\<close>

text \<open>A receiver and a caller's array for examples.\<close>

definition sbus_demo :: sbus_vars where
  "sbus_demo = sbus_vars_init (replicate 37 0)"

definition sbus_demo_out :: sbus_out where
  "sbus_demo_out = \<lparr>sbus_values = replicate 18 0, sbus_count = 0, sbus_failsafe = False, sbus_frame_drop = False\<rparr>"

lemma sbus_demo_simps:
  "sbus_ok sbus_demo" "length (sbus_values sbus_demo_out) = 18" "last_txframe_time sbus_demo = 0"
  "sbus1_frame_delay sbus_demo = 13888" "partial_frame_count sbus_demo = 0"
  by (simp_all add: sbus_demo_def sbus_demo_out_def sbus_vars_init_def sbus_ok_def)

text \<open>
  C25. Whatever a read of at most a frame's length delivers and whenever it happens, the receiver stays inside its
  buffer and the caller's array. When no frame is reported the caller's data are unchanged; when one is, it has at
  most the number of channels asked for, all between 874 and 2153 microseconds, and the array is unchanged behind them.
\<close>

theorem sbus_input_safe:
  assumes "sbus_ok s" and "unat max_channels \<le> length (sbus_values out)" and "length bytes \<le> SBUS_FRAME_SIZE"
  shows "\<exists>ret s' out'. sbus_input (Some bytes) now max_channels s out = Some (ret, s', out') \<and> sbus_ok s' \<and>
     (if ret
      then let n = unat (sbus_count out')
           in n \<le> unat max_channels \<and> length (sbus_values out') = length (sbus_values out) \<and>
              drop n (sbus_values out') = drop n (sbus_values out) \<and>
              (\<forall>i<n. 874 \<le> unat (sbus_values out' ! i) \<and> unat (sbus_values out' ! i) \<le> 2153)
      else out' = out)"
proof (cases bytes)
  case Nil
  then show ?thesis
    using assms(1) by (auto simp: sbus_input_def intro!: exI [of _ False])
next
  case (Cons b bs)
  define s1 where "s1 = (if now - last_rx_time s > 3000 \<and> partial_frame_count s > 0
                    then s\<lparr>partial_frame_count := 0, sbus_decode_state := SBUS2_DECODE_STATE_DESYNC\<rparr> else s)"
  have s1: "sbus_ok s1" "sbus_ok (s1\<lparr>sbus_decode_state := SBUS2_DECODE_STATE_DESYNC\<rparr>)" "sbus_ok (s1\<lparr>last_rx_time := now\<rparr>)"
    using assms(1) by (auto simp: s1_def sbus_ok_def)
  obtain ret s2 out2 where b: "sbus_bytes max_channels bytes (False, s1\<lparr>last_rx_time := now\<rparr>, out) = Some (ret, s2, out2)"
      "sbus_ok s2" "if ret then \<exists>f. out2 = sbus_decoded f (unat max_channels) out else out2 = out"
    using sbus_bytes_ok [OF s1(3) assms(2), of bytes] assms(3) by auto
  have step: "sbus_input (Some bytes) now max_channels s out =
      (if partial_frame_count s1 = 0 \<and> b \<noteq> SBUS_START_SYMBOL
       then Some (False, s1\<lparr>sbus_decode_state := SBUS2_DECODE_STATE_DESYNC\<rparr>, out) else Some (ret, s2, out2))"
    using b(1) unfolding sbus_input_def Cons by (simp add: sbus_parse_def Let_def flip: s1_def)
  show ?thesis
  proof (cases "partial_frame_count s1 = 0 \<and> b \<noteq> SBUS_START_SYMBOL")
    case True
    then show ?thesis
      using step s1(2) by (auto intro!: exI [of _ False])
  next
    case False
    then show ?thesis
      using step b(2,3) sbus_decoded_range [OF assms(2) refl] length_sbus_decoded [OF assms(2)]
      by (intro exI [of _ ret] exI [of _ s2] exI [of _ out2]) (auto simp: Let_def split: if_splits)
  qed
qed

theorem sbus_input_safe_witness:
  "\<exists>ret s' out'. sbus_input (Some [0x0f, 1, 2]) 5000 18 sbus_demo sbus_demo_out = Some (ret, s', out') \<and> sbus_ok s' \<and>
     (if ret
      then let n = unat (sbus_count out')
           in n \<le> unat (18 :: u16) \<and> length (sbus_values out') = length (sbus_values sbus_demo_out) \<and>
              drop n (sbus_values out') = drop n (sbus_values sbus_demo_out) \<and>
              (\<forall>i<n. 874 \<le> unat (sbus_values out' ! i) \<and> unat (sbus_values out' ! i) \<le> 2153)
      else out' = sbus_demo_out)"
  by (rule sbus_input_safe) (simp_all add: sbus_demo_simps)

section \<open>A frame arrives\<close>

text \<open>The first \<open>k\<close> bytes of the frame \<open>f\<close> are in the buffer.\<close>

definition sbus_collects :: "u8 list \<Rightarrow> nat \<Rightarrow> sbus_vars \<Rightarrow> bool" where
  "sbus_collects f k s \<longleftrightarrow> sbus_ok s \<and> unat (partial_frame_count s) = k \<and> (\<forall>i<k. sbus_frame s ! i = f ! i) \<and>
     (0 < k \<longrightarrow> sbus_decode_state s \<in>
        {SBUS2_DECODE_STATE_SBUS_START, SBUS2_DECODE_STATE_SBUS1_SYNC, SBUS2_DECODE_STATE_SBUS2_SYNC})"

lemma sbus_collect_byte:
  assumes "sbus_collects f k s" and "k < 24" and "f ! 0 = 0x0f"
  shows "\<exists>s'. sbus_byte m (f ! k) (ret, s, out) = Some (ret, s', out) \<and> sbus_collects f (Suc k) s' \<and>
           last_rx_time s' = last_rx_time s"
proof -
  have p: "sbus_ok s" "length (sbus_frame s) = 37" "unat (partial_frame_count s) < 25" "unat (partial_frame_count s) = k"
    using assms(1,2) by (auto simp: sbus_collects_def sbus_ok_def)
  note push = sbus_push_eq(1) [OF p(3,2), of "f ! k"] sbus_push_eq(2) [OF p(3,2)]
  show ?thesis
  proof (cases "k = 0")
    case True
    then have "partial_frame_count s = 0"
      using p by (simp add: unat_eq_0)
    then show ?thesis
      using True assms p push
      by (cases "sbus_decode_state s")
        (auto simp: sbus_byte_def Let_def sbus_collects_def sbus_ok_def sbus_slot_start_def sbus_slot_end_def sbus_push_def store_def)
  next
    case False
    then show ?thesis
      using assms p push
      by (auto simp: sbus_byte_def Let_def sbus_collects_def sbus_ok_def nth_list_update less_Suc_eq)
  qed
qed

lemma sbus_last_byte:
  assumes "sbus_collects f 24 s" and "f ! 0 = 0x0f" and "sbus_following (f ! 24) = Some st"
    and "unat m \<le> length (sbus_values out)"
  shows "\<exists>s'. sbus_byte m (f ! 24) (ret, s, out) = Some (True, s', sbus_decoded f (unat m) out) \<and> sbus_ok s' \<and>
           partial_frame_count s' = 0"
proof -
  have p: "sbus_ok s" "length (sbus_frame s) = 37" "unat (partial_frame_count s) < 25" "unat (partial_frame_count s) = 24"
    using assms(1) by (auto simp: sbus_collects_def sbus_ok_def)
  note push = sbus_push_eq(1) [OF p(3,2), of "f ! 24"] sbus_push_eq(2) [OF p(3,2)]
  define s1 where "s1 = s\<lparr>sbus_frame := (sbus_frame s)[24 := f ! 24], partial_frame_count := partial_frame_count s + 1\<rparr>"
  have f: "\<forall>i<25. sbus_frame s1 ! i = f ! i"
    using assms(1) p by (auto simp: s1_def sbus_collects_def nth_list_update)
  have "sbus_byte m (f ! 24) (ret, s, out) = do { (ok, s2, out2) \<leftarrow> sbus_decode m s1 out; Some (ok, sbus_recover ok s2, out2) }"
    using assms(1) p push by (auto simp: sbus_byte_def Let_def sbus_collects_def s1_def)
  also have "\<dots> = Some (True, s1\<lparr>sbus_decode_state := st, partial_frame_count := 0\<rparr>, sbus_decoded f (unat m) out)"
    using assms(2,3) f by (simp add: sbus_decode_cases [OF assms(4)] sbus_decoded_cong [OF f])
  finally show ?thesis
    using p sbus_following_ok [OF assms(3)] by (auto simp: sbus_ok_def s1_def)
qed

lemma sbus_collect_bytes:
  assumes "sbus_collects f k s" and "f ! 0 = 0x0f" and "sbus_following (f ! 24) = Some st" and "length f = 25"
    and "unat m \<le> length (sbus_values out)" and "bs @ cs = drop k f" and "k < 25"
  shows "\<exists>s'. sbus_bytes m bs (False, s, out) = Some (cs = [], s', if cs = [] then sbus_decoded f (unat m) out else out) \<and>
           (if cs = [] then sbus_ok s' \<and> partial_frame_count s' = 0
            else sbus_collects f (k + length bs) s' \<and> last_rx_time s' = last_rx_time s)"
  using assms
proof (induction bs arbitrary: k s)
  case Nil
  then show ?case by auto
next
  case (Cons b bs)
  have b: "b = f ! k" "bs @ cs = drop (Suc k) f"
    using Cons(7,5,8) by (metis append_Cons Cons_nth_drop_Suc list.inject)+
  show ?case
  proof (cases "k < 24")
    case True
    then obtain s1 where s1: "sbus_byte m b (False, s, out) = Some (False, s1, out)" "sbus_collects f (Suc k) s1"
        "last_rx_time s1 = last_rx_time s"
      using sbus_collect_byte [OF Cons(2), of m False out] Cons(3) b by auto
    show ?thesis
      using Cons(1) [OF s1(2) Cons(3-6) b(2)] True s1 by auto
  next
    case False
    then have k: "k = 24"
      using Cons(8) by simp
    then have "bs = []" "cs = []"
      using b(2) Cons(5) by auto
    then show ?thesis
      using sbus_last_byte [of f s st m out False] Cons(2-6) b k by auto
  qed
qed

section \<open>Reads\<close>

text \<open>
  A receiver that reads the port again and again: each read comes with its time. \<open>sbus_timely\<close> says that no more than
  3 ms pass between reads, \<open>sbus_arrives\<close> that the first read is either the first byte after a frame or follows a longer pause.
\<close>

fun sbus_reads ::
  "u16 \<Rightarrow> (u8 list \<times> u64) list \<Rightarrow> bool \<times> sbus_vars \<times> sbus_out \<Rightarrow> (bool \<times> sbus_vars \<times> sbus_out) option" where
  "sbus_reads m [] r = Some r"
| "sbus_reads m ((bytes, now) # rs) (_, s, out) = sbus_input (Some bytes) now m s out \<bind> sbus_reads m rs"

fun sbus_timely :: "u64 \<Rightarrow> (u8 list \<times> u64) list \<Rightarrow> bool" where
  "sbus_timely t [] = True"
| "sbus_timely t ((bytes, now) # rs) = (bytes \<noteq> [] \<and> now - t \<le> 3000 \<and> sbus_timely now rs)"

fun sbus_arrives :: "sbus_vars \<Rightarrow> (u8 list \<times> u64) list \<Rightarrow> bool" where
  "sbus_arrives s [] = False"
| "sbus_arrives s ((bytes, now) # rs) =
     (bytes \<noteq> [] \<and> (partial_frame_count s = 0 \<or> now - last_rx_time s > 3000) \<and> sbus_timely now rs)"

lemma sbus_timely_nonempty: "sbus_timely t rs \<Longrightarrow> concat (map fst rs) = [] \<longleftrightarrow> rs = []"
  by (cases rs) auto

lemma sbus_input_collects:
  assumes "sbus_collects f k s" and "f ! 0 = 0x0f" and "k < 25" and "length f = 25"
    and "bytes @ cs = drop k f" and "bytes \<noteq> []" and "k = 0 \<or> now - last_rx_time s \<le> 3000"
  shows "sbus_input (Some bytes) now m s out = sbus_bytes m bytes (False, s\<lparr>last_rx_time := now\<rparr>, out)"
proof -
  obtain b bs where b: "bytes = b # bs"
    using assms(6) by (cases bytes) auto
  have "b = f ! k"
    using assms(3-5) b by (metis append_Cons Cons_nth_drop_Suc list.inject)
  moreover have "partial_frame_count s = 0 \<longleftrightarrow> k = 0" "partial_frame_count s > 0 \<longleftrightarrow> k \<noteq> 0"
    using assms(1) unat_eq_0 [of "partial_frame_count s"] by (auto simp: sbus_collects_def word_less_nat_alt)
  ultimately show ?thesis
    using assms(2,7) b by (auto simp: sbus_input_def sbus_parse_def Let_def option.map_comp comp_def case_prod_unfold option.map_ident)
qed

lemma sbus_reads_collect:
  assumes "sbus_collects f k s" and "f ! 0 = 0x0f" and "sbus_following (f ! 24) = Some st" and "length f = 25"
    and "unat m \<le> length (sbus_values out)" and "k < 25" and "concat (map fst rs) = drop k f"
    and "k = 0 \<longrightarrow> (\<exists>bytes now rs'. rs = (bytes, now) # rs' \<and> bytes \<noteq> [] \<and> sbus_timely now rs')"
    and "0 < k \<longrightarrow> sbus_timely (last_rx_time s) rs"
  shows "\<exists>s'. sbus_reads m rs (r, s, out) = Some (True, s', sbus_decoded f (unat m) out) \<and> sbus_ok s' \<and> partial_frame_count s' = 0"
  using assms
proof (induction rs arbitrary: k s r)
  case Nil
  then show ?case by simp
next
  case (Cons a rs)
  obtain bytes now where a: "a = (bytes, now)"
    by (cases a)
  let ?cs = "concat (map fst rs)" and ?s = "s\<lparr>last_rx_time := now\<rparr>"
  have h: "bytes \<noteq> []" "sbus_timely now rs" "k = 0 \<or> now - last_rx_time s \<le> 3000" "bytes @ ?cs = drop k f"
    using Cons(8-10) a by (cases "k = 0"; auto)+
  have inp: "sbus_input (Some bytes) now m s out = sbus_bytes m bytes (False, ?s, out)"
    by (rule sbus_input_collects [OF Cons(2,3,7,5) h(4,1,3)])
  have c: "sbus_collects f k ?s"
    using Cons(2) by (auto simp: sbus_collects_def sbus_ok_def)
  obtain s1 where s1: "sbus_bytes m bytes (False, ?s, out) = Some (?cs = [], s1, if ?cs = [] then sbus_decoded f (unat m) out else out)"
      "if ?cs = [] then sbus_ok s1 \<and> partial_frame_count s1 = 0
       else sbus_collects f (k + length bytes) s1 \<and> last_rx_time s1 = now"
    using sbus_collect_bytes [OF c Cons(3-6) h(4) Cons(7)] by auto
  show ?case
  proof (cases "rs = []")
    case True
    then show ?thesis
      using a inp s1 by simp
  next
    case False
    then have ne: "?cs \<noteq> []"
      using sbus_timely_nonempty [OF h(2)] by simp
    have "?cs = drop (k + length bytes) f"
      using arg_cong [OF h(4), of "drop (length bytes)"] by (simp add: add.commute)
    moreover from this ne Cons(5) have "k + length bytes < 25"
      by (metis drop_all linorder_not_less)
    ultimately show ?thesis
      using Cons(1) [of "k + length bytes" s1] Cons(3-6) s1 ne inp a h(1,2) by auto
  qed
qed

text \<open>After a pause the receiver gives up what it has, and the first byte starts a frame.\<close>

lemma sbus_reads_arrive:
  assumes "sbus_ok s" and "f ! 0 = 0x0f" and "sbus_following (f ! 24) = Some st" and "length f = 25"
    and "unat m \<le> length (sbus_values out)" and "concat (map fst rs) = f" and "sbus_arrives s rs"
  shows "\<exists>s'. sbus_reads m rs (r, s, out) = Some (True, s', sbus_decoded f (unat m) out) \<and> sbus_ok s' \<and> partial_frame_count s' = 0"
proof -
  obtain bytes now rs' where rs: "rs = (bytes, now) # rs'" "bytes \<noteq> []" "sbus_timely now rs'"
      "partial_frame_count s = 0 \<or> now - last_rx_time s > 3000"
    using assms(7) by (cases rs) auto
  define s0 where "s0 = (if partial_frame_count s = 0 then s
      else s\<lparr>partial_frame_count := 0, sbus_decode_state := SBUS2_DECODE_STATE_DESYNC\<rparr>)"
  have c: "sbus_collects f 0 s0"
    using assms(1) by (auto simp: sbus_collects_def sbus_ok_def s0_def)
  obtain b bs where "bytes = b # bs"
    using rs(2) by (cases bytes) auto
  then have "sbus_input (Some bytes) now m s out = sbus_input (Some bytes) now m s0 out"
    using rs(4) by (auto simp: sbus_input_def s0_def Let_def word_gt_0)
  then have "sbus_reads m rs (r, s, out) = sbus_reads m rs (r, s0, out)"
    by (simp add: rs(1))
  with sbus_reads_collect [OF c assms(2-5), of rs r] assms(6) rs(1-3) show ?thesis
    by auto
qed

section \<open>From the output to the input\<close>

lemma sbus_roundtrip_value:
  assumes "874 \<le> unat v" and "unat v \<le> 2153" and "w = of_nat (min 2047 ((16 * (unat v - 874) + 5) div 10))"
  shows "sbus1_value v = Some w" and "bit w m \<Longrightarrow> m < 11" and "sbus_scaled (ucast w) = v"
proof -
  define n where "n = (16 * (unat v - 874) + 5) div 10"
  have n: "n \<le> 2047"
    using assms(1,2) by (simp add: n_def)
  show "sbus1_value v = Some w"
    using sbus1_value_eq [OF assms(1)] assms by simp
  have w: "unat w = n"
    using n by (simp add: assms(3) unsigned_of_nat take_bit_nat_eq_self flip: n_def)
  have "take_bit 11 w = w"
    using n w by (simp add: word_unat_eq_iff unsigned_take_bit_eq take_bit_nat_eq_self)
  then show "bit w m \<Longrightarrow> m < 11"
    by (metis bit_take_bit_iff)
  have u: "unat (ucast w :: u32) = n"
    using w by (simp add: unat_ucast_widen)
  have "unat (sbus_scaled (ucast w)) = 874 + (5 * n + 4) div 8"
    using sbus_scaled_eq [of "ucast w"] u n by simp
  also have "\<dots> = unat v"
  proof -
    define q where "q = (5 * n + 4) div 8"
    have "10 * n \<le> 16 * (unat v - 874) + 5" "16 * (unat v - 874) + 5 < 10 * n + 10" "8 * q \<le> 5 * n + 4" "5 * n + 4 < 8 * q + 8"
      by (simp_all add: n_def q_def)
    with assms(1) have "874 + q = unat v"
      by linarith
    then show ?thesis
      by (simp add: q_def)
  qed
  finally show "sbus_scaled (ucast w) = v"
    by (simp only: word_unat_eq_iff)
qed

lemma sbus_scaled_0: "sbus_scaled 0 = 874"
  using sbus_scaled_eq [of 0] by (simp add: word_unat_eq_iff)

text \<open>The frame sent for at most sixteen values that eleven bits can carry.\<close>

lemma sbus1_output_frame:
  assumes "now - last_txframe_time t > ucast (sbus1_frame_delay t)" and "length vs \<le> 16"
    and "\<forall>v\<in>set vs. 874 \<le> unat v \<and> unat v \<le> 2153"
  shows "\<exists>f. sbus1_output now vs (of_nat (length vs)) t = Some (Some f, t\<lparr>last_txframe_time := now\<rparr>) \<and>
     length f = 25 \<and> f ! 0 = 0x0f \<and> f ! 23 = 0 \<and> f ! 24 = 0 \<and>
     (\<forall>c<16. sbus_scaled (sbus_raw f c) = (if c < length vs then vs ! c else 874))"
proof -
  define ws where "ws = map (\<lambda>v. of_nat (min 2047 ((16 * (unat v - 874) + 5) div 10)) :: u16) vs @ replicate 16 0"
  have vs: "874 \<le> unat (vs ! j)" "unat (vs ! j) \<le> 2153" if "j < length vs" for j
    using assms(3) that by simp_all
  have ws: "ws ! j = of_nat (min 2047 ((16 * (unat (vs ! j) - 874) + 5) div 10))" if "j < length vs" for j
    using that by (simp add: ws_def nth_append)
  have bits: "\<forall>m. bit (ws ! c) m \<longrightarrow> m < 11" if "c < 16" for c
    using that sbus_roundtrip_value(2) [OF vs ws]
    by (cases "c < length vs") (auto simp: ws_def nth_append)
  have prem: "\<forall>j<length vs. sbus1_value (vs ! j) = Some (ws ! j) \<and> (\<forall>m. bit (ws ! j) m \<longrightarrow> m < 11)"
    using sbus_roundtrip_value(1) [OF vs ws] bits assms(2) by (meson less_le_trans)
  obtain f where f: "sbus1_channels vs [0..<length vs] 1 0 (0x0f # replicate 24 0) = Some f" "sbus_stream (length vs) ws f"
    using sbus1_channels_stream [OF prem assms(2) order_refl, of 0 1 0 "0x0f # replicate 24 0"] sbus_stream_start by auto
  have n: "min (unat (of_nat (length vs) :: u16)) 16 = length vs"
    using assms(2) by (simp add: unsigned_of_nat take_bit_nat_eq_self)
  have "sbus_scaled (sbus_raw f c) = (if c < length vs then vs ! c else 874)" if "c < 16" for c
    using sbus_stream_frame(5) [OF f(2) assms(2) that bits [OF that]] sbus_roundtrip_value(3) [OF vs ws] sbus_scaled_0
    by simp
  then show ?thesis
    using f assms(1) n sbus_stream_frame(1-4) [OF f(2) assms(2)]
    by (intro exI [of _ f]) (simp add: sbus1_output_def)
qed

text \<open>
  C24. The S.BUS output and the S.BUS input agree. A frame sent for up to sixteen values between 874 and 2153 microseconds and
  received in any number of reads that follow one another within 3 ms, after a frame or a pause, is reported with
  exactly the values sent, 874 for the channels left out, and neither failsafe nor lost frame; whatever state of
  reception the receiver was in.
\<close>

theorem sbus_output_received:
  assumes "now - last_txframe_time t > ucast (sbus1_frame_delay t)" and "length vs \<le> 16"
    and "\<forall>v\<in>set vs. 874 \<le> unat v \<and> unat v \<le> 2153"
    and "sbus_ok s" and "18 \<le> unat max_channels" and "unat max_channels \<le> length (sbus_values out)"
  shows "\<exists>f. sbus1_output now vs (of_nat (length vs)) t = Some (Some f, t\<lparr>last_txframe_time := now\<rparr>) \<and> length f = 25 \<and>
     (\<forall>reads. concat (map fst reads) = f \<longrightarrow> sbus_arrives s reads \<longrightarrow>
        (\<exists>s' out'. sbus_reads max_channels reads (False, s, out) = Some (True, s', out') \<and> sbus_ok s' \<and>
           take 16 (sbus_values out') = vs @ replicate (16 - length vs) 874 \<and> sbus_count out' = 18 \<and>
           \<not> sbus_failsafe out' \<and> \<not> sbus_frame_drop out'))"
proof -
  obtain f where f: "sbus1_output now vs (of_nat (length vs)) t = Some (Some f, t\<lparr>last_txframe_time := now\<rparr>)"
      "length f = 25" "f ! 0 = 0x0f" "f ! 23 = 0" "f ! 24 = 0"
      "\<forall>c<16. sbus_scaled (sbus_raw f c) = (if c < length vs then vs ! c else 874)"
    using sbus1_output_frame [OF assms(1-3)] by blast
  let ?out = "sbus_decoded f (unat max_channels) out"
  have vals: "take 16 (sbus_values ?out) = vs @ replicate (16 - length vs) 874"
    using f(6) assms(2,5) by (intro nth_equalityI) (auto simp: sbus_decoded_simps nth_append)
  have flags: "sbus_count ?out = 18" "\<not> sbus_failsafe ?out" "\<not> sbus_frame_drop ?out"
    using f(4) assms(5) by (simp_all add: sbus_decoded_def sbus_flags_def)
  have "\<exists>s'. sbus_reads max_channels reads (False, s, out) = Some (True, s', ?out) \<and> sbus_ok s'"
    if "concat (map fst reads) = f" "sbus_arrives s reads" for reads
    using sbus_reads_arrive [OF assms(4) f(3) _ f(2) assms(6) that] f(5) by (auto simp: sbus_following_def)
  with f(1,2) vals flags show ?thesis
    by blast
qed

theorem sbus_output_received_witness:
  "\<exists>f. sbus1_output 100000 [1000, 1500, 2000] 3 sbus_demo = Some (Some f, sbus_demo\<lparr>last_txframe_time := 100000\<rparr>) \<and>
     (\<exists>s' out'. sbus_reads 18 [(take 10 f, 5000), (drop 10 f, 6000)] (False, sbus_demo, sbus_demo_out) = Some (True, s', out') \<and>
        take 16 (sbus_values out') = [1000, 1500, 2000] @ replicate 13 874)"
proof -
  have "\<exists>f. sbus1_output 100000 [1000, 1500, 2000] (of_nat (length [1000, 1500, 2000 :: u16])) sbus_demo =
        Some (Some f, sbus_demo\<lparr>last_txframe_time := 100000\<rparr>) \<and> length f = 25 \<and>
     (\<forall>reads. concat (map fst reads) = f \<longrightarrow> sbus_arrives sbus_demo reads \<longrightarrow>
        (\<exists>s' out'. sbus_reads 18 reads (False, sbus_demo, sbus_demo_out) = Some (True, s', out') \<and> sbus_ok s' \<and>
           take 16 (sbus_values out') = [1000, 1500, 2000] @ replicate (16 - length [1000, 1500, 2000 :: u16]) 874 \<and>
           sbus_count out' = 18 \<and> \<not> sbus_failsafe out' \<and> \<not> sbus_frame_drop out'))"
    by (rule sbus_output_received) (simp_all add: sbus_demo_simps)
  then obtain f where f: "sbus1_output 100000 [1000, 1500, 2000] 3 sbus_demo =
        Some (Some f, sbus_demo\<lparr>last_txframe_time := 100000\<rparr>)" "length f = 25"
    "concat (map fst reads) = f \<Longrightarrow> sbus_arrives sbus_demo reads \<Longrightarrow>
        (\<exists>s' out'. sbus_reads 18 reads (False, sbus_demo, sbus_demo_out) = Some (True, s', out') \<and>
           take 16 (sbus_values out') = [1000, 1500, 2000] @ replicate 13 874)" for reads
    by auto
  have "f \<noteq> []"
    using f(2) by auto
  with f(2) f(3) [of "[(take 10 f, 5000), (drop 10 f, 6000)]"] f(1) show ?thesis
    by (simp add: sbus_demo_simps)
qed

end
