(* ===== verification/Flashfs.thy ===== *)
theory Flashfs
  imports Prelude
begin

text \<open>
  The flash parameter store (\<^verbatim>\<open>src/lib/parameters/flashparams/flashfs.c\<close>): a log of entries in
  flash sectors, each with a magic word, a flag that can be cleared in place, a CRC, a size
  and a file token. Flash is a map from byte addresses to bytes. The flash driver
  (\<^verbatim>\<open>up_progmem_getpage\<close>, \<^verbatim>\<open>up_progmem_eraseblock\<close>, \<^verbatim>\<open>up_progmem_write\<close>) and the system's \<^verbatim>\<open>crc32\<close>
  are parameters. A scan that runs past its sector need not end: scans are partial functions, with
  \<open>None\<close> for no result.
\<close>

section \<open>Flash and its driver\<close>

type_synonym mem = "nat \<Rightarrow> u8"

record flash_env =
  crc32 :: "u8 list \<Rightarrow> u32"
  getpage :: "nat \<Rightarrow> int"
  eraseblock :: "int \<Rightarrow> mem \<Rightarrow> int \<times> mem"
  progmem_write :: "nat \<Rightarrow> u8 list \<Rightarrow> mem \<Rightarrow> int \<times> mem"

section \<open>Entries\<close>

definition ENOENT :: int where [simp]: "ENOENT = 2"
definition ENXIO :: int where [simp]: "ENXIO = 6"
definition ENOMEM :: int where [simp]: "ENOMEM = 12"
definition ENOSPC :: int where [simp]: "ENOSPC = 28"

definition MagicSig :: u32 where [simp]: "MagicSig = 0xaa553cc3"
definition BlankSig :: u32 where [simp]: "BlankSig = 0xffffffff"
definition SizeMask :: u16 where [simp]: "SizeMask = 0x0003"
definition MaskEntry :: u16 where [simp]: "MaskEntry = 0xfffc"
definition BlankEntry :: u16 where [simp]: "BlankEntry = 0xffff"
definition ValidEntry :: u16 where [simp]: "ValidEntry = 0xa5ac"
definition ErasedEntry :: u16 where [simp]: "ErasedEntry = 0"

text \<open>The packed header \<^verbatim>\<open>flash_entry_header_t\<close>: magic, flag, crc, size, file token; 16 bytes.\<close>

definition sizeof_header :: nat where [simp]: "sizeof_header = 16"
definition off_flag :: nat where [simp]: "off_flag = 4"
definition off_crc :: nat where [simp]: "off_crc = 6"
definition off_size :: nat where [simp]: "off_size = 10"
definition off_token :: nat where [simp]: "off_token = 12"

definition parameters_token :: u32 where
  "parameters_token = 0x6d726170"

record sector_descriptor_t =
  sec_page :: int
  sec_size :: nat
  sec_address :: nat

definition h_magic :: "mem \<Rightarrow> nat \<Rightarrow> u32" where "h_magic m a = rd32 m a"
definition h_flag :: "mem \<Rightarrow> nat \<Rightarrow> u16" where "h_flag m a = rd16 m (a + off_flag)"
definition h_crc :: "mem \<Rightarrow> nat \<Rightarrow> u32" where "h_crc m a = rd32 m (a + off_crc)"
definition h_size :: "mem \<Rightarrow> nat \<Rightarrow> u16" where "h_size m a = rd16 m (a + off_size)"
definition h_token :: "mem \<Rightarrow> nat \<Rightarrow> u32" where "h_token m a = rd32 m (a + off_token)"

definition blank_flash :: "mem \<Rightarrow> nat \<Rightarrow> bool" where
  "blank_flash m a \<longleftrightarrow> rd32 m a = BlankSig"

definition blank_check :: "mem \<Rightarrow> nat \<Rightarrow> nat \<Rightarrow> bool" where
  "blank_check m a new_size = list_all (\<lambda>i. blank_flash m (a + 4 * i)) [0..<new_size div 4]"

definition valid_magic :: "mem \<Rightarrow> nat \<Rightarrow> bool" where
  "valid_magic m a \<longleftrightarrow> rd32 m a = MagicSig"

definition blank_magic :: "mem \<Rightarrow> nat \<Rightarrow> bool" where
  "blank_magic m a \<longleftrightarrow> rd32 m a = BlankSig"

definition erased_entry :: "mem \<Rightarrow> nat \<Rightarrow> bool" where
  "erased_entry m a \<longleftrightarrow> h_flag m a AND MaskEntry = ErasedEntry"

definition blank_entry :: "mem \<Rightarrow> nat \<Rightarrow> bool" where
  "blank_entry m a \<longleftrightarrow> h_magic m a = BlankSig \<and> h_flag m a = BlankEntry"

definition valid_entry :: "mem \<Rightarrow> nat \<Rightarrow> bool" where
  "valid_entry m a \<longleftrightarrow> h_flag m a AND MaskEntry = ValidEntry"

definition entry_size_adjust :: "mem \<Rightarrow> nat \<Rightarrow> u16" where
  "entry_size_adjust m a = h_flag m a AND SizeMask"

definition next_entry :: "mem \<Rightarrow> nat \<Rightarrow> nat" where
  "next_entry m a = a + unat (h_size m a)"

definition entry_data :: "nat \<Rightarrow> nat" where
  "entry_data a = a + sizeof_header"

definition entry_data_length :: "mem \<Rightarrow> nat \<Rightarrow> u16" where
  "entry_data_length m a = h_size m a - (of_nat sizeof_header + entry_size_adjust m a)"

definition entry_crc_start :: "nat \<Rightarrow> nat" where
  "entry_crc_start a = a + off_size"

definition entry_crc_length :: "u16 \<Rightarrow> u16" where
  "entry_crc_length sz = sz - of_nat off_size"

definition crc_ok :: "flash_env \<Rightarrow> mem \<Rightarrow> nat \<Rightarrow> bool" where
  "crc_ok E m a \<longleftrightarrow>
     h_crc m a = crc32 E (rd_bytes m (entry_crc_start a) (unat (entry_crc_length (h_size m a))))"

section \<open>Scans\<close>

text \<open>
  One sector of \<^verbatim>\<open>find_entry\<close>: \<open>Some (Some a)\<close> is the entry, \<open>Some None\<close> that the loop goes on with
  the next sector, which is what the code does at the end of the sector, at a blank header after a
  good entry, and at a magic word whose CRC is wrong.
\<close>

partial_function (option) scan_entry :: "flash_env \<Rightarrow> mem \<Rightarrow> u32 \<Rightarrow> nat \<Rightarrow> nat \<Rightarrow> nat option option" where
  "scan_entry E m token pe pmagic =
     (if pmagic = pe then Some None
      else if \<not> valid_magic m pmagic then scan_entry E m token pe (pmagic + 4)
      else if crc_ok E m pmagic then
        if valid_entry m pmagic \<and> h_token m pmagic = token then Some (Some pmagic)
        else if blank_entry m (next_entry m pmagic) then Some None
        else scan_entry E m token pe (next_entry m pmagic)
      else Some None)"

definition sector_pe :: "sector_descriptor_t \<Rightarrow> nat" where
  "sector_pe s = sec_address s + 4 * (sec_size s div 4) - 4"

fun find_entry :: "flash_env \<Rightarrow> mem \<Rightarrow> sector_descriptor_t list \<Rightarrow> u32 \<Rightarrow> nat option option" where
  "find_entry E m [] token = Some None"
| "find_entry E m (s # ss) token =
     (case scan_entry E m token (sector_pe s) (sec_address s) of
        None \<Rightarrow> None
      | Some (Some a) \<Rightarrow> Some (Some a)
      | Some None \<Rightarrow> find_entry E m ss token)"

text \<open>One sector of \<^verbatim>\<open>find_free\<close>.\<close>

definition free_step :: "flash_env \<Rightarrow> mem \<Rightarrow> nat \<Rightarrow> nat" where
  "free_step E m pmagic =
     (if valid_magic m pmagic then if crc_ok E m pmagic then next_entry m pmagic else pmagic + 4
      else pmagic)"

partial_function (option) scan_free :: "flash_env \<Rightarrow> mem \<Rightarrow> nat \<Rightarrow> nat \<Rightarrow> nat \<Rightarrow> nat option option" where
  "scan_free E m required pe pmagic =
     (if blank_magic m (free_step E m pmagic) \<and> blank_entry m (free_step E m pmagic) \<and>
         blank_check m (free_step E m pmagic) required
      then Some (Some (free_step E m pmagic))
      else if free_step E m pmagic + 4 = pe then Some None
      else scan_free E m required pe (free_step E m pmagic + 4))"

fun find_free :: "flash_env \<Rightarrow> mem \<Rightarrow> sector_descriptor_t list \<Rightarrow> nat \<Rightarrow> nat option option" where
  "find_free E m [] required = Some None"
| "find_free E m (s # ss) required =
     (case scan_free E m required (sector_pe s) (sec_address s) of
        None \<Rightarrow> None
      | Some (Some a) \<Rightarrow> Some (Some a)
      | Some None \<Rightarrow> find_free E m ss required)"

section \<open>Sectors\<close>

fun get_next_sector :: "sector_descriptor_t list \<Rightarrow> nat \<Rightarrow> nat" where
  "get_next_sector ss k = (if k + 1 < length ss then k + 1 else 0)"

fun get_sector_info :: "sector_descriptor_t list \<Rightarrow> nat \<Rightarrow> nat option" where
  "get_sector_info [] pc = None"
| "get_sector_info (s # ss) pc =
     (if sec_address s \<le> pc \<and> pc \<le> sec_address s + sec_size s - 1 then Some 0
      else map_option Suc (get_sector_info ss pc))"

text \<open>The code's \<^verbatim>\<open>sm = 0\<close> is \<open>Some None\<close>; \<open>None\<close> is the null sector it would dereference.\<close>

definition check_free_space_in_sector ::
    "mem \<Rightarrow> sector_descriptor_t list \<Rightarrow> nat \<Rightarrow> nat \<Rightarrow> nat option option" where
  "check_free_space_in_sector m ss pf new_size =
     (case get_sector_info ss pf of
        None \<Rightarrow> None
      | Some k \<Rightarrow>
          let first = sec_address (ss ! k); final = first + sec_size (ss ! k) - 1;
              pnext_end = (if valid_magic m pf then next_entry m pf else pf) + new_size
          in Some (if first \<le> pnext_end \<and> pnext_end \<le> final then None else Some k))"

record flashfs =
  flash :: mem
  sector_map :: "sector_descriptor_t list option"
  working_buffer :: "u8 list option"
  working_buffer_static :: bool
  last_erased :: int

definition erase_sector :: "flash_env \<Rightarrow> sector_descriptor_t \<Rightarrow> nat \<Rightarrow> flashfs \<Rightarrow> int \<times> flashfs" where
  "erase_sector E sm pf st =
     (let block = getpage E pf
      in if block > 0 \<and> block = sec_page sm then
           (case eraseblock E block (flash st) of
              (sz, m) \<Rightarrow>
                (if sz < 0 \<or> sz \<noteq> int (sec_size sm) then sz else 0,
                 st\<lparr>last_erased := sec_page sm, flash := m\<rparr>))
         else (0, st))"

definition erase_entry :: "flash_env \<Rightarrow> nat \<Rightarrow> flashfs \<Rightarrow> int \<times> flashfs" where
  "erase_entry E pf st =
     (case progmem_write E (pf + off_flag) (le_bytes ErasedEntry) (flash st) of
        (rv, m) \<Rightarrow> (rv, st\<lparr>flash := m\<rparr>))"

section \<open>Public operations\<close>

definition parameter_flashfs_read :: "flash_env \<Rightarrow> u32 \<Rightarrow> flashfs \<Rightarrow> (int \<times> nat option) option" where
  "parameter_flashfs_read E token st =
     (case sector_map st of
        None \<Rightarrow> Some (- ENXIO, None)
      | Some ss \<Rightarrow>
          (case find_entry E (flash st) ss token of
             None \<Rightarrow> None
           | Some None \<Rightarrow> Some (- ENOENT, None)
           | Some (Some pf) \<Rightarrow> Some (uint (entry_data_length (flash st) pf), Some (entry_data pf))))"

definition size_adjust :: "nat \<Rightarrow> nat" where
  "size_adjust total_size = (total_size + 3) div 4 * 4 - total_size"

definition entry_bytes :: "flash_env \<Rightarrow> u32 \<Rightarrow> u8 list \<Rightarrow> u8 list" where
  "entry_bytes E token data =
     (let n = length data + sizeof_header; adj = size_adjust n; sz = of_nat (n + adj) :: u16;
          body = le_bytes sz @ le_bytes32 token @ data @ replicate adj 0xff
      in le_bytes32 MagicSig @ le_bytes (ValidEntry + of_nat adj) @
         le_bytes32 (crc32 E (take (unat (entry_crc_length sz)) body)) @ body)"

text \<open>
  Where the new entry goes, with the state after the old one has been marked erased: an error code
  or an address. The outer \<open>None\<close> is a scan without result or a null sector.
\<close>

definition choose_place ::
    "flash_env \<Rightarrow> sector_descriptor_t list \<Rightarrow> u32 \<Rightarrow> nat \<Rightarrow> flashfs \<Rightarrow> ((int + nat) \<times> flashfs) option" where
  "choose_place E ss token total_size st =
     (case find_entry E (flash st) ss token of
        None \<Rightarrow> None
      | Some None \<Rightarrow>
          (case find_free E (flash st) ss (total_size mod 65536) of
             None \<Rightarrow> None
           | Some None \<Rightarrow> Some (Inl (- ENOSPC), st)
           | Some (Some pf) \<Rightarrow> Some (Inr pf, st))
      | Some (Some pf) \<Rightarrow>
          (case check_free_space_in_sector (flash st) ss pf total_size of
             None \<Rightarrow> None
           | Some None \<Rightarrow>
               (case erase_entry E pf st of
                  (rv, st1) \<Rightarrow> Some (if rv < 0 then Inl rv else Inr (next_entry (flash st1) pf), st1))
           | Some (Some k) \<Rightarrow>
               let sm = ss ! get_next_sector ss k
               in if sec_size sm < total_size then Some (Inl (- ENOSPC), st)
                  else case erase_entry E pf st of
                    (rv, st1) \<Rightarrow>
                      if rv < 0 then Some (Inl rv, st1)
                      else let pn = sec_address sm
                           in Some (Inr pn, if blank_check (flash st1) pn total_size then st1
                                            else snd (erase_sector E sm pn st1))))"

definition parameter_flashfs_write :: "flash_env \<Rightarrow> u32 \<Rightarrow> nat \<Rightarrow> flashfs \<Rightarrow> (int \<times> flashfs) option" where
  "parameter_flashfs_write E token buf_size st =
     (case sector_map st of
        None \<Rightarrow> Some (- ENXIO, st)
      | Some ss \<Rightarrow>
          let total0 = buf_size + sizeof_header; adj = size_adjust total0; total_size = total0 + adj in
          (case choose_place E ss token total_size st of
             None \<Rightarrow> None
           | Some (Inl e, st1) \<Rightarrow> Some (e, st1)
           | Some (Inr pf, st1) \<Rightarrow>
               (case working_buffer st1 of
                  None \<Rightarrow> None
                | Some wb \<Rightarrow>
                    if total_size > length wb then None
                    else
                      let new = entry_bytes E token (take buf_size (drop sizeof_header wb));
                          n = unat (of_nat total_size :: u16)
                      in (case progmem_write E pf (take n new) (flash st1) of
                            (rv, m) \<Rightarrow>
                              Some (if rv \<ge> int (sizeof_header + adj) then rv - int (sizeof_header + adj) else rv,
                                    st1\<lparr>flash := m, working_buffer := Some (new @ drop total_size wb)\<rparr>)))))"

definition parameter_flashfs_alloc :: "bool \<Rightarrow> nat \<Rightarrow> flashfs \<Rightarrow> (int \<times> nat) \<times> flashfs" where
  "parameter_flashfs_alloc malloc_ok buf_size st =
     (case sector_map st of
        None \<Rightarrow> ((- ENXIO, buf_size), st)
      | Some _ \<Rightarrow>
          let wb = (if working_buffer_static st then working_buffer st
                    else if malloc_ok
                    then Some (replicate (unat (of_nat (buf_size + sizeof_header) :: u16)) 0) else None)
          in case wb of
               None \<Rightarrow> ((- ENOMEM, buf_size), st\<lparr>working_buffer := None\<rparr>)
             | Some b \<Rightarrow> ((0, unat (of_nat (length b) - 16 :: u32)),
                          st\<lparr>working_buffer := Some (replicate (length b) 0xff)\<rparr>))"

definition parameter_flashfs_free :: "flashfs \<Rightarrow> flashfs" where
  "parameter_flashfs_free st = (if working_buffer_static st then st else st\<lparr>working_buffer := None\<rparr>)"

fun erase_sectors :: "flash_env \<Rightarrow> sector_descriptor_t list \<Rightarrow> int \<Rightarrow> flashfs \<Rightarrow> int \<times> flashfs" where
  "erase_sectors E [] rv st = (rv, st)"
| "erase_sectors E (s # ss) rv st =
     (case erase_sector E s (sec_address s) st of
        (sz, st1) \<Rightarrow> if sz \<noteq> 0 then (sz, st1) else erase_sectors E ss (rv + int (sec_size s)) st1)"

definition parameter_flashfs_erase :: "flash_env \<Rightarrow> flashfs \<Rightarrow> int \<times> flashfs" where
  "parameter_flashfs_erase E st =
     (case sector_map st of None \<Rightarrow> (- ENXIO, st) | Some ss \<Rightarrow> erase_sectors E ss 0 st)"

definition parameter_flashfs_init ::
    "flash_env \<Rightarrow> sector_descriptor_t list \<Rightarrow> u8 list option \<Rightarrow> flashfs \<Rightarrow> (int \<times> flashfs) option" where
  "parameter_flashfs_init E fconfig buffer st =
     (let nbytes = (case buffer of None \<Rightarrow> 0 | Some b \<Rightarrow> length b);
          st1 = st\<lparr>sector_map := Some fconfig, working_buffer_static := (buffer \<noteq> None),
                   working_buffer := buffer, last_erased := - 1\<rparr>;
          total0 = nbytes + sizeof_header; total_size = total0 + size_adjust total0
      in case find_entry E (flash st1) fconfig parameters_token of
           None \<Rightarrow> None
         | Some (Some _) \<Rightarrow> Some (0, st1)
         | Some None \<Rightarrow>
             (case find_free E (flash st1) fconfig (total_size mod 65536) of
                None \<Rightarrow> None
              | Some (Some _) \<Rightarrow> Some (0, st1)
              | Some None \<Rightarrow> Some (parameter_flashfs_erase E st1)))"

section \<open>Reading what was written\<close>

definition agree :: "nat \<Rightarrow> nat \<Rightarrow> mem \<Rightarrow> mem \<Rightarrow> bool" where
  "agree a b m m' \<longleftrightarrow> (\<forall>x. a \<le> x \<and> x < b \<longrightarrow> m' x = m x)"

lemma agree_mono: "agree a b m m' \<Longrightarrow> a \<le> c \<Longrightarrow> d \<le> b \<Longrightarrow> agree c d m m'"
  by (auto simp: agree_def)

lemma agree_wr: "b \<le> c \<or> c + length bs \<le> a \<Longrightarrow> agree a b m (wr_bytes c bs m)"
  by (auto simp: agree_def wr_bytes_def)

lemma rd16_agree: "agree a b m m' \<Longrightarrow> a \<le> x \<Longrightarrow> x + 2 \<le> b \<Longrightarrow> rd16 m' x = rd16 m x"
  by (auto simp: agree_def intro!: rd16_cong)

lemma rd32_agree: "agree a b m m' \<Longrightarrow> a \<le> x \<Longrightarrow> x + 4 \<le> b \<Longrightarrow> rd32 m' x = rd32 m x"
  by (simp add: rd32_def rd16_agree [of a b m m'])

lemma rd_bytes_agree: "agree a b m m' \<Longrightarrow> a \<le> x \<Longrightarrow> x + n \<le> b \<Longrightarrow> rd_bytes m' x n = rd_bytes m x n"
  by (auto simp: agree_def rd_bytes_def)

lemma rd16_wr: "k + 2 \<le> length bs \<Longrightarrow> rd16 (wr_bytes a bs m) (a + k) = rd16 (\<lambda>i. bs ! i) k"
  by (simp add: rd16_def wr_bytes_def)

lemma rd32_wr: "k + 4 \<le> length bs \<Longrightarrow> rd32 (wr_bytes a bs m) (a + k) = rd32 (\<lambda>i. bs ! i) k"
  using rd16_wr [of k bs a m] rd16_wr [of "k + 2" bs a m] by (simp add: rd32_def add.assoc)

lemma rd_bytes_wr_part:
  "k + n \<le> length bs \<Longrightarrow> rd_bytes (wr_bytes a bs m) (a + k) n = take n (drop k bs)"
  by (rule nth_equalityI) (simp_all add: rd_bytes_def wr_bytes_def)

lemma rd16_le_bytes: "rd16 (\<lambda>i. (xs @ le_bytes w @ ys) ! i) (length xs) = w"
  by (rule rd16_le) (simp_all add: le_bytes_def nth_append)

lemma rd32_le_bytes: "rd32 (\<lambda>i. (xs @ le_bytes32 w @ ys) ! i) (length xs) = w"
proof (rule rd32_le)
  show "rd16 (\<lambda>i. (xs @ le_bytes32 w @ ys) ! i) (length xs) = ucast w"
    using rd16_le_bytes [of xs "ucast w" "le_bytes (ucast (drop_bit 16 w)) @ ys"] by (simp add: le_bytes32_def)
  show "rd16 (\<lambda>i. (xs @ le_bytes32 w @ ys) ! i) (length xs + 2) = ucast (drop_bit 16 w)"
    using rd16_le_bytes [of "xs @ le_bytes (ucast w)" "ucast (drop_bit 16 w)" ys] by (simp add: le_bytes32_def)
qed

section \<open>A written entry\<close>

definition padded :: "nat \<Rightarrow> nat" where
  "padded n = n + sizeof_header + size_adjust (n + sizeof_header)"

lemma size_adjust_less: "size_adjust n < 4"
  unfolding size_adjust_def by presburger

lemma padded_dvd: "4 dvd padded n" "n + 16 \<le> padded n"
proof -
  have "(n + 16 + 3) div 4 * 4 \<ge> n + 16"
    by presburger
  then have "padded n = (n + 16 + 3) div 4 * 4"
    by (simp add: padded_def size_adjust_def)
  then show "4 dvd padded n"
    by simp
qed (simp add: padded_def)

lemma length_entry_bytes [simp]: "length (entry_bytes E token data) = padded (length data)"
  by (simp add: entry_bytes_def padded_def Let_def)

lemma entry_bytes_fields:
  fixes data and E :: flash_env and token :: u32
  defines "bs \<equiv> entry_bytes E token data" and "adj \<equiv> size_adjust (length data + 16)"
  assumes "padded (length data) < 65536"
  shows "rd32 (\<lambda>i. bs ! i) 0 = MagicSig"
    and "rd16 (\<lambda>i. bs ! i) 4 = ValidEntry + of_nat adj"
    and "rd16 (\<lambda>i. bs ! i) 10 = of_nat (padded (length data))"
    and "rd32 (\<lambda>i. bs ! i) 12 = token"
    and "rd32 (\<lambda>i. bs ! i) 6 = crc32 E (drop 10 bs)"
    and "take (length data) (drop 16 bs) = data"
proof -
  let ?sz = "of_nat (padded (length data)) :: u16"
  let ?body = "le_bytes ?sz @ le_bytes32 token @ data @ replicate adj 0xff"
  let ?crc = "crc32 E ?body"
  have len: "unat (entry_crc_length ?sz) = length ?body"
  proof -
    have "unat ?sz = padded (length data)"
      using assms(3) by (simp add: unsigned_of_nat take_bit_nat_eq_self)
    moreover have "(10 :: u16) \<le> ?sz"
      using calculation padded_dvd(2) [of "length data"] by (simp add: word_le_nat_alt)
    ultimately have "unat (?sz - 10) = padded (length data) - 10"
      by (simp add: unat_sub)
    then show ?thesis
      by (simp add: entry_crc_length_def padded_def adj_def)
  qed
  have bs: "bs = le_bytes32 MagicSig @ le_bytes (ValidEntry + of_nat adj) @ le_bytes32 ?crc @ ?body"
    using len by (simp add: bs_def entry_bytes_def Let_def padded_def adj_def)
  show "rd32 (\<lambda>i. bs ! i) 0 = MagicSig"
    using rd32_le_bytes [of "[]"] by (simp add: bs)
  show "rd16 (\<lambda>i. bs ! i) 4 = ValidEntry + of_nat adj"
    using rd16_le_bytes [of "le_bytes32 MagicSig"] by (simp add: bs)
  show "rd16 (\<lambda>i. bs ! i) 10 = ?sz"
    using rd16_le_bytes [of "le_bytes32 MagicSig @ le_bytes (ValidEntry + of_nat adj) @ le_bytes32 ?crc" ?sz]
    by (simp add: bs)
  show "rd32 (\<lambda>i. bs ! i) 12 = token"
    using rd32_le_bytes [of "le_bytes32 MagicSig @ le_bytes (ValidEntry + of_nat adj) @ le_bytes32 ?crc @ le_bytes ?sz" token]
    by (simp add: bs)
  show "rd32 (\<lambda>i. bs ! i) 6 = crc32 E (drop 10 bs)"
    using rd32_le_bytes [of "le_bytes32 MagicSig @ le_bytes (ValidEntry + of_nat adj)" ?crc] by (simp add: bs)
  show "take (length data) (drop 16 bs) = data"
    by (simp add: bs)
qed

text \<open>
  A good entry has its magic word, its CRC and a size that covers the header; it matches a token when
  it is valid and carries the token. \<open>holds\<close> says that a file with given contents is stored there.
\<close>

definition good_entry :: "flash_env \<Rightarrow> mem \<Rightarrow> nat \<Rightarrow> bool" where
  "good_entry E m a \<longleftrightarrow> valid_magic m a \<and> crc_ok E m a \<and> 16 \<le> unat (h_size m a) \<and>
     4 dvd unat (h_size m a)"

definition matching :: "mem \<Rightarrow> u32 \<Rightarrow> nat \<Rightarrow> bool" where
  "matching m token a \<longleftrightarrow> valid_entry m a \<and> h_token m a = token"

definition holds :: "flash_env \<Rightarrow> mem \<Rightarrow> u32 \<Rightarrow> nat \<Rightarrow> u8 list \<Rightarrow> bool" where
  "holds E m token a data \<longleftrightarrow> good_entry E m a \<and> matching m token a \<and>
     next_entry m a = a + padded (length data) \<and> unat (entry_data_length m a) = length data \<and>
     rd_bytes m (entry_data a) (length data) = data"

lemma crc_length_unat: "16 \<le> unat sz \<Longrightarrow> unat (entry_crc_length sz) = unat sz - 10"
  by (simp add: entry_crc_length_def unat_sub word_le_nat_alt)

lemma adj_flag:
  assumes "adj < 4"
  shows "(ValidEntry + of_nat adj) AND MaskEntry = ValidEntry" "(ValidEntry + of_nat adj) AND SizeMask = of_nat adj"
proof -
  have "adj = 0 \<or> adj = 1 \<or> adj = 2 \<or> adj = 3"
    using assms by linarith
  then show "(ValidEntry + of_nat adj) AND MaskEntry = ValidEntry" "(ValidEntry + of_nat adj) AND SizeMask = of_nat adj"
    by auto
qed

lemma holds_written:
  assumes "padded (length data) < 65536"
  shows "holds E (wr_bytes a (entry_bytes E token data) m) token a data"
proof -
  let ?bs = "entry_bytes E token data" and ?m = "wr_bytes a (entry_bytes E token data) m"
  let ?n = "padded (length data)" and ?adj = "size_adjust (length data + 16)"
  note f = entry_bytes_fields [OF assms, of E token]
  have n16: "length data + 16 \<le> ?n"
    by (rule padded_dvd)
  then have len: "16 \<le> length ?bs"
    by simp
  have unat_n: "unat (of_nat ?n :: u16) = ?n"
    using assms by (simp add: unsigned_of_nat take_bit_nat_eq_self)
  have magic: "rd32 ?m a = MagicSig"
    using rd32_wr [of 0 ?bs a m] len f(1) by simp
  have flag: "h_flag ?m a = ValidEntry + of_nat ?adj"
    using rd16_wr [of 4 ?bs a m] len f(2) by (simp add: h_flag_def)
  have size: "h_size ?m a = of_nat ?n"
    using rd16_wr [of 10 ?bs a m] len f(3) by (simp add: h_size_def)
  have token: "h_token ?m a = token"
    using rd32_wr [of 12 ?bs a m] len f(4) by (simp add: h_token_def)
  have crc: "h_crc ?m a = crc32 E (drop 10 ?bs)"
    using rd32_wr [of 6 ?bs a m] len f(5) by (simp add: h_crc_def)
  have clen: "unat (entry_crc_length (h_size ?m a)) = ?n - 10"
    using crc_length_unat [of "h_size ?m a"] n16 by (simp add: size unat_n)
  have "rd_bytes ?m (a + 10) (?n - 10) = drop 10 ?bs"
    using rd_bytes_wr_part [of 10 "?n - 10" ?bs a m] n16 by simp
  then have ok: "crc_ok E ?m a"
    by (simp add: crc_ok_def crc clen entry_crc_start_def)
  have data: "rd_bytes ?m (entry_data a) (length data) = data"
    using rd_bytes_wr_part [of 16 "length data" ?bs a m] n16 f(6) by (simp add: entry_data_def)
  have "of_nat (length data) = h_size ?m a - (16 + entry_size_adjust ?m a)"
    by (simp add: size entry_size_adjust_def flag adj_flag(2) [OF size_adjust_less] padded_def
        del: SizeMask_def ValidEntry_def)
  moreover have "unat (of_nat (length data) :: u16) = length data"
    using n16 assms by (simp add: unsigned_of_nat take_bit_nat_eq_self)
  ultimately have dlen: "unat (entry_data_length ?m a) = length data"
    by (simp add: entry_data_length_def)
  show ?thesis
    using magic ok data dlen token size n16 unat_n padded_dvd(1) [of "length data"]
    by (simp add: holds_def good_entry_def matching_def valid_magic_def next_entry_def valid_entry_def flag
        adj_flag(1) [OF size_adjust_less] del: ValidEntry_def MaskEntry_def)
qed

section \<open>Logs\<close>

lemma fields_agree:
  assumes "agree a (a + 16) m m'"
  shows "rd32 m' a = rd32 m a" "h_flag m' a = h_flag m a" "h_crc m' a = h_crc m a"
    "h_size m' a = h_size m a" "h_token m' a = h_token m a" "h_magic m' a = h_magic m a"
  using assms by (simp_all add: h_flag_def h_crc_def h_size_def h_token_def h_magic_def
      rd16_agree [OF assms] rd32_agree [OF assms])

lemma entry_agree:
  assumes "good_entry E m a" and "agree a (next_entry m a) m m'"
  shows "good_entry E m' a" "next_entry m' a = next_entry m a" "matching m' token a = matching m token a"
proof -
  have 16: "16 \<le> unat (h_size m a)"
    using assms(1) by (simp add: good_entry_def)
  then have ag: "agree a (a + 16) m m'"
    using assms(2) by (auto simp: next_entry_def intro: agree_mono)
  note f = fields_agree [OF ag]
  show next_same: "next_entry m' a = next_entry m a" and "matching m' token a = matching m token a"
    by (simp_all add: next_entry_def matching_def valid_entry_def f)
  have "rd_bytes m' (a + 10) (unat (h_size m a) - 10) = rd_bytes m (a + 10) (unat (h_size m a) - 10)"
    using 16 by (intro rd_bytes_agree [OF assms(2)]) (simp_all add: next_entry_def)
  with assms(1) show "good_entry E m' a"
    using crc_length_unat [OF 16] by (simp add: good_entry_def valid_magic_def crc_ok_def f entry_crc_start_def)
qed

inductive entry_log :: "flash_env \<Rightarrow> mem \<Rightarrow> nat \<Rightarrow> nat list \<Rightarrow> nat \<Rightarrow> bool" for E m where
  log_nil: "entry_log E m a [] a"
| log_cons: "good_entry E m a \<Longrightarrow> entry_log E m (next_entry m a) as b \<Longrightarrow> entry_log E m a (a # as) b"

inductive_cases entry_log_ConsE: "entry_log E m a (x # xs) b"
inductive_cases entry_log_NilE: "entry_log E m a [] b"

lemma next_entry_ge: "good_entry E m a \<Longrightarrow> a + 16 \<le> next_entry m a"
  by (simp add: good_entry_def next_entry_def)

lemma entry_log_le: "entry_log E m a as b \<Longrightarrow> a \<le> b \<and> (\<forall>x \<in> set as. a \<le> x \<and> x < b)"
proof (induction rule: entry_log.induct)
  case (log_cons a as b)
  with next_entry_ge [OF log_cons(1)] show ?case
    by fastforce
qed simp

lemma entry_log_snoc:
  "entry_log E m a as b \<Longrightarrow> good_entry E m b \<Longrightarrow> entry_log E m a (as @ [b]) (next_entry m b)"
  by (induction rule: entry_log.induct) (auto intro: entry_log.intros)

lemma entry_log_agree:
  "entry_log E m a as b \<Longrightarrow> agree a b m m' \<Longrightarrow>
   entry_log E m' a as b \<and> (\<forall>x \<in> set as. matching m' token x = matching m token x)"
proof (induction rule: entry_log.induct)
  case (log_cons a as b)
  have le: "next_entry m a \<le> b"
    using entry_log_le [OF log_cons(2)] by simp
  have ag: "agree a (next_entry m a) m m'"
    using log_cons.prems le by (auto intro: agree_mono)
  have "agree (next_entry m a) b m m'"
    using log_cons.prems next_entry_ge [OF log_cons(1)] by (auto intro: agree_mono)
  with log_cons.IH entry_agree [OF log_cons(1) ag] show ?case
    by (auto intro!: entry_log.log_cons)
qed (auto intro: entry_log.log_nil)

lemma entry_log_dvd: "entry_log E m a as b \<Longrightarrow> 4 dvd a \<Longrightarrow> 4 dvd b"
  by (induction rule: entry_log.induct) (auto simp: good_entry_def next_entry_def)

definition blank_tail :: "mem \<Rightarrow> nat \<Rightarrow> nat \<Rightarrow> bool" where
  "blank_tail m b e \<longleftrightarrow> (\<forall>x. b \<le> x \<and> x < e \<longrightarrow> m x = 0xff)"

lemma blank_tail_mono: "blank_tail m b e \<Longrightarrow> b \<le> c \<Longrightarrow> d \<le> e \<Longrightarrow> blank_tail m c d"
  by (auto simp: blank_tail_def)

lemma blank_tail_agree: "blank_tail m b e \<Longrightarrow> agree b e m m' \<Longrightarrow> blank_tail m' b e"
  by (auto simp: blank_tail_def agree_def)

lemma rd32_blank: "blank_tail m b e \<Longrightarrow> b \<le> x \<Longrightarrow> x + 4 \<le> e \<Longrightarrow> rd32 m x = BlankSig"
  by (simp add: blank_tail_def rd32_def rd16_def)

lemma scan_blank:
  assumes "blank_tail m b (pe + 4)" and "b + 4 * n = pe"
  shows "scan_entry E m token pe b = Some None"
  using assms
proof (induction n arbitrary: b)
  case 0
  then show ?case
    by (simp add: scan_entry.simps)
next
  case (Suc n)
  have "rd32 m b = BlankSig"
    using Suc.prems by (intro rd32_blank [OF Suc.prems(1)]) auto
  then have "\<not> valid_magic m b"
    by (simp add: valid_magic_def)
  moreover have "scan_entry E m token pe (b + 4) = Some None"
    using Suc.prems by (intro Suc.IH) (auto intro: blank_tail_mono)
  ultimately show ?case
    by (simp add: scan_entry.simps [of E m token pe b])
qed

lemma good_not_blank: "good_entry E m a \<Longrightarrow> \<not> blank_entry m a"
  by (simp add: good_entry_def valid_magic_def blank_entry_def h_magic_def)

lemma scan_log:
  "entry_log E m a as b \<Longrightarrow> \<forall>x \<in> set as. \<not> matching m token x \<and> x \<noteq> pe \<Longrightarrow>
   scan_entry E m token pe a =
     (if as \<noteq> [] \<and> blank_entry m b then Some None else scan_entry E m token pe b)"
proof (induction rule: entry_log.induct)
  case (log_cons a as b)
  have "scan_entry E m token pe a =
      (if blank_entry m (next_entry m a) then Some None else scan_entry E m token pe (next_entry m a))"
    using log_cons.hyps(1) log_cons.prems
    by (subst scan_entry.simps) (auto simp: good_entry_def matching_def)
  moreover have "as \<noteq> [] \<Longrightarrow> \<not> blank_entry m (next_entry m a)"
    using log_cons.hyps(2) by (cases as) (auto elim!: entry_log_ConsE dest: good_not_blank)
  moreover have "as = [] \<Longrightarrow> next_entry m a = b"
    using log_cons.hyps(2) by (auto elim: entry_log_NilE)
  ultimately show ?case
    using log_cons.IH log_cons.prems by auto
qed simp

section \<open>What a sector map stores\<close>

definition sec_end :: "sector_descriptor_t \<Rightarrow> nat" where
  "sec_end s = sec_address s + sec_size s"

definition sec_ok :: "sector_descriptor_t \<Rightarrow> bool" where
  "sec_ok s \<longleftrightarrow> 4 dvd sec_address s \<and> 4 dvd sec_size s \<and> 4 \<le> sec_size s"

definition quiet :: "flash_env \<Rightarrow> mem \<Rightarrow> u32 \<Rightarrow> sector_descriptor_t \<Rightarrow> bool" where
  "quiet E m token s \<longleftrightarrow> (\<exists>as b. entry_log E m (sec_address s) as b \<and>
     (\<forall>x \<in> set as. \<not> matching m token x) \<and> b + 4 \<le> sec_end s \<and> blank_tail m b (sec_end s))"

definition active :: "flash_env \<Rightarrow> mem \<Rightarrow> u32 \<Rightarrow> u8 list \<Rightarrow> nat \<Rightarrow> sector_descriptor_t \<Rightarrow> bool" where
  "active E m token data pf s \<longleftrightarrow> (\<exists>as. entry_log E m (sec_address s) as pf \<and>
     (\<forall>x \<in> set as. \<not> matching m token x) \<and> holds E m token pf data \<and>
     pf + padded (length data) + 4 \<le> sec_end s \<and> blank_tail m (pf + padded (length data)) (sec_end s))"

definition stored :: "flash_env \<Rightarrow> mem \<Rightarrow> sector_descriptor_t list \<Rightarrow> u32 \<Rightarrow> u8 list \<Rightarrow> bool" where
  "stored E m ss token data \<longleftrightarrow> (\<exists>k pf. k < length ss \<and> active E m token data pf (ss ! k) \<and>
     (\<forall>j<length ss. j \<noteq> k \<longrightarrow> quiet E m token (ss ! j)))"

lemma quietI:
  "entry_log E m (sec_address s) as b \<Longrightarrow> \<forall>x \<in> set as. \<not> matching m token x \<Longrightarrow>
   b + 4 \<le> sec_end s \<Longrightarrow> blank_tail m b (sec_end s) \<Longrightarrow> quiet E m token s"
  by (auto simp: quiet_def)

lemma sector_pe_ok: "sec_ok s \<Longrightarrow> sector_pe s + 4 = sec_end s"
  by (auto simp: sec_ok_def sector_pe_def sec_end_def)

lemma scan_quiet:
  assumes "sec_ok s" and "quiet E m token s"
  shows "scan_entry E m token (sector_pe s) (sec_address s) = Some None"
proof -
  obtain as b where l: "entry_log E m (sec_address s) as b" "\<forall>x \<in> set as. \<not> matching m token x"
    "b + 4 \<le> sec_end s" "blank_tail m b (sec_end s)"
    using assms(2) by (auto simp: quiet_def)
  have pe: "sector_pe s + 4 = sec_end s"
    by (rule sector_pe_ok [OF assms(1)])
  have "4 dvd b" "4 dvd sec_end s"
    using entry_log_dvd [OF l(1)] assms(1) by (auto simp: sec_ok_def sec_end_def)
  then have "4 dvd sector_pe s - b" "b \<le> sector_pe s"
    using pe l(3) by (metis diff_add_inverse2 dvd_diff_nat dvd_refl, linarith)
  then obtain n where n: "b + 4 * n = sector_pe s"
    by (metis dvd_def le_add_diff_inverse)
  have "scan_entry E m token (sector_pe s) b = Some None"
    using l(4) by (intro scan_blank [OF _ n]) (simp add: pe)
  moreover have "\<forall>x \<in> set as. \<not> matching m token x \<and> x \<noteq> sector_pe s"
    using l(2) entry_log_le [OF l(1)] \<open>b \<le> sector_pe s\<close> by auto
  ultimately show ?thesis
    using scan_log [OF l(1)] by auto
qed

lemma scan_active:
  assumes "sec_ok s" and "active E m token data pf s"
  shows "scan_entry E m token (sector_pe s) (sec_address s) = Some (Some pf)"
proof -
  obtain as where l: "entry_log E m (sec_address s) as pf" "\<forall>x \<in> set as. \<not> matching m token x"
    "holds E m token pf data" "pf + padded (length data) + 4 \<le> sec_end s"
    using assms(2) by (auto simp: active_def)
  have pe: "sector_pe s + 4 = sec_end s" "16 \<le> padded (length data)"
    using sector_pe_ok [OF assms(1)] padded_dvd(2) [of "length data"] by simp_all
  have good: "good_entry E m pf" "matching m token pf"
    using l(3) by (simp_all add: holds_def)
  have "pf \<noteq> sector_pe s"
    using l(4) pe by linarith
  then have "scan_entry E m token (sector_pe s) pf = Some (Some pf)"
    using good by (subst scan_entry.simps) (simp add: good_entry_def matching_def)
  moreover have "\<forall>x \<in> set as. \<not> matching m token x \<and> x \<noteq> sector_pe s"
    using l(2,4) entry_log_le [OF l(1)] pe by auto
  ultimately show ?thesis
    using scan_log [OF l(1)] good_not_blank [OF good(1)] by auto
qed

lemma find_entry_active:
  "\<forall>s \<in> set ss. sec_ok s \<Longrightarrow> k < length ss \<Longrightarrow> \<forall>j<k. quiet E m token (ss ! j) \<Longrightarrow>
   active E m token data pf (ss ! k) \<Longrightarrow> find_entry E m ss token = Some (Some pf)"
proof (induction ss arbitrary: k)
  case (Cons s ss)
  show ?case
  proof (cases k)
    case 0
    with Cons.prems show ?thesis
      using scan_active [of s E m token data pf] by simp
  next
    case (Suc j)
    have "quiet E m token s"
      using Cons.prems(3) Suc by auto
    then have "scan_entry E m token (sector_pe s) (sec_address s) = Some None"
      using Cons.prems(1) by (simp add: scan_quiet)
    moreover have "find_entry E m ss token = Some (Some pf)"
      using Cons.prems Suc by (intro Cons.IH [of j]) auto
    ultimately show ?thesis
      by simp
  qed
qed simp

section \<open>The driver\<close>

text \<open>
  What the store relies on. Programming may only clear bits; then it succeeds, returns the number of
  bytes and changes nothing else. Erasing a sector's page returns its size and blanks the sector only.
\<close>

definition nor_write :: "flash_env \<Rightarrow> bool" where
  "nor_write E \<longleftrightarrow> (\<forall>a bs m. (\<forall>i < length bs. bs ! i AND m (a + i) = bs ! i) \<longrightarrow>
     progmem_write E a bs m = (int (length bs), wr_bytes a bs m))"

definition nor_erase :: "flash_env \<Rightarrow> sector_descriptor_t \<Rightarrow> bool" where
  "nor_erase E s \<longleftrightarrow> sec_page s > 0 \<and> getpage E (sec_address s) = sec_page s \<and>
     (\<forall>m. eraseblock E (sec_page s) m =
       (int (sec_size s), \<lambda>x. if sec_address s \<le> x \<and> x < sec_end s then 0xff else m x))"

definition map_ok :: "flash_env \<Rightarrow> sector_descriptor_t list \<Rightarrow> bool" where
  "map_ok E ss \<longleftrightarrow> nor_write E \<and> (\<forall>s \<in> set ss. sec_ok s \<and> nor_erase E s) \<and>
     (\<forall>i<length ss. \<forall>j<length ss. i \<noteq> j \<longrightarrow>
        sec_end (ss ! i) \<le> sec_address (ss ! j) \<or> sec_end (ss ! j) \<le> sec_address (ss ! i))"

lemma nor_write_blank:
  assumes "nor_write E" and "blank_tail m a (a + length bs)"
  shows "progmem_write E a bs m = (int (length bs), wr_bytes a bs m)"
proof -
  have "\<forall>i < length bs. bs ! i AND m (a + i) = bs ! i"
    using assms(2) by (simp add: blank_tail_def)
  with assms(1) show ?thesis
    unfolding nor_write_def by blast
qed

lemma erase_entry_nor:
  "nor_write E \<Longrightarrow> erase_entry E pf st = (2, st\<lparr>flash := wr_bytes (pf + 4) (le_bytes 0) (flash st)\<rparr>)"
proof -
  assume "nor_write E"
  moreover have "le_bytes 0 ! i AND x = le_bytes 0 ! i" if "i < length (le_bytes 0)" for i x
    using that by (auto simp: le_bytes_def less_Suc_eq)
  ultimately show ?thesis
    by (simp add: erase_entry_def nor_write_def)
qed

lemma erased_in_place:
  assumes "good_entry E m a"
  defines "m' \<equiv> wr_bytes (a + 4) (le_bytes 0) m"
  shows "good_entry E m' a" "next_entry m' a = next_entry m a" "\<not> matching m' token a"
proof -
  have ag: "agree a (a + 4) m m'" "agree (a + 6) (next_entry m a) m m'"
    by (simp_all add: m'_def agree_wr)
  have 16: "16 \<le> unat (h_size m a)" and n: "a + 16 \<le> next_entry m a"
    using assms(1) next_entry_ge by (auto simp: good_entry_def)
  have magic: "rd32 m' a = rd32 m a"
    by (rule rd32_agree [OF ag(1)]) simp_all
  have f: "h_crc m' a = h_crc m a" "h_size m' a = h_size m a"
    using n by (simp_all add: h_crc_def h_size_def rd16_agree [OF ag(2)] rd32_agree [OF ag(2)])
  have flag: "h_flag m' a = 0"
    using rd16_wr [of 0 "le_bytes 0" "a + 4" m] rd16_le_bytes [of "[]" 0 "[]"] by (simp add: h_flag_def m'_def)
  show "next_entry m' a = next_entry m a" "\<not> matching m' token a"
    by (simp_all add: next_entry_def f matching_def valid_entry_def flag)
  have "rd_bytes m' (a + 10) (unat (h_size m a) - 10) = rd_bytes m (a + 10) (unat (h_size m a) - 10)"
    using 16 by (intro rd_bytes_agree [OF ag(2)]) (simp_all add: next_entry_def)
  with assms(1) show "good_entry E m' a"
    using crc_length_unat [OF 16] by (simp add: good_entry_def valid_magic_def crc_ok_def magic f entry_crc_start_def)
qed

lemma quiet_agree:
  assumes "quiet E m token s" and "agree (sec_address s) (sec_end s) m m'"
  shows "quiet E m' token s"
proof -
  obtain as b where l: "entry_log E m (sec_address s) as b" "\<forall>x \<in> set as. \<not> matching m token x"
    "b + 4 \<le> sec_end s" "blank_tail m b (sec_end s)"
    using assms(1) by (auto simp: quiet_def)
  have "agree (sec_address s) b m m'" "agree b (sec_end s) m m'"
    using assms(2) l(3) entry_log_le [OF l(1)] by (auto intro: agree_mono)
  with l entry_log_agree [OF l(1), of m' token] blank_tail_agree [OF l(4), of m'] show ?thesis
    by (intro quietI [of E m' s as b]) auto
qed

text \<open>Marking the stored file erased makes its sector quiet.\<close>

lemma active_erased:
  assumes "active E m token data pf s"
  defines "m' \<equiv> wr_bytes (pf + 4) (le_bytes 0) m"
  shows "\<exists>as. entry_log E m' (sec_address s) as (pf + padded (length data)) \<and>
     (\<forall>x \<in> set as. \<not> matching m' token x)"
    and "blank_tail m' (pf + padded (length data)) (sec_end s)"
    and "quiet E m' token s"
proof -
  obtain as where l: "entry_log E m (sec_address s) as pf" "\<forall>x \<in> set as. \<not> matching m token x"
    "holds E m token pf data" "pf + padded (length data) + 4 \<le> sec_end s"
    "blank_tail m (pf + padded (length data)) (sec_end s)"
    using assms(1) by (auto simp: active_def)
  have good: "good_entry E m pf" and n: "next_entry m pf = pf + padded (length data)"
    using l(3) by (simp_all add: holds_def)
  note e = erased_in_place [OF good, folded m'_def]
  have 16: "16 \<le> padded (length data)"
    using padded_dvd(2) [of "length data"] by simp
  have "entry_log E m' (sec_address s) as pf \<and> (\<forall>x \<in> set as. matching m' token x = matching m token x)"
    by (rule entry_log_agree [OF l(1)]) (simp add: m'_def agree_wr)
  then have lg: "entry_log E m' (sec_address s) (as @ [pf]) (pf + padded (length data))"
      "\<forall>x \<in> set (as @ [pf]). \<not> matching m' token x"
    using entry_log_snoc [of E m' "sec_address s" as pf] e l(2) n by auto
  then show "\<exists>as. entry_log E m' (sec_address s) as (pf + padded (length data)) \<and>
     (\<forall>x \<in> set as. \<not> matching m' token x)"
    by blast
  show blank: "blank_tail m' (pf + padded (length data)) (sec_end s)"
    by (rule blank_tail_agree [OF l(5)]) (use 16 in \<open>simp add: m'_def agree_wr\<close>)
  show "quiet E m' token s"
    by (rule quietI [OF lg l(4) blank])
qed

section \<open>Writing\<close>

lemma active_append:
  assumes "entry_log E m (sec_address s) as b" "\<forall>x \<in> set as. \<not> matching m token x"
    and "blank_tail m b (sec_end s)" "b + padded (length data) + 4 \<le> sec_end s" "padded (length data) < 65536"
  shows "active E (wr_bytes b (entry_bytes E token data) m) token data b s"
proof -
  let ?m = "wr_bytes b (entry_bytes E token data) m"
  have "entry_log E ?m (sec_address s) as b \<and> (\<forall>x \<in> set as. matching ?m token x = matching m token x)"
    by (rule entry_log_agree [OF assms(1)]) (simp add: agree_wr)
  moreover have "blank_tail ?m (b + padded (length data)) (sec_end s)"
    by (rule blank_tail_agree [OF blank_tail_mono [OF assms(3)]]) (simp_all add: agree_wr)
  ultimately show ?thesis
    using assms(2,4) holds_written [OF assms(5), of E b token m] by (auto simp: active_def)
qed

lemma stored_append:
  assumes "map_ok E ss" and "k < length ss" and "\<forall>j<length ss. j \<noteq> k \<longrightarrow> quiet E m token (ss ! j)"
    and "entry_log E m (sec_address (ss ! k)) as b" "\<forall>x \<in> set as. \<not> matching m token x"
    and "blank_tail m b (sec_end (ss ! k))" "b + padded (length data) + 4 \<le> sec_end (ss ! k)"
    and "padded (length data) < 65536"
  shows "stored E (wr_bytes b (entry_bytes E token data) m) ss token data"
proof -
  let ?m = "wr_bytes b (entry_bytes E token data) m"
  have "quiet E ?m token (ss ! j)" if j: "j < length ss" "j \<noteq> k" for j
  proof (rule quiet_agree)
    show "quiet E m token (ss ! j)"
      using assms(3) j by blast
    have "sec_end (ss ! j) \<le> sec_address (ss ! k) \<or> sec_end (ss ! k) \<le> sec_address (ss ! j)"
      using assms(1,2) j unfolding map_ok_def by blast
    then show "agree (sec_address (ss ! j)) (sec_end (ss ! j)) m ?m"
      using entry_log_le [OF assms(4)] assms(7) by (intro agree_wr) auto
  qed
  with assms(2) active_append [OF assms(4-8)] show ?thesis
    unfolding stored_def by blast
qed

lemma get_sector_info_at:
  "k < length ss \<Longrightarrow> sec_address (ss ! k) \<le> pc \<Longrightarrow> pc < sec_end (ss ! k) \<Longrightarrow>
   \<forall>j<k. \<not> (sec_address (ss ! j) \<le> pc \<and> pc < sec_end (ss ! j)) \<Longrightarrow> \<forall>s \<in> set ss. sec_ok s \<Longrightarrow>
   get_sector_info ss pc = Some k"
proof (induction ss arbitrary: k)
  case (Cons s ss)
  have range: "pc \<le> sec_address s + sec_size s - 1 \<longleftrightarrow> pc < sec_end s"
    using Cons.prems(5) by (auto simp: sec_ok_def sec_end_def)
  show ?case
  proof (cases k)
    case 0
    with Cons.prems range show ?thesis
      by simp
  next
    case (Suc j)
    have "get_sector_info ss pc = Some j"
      using Cons.prems Suc by (intro Cons.IH) auto
    moreover have "\<not> (sec_address s \<le> pc \<and> pc < sec_end s)"
      using Cons.prems(4) Suc by auto
    ultimately show ?thesis
      using range Suc by simp
  qed
qed simp

lemma active_info:
  assumes "map_ok E ss" and "k < length ss" and "active E m token data pf (ss ! k)"
  shows "get_sector_info ss pf = Some k" "valid_magic m pf" "next_entry m pf = pf + padded (length data)"
    "sec_address (ss ! k) \<le> pf" "pf + padded (length data) + 4 \<le> sec_end (ss ! k)" "4 dvd pf"
proof -
  obtain as where l: "entry_log E m (sec_address (ss ! k)) as pf" "holds E m token pf data"
    "pf + padded (length data) + 4 \<le> sec_end (ss ! k)"
    using assms(3) by (auto simp: active_def)
  have ok: "\<forall>s \<in> set ss. sec_ok s"
    using assms(1) by (simp add: map_ok_def)
  show pf: "sec_address (ss ! k) \<le> pf" "pf + padded (length data) + 4 \<le> sec_end (ss ! k)"
    using entry_log_le [OF l(1)] l(3) by simp_all
  show "4 dvd pf"
    using entry_log_dvd [OF l(1)] ok assms(2) by (simp add: sec_ok_def)
  show "valid_magic m pf" "next_entry m pf = pf + padded (length data)"
    using l(2) by (simp_all add: holds_def good_entry_def)
  have "\<not> (sec_address (ss ! j) \<le> pf \<and> pf < sec_end (ss ! j))" if "j < k" for j
  proof -
    have "sec_end (ss ! j) \<le> sec_address (ss ! k) \<or> sec_end (ss ! k) \<le> sec_address (ss ! j)"
      using assms(1,2) that unfolding map_ok_def by (metis less_trans nat_neq_iff)
    with pf show ?thesis
      by linarith
  qed
  with pf show "get_sector_info ss pf = Some k"
    using assms(2) ok by (intro get_sector_info_at) auto
qed

text \<open>The next sector, erased if need be, is blank afterwards and the others are as before.\<close>

lemma rd32_magic_not_blank: "good_entry E m a \<Longrightarrow> n \<ge> 4 \<Longrightarrow> \<not> blank_check m a n"
proof -
  assume g: "good_entry E m a" and n: "n \<ge> 4"
  have "\<not> blank_flash m (a + 4 * 0)"
    using g by (simp add: good_entry_def valid_magic_def blank_flash_def)
  moreover have "0 \<in> set [0..<n div 4]"
    using n by simp
  ultimately show ?thesis
    unfolding blank_check_def list_all_iff by blast
qed

lemma prepared_sector:
  assumes "nor_erase E s" and "quiet E m token s \<or> \<not> blank_check m (sec_address s) n" and "n \<ge> 4"
    and "flash st = m"
  defines "st' \<equiv> (if blank_check m (sec_address s) n then st else snd (erase_sector E s (sec_address s) st))"
  shows "blank_tail (flash st') (sec_address s) (sec_end s)"
    and "\<forall>x. x < sec_address s \<or> sec_end s \<le> x \<longrightarrow> flash st' x = m x"
    and "working_buffer st' = working_buffer st \<and> sector_map st' = sector_map st"
proof -
  have erased: "erase_sector E s (sec_address s) st = (0, st\<lparr>last_erased := sec_page s,
      flash := (\<lambda>x. if sec_address s \<le> x \<and> x < sec_end s then 0xff else flash st x)\<rparr>)"
    using assms(1) by (simp add: erase_sector_def nor_erase_def)
  have "blank_tail m (sec_address s) (sec_end s)" if blank: "blank_check m (sec_address s) n"
  proof -
    obtain as b where l: "entry_log E m (sec_address s) as b" "blank_tail m b (sec_end s)"
      using assms(2) blank by (auto simp: quiet_def)
    from l(1) show ?thesis
    proof cases
      case log_nil
      with l(2) show ?thesis by simp
    next
      case log_cons
      with blank rd32_magic_not_blank assms(3) show ?thesis by blast
    qed
  qed
  with assms(4) show "blank_tail (flash st') (sec_address s) (sec_end s)"
    by (auto simp: st'_def erased blank_tail_def)
  show "\<forall>x. x < sec_address s \<or> sec_end s \<le> x \<longrightarrow> flash st' x = m x"
      "working_buffer st' = working_buffer st \<and> sector_map st' = sector_map st"
    using assms(4) by (auto simp: st'_def erased)
qed

lemma others_quiet:
  assumes "map_ok E ss" and "k < length ss" and "\<forall>j<length ss. j \<noteq> k \<longrightarrow> quiet E m token (ss ! j)"
    and "\<forall>x. x < sec_address (ss ! k) \<or> sec_end (ss ! k) \<le> x \<longrightarrow> m' x = m x"
  shows "\<forall>j<length ss. j \<noteq> k \<longrightarrow> quiet E m' token (ss ! j)"
proof (intro allI impI)
  fix j
  assume j: "j < length ss" "j \<noteq> k"
  have "sec_end (ss ! j) \<le> sec_address (ss ! k) \<or> sec_end (ss ! k) \<le> sec_address (ss ! j)"
    using assms(1,2) j unfolding map_ok_def by blast
  with assms(4) have "agree (sec_address (ss ! j)) (sec_end (ss ! j)) m m'"
    by (auto simp: agree_def)
  with assms(3) j show "quiet E m' token (ss ! j)"
    by (blast intro: quiet_agree)
qed

definition ready :: "flash_env \<Rightarrow> mem \<Rightarrow> sector_descriptor_t list \<Rightarrow> u32 \<Rightarrow> nat \<Rightarrow> nat \<Rightarrow> bool" where
  "ready E m ss token n b \<longleftrightarrow> (\<exists>k as. k < length ss \<and> (\<forall>j<length ss. j \<noteq> k \<longrightarrow> quiet E m token (ss ! j)) \<and>
     entry_log E m (sec_address (ss ! k)) as b \<and> (\<forall>x \<in> set as. \<not> matching m token x) \<and>
     blank_tail m b (sec_end (ss ! k)) \<and> b + n + 4 \<le> sec_end (ss ! k))"

lemma choose_same_sector:
  assumes "map_ok E ss" "k < length ss" "active E (flash st) token old pf (ss ! k)"
    and "\<forall>j<length ss. j \<noteq> k \<longrightarrow> quiet E (flash st) token (ss ! j)"
    and "pf + padded (length old) + padded n + 4 \<le> sec_end (ss ! k)"
  defines "m \<equiv> wr_bytes (pf + 4) (le_bytes 0) (flash st)"
  shows "ready E m ss token (padded n) (pf + padded (length old))"
proof -
  note i = active_info [OF assms(1-3)]
  have 16: "16 \<le> padded (length old)"
    using padded_dvd(2) [of "length old"] by simp
  have "\<forall>x. x < sec_address (ss ! k) \<or> sec_end (ss ! k) \<le> x \<longrightarrow> m x = flash st x"
    using i(4,5) 16 by (auto simp: m_def wr_bytes_def)
  then have "\<forall>j<length ss. j \<noteq> k \<longrightarrow> quiet E m token (ss ! j)"
    by (rule others_quiet [OF assms(1,2,4)])
  with assms(2,5) active_erased(1,2) [OF assms(3), folded m_def] show ?thesis
    unfolding ready_def by blast
qed

lemma choose_next_sector:
  assumes "map_ok E ss" "k < length ss" "active E (flash st) token old pf (ss ! k)"
    and "\<forall>j<length ss. j \<noteq> k \<longrightarrow> quiet E (flash st) token (ss ! j)"
    and "k' < length ss" "padded n + 4 \<le> sec_size (ss ! k')"
  defines "st1 \<equiv> st\<lparr>flash := wr_bytes (pf + 4) (le_bytes 0) (flash st)\<rparr>"
  defines "st2 \<equiv> (if blank_check (flash st1) (sec_address (ss ! k')) (padded n) then st1
                   else snd (erase_sector E (ss ! k') (sec_address (ss ! k')) st1))"
  shows "ready E (flash st2) ss token (padded n) (sec_address (ss ! k'))"
    and "working_buffer st2 = working_buffer st \<and> sector_map st2 = sector_map st"
proof -
  note i = active_info [OF assms(1-3)]
  have 16: "16 \<le> padded (length old)" "4 \<le> padded n"
    using padded_dvd(2) [of "length old"] padded_dvd(2) [of n] by simp_all
  have "\<forall>x. x < sec_address (ss ! k) \<or> sec_end (ss ! k) \<le> x \<longrightarrow> flash st1 x = flash st x"
    using i(4,5) 16 by (auto simp: st1_def wr_bytes_def)
  then have "\<forall>j<length ss. j \<noteq> k \<longrightarrow> quiet E (flash st1) token (ss ! j)"
    by (rule others_quiet [OF assms(1,2,4)])
  moreover have "quiet E (flash st1) token (ss ! k)"
    using active_erased(3) [OF assms(3)] by (simp add: st1_def)
  ultimately have all: "\<forall>j<length ss. quiet E (flash st1) token (ss ! j)"
    by blast
  have er: "nor_erase E (ss ! k')"
    using assms(1,5) by (simp add: map_ok_def)
  have q: "quiet E (flash st1) token (ss ! k')"
    using all assms(5) by blast
  note p = prepared_sector [OF er disjI1 [OF q] 16(2) refl, folded st2_def]
  have "\<forall>j<length ss. j \<noteq> k' \<longrightarrow> quiet E (flash st1) token (ss ! j)"
    using all by blast
  from others_quiet [OF assms(1,5) this p(2)]
  have "\<forall>j<length ss. j \<noteq> k' \<longrightarrow> quiet E (flash st2) token (ss ! j)" .
  moreover note p(1)
  ultimately show "ready E (flash st2) ss token (padded n) (sec_address (ss ! k'))"
    using assms(5,6) unfolding ready_def
    by (intro exI [of _ k'] exI [of _ "[]"]) (auto simp: sec_end_def intro: entry_log.log_nil)
  show "working_buffer st2 = working_buffer st \<and> sector_map st2 = sector_map st"
    using p(3) by (simp add: st1_def)
qed

lemma choose_place_stored:
  assumes "map_ok E ss" and "stored E (flash st) ss token old" and "\<forall>s \<in> set ss. padded n + 4 \<le> sec_size s"
  shows "\<exists>b st1. choose_place E ss token (padded n) st = Some (Inr b, st1) \<and>
     ready E (flash st1) ss token (padded n) b \<and>
     working_buffer st1 = working_buffer st \<and> sector_map st1 = sector_map st"
proof -
  obtain k pf where k: "k < length ss" "active E (flash st) token old pf (ss ! k)"
    "\<forall>j<length ss. j \<noteq> k \<longrightarrow> quiet E (flash st) token (ss ! j)"
    using assms(2) by (auto simp: stored_def)
  have ok: "\<forall>s \<in> set ss. sec_ok s" "nor_write E"
    using assms(1) by (simp_all add: map_ok_def)
  note i = active_info [OF assms(1) k(1,2)]
  have found: "find_entry E (flash st) ss token = Some (Some pf)"
    using k by (intro find_entry_active [OF ok(1), of k]) auto
  let ?fin = "pf + padded (length old) + padded n"
  let ?m = "wr_bytes (pf + 4) (le_bytes 0) (flash st)"
  have good: "good_entry E (flash st) pf"
    using k(2) by (auto simp: active_def holds_def)
  have chk: "check_free_space_in_sector (flash st) ss pf (padded n) =
      Some (if ?fin < sec_end (ss ! k) then None else Some k)"
    using i ok(1) k(1) by (auto simp: check_free_space_in_sector_def Let_def sec_end_def sec_ok_def)
  show ?thesis
  proof (cases "?fin < sec_end (ss ! k)")
    case True
    have "4 dvd sec_end (ss ! k)" "4 dvd ?fin"
      using ok(1) k(1) i(6) padded_dvd(1) by (auto simp: sec_ok_def sec_end_def)
    with True have "?fin + 4 \<le> sec_end (ss ! k)"
      by (auto elim!: dvdE)
    then have "ready E ?m ss token (padded n) (pf + padded (length old))"
      by (intro choose_same_sector [OF assms(1) k]) simp
    with True found chk show ?thesis
      using erased_in_place(2) [OF good] i(3) by (simp add: choose_place_def erase_entry_nor [OF ok(2)])
  next
    case False
    let ?k = "get_next_sector ss k"
    have k': "?k < length ss"
      using k(1) by auto
    then have fit: "padded n + 4 \<le> sec_size (ss ! ?k)"
      using assms(3) by simp
    note n = choose_next_sector [OF assms(1) k k' fit]
    from False found chk fit n show ?thesis
      by (simp add: choose_place_def erase_entry_nor [OF ok(2)] Let_def del: get_next_sector.simps)
  qed
qed

section \<open>Blank flash\<close>

definition blank_map :: "mem \<Rightarrow> sector_descriptor_t list \<Rightarrow> bool" where
  "blank_map m ss \<longleftrightarrow> (\<forall>s \<in> set ss. blank_tail m (sec_address s) (sec_end s))"

lemma blank_quiet: "sec_ok s \<Longrightarrow> blank_tail m (sec_address s) (sec_end s) \<Longrightarrow> quiet E m token s"
  by (rule quietI [OF entry_log.log_nil]) (auto simp: sec_ok_def sec_end_def)

lemma find_entry_blank:
  "\<forall>s \<in> set ss. sec_ok s \<Longrightarrow> blank_map m ss \<Longrightarrow> find_entry E m ss token = Some None"
  by (induction ss) (auto simp: blank_map_def scan_quiet blank_quiet)

lemma find_free_blank:
  assumes "sec_ok s" "blank_tail m (sec_address s) (sec_end s)" "n + 4 \<le> sec_size s" "4 \<le> n"
  shows "find_free E m (s # ss) n = Some (Some (sec_address s))"
proof -
  let ?a = "sec_address s"
  have word: "rd32 m (?a + 4 * i) = BlankSig" if "4 * i + 4 \<le> n" for i
    using that assms(3) by (intro rd32_blank [OF assms(2)]) (auto simp: sec_end_def)
  have magic: "rd32 m ?a = BlankSig"
    using word [of 0] assms(4) by simp
  have flag: "rd16 m (?a + 4) = 0xffff"
    using assms(2-4) by (simp add: rd16_def blank_tail_def sec_end_def)
  have "blank_check m ?a n"
    using word by (auto simp: blank_check_def list_all_iff blank_flash_def)
  with magic flag show ?thesis
    by (simp add: scan_free.simps free_step_def valid_magic_def blank_magic_def blank_entry_def
        h_magic_def h_flag_def)
qed

definition formatted :: "flash_env \<Rightarrow> mem \<Rightarrow> sector_descriptor_t list \<Rightarrow> u32 \<Rightarrow> bool" where
  "formatted E m ss token \<longleftrightarrow> (\<exists>old. stored E m ss token old) \<or> ss \<noteq> [] \<and> blank_map m ss"

lemma choose_place_ready:
  assumes "map_ok E ss" "formatted E (flash st) ss token" "\<forall>s \<in> set ss. padded n + 4 \<le> sec_size s"
    and "padded n < 65536"
  shows "\<exists>b st1. choose_place E ss token (padded n) st = Some (Inr b, st1) \<and>
     ready E (flash st1) ss token (padded n) b \<and>
     working_buffer st1 = working_buffer st \<and> sector_map st1 = sector_map st"
proof (cases "\<exists>old. stored E (flash st) ss token old")
  case True
  with choose_place_stored [OF assms(1) _ assms(3)] show ?thesis
    by blast
next
  case False
  then obtain s rest where ss: "ss = s # rest" and blank: "blank_map (flash st) ss"
    using assms(2) by (cases ss) (auto simp: formatted_def)
  have ok: "\<forall>s \<in> set ss. sec_ok s"
    using assms(1) by (simp add: map_ok_def)
  have n: "padded n mod 65536 = padded n" "4 \<le> padded n"
    using assms(4) padded_dvd(2) [of n] by simp_all
  have "find_free E (flash st) ss (padded n) = Some (Some (sec_address s))"
    using ok blank assms(3) n by (simp add: ss blank_map_def find_free_blank del: find_free.simps)
  then have "choose_place E ss token (padded n) st = Some (Inr (sec_address s), st)"
    using find_entry_blank [OF ok blank] n by (simp add: choose_place_def)
  moreover have "\<forall>j<length ss. quiet E (flash st) token (ss ! j)"
    using ok blank by (auto simp: blank_map_def intro!: blank_quiet)
  then have "ready E (flash st) ss token (padded n) (sec_address s)"
    using blank assms(3) unfolding ready_def blank_map_def
    by (intro exI [of _ 0] exI [of _ "[]"]) (auto simp: ss sec_end_def intro: entry_log.log_nil)
  ultimately show ?thesis
    by blast
qed

lemma read_stored:
  assumes "map_ok E ss" "stored E (flash st) ss token data" "sector_map st = Some ss"
  shows "\<exists>a. parameter_flashfs_read E token st = Some (int (length data), Some a) \<and>
     rd_bytes (flash st) a (length data) = data"
proof -
  obtain k pf where k: "k < length ss" "active E (flash st) token data pf (ss ! k)"
    "\<forall>j<length ss. j \<noteq> k \<longrightarrow> quiet E (flash st) token (ss ! j)"
    using assms(2) by (auto simp: stored_def)
  then have "find_entry E (flash st) ss token = Some (Some pf)"
    using assms(1) by (intro find_entry_active [of ss k]) (auto simp: map_ok_def)
  moreover have "holds E (flash st) token pf data"
    using k(2) by (auto simp: active_def)
  ultimately show ?thesis
    using assms(3) by (auto simp: parameter_flashfs_read_def holds_def uint_nat)
qed

lemma erase_sectors_blank:
  assumes "\<forall>s \<in> set ss. nor_erase E s"
  shows "fst (erase_sectors E ss rv st) = rv + int (sum_list (map sec_size ss)) \<and>
     sector_map (snd (erase_sectors E ss rv st)) = sector_map st \<and>
     (\<forall>x. flash (snd (erase_sectors E ss rv st)) x =
        (if \<exists>s \<in> set ss. sec_address s \<le> x \<and> x < sec_end s then 0xff else flash st x))"
  using assms
proof (induction ss arbitrary: rv st)
  case (Cons s ss)
  have er: "erase_sector E s (sec_address s) st = (0, st\<lparr>last_erased := sec_page s,
      flash := (\<lambda>x. if sec_address s \<le> x \<and> x < sec_end s then 0xff else flash st x)\<rparr>)"
    using Cons.prems by (simp add: erase_sector_def nor_erase_def)
  with Cons show ?case
    by auto
qed simp

section \<open>A small flash\<close>

definition demo_sectors :: "sector_descriptor_t list" where
  "demo_sectors = [\<lparr>sec_page = 1, sec_size = 64, sec_address = 64\<rparr>, \<lparr>sec_page = 2, sec_size = 64, sec_address = 128\<rparr>]"

definition demo_flash :: flash_env where
  "demo_flash = \<lparr>crc32 = (\<lambda>bs. 0), getpage = (\<lambda>a. int (a div 64)),
     eraseblock = (\<lambda>p m. (64, \<lambda>x. if 64 * nat p \<le> x \<and> x < 64 * nat p + 64 then 0xff else m x)),
     progmem_write = (\<lambda>a bs m. (int (length bs), wr_bytes a bs m))\<rparr>"

definition demo_fs :: flashfs where
  "demo_fs = \<lparr>flash = (\<lambda>x. 0xff), sector_map = Some demo_sectors,
     working_buffer = Some (replicate 16 0 @ [1, 2, 3] @ replicate 21 0), working_buffer_static = True,
     last_erased = - 1\<rparr>"

lemma demo_map_ok: "map_ok demo_flash demo_sectors"
  by (auto simp: map_ok_def nor_write_def nor_erase_def sec_ok_def sec_end_def demo_flash_def demo_sectors_def
      less_Suc_eq fun_eq_iff)

section \<open>Results\<close>

text \<open>
  C12. A write is read back, for ever: on flash that is blank or already stores the file, a write whose
  padded entry fits a sector with a word to spare succeeds, returns the number of bytes, and the next
  read returns exactly the bytes written; the flash again stores the file, so the same holds for
  the next write. This covers the first write, an update behind the old entry, and the move to
  another sector, erased if need be.
\<close>

theorem flashfs_write_read:
  assumes "map_ok E ss" and "sector_map st = Some ss" and "formatted E (flash st) ss token"
    and "working_buffer st = Some wb" and "padded n \<le> length wb" and "padded n < 65536"
    and "\<forall>s \<in> set ss. padded n + 4 \<le> sec_size s"
  shows "\<exists>st' a. parameter_flashfs_write E token n st = Some (int n, st') \<and>
     formatted E (flash st') ss token \<and> sector_map st' = Some ss \<and>
     parameter_flashfs_read E token st' = Some (int n, Some a) \<and>
     rd_bytes (flash st') a n = take n (drop sizeof_header wb)"
proof -
  obtain b st1 where c: "choose_place E ss token (padded n) st = Some (Inr b, st1)"
    "ready E (flash st1) ss token (padded n) b" "working_buffer st1 = Some wb" "sector_map st1 = Some ss"
    using choose_place_ready [OF assms(1,3,7,6)] assms(2,4) by auto
  define data where "data = take n (drop 16 wb)"
  let ?new = "entry_bytes E token data"
  have n16: "n + 16 \<le> padded n"
    by (rule padded_dvd)
  then have len: "length data = n"
    using assms(5) by (simp add: data_def)
  obtain k as where r: "k < length ss" "\<forall>j<length ss. j \<noteq> k \<longrightarrow> quiet E (flash st1) token (ss ! j)"
    "entry_log E (flash st1) (sec_address (ss ! k)) as b" "\<forall>x \<in> set as. \<not> matching (flash st1) token x"
    "blank_tail (flash st1) b (sec_end (ss ! k))" "b + padded n + 4 \<le> sec_end (ss ! k)"
    using c(2) unfolding ready_def by blast
  let ?st = "st1\<lparr>flash := wr_bytes b ?new (flash st1), working_buffer := Some (?new @ drop (padded n) wb)\<rparr>"
  have stored: "stored E (flash ?st) ss token data"
    using stored_append [OF assms(1) r(1-5), of data] r(6) assms(6) by (simp add: len)
  have "blank_tail (flash st1) b (b + length ?new)"
    using r(5,6) len by (auto intro: blank_tail_mono)
  then have wr: "progmem_write E b ?new (flash st1) = (int (padded n), wr_bytes b ?new (flash st1))"
    using nor_write_blank [of E "flash st1" b ?new] assms(1) len by (simp add: map_ok_def)
  have "unat (of_nat (padded n) :: u16) = padded n"
    using assms(6) by (simp add: unsigned_of_nat take_bit_nat_eq_self)
  then have "take (unat (of_nat (padded n) :: u16)) ?new = ?new"
    using len by simp
  moreover have "16 + size_adjust (n + 16) = padded n - n" "padded n = n + 16 + size_adjust (n + 16)"
    by (simp_all add: padded_def)
  ultimately have "parameter_flashfs_write E token n st = Some (int n, ?st)"
    using c assms(2,5) wr by (simp add: parameter_flashfs_write_def Let_def flip: data_def)
  moreover obtain a where "parameter_flashfs_read E token ?st = Some (int n, Some a)"
      "rd_bytes (flash ?st) a n = data"
    using read_stored [OF assms(1) stored] c(4) len by auto
  ultimately show ?thesis
    using stored c(4) by (intro exI [of _ ?st] exI [of _ a]) (auto simp: formatted_def data_def)
qed

theorem flashfs_write_read_witness:
  "\<exists>st' a. parameter_flashfs_write demo_flash parameters_token 3 demo_fs = Some (3, st') \<and>
     parameter_flashfs_read demo_flash parameters_token st' = Some (3, Some a) \<and>
     rd_bytes (flash st') a 3 = [1, 2, 3]"
proof -
  have blank: "formatted demo_flash (flash demo_fs) demo_sectors parameters_token"
    by (auto simp: formatted_def demo_fs_def demo_sectors_def blank_map_def blank_tail_def)
  have "padded 3 = 20"
    by (simp add: padded_def size_adjust_def)
  then show ?thesis
    using flashfs_write_read [OF demo_map_ok _ blank, of "replicate 16 0 @ [1, 2, 3] @ replicate 21 0" 3]
    by (auto simp: demo_fs_def demo_sectors_def)
qed

text \<open>
  Erasing the store: every sector of the map is erased, the result is the number of bytes erased, and a
  read of any file afterwards reports ENOENT.
\<close>

lemma flashfs_erase_read:
  assumes "map_ok E ss" and "sector_map st = Some ss"
  shows "case parameter_flashfs_erase E st of (rv, st') \<Rightarrow>
     rv = int (sum_list (map sec_size ss)) \<and> blank_map (flash st') ss \<and>
     parameter_flashfs_read E token st' = Some (- ENOENT, None)"
proof -
  let ?r = "erase_sectors E ss 0 st"
  have ok: "\<forall>s \<in> set ss. nor_erase E s" "\<forall>s \<in> set ss. sec_ok s"
    using assms(1) by (simp_all add: map_ok_def)
  note e = erase_sectors_blank [OF ok(1), of 0 st]
  have "blank_map (flash (snd ?r)) ss"
    using e by (auto simp: blank_map_def blank_tail_def)
  with e assms(2) find_entry_blank [OF ok(2), of "flash (snd ?r)" E token] show ?thesis
    by (cases ?r) (simp add: parameter_flashfs_erase_def parameter_flashfs_read_def)
qed



end
