(* ===== verification/Queues.thy ===== *)
theory Queues
  imports Prelude
begin

text \<open>
  The singly and doubly linked queues of \<^verbatim>\<open>src/platforms/common/work_queue\<close> (\<^verbatim>\<open>queue.c\<close>, \<^verbatim>\<open>sq_addafter.c\<close>,
  \<^verbatim>\<open>sq_addlast.c\<close>, \<^verbatim>\<open>sq_remfirst.c\<close>, \<^verbatim>\<open>dq_addlast.c\<close>, \<^verbatim>\<open>dq_rem.c\<close>, \<^verbatim>\<open>dq_remfirst.c\<close>) and the macros of
  \<^verbatim>\<open>src/platforms/posix/include/queue.h\<close>. Nodes are addresses, the links are a store from addresses to
  addresses, and the null pointer is \<open>None\<close>. An operation that would follow a null pointer, and a
  search that does not end, give \<open>None\<close>.

  The locale \<open>sq_queue\<close> is what a client of the singly linked queue relies on. It is interpreted on
  the functions of this theory.
\<close>

section \<open>Singly linked queues\<close>

record sq_store =
  sq_head :: "nat option"
  sq_tail :: "nat option"
  sq_flink :: "nat \<Rightarrow> nat option"

definition sq_init :: "sq_store \<Rightarrow> sq_store" where
  "sq_init q = q\<lparr>sq_head := None, sq_tail := None\<rparr>"

definition sq_next :: "sq_store \<Rightarrow> nat \<Rightarrow> nat option" where
  "sq_next q p = sq_flink q p"

definition sq_empty :: "sq_store \<Rightarrow> bool" where
  "sq_empty q \<longleftrightarrow> sq_head q = None"

definition sq_peek :: "sq_store \<Rightarrow> nat option" where
  "sq_peek q = sq_head q"

definition sq_addfirst :: "nat \<Rightarrow> sq_store \<Rightarrow> sq_store" where
  "sq_addfirst node q =
     q\<lparr>sq_flink := (sq_flink q)(node := sq_head q),
       sq_tail := (if sq_head q = None then Some node else sq_tail q),
       sq_head := Some node\<rparr>"

definition sq_addlast :: "nat \<Rightarrow> sq_store \<Rightarrow> sq_store option" where
  "sq_addlast node q =
     (let fl = (sq_flink q)(node := None) in
      if sq_head q = None
      then Some (q\<lparr>sq_flink := fl, sq_head := Some node, sq_tail := Some node\<rparr>)
      else case sq_tail q of
             None \<Rightarrow> None
           | Some t \<Rightarrow> Some (q\<lparr>sq_flink := fl(t := Some node), sq_tail := Some node\<rparr>))"

definition sq_addafter :: "nat \<Rightarrow> nat \<Rightarrow> sq_store \<Rightarrow> sq_store option" where
  "sq_addafter prev node q =
     (if sq_head q = None \<or> sq_tail q = Some prev then sq_addlast node q
      else Some (q\<lparr>sq_flink := (sq_flink q)(node := sq_flink q prev, prev := Some node)\<rparr>))"

definition sq_remafter :: "nat \<Rightarrow> sq_store \<Rightarrow> nat option \<times> sq_store" where
  "sq_remafter node q =
     (case sq_flink q node of
        None \<Rightarrow> (None, q)
      | Some ret \<Rightarrow>
          (Some ret,
           if sq_head q = None then q
           else if sq_tail q = Some ret
           then q\<lparr>sq_tail := Some node, sq_flink := (sq_flink q)(node := None, ret := None)\<rparr>
           else q\<lparr>sq_flink := (sq_flink q)(node := sq_flink q ret, ret := None)\<rparr>))"

partial_function (option) sq_find_prev :: "sq_store \<Rightarrow> nat \<Rightarrow> nat option \<Rightarrow> nat option option" where
  "sq_find_prev q node prev =
     (case prev of
        None \<Rightarrow> Some None
      | Some p \<Rightarrow> if sq_flink q p = Some node then Some (Some p) else sq_find_prev q node (sq_flink q p))"

definition sq_rem :: "nat \<Rightarrow> sq_store \<Rightarrow> sq_store option" where
  "sq_rem node q =
     (case sq_head q of
        None \<Rightarrow> Some q
      | Some h \<Rightarrow>
          if node = h
          then Some (q\<lparr>sq_head := sq_flink q node,
                       sq_tail := (if sq_tail q = Some node then None else sq_tail q)\<rparr>)
          else (case sq_find_prev q node (Some h) of
                  None \<Rightarrow> None
                | Some None \<Rightarrow> Some q
                | Some (Some p) \<Rightarrow> Some (snd (sq_remafter p q))))"

definition sq_remfirst :: "sq_store \<Rightarrow> nat option \<times> sq_store" where
  "sq_remfirst q =
     (case sq_head q of
        None \<Rightarrow> (None, q)
      | Some ret \<Rightarrow>
          (Some ret,
           q\<lparr>sq_head := sq_flink q ret,
             sq_tail := (if sq_flink q ret = None then None else sq_tail q),
             sq_flink := (sq_flink q)(ret := None)\<rparr>))"

section \<open>Doubly linked queues\<close>

record dq_store =
  dq_head :: "nat option"
  dq_tail :: "nat option"
  dq_flink :: "nat \<Rightarrow> nat option"
  dq_blink :: "nat \<Rightarrow> nat option"

definition dq_addlast :: "nat \<Rightarrow> dq_store \<Rightarrow> dq_store option" where
  "dq_addlast node q =
     (let q1 = q\<lparr>dq_flink := (dq_flink q)(node := None), dq_blink := (dq_blink q)(node := dq_tail q)\<rparr> in
      if dq_head q = None then Some (q1\<lparr>dq_head := Some node, dq_tail := Some node\<rparr>)
      else case dq_tail q of
             None \<Rightarrow> None
           | Some t \<Rightarrow> Some (q1\<lparr>dq_flink := (dq_flink q1)(t := Some node), dq_tail := Some node\<rparr>))"

definition dq_rem :: "nat \<Rightarrow> dq_store \<Rightarrow> dq_store" where
  "dq_rem node q =
     (let prev = dq_blink q node; nxt = dq_flink q node;
          q1 = (case prev of
                  None \<Rightarrow> q\<lparr>dq_head := nxt\<rparr>
                | Some p \<Rightarrow> q\<lparr>dq_flink := (dq_flink q)(p := nxt)\<rparr>);
          q2 = (case nxt of
                  None \<Rightarrow> q1\<lparr>dq_tail := prev\<rparr>
                | Some n \<Rightarrow> q1\<lparr>dq_blink := (dq_blink q1)(n := prev)\<rparr>)
      in q2\<lparr>dq_flink := (dq_flink q2)(node := None), dq_blink := (dq_blink q2)(node := None)\<rparr>)"

definition dq_remfirst :: "dq_store \<Rightarrow> nat option \<times> dq_store" where
  "dq_remfirst q =
     (case dq_head q of
        None \<Rightarrow> (None, q)
      | Some ret \<Rightarrow>
          let q1 = (case dq_flink q ret of
                      None \<Rightarrow> q\<lparr>dq_head := None, dq_tail := None\<rparr>
                    | Some n \<Rightarrow> q\<lparr>dq_head := Some n, dq_blink := (dq_blink q)(n := None)\<rparr>)
          in (Some ret, q1\<lparr>dq_flink := (dq_flink q1)(ret := None), dq_blink := (dq_blink q1)(ret := None)\<rparr>))"

section \<open>Chains of links\<close>

text \<open>\<open>chain f p xs r\<close>: following the links \<open>f\<close> from \<open>p\<close> passes the nodes \<open>xs\<close> and arrives at \<open>r\<close>.\<close>

fun chain :: "(nat \<Rightarrow> nat option) \<Rightarrow> nat option \<Rightarrow> nat list \<Rightarrow> nat option \<Rightarrow> bool" where
  "chain f p [] r \<longleftrightarrow> p = r"
| "chain f p (x # xs) r \<longleftrightarrow> p = Some x \<and> chain f (f x) xs r"

lemma chain_append [simp]: "chain f p (xs @ ys) r \<longleftrightarrow> (\<exists>m. chain f p xs m \<and> chain f m ys r)"
  by (induction xs arbitrary: p) auto

lemma chain_upd [simp]: "x \<notin> set xs \<Longrightarrow> chain (f(x := y)) p xs r = chain f p xs r"
  by (induction xs arbitrary: p) auto

lemma chain_unique: "chain f p xs None \<Longrightarrow> chain f p ys None \<Longrightarrow> xs = ys"
  by (induction xs arbitrary: p ys; case_tac ys) auto

lemma chain_Nil_iff: "chain f p xs None \<Longrightarrow> p = None \<longleftrightarrow> xs = []"
  by (cases xs) auto

text \<open>The tail pointer of a queue is its last node.\<close>

fun final :: "nat list \<Rightarrow> nat option" where
  "final [] = None"
| "final (x # xs) = (if xs = [] then Some x else final xs)"

lemma final_append [simp]: "final (xs @ ys) = (if ys = [] then final xs else final ys)"
  by (induction xs) auto

lemma final_in: "final xs = Some x \<Longrightarrow> x \<in> set xs"
  by (induction xs) (auto split: if_splits)

lemma final_None [simp]: "final xs = None \<longleftrightarrow> xs = []"
  by (induction xs) auto

lemma final_distinct: "distinct (xs @ p # ys) \<Longrightarrow> final (p # ys) = Some p \<longleftrightarrow> ys = []"
  using final_in [of ys p] by auto

definition sq_holds :: "sq_store \<Rightarrow> nat list \<Rightarrow> bool" where
  "sq_holds q xs \<longleftrightarrow> distinct xs \<and> chain (sq_flink q) (sq_head q) xs None \<and> sq_tail q = final xs"

section \<open>The operations act on lists\<close>

lemma sq_init_holds: "sq_holds (sq_init q) []"
  by (simp add: sq_holds_def sq_init_def)

lemma sq_peek_holds: "sq_holds q xs \<Longrightarrow> sq_peek q = (case xs of [] \<Rightarrow> None | x # _ \<Rightarrow> Some x)"
  by (cases xs) (auto simp: sq_holds_def sq_peek_def)

lemma sq_next_holds: "sq_holds q (xs @ x # ys) \<Longrightarrow> sq_next q x = (case ys of [] \<Rightarrow> None | y # _ \<Rightarrow> Some y)"
  by (cases ys) (auto simp: sq_holds_def sq_next_def)

lemma sq_addfirst_holds: "sq_holds q xs \<Longrightarrow> x \<notin> set xs \<Longrightarrow> sq_holds (sq_addfirst x q) (x # xs)"
  using chain_Nil_iff [of "sq_flink q" "sq_head q" xs] by (auto simp: sq_holds_def sq_addfirst_def)

lemma sq_addlast_holds:
  assumes "sq_holds q xs" and "x \<notin> set xs"
  shows "\<exists>q'. sq_addlast x q = Some q' \<and> sq_holds q' (xs @ [x])"
proof (cases xs rule: rev_cases)
  case Nil
  then show ?thesis using assms by (auto simp: sq_holds_def sq_addlast_def)
next
  case (snoc ys t)
  then show ?thesis using assms chain_Nil_iff [of "sq_flink q" "sq_head q" xs]
    by (auto simp: sq_holds_def sq_addlast_def Let_def)
qed

lemma sq_addafter_holds:
  assumes "sq_holds q (xs @ p # ys)" and "x \<notin> set (xs @ p # ys)"
  shows "\<exists>q'. sq_addafter p x q = Some q' \<and> sq_holds q' (xs @ p # x # ys)"
proof (cases "ys = []")
  case True
  then show ?thesis
    using sq_addlast_holds [OF assms] assms(1) by (auto simp: sq_addafter_def sq_holds_def)
next
  case False
  then have "sq_tail q \<noteq> Some p" "sq_head q \<noteq> None"
    using assms(1) final_distinct [of xs p ys] chain_Nil_iff [of "sq_flink q" "sq_head q" "xs @ p # ys"]
    by (auto simp: sq_holds_def)
  then show ?thesis
    using assms False by (auto simp: sq_addafter_def sq_holds_def)
qed

lemma sq_find_prev_ends:
  assumes "chain (sq_flink q) p xs None" and "distinct xs"
  shows "sq_find_prev q node p = Some (case xs of [] \<Rightarrow> None | x # ys \<Rightarrow>
           if node \<in> set ys then Some (last (x # takeWhile (\<lambda>y. y \<noteq> node) ys)) else None)"
  using assms
proof (induction xs arbitrary: p)
  case Nil
  then show ?case by (subst sq_find_prev.simps) simp
next
  case (Cons x ys)
  show ?case
  proof (cases ys)
    case Nil
    then show ?thesis using Cons(2) by (subst sq_find_prev.simps) (simp add: sq_find_prev.simps [of q node None])
  next
    case (Cons y zs)
    then show ?thesis using Cons.IH [of "Some y"] Cons.prems
      by (subst sq_find_prev.simps) auto
  qed
qed

lemma sq_remafter_holds:
  assumes "sq_holds q (xs @ p # x # ys)"
  shows "fst (sq_remafter p q) = Some x \<and> sq_holds (snd (sq_remafter p q)) (xs @ p # ys)"
  using assms final_distinct [of "xs @ [p]" x ys] chain_Nil_iff [of "sq_flink q" "sq_head q" "xs @ p # x # ys"]
  by (auto simp: sq_holds_def sq_remafter_def)

lemma sq_rem_holds:
  assumes "sq_holds q xs"
  shows "\<exists>q'. sq_rem x q = Some q' \<and> sq_holds q' (remove1 x xs)"
proof (cases xs)
  case Nil
  then show ?thesis using assms by (auto simp: sq_holds_def sq_rem_def)
next
  case (Cons h ys)
  then have h: "sq_head q = Some h" "h \<notin> set ys" "distinct ys"
    using assms by (auto simp: sq_holds_def)
  consider "x = h" | "x \<noteq> h" "x \<notin> set ys" | "x \<noteq> h" "x \<in> set ys" by blast
  then show ?thesis
  proof cases
    case 1
    then show ?thesis using assms Cons h by (auto simp: sq_holds_def sq_rem_def split: if_splits dest: final_in)
  next
    case 2
    then have "sq_find_prev q x (Some h) = Some None"
      using sq_find_prev_ends [of q "Some h" xs x] assms Cons h by (auto simp: sq_holds_def)
    then show ?thesis using 2 assms Cons h by (simp add: sq_rem_def remove1_idem)
  next
    case 3
    then obtain as bs where ys: "ys = as @ x # bs" "x \<notin> set as"
      by (metis split_list_first)
    then have "sq_find_prev q x (Some h) = Some (Some (last (h # as)))"
      using sq_find_prev_ends [of q "Some h" xs x] assms Cons h by (auto simp: sq_holds_def split_at)
    moreover obtain cs where "h # as = cs @ [last (h # as)]"
      by (metis append_butlast_last_id list.distinct(1))
    then have "xs = cs @ last (h # as) # x # bs" "remove1 x xs = cs @ last (h # as) # bs"
      using Cons ys 3 by (metis append.assoc append_Cons append_Nil, metis append.assoc append_Cons append_Nil remove1.simps(2) remove1_append)
    ultimately show ?thesis
      using sq_remafter_holds [of q cs "last (h # as)" x bs] assms h 3 by (auto simp: sq_rem_def)
  qed
qed

lemma sq_remfirst_holds:
  "sq_holds q xs \<Longrightarrow> fst (sq_remfirst q) = (case xs of [] \<Rightarrow> None | x # _ \<Rightarrow> Some x) \<and>
     sq_holds (snd (sq_remfirst q)) (tl xs)"
  using chain_Nil_iff [of "sq_flink q" "sq_flink q (hd xs)" "tl xs"]
  by (cases xs) (auto simp: sq_holds_def sq_remfirst_def)

definition dq_holds :: "dq_store \<Rightarrow> nat list \<Rightarrow> bool" where
  "dq_holds q xs \<longleftrightarrow> distinct xs \<and> chain (dq_flink q) (dq_head q) xs None \<and> chain (dq_blink q) (dq_tail q) (rev xs) None"

lemma dq_head_holds: "dq_holds q xs \<Longrightarrow> dq_head q = (case xs of [] \<Rightarrow> None | x # _ \<Rightarrow> Some x)"
  by (cases xs) (auto simp: dq_holds_def)

lemma dq_flink_holds: "dq_holds q (xs @ x # ys) \<Longrightarrow> dq_flink q x = (case ys of [] \<Rightarrow> None | y # _ \<Rightarrow> Some y)"
  by (cases ys) (auto simp: dq_holds_def)

lemma dq_addlast_holds:
  assumes "dq_holds q xs" and "x \<notin> set xs"
  shows "\<exists>q'. dq_addlast x q = Some q' \<and> dq_holds q' (xs @ [x])"
proof (cases xs rule: rev_cases)
  case Nil
  then show ?thesis using assms by (auto simp: dq_holds_def dq_addlast_def)
next
  case (snoc ys t)
  then show ?thesis using assms dq_head_holds [OF assms(1)]
    by (auto simp: dq_holds_def dq_addlast_def Let_def split: list.splits)
qed

lemma dq_rem_holds:
  assumes "dq_holds q (xs @ x # ys)"
  shows "dq_holds (dq_rem x q) (xs @ ys)"
proof (cases xs rule: rev_cases)
  case Nil
  then show ?thesis using assms by (cases ys) (auto simp: dq_holds_def dq_rem_def Let_def)
next
  case (snoc zs p)
  then show ?thesis using assms by (cases ys) (auto simp: dq_holds_def dq_rem_def Let_def)
qed

lemma dq_remfirst_holds:
  "dq_holds q xs \<Longrightarrow> fst (dq_remfirst q) = (case xs of [] \<Rightarrow> None | x # _ \<Rightarrow> Some x) \<and>
     dq_holds (snd (dq_remfirst q)) (tl xs)"
proof (cases xs)
  case (Cons x ys)
  then show "dq_holds q xs \<Longrightarrow> ?thesis" by (cases ys) (auto simp: dq_holds_def dq_remfirst_def Let_def)
qed (auto simp: dq_holds_def dq_remfirst_def)

section \<open>The interface of the singly linked queue\<close>

text \<open>
  The functions a client calls, and what they do to the list of nodes that the queue holds, as long as
  no node is in the queue twice. Nothing is said of a node that is added a second time.
\<close>

record 'q sq_lib =
  q_init :: 'q
  q_peek :: "'q \<Rightarrow> nat option"
  q_next :: "'q \<Rightarrow> nat \<Rightarrow> nat option"
  q_addfirst :: "nat \<Rightarrow> 'q \<Rightarrow> 'q"
  q_addafter :: "nat \<Rightarrow> nat \<Rightarrow> 'q \<Rightarrow> 'q"
  q_rem :: "nat \<Rightarrow> 'q \<Rightarrow> 'q"

locale sq_queue =
  fixes L :: "'q sq_lib" and els :: "'q \<Rightarrow> nat list"
  assumes init: "els (q_init L) = []"
    and peek: "distinct (els q) \<Longrightarrow> q_peek L q = (case els q of [] \<Rightarrow> None | x # _ \<Rightarrow> Some x)"
    and next_node: "distinct (els q) \<Longrightarrow> els q = xs @ x # ys \<Longrightarrow> q_next L q x = (case ys of [] \<Rightarrow> None | y # _ \<Rightarrow> Some y)"
    and addfirst: "distinct (els q) \<Longrightarrow> z \<notin> set (els q) \<Longrightarrow> els (q_addfirst L z q) = z # els q"
    and addafter: "distinct (els q) \<Longrightarrow> els q = xs @ x # ys \<Longrightarrow> z \<notin> set (els q) \<Longrightarrow>
           els (q_addafter L x z q) = xs @ x # z # ys"
    and rem: "distinct (els q) \<Longrightarrow> els (q_rem L z q) = remove1 z (els q)"
begin

lemma peek_Nil: "els q = [] \<Longrightarrow> q_peek L q = None"
  by (simp add: peek)

lemma peek_Cons: "distinct (els q) \<Longrightarrow> els q = x # xs \<Longrightarrow> q_peek L q = Some x"
  by (simp add: peek)

lemma next_last: "distinct (els q) \<Longrightarrow> els q = xs @ [x] \<Longrightarrow> q_next L q x = None"
  using next_node [of q xs x "[]"] by simp

lemma next_inner: "distinct (els q) \<Longrightarrow> els q = xs @ x # y # ys \<Longrightarrow> q_next L q x = Some y"
  using next_node [of q xs x "y # ys"] by simp

lemma rem_distinct: "distinct (els q) \<Longrightarrow> distinct (els (q_rem L z q)) \<and> z \<notin> set (els (q_rem L z q))"
  by (simp add: rem)

end

text \<open>
  The functions above as such a library. A queue that is damaged holds no list; it is given a list with
  a repetition, for which the interface promises nothing.
\<close>

definition sq_elems :: "sq_store \<Rightarrow> nat list" where
  "sq_elems q = (if \<exists>xs. sq_holds q xs then THE xs. sq_holds q xs else [0, 0])"

definition sq_common :: "sq_store sq_lib" where
  "sq_common =
     \<lparr>q_init = \<lparr>sq_head = None, sq_tail = None, sq_flink = (\<lambda>_. None)\<rparr>,
      q_peek = sq_peek, q_next = sq_next, q_addfirst = sq_addfirst,
      q_addafter = (\<lambda>p x q. case sq_addafter p x q of None \<Rightarrow> q | Some q' \<Rightarrow> q'),
      q_rem = (\<lambda>x q. case sq_rem x q of None \<Rightarrow> q | Some q' \<Rightarrow> q')\<rparr>"

lemma sq_holds_unique: "sq_holds q xs \<Longrightarrow> sq_holds q ys \<Longrightarrow> xs = ys"
  using chain_unique by (auto simp: sq_holds_def)

lemma sq_elems_eq: "sq_holds q xs \<Longrightarrow> sq_elems q = xs"
  unfolding sq_elems_def using sq_holds_unique by (auto intro: the_equality)

lemma sq_elems_holds: "distinct (sq_elems q) \<Longrightarrow> sq_holds q (sq_elems q)"
proof (cases "\<exists>xs. sq_holds q xs")
  case True
  then show ?thesis using sq_elems_eq by auto
next
  case False
  then show "distinct (sq_elems q) \<Longrightarrow> ?thesis" by (simp add: sq_elems_def)
qed

interpretation common: sq_queue sq_common sq_elems
proof
  show "sq_elems (q_init sq_common) = []"
    by (rule sq_elems_eq) (simp add: sq_common_def sq_holds_def)
next
  fix q assume "distinct (sq_elems q)"
  then show "q_peek sq_common q = (case sq_elems q of [] \<Rightarrow> None | x # _ \<Rightarrow> Some x)"
    using sq_peek_holds sq_elems_holds by (simp add: sq_common_def)
next
  fix q xs x ys assume "distinct (sq_elems q)" "sq_elems q = xs @ x # ys"
  then show "q_next sq_common q x = (case ys of [] \<Rightarrow> None | y # _ \<Rightarrow> Some y)"
    using sq_next_holds [of q xs x ys] sq_elems_holds [of q] by (simp add: sq_common_def)
next
  fix q z assume "distinct (sq_elems q)" "z \<notin> set (sq_elems q)"
  then show "sq_elems (q_addfirst sq_common z q) = z # sq_elems q"
    by (intro sq_elems_eq) (simp add: sq_common_def sq_addfirst_holds sq_elems_holds)
next
  fix q xs x ys z assume "distinct (sq_elems q)" "sq_elems q = xs @ x # ys" "z \<notin> set (sq_elems q)"
  then show "sq_elems (q_addafter sq_common x z q) = xs @ x # z # ys"
    using sq_addafter_holds [of q xs x ys z] sq_elems_holds [of q] by (intro sq_elems_eq) (auto simp: sq_common_def)
next
  fix q z assume "distinct (sq_elems q)"
  then show "sq_elems (q_rem sq_common z q) = remove1 z (sq_elems q)"
    using sq_rem_holds [of q "sq_elems q" z] sq_elems_holds [of q] by (intro sq_elems_eq) (auto simp: sq_common_def)
qed

section \<open>Properties\<close>



end
