(* ===== verification/Hrt.thy ===== *)
theory Hrt
  imports Queues "HOL-Library.Monad_Syntax"
begin

text \<open>
  The high-resolution timer, \<^verbatim>\<open>src/platforms/nuttx/src/px4/stm/stm32_common/hrt/hrt.c\<close>: absolute time
  from a 16-bit counter, the queue of callouts ordered by deadline, the timer interrupt that runs the
  callouts whose deadline has passed and programs the next compare value.

  The singly linked queue of the operating system is a parameter, a record of its functions over an
  abstract type of queues; the timer relies on the locale \<open>sq_queue\<close> of theory \<^verbatim>\<open>Queues\<close>, which the queue
  functions of the repository satisfy and which is a hypothesis here. The callouts are a
  parameter too: a function of the whole timer state, since a callout may call the timer. Every read
  of the counter register takes the next value of the input \<open>rCNT\<close>, and \<open>reads\<close> counts them. The
  queue loop and the dispatch loop are option-valued: \<open>None\<close> is a loop that does not end.
\<close>

section \<open>Data\<close>

definition HRT_INTERVAL_MIN :: u64 where [simp]: "HRT_INTERVAL_MIN = 50"
definition HRT_INTERVAL_MAX :: u64 where [simp]: "HRT_INTERVAL_MAX = 50000"
definition HRT_COUNTER_PERIOD :: u64 where [simp]: "HRT_COUNTER_PERIOD = 65536"
definition LATENCY_BUCKET_COUNT :: nat where [simp]: "LATENCY_BUCKET_COUNT = 8"
definition latency_buckets :: "u16 list" where
  "latency_buckets = [1, 2, 5, 10, 20, 50, 100, 1000]"

record hrt_call =
  deadline :: u64
  period :: u64
  callout :: "nat option"
  arg :: nat

text \<open>
  The timer state. Entries are named by their address; \<open>invoked\<close> records what the dispatcher ran:
  the entry, its deadline and the time it was run at.
\<close>

record 'q hrt =
  calls :: "nat \<Rightarrow> hrt_call"
  callout_queue :: 'q
  base_time :: u64
  last_count :: u32
  reads :: nat
  rCCR_HRT :: u16
  latency_baseline :: u16
  latency_actual :: u16
  latency_counters :: "u32 list"
  invoked :: "(nat \<times> u64 \<times> u64) list"

record 'q hrt_env =
  rCNT :: "nat \<Rightarrow> u16"
  sq :: "'q sq_lib"
  run_callout :: "nat \<Rightarrow> nat \<Rightarrow> 'q hrt \<Rightarrow> 'q hrt option"

abbreviation dl :: "'q hrt \<Rightarrow> nat \<Rightarrow> u64" where
  "dl s e \<equiv> deadline (calls s e)"

definition set_call :: "nat \<Rightarrow> (hrt_call \<Rightarrow> hrt_call) \<Rightarrow> 'q hrt \<Rightarrow> 'q hrt" where
  "set_call e f s = s\<lparr>calls := (calls s)(e := f (calls s e))\<rparr>"

section \<open>Absolute time\<close>

definition read_rCNT :: "'q hrt_env \<Rightarrow> 'q hrt \<Rightarrow> u16 \<times> 'q hrt" where
  "read_rCNT E s = (rCNT E (reads s), s\<lparr>reads := reads s + 1\<rparr>)"

definition hrt_absolute_time :: "'q hrt_env \<Rightarrow> 'q hrt \<Rightarrow> u64 \<times> 'q hrt" where
  "hrt_absolute_time E s =
     (let (c, s1) = read_rCNT E s; count = ucast c :: u32;
          base = (if count < last_count s1 then base_time s1 + HRT_COUNTER_PERIOD else base_time s1)
      in (base + ucast count, s1\<lparr>base_time := base, last_count := count\<rparr>))"

definition hrt_elapsed_time_atomic :: "'q hrt_env \<Rightarrow> u64 \<Rightarrow> 'q hrt \<Rightarrow> u64 \<times> 'q hrt" where
  "hrt_elapsed_time_atomic E before s = (let (now, s1) = hrt_absolute_time E s in (now - before, s1))"

definition hrt_store_absolute_time :: "'q hrt_env \<Rightarrow> 'q hrt \<Rightarrow> u64 \<times> 'q hrt" where
  "hrt_store_absolute_time E s = hrt_absolute_time E s"

text \<open>The seconds of a \<^verbatim>\<open>timespec\<close> have the width of the platform's unsigned \<^verbatim>\<open>time_t\<close>.\<close>

record 's timespec =
  tv_sec :: 's
  tv_nsec :: u32

definition ts_to_abstime :: "('s::len word) timespec \<Rightarrow> u64" where
  "ts_to_abstime ts = ucast (tv_sec ts) * 1000000 + ucast (tv_nsec ts div 1000)"

definition abstime_to_ts :: "u64 \<Rightarrow> ('s::len word) timespec" where
  "abstime_to_ts abstime =
     (let sec = ucast (abstime div 1000000)
      in \<lparr>tv_sec = sec, tv_nsec = ucast ((abstime - ucast (sec * 1000000)) * 1000)\<rparr>)"

section \<open>The next compare interrupt\<close>

definition next_deadline :: "u64 \<Rightarrow> u64 option \<Rightarrow> u64" where
  "next_deadline now nxt =
     (case nxt of
        None \<Rightarrow> now + HRT_INTERVAL_MAX
      | Some d \<Rightarrow>
          if d \<le> now + HRT_INTERVAL_MIN then now + HRT_INTERVAL_MIN
          else if d < now + HRT_INTERVAL_MAX then d else now + HRT_INTERVAL_MAX)"

definition hrt_call_reschedule :: "'q hrt_env \<Rightarrow> 'q hrt \<Rightarrow> 'q hrt" where
  "hrt_call_reschedule E s =
     (let (now, s1) = hrt_absolute_time E s;
          d = next_deadline now (map_option (dl s1) (q_peek (sq E) (callout_queue s1)));
          ccr = ucast (d AND 0xffff) :: u16
      in s1\<lparr>latency_baseline := ccr, rCCR_HRT := ccr\<rparr>)"

section \<open>The callout queue\<close>

partial_function (option) enter_after :: "'q hrt_env \<Rightarrow> nat \<Rightarrow> nat \<Rightarrow> 'q hrt \<Rightarrow> 'q hrt option" where
  "enter_after E entry call s =
     (case q_next (sq E) (callout_queue s) call of
        None \<Rightarrow> Some (s\<lparr>callout_queue := q_addafter (sq E) call entry (callout_queue s)\<rparr>)
      | Some nxt \<Rightarrow>
          if dl s entry < dl s nxt
          then Some (s\<lparr>callout_queue := q_addafter (sq E) call entry (callout_queue s)\<rparr>)
          else enter_after E entry nxt s)"

definition enter_first :: "'q hrt_env \<Rightarrow> nat \<Rightarrow> 'q hrt \<Rightarrow> 'q hrt" where
  "enter_first E entry s =
     hrt_call_reschedule E (s\<lparr>callout_queue := q_addfirst (sq E) entry (callout_queue s)\<rparr>)"

definition hrt_call_enter :: "'q hrt_env \<Rightarrow> nat \<Rightarrow> 'q hrt \<Rightarrow> 'q hrt option" where
  "hrt_call_enter E entry s =
     (case q_peek (sq E) (callout_queue s) of
        None \<Rightarrow> Some (enter_first E entry s)
      | Some call \<Rightarrow>
          if dl s entry < dl s call then Some (enter_first E entry s) else enter_after E entry call s)"

definition dequeue :: "'q hrt_env \<Rightarrow> nat \<Rightarrow> 'q hrt \<Rightarrow> 'q hrt" where
  "dequeue E entry s = s\<lparr>callout_queue := q_rem (sq E) entry (callout_queue s)\<rparr>"

definition hrt_call_internal ::
    "'q hrt_env \<Rightarrow> nat \<Rightarrow> u64 \<Rightarrow> u64 \<Rightarrow> nat option \<Rightarrow> nat \<Rightarrow> 'q hrt \<Rightarrow> 'q hrt option" where
  "hrt_call_internal E entry d interval co a s =
     (let s1 = (if dl s entry \<noteq> 0 then dequeue E entry s else s);
          s2 = set_call entry (\<lambda>_. \<lparr>deadline = d, period = interval, callout = co, arg = a\<rparr>) s1
      in hrt_call_enter E entry s2)"

definition hrt_call_after ::
    "'q hrt_env \<Rightarrow> nat \<Rightarrow> u64 \<Rightarrow> nat option \<Rightarrow> nat \<Rightarrow> 'q hrt \<Rightarrow> 'q hrt option" where
  "hrt_call_after E entry delay co a s =
     (let (now, s1) = hrt_absolute_time E s in hrt_call_internal E entry (now + delay) 0 co a s1)"

definition hrt_call_at ::
    "'q hrt_env \<Rightarrow> nat \<Rightarrow> u64 \<Rightarrow> nat option \<Rightarrow> nat \<Rightarrow> 'q hrt \<Rightarrow> 'q hrt option" where
  "hrt_call_at E entry calltime co a s = hrt_call_internal E entry calltime 0 co a s"

definition hrt_call_every ::
    "'q hrt_env \<Rightarrow> nat \<Rightarrow> u64 \<Rightarrow> u64 \<Rightarrow> nat option \<Rightarrow> nat \<Rightarrow> 'q hrt \<Rightarrow> 'q hrt option" where
  "hrt_call_every E entry delay interval co a s =
     (let (now, s1) = hrt_absolute_time E s in hrt_call_internal E entry (now + delay) interval co a s1)"

definition hrt_called :: "nat \<Rightarrow> 'q hrt \<Rightarrow> bool" where
  "hrt_called entry s \<longleftrightarrow> dl s entry = 0"

definition hrt_cancel :: "'q hrt_env \<Rightarrow> nat \<Rightarrow> 'q hrt \<Rightarrow> 'q hrt" where
  "hrt_cancel E entry s = set_call entry (\<lambda>c. c\<lparr>deadline := 0, period := 0\<rparr>) (dequeue E entry s)"

definition hrt_call_init :: "nat \<Rightarrow> 'q hrt \<Rightarrow> 'q hrt" where
  "hrt_call_init entry s =
     set_call entry (\<lambda>_. \<lparr>deadline = 0, period = 0, callout = None, arg = 0\<rparr>) s"

definition hrt_call_delay :: "'q hrt_env \<Rightarrow> nat \<Rightarrow> u64 \<Rightarrow> 'q hrt \<Rightarrow> 'q hrt" where
  "hrt_call_delay E entry delay s =
     (let (now, s1) = hrt_absolute_time E s in set_call entry (\<lambda>c. c\<lparr>deadline := now + delay\<rparr>) s1)"

section \<open>Dispatch\<close>

text \<open>One round of the dispatch loop for the entry at the head, whose deadline has passed.\<close>

definition invoke_head :: "'q hrt_env \<Rightarrow> u64 \<Rightarrow> nat \<Rightarrow> 'q hrt \<Rightarrow> 'q hrt option" where
  "invoke_head E now call s =
     do {
       let d = dl s call;
       let s1 = set_call call (\<lambda>c. c\<lparr>deadline := 0\<rparr>) (dequeue E call s);
       s2 \<leftarrow> (case callout (calls s1 call) of
                None \<Rightarrow> Some s1
              | Some f \<Rightarrow> run_callout E f (arg (calls s1 call)) (s1\<lparr>invoked := invoked s1 @ [(call, d, now)]\<rparr>));
       if period (calls s2 call) \<noteq> 0
       then hrt_call_enter E call
              (if dl s2 call \<le> now
               then set_call call (\<lambda>c. c\<lparr>deadline := d + period c\<rparr>) s2 else s2)
       else Some s2
     }"

partial_function (option) hrt_call_invoke :: "'q hrt_env \<Rightarrow> 'q hrt \<Rightarrow> 'q hrt option" where
  "hrt_call_invoke E s =
     (let (now, s1) = hrt_absolute_time E s
      in case q_peek (sq E) (callout_queue s1) of
           None \<Rightarrow> Some s1
         | Some call \<Rightarrow>
             if dl s1 call > now then Some s1
             else Option.bind (invoke_head E now call s1) (hrt_call_invoke E))"

text \<open>The histogram has one counter per bucket and one for everything longer.\<close>

fun latency_index :: "u16 \<Rightarrow> u16 list \<Rightarrow> nat" where
  "latency_index l [] = 0"
| "latency_index l (b # bs) = (if l \<le> b then 0 else Suc (latency_index l bs))"

definition hrt_latency_update :: "'q hrt \<Rightarrow> 'q hrt" where
  "hrt_latency_update s =
     (let i = latency_index (latency_actual s - latency_baseline s) latency_buckets
      in s\<lparr>latency_counters := (latency_counters s)[i := latency_counters s ! i + 1]\<rparr>)"

text \<open>The compare branch of the interrupt handler.\<close>

definition hrt_tick :: "'q hrt_env \<Rightarrow> 'q hrt \<Rightarrow> 'q hrt option" where
  "hrt_tick E s = map_option (hrt_call_reschedule E) (hrt_call_invoke E (hrt_latency_update s))"

text \<open>
  \<^verbatim>\<open>hrt_init\<close> empties the queue and \<^verbatim>\<open>hrt_tim_init\<close> sets the first compare value; the variables of the
  module are zero before.
\<close>

definition hrt_init :: "'q hrt_env \<Rightarrow> (nat \<Rightarrow> hrt_call) \<Rightarrow> 'q hrt" where
  "hrt_init E entries =
     \<lparr>calls = entries, callout_queue = q_init (sq E), base_time = 0, last_count = 0, reads = 0,
      rCCR_HRT = 1000, latency_baseline = 0, latency_actual = 0,
      latency_counters = replicate (LATENCY_BUCKET_COUNT + 1) 0, invoked = []\<rparr>"

section \<open>The abstract schedule\<close>

text \<open>
  The callout queue stands for a list of entries with their deadlines. Adding puts an entry behind
  every entry that is not later; removing drops it.
\<close>

definition sched :: "('q \<Rightarrow> nat list) \<Rightarrow> 'q hrt \<Rightarrow> (nat \<times> u64) list" where
  "sched els s = map (\<lambda>e. (e, dl s e)) (els (callout_queue s))"

definition schedule_add :: "nat \<Rightarrow> u64 \<Rightarrow> (nat \<times> u64) list \<Rightarrow> (nat \<times> u64) list" where
  "schedule_add e d q = takeWhile (\<lambda>p. snd p \<le> d) q @ (e, d) # dropWhile (\<lambda>p. snd p \<le> d) q"

definition schedule_remove :: "nat \<Rightarrow> (nat \<times> u64) list \<Rightarrow> (nat \<times> u64) list" where
  "schedule_remove e q = filter (\<lambda>p. fst p \<noteq> e) q"

definition schedule_wf :: "(nat \<times> u64) list \<Rightarrow> bool" where
  "schedule_wf q \<longleftrightarrow> distinct (map fst q) \<and> sorted (map snd q) \<and> 0 \<notin> snd ` set q"

lemma sorted_insert_split:
  assumes "sorted (map snd q)"
  shows "sorted (map snd (takeWhile (\<lambda>p. snd p \<le> d) q @ (e, d) # dropWhile (\<lambda>p. snd p \<le> d) q))"
  using assms
proof (induction q)
  case (Cons x q)
  then show ?case by (cases "snd x \<le> d") (auto dest: set_takeWhileD set_dropWhileD)
qed simp

lemma schedule_add_split:
  "\<forall>p\<in>set xs. snd p \<le> d \<Longrightarrow> ys = [] \<or> d < snd (hd ys) \<Longrightarrow> schedule_add e d (xs @ ys) = xs @ (e, d) # ys"
  by (cases ys) (auto simp: schedule_add_def takeWhile_append2 dropWhile_append2)

lemma set_schedule_add [simp]: "set (schedule_add e d q) = insert (e, d) (set q)"
  by (simp add: schedule_add_def)
     (metis Un_insert_right set_append takeWhile_dropWhile_id)

lemma map_fst_add: "map fst (schedule_add e d q) =
    map fst (takeWhile (\<lambda>p. snd p \<le> d) q) @ e # map fst (dropWhile (\<lambda>p. snd p \<le> d) q)"
  by (simp add: schedule_add_def)

lemma distinct_add: "distinct (map fst q) \<Longrightarrow> e \<notin> fst ` set q \<Longrightarrow> distinct (map fst (schedule_add e d q))"
proof -
  let ?a = "map fst (takeWhile (\<lambda>p. snd p \<le> d) q)" and ?b = "map fst (dropWhile (\<lambda>p. snd p \<le> d) q)"
  assume d: "distinct (map fst q)" and e: "e \<notin> fst ` set q"
  have "?a @ ?b = map fst q"
    by (simp flip: map_append)
  then have "distinct (?a @ ?b)" "e \<notin> set (?a @ ?b)"
    using d e by simp_all
  then show ?thesis
    by (simp add: map_fst_add)
qed

lemma schedule_add_wf:
  "schedule_wf q \<Longrightarrow> e \<notin> fst ` set q \<Longrightarrow> d \<noteq> 0 \<Longrightarrow> schedule_wf (schedule_add e d q)"
  using distinct_add [of q e d] sorted_insert_split [of q d e]
  by (auto simp: schedule_wf_def schedule_add_def [symmetric])

lemma schedule_remove_wf: "schedule_wf q \<Longrightarrow> schedule_wf (schedule_remove e q)"
  by (auto simp: schedule_wf_def schedule_remove_def distinct_map_filter sorted_filter)

lemma schedule_remove_notin [simp]: "e \<notin> fst ` set (schedule_remove e q)"
  by (auto simp: schedule_remove_def)

lemma fst_schedule_remove [simp]: "fst ` set (schedule_remove e q) = fst ` set q - {e}"
  by (force simp: schedule_remove_def)

lemma schedule_remove_absent: "e \<notin> fst ` set q \<Longrightarrow> schedule_remove e q = q"
  by (force simp: schedule_remove_def filter_id_conv)

section \<open>The queue operations implement the schedule\<close>

lemma time_frame [simp]:
  "calls (snd (hrt_absolute_time E s)) = calls s"
  "callout_queue (snd (hrt_absolute_time E s)) = callout_queue s"
  "invoked (snd (hrt_absolute_time E s)) = invoked s"
  "latency_counters (snd (hrt_absolute_time E s)) = latency_counters s"
  "reads (snd (hrt_absolute_time E s)) = Suc (reads s)"
  by (simp_all add: hrt_absolute_time_def read_rCNT_def Let_def)

lemma reschedule_frame [simp]:
  "calls (hrt_call_reschedule E s) = calls s"
  "callout_queue (hrt_call_reschedule E s) = callout_queue s"
  "invoked (hrt_call_reschedule E s) = invoked s"
  "latency_counters (hrt_call_reschedule E s) = latency_counters s"
  "reads (hrt_call_reschedule E s) = Suc (reads s)"
  "base_time (hrt_call_reschedule E s) = base_time (snd (hrt_absolute_time E s))"
  "last_count (hrt_call_reschedule E s) = last_count (snd (hrt_absolute_time E s))"
  by (simp_all add: hrt_call_reschedule_def case_prod_beta Let_def)

lemma set_call_frame [simp]:
  "callout_queue (set_call e f s) = callout_queue s"
  "invoked (set_call e f s) = invoked s"
  "latency_counters (set_call e f s) = latency_counters s"
  "reads (set_call e f s) = reads s"
  "base_time (set_call e f s) = base_time s"
  "last_count (set_call e f s) = last_count s"
  "calls (set_call e f s) = (calls s)(e := f (calls s e))"
  by (simp_all add: set_call_def)

lemma dequeue_frame [simp]:
  "calls (dequeue E e s) = calls s"
  "invoked (dequeue E e s) = invoked s"
  "latency_counters (dequeue E e s) = latency_counters s"
  "reads (dequeue E e s) = reads s"
  "base_time (dequeue E e s) = base_time s"
  "last_count (dequeue E e s) = last_count s"
  by (simp_all add: dequeue_def)

lemma sched_cong:
  "callout_queue s' = callout_queue s \<Longrightarrow> (\<And>e. e \<in> set (els (callout_queue s)) \<Longrightarrow> dl s' e = dl s e) \<Longrightarrow>
   sched els s' = sched els s"
  by (simp add: sched_def)

lemma sched_frame [simp]:
  "sched els (snd (hrt_absolute_time E s)) = sched els s"
  "sched els (hrt_call_reschedule E s) = sched els s"
  by (rule sched_cong; simp)+

lemma fst_sched [simp]: "map fst (sched els s) = els (callout_queue s)"
  by (simp add: sched_def comp_def)

lemma fst_set_sched [simp]: "fst ` set (sched els s) = set (els (callout_queue s))"
  by (metis fst_sched set_map)

lemma sched_wf_distinct: "schedule_wf (sched els s) \<Longrightarrow> distinct (els (callout_queue s))"
  by (simp add: schedule_wf_def)

lemma sched_wf_nonzero: "schedule_wf (sched els s) \<Longrightarrow> e \<in> set (els (callout_queue s)) \<Longrightarrow> dl s e \<noteq> 0"
  by (force simp: schedule_wf_def sched_def)

lemma sched_dequeue:
  assumes "sq_queue (sq E) els" and "schedule_wf (sched els s)"
  shows "sched els (dequeue E e s) = schedule_remove e (sched els s)"
  using assms sched_wf_distinct [OF assms(2)]
  by (simp add: sched_def schedule_remove_def dequeue_def sq_queue.rem distinct_remove1_removeAll
        removeAll_filter_not_eq filter_map comp_def eq_commute)

lemma enter_after_sched:
  assumes "sq_queue (sq E) els" and "distinct (els (callout_queue s))"
    and "els (callout_queue s) = xs @ c # ys" and "entry \<notin> set (els (callout_queue s))"
    and "\<forall>x\<in>set (xs @ [c]). dl s x \<le> dl s entry"
  shows "\<exists>q. enter_after E entry c s = Some (s\<lparr>callout_queue := q\<rparr>) \<and>
             sched els (s\<lparr>callout_queue := q\<rparr>) = schedule_add entry (dl s entry) (sched els s)"
  using assms
proof (induction ys arbitrary: xs c)
  case Nil
  have "q_next (sq E) (callout_queue s) c = None"
    using sq_queue.next_node [OF Nil(1,2,3)] by simp
  moreover have "els (q_addafter (sq E) c entry (callout_queue s)) = xs @ [c, entry]"
    using sq_queue.addafter [OF Nil(1,2,3,4)] by simp
  ultimately show ?case
    using Nil(3,5) schedule_add_split [of "map (\<lambda>e. (e, dl s e)) (xs @ [c])" "dl s entry" "[]"]
    by (subst enter_after.simps) (auto simp: sched_def)
next
  case (Cons y ys)
  have nx: "q_next (sq E) (callout_queue s) c = Some y"
    using sq_queue.next_node [OF Cons(2,3,4)] by simp
  show ?case
  proof (cases "dl s entry < dl s y")
    case True
    have "els (q_addafter (sq E) c entry (callout_queue s)) = xs @ c # entry # y # ys"
      using sq_queue.addafter [OF Cons(2,3,4,5)] by simp
    then show ?thesis
      using Cons(4,6) True nx
        schedule_add_split [of "map (\<lambda>e. (e, dl s e)) (xs @ [c])" "dl s entry" "map (\<lambda>e. (e, dl s e)) (y # ys)"]
      by (subst enter_after.simps) (auto simp: sched_def)
  next
    case False
    then show ?thesis
      using Cons(1) [of "xs @ [c]" y] Cons(2-) nx by (subst enter_after.simps) (auto simp: not_less)
  qed
qed

text \<open>
  Entering an entry that is not queued gives the schedule with the entry added, and changes nothing
  else but the time and the compare value.
\<close>

lemma hrt_call_enter_sched:
  assumes "sq_queue (sq E) els" and "distinct (els (callout_queue s))" and "e \<notin> set (els (callout_queue s))"
  shows "\<exists>s'. hrt_call_enter E e s = Some s' \<and> sched els s' = schedule_add e (dl s e) (sched els s) \<and>
           calls s' = calls s \<and> invoked s' = invoked s \<and> latency_counters s' = latency_counters s \<and>
           ((\<exists>q. s' = s\<lparr>callout_queue := q\<rparr>) \<or> (\<exists>q. s' = hrt_call_reschedule E (s\<lparr>callout_queue := q\<rparr>)))"
proof -
  let ?q = "q_addfirst (sq E) e (callout_queue s)"
  have first: "sched els (s\<lparr>callout_queue := ?q\<rparr>) = (e, dl s e) # sched els s"
    using sq_queue.addfirst [OF assms] by (simp add: sched_def)
  show ?thesis
  proof (cases "els (callout_queue s)")
    case Nil
    then show ?thesis
      using first sq_queue.peek_Nil [OF assms(1), of "callout_queue s"]
      by (auto simp: hrt_call_enter_def enter_first_def schedule_add_def sched_def)
  next
    case (Cons c cs)
    then have pk: "q_peek (sq E) (callout_queue s) = Some c"
      using sq_queue.peek_Cons [OF assms(1,2)] by simp
    show ?thesis
    proof (cases "dl s e < dl s c")
      case True
      then show ?thesis
        using first pk Cons by (auto simp: hrt_call_enter_def enter_first_def schedule_add_def sched_def not_le)
    next
      case False
      then show ?thesis
        using enter_after_sched [OF assms(1,2) _ assms(3), of "[]" c cs] Cons pk
        by (auto simp: hrt_call_enter_def not_less)
    qed
  qed
qed

section \<open>True time\<close>

text \<open>
  \<open>T i\<close> is the true time in microseconds, since the counter was started, of the \<open>i\<close>-th call of
  \<^verbatim>\<open>hrt_absolute_time\<close>. The counter shows its low 16 bits. The code relies on being called at least once
  per counter period. The bound is 292000 years.
\<close>

definition clock_env :: "'q hrt_env \<Rightarrow> (nat \<Rightarrow> nat) \<Rightarrow> bool" where
  "clock_env E T \<longleftrightarrow> T 0 < 65536 \<and>
     (\<forall>i. rCNT E i = of_nat (T i) \<and> T i \<le> T (Suc i) \<and> T (Suc i) < T i + 65536 \<and> T i < 2 ^ 63)"

definition time_read :: "(nat \<Rightarrow> nat) \<Rightarrow> nat \<Rightarrow> nat" where
  "time_read T n = (case n of 0 \<Rightarrow> 0 | Suc i \<Rightarrow> T i)"

definition clock_ok :: "(nat \<Rightarrow> nat) \<Rightarrow> 'q hrt \<Rightarrow> bool" where
  "clock_ok T s \<longleftrightarrow> last_count s = of_nat (time_read T (reads s) mod 65536) \<and>
     base_time s = of_nat (65536 * (time_read T (reads s) div 65536))"

lemma ucast_count: "(ucast (of_nat n :: u16) :: u32) = of_nat (n mod 65536)"
  by (rule word_unat_eq_iff [THEN iffD2])
     (simp add: unsigned_ucast_eq unsigned_of_nat take_bit_eq_mod)

lemma ucast_count64: "n < 65536 \<Longrightarrow> (ucast (of_nat n :: u32) :: u64) = of_nat n"
  by (rule word_unat_eq_iff [THEN iffD2])
     (simp add: unsigned_ucast_eq unsigned_of_nat take_bit_eq_mod)

lemma of_nat_less32: "a < 65536 \<Longrightarrow> b < 65536 \<Longrightarrow> (of_nat a :: u32) < of_nat b \<longleftrightarrow> a < b"
  by (simp add: word_less_nat_alt unsigned_of_nat take_bit_eq_mod)

lemma wrap_once:
  fixes t u :: nat
  assumes "t \<le> u" and "u < t + 65536"
  shows "u div 65536 = (if u mod 65536 < t mod 65536 then Suc (t div 65536) else t div 65536)"
proof -
  let ?a = "t div 65536" and ?b = "t mod 65536" and ?c = "u div 65536" and ?d = "u mod 65536"
  have split: "t = 65536 * ?a + ?b" "?b < 65536" "u = 65536 * ?c + ?d" "?d < 65536"
    by simp_all
  have "?d < ?b \<Longrightarrow> ?c = Suc ?a"
    using split assms by linarith
  moreover have "\<not> ?d < ?b \<Longrightarrow> ?c = ?a"
    using split assms by linarith
  ultimately show ?thesis
    by simp
qed

lemma clock_next: "clock_env E T \<Longrightarrow> time_read T n \<le> T n \<and> T n < time_read T n + 65536"
  by (cases n) (simp_all add: clock_env_def time_read_def)

lemma hrt_absolute_time_true:
  assumes "clock_env E T" and "clock_ok T s"
  shows "fst (hrt_absolute_time E s) = of_nat (T (reads s))" and "clock_ok T (snd (hrt_absolute_time E s))"
proof -
  let ?t = "time_read T (reads s)" and ?u = "T (reads s)"
  have cnt: "rCNT E (reads s) = of_nat ?u"
    using assms(1) by (simp add: clock_env_def)
  have base: "(if (of_nat (?u mod 65536) :: u32) < last_count s then base_time s + 65536 else base_time s) =
      of_nat (65536 * (?u div 65536))"
    using wrap_once [of ?t ?u] clock_next [OF assms(1), of "reads s"] assms(2)
    by (auto simp: clock_ok_def of_nat_less32)
  have "(of_nat (65536 * (?u div 65536) + ?u mod 65536) :: u64) = of_nat ?u"
    by (simp only: mult_div_mod_eq)
  then have whole: "65536 * of_nat (?u div 65536) + of_nat (?u mod 65536) = (of_nat ?u :: u64)"
    by (simp only: of_nat_add of_nat_mult of_nat_numeral)
  show "fst (hrt_absolute_time E s) = of_nat ?u"
    using base whole by (simp add: hrt_absolute_time_def read_rCNT_def cnt ucast_count ucast_count64 Let_def split: if_splits)
  show "clock_ok T (snd (hrt_absolute_time E s))"
    using base by (simp add: clock_ok_def hrt_absolute_time_def read_rCNT_def cnt ucast_count time_read_def Let_def split: if_splits)
qed

section \<open>Invariant\<close>

definition hrt_inv :: "'q hrt_env \<Rightarrow> (nat \<Rightarrow> nat) \<Rightarrow> ('q \<Rightarrow> nat list) \<Rightarrow> 'q hrt \<Rightarrow> bool" where
  "hrt_inv E T els s \<longleftrightarrow> sq_queue (sq E) els \<and> clock_env E T \<and> clock_ok T s \<and> schedule_wf (sched els s) \<and>
     (\<forall>e. period (calls s e) < 2 ^ 63) \<and> length (latency_counters s) = LATENCY_BUCKET_COUNT + 1"

lemma clock_ok_cong:
  "reads s' = reads s \<Longrightarrow> last_count s' = last_count s \<Longrightarrow> base_time s' = base_time s \<Longrightarrow> clock_ok T s' = clock_ok T s"
  by (simp add: clock_ok_def)

lemma clock_ok_upd [simp]:
  "clock_ok T (s\<lparr>callout_queue := q\<rparr>) = clock_ok T s"
  "clock_ok T (s\<lparr>invoked := l\<rparr>) = clock_ok T s"
  "clock_ok T (s\<lparr>latency_actual := c\<rparr>) = clock_ok T s"
  "clock_ok T (s\<lparr>latency_counters := cs\<rparr>) = clock_ok T s"
  "clock_ok T (set_call e f s) = clock_ok T s"
  "clock_ok T (dequeue E e s) = clock_ok T s"
  "clock_ok T (hrt_call_reschedule E s) = clock_ok T (snd (hrt_absolute_time E s))"
  by (rule clock_ok_cong; simp)+

lemma sched_upd [simp]:
  "sched els (s\<lparr>invoked := l\<rparr>) = sched els s"
  "sched els (s\<lparr>latency_actual := c\<rparr>) = sched els s"
  "sched els (s\<lparr>latency_counters := cs\<rparr>) = sched els s"
  by (rule sched_cong; simp)+

lemma sched_set_call: "e \<notin> set (els (callout_queue s)) \<Longrightarrow> sched els (set_call e f s) = sched els s"
  by (rule sched_cong) auto

lemma hrt_inv_upd [simp]:
  "hrt_inv E T els (s\<lparr>invoked := l\<rparr>) = hrt_inv E T els s"
  "hrt_inv E T els (s\<lparr>latency_actual := c\<rparr>) = hrt_inv E T els s"
  by (simp_all add: hrt_inv_def)

lemma hrt_inv_time: "hrt_inv E T els s \<Longrightarrow> hrt_inv E T els (snd (hrt_absolute_time E s))"
  by (simp add: hrt_inv_def hrt_absolute_time_true)

lemma hrt_inv_reschedule: "hrt_inv E T els s \<Longrightarrow> hrt_inv E T els (hrt_call_reschedule E s)"
  by (simp add: hrt_inv_def hrt_absolute_time_true)

lemma hrt_inv_now: "hrt_inv E T els s \<Longrightarrow> unat (fst (hrt_absolute_time E s)) = T (reads s) \<and> T (reads s) < 2 ^ 63"
proof -
  assume "hrt_inv E T els s"
  then have "fst (hrt_absolute_time E s) = of_nat (T (reads s))" "T (reads s) < 2 ^ 63"
    by (simp_all add: hrt_inv_def hrt_absolute_time_true clock_env_def)
  then show ?thesis
    by (simp add: unsigned_of_nat take_bit_nat_eq_self)
qed

lemma hrt_inv_latency: "hrt_inv E T els s \<Longrightarrow> hrt_inv E T els (hrt_latency_update s)"
  by (simp add: hrt_inv_def hrt_latency_update_def Let_def)

lemma hrt_inv_set_call:
  "hrt_inv E T els s \<Longrightarrow> e \<notin> set (els (callout_queue s)) \<Longrightarrow> period (f (calls s e)) < 2 ^ 63 \<Longrightarrow>
   hrt_inv E T els (set_call e f s)"
  by (auto simp: hrt_inv_def sched_set_call)

lemma hrt_inv_dequeue:
  "hrt_inv E T els s \<Longrightarrow> hrt_inv E T els (dequeue E e s) \<and>
     sched els (dequeue E e s) = schedule_remove e (sched els s) \<and> e \<notin> set (els (callout_queue (dequeue E e s)))"
  using sched_dequeue [of E els s e] schedule_remove_notin [of e "sched els s"]
  by (simp add: hrt_inv_def schedule_remove_wf flip: fst_set_sched)

lemma hrt_inv_enter:
  assumes "hrt_inv E T els s" and "e \<notin> set (els (callout_queue s))" and "dl s e \<noteq> 0"
  shows "\<exists>s'. hrt_call_enter E e s = Some s' \<and> hrt_inv E T els s' \<and> calls s' = calls s \<and> invoked s' = invoked s \<and>
           sched els s' = schedule_add e (dl s e) (sched els s) \<and> reads s' \<in> {reads s, Suc (reads s)}"
proof -
  have inv: "sq_queue (sq E) els" "clock_env E T" "clock_ok T s" "schedule_wf (sched els s)"
    using assms(1) by (simp_all add: hrt_inv_def)
  obtain s' where s': "hrt_call_enter E e s = Some s'" "sched els s' = schedule_add e (dl s e) (sched els s)"
      "calls s' = calls s" "invoked s' = invoked s" "latency_counters s' = latency_counters s"
      "(\<exists>q. s' = s\<lparr>callout_queue := q\<rparr>) \<or> (\<exists>q. s' = hrt_call_reschedule E (s\<lparr>callout_queue := q\<rparr>))"
    using hrt_call_enter_sched [OF inv(1) sched_wf_distinct [OF inv(4)] assms(2)] by blast
  have "clock_ok T s'" "reads s' \<in> {reads s, Suc (reads s)}"
    using s'(6) inv(2,3) hrt_absolute_time_true(2) [OF inv(2)] by auto
  then show ?thesis
    using assms s' schedule_add_wf [OF inv(4), of e "dl s e"] by (auto simp: hrt_inv_def)
qed

text \<open>Queueing a call: the entry is dropped from the schedule and added with its new deadline.\<close>

lemma hrt_inv_internal:
  assumes "hrt_inv E T els s" and "d \<noteq> 0" and "iv < 2 ^ 63"
  shows "\<exists>s'. hrt_call_internal E e d iv co a s = Some s' \<and> hrt_inv E T els s' \<and>
           sched els s' = schedule_add e d (schedule_remove e (sched els s)) \<and>
           calls s' = (calls s)(e := \<lparr>deadline = d, period = iv, callout = co, arg = a\<rparr>) \<and> invoked s' = invoked s"
proof -
  define s1 where "s1 = (if dl s e \<noteq> 0 then dequeue E e s else s)"
  have "dl s e = 0 \<Longrightarrow> e \<notin> set (els (callout_queue s))"
    using assms(1) sched_wf_nonzero by (auto simp: hrt_inv_def)
  then have s1: "hrt_inv E T els s1" "sched els s1 = schedule_remove e (sched els s)"
      "e \<notin> set (els (callout_queue s1))" "calls s1 = calls s" "invoked s1 = invoked s"
    using hrt_inv_dequeue [OF assms(1), of e] assms(1) by (auto simp: schedule_remove_absent s1_def)
  define f where "f = (\<lambda>_ :: hrt_call. \<lparr>deadline = d, period = iv, callout = co, arg = a\<rparr>)"
  have "hrt_inv E T els (set_call e f s1)" "sched els (set_call e f s1) = sched els s1"
    using hrt_inv_set_call [OF s1(1,3)] sched_set_call [where els = els, OF s1(3)] assms(3) by (simp_all add: f_def)
  then show ?thesis
    using hrt_inv_enter [of E T els "set_call e f s1" e] s1(2-) assms(2)
    by (auto simp: hrt_call_internal_def Let_def f_def simp flip: s1_def)
qed

section \<open>Dispatch keeps the invariant\<close>

text \<open>
  What is asked of callouts: they use the timer through its functions, so they keep its invariant, and
  a callout does not queue its own entry as a periodic call, since the dispatcher enters a periodic
  entry again when its callout returns.
\<close>

definition callouts_ok :: "'q hrt_env \<Rightarrow> (nat \<Rightarrow> nat) \<Rightarrow> ('q \<Rightarrow> nat list) \<Rightarrow> bool" where
  "callouts_ok E T els \<longleftrightarrow>
     (\<forall>f a s s'. hrt_inv E T els s \<and> run_callout E f a s = Some s' \<longrightarrow> hrt_inv E T els s' \<and>
        (\<forall>c. callout (calls s c) = Some f \<and> arg (calls s c) = a \<and> dl s c = 0 \<longrightarrow>
           period (calls s' c) = 0 \<or> c \<notin> set (els (callout_queue s'))))"

lemma deadline_sum:
  fixes d p :: u64
  assumes "unat d < 2 ^ 63" and "p < 2 ^ 63"
  shows "unat (d + p) = unat d + unat p"
proof -
  have "unat p < 2 ^ 63"
    using assms(2) by (simp add: word_less_nat_alt)
  then show ?thesis
    using assms(1) by (simp add: unat_word_ariths(1))
qed

lemma sum_nonzero:
  fixes d p :: u64
  assumes "unat d < 2 ^ 63" and "p < 2 ^ 63" and "p \<noteq> 0"
  shows "d + p \<noteq> 0"
proof -
  have "unat (d + p) \<noteq> 0"
    using deadline_sum [OF assms(1,2)] assms(3) by (simp add: unat_eq_0)
  then show ?thesis
    by (metis unat_0)
qed

lemma popped_inv:
  assumes "hrt_inv E T els s"
  shows "hrt_inv E T els (set_call c (\<lambda>x. x\<lparr>deadline := 0\<rparr>) (dequeue E c s))"
    and "sched els (set_call c (\<lambda>x. x\<lparr>deadline := 0\<rparr>) (dequeue E c s)) = schedule_remove c (sched els s)"
    and "c \<notin> set (els (callout_queue (set_call c (\<lambda>x. x\<lparr>deadline := 0\<rparr>) (dequeue E c s))))"
proof -
  note d = hrt_inv_dequeue [OF assms, of c]
  have "period (calls s c) < 2 ^ 63"
    using assms by (simp add: hrt_inv_def)
  then show "hrt_inv E T els (set_call c (\<lambda>x. x\<lparr>deadline := 0\<rparr>) (dequeue E c s))"
    using d by (intro hrt_inv_set_call) auto
  show "sched els (set_call c (\<lambda>x. x\<lparr>deadline := 0\<rparr>) (dequeue E c s)) = schedule_remove c (sched els s)"
    using d by (simp add: sched_set_call)
  show "c \<notin> set (els (callout_queue (set_call c (\<lambda>x. x\<lparr>deadline := 0\<rparr>) (dequeue E c s))))"
    using d by simp
qed

lemma reenter_inv:
  assumes "hrt_inv E T els s" and "period (calls s c) \<noteq> 0" and "c \<notin> set (els (callout_queue s))"
    and "unat d < 2 ^ 63"
  shows "\<exists>s'. hrt_call_enter E c (if dl s c \<le> now then set_call c (\<lambda>x. x\<lparr>deadline := d + period x\<rparr>) s else s) = Some s' \<and>
           hrt_inv E T els s'"
proof -
  let ?s = "if dl s c \<le> now then set_call c (\<lambda>x. x\<lparr>deadline := d + period x\<rparr>) s else s"
  have p: "period (calls s c) < 2 ^ 63"
    using assms(1) by (simp add: hrt_inv_def)
  have "hrt_inv E T els ?s" "c \<notin> set (els (callout_queue ?s))"
    using assms(1,3) p by (auto intro: hrt_inv_set_call)
  moreover have "dl ?s c \<noteq> 0"
    using sum_nonzero [OF assms(4) p assms(2)] by auto
  ultimately show ?thesis
    using hrt_inv_enter by blast
qed

lemma invoke_head_inv:
  assumes "hrt_inv E T els s" and "callouts_ok E T els" and "unat now < 2 ^ 63" and "dl s c \<le> now"
    and "invoke_head E now c s = Some s'"
  shows "hrt_inv E T els s'"
proof -
  define s1 where "s1 = set_call c (\<lambda>x. x\<lparr>deadline := 0\<rparr>) (dequeue E c s)"
  note s1 = popped_inv [OF assms(1), of c, folded s1_def]
  have c1: "dl s1 c = 0"
    by (simp add: s1_def)
  have d: "unat (dl s c) < 2 ^ 63"
    using assms(3,4) by (simp add: word_le_nat_alt)
  obtain s2 where s2: "(case callout (calls s1 c) of None \<Rightarrow> Some s1 | Some f \<Rightarrow> run_callout E f (arg (calls s1 c))
        (s1\<lparr>invoked := invoked s1 @ [(c, dl s c, now)]\<rparr>)) = Some s2"
      and s': "(if period (calls s2 c) \<noteq> 0
        then hrt_call_enter E c (if dl s2 c \<le> now then set_call c (\<lambda>x. x\<lparr>deadline := dl s c + period x\<rparr>) s2 else s2)
        else Some s2) = Some s'"
    using assms(5) unfolding invoke_head_def Let_def s1_def [symmetric] bind_eq_Some_conv by blast
  have "hrt_inv E T els s2 \<and> (period (calls s2 c) = 0 \<or> c \<notin> set (els (callout_queue s2)))"
  proof (cases "callout (calls s1 c)")
    case None
    then show ?thesis using s2 s1(1,3) by simp
  next
    case (Some f)
    let ?s = "s1\<lparr>invoked := invoked s1 @ [(c, dl s c, now)]\<rparr>"
    have "hrt_inv E T els ?s" "run_callout E f (arg (calls ?s c)) ?s = Some s2" "callout (calls ?s c) = Some f" "dl ?s c = 0"
      using s2 s1(1) c1 Some by simp_all
    then show ?thesis using assms(2) unfolding callouts_ok_def by blast
  qed
  then show ?thesis
    using s' reenter_inv [of E T els s2 c "dl s c" now] d by (auto split: if_splits)
qed

lemma hrt_call_invoke_inv:
  assumes "hrt_call_invoke E s = Some s'" and "callouts_ok E T els" and "hrt_inv E T els s"
  shows "hrt_inv E T els s'"
  using assms(2,3)
proof (induction rule: hrt_call_invoke.raw_induct [OF _ assms(1)])
  case (1 rec E s s')
  let ?now = "fst (hrt_absolute_time E s)" and ?s = "snd (hrt_absolute_time E s)"
  have inv: "hrt_inv E T els ?s" and now: "unat ?now < 2 ^ 63"
    using hrt_inv_time [OF 1(4)] hrt_inv_now [OF 1(4)] by simp_all
  show ?case
  proof (cases "q_peek (sq E) (callout_queue ?s)")
    case None
    then show ?thesis using 1(2) inv by (simp add: case_prod_beta Let_def)
  next
    case (Some c)
    show ?thesis
    proof (cases "dl ?s c > ?now")
      case True
      then show ?thesis using 1(2) inv Some by (simp add: case_prod_beta Let_def)
    next
      case False
      then obtain s2 where s2: "invoke_head E ?now c ?s = Some s2" "rec E s2 = Some s'"
        using 1(2) Some by (auto simp: case_prod_beta Let_def bind_eq_Some_conv)
      have "hrt_inv E T els s2"
        using invoke_head_inv [OF inv 1(3) now _ s2(1)] False by simp
      then show ?thesis using 1(1) [OF s2(2) 1(3)] by simp
    qed
  qed
qed

section \<open>Runs of the timer\<close>

text \<open>
  Clients call the timer with the interrupts off, and the interrupt runs between such calls. A call time
  of zero marks an entry that is not queued, so it is no deadline; an entry is reset or delayed only
  while it is not queued.
\<close>

inductive hrt_step :: "'q hrt_env \<Rightarrow> 'q hrt \<Rightarrow> 'q hrt \<Rightarrow> bool" for E where
  step_after: "hrt_call_after E e delay co a s = Some s' \<Longrightarrow> fst (hrt_absolute_time E s) + delay \<noteq> 0 \<Longrightarrow> hrt_step E s s'"
| step_at: "hrt_call_at E e calltime co a s = Some s' \<Longrightarrow> calltime \<noteq> 0 \<Longrightarrow> hrt_step E s s'"
| step_every: "hrt_call_every E e delay interval co a s = Some s' \<Longrightarrow> fst (hrt_absolute_time E s) + delay \<noteq> 0 \<Longrightarrow>
    interval < 2 ^ 63 \<Longrightarrow> hrt_step E s s'"
| step_cancel: "hrt_step E s (hrt_cancel E e s)"
| step_init: "hrt_called e s \<Longrightarrow> hrt_step E s (hrt_call_init e s)"
| step_delay: "hrt_called e s \<Longrightarrow> hrt_step E s (hrt_call_delay E e delay s)"
| step_time: "hrt_step E s (snd (hrt_absolute_time E s))"
| step_tick: "hrt_tick E (s\<lparr>latency_actual := c\<rparr>) = Some s' \<Longrightarrow> hrt_step E s s'"

inductive hrt_reach :: "'q hrt_env \<Rightarrow> 'q hrt \<Rightarrow> bool" for E where
  reach_init: "\<forall>e. period (entries e) < 2 ^ 63 \<Longrightarrow> hrt_reach E (hrt_init E entries)"
| reach_step: "hrt_reach E s \<Longrightarrow> hrt_step E s s' \<Longrightarrow> hrt_reach E s'"

lemma not_queued: "hrt_inv E T els s \<Longrightarrow> hrt_called e s \<Longrightarrow> e \<notin> set (els (callout_queue s))"
  using sched_wf_nonzero by (auto simp: hrt_inv_def hrt_called_def)

lemma hrt_inv_every:
  assumes "hrt_inv E T els s" and "fst (hrt_absolute_time E s) + delay \<noteq> 0" and "iv < 2 ^ 63"
  shows "\<exists>s'. hrt_call_every E e delay iv co a s = Some s' \<and> hrt_inv E T els s' \<and>
           sched els s' = schedule_add e (fst (hrt_absolute_time E s) + delay) (schedule_remove e (sched els s)) \<and>
           calls s' = (calls s)(e := \<lparr>deadline = fst (hrt_absolute_time E s) + delay, period = iv, callout = co, arg = a\<rparr>) \<and>
           invoked s' = invoked s"
  using hrt_inv_internal [OF hrt_inv_time [OF assms(1)] assms(2,3), of e co a]
  by (simp add: hrt_call_every_def case_prod_beta Let_def)

lemma after_is_every: "hrt_call_after E e delay co a s = hrt_call_every E e delay 0 co a s"
  by (simp add: hrt_call_after_def hrt_call_every_def)

lemma hrt_inv_cancel:
  assumes "hrt_inv E T els s"
  shows "hrt_inv E T els (hrt_cancel E e s)" and "sched els (hrt_cancel E e s) = schedule_remove e (sched els s)"
  using hrt_inv_dequeue [OF assms, of e]
  by (auto simp: hrt_cancel_def sched_set_call intro!: hrt_inv_set_call)

lemma hrt_inv_step:
  assumes "hrt_step E s s'" and "callouts_ok E T els" and "hrt_inv E T els s"
  shows "hrt_inv E T els s'"
  using assms
proof (induction rule: hrt_step.induct)
  case (step_after e delay co a s s')
  then show ?case using hrt_inv_every [of E T els s delay 0 e co a] by (auto simp: after_is_every)
next
  case (step_at e calltime co a s s')
  then show ?case using hrt_inv_internal [of E T els s calltime 0 e co a] by (auto simp: hrt_call_at_def)
next
  case (step_every e delay iv co a s s')
  then show ?case using hrt_inv_every [of E T els s delay iv e co a] by auto
next
  case (step_cancel s e)
  then show ?case by (simp add: hrt_inv_cancel)
next
  case (step_init e s)
  then show ?case by (auto simp: hrt_call_init_def not_queued intro!: hrt_inv_set_call)
next
  case (step_delay e s delay)
  then have "period (calls s e) < 2 ^ 63" by (simp add: hrt_inv_def)
  then show ?case
    using step_delay not_queued [of E T els s e] hrt_inv_time [of E T els s]
    by (auto simp: hrt_call_delay_def case_prod_beta Let_def intro!: hrt_inv_set_call)
next
  case (step_time s)
  then show ?case by (simp add: hrt_inv_time)
next
  case (step_tick c s s')
  then obtain s1 where "hrt_call_invoke E (hrt_latency_update (s\<lparr>latency_actual := c\<rparr>)) = Some s1"
      and s': "s' = hrt_call_reschedule E s1"
    by (auto simp: hrt_tick_def)
  then have "hrt_inv E T els s1"
    using hrt_call_invoke_inv hrt_inv_latency step_tick(2,3) hrt_inv_upd(2) by blast
  then show ?case using s' by (simp add: hrt_inv_reschedule)
qed

lemma hrt_inv_init:
  "sq_queue (sq E) els \<Longrightarrow> clock_env E T \<Longrightarrow> \<forall>e. period (entries e) < 2 ^ 63 \<Longrightarrow> hrt_inv E T els (hrt_init E entries)"
  by (simp add: hrt_inv_def hrt_init_def clock_ok_def time_read_def sched_def schedule_wf_def sq_queue.init)

lemma hrt_reach_inv:
  "hrt_reach E s \<Longrightarrow> sq_queue (sq E) els \<Longrightarrow> clock_env E T \<Longrightarrow> callouts_ok E T els \<Longrightarrow> hrt_inv E T els s"
  by (induction rule: hrt_reach.induct) (auto intro: hrt_inv_init hrt_inv_step)

section \<open>The dispatch loop ends\<close>

text \<open>Callouts that leave the timer alone.\<close>

definition quiet_callouts :: "'q hrt_env \<Rightarrow> bool" where
  "quiet_callouts E \<longleftrightarrow> (\<forall>f a s. run_callout E f a s = Some s)"

lemma quiet_callouts_ok: "quiet_callouts E \<Longrightarrow> callouts_ok E T els"
  using not_queued by (fastforce simp: quiet_callouts_def callouts_ok_def hrt_called_def)

text \<open>How often an entry can run before time \<open>B\<close>, and how often the whole queue can.\<close>

definition runs_until :: "nat \<Rightarrow> hrt_call \<Rightarrow> nat" where
  "runs_until B c =
     (if unat (deadline c) > B then 0 else if period c = 0 then 1 else B + 1 - unat (deadline c))"

definition work :: "nat \<Rightarrow> ('q \<Rightarrow> nat list) \<Rightarrow> 'q hrt \<Rightarrow> nat" where
  "work B els s = (\<Sum>e\<in>set (els (callout_queue s)). runs_until B (calls s e))"

lemma sched_Cons:
  "els (callout_queue s) = c # cs \<Longrightarrow> sched els s = (c, dl s c) # map (\<lambda>e. (e, dl s e)) cs"
  by (simp add: sched_def)

lemma head_least: "hrt_inv E T els s \<Longrightarrow> els (callout_queue s) = c # cs \<Longrightarrow> e \<in> set cs \<Longrightarrow> dl s c \<le> dl s e"
  by (auto simp: hrt_inv_def schedule_wf_def sched_def)

lemma head_fresh: "hrt_inv E T els s \<Longrightarrow> els (callout_queue s) = c # cs \<Longrightarrow> c \<notin> set cs"
  by (auto simp: hrt_inv_def schedule_wf_def)

lemma peek_head: "hrt_inv E T els s \<Longrightarrow> els (callout_queue s) = c # cs \<Longrightarrow> q_peek (sq E) (callout_queue s) = Some c"
  using sq_queue.peek_Cons [of "sq E" els "callout_queue s" c cs] sched_wf_distinct [of els s] by (simp add: hrt_inv_def)

lemma runs_until_period:
  assumes "unat d \<le> B" and "B < 2 ^ 63" and "period c < 2 ^ 63" and "period c \<noteq> 0"
  shows "runs_until B (c\<lparr>deadline := d + period c\<rparr>) < runs_until B (c\<lparr>deadline := d\<rparr>)"
proof -
  have "unat (d + period c) = unat d + unat (period c)"
    using deadline_sum assms by simp
  moreover have "unat (period c) > 0"
    using assms(4) by (simp add: unat_gt_0)
  ultimately show ?thesis
    using assms by (auto simp: runs_until_def)
qed

text \<open>The entry at the head is run, and is queued again one period later if it has one.\<close>

lemma invoke_head_quiet:
  assumes "hrt_inv E T els s" and "quiet_callouts E" and "els (callout_queue s) = c # cs"
    and "dl s c \<le> now" and "unat now < 2 ^ 63"
  shows "\<exists>s'. invoke_head E now c s = Some s' \<and> hrt_inv E T els s' \<and>
           invoked s' = invoked s @ (if callout (calls s c) = None then [] else [(c, dl s c, now)]) \<and>
           reads s' \<in> {reads s, Suc (reads s)} \<and> (\<forall>e. e \<noteq> c \<longrightarrow> calls s' e = calls s e) \<and>
           (if period (calls s c) = 0 then set (els (callout_queue s')) = set cs
            else set (els (callout_queue s')) = insert c (set cs) \<and>
                 calls s' c = (calls s c)\<lparr>deadline := dl s c + period (calls s c)\<rparr>)"
proof -
  define s1 where "s1 = set_call c (\<lambda>x. x\<lparr>deadline := 0\<rparr>) (dequeue E c s)"
  define s2 where "s2 = s1\<lparr>invoked := invoked s @ (if callout (calls s c) = None then [] else [(c, dl s c, now)])\<rparr>"
  note s1 = popped_inv [OF assms(1), of c, folded s1_def]
  have q: "set (els (callout_queue s1)) = set cs"
  proof -
    have "set (els (callout_queue s1)) = set (els (callout_queue s)) - {c}"
      using s1(2) fst_schedule_remove fst_set_sched by metis
    then show ?thesis
      using head_fresh [OF assms(1,3)] assms(3) by simp
  qed
  have calls1: "calls s1 = (calls s)(c := (calls s c)\<lparr>deadline := 0\<rparr>)" "invoked s1 = invoked s" "reads s1 = reads s"
    by (simp_all add: s1_def)
  have co: "(case callout (calls s1 c) of None \<Rightarrow> Some s1 | Some f \<Rightarrow> run_callout E f (arg (calls s1 c))
        (s1\<lparr>invoked := invoked s1 @ [(c, dl s c, now)]\<rparr>)) = Some s2"
    using assms(2) by (auto simp: quiet_callouts_def s2_def calls1 split: option.splits)
  have body: "invoke_head E now c s =
      (if period (calls s c) \<noteq> 0
       then hrt_call_enter E c (set_call c (\<lambda>x. x\<lparr>deadline := dl s c + period x\<rparr>) s2) else Some s2)"
    unfolding invoke_head_def Let_def s1_def [symmetric] co by (simp add: s2_def calls1)
  show ?thesis
  proof (cases "period (calls s c) = 0")
    case True
    then show ?thesis using body s1(1) q calls1 by (auto simp: s2_def)
  next
    case False
    let ?s3 = "set_call c (\<lambda>x. x\<lparr>deadline := dl s c + period x\<rparr>) s2"
    have p: "period (calls s c) < 2 ^ 63" and d: "unat (dl s c) < 2 ^ 63"
      using assms(1,4,5) by (auto simp: hrt_inv_def word_le_nat_alt)
    have fresh: "c \<notin> set (els (callout_queue s2))"
      using s1(3) by (simp add: s2_def)
    have "hrt_inv E T els ?s3"
      using s1(1) p calls1 fresh by (intro hrt_inv_set_call) (simp_all add: s2_def)
    moreover have "dl ?s3 c \<noteq> 0"
      using sum_nonzero [OF d p] False by (simp add: s2_def calls1)
    ultimately obtain s' where s': "hrt_call_enter E c ?s3 = Some s'" "hrt_inv E T els s'" "calls s' = calls ?s3"
        "invoked s' = invoked ?s3" "sched els s' = schedule_add c (dl ?s3 c) (sched els ?s3)"
        "reads s' \<in> {reads ?s3, Suc (reads ?s3)}"
      using hrt_inv_enter [of E T els ?s3 c] fresh by auto
    have "set (els (callout_queue s')) = insert c (set (els (callout_queue ?s3)))"
      using s'(5) fst_set_sched [of els s'] by simp
    then show ?thesis
      using body False s' q calls1 by (auto simp: s2_def)
  qed
qed

lemma T_mono: "clock_env E T \<Longrightarrow> i \<le> j \<Longrightarrow> T i \<le> T j"
  by (rule lift_Suc_mono_le) (simp_all add: clock_env_def)

lemma work_head:
  assumes "hrt_inv E T els s" and "els (callout_queue s) = c # cs"
  shows "work B els s = runs_until B (calls s c) + (\<Sum>e\<in>set cs. runs_until B (calls s e))"
  using head_fresh [OF assms] assms(2) by (simp add: work_def)

lemma work_decreases:
  assumes "hrt_inv E T els s" and "els (callout_queue s) = c # cs" and "unat (dl s c) \<le> B" and "B < 2 ^ 63"
    and "\<forall>e. e \<noteq> c \<longrightarrow> calls s' e = calls s e"
    and "if period (calls s c) = 0 then set (els (callout_queue s')) = set cs
         else set (els (callout_queue s')) = insert c (set cs) \<and>
              calls s' c = (calls s c)\<lparr>deadline := dl s c + period (calls s c)\<rparr>"
  shows "work B els s' < work B els s"
proof -
  have fresh: "c \<notin> set cs"
    by (rule head_fresh [OF assms(1,2)])
  have p: "period (calls s c) < 2 ^ 63"
    using assms(1) by (simp add: hrt_inv_def)
  have same: "(\<Sum>e\<in>set cs. runs_until B (calls s' e)) = (\<Sum>e\<in>set cs. runs_until B (calls s e))"
    using fresh assms(5) by (intro sum.cong) auto
  show ?thesis
  proof (cases "period (calls s c) = 0")
    case True
    then show ?thesis
      using assms(3,6) same work_head [OF assms(1,2), of B] by (simp add: work_def runs_until_def)
  next
    case False
    have "runs_until B (calls s' c) < runs_until B (calls s c)"
      using runs_until_period [OF assms(3,4) p False] False assms(6) by simp
    then show ?thesis
      using assms(6) False fresh same work_head [OF assms(1,2), of B] by (simp add: work_def)
  qed
qed

text \<open>
  The dispatch loop of one interrupt: if the clock stays at or below \<open>B\<close> for as many reads as the
  loop can need, the loop ends; the calls it ran are in the order of their deadlines, each run when
  its deadline had passed; every call that was due at the start has been run, and what is queued at
  the end was not due at the start.
\<close>

definition dispatched :: "(nat \<Rightarrow> nat) \<Rightarrow> ('q \<Rightarrow> nat list) \<Rightarrow> 'q hrt \<Rightarrow> 'q hrt \<Rightarrow> (nat \<times> u64 \<times> u64) list \<Rightarrow> bool" where
  "dispatched T els s s' log \<longleftrightarrow> invoked s' = invoked s @ log \<and>
     sorted (map (fst \<circ> snd) log) \<and> (\<forall>(e, d, t)\<in>set log. d \<le> t) \<and>
     (\<forall>e\<in>set (els (callout_queue s')). T (reads s) < unat (dl s' e)) \<and>
     (\<forall>e\<in>set (els (callout_queue s)). unat (dl s e) \<le> T (reads s) \<and> callout (calls s e) \<noteq> None \<longrightarrow>
        (\<exists>t. (e, dl s e, t) \<in> set log))"

lemma later_deadlines:
  assumes "hrt_inv E T els s" and "els (callout_queue s) = c # cs" and "unat (dl s c) < 2 ^ 63"
    and "\<forall>e. e \<noteq> c \<longrightarrow> calls s' e = calls s e"
    and "if period (calls s c) = 0 then set (els (callout_queue s')) = set cs
         else set (els (callout_queue s')) = insert c (set cs) \<and>
              calls s' c = (calls s c)\<lparr>deadline := dl s c + period (calls s c)\<rparr>"
  shows "\<forall>e\<in>set (els (callout_queue s')). dl s c \<le> dl s' e"
proof -
  have "period (calls s c) < 2 ^ 63"
    using assms(1) by (simp add: hrt_inv_def)
  then have "dl s c \<le> dl s c + period (calls s c)"
    using deadline_sum [OF assms(3)] by (simp add: word_le_nat_alt)
  moreover have "\<forall>e\<in>set cs. dl s c \<le> dl s' e"
    using head_least [OF assms(1,2)] head_fresh [OF assms(1,2)] assms(4) by metis
  ultimately show ?thesis
    using assms(5) by (auto split: if_splits)
qed

lemma dispatched_step:
  assumes "hrt_inv E T els s" and "els (callout_queue s) = c # cs"
    and "invoked s2 = invoked s @ l" and "\<forall>e. e \<noteq> c \<longrightarrow> calls s2 e = calls s e"
    and "if period (calls s c) = 0 then set (els (callout_queue s2)) = set cs
         else set (els (callout_queue s2)) = insert c (set cs) \<and>
              calls s2 c = (calls s c)\<lparr>deadline := dl s c + period (calls s c)\<rparr>"
    and "dispatched T els s2 s' log" and "\<forall>x\<in>set log. dl s c \<le> fst (snd x)" and "reads s \<le> reads s2"
    and "dl s c \<le> now" and "l = (if callout (calls s c) = None then [] else [(c, dl s c, now)])"
  shows "dispatched T els s s' (l @ log)"
proof -
  have le: "T (reads s) \<le> T (reads s2)"
    using assms(1,8) T_mono by (auto simp: hrt_inv_def)
  have "\<exists>t. (e, dl s e, t) \<in> set (l @ log)"
    if e: "e \<in> set (els (callout_queue s))" "unat (dl s e) \<le> T (reads s)" "callout (calls s e) \<noteq> None" for e
  proof (cases "e = c")
    case True
    then show ?thesis using assms(10) e(3) by auto
  next
    case False
    then have "e \<in> set (els (callout_queue s2))" "calls s2 e = calls s e"
      using e(1) assms(2,4,5) by (auto split: if_splits)
    then show ?thesis using assms(6) e le by (force simp: dispatched_def)
  qed
  then show ?thesis
    using assms(3,6,7,9,10) le by (auto simp: dispatched_def)
qed

lemma hrt_call_invoke_ends:
  assumes "hrt_inv E T els s" and "quiet_callouts E" and "\<forall>k \<le> 2 * work B els s. T (reads s + k) \<le> B" and "B < 2 ^ 63"
  shows "\<exists>s' log. hrt_call_invoke E s = Some s' \<and> hrt_inv E T els s' \<and> dispatched T els s s' log \<and>
           (\<forall>m. (\<forall>e\<in>set (els (callout_queue s)). m \<le> dl s e) \<longrightarrow> (\<forall>x\<in>set log. m \<le> fst (snd x)))"
  using assms(1,3)
proof (induction "work B els s" arbitrary: s rule: less_induct)
  case less
  let ?now = "fst (hrt_absolute_time E s)" and ?s = "snd (hrt_absolute_time E s)"
  have inv: "hrt_inv E T els ?s" and now: "unat ?now = T (reads s)" "unat ?now < 2 ^ 63"
    using hrt_inv_time [OF less(2)] hrt_inv_now [OF less(2)] by simp_all
  have TB: "T (reads s) \<le> B"
    using less(3) by (metis add.right_neutral le0)
  have stop: "\<forall>e\<in>set (els (callout_queue s)). ?now < dl s e \<Longrightarrow> hrt_call_invoke E s = Some ?s \<Longrightarrow> ?case"
    using inv now by (intro exI [of _ ?s] exI [of _ "[]"])
      (auto simp: dispatched_def word_less_nat_alt not_le)
  show ?case
  proof (cases "els (callout_queue s)")
    case Nil
    then have "q_peek (sq E) (callout_queue s) = None"
      using less(2) sq_queue.peek_Nil [of "sq E" els "callout_queue s"] by (simp add: hrt_inv_def)
    then have "hrt_call_invoke E s = Some ?s"
      by (subst hrt_call_invoke.simps) (simp add: case_prod_beta Let_def)
    then show ?thesis
      using stop Nil by simp
  next
    case (Cons c cs)
    note pk = peek_head [OF less(2) Cons]
    show ?thesis
    proof (cases "dl s c > ?now")
      case True
      then have "\<forall>e\<in>set (els (callout_queue s)). ?now < dl s e"
        using head_least [OF less(2) Cons] Cons by (auto intro: less_le_trans)
      moreover have "hrt_call_invoke E s = Some ?s"
        using pk True by (subst hrt_call_invoke.simps) (simp add: case_prod_beta Let_def)
      ultimately show ?thesis
        by (rule stop)
    next
      case False
      then obtain s2 where s2: "invoke_head E ?now c ?s = Some s2" "hrt_inv E T els s2"
          "invoked s2 = invoked s @ (if callout (calls s c) = None then [] else [(c, dl s c, ?now)])"
          "reads s2 \<in> {Suc (reads s), Suc (Suc (reads s))}" "\<forall>e. e \<noteq> c \<longrightarrow> calls s2 e = calls s e"
          "if period (calls s c) = 0 then set (els (callout_queue s2)) = set cs
           else set (els (callout_queue s2)) = insert c (set cs) \<and>
                calls s2 c = (calls s c)\<lparr>deadline := dl s c + period (calls s c)\<rparr>"
        using invoke_head_quiet [OF inv assms(2) _ _ now(2), of c cs] Cons by (auto simp: not_less)
      have due: "unat (dl s c) \<le> T (reads s)"
        using False now(1) by (simp add: word_le_nat_alt not_less)
      have w: "work B els s2 < work B els s"
        using work_decreases [OF less(2) Cons _ assms(4) s2(5,6)] due TB by simp
      have "\<forall>k \<le> 2 * work B els s2. T (reads s2 + k) \<le> B"
      proof (intro allI impI)
        fix k assume "k \<le> 2 * work B els s2"
        then have "reads s2 - reads s + k \<le> 2 * work B els s" "reads s2 + k = reads s + (reads s2 - reads s + k)"
          using s2(4) w by auto
        then show "T (reads s2 + k) \<le> B" using less(3) by metis
      qed
      then obtain s' log where s': "hrt_call_invoke E s2 = Some s'" "hrt_inv E T els s'" "dispatched T els s2 s' log"
          "\<And>m. (\<forall>e\<in>set (els (callout_queue s2)). m \<le> dl s2 e) \<Longrightarrow> (\<forall>x\<in>set log. m \<le> fst (snd x))"
        using less(1) [OF w s2(2)] by blast
      have low: "\<forall>e\<in>set (els (callout_queue s2)). dl s c \<le> dl s2 e"
        using later_deadlines [OF less(2) Cons _ s2(5,6)] due now by simp
      let ?log = "(if callout (calls s c) = None then [] else [(c, dl s c, ?now)]) @ log"
      have "hrt_call_invoke E s = Some s'"
        using pk False s2(1) s'(1) by (subst hrt_call_invoke.simps) (simp add: case_prod_beta Let_def)
      moreover have "dispatched T els s s' ?log"
      proof (rule dispatched_step [OF less(2) Cons s2(3,5,6) s'(3) s'(4) [OF low]])
        show "reads s \<le> reads s2" using s2(4) by auto
        show "dl s c \<le> ?now" using False by simp
      qed simp
      moreover have "\<forall>m. (\<forall>e\<in>set (els (callout_queue s)). m \<le> dl s e) \<longrightarrow> (\<forall>x\<in>set ?log. m \<le> fst (snd x))"
        using s'(4) [OF low] Cons by (auto intro: order_trans)
      ultimately show ?thesis using s'(2) by blast
    qed
  qed
qed

section \<open>The compare value\<close>

lemma low16: "ucast (w AND 0xffff :: u64) = (ucast w :: u16)"
proof -
  have "ucast (w AND mask 16) = (ucast w :: u16)"
    by (auto intro!: bit_word_eqI simp: bit_simps)
  then show ?thesis
    by (simp add: mask_eq_exp_minus_1)
qed

lemma ucast_of_nat16: "ucast (of_nat n :: u64) = (of_nat n :: u16)"
  by (rule word_unat_eq_iff [THEN iffD2])
     (simp add: unsigned_ucast_eq unsigned_of_nat take_bit_eq_mod mod_mod_cancel)

text \<open>Microseconds from now to the compare match: the time to the first deadline, within the limits.\<close>

definition ticks_to_match :: "nat \<Rightarrow> (nat \<times> u64) list \<Rightarrow> nat" where
  "ticks_to_match now q = (case q of [] \<Rightarrow> 50000 | (_, d) # _ \<Rightarrow> max 50 (min 50000 (unat d - now)))"

lemma next_deadline_unat:
  assumes "unat now < 2 ^ 63"
  shows "unat (next_deadline now (map_option snd (case q of [] \<Rightarrow> None | x # _ \<Rightarrow> Some x))) =
     unat now + ticks_to_match (unat now) q"
proof -
  have sums: "unat (now + 50) = unat now + 50" "unat (now + 50000) = unat now + 50000"
    using deadline_sum [OF assms, of 50] deadline_sum [OF assms, of 50000] by simp_all
  then show ?thesis
    by (cases q) (auto simp: next_deadline_def ticks_to_match_def word_le_nat_alt word_less_nat_alt)
qed

lemma ticks_bounds: "50 \<le> ticks_to_match now q \<and> ticks_to_match now q \<le> 50000"
  by (auto simp: ticks_to_match_def split: list.splits)

lemma compare_distance:
  fixes d now :: u64
  assumes "unat d = unat now + k" and "k < 65536"
  shows "unat (ucast d - ucast now :: u16) = k"
proof -
  have "d = now + of_nat k"
    using arg_cong [OF assms(1), of "of_nat :: nat \<Rightarrow> u64"] by simp
  then have "(ucast d :: u16) = ucast now + of_nat k"
    using ucast_of_nat16 [of "unat now + k"] ucast_of_nat16 [of "unat now"] by simp
  then show ?thesis
    using assms(2) by (simp add: unsigned_of_nat take_bit_nat_eq_self)
qed

lemma reschedule_ticks:
  assumes "hrt_inv E T els s"
  shows "unat (rCCR_HRT (hrt_call_reschedule E s) - ucast (fst (hrt_absolute_time E s))) =
           ticks_to_match (T (reads s)) (sched els s)"
proof -
  let ?now = "fst (hrt_absolute_time E s)" and ?q = "sched els s"
  have now: "unat ?now = T (reads s)" "unat ?now < 2 ^ 63"
    using hrt_inv_now [OF assms] by simp_all
  have "map_option (dl s) (q_peek (sq E) (callout_queue s)) = map_option snd (case ?q of [] \<Rightarrow> None | x # _ \<Rightarrow> Some x)"
    using assms sq_queue.peek [of "sq E" els "callout_queue s"] sched_wf_distinct [of els s]
    by (cases "els (callout_queue s)") (simp_all add: hrt_inv_def sched_def)
  then have "rCCR_HRT (hrt_call_reschedule E s) =
      ucast (next_deadline ?now (map_option snd (case ?q of [] \<Rightarrow> None | x # _ \<Rightarrow> Some x)))"
    by (simp add: hrt_call_reschedule_def case_prod_beta Let_def low16)
  then show ?thesis
    using compare_distance [OF next_deadline_unat [OF now(2), of ?q]] ticks_bounds [of "unat ?now" ?q] now(1) by simp
qed

section \<open>Properties\<close>

text \<open>The queue functions of the repository and a clock, to show that the assumptions can hold together.\<close>

definition demo_clock :: "nat \<Rightarrow> nat" where
  "demo_clock i = min (1000 + 10 * i) 2000"

definition demo_timer :: "sq_store hrt_env" where
  "demo_timer = \<lparr>rCNT = (\<lambda>i. of_nat (demo_clock i)), sq = sq_common, run_callout = (\<lambda>f a s. Some s)\<rparr>"

definition demo_entries :: "nat \<Rightarrow> hrt_call" where
  "demo_entries e = \<lparr>deadline = 0, period = 0, callout = None, arg = 0\<rparr>"

definition demo_hrt :: "sq_store hrt" where
  "demo_hrt = hrt_init demo_timer demo_entries"

lemma demo_timer_facts:
  "sq_queue (sq demo_timer) sq_elems" "clock_env demo_timer demo_clock" "quiet_callouts demo_timer"
  "callouts_ok demo_timer demo_clock sq_elems" "hrt_reach demo_timer demo_hrt"
proof -
  show "quiet_callouts demo_timer"
    by (simp add: quiet_callouts_def demo_timer_def)
  then show "callouts_ok demo_timer demo_clock sq_elems"
    by (rule quiet_callouts_ok)
  show "clock_env demo_timer demo_clock"
    by (auto simp: clock_env_def demo_timer_def demo_clock_def min_def)
  show "sq_queue (sq demo_timer) sq_elems"
    using common.sq_queue_axioms by (simp add: demo_timer_def)
  show "hrt_reach demo_timer demo_hrt"
    unfolding demo_hrt_def by (rule reach_init) (simp add: demo_entries_def)
qed

text \<open>
  The callout queue is always a schedule: in every state the timer can reach, no entry is queued
  twice, the queue is sorted by deadline, a queued entry has not been called, and the latency
  histogram has its nine counters. The queue library acts as specified, the clock is read once per
  counter period, and callouts keep to the rules stated above.
\<close>

lemma hrt_queue_ordered:
  assumes "sq_queue (sq E) els" and "clock_env E T" and "callouts_ok E T els" and "hrt_reach E s"
  shows "distinct (els (callout_queue s)) \<and> sorted (map (dl s) (els (callout_queue s))) \<and>
         (\<forall>e\<in>set (els (callout_queue s)). \<not> hrt_called e s) \<and>
         length (latency_counters s) = LATENCY_BUCKET_COUNT + 1"
proof -
  have inv: "hrt_inv E T els s"
    using hrt_reach_inv assms by blast
  then have "sorted (map snd (sched els s))"
    by (simp add: hrt_inv_def schedule_wf_def)
  then have "sorted (map (dl s) (els (callout_queue s)))"
    by (simp add: sched_def comp_def)
  then show ?thesis
    using inv not_queued [OF inv] by (auto simp: hrt_inv_def sched_wf_distinct)
qed

text \<open>
  C16. The clock is exact: read once per counter period, the 16-bit counter extended by the detected
  wrap-arounds is the true time in every reachable state, and never runs backwards.
\<close>

theorem hrt_absolute_time_exact:
  assumes "sq_queue (sq E) els" and "clock_env E T" and "callouts_ok E T els" and "hrt_reach E s"
  shows "unat (fst (hrt_absolute_time E s)) = T (reads s) \<and>
         fst (hrt_absolute_time E s) \<le> fst (hrt_absolute_time E (snd (hrt_absolute_time E s)))"
proof -
  have inv: "hrt_inv E T els s"
    using hrt_reach_inv assms by blast
  have "unat (fst (hrt_absolute_time E s)) = T (reads s)"
    using hrt_inv_now [OF inv] by simp
  then show ?thesis
    using hrt_inv_now [OF hrt_inv_time [OF inv]] T_mono [OF assms(2), of "reads s" "Suc (reads s)"]
    by (simp add: word_le_nat_alt)
qed

theorem hrt_absolute_time_exact_witness:
  "unat (fst (hrt_absolute_time demo_timer demo_hrt)) = 1000"
  using hrt_absolute_time_exact [OF demo_timer_facts(1,2,4,5)]
  by (simp add: demo_hrt_def hrt_init_def demo_clock_def)

text \<open>
  C14. The timer implements the abstract schedule: scheduling a call always returns, drops the entry
  from the schedule if it was there and puts it behind every call that is not later, with the data
  given; cancelling drops it and marks it as called.
\<close>

theorem hrt_calls_refine_schedule:
  assumes "sq_queue (sq E) els" and "clock_env E T" and "callouts_ok E T els" and "hrt_reach E s"
    and "d = of_nat (T (reads s)) + delay" and "d \<noteq> 0" and "interval < 2 ^ 63"
  shows "(\<exists>s'. hrt_call_every E e delay interval co a s = Some s' \<and>
            sched els s' = schedule_add e d (schedule_remove e (sched els s)) \<and>
            calls s' = (calls s)(e := \<lparr>deadline = d, period = interval, callout = co, arg = a\<rparr>)) \<and>
         sched els (hrt_cancel E e s) = schedule_remove e (sched els s) \<and> hrt_called e (hrt_cancel E e s)"
proof -
  have inv: "hrt_inv E T els s"
    using hrt_reach_inv assms(1-4) by blast
  have "fst (hrt_absolute_time E s) = of_nat (T (reads s))"
    using hrt_absolute_time_true(1) [of E T s] inv by (simp add: hrt_inv_def)
  then show ?thesis
    using hrt_inv_every [OF inv, of delay interval e co a] hrt_inv_cancel(2) [OF inv, of e] assms(5-7)
    by (auto simp: hrt_called_def hrt_cancel_def)
qed

theorem hrt_calls_refine_schedule_witness:
  "\<exists>s'. hrt_call_every demo_timer 3 100 50 (Some 7) 0 demo_hrt = Some s' \<and> sched sq_elems s' = [(3, 1100)]"
proof -
  have r: "reads demo_hrt = 0" "sq_elems (callout_queue demo_hrt) = []"
    using common.init by (simp_all add: demo_hrt_def hrt_init_def demo_timer_def)
  have "\<exists>s'. hrt_call_every demo_timer 3 100 50 (Some 7) 0 demo_hrt = Some s' \<and>
      sched sq_elems s' = schedule_add 3 1100 (schedule_remove 3 (sched sq_elems demo_hrt))"
    using hrt_calls_refine_schedule [OF demo_timer_facts(1,2,4,5), of 1100 100 50 3 "Some 7" 0]
    by (auto simp: r demo_clock_def)
  then show ?thesis
    by (simp add: sched_def r schedule_add_def schedule_remove_def)
qed

text \<open>
  The next interrupt comes in time: the compare value written is exactly the time to the first
  deadline ahead of the current count, but at least 50 and at most 50000 microseconds, so it is within
  the counter period and the clock is read again before the counter has gone round.
\<close>

lemma next_interrupt_in_window:
  assumes "sq_queue (sq E) els" and "clock_env E T" and "callouts_ok E T els" and "hrt_reach E s"
  shows "unat (rCCR_HRT (hrt_call_reschedule E s) - ucast (fst (hrt_absolute_time E s))) =
           ticks_to_match (T (reads s)) (sched els s) \<and>
         50 \<le> ticks_to_match (T (reads s)) (sched els s) \<and> ticks_to_match (T (reads s)) (sched els s) \<le> 50000"
  using reschedule_ticks hrt_reach_inv [OF assms(4,1,2,3)] ticks_bounds by blast

text \<open>
  C15. No call is left behind: with callouts that leave the timer alone, and a processor fast enough
  that the clock stays at or below \<open>B\<close> for as many reads as the queue can need, the timer interrupt
  returns; it has run every call that was due when it started, in the order of the deadlines and none
  before its deadline, and every call still queued was not yet due.
\<close>

theorem hrt_tick_runs_due_calls:
  assumes "sq_queue (sq E) els" and "clock_env E T" and "quiet_callouts E" and "hrt_reach E s"
    and "\<forall>k \<le> 2 * work B els s. T (reads s + k) \<le> B" and "B < 2 ^ 63"
  shows "\<exists>s' log. hrt_tick E (s\<lparr>latency_actual := c\<rparr>) = Some s' \<and> dispatched T els s s' log"
proof -
  define s0 where "s0 = hrt_latency_update (s\<lparr>latency_actual := c\<rparr>)"
  have same: "callout_queue s0 = callout_queue s" "calls s0 = calls s" "reads s0 = reads s" "invoked s0 = invoked s"
    by (simp_all add: s0_def hrt_latency_update_def Let_def)
  have "hrt_inv E T els s0"
    using hrt_reach_inv [OF assms(4,1,2) quiet_callouts_ok [OF assms(3)]] by (simp add: s0_def hrt_inv_latency)
  moreover have "\<forall>k \<le> 2 * work B els s0. T (reads s0 + k) \<le> B"
    using assms(5) by (simp add: work_def same)
  ultimately obtain s1 log where "hrt_call_invoke E s0 = Some s1" "dispatched T els s0 s1 log"
    using hrt_call_invoke_ends [OF _ assms(3) _ assms(6)] by blast
  then have "hrt_tick E (s\<lparr>latency_actual := c\<rparr>) = Some (hrt_call_reschedule E s1)"
      "dispatched T els s (hrt_call_reschedule E s1) log"
    by (simp_all add: hrt_tick_def dispatched_def same flip: s0_def)
  then show ?thesis by blast
qed

lemma demo_queue:
  "\<exists>s. hrt_call_every demo_timer 3 10 50 (Some 7) 0 demo_hrt = Some s \<and> hrt_reach demo_timer s \<and>
     sq_elems (callout_queue s) = [3] \<and> calls s 3 = \<lparr>deadline = 1010, period = 50, callout = Some 7, arg = 0\<rparr> \<and> reads s = 2"
proof -
  let ?q = "q_init sq_common"
  have q: "sq_elems (q_addfirst sq_common 3 ?q) = [3]" "q_peek sq_common ?q = None"
    using common.addfirst [of ?q 3] common.peek_Nil [of ?q] common.init by simp_all
  have t: "fst (hrt_absolute_time demo_timer demo_hrt) = 1000" "callout_queue demo_hrt = ?q" "reads demo_hrt = 0"
      "calls demo_hrt = demo_entries" "sq demo_timer = sq_common"
    by (simp_all add: hrt_absolute_time_def read_rCNT_def demo_timer_def demo_hrt_def hrt_init_def demo_clock_def)
  then have "\<exists>s. hrt_call_every demo_timer 3 10 50 (Some 7) 0 demo_hrt = Some s \<and>
     sq_elems (callout_queue s) = [3] \<and> calls s 3 = \<lparr>deadline = 1010, period = 50, callout = Some 7, arg = 0\<rparr> \<and> reads s = 2"
    by (simp add: hrt_call_every_def case_prod_beta Let_def hrt_call_internal_def demo_entries_def
          hrt_call_enter_def enter_first_def q)
  moreover have "fst (hrt_absolute_time demo_timer demo_hrt) + 10 \<noteq> 0"
    using t by simp
  ultimately show ?thesis
    using reach_step [OF demo_timer_facts(5)] step_every [of demo_timer 3 10 50 "Some 7" 0 demo_hrt] by force
qed

theorem hrt_tick_runs_due_calls_witness:
  "\<exists>s s' log. hrt_call_every demo_timer 3 10 50 (Some 7) 0 demo_hrt = Some s \<and>
     hrt_tick demo_timer (s\<lparr>latency_actual := 0\<rparr>) = Some s' \<and> (\<exists>t. (3, 1010, t) \<in> set log) \<and> invoked s' = invoked s @ log"
proof -
  obtain s where s: "hrt_call_every demo_timer 3 10 50 (Some 7) 0 demo_hrt = Some s" "hrt_reach demo_timer s"
      "sq_elems (callout_queue s) = [3]" "calls s 3 = \<lparr>deadline = 1010, period = 50, callout = Some 7, arg = 0\<rparr>" "reads s = 2"
    using demo_queue by blast
  have "\<forall>k \<le> 2 * work 2000 sq_elems s. demo_clock (reads s + k) \<le> 2000"
    by (simp add: demo_clock_def)
  then obtain s' log where "hrt_tick demo_timer (s\<lparr>latency_actual := 0\<rparr>) = Some s'"
      "dispatched demo_clock sq_elems s s' log"
    using hrt_tick_runs_due_calls [OF demo_timer_facts(1,2,3) s(2), of 2000 0] by auto
  moreover have "unat (dl s 3) \<le> demo_clock (reads s)"
    by (simp add: s demo_clock_def)
  ultimately show ?thesis
    using s by (force simp: dispatched_def)
qed

section \<open>Conversions\<close>

text \<open>With 32-bit seconds the product wraps, but only the low 32 bits of the nanoseconds are kept.\<close>

lemma ucast_of_nat32: "ucast (of_nat n :: u64) = (of_nat n :: u32)"
  by (rule word_unat_eq_iff [THEN iffD2])
     (simp add: unsigned_ucast_eq unsigned_of_nat take_bit_eq_mod mod_mod_cancel)

lemma ucast_wrap32: "ucast (of_nat n :: u32) = (of_nat (n mod 2 ^ 32) :: u64)"
  by (rule word_unat_eq_iff [THEN iffD2])
     (simp add: unsigned_ucast_eq unsigned_of_nat take_bit_eq_mod)

lemma abstime_to_ts_to_abstime:
  assumes "unat a div 1000000 < 2 ^ 32"
  shows "ts_to_abstime (abstime_to_ts a :: 32 word timespec) = a"
proof -
  define q r k where "q = unat a div 1000000" and "r = unat a mod 1000000" and "k = q * 1000000 div 2 ^ 32"
  let ?w = "q * 1000000 mod 2 ^ 32"
  have a: "unat a = q * 1000000 + r" "r < 1000000"
    by (simp_all add: q_def r_def)
  then have a': "a = of_nat (q * 1000000 + r)"
    by (metis of_nat_unat ucast_id)
  have sec: "(ucast (a div 1000000) :: u32) = of_nat q"
    by (simp add: word_arith_nat_div ucast_of_nat32 q_def)
  have split: "q * 1000000 = k * 2 ^ 32 + ?w"
    by (simp only: k_def div_mult_mod_eq)
  then have "q * 1000000 + r = ?w + (k * 2 ^ 32 + r)"
    by linarith
  then have "a - of_nat ?w = of_nat (k * 2 ^ 32 + r)"
    using a' by (simp only: of_nat_add [of ?w] add_diff_cancel_left')
  then have "(ucast ((a - ucast (of_nat q * 1000000 :: u32)) * 1000) :: u32) = of_nat ((k * 2 ^ 32 + r) * 1000)"
    using ucast_wrap32 [of "q * 1000000"] ucast_of_nat32 [of "(k * 2 ^ 32 + r) * 1000"] by simp
  also have "\<dots> = of_nat (r * 1000)"
  proof (rule word_unat_eq_iff [THEN iffD2])
    have "(k * 2 ^ 32 + r) * 1000 = r * 1000 + k * 1000 * 2 ^ 32"
      by simp
    then have "(k * 2 ^ 32 + r) * 1000 mod 2 ^ 32 = r * 1000 mod 2 ^ 32"
      by (simp only: mod_mult_self1)
    moreover have "unat (of_nat n :: u32) = n mod 2 ^ 32" for n
      by (simp add: unsigned_of_nat take_bit_eq_mod)
    ultimately show "unat (of_nat ((k * 2 ^ 32 + r) * 1000) :: u32) = unat (of_nat (r * 1000) :: u32)"
      by metis
  qed
  finally have nsec: "tv_nsec (abstime_to_ts a :: 32 word timespec) = of_nat (r * 1000)"
    by (simp add: abstime_to_ts_def sec)
  have "unat (of_nat (r * 1000) :: u32) = r * 1000"
    using a(2) by (simp only: unsigned_of_nat take_bit_eq_mod) simp
  then have "of_nat (r * 1000) div 1000 = (of_nat r :: u32)"
    by (simp only: word_arith_nat_div) simp
  then have "(ucast (of_nat (r * 1000) div 1000 :: u32) :: u64) = of_nat r"
    using a(2) by (simp only: ucast_wrap32) simp
  moreover have "(ucast (of_nat q :: u32) :: u64) = of_nat q"
    using assms by (simp add: ucast_wrap32 q_def)
  moreover have "tv_sec (abstime_to_ts a :: 32 word timespec) = of_nat q"
    by (simp add: abstime_to_ts_def Let_def sec)
  ultimately have "ts_to_abstime (abstime_to_ts a :: 32 word timespec) = of_nat q * 1000000 + of_nat r"
    unfolding ts_to_abstime_def nsec by presburger
  then show ?thesis
    by (simp add: a')
qed

end
