(* ===== verification/Hrt_Ppm.thy ===== *)
theory Hrt_Ppm
  imports Hrt
begin

text \<open>
  The decoder of PPM receiver pulses in the timer's interrupt handler
  (\<^verbatim>\<open>src/platforms/nuttx/src/px4/stm/stm32_common/hrt/hrt.c\<close>, \<^verbatim>\<open>hrt_ppm_decode\<close>), and the handler itself,
  \<^verbatim>\<open>hrt_tim_isr\<close>, which feeds it. Each edge of the input is a captured 16-bit count. The decoder collects
  the distances between the marks of a frame and publishes them at the long gap that ends the frame,
  once the number of channels has been the same for several frames.
\<close>

section \<open>Data\<close>

definition PPM_MIN_PULSE_WIDTH :: u16 where [simp]: "PPM_MIN_PULSE_WIDTH = 200"
definition PPM_MAX_PULSE_WIDTH :: u16 where [simp]: "PPM_MAX_PULSE_WIDTH = 600"
definition PPM_MIN_CHANNEL_VALUE :: u16 where [simp]: "PPM_MIN_CHANNEL_VALUE = 800"
definition PPM_MAX_CHANNEL_VALUE :: u16 where [simp]: "PPM_MAX_CHANNEL_VALUE = 2200"
definition PPM_MIN_START :: u16 where [simp]: "PPM_MIN_START = 2300"
definition PPM_MIN_CHANNELS :: nat where [simp]: "PPM_MIN_CHANNELS = 5"
definition PPM_MAX_CHANNELS_hrt :: nat where [simp]: "PPM_MAX_CHANNELS_hrt = 20"
definition PPM_CHANNEL_LOCK :: nat where [simp]: "PPM_CHANNEL_LOCK = 4"

datatype ppm_phase = UNSYNCH | ARM | ACTIVE | INACTIVE

record ppm_decoder =
  last_edge :: u16
  last_mark :: u16
  frame_start :: u16
  next_channel :: nat
  phase :: ppm_phase
  ppm_temp_buffer :: "u16 list"
  ppm_buffer :: "u16 list"
  ppm_frame_length :: u16
  ppm_decoded_channels :: nat
  ppm_last_valid_decode :: u64
  new_channel_count :: nat
  new_channel_holdoff :: nat

definition ppm_decoder_init :: ppm_decoder where
  "ppm_decoder_init =
     \<lparr>last_edge = 0, last_mark = 0, frame_start = 0, next_channel = 0, phase = UNSYNCH,
      ppm_temp_buffer = replicate PPM_MAX_CHANNELS_hrt 0, ppm_buffer = replicate PPM_MAX_CHANNELS_hrt 0,
      ppm_frame_length = 0, ppm_decoded_channels = 0, ppm_last_valid_decode = 0,
      new_channel_count = 0, new_channel_holdoff = 0\<rparr>"

section \<open>The decoder\<close>

text \<open>A frame whose number of channels is not the expected one.\<close>

definition ppm_settle :: "ppm_decoder \<Rightarrow> ppm_decoder" where
  "ppm_settle p =
     (if new_channel_count p \<noteq> next_channel p
      then p\<lparr>new_channel_count := next_channel p, new_channel_holdoff := PPM_CHANNEL_LOCK\<rparr>
      else if new_channel_holdoff p > 0 then p\<lparr>new_channel_holdoff := new_channel_holdoff p - 1\<rparr>
      else p\<lparr>ppm_decoded_channels := new_channel_count p, new_channel_count := 0\<rparr>)"

definition ppm_publish :: "'q hrt_env \<Rightarrow> ppm_decoder \<times> 'q hrt \<Rightarrow> ppm_decoder \<times> 'q hrt" where
  "ppm_publish E ps =
     (case ps of (p, s) \<Rightarrow>
        if next_channel p \<ge> PPM_MIN_CHANNELS then
          let (now, s1) = hrt_absolute_time E s
          in (p\<lparr>ppm_buffer := take (next_channel p) (ppm_temp_buffer p) @ drop (next_channel p) (ppm_buffer p),
                ppm_last_valid_decode := now\<rparr>, s1)
        else (p, s))"

definition ppm_start :: "'q hrt_env \<Rightarrow> u16 \<Rightarrow> ppm_decoder \<times> 'q hrt \<Rightarrow> ppm_decoder \<times> 'q hrt" where
  "ppm_start E count ps =
     (case (if next_channel (fst ps) \<noteq> ppm_decoded_channels (fst ps)
            then (ppm_settle (fst ps), snd ps) else ppm_publish E ps) of
        (p, s) \<Rightarrow> (p\<lparr>next_channel := 0, phase := ARM, last_edge := count\<rparr>, s))"

definition ppm_error :: "ppm_decoder \<Rightarrow> ppm_decoder" where
  "ppm_error p = p\<lparr>phase := UNSYNCH, ppm_decoded_channels := 0\<rparr>"

definition bad_pulse :: "u16 \<Rightarrow> bool" where
  "bad_pulse width \<longleftrightarrow> width < PPM_MIN_PULSE_WIDTH \<or> width > PPM_MAX_PULSE_WIDTH"

definition ppm_edge :: "u16 \<Rightarrow> u16 \<Rightarrow> ppm_decoder \<Rightarrow> ppm_decoder" where
  "ppm_edge width count p =
     (case phase p of
        UNSYNCH \<Rightarrow> p\<lparr>last_edge := count\<rparr>
      | ARM \<Rightarrow>
          if bad_pulse width then ppm_error p
          else p\<lparr>last_mark := last_edge p, ppm_frame_length := last_edge p - frame_start p,
                 frame_start := last_edge p, phase := ACTIVE, last_edge := count\<rparr>
      | INACTIVE \<Rightarrow>
          if bad_pulse width then ppm_error p else p\<lparr>phase := ACTIVE, last_edge := count\<rparr>
      | ACTIVE \<Rightarrow>
          let interval = count - last_mark p; p1 = p\<lparr>last_mark := count\<rparr>
          in if interval < PPM_MIN_CHANNEL_VALUE \<or> interval > PPM_MAX_CHANNEL_VALUE then ppm_error p1
             else let p2 = (if next_channel p1 < PPM_MAX_CHANNELS_hrt
                            then p1\<lparr>ppm_temp_buffer := (ppm_temp_buffer p1)[next_channel p1 := interval],
                                    next_channel := next_channel p1 + 1\<rparr>
                            else p1)
                  in p2\<lparr>phase := INACTIVE, last_edge := count\<rparr>)"

definition hrt_ppm_decode ::
    "'q hrt_env \<Rightarrow> bool \<Rightarrow> u16 \<Rightarrow> ppm_decoder \<times> 'q hrt \<Rightarrow> ppm_decoder \<times> 'q hrt" where
  "hrt_ppm_decode E ovf count ps =
     (if ovf then (ppm_error (fst ps), snd ps)
      else let width = count - last_edge (fst ps)
           in if width \<ge> PPM_MIN_START then ppm_start E count ps
              else (ppm_edge width count (fst ps), snd ps))"

section \<open>The interrupt handler\<close>

text \<open>The registers as the handler finds them: counter, status flags and captured count.\<close>

record isr_regs =
  isr_cnt :: u16
  sr_int_ppm :: bool
  sr_ovf_ppm :: bool
  sr_int_hrt :: bool
  rCCR_PPM :: u16

definition hrt_tim_isr ::
    "'q hrt_env \<Rightarrow> isr_regs \<Rightarrow> ppm_decoder \<times> 'q hrt \<Rightarrow> (ppm_decoder \<times> 'q hrt) option" where
  "hrt_tim_isr E r ps =
     (let ps1 = (fst ps, (snd ps)\<lparr>latency_actual := isr_cnt r\<rparr>);
          ps2 = (if sr_int_ppm r \<or> sr_ovf_ppm r then hrt_ppm_decode E (sr_ovf_ppm r) (rCCR_PPM r) ps1 else ps1)
      in if sr_int_hrt r then map_option (Pair (fst ps2)) (hrt_tick E (snd ps2)) else Some ps2)"

section \<open>Values stay in range\<close>

definition ppm_value :: "u16 \<Rightarrow> bool" where
  "ppm_value v \<longleftrightarrow> PPM_MIN_CHANNEL_VALUE \<le> v \<and> v \<le> PPM_MAX_CHANNEL_VALUE"

definition ppm_wf :: "ppm_decoder \<Rightarrow> bool" where
  "ppm_wf p \<longleftrightarrow> length (ppm_temp_buffer p) = PPM_MAX_CHANNELS_hrt \<and> length (ppm_buffer p) = PPM_MAX_CHANNELS_hrt \<and>
     next_channel p \<le> PPM_MAX_CHANNELS_hrt \<and> ppm_decoded_channels p \<le> PPM_MAX_CHANNELS_hrt \<and>
     new_channel_count p \<le> PPM_MAX_CHANNELS_hrt \<and> new_channel_holdoff p \<le> PPM_CHANNEL_LOCK \<and>
     (\<forall>i<next_channel p. ppm_value (ppm_temp_buffer p ! i)) \<and>
     (\<forall>i<length (ppm_buffer p). ppm_buffer p ! i = 0 \<or> ppm_value (ppm_buffer p ! i))"

lemma ppm_wf_settle: "ppm_wf p \<Longrightarrow> ppm_wf (ppm_settle p)"
  by (auto simp: ppm_wf_def ppm_settle_def)

lemma ppm_wf_publish: "ppm_wf p \<Longrightarrow> ppm_wf (fst (ppm_publish E (p, s)))"
  by (auto simp: ppm_wf_def ppm_publish_def case_prod_beta Let_def nth_append)

lemma ppm_wf_start: "ppm_wf (fst ps) \<Longrightarrow> ppm_wf (fst (ppm_start E count ps))"
  using ppm_wf_settle [of "fst ps"] ppm_wf_publish [of "fst ps" E "snd ps"]
  by (auto simp: ppm_start_def case_prod_beta ppm_wf_def)

lemma ppm_wf_edge: "ppm_wf p \<Longrightarrow> ppm_wf (ppm_edge width count p)"
  by (cases "phase p")
     (auto simp: ppm_wf_def ppm_edge_def ppm_error_def Let_def ppm_value_def nth_list_update less_Suc_eq)

lemma ppm_wf_decode: "ppm_wf (fst ps) \<Longrightarrow> ppm_wf (fst (hrt_ppm_decode E ovf count ps))"
  using ppm_wf_start [of ps E count] ppm_wf_edge [of "fst ps" "count - last_edge (fst ps)" count]
  by (auto simp: hrt_ppm_decode_def Let_def ppm_error_def ppm_wf_def)

section \<open>Frames\<close>

text \<open>
  The signal a receiver sends. From the mark \<open>m\<close> that starts a frame there is a pulse of width \<open>w\<close>, then
  for every channel value \<open>v\<close> the next mark at the distance \<open>v\<close> and again a pulse; a gap after the last
  pulse ends at the mark of the next frame.
\<close>

fun channel_edges :: "u16 \<Rightarrow> u16 \<Rightarrow> u16 list \<Rightarrow> u16 list" where
  "channel_edges w m [] = []"
| "channel_edges w m (v # vs) = (m + v) # (m + v + w) # channel_edges w (m + v) vs"

definition next_mark :: "u16 \<Rightarrow> u16 \<Rightarrow> u16 list \<Rightarrow> u16 \<Rightarrow> u16" where
  "next_mark w m vs gap = m + sum_list vs + w + gap"

definition frame_edges :: "u16 \<Rightarrow> u16 \<Rightarrow> u16 list \<Rightarrow> u16 \<Rightarrow> u16 list" where
  "frame_edges w m vs gap = (m + w) # channel_edges w m vs @ [next_mark w m vs gap]"

definition ppm_run :: "'q hrt_env \<Rightarrow> u16 list \<Rightarrow> ppm_decoder \<times> 'q hrt \<Rightarrow> ppm_decoder \<times> 'q hrt" where
  "ppm_run E cs ps = foldl (\<lambda>ps c. hrt_ppm_decode E False c ps) ps cs"

lemma ppm_run_simps [simp]:
  "ppm_run E [] ps = ps"
  "ppm_run E (c # cs) ps = ppm_run E cs (hrt_ppm_decode E False c ps)"
  "ppm_run E (cs @ ds) ps = ppm_run E ds (ppm_run E cs ps)"
  by (simp_all add: ppm_run_def)

definition good_pulse :: "u16 \<Rightarrow> bool" where
  "good_pulse w \<longleftrightarrow> PPM_MIN_PULSE_WIDTH \<le> w \<and> w \<le> PPM_MAX_PULSE_WIDTH"

lemma good_pulse_short: "good_pulse w \<Longrightarrow> \<not> bad_pulse w" "good_pulse w \<Longrightarrow> w < PPM_MIN_START"
  by (auto simp: good_pulse_def bad_pulse_def word_less_nat_alt word_le_nat_alt)

lemma decode_short:
  "c - last_edge p < PPM_MIN_START \<Longrightarrow> hrt_ppm_decode E False c (p, s) = (ppm_edge (c - last_edge p) c p, s)"
  unfolding hrt_ppm_decode_def Let_def by (auto simp del: PPM_MIN_START_def)

lemma channel_gap_short:
  assumes "good_pulse w" and "ppm_value v"
  shows "v - w < PPM_MIN_START"
proof -
  have "unat w \<le> 600" "800 \<le> unat v" "unat v \<le> 2200"
    using assms by (simp_all add: good_pulse_def ppm_value_def word_le_nat_alt)
  then show ?thesis
    by (simp add: word_less_nat_alt word_le_nat_alt unat_sub)
qed

lemma arm_edge:
  assumes "phase p = ARM" and "good_pulse w"
  shows "hrt_ppm_decode E False (last_edge p + w) (p, s) =
    (p\<lparr>last_mark := last_edge p, ppm_frame_length := last_edge p - frame_start p,
       frame_start := last_edge p, phase := ACTIVE, last_edge := last_edge p + w\<rparr>, s)"
  using assms good_pulse_short [of w] decode_short [of "last_edge p + w" p E s] by (simp add: ppm_edge_def)

lemma inactive_edge:
  assumes "phase p = INACTIVE" and "good_pulse w"
  shows "hrt_ppm_decode E False (last_edge p + w) (p, s) = (p\<lparr>phase := ACTIVE, last_edge := last_edge p + w\<rparr>, s)"
  using assms good_pulse_short [of w] decode_short [of "last_edge p + w" p E s] by (simp add: ppm_edge_def)

lemma active_edge:
  assumes "phase p = ACTIVE" and "good_pulse w" and "ppm_value v" and "last_edge p = last_mark p + w"
    and "next_channel p < PPM_MAX_CHANNELS_hrt"
  shows "hrt_ppm_decode E False (last_mark p + v) (p, s) =
    (p\<lparr>last_mark := last_mark p + v, ppm_temp_buffer := (ppm_temp_buffer p)[next_channel p := v],
       next_channel := next_channel p + 1, phase := INACTIVE, last_edge := last_mark p + v\<rparr>, s)"
  using assms channel_gap_short [OF assms(2,3)] decode_short [of "last_mark p + v" p E s]
  by (auto simp: ppm_edge_def ppm_value_def Let_def dest: leD)

lemma channel_edges_decoded:
  assumes "phase p = ACTIVE" and "good_pulse w" and "list_all ppm_value vs" and "last_edge p = last_mark p + w"
    and "next_channel p + length vs \<le> PPM_MAX_CHANNELS_hrt" and "length (ppm_temp_buffer p) = PPM_MAX_CHANNELS_hrt"
  shows "ppm_run E (channel_edges w (last_mark p) vs) (p, s) =
    (p\<lparr>last_mark := last_mark p + sum_list vs,
       ppm_temp_buffer := take (next_channel p) (ppm_temp_buffer p) @ vs @
                            drop (next_channel p + length vs) (ppm_temp_buffer p),
       next_channel := next_channel p + length vs, last_edge := last_mark p + sum_list vs + w\<rparr>, s)"
  using assms
proof (induction vs arbitrary: p)
  case Nil
  then show ?case by simp
next
  case (Cons v vs)
  define p1 where "p1 = p\<lparr>last_mark := last_mark p + v, ppm_temp_buffer := (ppm_temp_buffer p)[next_channel p := v],
     next_channel := next_channel p + 1, phase := INACTIVE, last_edge := last_mark p + v\<rparr>"
  define p2 where "p2 = p1\<lparr>phase := ACTIVE, last_edge := last_mark p + v + w\<rparr>"
  have e1: "hrt_ppm_decode E False (last_mark p + v) (p, s) = (p1, s)"
    using active_edge [of p w v E s] Cons(2-) by (simp add: p1_def)
  have e2: "hrt_ppm_decode E False (last_mark p + v + w) (p1, s) = (p2, s)"
    using inactive_edge [of p1 w E s] Cons(3) by (simp add: p1_def p2_def)
  have "ppm_run E (channel_edges w (last_mark p2) vs) (p2, s) =
    (p2\<lparr>last_mark := last_mark p2 + sum_list vs,
        ppm_temp_buffer := take (next_channel p2) (ppm_temp_buffer p2) @ vs @
                             drop (next_channel p2 + length vs) (ppm_temp_buffer p2),
        next_channel := next_channel p2 + length vs, last_edge := last_mark p2 + sum_list vs + w\<rparr>, s)"
    using Cons(2-) by (intro Cons(1)) (simp_all add: p1_def p2_def)
  then show ?case
    using e1 e2 Cons(2,6,7) by (simp add: p1_def p2_def take_Suc_conv_app_nth ac_simps)
qed

lemma frame_decoded:
  assumes "phase p = ARM" and "next_channel p = 0" and "ppm_wf p" and "good_pulse w" and "list_all ppm_value vs"
    and "length vs \<le> PPM_MAX_CHANNELS_hrt" and "gap \<ge> PPM_MIN_START"
  shows "\<exists>p1. ppm_run E (frame_edges w (last_edge p) vs gap) (p, s) = ppm_start E (next_mark w (last_edge p) vs gap) (p1, s) \<and>
           ppm_wf p1 \<and> next_channel p1 = length vs \<and> take (length vs) (ppm_temp_buffer p1) = vs \<and>
           ppm_buffer p1 = ppm_buffer p \<and> ppm_decoded_channels p1 = ppm_decoded_channels p \<and>
           new_channel_count p1 = new_channel_count p \<and> new_channel_holdoff p1 = new_channel_holdoff p"
proof -
  define m where "m = last_edge p"
  define p0 where "p0 = p\<lparr>last_mark := m, ppm_frame_length := m - frame_start p, frame_start := m, phase := ACTIVE,
     last_edge := m + w\<rparr>"
  define p1 where "p1 = p0\<lparr>last_mark := m + sum_list vs,
     ppm_temp_buffer := vs @ drop (length vs) (ppm_temp_buffer p0), next_channel := length vs,
     last_edge := m + sum_list vs + w\<rparr>"
  have len: "length (ppm_temp_buffer p) = PPM_MAX_CHANNELS_hrt"
    using assms(3) by (simp add: ppm_wf_def)
  have "ppm_run E ((m + w) # channel_edges w m vs) (p, s) = (p1, s)"
    using channel_edges_decoded [of p0 w vs E s] arm_edge [OF assms(1,4), of E s] assms len
    by (simp add: p0_def p1_def m_def)
  then have "ppm_run E (frame_edges w m vs gap) (p, s) = hrt_ppm_decode E False (next_mark w m vs gap) (p1, s)"
    by (simp add: frame_edges_def)
  moreover have "next_mark w m vs gap - last_edge p1 = gap"
    by (simp add: next_mark_def p1_def)
  ultimately have "ppm_run E (frame_edges w m vs gap) (p, s) = ppm_start E (next_mark w m vs gap) (p1, s)"
    using assms(7) by (simp add: hrt_ppm_decode_def)
  moreover have "ppm_wf p1"
    using assms(2,3,5,6) by (auto simp: p1_def p0_def ppm_wf_def nth_append list_all_length)
  ultimately show ?thesis
    by (intro exI [of _ p1]) (simp add: p1_def p0_def m_def)
qed

text \<open>How many more frames of \<open>n\<close> channels the decoder waits for before it accepts that number.\<close>

definition frames_to_lock :: "nat \<Rightarrow> ppm_decoder \<Rightarrow> nat" where
  "frames_to_lock n p =
     (if ppm_decoded_channels p = n then 0
      else if new_channel_count p = n then new_channel_holdoff p + 1 else PPM_CHANNEL_LOCK + 2)"

definition awaits_frame :: "ppm_decoder \<Rightarrow> bool" where
  "awaits_frame p \<longleftrightarrow> phase p = ARM \<and> next_channel p = 0 \<and> ppm_wf p"

definition frame_ok :: "nat \<Rightarrow> u16 list \<times> u16 \<Rightarrow> bool" where
  "frame_ok n f \<longleftrightarrow> length (fst f) = n \<and> list_all ppm_value (fst f) \<and> snd f \<ge> PPM_MIN_START"

lemma start_effect:
  assumes "ppm_wf p" and "next_channel p = n" and "PPM_MIN_CHANNELS \<le> n" and "ppm_start E c (p, s) = (p', s')"
  shows "awaits_frame p' \<and> last_edge p' = c \<and> frames_to_lock n p' \<le> frames_to_lock n p - 1 \<and>
         (frames_to_lock n p = 0 \<longrightarrow> take n (ppm_buffer p') = take n (ppm_temp_buffer p) \<and>
            ppm_decoded_channels p' = n \<and> ppm_last_valid_decode p' = fst (hrt_absolute_time E s))"
proof -
  have wf: "ppm_wf p'"
    using ppm_wf_start [of "(p, s)" E c] assms(1,4) by simp
  have len: "n \<le> length (ppm_temp_buffer p)" "new_channel_holdoff p \<le> 4"
    using assms(1,2) by (auto simp: ppm_wf_def)
  show ?thesis
  proof (cases "ppm_decoded_channels p = n")
    case True
    then show ?thesis
      using assms(2-4) wf len
      by (auto simp: ppm_start_def ppm_publish_def case_prod_beta Let_def awaits_frame_def frames_to_lock_def)
  next
    case False
    then show ?thesis
      using assms(2-4) wf len
      by (auto simp: ppm_start_def ppm_settle_def awaits_frame_def frames_to_lock_def split: if_splits)
  qed
qed

lemma frame_effect:
  assumes "awaits_frame p" and "good_pulse w" and "frame_ok n f" and "PPM_MIN_CHANNELS \<le> n" and "n \<le> PPM_MAX_CHANNELS_hrt"
    and "ppm_run E (frame_edges w (last_edge p) (fst f) (snd f)) (p, s) = (p', s')"
  shows "awaits_frame p' \<and> last_edge p' = next_mark w (last_edge p) (fst f) (snd f) \<and>
         frames_to_lock n p' \<le> frames_to_lock n p - 1 \<and>
         (frames_to_lock n p = 0 \<longrightarrow> take n (ppm_buffer p') = fst f \<and> ppm_decoded_channels p' = n \<and>
            ppm_last_valid_decode p' = fst (hrt_absolute_time E s))"
proof -
  obtain p1 where p1: "ppm_start E (next_mark w (last_edge p) (fst f) (snd f)) (p1, s) = (p', s')" "ppm_wf p1"
      "next_channel p1 = n" "take n (ppm_temp_buffer p1) = fst f" "frames_to_lock n p1 = frames_to_lock n p"
    using frame_decoded [of p w "fst f" "snd f" E s] assms by (auto simp: awaits_frame_def frame_ok_def frames_to_lock_def)
  show ?thesis
    using start_effect [OF p1(2,3) assms(4) p1(1)] p1(4,5) by simp
qed

text \<open>The signal of a sequence of frames.\<close>

fun ppm_signal :: "u16 \<Rightarrow> u16 \<Rightarrow> (u16 list \<times> u16) list \<Rightarrow> u16 list" where
  "ppm_signal w m [] = []"
| "ppm_signal w m (f # fs) = frame_edges w m (fst f) (snd f) @ ppm_signal w (next_mark w m (fst f) (snd f)) fs"

lemma signal_locks:
  assumes "awaits_frame p" and "good_pulse w" and "list_all (frame_ok n) fs" and "PPM_MIN_CHANNELS \<le> n" and "n \<le> PPM_MAX_CHANNELS_hrt"
    and "ppm_run E (ppm_signal w (last_edge p) fs) (p, s) = (p', s')"
  shows "awaits_frame p' \<and> frames_to_lock n p' \<le> frames_to_lock n p - length fs \<and>
         (\<forall>gs. ppm_signal w (last_edge p) (fs @ gs) = ppm_signal w (last_edge p) fs @ ppm_signal w (last_edge p') gs)"
  using assms
proof (induction fs arbitrary: p s)
  case (Cons f fs)
  obtain p1 s1 where r: "ppm_run E (frame_edges w (last_edge p) (fst f) (snd f)) (p, s) = (p1, s1)"
    by fastforce
  note e = frame_effect [OF Cons(2,3) _ Cons(5,6) r]
  show ?case
    using e Cons(1) [of p1 s1] Cons(3-) r by fastforce
qed simp

section \<open>Properties\<close>

text \<open>
  C17. A receiver's signal is decoded exactly. Frames of the same number of channels, between 5 and 20,
  with values between 800 and 2200 and a gap of at least 2300, are sent to a decoder that has seen a
  gap, whatever it expected before; after six of them, the next frame's values are in the buffer as
  sent, with the number of channels and the time of the decoding.
\<close>

theorem ppm_signal_decoded:
  assumes "awaits_frame p" and "good_pulse w" and "PPM_MIN_CHANNELS \<le> n" and "n \<le> PPM_MAX_CHANNELS_hrt"
    and "list_all (frame_ok n) (fs @ [f])" and "length fs \<ge> 6"
    and "ppm_run E (ppm_signal w (last_edge p) (fs @ [f])) (p, s) = (p', s')"
  shows "take n (ppm_buffer p') = fst f \<and> ppm_decoded_channels p' = n \<and> awaits_frame p' \<and>
         (\<exists>s0. ppm_last_valid_decode p' = fst (hrt_absolute_time E s0))"
proof -
  obtain p1 s1 where r: "ppm_run E (ppm_signal w (last_edge p) fs) (p, s) = (p1, s1)"
    by fastforce
  have ok: "list_all (frame_ok n) fs" "frame_ok n f"
    using assms(5) by simp_all
  note l = signal_locks [OF assms(1,2) ok(1) assms(3,4) r]
  have "frames_to_lock n p \<le> 6"
    using assms(1) by (auto simp: awaits_frame_def ppm_wf_def frames_to_lock_def)
  then have "frames_to_lock n p1 = 0"
    using l assms(6) by simp
  moreover have "ppm_run E (frame_edges w (last_edge p1) (fst f) (snd f)) (p1, s1) = (p', s')"
    using assms(7) l r by simp
  ultimately show ?thesis
    using frame_effect [of p1 w n f E s1 p' s'] l ok(2) assms(2,3,4) by auto
qed

definition demo_values :: "u16 list" where
  "demo_values = [1000, 1100, 1500, 1900, 2000]"

lemma demo_receiver:
  "awaits_frame (ppm_decoder_init\<lparr>phase := ARM\<rparr>)" "good_pulse 300" "frame_ok 5 (demo_values, 5000)"
  by (simp_all add: awaits_frame_def ppm_wf_def ppm_decoder_init_def good_pulse_def frame_ok_def demo_values_def ppm_value_def)

theorem ppm_signal_decoded_witness:
  "take 5 (ppm_buffer (fst (ppm_run demo_timer
     (ppm_signal 300 0 (replicate 6 (demo_values, 5000) @ [(demo_values, 5000)]))
     (ppm_decoder_init\<lparr>phase := ARM\<rparr>, demo_hrt)))) = demo_values"
proof -
  have e: "last_edge (ppm_decoder_init\<lparr>phase := ARM\<rparr>) = 0"
    by (simp add: ppm_decoder_init_def)
  have "list_all (frame_ok 5) (replicate 6 (demo_values, 5000) @ [(demo_values, 5000)])"
    using demo_receiver(3) by (simp add: list_all_iff)
  then show ?thesis
    using ppm_signal_decoded [OF demo_receiver(1,2), of 5 "replicate 6 (demo_values, 5000)" "(demo_values, 5000)" demo_timer demo_hrt,
        OF _ _ _ _ prod.collapse [symmetric]]
    by (simp add: e)
qed

text \<open>A run of the interrupt handler on the registers it finds at each interrupt.\<close>

fun isr_run :: "'q hrt_env \<Rightarrow> isr_regs list \<Rightarrow> ppm_decoder \<times> 'q hrt \<Rightarrow> (ppm_decoder \<times> 'q hrt) option" where
  "isr_run E [] ps = Some ps"
| "isr_run E (r # rs) ps = Option.bind (hrt_tim_isr E r ps) (isr_run E rs)"

lemma ppm_wf_isr: "ppm_wf (fst ps) \<Longrightarrow> hrt_tim_isr E r ps = Some ps' \<Longrightarrow> ppm_wf (fst ps')"
  using ppm_wf_decode [of "(fst ps, (snd ps)\<lparr>latency_actual := isr_cnt r\<rparr>)" E "sr_ovf_ppm r" "rCCR_PPM r"]
  by (auto simp: hrt_tim_isr_def Let_def split: if_splits)

lemma ppm_wf_isr_run: "ppm_wf (fst ps) \<Longrightarrow> isr_run E rs ps = Some ps' \<Longrightarrow> ppm_wf (fst ps')"
  by (induction rs arbitrary: ps) (auto simp: bind_eq_Some_conv intro: ppm_wf_isr)

text \<open>
  C18. Whatever edges and overflows the interrupt handler sees, the decoder stays inside its two
  buffers, never reports more than 20 channels, and every published value is a valid pulse length or
  still the initial zero.
\<close>

theorem ppm_values_in_range:
  assumes "isr_run E rs (ppm_decoder_init, s) = Some (p, s')"
  shows "next_channel p \<le> length (ppm_temp_buffer p) \<and> ppm_decoded_channels p \<le> length (ppm_buffer p) \<and>
         (\<forall>v\<in>set (ppm_buffer p). v = 0 \<or> 800 \<le> v \<and> v \<le> 2200)"
proof -
  have "ppm_wf ppm_decoder_init"
    by (simp add: ppm_wf_def ppm_decoder_init_def)
  then have "ppm_wf p"
    using ppm_wf_isr_run [of "(ppm_decoder_init, s)" E rs "(p, s')"] assms by simp
  then show ?thesis
    by (auto simp: ppm_wf_def ppm_value_def in_set_conv_nth)
qed

theorem ppm_values_in_range_witness:
  "\<exists>p s'. isr_run demo_timer
     [\<lparr>isr_cnt = 0, sr_int_ppm = True, sr_ovf_ppm = False, sr_int_hrt = False, rCCR_PPM = 5000\<rparr>,
      \<lparr>isr_cnt = 0, sr_int_ppm = True, sr_ovf_ppm = True, sr_int_hrt = False, rCCR_PPM = 5300\<rparr>]
     (ppm_decoder_init, demo_hrt) = Some (p, s') \<and> next_channel p \<le> 20 \<and> (\<forall>v\<in>set (ppm_buffer p). v = 0 \<or> 800 \<le> v \<and> v \<le> 2200)"
  (is "\<exists>p s'. isr_run _ ?rs _ = _ \<and> _")
proof -
  obtain p s' where r: "isr_run demo_timer ?rs (ppm_decoder_init, demo_hrt) = Some (p, s')"
    by (simp add: hrt_tim_isr_def Let_def) (metis surj_pair)
  moreover have "length (ppm_temp_buffer p) = 20"
    using ppm_wf_isr_run [of "(ppm_decoder_init, demo_hrt)" demo_timer ?rs "(p, s')"] r
    by (simp add: ppm_wf_def ppm_decoder_init_def)
  ultimately show ?thesis
    using ppm_values_in_range [OF r] by auto
qed

text \<open>The edges after \<open>e\<close> up to the next gap.\<close>

fun no_gap :: "u16 \<Rightarrow> u16 list \<Rightarrow> bool" where
  "no_gap e [] = True"
| "no_gap e (c # cs) \<longleftrightarrow> c - e < PPM_MIN_START \<and> no_gap c cs"

lemma unsynch_run:
  "phase p = UNSYNCH \<Longrightarrow> no_gap (last_edge p) cs \<Longrightarrow> \<exists>e. ppm_run E cs (p, s) = (p\<lparr>last_edge := e\<rparr>, s)"
proof (induction cs arbitrary: p)
  case Nil
  then show ?case by (intro exI [of _ "last_edge p"]) simp
next
  case (Cons c cs)
  then have "hrt_ppm_decode E False c (p, s) = (p\<lparr>last_edge := c\<rparr>, s)"
    using decode_short [of c p E s] by (simp add: ppm_edge_def)
  then show ?case using Cons(1) [of "p\<lparr>last_edge := c\<rparr>"] Cons(2,3) by simp
qed

text \<open>
  C19. A garbled frame is dropped: after a missed edge, or a pulse or a channel value of a wrong length,
  the decoder ignores the edges up to the next gap and publishes nothing at that gap.
\<close>

theorem garbled_frame_dropped:
  assumes "ovf \<or> (phase p = ARM \<or> phase p = INACTIVE) \<and> bad_pulse (c - last_edge p) \<or>
             phase p = ACTIVE \<and> \<not> ppm_value (c - last_mark p)"
    and "ovf \<or> c - last_edge p < PPM_MIN_START"
    and "no_gap (last_edge p) cs"
    and "ppm_run E cs (hrt_ppm_decode E ovf c (p, s)) = (p1, s1)" and "hrt_ppm_decode E False g (p1, s1) = (p2, s2)"
  shows "phase p1 = UNSYNCH \<and> ppm_buffer p2 = ppm_buffer p \<and> ppm_last_valid_decode p2 = ppm_last_valid_decode p"
proof -
  obtain q where q: "hrt_ppm_decode E ovf c (p, s) = (q, s)" "phase q = UNSYNCH" "ppm_decoded_channels q = 0"
      "last_edge q = last_edge p" "ppm_buffer q = ppm_buffer p" "ppm_last_valid_decode q = ppm_last_valid_decode p"
  proof (cases ovf)
    case True
    then show ?thesis using that by (simp add: hrt_ppm_decode_def ppm_error_def)
  next
    case False
    then show ?thesis
      using assms(1,2) that decode_short [of c p E s]
      by (auto simp: ppm_edge_def ppm_error_def ppm_value_def Let_def not_le)
  qed
  obtain e where "p1 = q\<lparr>last_edge := e\<rparr>" "s1 = s"
    using unsynch_run [OF q(2), of cs E s] q(1,4) assms(3,4) by auto
  then show ?thesis
    using assms(5) q
    by (auto simp: hrt_ppm_decode_def Let_def ppm_start_def ppm_settle_def ppm_publish_def ppm_edge_def split: if_splits)
qed

theorem garbled_frame_dropped_witness:
  "ppm_buffer (fst (hrt_ppm_decode demo_timer False 9000 (hrt_ppm_decode demo_timer True 0 (ppm_decoder_init, demo_hrt)))) =
   ppm_buffer ppm_decoder_init"
proof -
  let ?q = "hrt_ppm_decode demo_timer True 0 (ppm_decoder_init, demo_hrt)"
  have "ppm_run demo_timer [] ?q = (fst ?q, snd ?q)"
    by simp
  then show ?thesis
    using garbled_frame_dropped [of True ppm_decoder_init 0 "[]" demo_timer demo_hrt "fst ?q" "snd ?q" 9000
        "fst (hrt_ppm_decode demo_timer False 9000 ?q)" "snd (hrt_ppm_decode demo_timer False 9000 ?q)"]
    by simp
qed

text \<open>
  The error path does not record the edge that caused it, so the width of the next edge is measured from
  the edge before: two short distances can add up to a gap, and the decoder starts a frame in the middle
  of one.
\<close>

lemma stale_edge_false_start:
  assumes "phase p = INACTIVE" and "last_edge p = 0" and "hrt_ppm_decode E False 700 (p, s) = (p1, s)"
  shows "phase p1 = UNSYNCH \<and> phase (fst (hrt_ppm_decode E False 2300 (p1, s))) = ARM"
proof -
  have "p1 = ppm_error p"
    using assms decode_short [of 700 p E s] by (simp add: ppm_edge_def bad_pulse_def)
  then show ?thesis
    using assms(2) by (simp add: ppm_error_def hrt_ppm_decode_def ppm_start_def case_prod_beta)
qed

end
