(* ===== verification/Work_Queue.thy ===== *)
theory Work_Queue
  imports Queues "HOL-Library.Monad_Syntax"
begin

text \<open>
  The work queues of \<^verbatim>\<open>src/platforms/common/work_queue\<close>: the high-resolution queue (\<^verbatim>\<open>hrt_queue.c\<close>,
  \<^verbatim>\<open>hrt_work_cancel.c\<close>, \<^verbatim>\<open>hrt_thread.c\<close>) and the tick-based queues (\<^verbatim>\<open>work_queue.c\<close>, \<^verbatim>\<open>work_cancel.c\<close>,
  \<^verbatim>\<open>work_thread.c\<close>). Work items are linked into the doubly linked queue of theory \<^verbatim>\<open>Queues\<close>; a worker thread
  runs the items whose delay has passed and then sleeps until the next one is due.

  The state is that of one queue with its items. The clock is an input, read once per call of
  \<^verbatim>\<open>hrt_absolute_time\<close>, and so are the workers, functions of the whole state: a worker may queue and
  cancel work. Wake-up signals and sleeps are outputs.
\<close>

section \<open>Data\<close>

record work_s =
  worker :: "nat option"
  warg :: nat
  qtime :: u64
  delay :: u32

record wqueue =
  dq :: dq_store
  works :: "nat \<Rightarrow> work_s"
  wq_pid :: int
  clock_reads :: nat
  wakeups :: nat
  performed :: "nat list"

record work_env =
  now_us :: "nat \<Rightarrow> u64"
  run_worker :: "nat \<Rightarrow> nat \<Rightarrow> wqueue \<Rightarrow> wqueue option"
  USEC_PER_TICK :: u64

definition CONFIG_SCHED_WORKPERIOD :: u32 where [simp]: "CONFIG_SCHED_WORKPERIOD = 50000"

definition read_clock :: "work_env \<Rightarrow> wqueue \<Rightarrow> u64 \<times> wqueue" where
  "read_clock E s = (now_us E (clock_reads s), s\<lparr>clock_reads := clock_reads s + 1\<rparr>)"

definition set_work :: "nat \<Rightarrow> (work_s \<Rightarrow> work_s) \<Rightarrow> wqueue \<Rightarrow> wqueue" where
  "set_work w f s = s\<lparr>works := (works s)(w := f (works s w))\<rparr>"

section \<open>The high-resolution queue\<close>

text \<open>\<open>None\<close> is a null pointer followed by \<^verbatim>\<open>dq_addlast\<close>.\<close>

definition hrt_work_queue ::
    "work_env \<Rightarrow> int \<Rightarrow> nat \<Rightarrow> nat option \<Rightarrow> nat \<Rightarrow> u32 \<Rightarrow> wqueue \<Rightarrow> (int \<times> wqueue) option" where
  "hrt_work_queue E pid w wk a d s =
     do {
       let s1 = set_work w (\<lambda>x. x\<lparr>worker := wk, warg := a, delay := d\<rparr>) s;
       let (now, s2) = read_clock E s1;
       let s3 = set_work w (\<lambda>x. x\<lparr>qtime := now\<rparr>) s2;
       q \<leftarrow> dq_addlast w (dq s3);
       Some (0, s3\<lparr>dq := q, wakeups := (if pid \<noteq> wq_pid s3 then wakeups s3 + 1 else wakeups s3)\<rparr>)
     }"

definition hrt_work_cancel :: "nat \<Rightarrow> wqueue \<Rightarrow> wqueue" where
  "hrt_work_cancel w s =
     (if worker (works s w) \<noteq> None
      then set_work w (\<lambda>x. x\<lparr>worker := None\<rparr>) (s\<lparr>dq := dq_rem w (dq s)\<rparr>) else s)"

section \<open>Processing\<close>

text \<open>
  Both worker threads have the same loop. It differs in how the time since an item was queued and the
  time left are computed: those are the two functions of a \<open>timing\<close>.
\<close>

record timing =
  t_elapsed :: "u64 \<Rightarrow> work_s \<Rightarrow> u64"
  t_remaining :: "u64 \<Rightarrow> work_s \<Rightarrow> u32"

definition hrt_timing :: timing where
  "hrt_timing =
     \<lparr>t_elapsed = (\<lambda>now x. now - qtime x),
      t_remaining = (\<lambda>elapsed x. ucast (ucast (delay x) - elapsed))\<rparr>"

definition perform :: "work_env \<Rightarrow> nat \<Rightarrow> wqueue \<Rightarrow> wqueue option" where
  "perform E w s =
     (let wk = worker (works s w); a = warg (works s w);
          s1 = set_work w (\<lambda>x. x\<lparr>worker := None\<rparr>) (s\<lparr>dq := dq_rem w (dq s), performed := performed s @ [w]\<rparr>)
      in case wk of None \<Rightarrow> Some s1 | Some f \<Rightarrow> run_worker E f a s1)"

partial_function (option) process_loop ::
    "work_env \<Rightarrow> timing \<Rightarrow> u32 \<Rightarrow> nat option \<Rightarrow> wqueue \<Rightarrow> (u32 \<times> wqueue) option" where
  "process_loop E t nxt work s =
     (case work of
        None \<Rightarrow> Some (nxt, s)
      | Some w \<Rightarrow>
          let (now, s1) = read_clock E s; elapsed = t_elapsed t now (works s1 w)
          in if elapsed \<ge> ucast (delay (works s1 w))
             then Option.bind (perform E w s1) (\<lambda>s2. process_loop E t nxt (dq_head (dq s2)) s2)
             else let remaining = t_remaining t elapsed (works s1 w)
                  in process_loop E t (if remaining < nxt then remaining else nxt) (dq_flink (dq s1) w) s1)"

text \<open>The result is the time the thread then sleeps, in microseconds.\<close>

definition hrt_work_process :: "work_env \<Rightarrow> wqueue \<Rightarrow> (u32 \<times> wqueue) option" where
  "hrt_work_process E s = process_loop E hrt_timing 1000000 (dq_head (dq s)) s"

section \<open>The tick-based queues\<close>

definition USEC2TICK :: "work_env \<Rightarrow> u64 \<Rightarrow> u64" where
  "USEC2TICK E x = (x + USEC_PER_TICK E div 2) div USEC_PER_TICK E"

definition clock_systimer :: "u64 \<Rightarrow> u32" where
  "clock_systimer now = ucast (0x00000000ffffffff AND now)"

definition work_timing :: "work_env \<Rightarrow> timing" where
  "work_timing E =
     \<lparr>t_elapsed = (\<lambda>now x. USEC2TICK E (ucast (clock_systimer now) - qtime x)),
      t_remaining = (\<lambda>elapsed x. ucast (USEC_PER_TICK E * (ucast (delay x) - elapsed)))\<rparr>"

definition work_queue ::
    "work_env \<Rightarrow> nat \<Rightarrow> nat option \<Rightarrow> nat \<Rightarrow> u32 \<Rightarrow> wqueue \<Rightarrow> (int \<times> wqueue) option" where
  "work_queue E w wk a d s =
     do {
       let s1 = set_work w (\<lambda>x. x\<lparr>worker := wk, warg := a, delay := d\<rparr>) s;
       let (now, s2) = read_clock E s1;
       let s3 = set_work w (\<lambda>x. x\<lparr>qtime := ucast (clock_systimer now)\<rparr>) s2;
       q \<leftarrow> dq_addlast w (dq s3);
       Some (0, s3\<lparr>dq := q, wakeups := wakeups s3 + 1\<rparr>)
     }"

definition work_cancel :: "nat \<Rightarrow> wqueue \<Rightarrow> int \<times> wqueue" where
  "work_cancel w s = (0, hrt_work_cancel w s)"

definition work_process :: "work_env \<Rightarrow> wqueue \<Rightarrow> (u32 \<times> wqueue) option" where
  "work_process E s = process_loop E (work_timing E) CONFIG_SCHED_WORKPERIOD (dq_head (dq s)) s"

section \<open>Invariant\<close>

text \<open>The queue holds the items \<open>xs\<close>, and an item is queued exactly when it has a worker.\<close>

definition wq_holds :: "wqueue \<Rightarrow> nat list \<Rightarrow> bool" where
  "wq_holds s xs \<longleftrightarrow> dq_holds (dq s) xs \<and> (\<forall>w. w \<in> set xs \<longleftrightarrow> worker (works s w) \<noteq> None)"

lemma wq_holds_unique: "wq_holds s xs \<Longrightarrow> wq_holds s ys \<Longrightarrow> xs = ys"
  using chain_unique by (auto simp: wq_holds_def dq_holds_def)

lemma wq_upd [simp]:
  "wq_holds (s\<lparr>clock_reads := n\<rparr>) xs = wq_holds s xs"
  "wq_holds (s\<lparr>wakeups := k\<rparr>) xs = wq_holds s xs"
  "wq_holds (s\<lparr>performed := l\<rparr>) xs = wq_holds s xs"
  by (simp_all add: wq_holds_def)

lemma set_work_frame [simp]:
  "dq (set_work w f s) = dq s"
  "works (set_work w f s) = (works s)(w := f (works s w))"
  "clock_reads (set_work w f s) = clock_reads s"
  "wq_pid (set_work w f s) = wq_pid s"
  "performed (set_work w f s) = performed s"
  "wakeups (set_work w f s) = wakeups s"
  by (simp_all add: set_work_def)

text \<open>Queueing an item appends it, and removing one drops it.\<close>

lemma enqueue_holds:
  assumes "wq_holds s xs" and "w \<notin> set xs"
  shows "\<exists>s'. hrt_work_queue E pid w (Some f) a d s = Some (0, s') \<and> wq_holds s' (xs @ [w]) \<and>
           works s' = (works s)(w := \<lparr>worker = Some f, warg = a, qtime = now_us E (clock_reads s), delay = d\<rparr>) \<and>
           wakeups s' = (if pid \<noteq> wq_pid s then wakeups s + 1 else wakeups s)"
proof -
  obtain q where "dq_addlast w (dq s) = Some q" "dq_holds q (xs @ [w])"
    using dq_addlast_holds [of "dq s" xs w] assms unfolding wq_holds_def by blast
  then show ?thesis
    using assms by (auto simp: hrt_work_queue_def read_clock_def wq_holds_def fun_eq_iff)
qed

lemma cancel_holds:
  assumes "wq_holds s xs"
  shows "wq_holds (hrt_work_cancel w s) (remove1 w xs)"
proof (cases "w \<in> set xs")
  case True
  then obtain as bs where xs: "xs = as @ w # bs" "w \<notin> set as"
    by (metis split_list_first)
  then have "dq_holds (dq_rem w (dq s)) (as @ bs)" "w \<notin> set bs"
    using assms dq_rem_holds [of "dq s" as w bs] by (auto simp: wq_holds_def dq_holds_def)
  moreover have "worker (works s w) \<noteq> None"
    using assms True unfolding wq_holds_def by blast
  ultimately show ?thesis
    using assms True xs by (auto simp: wq_holds_def hrt_work_cancel_def remove1_append)
next
  case False
  then show ?thesis
    using assms by (auto simp: wq_holds_def hrt_work_cancel_def remove1_idem)
qed

section \<open>The processing loop ends\<close>

text \<open>Workers that leave the queue alone.\<close>

definition quiet_workers :: "work_env \<Rightarrow> bool" where
  "quiet_workers E \<longleftrightarrow> (\<forall>f a s. run_worker E f a s = Some s)"

lemma perform_holds:
  assumes "wq_holds s xs" and "quiet_workers E" and "w \<in> set xs"
  shows "\<exists>s'. perform E w s = Some s' \<and> wq_holds s' (remove1 w xs) \<and> performed s' = performed s @ [w] \<and>
           clock_reads s' = clock_reads s \<and> (\<forall>v. v \<noteq> w \<longrightarrow> works s' v = works s v) \<and>
           qtime (works s' w) = qtime (works s w) \<and> delay (works s' w) = delay (works s w)"
proof -
  have wk: "worker (works s w) \<noteq> None"
    using assms(1,3) unfolding wq_holds_def by blast
  define s' where "s' = (hrt_work_cancel w s)\<lparr>performed := performed s @ [w]\<rparr>"
  have "perform E w s = Some s'"
    using assms(2) wk by (auto simp: perform_def quiet_workers_def s'_def hrt_work_cancel_def set_work_def)
  moreover have "wq_holds s' (remove1 w xs)"
    using cancel_holds [OF assms(1)] by (simp add: s'_def)
  ultimately show ?thesis
    using wk by (auto simp: s'_def hrt_work_cancel_def)
qed

text \<open>
  What the loop establishes: the items \<open>dn\<close> have been run, each after its delay had passed at some read
  of the clock; the others are left in the queue in their order, each was not due at some read of the
  clock, and the time to sleep is not longer than what that item then had left.
\<close>

definition elapsed_at :: "work_env \<Rightarrow> timing \<Rightarrow> wqueue \<Rightarrow> nat \<Rightarrow> nat \<Rightarrow> u64" where
  "elapsed_at E t s i w = t_elapsed t (now_us E i) (works s w)"

definition waits :: "work_env \<Rightarrow> timing \<Rightarrow> wqueue \<Rightarrow> nat \<Rightarrow> nat \<Rightarrow> u32 \<Rightarrow> bool" where
  "waits E t s i w n \<longleftrightarrow> elapsed_at E t s i w < ucast (delay (works s w)) \<and>
     n \<le> t_remaining t (elapsed_at E t s i w) (works s w)"

definition processed ::
    "work_env \<Rightarrow> timing \<Rightarrow> wqueue \<Rightarrow> nat list \<Rightarrow> u32 \<Rightarrow> wqueue \<Rightarrow> nat list \<Rightarrow> bool" where
  "processed E t s xs n s' dn \<longleftrightarrow>
     performed s' = performed s @ dn \<and> distinct dn \<and> set dn \<subseteq> set xs \<and>
     wq_holds s' (filter (\<lambda>w. w \<notin> set dn) xs) \<and>
     (\<forall>w\<in>set dn. \<exists>i. elapsed_at E t s i w \<ge> ucast (delay (works s w))) \<and>
     (\<forall>w\<in>set xs - set dn. \<exists>i<clock_reads s'. waits E t s i w n)"

lemma waits_mono: "waits E t s i w n \<Longrightarrow> m \<le> n \<Longrightarrow> waits E t s i w m"
  by (auto simp: waits_def)

definition next_of :: "nat list \<Rightarrow> nat option" where
  "next_of xs = (case xs of [] \<Rightarrow> None | x # _ \<Rightarrow> Some x)"

lemma processed_perform:
  assumes "processed E t s2 (pre @ rest) n s' dn" and "w \<notin> set (pre @ rest)"
    and "performed s2 = performed s @ [w]" and "\<forall>v. v \<noteq> w \<longrightarrow> works s2 v = works s v"
    and "elapsed_at E t s i w \<ge> ucast (delay (works s w))"
  shows "processed E t s (pre @ w # rest) n s' (w # dn)"
proof -
  have same: "elapsed_at E t s2 j v = elapsed_at E t s j v" "works s2 v = works s v" if "v \<in> set (pre @ rest)" for j v
    using that assms(2,4) by (auto simp: elapsed_at_def)
  have dn: "set dn \<subseteq> set (pre @ rest)" "w \<notin> set dn"
    using assms(1,2) by (auto simp: processed_def)
  have "\<forall>v\<in>set dn. \<exists>i. elapsed_at E t s i v \<ge> ucast (delay (works s v))"
    using assms(1) dn(1) same unfolding processed_def by (metis subsetD)
  moreover have "\<forall>v\<in>set (pre @ w # rest) - set (w # dn). \<exists>i<clock_reads s'. waits E t s i v n"
  proof
    fix v assume "v \<in> set (pre @ w # rest) - set (w # dn)"
    then have "v \<in> set (pre @ rest)" "v \<in> set (pre @ rest) - set dn"
      by auto
    then show "\<exists>i<clock_reads s'. waits E t s i v n"
      using assms(1) same unfolding processed_def waits_def by metis
  qed
  moreover have "filter (\<lambda>v. v \<notin> set (w # dn)) (pre @ w # rest) = filter (\<lambda>v. v \<notin> set dn) (pre @ rest)"
  proof -
    have "filter (\<lambda>v. v \<notin> set (w # dn)) xs = filter (\<lambda>v. v \<notin> set dn) xs" if "w \<notin> set xs" for xs
      using that by (intro filter_cong) auto
    then show ?thesis using assms(2) by simp
  qed
  ultimately show ?thesis
    using assms(1,3,5) dn unfolding processed_def by auto
qed

lemma process_loop_ends:
  assumes "quiet_workers E" and "wq_holds s (pre @ suf)"
    and "\<forall>w\<in>set pre. \<exists>i<clock_reads s. waits E t s i w nxt"
  shows "\<exists>n s' dn. process_loop E t nxt (next_of suf) s = Some (n, s') \<and> n \<le> nxt \<and> clock_reads s \<le> clock_reads s' \<and>
           processed E t s (pre @ suf) n s' dn"
  using assms(2,3)
proof (induction "length (pre @ suf) * length (pre @ suf) + length suf" arbitrary: pre suf s nxt rule: less_induct)
  case less
  show ?case
  proof (cases suf)
    case Nil
    then show ?thesis
      using less(2,3)
      by (intro exI [of _ nxt] exI [of _ s] exI [of _ "[]"], subst process_loop.simps)
         (auto simp: processed_def next_of_def)
  next
    case (Cons w rest)
    define s1 where "s1 = s\<lparr>clock_reads := clock_reads s + 1\<rparr>"
    define i where "i = clock_reads s"
    have h1: "wq_holds s1 (pre @ w # rest)" and w1: "works s1 = works s" "performed s1 = performed s"
      using less(2) Cons by (simp_all add: s1_def)
    have step: "process_loop E t nxt (next_of suf) s =
       (if elapsed_at E t s i w \<ge> ucast (delay (works s w))
        then Option.bind (perform E w s1) (\<lambda>s2. process_loop E t nxt (dq_head (dq s2)) s2)
        else process_loop E t (if t_remaining t (elapsed_at E t s i w) (works s w) < nxt
               then t_remaining t (elapsed_at E t s i w) (works s w) else nxt) (next_of rest) s1)"
      using Cons h1 dq_flink_holds [of "dq s" pre w rest] less(2)
      by (subst process_loop.simps)
         (simp add: next_of_def read_clock_def elapsed_at_def Let_def s1_def i_def wq_holds_def)
    show ?thesis
    proof (cases "elapsed_at E t s i w \<ge> ucast (delay (works s w))")
      case True
      obtain s2 where s2: "perform E w s1 = Some s2" "wq_holds s2 (remove1 w (pre @ w # rest))"
          "performed s2 = performed s1 @ [w]" "clock_reads s2 = clock_reads s1" "\<forall>v. v \<noteq> w \<longrightarrow> works s2 v = works s1 v"
        using perform_holds [OF h1 assms(1), of w] by auto
      have fresh: "w \<notin> set (pre @ rest)" and h2: "wq_holds s2 ([] @ pre @ rest)"
        using s2(2) h1 by (auto simp: wq_holds_def dq_holds_def remove1_append)
      have "length (pre @ rest) * length (pre @ rest) + length (pre @ rest) < length (pre @ suf) * length (pre @ suf) + length suf"
        by (simp add: Cons algebra_simps)
      then obtain n s' dn where r: "process_loop E t nxt (next_of (pre @ rest)) s2 = Some (n, s')" "n \<le> nxt"
          "clock_reads s2 \<le> clock_reads s'" "processed E t s2 (pre @ rest) n s' dn"
        using less(1) [of "[]" "pre @ rest" s2 nxt] h2 by auto
      have "process_loop E t nxt (next_of suf) s = Some (n, s')"
        using step True s2(1) r(1) dq_head_holds [of "dq s2" "pre @ rest"] h2 by (simp add: wq_holds_def next_of_def)
      moreover have "processed E t s (pre @ suf) n s' (w # dn)"
        using processed_perform [OF r(4) fresh _ _ True] s2(3,5) w1 Cons by simp
      ultimately show ?thesis
        using r(2,3) s2(4) by (auto simp: s1_def)
    next
      case False
      define m where "m = (if t_remaining t (elapsed_at E t s i w) (works s w) < nxt
         then t_remaining t (elapsed_at E t s i w) (works s w) else nxt)"
      have m: "m \<le> nxt" "waits E t s i w m"
        using False by (auto simp: m_def waits_def)
      have same: "waits E t s1 = waits E t s" "processed E t s1 = processed E t s"
        by (intro ext, simp add: waits_def processed_def elapsed_at_def s1_def)+
      have "\<forall>v\<in>set (pre @ [w]). \<exists>j<clock_reads s1. waits E t s1 j v m"
      proof
        fix v assume "v \<in> set (pre @ [w])"
        then consider "v \<in> set pre" | "v = w" by auto
        then show "\<exists>j<clock_reads s1. waits E t s1 j v m"
        proof cases
          case 1
          then obtain j where "j < clock_reads s" "waits E t s j v nxt" using less(3) by blast
          then show ?thesis using waits_mono [OF _ m(1)] same(1) by (intro exI [of _ j]) (simp add: s1_def)
        next
          case 2
          then show ?thesis using m(2) same(1) by (intro exI [of _ i]) (simp add: s1_def i_def)
        qed
      qed
      moreover have "length ((pre @ [w]) @ rest) * length ((pre @ [w]) @ rest) + length rest < length (pre @ suf) * length (pre @ suf) + length suf"
        by (simp add: Cons)
      ultimately obtain n s' dn where r: "process_loop E t m (next_of rest) s1 = Some (n, s')" "n \<le> m"
          "clock_reads s1 \<le> clock_reads s'" "processed E t s1 ((pre @ [w]) @ rest) n s' dn"
        using less(1) [of "pre @ [w]" rest s1 m] h1 by auto
      then show ?thesis
        using step False m(1) Cons same by (auto simp: s1_def simp flip: m_def)
    qed
  qed
qed

section \<open>The 32-bit clock\<close>

lemma clock_systimer_low: "ucast (clock_systimer now) = (of_nat (unat now mod 2 ^ 32) :: u64)"
proof -
  have "unat (0xffffffff AND now) = unat now mod 2 ^ 32"
  proof -
    have "(0xffffffff :: u64) AND now = take_bit 32 now"
      by (simp add: take_bit_eq_mask mask_eq_exp_minus_1 and.commute)
    then show ?thesis by (simp add: take_bit_eq_mod unat_mod)
  qed
  then show ?thesis
    by (intro word_unat_eq_iff [THEN iffD2])
       (simp add: clock_systimer_def unsigned_ucast_eq unsigned_of_nat take_bit_eq_mod unat_mod)
qed

lemma unat_of_nat64: "unat (of_nat n :: u64) = n mod 2 ^ 64"
  by (simp add: unsigned_of_nat take_bit_eq_mod)

lemma wrapped_difference:
  assumes "k < q" and "q < 2 ^ 32"
  shows "(of_nat k - of_nat q :: u64) = of_nat (2 ^ 64 - (q - k))"
proof -
  have "(of_nat (2 ^ 64 - (q - k)) + of_nat q :: u64) = of_nat (2 ^ 64 + k)"
    using assms by (simp only: flip: of_nat_add) (rule arg_cong [where f = of_nat], simp)
  also have "(of_nat (2 ^ 64 + k) :: u64) = of_nat k"
    by (simp only: word_unat_eq_iff unat_of_nat64 mod_add_self1)
  finally show ?thesis
    by (simp add: algebra_simps)
qed

section \<open>Properties\<close>

text \<open>A queue of two items, the second of them due much later.\<close>

definition demo_work_env :: work_env where
  "demo_work_env = \<lparr>now_us = (\<lambda>i. 5000 + of_nat i), run_worker = (\<lambda>f a s. Some s), USEC_PER_TICK = 10000\<rparr>"

definition demo_wq0 :: wqueue where
  "demo_wq0 =
     \<lparr>dq = \<lparr>dq_head = None, dq_tail = None, dq_flink = (\<lambda>_. None), dq_blink = (\<lambda>_. None)\<rparr>,
      works = (\<lambda>_. \<lparr>worker = None, warg = 0, qtime = 0, delay = 0\<rparr>),
      wq_pid = 1, clock_reads = 0, wakeups = 0, performed = []\<rparr>"

lemma demo_wq0_holds: "wq_holds demo_wq0 []"
  by (simp add: wq_holds_def demo_wq0_def dq_holds_def)



text \<open>
  A tick-based queue runs work early when the clock wraps: the clock is cut to 32 bits, the time an
  item was queued at is kept in 64, and their difference is taken in 64 bits. Once the 32-bit clock
  has gone round, an item queued before is due at once, whatever its delay.
\<close>

lemma work_runs_early_after_wrap:
  assumes "unat now = 2 ^ 32 + k" and "qtime x = of_nat q" and "q < 2 ^ 32"
    and "0 < unat (USEC_PER_TICK E)" and "unat (USEC_PER_TICK E) \<le> 2 ^ 31"
    and "k + unat (USEC_PER_TICK E) < q"
  shows "t_elapsed (work_timing E) now x \<ge> ucast (delay x)"
proof -
  let ?u = "unat (USEC_PER_TICK E)"
  have k: "k < 2 ^ 32" "q \<le> 2 ^ 64"
    using assms(3,6) by simp_all
  have "(ucast (clock_systimer now) :: u64) = of_nat k"
    using assms(1) k(1) by (simp add: clock_systimer_low)
  moreover define D where "D = 2 ^ 64 - (q - k)"
  ultimately have d: "ucast (clock_systimer now) - qtime x = of_nat D"
    using wrapped_difference [of k q] assms(2,3,6) by simp
  have D: "D < 2 ^ 64" "D + ?u div 2 < 2 ^ 64" "2 ^ 63 \<le> D"
    using assms(3,6) by (simp_all add: D_def)
  then have "unat (of_nat D :: u64) = D"
    by (simp add: unat_of_nat64)
  then have e: "unat (t_elapsed (work_timing E) now x) = (D + ?u div 2) div ?u"
    using D(2) by (simp add: work_timing_def USEC2TICK_def d unat_div unat_word_ariths(1))
  have "unat (delay x) * ?u \<le> 2 ^ 32 * 2 ^ 31"
    using assms(5) unsigned_less [of "delay x", where 'a = nat] by (intro mult_mono) auto
  also have "\<dots> \<le> D + ?u div 2"
    using D(3) by simp
  finally have "unat (delay x) \<le> (D + ?u div 2) div ?u"
    using assms(4) by (simp add: less_eq_div_iff_mult_less_eq)
  then show ?thesis
    using e by (simp add: word_le_nat_alt unsigned_ucast_eq take_bit_eq_mod order.trans [OF mod_less_eq_dividend])
qed

end
