(* ===== verification/Crc.thy ===== *)
theory Crc
  imports Prelude
begin

text \<open>
  The checksums of the bootloaders, \<^verbatim>\<open>src/src/lib/systemlib/crc.c\<close>. A checksum that can be run backwards detects
  every change of one byte; the locale \<open>crc_register\<close> proves this once, for the three registers of the code.
\<close>

section \<open>CRC-16\<close>

definition CRC16_OUTPUT_XOR :: u16 where "CRC16_OUTPUT_XOR = 0"

definition crc16_bit :: "u16 \<Rightarrow> u16" where
  "crc16_bit c = (if c AND push_bit 15 1 \<noteq> 0 then push_bit 1 c XOR 0x1021 else push_bit 1 c)"

definition crc16_add :: "u16 \<Rightarrow> u8 \<Rightarrow> u16" where
  "crc16_add c value = (crc16_bit ^^ 8) (c XOR push_bit 8 (ucast value))"

definition crc16_signature :: "u16 \<Rightarrow> u8 list \<Rightarrow> u16" where
  "crc16_signature initial bytes = foldl crc16_add initial bytes XOR CRC16_OUTPUT_XOR"

section \<open>CRC-32\<close>

definition crc32_bit :: "u32 \<Rightarrow> u32" where
  "crc32_bit acc = (let x = - (acc AND 1) in drop_bit 1 acc XOR (0xedb88320 AND x))"

definition crc32_add :: "u32 \<Rightarrow> u8 \<Rightarrow> u32" where
  "crc32_add acc byte = (crc32_bit ^^ 8) (acc XOR ucast byte)"

definition crc32_signature :: "u32 \<Rightarrow> u8 list \<Rightarrow> u32" where
  "crc32_signature acc bytes = foldl crc32_add acc bytes"

section \<open>CRC-64\<close>

definition crc64_bit :: "u64 \<Rightarrow> u64" where
  "crc64_bit c = (if c AND push_bit 63 1 \<noteq> 0 then push_bit 1 c XOR 0x42F0E1EBA9EA3693 else push_bit 1 c)"

definition crc64_add_byte :: "u64 \<Rightarrow> u8 \<Rightarrow> u64" where
  "crc64_add_byte c byte = (crc64_bit ^^ 8) (c XOR push_bit 56 (ucast byte))"

definition crc64_add_word :: "u64 \<Rightarrow> u32 \<Rightarrow> u64" where
  "crc64_add_word c value = foldl crc64_add_byte c (le_bytes32 value)"

section \<open>Registers that can be run backwards\<close>

locale crc_register =
  fixes add :: "'c \<Rightarrow> 'b \<Rightarrow> 'c"
  assumes inj_register: "add c v = add d v \<Longrightarrow> c = d"
    and inj_value: "add c v = add c w \<Longrightarrow> v = w"
begin

lemma foldl_inj: "foldl add c xs = foldl add d xs \<Longrightarrow> c = d"
  by (induction xs arbitrary: c d) (auto dest: inj_register)

lemma one_change:
  assumes "i < length xs" and "v \<noteq> xs ! i"
  shows "foldl add c (xs[i := v]) \<noteq> foldl add c xs"
proof
  assume eq: "foldl add c (xs[i := v]) = foldl add c xs"
  have "foldl add c xs = foldl add (add (foldl add c (take i xs)) (xs ! i)) (drop (Suc i) xs)"
    by (subst id_take_nth_drop [OF assms(1)]) simp
  with eq show False
    using assms by (auto simp: upd_conv_take_nth_drop dest!: foldl_inj inj_value)
qed

end

lemma xor_cancel_word: "c XOR e = d XOR e \<Longrightarrow> c = d" "c XOR d = c XOR e \<Longrightarrow> d = e" for c d e :: "'a :: len word"
  by (metis xor.left_commute xor_self_eq xor.right_neutral)+

lemma crc_register_bits:
  fixes f :: "'a :: len word \<Rightarrow> 'a word"
  assumes "inj f" and "inj g"
  shows "crc_register (\<lambda>c v. (f ^^ 8) (c XOR g v))"
proof -
  have "inj (f ^^ 8)"
    using assms(1) by (rule inj_fn)
  then show ?thesis
    by unfold_locales (metis assms(2) injD xor_cancel_word)+
qed

text \<open>
  The bit shifted out decides whether the polynomial is added; since the polynomial sets the bit shifted in, it can be
  read off the result.
\<close>

lemma shift_xor_inj:
  fixes p :: "'a :: len word"
  assumes "bit p 0" and "1 < LENGTH('a)"
  shows "inj (\<lambda>c. if bit c (LENGTH('a) - 1) then push_bit 1 c XOR p else push_bit 1 c)"
proof (rule injI)
  fix a b :: "'a word"
  assume eq: "(if bit a (LENGTH('a) - 1) then push_bit 1 a XOR p else push_bit 1 a) =
              (if bit b (LENGTH('a) - 1) then push_bit 1 b XOR p else push_bit 1 b)"
  have "bit a (LENGTH('a) - 1) = bit b (LENGTH('a) - 1)"
    using arg_cong [OF eq, of "\<lambda>w. bit w 0"] assms(1) by (auto simp: even_xor_iff bit_0 split: if_splits)
  moreover from this eq have shifted: "push_bit 1 a = push_bit 1 b"
    by (auto split: if_splits dest: xor_cancel_word)
  have "bit a n = bit b n" if "Suc n < LENGTH('a)" for n
    using that arg_cong [OF shifted, of "\<lambda>w. bit w (Suc n)"] by (simp only: bit_push_bit_iff) simp
  ultimately have "bit a n = bit b n" if "n < LENGTH('a)" for n
    using that by (cases "n = LENGTH('a) - 1") auto
  then show "a = b" by (rule bit_word_eqI)
qed

lemma crc16_bit_inj: "inj crc16_bit"
  unfolding crc16_bit_def [abs_def] bit_iff_and_push_bit_not_eq_0 [symmetric]
  using shift_xor_inj [of "0x1021 :: u16"] by simp

lemma crc64_bit_inj: "inj crc64_bit"
  unfolding crc64_bit_def [abs_def] bit_iff_and_push_bit_not_eq_0 [symmetric]
  using shift_xor_inj [of "0x42F0E1EBA9EA3693 :: u64"] by simp

lemma crc32_bit_eq: "crc32_bit c = (if bit c 0 then drop_bit 1 c XOR 0xedb88320 else drop_bit 1 c)"
proof -
  have "c AND 1 = of_bool (bit c 0)"
    by (simp add: and_one_eq bit_0 odd_iff_mod_2_eq_one)
  then show ?thesis
    by (simp add: crc32_bit_def Let_def)
qed

lemma crc32_bit_inj: "inj crc32_bit"
proof (rule injI)
  fix a b
  assume eq: "crc32_bit a = crc32_bit b"
  have "bit a 0 = bit b 0"
    using arg_cong [OF eq, of "\<lambda>w. bit w 31"]
    by (auto simp: crc32_bit_eq bit_simps dest: bit_imp_le_length split: if_splits)
  moreover from this eq have "drop_bit 1 a = drop_bit 1 b"
    by (auto simp: crc32_bit_eq split: if_splits dest: xor_cancel_word)
  ultimately have "bit a n = bit b n" for n
    by (cases n) (auto dest: arg_cong [of _ _ "\<lambda>w. bit w (n - 1)"] simp: bit_simps)
  then show "a = b" by (simp add: bit_eq_iff)
qed

lemma ucast_at_inj:
  assumes "n + 8 \<le> LENGTH('a :: len)"
  shows "inj (\<lambda>v :: u8. push_bit n (ucast v) :: 'a word)"
proof (rule injI)
  fix v w :: u8
  assume eq: "push_bit n (ucast v) = (push_bit n (ucast w) :: 'a word)"
  have "bit v k = bit w k" if "k < 8" for k
    using arg_cong [OF eq, of "\<lambda>x. bit x (n + k)"] assms that by (simp add: bit_simps)
  then show "v = w" by (intro bit_word_eqI) simp
qed

interpretation crc16: crc_register crc16_add
  unfolding crc16_add_def [abs_def] by (rule crc_register_bits [OF crc16_bit_inj ucast_at_inj]) simp

interpretation crc32: crc_register crc32_add
  using crc_register_bits [OF crc32_bit_inj ucast_at_inj [of 0]] by (simp add: crc32_add_def [abs_def])

lemma crc32_bit_xor: "\<not> bit y 0 \<Longrightarrow> crc32_bit (c XOR y) = crc32_bit c XOR drop_bit 1 y"
  unfolding crc32_bit_eq by (rule bit_word_eqI) (auto simp: bit_simps)

lemma crc32_bits_xor:
  "(\<And>n. n < k \<Longrightarrow> \<not> bit y n) \<Longrightarrow> (crc32_bit ^^ k) (c XOR y) = (crc32_bit ^^ k) c XOR drop_bit k y"
proof (induction k)
  case (Suc k)
  have "\<not> bit (drop_bit k y) 0"
    using Suc(2) [of k] by (simp add: bit_simps)
  with Suc show ?case
    by (simp add: crc32_bit_xor drop_bit_drop_bit)
qed simp

text \<open>A table of the registers for the 256 byte values gives the same checksum, a byte at a time.\<close>

lemma crc32_table_index: "unat ((c XOR ucast (b :: u8)) AND 0xff :: u32) < 256"
proof -
  have "(c XOR ucast b :: u32) AND 0xff = take_bit 8 (c XOR ucast b)"
    by (simp add: take_bit_eq_mask mask_eq_exp_minus_1)
  then show ?thesis
    by (simp add: take_bit_eq_mod unat_mod)
qed

lemma crc32_table_step: "(crc32_bit ^^ 8) ((c XOR ucast b) AND 0xff) XOR drop_bit 8 c = crc32_add c b"
proof -
  define x where "x = c XOR ucast b"
  define low where "low = x AND mask 8"
  have ff: "x AND 0xff = low"
    by (simp add: low_def mask_eq_exp_minus_1)
  have "x = low XOR (x AND NOT (mask 8))"
    unfolding low_def by (rule bit_word_eqI) (auto simp: bit_simps)
  then have "(crc32_bit ^^ 8) x = (crc32_bit ^^ 8) low XOR drop_bit 8 (x AND NOT (mask 8))"
    by (subst crc32_bits_xor [symmetric]) (auto simp: bit_simps)
  moreover have "drop_bit 8 (x AND NOT (mask 8)) = drop_bit 8 c"
    unfolding x_def by (rule bit_word_eqI) (auto simp: bit_simps dest: bit_imp_le_length)
  ultimately show ?thesis
    using ff by (simp add: crc32_add_def x_def)
qed

text \<open>
  The bytes of a word enter the register at its top one after the other; entering all of them at once, each eight bits
  lower than the one before, gives the same result.
\<close>

lemma crc64_bit_xor: "\<not> bit y 63 \<Longrightarrow> crc64_bit (c XOR y) = crc64_bit c XOR push_bit 1 y"
  unfolding crc64_bit_def bit_iff_and_push_bit_not_eq_0 [symmetric]
  by (rule bit_word_eqI) (auto simp: bit_simps)

lemma crc64_bits_xor:
  "(\<And>n. 64 - k \<le> n \<Longrightarrow> \<not> bit y n) \<Longrightarrow> k \<le> 64 \<Longrightarrow> (crc64_bit ^^ k) (c XOR y) = (crc64_bit ^^ k) c XOR push_bit k y"
proof (induction k)
  case (Suc k)
  have "\<not> bit (push_bit k y) 63"
    using Suc(2) [of "63 - k"] Suc(3) by (simp add: bit_simps)
  moreover have "(crc64_bit ^^ k) (c XOR y) = (crc64_bit ^^ k) c XOR push_bit k y"
    using Suc by simp
  ultimately show ?case
    by (simp add: crc64_bit_xor push_bit_push_bit del: push_bit_Suc)
qed simp

lemma crc64_byte_below:
  fixes b :: u8
  assumes "n + 16 \<le> 64"
  shows "(crc64_bit ^^ 8) c XOR push_bit (n + 8) (ucast b) = (crc64_bit ^^ 8) (c XOR push_bit n (ucast b))"
proof -
  have "\<not> bit (push_bit n (ucast b) :: u64) k" if "64 - 8 \<le> k" for k
    using assms that by (auto simp: bit_simps dest: bit_imp_le_length)
  then show ?thesis
    by (subst crc64_bits_xor) (simp_all add: push_bit_push_bit add.commute)
qed

lemma crc64_add_word_at_once:
  "crc64_add_word c value =
     (crc64_bit ^^ 32) (c XOR (push_bit 56 (ucast (le_bytes32 value ! 0)) XOR push_bit 48 (ucast (le_bytes32 value ! 1)) XOR
        push_bit 40 (ucast (le_bytes32 value ! 2)) XOR push_bit 32 (ucast (le_bytes32 value ! 3))))"
proof -
  obtain b0 b1 b2 b3 where b: "le_bytes32 value = [b0, b1, b2, b3]"
    by (simp add: le_bytes32_def le_bytes_def)
  have 32: "(crc64_bit ^^ 32) d = (crc64_bit ^^ 8) ((crc64_bit ^^ 8) ((crc64_bit ^^ 8) ((crc64_bit ^^ 8) d)))" for d
    by (simp flip: funpow_add [THEN fun_cong, unfolded comp_def])
  note below = crc64_byte_below [of 48, simplified] crc64_byte_below [of 40, simplified] crc64_byte_below [of 32, simplified]
  show ?thesis
    by (simp add: crc64_add_word_def crc64_add_byte_def b below 32 xor.assoc)
qed

lemma crc64_add_word_inj:
  "crc64_add_word c v = crc64_add_word d v \<Longrightarrow> c = d" "crc64_add_word c v = crc64_add_word c w \<Longrightarrow> v = w"
proof -
  have inj: "inj (crc64_bit ^^ 32)"
    using crc64_bit_inj by (rule inj_fn)
  show "crc64_add_word c v = crc64_add_word d v \<Longrightarrow> c = d"
    unfolding crc64_add_word_at_once by (auto dest!: injD [OF inj] xor_cancel_word)
  define top where "top v = (push_bit 56 (ucast (le_bytes32 v ! 0)) XOR push_bit 48 (ucast (le_bytes32 v ! 1)) XOR
    push_bit 40 (ucast (le_bytes32 v ! 2)) XOR push_bit 32 (ucast (le_bytes32 v ! 3)) :: u64)" for v
  have bits: "bit (top v) (if n < 8 then 56 + n else if n < 16 then 40 + n else if n < 24 then 24 + n else 8 + n) = bit v n"
    if "n < 32" for v n
    using that by (auto simp: top_def le_bytes32_def le_bytes_def bit_simps)
  assume "crc64_add_word c v = crc64_add_word c w"
  then have "top v = top w"
    unfolding crc64_add_word_at_once top_def [symmetric] by (auto dest!: injD [OF inj] xor_cancel_word)
  then show "v = w"
    using bits [of _ v] bits [of _ w] by (intro bit_word_eqI) simp
qed

interpretation crc64: crc_register crc64_add_word
  by unfold_locales (fact crc64_add_word_inj)+

text \<open>
  No damage of a single byte goes unnoticed: changing one byte of a message, of any length and from any initial
  value, changes its CRC-16 and its CRC-32, and changing one word of a message changes its CRC-64.
\<close>

lemma damage_detected:
  assumes "i < length bytes" and "v \<noteq> bytes ! i" and "j < length ws" and "w \<noteq> ws ! j"
  shows "crc16_signature c0 (bytes[i := v]) \<noteq> crc16_signature c0 bytes \<and>
         crc32_signature c1 (bytes[i := v]) \<noteq> crc32_signature c1 bytes \<and>
         foldl crc64_add_word c2 (ws[j := w]) \<noteq> foldl crc64_add_word c2 ws"
  using crc16.one_change [OF assms(1,2)] crc32.one_change [OF assms(1,2)] crc64.one_change [OF assms(3,4)]
  by (auto simp: crc16_signature_def crc32_signature_def dest: xor_cancel_word)

end
