(* ===== verification/Can_Timer.thy ===== *)
theory Can_Timer
  imports Prelude
begin

text \<open>
  The software timers of the CAN bootloader, \<^verbatim>\<open>src/platforms/nuttx/src/canbootloader/sched/timer.c\<close>. Timers are counted
  down by the system tick and call back when they expire. What a callback does is a parameter; that it ran is logged
  in \<open>fired\<close>. Interrupts are disabled around every function, so the functions are atomic. A timer number outside the
  table gives \<open>None\<close>.
\<close>

section \<open>Data\<close>

definition OPT_BL_NUMBER_TIMERS :: nat where "OPT_BL_NUMBER_TIMERS = 7"
definition CONFIG_USEC_PER_TICK :: nat where "CONFIG_USEC_PER_TICK = 1000"

definition modeOneShot :: u32 where "modeOneShot = 1"
definition modeRepeating :: u32 where "modeRepeating = 2"
definition modeTimeout :: u32 where "modeTimeout = 3"
definition modeStarted :: u32 where "modeStarted = 0x40"

definition modeMsk :: u32 where "modeMsk = 0x3"
definition running :: u32 where "running = modeStarted"
definition inuse :: u32 where "inuse = 0x80"

lemmas timer_consts = modeOneShot_def modeRepeating_def modeTimeout_def modeStarted_def modeMsk_def running_def inuse_def

record bl_timer_cb_t =
  cb_context :: nat
  cb_fn :: "nat option"

record bl_timer_t =
  usr :: bl_timer_cb_t
  t_count :: u32
  t_reload :: u32
  t_ctl :: u32

record bl =
  sys_tic :: u32
  timers :: "bl_timer_t list"
  fired :: "(nat \<times> nat \<times> nat) list"

type_synonym 'a callout = "nat \<Rightarrow> nat \<Rightarrow> nat \<Rightarrow> 'a bl_scheme \<Rightarrow> 'a bl_scheme"

definition null_cb :: bl_timer_cb_t where "null_cb = \<lparr>cb_context = 0, cb_fn = None\<rparr>"

definition zero_timer :: bl_timer_t where
  "zero_timer = \<lparr>usr = null_cb, t_count = 0, t_reload = 0, t_ctl = 0\<rparr>"

definition set_timer :: "nat \<Rightarrow> bl_timer_t \<Rightarrow> 'a bl_scheme \<Rightarrow> 'a bl_scheme" where
  "set_timer t e s = s\<lparr>timers := (timers s)[t := e]\<rparr>"

section \<open>The tick\<close>

definition run_cb :: "'a callout \<Rightarrow> nat \<Rightarrow> bl_timer_cb_t \<Rightarrow> 'a bl_scheme \<Rightarrow> 'a bl_scheme" where
  "run_cb E t user s =
     (case cb_fn user of None \<Rightarrow> s
      | Some cb \<Rightarrow> E cb t (cb_context user) (s\<lparr>fired := fired s @ [(cb, t, cb_context user)]\<rparr>))"

definition expire :: "'a callout \<Rightarrow> nat \<Rightarrow> 'a bl_scheme \<Rightarrow> 'a bl_scheme" where
  "expire E t s =
     (let e = (timers s ! t)\<lparr>t_count := 0\<rparr>; mode = t_ctl e AND NOT (inuse OR running) in
      if mode = modeOneShot then run_cb E t (usr e) (set_timer t zero_timer s)
      else if mode = modeRepeating then run_cb E t (usr e) (set_timer t (e\<lparr>t_count := t_reload e\<rparr>) s)
      else if mode = modeTimeout then run_cb E t (usr e) (set_timer t e s)
      else set_timer t e s)"

definition ms_elapsed :: u32 where "ms_elapsed = of_nat (CONFIG_USEC_PER_TICK div 1000)"

definition process_entry :: "'a callout \<Rightarrow> nat \<Rightarrow> 'a bl_scheme \<Rightarrow> 'a bl_scheme" where
  "process_entry E t s =
     (let e = timers s ! t in
      if t_ctl e AND (inuse OR running) = inuse OR running then
        if t_count e \<noteq> 0 then
          if t_count e > ms_elapsed then set_timer t (e\<lparr>t_count := t_count e - ms_elapsed\<rparr>) s
          else expire E t s
        else s
      else s)"

definition nxsched_process_timer :: "'a callout \<Rightarrow> 'a bl_scheme \<Rightarrow> 'a bl_scheme" where
  "nxsched_process_timer E s =
     fold (process_entry E) (rev [0..<OPT_BL_NUMBER_TIMERS]) (s\<lparr>sys_tic := sys_tic s + 1\<rparr>)"

section \<open>The interface\<close>

definition timer_tic :: "'a bl_scheme \<Rightarrow> u32" where "timer_tic s = sys_tic s"

definition timer_init :: "'a bl_scheme \<Rightarrow> 'a bl_scheme" where
  "timer_init s = s\<lparr>sys_tic := 0, timers := replicate OPT_BL_NUMBER_TIMERS zero_timer\<rparr>"

definition timer_allocate :: "u32 \<Rightarrow> u32 \<Rightarrow> bl_timer_cb_t option \<Rightarrow> 'a bl_scheme \<Rightarrow> u8 \<times> 'a bl_scheme" where
  "timer_allocate mode msfromnow fc s =
     (case find (\<lambda>t. t_ctl (timers s ! t) AND inuse = 0) (rev [0..<OPT_BL_NUMBER_TIMERS]) of
        None \<Rightarrow> (- 1, s)
      | Some t \<Rightarrow> (of_nat t, set_timer t \<lparr>usr = (case fc of None \<Rightarrow> null_cb | Some f \<Rightarrow> f), t_count = msfromnow,
                     t_reload = msfromnow, t_ctl = (mode AND (modeMsk OR running)) OR inuse\<rparr> s))"

definition with_timer :: "u8 \<Rightarrow> 'a bl_scheme \<Rightarrow> (bl_timer_t \<Rightarrow> 'b) \<Rightarrow> 'b option" where
  "with_timer t s f = (if unat t < length (timers s) then Some (f (timers s ! unat t)) else None)"

definition timer_free :: "u8 \<Rightarrow> 'a bl_scheme \<Rightarrow> 'a bl_scheme option" where
  "timer_free t s = with_timer t s (\<lambda>e. set_timer (unat t) zero_timer s)"

definition timer_start :: "u8 \<Rightarrow> 'a bl_scheme \<Rightarrow> 'a bl_scheme option" where
  "timer_start t s = with_timer t s (\<lambda>e. set_timer (unat t) (e\<lparr>t_count := t_reload e, t_ctl := t_ctl e OR running\<rparr>) s)"

definition timer_stop :: "u8 \<Rightarrow> 'a bl_scheme \<Rightarrow> 'a bl_scheme option" where
  "timer_stop t s = with_timer t s (\<lambda>e. set_timer (unat t) (e\<lparr>t_ctl := t_ctl e AND NOT running\<rparr>) s)"

definition timer_expired :: "u8 \<Rightarrow> 'a bl_scheme \<Rightarrow> bool option" where
  "timer_expired t s = with_timer t s (\<lambda>e. t_ctl e AND running \<noteq> 0 \<and> t_count e = 0)"

definition timer_restart :: "u8 \<Rightarrow> u32 \<Rightarrow> 'a bl_scheme \<Rightarrow> 'a bl_scheme option" where
  "timer_restart t ms s =
     with_timer t s (\<lambda>e. set_timer (unat t) (e\<lparr>t_count := ms, t_reload := ms, t_ctl := t_ctl e OR running\<rparr>) s)"

section \<open>One timer through a tick\<close>

text \<open>What a callback leaves alone: the size of the table, the log, and the timers in use.\<close>

definition callouts_keep :: "'a callout \<Rightarrow> nat \<Rightarrow> bool" where
  "callouts_keep E j \<longleftrightarrow> (\<forall>cb t ctx s. length (timers (E cb t ctx s)) = length (timers s) \<and> fired (E cb t ctx s) = fired s \<and>
     (t_ctl (timers s ! j) AND inuse \<noteq> 0 \<longrightarrow> timers (E cb t ctx s) ! j = timers s ! j))"

definition live :: "u32 \<Rightarrow> bl_timer_t \<Rightarrow> bool" where
  "live mode e \<longleftrightarrow> t_ctl e = (mode OR running) OR inuse \<and> mode \<in> {modeRepeating, modeTimeout}"

definition fired_by :: "nat \<Rightarrow> 'a bl_scheme \<Rightarrow> (nat \<times> nat \<times> nat) list" where
  "fired_by j s = filter (\<lambda>(_, t, _). t = j) (fired s)"

text \<open>The entry of a live timer after a tick, and whether it called back.\<close>

definition tick_entry :: "bl_timer_t \<Rightarrow> bl_timer_t" where
  "tick_entry e =
     (if t_count e = 0 then e
      else if t_count e > 1 then e\<lparr>t_count := t_count e - 1\<rparr>
      else e\<lparr>t_count := (if t_ctl e AND modeMsk = modeRepeating then t_reload e else 0)\<rparr>)"

definition tick_fires :: "bl_timer_t \<Rightarrow> nat \<Rightarrow> (nat \<times> nat \<times> nat) list" where
  "tick_fires e j = (if t_count e = 1 then (case cb_fn (usr e) of None \<Rightarrow> [] | Some cb \<Rightarrow> [(cb, j, cb_context (usr e))]) else [])"

lemma ms_elapsed_1: "ms_elapsed = 1"
  by (simp add: ms_elapsed_def CONFIG_USEC_PER_TICK_def)

lemma live_ctl:
  assumes "live mode e"
  shows "t_ctl e AND inuse \<noteq> 0" "t_ctl e AND (inuse OR running) = inuse OR running"
    "t_ctl e AND NOT (inuse OR running) = mode" "t_ctl e AND modeMsk = mode" "t_ctl e AND running \<noteq> 0"
  using assms by (auto simp: live_def timer_consts)

lemma length_set_timer [simp]: "length (timers (set_timer t e s)) = length (timers s)"
  by (simp add: set_timer_def)

lemma nth_set_timer [simp]:
  "t < length (timers s) \<Longrightarrow> timers (set_timer t e s) ! j = (if j = t then e else timers s ! j)"
  by (simp add: set_timer_def nth_list_update)

lemma fired_set_timer [simp]: "fired (set_timer t e s) = fired s"
  by (simp add: set_timer_def)

lemma run_cb_keeps:
  assumes "callouts_keep E j"
  shows "length (timers (run_cb E t user s)) = length (timers s)"
    and "t_ctl (timers s ! j) AND inuse \<noteq> 0 \<Longrightarrow> timers (run_cb E t user s) ! j = timers s ! j"
    and "fired (run_cb E t user s) =
           fired s @ (case cb_fn user of None \<Rightarrow> [] | Some cb \<Rightarrow> [(cb, t, cb_context user)])"
  using assms by (auto simp: run_cb_def callouts_keep_def split: option.split)

lemma process_entry_length:
  "callouts_keep E j \<Longrightarrow> length (timers (process_entry E t s)) = length (timers s)"
  by (simp add: process_entry_def expire_def Let_def run_cb_keeps)

lemma process_entry_other:
  assumes "callouts_keep E j" and "t \<noteq> j" and "t < length (timers s)" and "t_ctl (timers s ! j) AND inuse \<noteq> 0"
  shows "timers (process_entry E t s) ! j = timers s ! j" and "fired_by j (process_entry E t s) = fired_by j s"
  using assms
  by (auto simp: process_entry_def expire_def Let_def run_cb_keeps fired_by_def split: option.splits)

lemma process_entry_own:
  assumes "callouts_keep E j" and "j < length (timers s)" and "live mode (timers s ! j)"
  shows "timers (process_entry E j s) ! j = tick_entry (timers s ! j)"
    and "fired_by j (process_entry E j s) = fired_by j s @ tick_fires (timers s ! j) j"
proof -
  let ?e = "timers s ! j"
  have one: "t_count ?e = 1" if "t_count ?e \<noteq> 0" "\<not> t_count ?e > 1"
    using that by (simp add: word_less_nat_alt word_unat_eq_iff not_less) 
  have mode: "mode \<in> {modeRepeating, modeTimeout}" and ne: "modeRepeating \<noteq> modeTimeout" "modeRepeating \<noteq> modeOneShot"
      "modeTimeout \<noteq> modeOneShot"
    using assms(3) by (auto simp: live_def timer_consts)
  note c = live_ctl [OF assms(3)]
  show "timers (process_entry E j s) ! j = tick_entry ?e"
    using assms(1,2) c mode ne one
    by (auto simp: process_entry_def expire_def tick_entry_def Let_def ms_elapsed_1 run_cb_keeps)
  show "fired_by j (process_entry E j s) = fired_by j s @ tick_fires ?e j"
    using assms(1,2) c mode ne one
    by (auto simp: process_entry_def expire_def tick_fires_def Let_def ms_elapsed_1 run_cb_keeps fired_by_def split: option.split)
qed

lemma fold_others:
  assumes "callouts_keep E j" and "\<forall>t\<in>set ts. t \<noteq> j \<and> t < length (timers s)" and "t_ctl (timers s ! j) AND inuse \<noteq> 0"
  shows "timers (fold (process_entry E) ts s) ! j = timers s ! j \<and> fired_by j (fold (process_entry E) ts s) = fired_by j s \<and>
         length (timers (fold (process_entry E) ts s)) = length (timers s)"
  using assms(2,3)
  by (induction ts arbitrary: s) (auto simp: process_entry_other [OF assms(1)] process_entry_length [OF assms(1)])

lemma fold_own:
  assumes "callouts_keep E j" and "distinct ts" and "j \<in> set ts" and "\<forall>t\<in>set ts. t < length (timers s)"
    and "live mode (timers s ! j)"
  shows "timers (fold (process_entry E) ts s) ! j = tick_entry (timers s ! j) \<and>
         fired_by j (fold (process_entry E) ts s) = fired_by j s @ tick_fires (timers s ! j) j \<and>
         length (timers (fold (process_entry E) ts s)) = length (timers s)"
  using assms(2-5)
proof (induction ts arbitrary: s)
  case (Cons t ts)
  let ?s1 = "process_entry E t s"
  have len: "length (timers ?s1) = length (timers s)"
    by (rule process_entry_length [OF assms(1)])
  show ?case
  proof (cases "t = j")
    case True
    have "t_ctl (tick_entry (timers s ! j)) = t_ctl (timers s ! j)"
      by (simp add: tick_entry_def)
    then show ?thesis
      using True Cons fold_others [OF assms(1), of ts ?s1] process_entry_own [OF assms(1) _ Cons(5)] len live_ctl(1) [OF Cons(5)]
      by fastforce
  next
    case False
    then show ?thesis
      using Cons process_entry_other [OF assms(1) False _ live_ctl(1) [OF Cons(5)]] len by auto
  qed
qed simp

lemma tick_live:
  assumes "callouts_keep E j" and "j < 7" and "length (timers s) = 7" and "live mode (timers s ! j)"
  shows "timers (nxsched_process_timer E s) ! j = tick_entry (timers s ! j)"
    and "fired_by j (nxsched_process_timer E s) = fired_by j s @ tick_fires (timers s ! j) j"
    and "length (timers (nxsched_process_timer E s)) = 7"
  using fold_own [OF assms(1), of "rev [0..<7]" "s\<lparr>sys_tic := sys_tic s + 1\<rparr>"] assms(2-4)
  by (auto simp: nxsched_process_timer_def OPT_BL_NUMBER_TIMERS_def fired_by_def simp del: upt_rec_numeral)

lemma tick_entry_keeps [simp]:
  "t_ctl (tick_entry e) = t_ctl e" "usr (tick_entry e) = usr e" "t_reload (tick_entry e) = t_reload e"
  "live mode (tick_entry e) = live mode e"
  by (simp_all add: tick_entry_def live_def)

lemma ticks_live:
  assumes "callouts_keep E j" and "j < 7" and "length (timers s) = 7" and "live mode (timers s ! j)"
  shows "timers ((nxsched_process_timer E ^^ n) s) ! j = (tick_entry ^^ n) (timers s ! j) \<and>
         length (timers ((nxsched_process_timer E ^^ n) s)) = 7 \<and> live mode ((tick_entry ^^ n) (timers s ! j))"
  by (induction n) (use assms in \<open>auto simp: tick_live [OF assms(1,2)]\<close>)

section \<open>A timeout\<close>

lemma timeout_count:
  "live modeTimeout e \<Longrightarrow> unat (t_count ((tick_entry ^^ n) e)) = unat (t_count e) - n \<and> live modeTimeout ((tick_entry ^^ n) e)"
proof (induction n)
  case (Suc n)
  let ?e = "(tick_entry ^^ n) e"
  have "t_ctl ?e AND modeMsk \<noteq> modeRepeating"
    using live_ctl(4) Suc by (auto simp: timer_consts)
  then have "unat (t_count (tick_entry ?e)) = unat (t_count ?e) - 1"
    by (auto simp: tick_entry_def word_less_nat_alt unat_minus_one word_unat_eq_iff)
  then show ?case
    using Suc by simp
qed simp

lemma timeout_expired:
  assumes "callouts_keep E (unat t)" and "unat t < 7" and "length (timers s) = 7" and "live modeTimeout (timers s ! unat t)"
  shows "timer_expired t ((nxsched_process_timer E ^^ n) s) = Some (unat (t_count (timers s ! unat t)) \<le> n)"
  using ticks_live [OF assms, of n] timeout_count [OF assms(4), of n] assms(2) live_ctl(5)
  by (auto simp: timer_expired_def with_timer_def word_unat_eq_iff)

section \<open>A repeating timer\<close>

lemma repeating_step:
  assumes "live modeRepeating e" and "0 < unat (t_reload e)" and "unat (t_count e) = unat (t_reload e) - n mod unat (t_reload e)"
    and "cb_fn (usr e) = Some cb"
  shows "unat (t_count (tick_entry e)) = unat (t_reload e) - Suc n mod unat (t_reload e)"
    and "tick_fires e j = (if Suc (n mod unat (t_reload e)) = unat (t_reload e) then [(cb, j, cb_context (usr e))] else [])"
proof -
  have "n mod unat (t_reload e) < unat (t_reload e)"
    using assms(2) by simp
  then show "unat (t_count (tick_entry e)) = unat (t_reload e) - Suc n mod unat (t_reload e)"
    using assms(2,3) live_ctl(4) [OF assms(1)]
    by (auto simp: tick_entry_def word_less_nat_alt word_unat_eq_iff unat_minus_one mod_Suc)
  show "tick_fires e j = (if Suc (n mod unat (t_reload e)) = unat (t_reload e) then [(cb, j, cb_context (usr e))] else [])"
    using \<open>n mod unat (t_reload e) < unat (t_reload e)\<close> assms(3,4) by (auto simp: tick_fires_def word_unat_eq_iff)
qed

lemma repeating_fires:
  assumes "callouts_keep E j" and "j < 7" and "length (timers s) = 7" and "live modeRepeating (timers s ! j)"
    and "t_count (timers s ! j) = t_reload (timers s ! j)" and "0 < unat (t_reload (timers s ! j))"
    and "cb_fn (usr (timers s ! j)) = Some cb"
  shows "fired_by j ((nxsched_process_timer E ^^ n) s) =
     fired_by j s @ replicate (n div unat (t_reload (timers s ! j))) (cb, j, cb_context (usr (timers s ! j)))"
proof -
  define e where "e k = (tick_entry ^^ k) (timers s ! j)" for k
  have e: "usr (e k) = usr (timers s ! j) \<and> t_reload (e k) = t_reload (timers s ! j)" for k
    by (induction k) (simp_all add: e_def)
  have live: "timers ((nxsched_process_timer E ^^ k) s) ! j = e k" "length (timers ((nxsched_process_timer E ^^ k) s)) = 7"
      "live modeRepeating (e k)" for k
    using ticks_live [OF assms(1-4)] by (auto simp: e_def)
  have count: "unat (t_count (e k)) = unat (t_reload (timers s ! j)) - k mod unat (t_reload (timers s ! j))" for k
  proof (induction k)
    case (Suc k)
    then show ?case
      using repeating_step(1) [OF live(3), of k k] e [of k] assms(6,7) by (simp add: e_def)
  qed (simp add: e_def assms(5))
  show ?thesis
  proof (induction n)
    case (Suc n)
    have "fired_by j ((nxsched_process_timer E ^^ Suc n) s) = fired_by j ((nxsched_process_timer E ^^ n) s) @ tick_fires (e n) j"
      using tick_live(2) [OF assms(1,2) live(2), of modeRepeating n] live by simp
    then show ?case
      using Suc repeating_step(2) [OF live(3), of n n cb j] count [of n] e [of n] assms(6,7)
      by (simp add: div_Suc mod_Suc replicate_append_same split: if_splits)
  qed simp
qed

section \<open>Allocation\<close>

lemma allocate_some:
  assumes "timer_allocate mode ms fc s = (t, s')" and "t \<noteq> - 1" and "length (timers s) = 7"
  shows "unat t < 7 \<and> t_ctl (timers s ! unat t) AND inuse = 0 \<and>
         s' = set_timer (unat t) \<lparr>usr = (case fc of None \<Rightarrow> null_cb | Some f \<Rightarrow> f), t_count = ms, t_reload = ms,
                t_ctl = (mode AND (modeMsk OR running)) OR inuse\<rparr> s"
proof -
  obtain k where k: "find (\<lambda>t. t_ctl (timers s ! t) AND inuse = 0) (rev [0..<7]) = Some k" "t = of_nat k"
      "s' = set_timer k \<lparr>usr = (case fc of None \<Rightarrow> null_cb | Some f \<Rightarrow> f), t_count = ms, t_reload = ms,
                t_ctl = (mode AND (modeMsk OR running)) OR inuse\<rparr> s"
    using assms(1,2) by (auto simp: timer_allocate_def OPT_BL_NUMBER_TIMERS_def split: option.splits)
  have "k < 7 \<and> t_ctl (timers s ! k) AND inuse = 0"
    using k(1) by (auto simp: find_Some_iff rev_nth simp del: upt_rec_numeral)
  moreover from this k(2) have "unat t = k"
    by (simp add: unsigned_of_nat take_bit_nat_eq_self)
  ultimately show ?thesis
    using k(3) by simp
qed

lemma allocate_none:
  assumes "length (timers s) = 7"
  shows "fst (timer_allocate mode ms fc s) = - 1 \<longleftrightarrow> (\<forall>t<7. t_ctl (timers s ! t) AND inuse \<noteq> 0)"
proof -
  have "(\<forall>t<7. t_ctl (timers s ! t) AND inuse \<noteq> 0) \<longleftrightarrow>
      find (\<lambda>t. t_ctl (timers s ! t) AND inuse = 0) (rev [0..<7]) = None"
    by (auto simp: find_None_iff simp del: upt_rec_numeral)
  moreover have "fst (timer_allocate mode ms fc s) \<noteq> - 1"
    if k: "find (\<lambda>t. t_ctl (timers s ! t) AND inuse = 0) (rev [0..<7]) = Some k" for k
  proof -
    have "k < 7" using k by (auto simp: find_Some_iff rev_nth simp del: upt_rec_numeral)
    then have "unat (of_nat k :: u8) = k"
      by (simp add: unsigned_of_nat take_bit_nat_eq_self)
    then show ?thesis
      using k \<open>k < 7\<close> unsigned_minus_1_eq_mask [where 'a = nat and 'b = 8]
      by (auto simp: timer_allocate_def OPT_BL_NUMBER_TIMERS_def mask_eq_exp_minus_1 simp del: upt_rec_numeral)
  qed
  ultimately show ?thesis
    by (cases "find (\<lambda>t. t_ctl (timers s ! t) AND inuse = 0) (rev [0..<7])")
      (auto simp: timer_allocate_def OPT_BL_NUMBER_TIMERS_def simp del: upt_rec_numeral)
qed

text \<open>
  C29. Timers keep their time. A timer allocated in the timeout mode with \<open>ms\<close> milliseconds reports its expiry
  after exactly \<open>ms\<close> ticks of one millisecond and not before; one allocated in the repeating mode has called back
  once in every \<open>ms\<close> ticks, whatever the other timers and their callbacks do.
\<close>

theorem timers_keep_time:
  assumes "timer_allocate (mode OR modeStarted) ms (Some \<lparr>cb_context = x, cb_fn = Some cb\<rparr>) s = (t, s')" and "t \<noteq> - 1"
    and "length (timers s) = OPT_BL_NUMBER_TIMERS" and "callouts_keep E (unat t)"
  shows "(mode = modeTimeout \<longrightarrow> timer_expired t ((nxsched_process_timer E ^^ n) s') = Some (unat ms \<le> n)) \<and>
         (mode = modeRepeating \<and> 0 < ms \<longrightarrow>
            fired_by (unat t) ((nxsched_process_timer E ^^ n) s') =
            fired_by (unat t) s @ replicate (n div unat ms) (cb, unat t, x))"
proof -
  have len: "length (timers s) = 7" using assms(3) by (simp add: OPT_BL_NUMBER_TIMERS_def)
  have t: "unat t < 7" and s': "s' = set_timer (unat t) \<lparr>usr = \<lparr>cb_context = x, cb_fn = Some cb\<rparr>, t_count = ms, t_reload = ms,
        t_ctl = ((mode OR modeStarted) AND (modeMsk OR running)) OR inuse\<rparr> s"
    using allocate_some [OF assms(1,2) len] by simp_all
  have live: "live mode (timers s' ! unat t)" if "mode \<in> {modeTimeout, modeRepeating}"
    using that s' t len by (auto simp: live_def timer_consts)
  have fs: "fired_by (unat t) s' = fired_by (unat t) s"
    using s' by (simp add: fired_by_def)
  show ?thesis
    using timeout_expired [OF assms(4) t, of s' n] repeating_fires [OF assms(4) t, of s' cb n] live s' t len fs
    by (auto simp: word_less_nat_alt)
qed

definition demo_callout :: "unit callout" where
  "demo_callout cb t ctx s = s"

definition demo_bl :: bl where
  "demo_bl = timer_init \<lparr>sys_tic = 5, timers = [], fired = []\<rparr>"

lemma demo_callout_keeps: "callouts_keep demo_callout j"
  by (simp add: callouts_keep_def demo_callout_def)

lemma demo_bl_allocate:
  "timer_allocate mode ms fc demo_bl = (6, set_timer 6 \<lparr>usr = (case fc of None \<Rightarrow> null_cb | Some f \<Rightarrow> f), t_count = ms,
     t_reload = ms, t_ctl = (mode AND (modeMsk OR running)) OR inuse\<rparr> demo_bl)"
  by (simp add: timer_allocate_def demo_bl_def timer_init_def OPT_BL_NUMBER_TIMERS_def zero_timer_def upt_rec [of _ 7] numeral_eq_Suc)

theorem timers_keep_time_witness:
  "timer_expired 6 ((nxsched_process_timer demo_callout ^^ 9)
     (snd (timer_allocate (modeTimeout OR modeStarted) 10 (Some \<lparr>cb_context = 1, cb_fn = Some 2\<rparr>) demo_bl))) = Some False \<and>
   fired_by 6 ((nxsched_process_timer demo_callout ^^ 9)
     (snd (timer_allocate (modeRepeating OR modeStarted) 4 (Some \<lparr>cb_context = 1, cb_fn = Some 2\<rparr>) demo_bl))) =
   [(2, 6, 1), (2, 6, 1)]"
proof -
  have len: "length (timers demo_bl) = OPT_BL_NUMBER_TIMERS"
    by (simp add: demo_bl_def timer_init_def)
  have a: "timer_allocate m ms f demo_bl = (6, snd (timer_allocate m ms f demo_bl))" for m ms f
    by (simp add: demo_bl_allocate)
  have "(6 :: u8) \<noteq> - 1" by simp
  note W = timers_keep_time [OF a this len demo_callout_keeps, where n = 9]
  have "replicate 2 y = [y, y]" for y :: "nat \<times> nat \<times> nat" by (simp add: numeral_2_eq_2)
  moreover have "fired_by (unat (6 :: u8)) demo_bl = []"
    by (simp add: fired_by_def demo_bl_def timer_init_def)
  ultimately show ?thesis
    using W [of modeTimeout 10 1 2] W [of modeRepeating 4 1 2] by simp
qed

end
