(* ===== verification/Can_Transfer.thy ===== *)
theory Can_Transfer
  imports Crc Can_Timer
begin

text \<open>
  UAVCAN transfers of the CAN bootloader, \<^verbatim>\<open>src/platforms/nuttx/src/canbootloader/protocol/uavcan.c\<close>. A transfer longer
  than one CAN frame is split into frames of seven bytes, with a CRC in front and a tail byte at the end of each
  frame. The CAN driver is a parameter: a function that accepts or refuses a frame for sending, and for receiving
  the sequence of polls of the receive loop, each with the frame found, if any, and the number of timer ticks that
  passed. Reading or writing outside a buffer is a fault.
\<close>

section \<open>Bit fields\<close>

definition BITFEILD_MASK :: "nat \<Rightarrow> nat \<Rightarrow> 'a :: len word" where
  "BITFEILD_MASK lsb_pos len = push_bit lsb_pos (mask len)"

definition fld_get :: "nat \<Rightarrow> nat \<Rightarrow> 'a :: len word \<Rightarrow> 'a word" where
  "fld_get pos len w = drop_bit pos (w AND BITFEILD_MASK pos len)"

definition fld_set :: "nat \<Rightarrow> nat \<Rightarrow> 'a :: len word \<Rightarrow> 'a word \<Rightarrow> 'a word" where
  "fld_set pos len v w = (w AND NOT (BITFEILD_MASK pos len)) OR (push_bit pos v AND BITFEILD_MASK pos len)"

lemma bit_BITFEILD_MASK [simp]:
  "bit (BITFEILD_MASK pos len :: 'a :: len word) n \<longleftrightarrow> pos \<le> n \<and> n < pos + len \<and> n < LENGTH('a)"
  by (auto simp: BITFEILD_MASK_def bit_simps)

lemma bit_fld_set [simp]:
  "bit (fld_set pos len v w) n \<longleftrightarrow> (if pos \<le> n \<and> n < pos + len then n < LENGTH('a) \<and> bit v (n - pos) else bit w n)"
  for v w :: "'a :: len word"
  by (auto simp: fld_set_def bit_simps dest: bit_imp_le_length)

section \<open>Identifiers and tail bytes\<close>

definition MaskUavCanMessageTypeID :: u32 where "MaskUavCanMessageTypeID = BITFEILD_MASK 8 16"
definition MaskUavCanMessageServiceNotMessage :: u32 where "MaskUavCanMessageServiceNotMessage = BITFEILD_MASK 7 1"
definition MaskUavCanMessageSourceNodeID :: u32 where "MaskUavCanMessageSourceNodeID = BITFEILD_MASK 0 7"
definition MaskUavCanAnonMessageServiceNotMessage :: u32 where "MaskUavCanAnonMessageServiceNotMessage = BITFEILD_MASK 7 1"
definition MaskUavCanServiceTypeID :: u32 where "MaskUavCanServiceTypeID = BITFEILD_MASK 16 8"
definition MaskUavCanServiceRequestNotResponse :: u32 where "MaskUavCanServiceRequestNotResponse = BITFEILD_MASK 15 1"
definition MaskUavCanServiceDestinationNodeID :: u32 where "MaskUavCanServiceDestinationNodeID = BITFEILD_MASK 8 7"
definition MaskUavCanServiceServiceNotMessage :: u32 where "MaskUavCanServiceServiceNotMessage = BITFEILD_MASK 7 1"
definition MaskUavCanStartOfTransfer :: u8 where "MaskUavCanStartOfTransfer = BITFEILD_MASK 7 1"
definition MaskUavCanEndOfTransfer :: u8 where "MaskUavCanEndOfTransfer = BITFEILD_MASK 6 1"
definition MaskUavCanToggle :: u8 where "MaskUavCanToggle = BITFEILD_MASK 5 1"
definition MaskUavCanTransferID :: u8 where "MaskUavCanTransferID = BITFEILD_MASK 0 5"

lemmas id_masks = MaskUavCanMessageTypeID_def MaskUavCanMessageServiceNotMessage_def MaskUavCanMessageSourceNodeID_def
  MaskUavCanAnonMessageServiceNotMessage_def MaskUavCanServiceTypeID_def MaskUavCanServiceRequestNotResponse_def
  MaskUavCanServiceDestinationNodeID_def MaskUavCanServiceServiceNotMessage_def
lemmas tail_masks = MaskUavCanStartOfTransfer_def MaskUavCanEndOfTransfer_def MaskUavCanToggle_def MaskUavCanTransferID_def

definition SingleFrameTailInit :: u8 where "SingleFrameTailInit = MaskUavCanStartOfTransfer OR MaskUavCanEndOfTransfer"
definition MultiFrameTailInit :: u8 where "MultiFrameTailInit = MaskUavCanStartOfTransfer"
definition BadTailState :: u8 where "BadTailState = MaskUavCanStartOfTransfer OR MaskUavCanToggle"
definition CanPayloadLength :: nat where [simp]: "CanPayloadLength = 8"
definition MaxUserPayloadLength :: nat where [simp]: "MaxUserPayloadLength = CanPayloadLength - 1"
definition PayloadOffsetCRClsb :: nat where [simp]: "PayloadOffsetCRClsb = 0"
definition PayloadOffsetCRCmsb :: nat where [simp]: "PayloadOffsetCRCmsb = 1"
definition PayloadOffsetCRCdata :: nat where [simp]: "PayloadOffsetCRCdata = 2"
definition ANY_NODE_ID :: u32 where [simp]: "ANY_NODE_ID = 0"

definition source_node_id :: "u32 \<Rightarrow> u32" where "source_node_id w = fld_get 0 7 w"
definition service_not_message :: "u32 \<Rightarrow> bool" where "service_not_message w \<longleftrightarrow> bit w 7"
definition set_source_node_id :: "u32 \<Rightarrow> u32 \<Rightarrow> u32" where "set_source_node_id v w = fld_set 0 7 v w"
definition set_dest_node_id :: "u32 \<Rightarrow> u32 \<Rightarrow> u32" where "set_dest_node_id v w = fld_set 8 7 v w"
definition set_priority :: "u32 \<Rightarrow> u32 \<Rightarrow> u32" where "set_priority v w = fld_set 24 5 v w"

definition transfer_id :: "u8 \<Rightarrow> u8" where "transfer_id t = fld_get 0 5 t"
definition toggle :: "u8 \<Rightarrow> bool" where "toggle t \<longleftrightarrow> bit t 5"
definition eot :: "u8 \<Rightarrow> bool" where "eot t \<longleftrightarrow> bit t 6"
definition sot :: "u8 \<Rightarrow> bool" where "sot t \<longleftrightarrow> bit t 7"
definition set_transfer_id :: "u8 \<Rightarrow> u8 \<Rightarrow> u8" where "set_transfer_id v t = fld_set 0 5 v t"
definition set_toggle :: "bool \<Rightarrow> u8 \<Rightarrow> u8" where "set_toggle b t = fld_set 5 1 (of_bool b) t"
definition set_eot :: "bool \<Rightarrow> u8 \<Rightarrow> u8" where "set_eot b t = fld_set 6 1 (of_bool b) t"
definition set_sot :: "bool \<Rightarrow> u8 \<Rightarrow> u8" where "set_sot b t = fld_set 7 1 (of_bool b) t"

record uavcan_protocol =
  can_id :: u32
  tail :: u8

section \<open>Transfer types\<close>

datatype uavcan_dsdl = DSDLMsgAllocation | DSDLMsgNodeStatus | DSDLReqGetNodeInfo | DSDLRspGetNodeInfo
  | DSDLReqBeginFirmwareUpdate | DSDLRspBeginFirmwareUpdate | DSDLReqGetInfo | DSDLRspGetInfo
  | DSDLReqRead | DSDLRspRead | DSDLMsgLogMessage

record dsdl_t =
  prototype :: u32
  signature_crc16 :: u16
  intail :: u8
  outtail :: u8
  mailbox :: nat
  fifo :: nat

definition UAVCAN_DSDL_MESG_DEF :: "u32 \<Rightarrow> u32" where
  "UAVCAN_DSDL_MESG_DEF dtid = fld_set 8 16 dtid 0"

definition UAVCAN_DSDL_SREQ_DEF :: "u32 \<Rightarrow> u32" where
  "UAVCAN_DSDL_SREQ_DEF dtid = fld_set 16 8 dtid (fld_set 15 1 1 (fld_set 7 1 1 0))"

definition UAVCAN_DSDL_SRSP_DEF :: "u32 \<Rightarrow> u32" where
  "UAVCAN_DSDL_SRSP_DEF dtid = fld_set 16 8 dtid (fld_set 15 1 0 (fld_set 7 1 1 0))"

fun dsdl_table :: "uavcan_dsdl \<Rightarrow> dsdl_t" where
  "dsdl_table DSDLMsgAllocation = \<lparr>prototype = UAVCAN_DSDL_MESG_DEF 1, signature_crc16 = 0xf258,
     intail = MultiFrameTailInit, outtail = SingleFrameTailInit, mailbox = 0, fifo = 0\<rparr>"
| "dsdl_table DSDLMsgNodeStatus = \<lparr>prototype = UAVCAN_DSDL_MESG_DEF 341, signature_crc16 = 0xbe5f,
     intail = SingleFrameTailInit, outtail = SingleFrameTailInit, mailbox = 1, fifo = 3\<rparr>"
| "dsdl_table DSDLReqGetNodeInfo = \<lparr>prototype = UAVCAN_DSDL_SREQ_DEF 1, signature_crc16 = 0xd9a7,
     intail = SingleFrameTailInit, outtail = MultiFrameTailInit, mailbox = 1, fifo = 1\<rparr>"
| "dsdl_table DSDLRspGetNodeInfo = \<lparr>prototype = UAVCAN_DSDL_SRSP_DEF 1, signature_crc16 = 0xd9a7,
     intail = SingleFrameTailInit, outtail = MultiFrameTailInit, mailbox = 1, fifo = 1\<rparr>"
| "dsdl_table DSDLReqBeginFirmwareUpdate = \<lparr>prototype = UAVCAN_DSDL_SREQ_DEF 40, signature_crc16 = 0x729e,
     intail = MultiFrameTailInit, outtail = SingleFrameTailInit, mailbox = 0, fifo = 0\<rparr>"
| "dsdl_table DSDLRspBeginFirmwareUpdate = \<lparr>prototype = UAVCAN_DSDL_SRSP_DEF 40, signature_crc16 = 0x729e,
     intail = MultiFrameTailInit, outtail = SingleFrameTailInit, mailbox = 0, fifo = 0\<rparr>"
| "dsdl_table DSDLReqGetInfo = \<lparr>prototype = UAVCAN_DSDL_SREQ_DEF 45, signature_crc16 = 0x14b9,
     intail = SingleFrameTailInit, outtail = MultiFrameTailInit, mailbox = 0, fifo = 0\<rparr>"
| "dsdl_table DSDLRspGetInfo = \<lparr>prototype = UAVCAN_DSDL_SRSP_DEF 45, signature_crc16 = 0x14b9,
     intail = SingleFrameTailInit, outtail = MultiFrameTailInit, mailbox = 0, fifo = 0\<rparr>"
| "dsdl_table DSDLReqRead = \<lparr>prototype = UAVCAN_DSDL_SREQ_DEF 48, signature_crc16 = 0x2f12,
     intail = SingleFrameTailInit, outtail = MultiFrameTailInit, mailbox = 0, fifo = 0\<rparr>"
| "dsdl_table DSDLRspRead = \<lparr>prototype = UAVCAN_DSDL_SRSP_DEF 48, signature_crc16 = 0x2f12,
     intail = SingleFrameTailInit, outtail = MultiFrameTailInit, mailbox = 0, fifo = 0\<rparr>"
| "dsdl_table DSDLMsgLogMessage = \<lparr>prototype = UAVCAN_DSDL_MESG_DEF 16383, signature_crc16 = 0x4570,
     intail = 0, outtail = SingleFrameTailInit, mailbox = 0, fifo = 0\<rparr>"

record uavcan_node =
  g_uavcan_priority :: u8
  g_this_node_id :: u8

definition load_dsdl_protocol :: "uavcan_node \<Rightarrow> uavcan_dsdl \<Rightarrow> bool \<Rightarrow> u8 \<Rightarrow> uavcan_protocol \<Rightarrow> uavcan_protocol" where
  "load_dsdl_protocol g dsdl rx_not_tx that_node_id p =
     (let d = dsdl_table dsdl;
          w = set_priority (ucast (g_uavcan_priority g)) (prototype d);
          t = tail p AND MaskUavCanTransferID
      in if rx_not_tx
         then p\<lparr>can_id := (if service_not_message (prototype d)
                            then set_source_node_id (ucast that_node_id) (set_dest_node_id (ucast (g_this_node_id g)) w)
                            else w),
                tail := t OR intail d\<rparr>
         else let w2 = set_source_node_id (ucast (g_this_node_id g)) w
              in p\<lparr>can_id := (if service_not_message (prototype d) then set_dest_node_id (ucast that_node_id) w2 else w2),
                   tail := t OR outtail d\<rparr>)"

section \<open>Sending\<close>

definition UavcanOk :: nat where [simp]: "UavcanOk = 0"
definition UavcanError :: nat where [simp]: "UavcanError = 3"

record can_frame =
  message_id :: u32
  frame_data :: "u8 list"

text \<open>The frames on the bus, and the driver's answer to a frame for a mailbox.\<close>

type_synonym can_driver = "can_frame list \<Rightarrow> can_frame \<Rightarrow> nat \<Rightarrow> nat"

definition uavcan_tx ::
  "can_driver \<Rightarrow> uavcan_protocol \<Rightarrow> u8 list \<Rightarrow> nat \<Rightarrow> nat \<Rightarrow> can_frame list \<Rightarrow> nat \<times> u8 list \<times> can_frame list" where
  "uavcan_tx can_tx p buf len mb bus =
     (let buf1 = buf[len := tail p]; f = \<lparr>message_id = can_id p, frame_data = take (len + 1) buf1\<rparr>;
          rv = can_tx bus f mb
      in (rv, buf1, if rv = UavcanOk then bus @ [f] else bus))"

fun tx_loop ::
  "can_driver \<Rightarrow> nat \<Rightarrow> u8 list \<Rightarrow> uavcan_protocol \<Rightarrow> u8 list \<Rightarrow> nat \<Rightarrow> can_frame list \<Rightarrow> nat \<times> uavcan_protocol \<times> can_frame list" where
  "tx_loop can_tx mb [] p buf m bus = (UavcanOk, p, bus)"
| "tx_loop can_tx mb (b # bs) p buf m bus =
     (let buf1 = buf[m := b]; p1 = p\<lparr>tail := set_eot (bs = []) (tail p)\<rparr>
      in if m + 1 = MaxUserPayloadLength \<or> eot (tail p1)
         then case uavcan_tx can_tx p1 buf1 (m + 1) mb bus of (rv, buf2, bus2) \<Rightarrow>
                if rv \<noteq> UavcanOk then (rv, p1, bus2)
                else tx_loop can_tx mb bs (p1\<lparr>tail := set_sot False (set_toggle (\<not> toggle (tail p1)) (tail p1))\<rparr>) buf2 0 bus2
         else tx_loop can_tx mb bs p1 buf1 (m + 1) bus)"

text \<open>The contents of the uninitialised frame buffer are the argument \<open>buf\<close>.\<close>

definition uavcan_tx_dsdl ::
  "can_driver \<Rightarrow> uavcan_node \<Rightarrow> uavcan_dsdl \<Rightarrow> uavcan_protocol \<Rightarrow> u8 list \<Rightarrow> u8 list \<Rightarrow> can_frame list \<Rightarrow>
   nat \<times> uavcan_protocol \<times> can_frame list" where
  "uavcan_tx_dsdl can_tx g dsdl p data buf bus =
     (let p1 = load_dsdl_protocol g dsdl False (ucast (source_node_id (can_id p))) p; d = dsdl_table dsdl
      in if length data > MaxUserPayloadLength
         then let c = crc16_signature (signature_crc16 d) data
              in tx_loop can_tx (mailbox d) data p1
                   (buf[PayloadOffsetCRClsb := ucast c, PayloadOffsetCRCmsb := ucast (drop_bit 8 c)]) PayloadOffsetCRCdata bus
         else tx_loop can_tx (mailbox d) data p1 buf 0 bus)"

section \<open>Receiving\<close>

record rx_frame =
  rx_id :: u32
  rx_dlc :: nat
  rx_bytes :: "u8 list"

definition uavcan_rx :: "rx_frame \<Rightarrow> (u32 \<times> u8 \<times> nat) option" where
  "uavcan_rx f = (if 0 < rx_dlc f \<and> rx_dlc f \<le> length (rx_bytes f)
                  then Some (rx_id f, rx_bytes f ! (rx_dlc f - 1), rx_dlc f - 1) else None)"

record 'a rx_state =
  protocol :: uavcan_protocol
  id_mask :: u32
  tail_mask :: u8
  transfer_crc :: u16
  total_rx :: nat
  transfer :: "u8 list"
  in_out_length :: nat
  bl_of :: "'a bl_scheme"

definition masks_Initialization :: "uavcan_protocol \<Rightarrow> u32 \<times> u8" where
  "masks_Initialization p =
     (if service_not_message (can_id p)
      then let m = MaskUavCanServiceTypeID OR MaskUavCanServiceRequestNotResponse OR MaskUavCanServiceDestinationNodeID OR
                   MaskUavCanServiceServiceNotMessage
           in if source_node_id (can_id p) \<noteq> ANY_NODE_ID then m OR MaskUavCanMessageSourceNodeID else m
      else if source_node_id (can_id p) = ANY_NODE_ID
      then MaskUavCanMessageTypeID OR MaskUavCanAnonMessageServiceNotMessage
      else MaskUavCanMessageTypeID OR MaskUavCanMessageServiceNotMessage OR MaskUavCanMessageSourceNodeID,
      MaskUavCanToggle OR MaskUavCanStartOfTransfer)"

definition masks_OnStartOfTransfer :: "'a rx_state \<Rightarrow> 'a rx_state" where
  "masks_OnStartOfTransfer st = st\<lparr>id_mask := id_mask st OR MaskUavCanMessageSourceNodeID,
                                   tail_mask := tail_mask st OR MaskUavCanTransferID\<rparr>"

definition rx_matches :: "'a rx_state \<Rightarrow> u32 \<Rightarrow> u8 \<Rightarrow> bool" where
  "rx_matches st rid rtail \<longleftrightarrow> \<not> (BadTailState = rtail AND BadTailState \<or>
     (rid XOR can_id (protocol st)) AND id_mask st \<noteq> 0 \<or> (rtail XOR tail (protocol st)) AND tail_mask st \<noteq> 0)"

datatype 'a rx_step = Continue "'a rx_state" | Break u8 "'a rx_state" | Fault

definition rx_start :: "u32 \<Rightarrow> u8 \<Rightarrow> u8 list \<Rightarrow> nat \<Rightarrow> 'a rx_state \<Rightarrow> 'a rx_state \<times> nat \<times> nat" where
  "rx_start rid rtail bytes len st =
     (let p = protocol st;
          p1 = p\<lparr>can_id := set_source_node_id (source_node_id rid) (can_id p),
                 tail := set_transfer_id (transfer_id rtail) (set_sot False (tail p))\<rparr>;
          st1 = masks_OnStartOfTransfer (st\<lparr>protocol := p1, total_rx := 0\<rparr>)
      in if eot rtail then (st1, 0, len)
         else (st1\<lparr>transfer_crc := push_bit 8 (ucast (bytes ! PayloadOffsetCRCmsb)) OR ucast (bytes ! PayloadOffsetCRClsb)\<rparr>,
               PayloadOffsetCRCdata, if len < 2 then 2 ^ 32 + len - 2 else len - 2))"

definition rx_reset :: "'a rx_state \<Rightarrow> 'a rx_state" where
  "rx_reset st =
     (let (im, tm) = masks_Initialization (protocol st); p = protocol st
      in st\<lparr>id_mask := im, tail_mask := tm, protocol := p\<lparr>tail := set_toggle False (set_sot True (tail p))\<rparr>\<rparr>)"

definition rx_copy :: "u8 \<Rightarrow> u8 list \<Rightarrow> nat \<Rightarrow> nat \<Rightarrow> 'a rx_state \<Rightarrow> 'a rx_step" where
  "rx_copy rtail bytes idx len st =
     (let fits = ((total_rx st + len) mod 2 ^ 32 \<le> in_out_length st) in
      if fits \<and> \<not> (idx + len \<le> length bytes \<and> total_rx st + len \<le> length (transfer st)) then Fault
      else let st1 = (if fits
                      then st\<lparr>transfer := take (total_rx st) (transfer st) @ take len (drop idx bytes) @
                                           drop (total_rx st + len) (transfer st),
                              total_rx := total_rx st + len\<rparr>
                      else st);
               p = protocol st1;
               st2 = st1\<lparr>protocol := p\<lparr>tail := set_toggle (\<not> toggle (tail p)) (tail p)\<rparr>\<rparr>
           in if eot rtail then Break rtail (st2\<lparr>in_out_length := total_rx st2\<rparr>) else Continue st2)"

definition rx_body :: "u8 \<Rightarrow> u32 \<Rightarrow> rx_frame \<Rightarrow> 'a rx_state \<Rightarrow> 'a rx_step" where
  "rx_body timer timeout_ms f st =
     (case uavcan_rx f of
        None \<Rightarrow> Fault
      | Some (rid, rtail, rlen) \<Rightarrow>
          if \<not> rx_matches st rid rtail then Continue st
          else case timer_restart timer timeout_ms (bl_of st) of
            None \<Rightarrow> Fault
          | Some b \<Rightarrow>
              let (st1, idx, len) = (if sot rtail then rx_start rid rtail (rx_bytes f) rlen (st\<lparr>bl_of := b\<rparr>)
                                     else (st\<lparr>bl_of := b\<rparr>, 0, rlen));
                  ptid = transfer_id (tail (protocol st1))
              in if transfer_id rtail > ptid \<or> total_rx st1 \<ge> in_out_length st1
                 then rx_copy rtail (rx_bytes f) idx len (rx_reset st1)
                 else if transfer_id rtail < ptid then Continue st1
                 else rx_copy rtail (rx_bytes f) idx len st1)"

datatype 'a rx_result = Polling "'a rx_state" | Faulted | Returned nat "'a rx_state"

definition rx_return :: "dsdl_t \<Rightarrow> u8 \<Rightarrow> bool \<Rightarrow> u8 \<Rightarrow> 'a rx_state \<Rightarrow> 'a rx_result" where
  "rx_return d timer timeout rtail st =
     (case timer_free timer (bl_of st) of
        None \<Rightarrow> Faulted
      | Some b \<Rightarrow> Returned (if \<not> timeout \<and> (sot rtail \<or>
                                transfer_crc st = crc16_signature (signature_crc16 d) (take (total_rx st) (transfer st)))
                            then UavcanOk else UavcanError) (st\<lparr>bl_of := b\<rparr>))"

fun rx_loop :: "'a callout \<Rightarrow> dsdl_t \<Rightarrow> u8 \<Rightarrow> u32 \<Rightarrow> (rx_frame option \<times> nat) list \<Rightarrow> 'a rx_state \<Rightarrow> 'a rx_result" where
  "rx_loop E d timer timeout_ms [] st = Polling st"
| "rx_loop E d timer timeout_ms ((poll, ticks) # polls) st =
     (case (case poll of None \<Rightarrow> Continue st | Some f \<Rightarrow> rx_body timer timeout_ms f st) of
        Fault \<Rightarrow> Faulted
      | Break rtail st1 \<Rightarrow> rx_return d timer False rtail st1
      | Continue st1 \<Rightarrow>
          let st2 = st1\<lparr>bl_of := (nxsched_process_timer E ^^ ticks) (bl_of st1)\<rparr>
          in case timer_expired timer (bl_of st2) of
               None \<Rightarrow> Faulted
             | Some True \<Rightarrow> rx_return d timer True 0 st2
             | Some False \<Rightarrow> rx_loop E d timer timeout_ms polls st2)"

definition uavcan_rx_dsdl ::
  "'a callout \<Rightarrow> uavcan_node \<Rightarrow> uavcan_dsdl \<Rightarrow> uavcan_protocol \<Rightarrow> u8 list \<Rightarrow> nat \<Rightarrow> u32 \<Rightarrow> (rx_frame option \<times> nat) list \<Rightarrow> 'a bl_scheme \<Rightarrow>
   'a rx_result" where
  "uavcan_rx_dsdl E g dsdl p buf in_len timeout_ms polls b =
     (let p1 = load_dsdl_protocol g dsdl True (ucast (source_node_id (can_id p))) p;
          (timer, b1) = timer_allocate (modeTimeout OR modeStarted) timeout_ms None b;
          (im, tm) = masks_Initialization p1
      in rx_loop E (dsdl_table dsdl) timer timeout_ms polls
           \<lparr>protocol = p1, id_mask = im, tail_mask = tm, transfer_crc = 0, total_rx = 0, transfer = buf,
            in_out_length = in_len, bl_of = b1\<rparr>)"

section \<open>The frames of a transfer\<close>

definition next_tail :: "u8 \<Rightarrow> u8" where
  "next_tail t = set_sot False (set_toggle (\<not> toggle t) t)"

text \<open>Frames of seven bytes and a tail, for a non-empty sequence of bytes; \<open>t\<close> is the tail byte of the first one.\<close>

function transfer_frames :: "u32 \<Rightarrow> u8 \<Rightarrow> u8 list \<Rightarrow> can_frame list" where
  "transfer_frames w t xs =
     (if length xs \<le> 7 then [\<lparr>message_id = w, frame_data = xs @ [set_eot True t]\<rparr>]
      else \<lparr>message_id = w, frame_data = take 7 xs @ [set_eot False t]\<rparr> #
           transfer_frames w (next_tail (set_eot False t)) (drop 7 xs))"
  by pat_completeness auto
termination
  by (relation "measure (\<lambda>(_, _, xs). length xs)") auto

declare transfer_frames.simps [simp del]

lemma bit_tail_set [simp]:
  "bit (set_eot b t) n = (if n = 6 then b else bit t n)"
  "bit (set_sot b t) n = (if n = 7 then b else bit t n)"
  "bit (set_toggle b t) n = (if n = 5 then b else bit t n)"
  by (auto simp: set_eot_def set_sot_def set_toggle_def bit_of_bool_iff)

lemma bit_next_tail [simp]: "bit (next_tail t) n = (if n = 7 then False else if n = 5 then \<not> bit t 5 else bit t n)"
  by (simp add: next_tail_def toggle_def)

lemma set_eot_idem [simp]: "set_eot b (set_eot c t) = set_eot b t"
  by (rule bit_word_eqI) simp

lemma eot_set_eot [simp]: "eot (set_eot b t) = b"
  by (simp add: eot_def)

lemma transfer_frames_eot: "transfer_frames w (set_eot b t) xs = transfer_frames w t xs"
  by (simp add: transfer_frames.simps [of w "set_eot b t"] transfer_frames.simps [of w t])

text \<open>When the driver took every frame, these are the frames on the bus.\<close>

lemma tx_loop_frames:
  "tx_loop can_tx mb bs p buf m bus = (UavcanOk, p', bus') \<Longrightarrow> bs \<noteq> [] \<Longrightarrow> m < 7 \<Longrightarrow> length buf = 8 \<Longrightarrow>
    bus' = bus @ transfer_frames (can_id p) (tail p) (take m buf @ bs)"
proof (induction bs arbitrary: p buf m bus)
  case (Cons b bs)
  let ?t = "set_eot (bs = []) (tail p)"
  have data: "take (m + 1 + 1) ((buf[m := b])[m + 1 := ?t]) = take m buf @ [b, ?t]"
    using Cons(4,5) by (simp add: take_Suc_conv_app_nth)
  show ?case
  proof (cases "bs = []")
    case True
    then show ?thesis
      using Cons(2,4,5) data by (auto simp: uavcan_tx_def Let_def transfer_frames.simps split: if_splits)
  next
    case False
    show ?thesis
    proof (cases "m = 6")
      case True
      have "transfer_frames (can_id p) (tail p) (take m buf @ b # bs) =
          \<lparr>message_id = can_id p, frame_data = take m buf @ [b, ?t]\<rparr> # transfer_frames (can_id p) (next_tail ?t) bs"
        using True False Cons(5) by (subst transfer_frames.simps) (simp add: Suc_le_eq)
      then show ?thesis
        using True False Cons(1) [of "p\<lparr>tail := next_tail ?t\<rparr>" "(buf[m := b])[m + 1 := ?t]" 0
            "bus @ [\<lparr>message_id = can_id p, frame_data = take m buf @ [b, ?t]\<rparr>]"] Cons(2,5) data
        by (simp add: uavcan_tx_def Let_def next_tail_def split: if_splits)
    next
      case m: False
      have "take (Suc m) (buf[m := b]) @ bs = take m buf @ b # bs"
        using Cons(4,5) by (simp add: take_Suc_conv_app_nth)
      then show ?thesis
        using m False Cons(1) [of "p\<lparr>tail := ?t\<rparr>" "buf[m := b]" "Suc m" bus] Cons(2,4,5)
        by (simp add: Let_def transfer_frames_eot)
    qed
  qed
qed simp

section \<open>The receive timer\<close>

text \<open>The receive timer has more than \<open>n\<close> ticks left.\<close>

definition timer_ok :: "u8 \<Rightarrow> nat \<Rightarrow> 'a bl_scheme \<Rightarrow> bool" where
  "timer_ok timer n b \<longleftrightarrow> length (timers b) = 7 \<and> unat timer < 7 \<and> live modeTimeout (timers b ! unat timer) \<and>
     n < unat (t_count (timers b ! unat timer))"

lemma timer_ok_restart:
  assumes "timer_ok timer n b" and "k < unat ms"
  shows "\<exists>b'. timer_restart timer ms b = Some b' \<and> timer_ok timer k b'"
proof -
  have "t_ctl (timers b ! unat timer) OR running = t_ctl (timers b ! unat timer)"
    using assms(1) by (auto simp: timer_ok_def live_def timer_consts)
  then show ?thesis
    using assms by (auto simp: timer_ok_def timer_restart_def with_timer_def live_def)
qed

lemma timer_ok_ticks:
  assumes "timer_ok timer (k + n) b" and "callouts_keep E (unat timer)"
  shows "timer_expired timer ((nxsched_process_timer E ^^ k) b) = Some False" and
    "timer_ok timer n ((nxsched_process_timer E ^^ k) b)"
proof -
  have *: "unat timer < 7" "length (timers b) = 7" "live modeTimeout (timers b ! unat timer)"
      "k + n < unat (t_count (timers b ! unat timer))"
    using assms(1) by (auto simp: timer_ok_def)
  show "timer_expired timer ((nxsched_process_timer E ^^ k) b) = Some False"
    using timeout_expired [OF assms(2) *(1-3), of k] *(4) by simp
  show "timer_ok timer n ((nxsched_process_timer E ^^ k) b)"
    using ticks_live [OF assms(2) *(1-3), of k] timeout_count [OF *(3), of k] * by (simp add: timer_ok_def)
qed

lemma timer_ok_free: "timer_ok timer n b \<Longrightarrow> timer_free timer b = Some (set_timer (unat timer) zero_timer b)"
  by (simp add: timer_ok_def timer_free_def with_timer_def)

lemma timer_ok_allocate:
  assumes "timer_allocate (modeTimeout OR modeStarted) ms None b = (timer, b')" and "timer \<noteq> - 1"
    and "length (timers b) = 7" and "n < unat ms"
  shows "timer_ok timer n b'"
  using allocate_some [OF assms(1-3)] assms(3,4) by (auto simp: timer_ok_def live_def timer_consts)

section \<open>Receiving the frames of a transfer\<close>

text \<open>A received frame with the bytes of a sent one; whatever follows them in the driver's eight bytes is not sent.\<close>

definition carries :: "can_frame \<Rightarrow> rx_frame \<Rightarrow> bool" where
  "carries f r \<longleftrightarrow> rx_id r = message_id f \<and> rx_dlc r = length (frame_data f) \<and> length (rx_bytes r) = 8 \<and>
     take (length (frame_data f)) (rx_bytes r) = frame_data f"

definition polled :: "(rx_frame option \<times> nat) list \<Rightarrow> rx_frame list" where
  "polled polls = List.map_filter fst polls"

lemma polled_simps [simp]:
  "polled [] = []" "polled ((None, n) # ps) = polled ps" "polled ((Some r, n) # ps) = r # polled ps"
  by (simp_all add: polled_def List.map_filter_simps)

lemma carries_rx:
  assumes "carries \<lparr>message_id = w, frame_data = xs @ [t]\<rparr> r" and "length xs \<le> 7"
  shows "uavcan_rx r = Some (w, t, length xs) \<and> take (length xs) (rx_bytes r) = xs \<and> length (rx_bytes r) = 8"
proof -
  have *: "rx_id r = w" "rx_dlc r = length xs + 1" "length (rx_bytes r) = 8" "take (length xs + 1) (rx_bytes r) = xs @ [t]"
    using assms(1) by (simp_all add: carries_def)
  have "rx_bytes r ! length xs = t"
    using arg_cong [OF *(4), of "\<lambda>l. l ! length xs"] by simp
  moreover have "take (length xs) (rx_bytes r) = xs"
    using arg_cong [OF *(4), of "take (length xs)"] by (simp add: min_def)
  ultimately show ?thesis
    using * assms(2) by (simp add: uavcan_rx_def)
qed

text \<open>The receiver expects a frame with identifier \<open>w\<close> and tail byte \<open>t\<close>, the end-of-transfer bit apart.\<close>

definition receiving :: "u32 \<Rightarrow> u8 \<Rightarrow> 'a rx_state \<Rightarrow> bool" where
  "receiving w t st \<longleftrightarrow> (w XOR can_id (protocol st)) AND id_mask st = 0 \<and>
     tail_mask st = MaskUavCanToggle OR MaskUavCanStartOfTransfer OR MaskUavCanTransferID \<and>
     \<not> sot t \<and> (\<forall>n. n \<noteq> 6 \<longrightarrow> bit (tail (protocol st)) n = bit t n)"

lemma receiving_matches:
  assumes "receiving w t st"
  shows "rx_matches st w (set_eot e t)" and "transfer_id (tail (protocol st)) = transfer_id (set_eot e t)"
    and "\<not> sot (set_eot e t)"
proof -
  have b: "\<not> bit t 7" "\<And>n. n \<noteq> 6 \<Longrightarrow> bit (tail (protocol st)) n = bit t n"
    using assms by (auto simp: receiving_def sot_def)
  have "bit BadTailState 7 \<noteq> bit (set_eot e t AND BadTailState) 7"
    using b(1) by (simp add: BadTailState_def tail_masks)
  then have "BadTailState \<noteq> set_eot e t AND BadTailState"
    by metis
  moreover have "(set_eot e t XOR tail (protocol st)) AND tail_mask st = 0"
    using assms b(2) by (intro bit_word_eqI) (auto simp: receiving_def tail_masks bit_xor_iff)
  ultimately show "rx_matches st w (set_eot e t)"
    using assms by (simp add: rx_matches_def receiving_def)
  show "transfer_id (tail (protocol st)) = transfer_id (set_eot e t)"
    by (rule bit_word_eqI) (auto simp: transfer_id_def fld_get_def bit_simps b(2))
  show "\<not> sot (set_eot e t)"
    using b(1) by (simp add: sot_def)
qed

text \<open>The bytes \<open>xs\<close> have been put behind those received so far.\<close>

definition appended :: "'a rx_state \<Rightarrow> u8 list \<Rightarrow> 'a rx_state \<Rightarrow> bool" where
  "appended st xs st' \<longleftrightarrow> total_rx st' = total_rx st + length xs \<and>
     transfer st' = take (total_rx st) (transfer st) @ xs @ drop (total_rx st + length xs) (transfer st) \<and>
     transfer_crc st' = transfer_crc st"

lemma appended_trans:
  assumes "appended st xs st'" and "appended st' ys st''" and "total_rx st + length xs + length ys \<le> length (transfer st)"
  shows "appended st (xs @ ys) st''"
proof -
  have "take (total_rx st') (transfer st') = take (total_rx st) (transfer st) @ xs"
    using assms(1,3) by (simp add: appended_def)
  then show ?thesis
    using assms by (simp add: appended_def ac_simps)
qed

lemma appended_length: "appended st xs st' \<Longrightarrow> total_rx st + length xs \<le> length (transfer st) \<Longrightarrow>
  length (transfer st') = length (transfer st)"
  by (simp add: appended_def)

lemma rx_body_next:
  assumes "receiving w t st" and "timer_ok timer n (bl_of st)" and "k < unat ms"
    and "carries \<lparr>message_id = w, frame_data = xs @ [set_eot e t]\<rparr> r" and "xs \<noteq> []" and "length xs \<le> 7"
    and "total_rx st + length xs \<le> in_out_length st" and "in_out_length st \<le> length (transfer st)" and "in_out_length st < 2 ^ 32"
  shows "\<exists>st'. rx_body timer ms r st = (if e then Break (set_eot e t) (st'\<lparr>in_out_length := total_rx st'\<rparr>) else Continue st') \<and>
    receiving w (next_tail (set_eot e t)) st' \<and> timer_ok timer k (bl_of st') \<and> appended st xs st' \<and>
    in_out_length st' = in_out_length st"
proof -
  have r: "uavcan_rx r = Some (w, set_eot e t, length xs)" "take (length xs) (rx_bytes r) = xs" "length (rx_bytes r) = 8"
    using carries_rx [OF assms(4,6)] by simp_all
  obtain b where b: "timer_restart timer ms (bl_of st) = Some b" "timer_ok timer k b"
    using timer_ok_restart [OF assms(2,3)] by auto
  have room: "total_rx st < in_out_length st"
    using assms(5,7) by (cases xs) auto
  define st' where "st' = st\<lparr>bl_of := b, transfer := take (total_rx st) (transfer st) @ xs @ drop (total_rx st + length xs) (transfer st),
    total_rx := total_rx st + length xs,
    protocol := (protocol st)\<lparr>tail := set_toggle (\<not> toggle (tail (protocol st))) (tail (protocol st))\<rparr>\<rparr>"
  have "rx_copy (set_eot e t) (rx_bytes r) 0 (length xs) (st\<lparr>bl_of := b\<rparr>) =
      (if e then Break (set_eot e t) (st'\<lparr>in_out_length := total_rx st'\<rparr>) else Continue st')"
    using assms(6-9) r by (simp add: rx_copy_def Let_def st'_def)
  then have "rx_body timer ms r st = (if e then Break (set_eot e t) (st'\<lparr>in_out_length := total_rx st'\<rparr>) else Continue st')"
    using r b(1) receiving_matches [OF assms(1), of e] room by (simp add: rx_body_def Let_def)
  moreover have "receiving w (next_tail (set_eot e t)) st'"
    using assms(1) by (auto simp: receiving_def st'_def toggle_def sot_def)
  ultimately show ?thesis
    using b(2) by (intro exI [of _ st']) (simp add: st'_def appended_def)
qed

text \<open>The loop has ended with the bytes \<open>xs\<close> received, in one frame or in several.\<close>

definition delivers :: "dsdl_t \<Rightarrow> u8 \<Rightarrow> bool \<Rightarrow> 'a rx_state \<Rightarrow> u8 list \<Rightarrow> 'a rx_result \<Rightarrow> bool" where
  "delivers d timer single st xs res \<longleftrightarrow> (\<exists>rt st'. res = rx_return d timer False rt st' \<and> sot rt = single \<and> timer_ok timer 0 (bl_of st') \<and>
     appended st xs st' \<and> in_out_length st' = total_rx st')"

lemma delivers_bl [simp]: "delivers d timer sg (st\<lparr>bl_of := b\<rparr>) xs res = delivers d timer sg st xs res"
  "delivers d timer sg (st\<lparr>bl_of := b, transfer_crc := c\<rparr>) xs res = delivers d timer sg (st\<lparr>transfer_crc := c\<rparr>) xs res"
  by (simp_all add: delivers_def appended_def)

lemma delivers_append:
  assumes "delivers d timer sg st' ys res" and "appended st xs st'" and "total_rx st + length xs + length ys \<le> length (transfer st)"
  shows "delivers d timer sg st (xs @ ys) res"
proof -
  from assms(1) obtain rt st'' where "res = rx_return d timer False rt st''" "sot rt = sg" "timer_ok timer 0 (bl_of st'')"
      "appended st' ys st''" "in_out_length st'' = total_rx st''"
    by (auto simp: delivers_def)
  then show ?thesis
    using appended_trans [OF assms(2) _ assms(3)] by (auto simp: delivers_def)
qed

text \<open>The rest of a transfer, with empty polls in between.\<close>

lemma rx_loop_rest:
  assumes "callouts_keep E (unat timer)"
  shows "receiving w t st \<Longrightarrow> timer_ok timer (sum_list (map snd polls)) (bl_of st) \<Longrightarrow>
    sum_list (map snd polls) < unat ms \<Longrightarrow> xs \<noteq> [] \<Longrightarrow> list_all2 carries (transfer_frames w t xs) (polled polls) \<Longrightarrow>
    total_rx st + length xs \<le> in_out_length st \<Longrightarrow> in_out_length st \<le> length (transfer st) \<Longrightarrow> in_out_length st < 2 ^ 32 \<Longrightarrow>
    delivers d timer False st xs (rx_loop E d timer ms polls st)"
proof (induction polls arbitrary: st t xs)
  case Nil
  then show ?case by (subst (asm) transfer_frames.simps) (auto split: if_splits)
next
  case (Cons poll polls)
  obtain po n where poll: "poll = (po, n)" by (cases poll)
  let ?m = "sum_list (map snd polls)"
  have tick: "timer_expired timer ((nxsched_process_timer E ^^ n) b) = Some False"
      "timer_ok timer ?m ((nxsched_process_timer E ^^ n) b)" if "timer_ok timer (n + ?m) b" for b
    using timer_ok_ticks [OF that assms] by simp_all
  show ?case
  proof (cases po)
    case None
    then show ?thesis
      using Cons(1) [of t "st\<lparr>bl_of := (nxsched_process_timer E ^^ n) (bl_of st)\<rparr>" xs] Cons(2-9) tick [of "bl_of st"] poll
      by (simp add: receiving_def)
  next
    case (Some r)
    show ?thesis
    proof (cases "length xs \<le> 7")
      case True
      then have "carries \<lparr>message_id = w, frame_data = xs @ [set_eot True t]\<rparr> r"
        using Cons(6) poll Some by (subst (asm) transfer_frames.simps) simp
      from rx_body_next [OF Cons(2,3) _ this Cons(5) True Cons(7,8,9), of 0 ms] Cons(4)
      obtain st' where "rx_body timer ms r st = Break (set_eot True t) (st'\<lparr>in_out_length := total_rx st'\<rparr>)"
          "timer_ok timer 0 (bl_of st')" "appended st xs st'"
        by auto
      then show ?thesis
        unfolding delivers_def using receiving_matches(3) [OF Cons(2), of True] poll Some
        by (intro exI [of _ "set_eot True t"] exI [of _ "st'\<lparr>in_out_length := total_rx st'\<rparr>"]) (simp add: appended_def)
    next
      case False
      have c: "carries \<lparr>message_id = w, frame_data = take 7 xs @ [set_eot False t]\<rparr> r"
        and rest: "list_all2 carries (transfer_frames w (next_tail (set_eot False t)) (drop 7 xs)) (polled polls)"
        using False Cons(6) poll Some by (subst (asm) transfer_frames.simps, simp)+
      have "take 7 xs \<noteq> []" "length (take 7 xs) \<le> 7" "total_rx st + length (take 7 xs) \<le> in_out_length st"
        using Cons(5,7) by auto
      from rx_body_next [OF Cons(2,3) Cons(4) c this Cons(8,9)]
      obtain st' where st': "rx_body timer ms r st = Continue st'" "receiving w (next_tail (set_eot False t)) st'"
          "timer_ok timer (n + ?m) (bl_of st')" "appended st (take 7 xs) st'" "in_out_length st' = in_out_length st"
        using poll by auto
      have "delivers d timer False st' (drop 7 xs) (rx_loop E d timer ms polls (st'\<lparr>bl_of := (nxsched_process_timer E ^^ n) (bl_of st')\<rparr>))"
        using Cons(1) [OF _ _ _ _ rest, of "st'\<lparr>bl_of := (nxsched_process_timer E ^^ n) (bl_of st')\<rparr>"] st'(2,4,5)
          tick(2) [OF st'(3)] Cons(4,7,8,9) False poll appended_length [OF st'(4)]
        by (simp add: receiving_def appended_def)
      from delivers_append [OF this st'(4)] show ?thesis
        using st'(1) tick(1) [OF st'(3)] poll Some Cons(7,8) by simp
    qed
  qed
qed

section \<open>The first frame\<close>

lemma bit_fields [simp]:
  "bit (source_node_id w) n \<longleftrightarrow> n < 7 \<and> bit w n" "bit (transfer_id t) n \<longleftrightarrow> n < 5 \<and> bit t n"
  "bit (set_source_node_id v w) n \<longleftrightarrow> (if n < 7 then bit v n else bit w n)"
  "bit (set_dest_node_id v w) n \<longleftrightarrow> (if 8 \<le> n \<and> n < 15 then bit v (n - 8) else bit w n)"
  "bit (set_priority v w) n \<longleftrightarrow> (if 24 \<le> n \<and> n < 29 then bit v (n - 24) else bit w n)"
  "bit (set_transfer_id u t) n \<longleftrightarrow> (if n < 5 then bit u n else bit t n)"
  by (auto simp: source_node_id_def transfer_id_def fld_get_def bit_drop_bit_eq set_source_node_id_def set_dest_node_id_def
      set_priority_def set_transfer_id_def dest: bit_imp_le_length)

definition expecting :: "u32 \<Rightarrow> u8 \<Rightarrow> 'a rx_state \<Rightarrow> bool" where
  "expecting w t st \<longleftrightarrow> (w XOR can_id (protocol st)) AND id_mask st = 0 \<and>
     tail_mask st = MaskUavCanToggle OR MaskUavCanStartOfTransfer \<and> sot t \<and> \<not> toggle t \<and>
     sot (tail (protocol st)) \<and> \<not> toggle (tail (protocol st)) \<and> total_rx st = 0"

lemma expecting_matches:
  assumes "expecting w t st"
  shows "rx_matches st w (set_eot e t)" and "sot (set_eot e t)"
proof -
  have b: "bit t 7" "\<not> bit t 5" "bit (tail (protocol st)) 7" "\<not> bit (tail (protocol st)) 5"
    using assms by (auto simp: expecting_def sot_def toggle_def)
  have "bit BadTailState 5 \<noteq> bit (set_eot e t AND BadTailState) 5"
    using b by (simp add: BadTailState_def tail_masks)
  then have "BadTailState \<noteq> set_eot e t AND BadTailState"
    by metis
  moreover have "(set_eot e t XOR tail (protocol st)) AND tail_mask st = 0"
  proof (rule bit_word_eqI)
    fix n
    have "bit (tail_mask st) n \<Longrightarrow> n = 5 \<or> n = 7"
      using assms by (auto simp: expecting_def tail_masks)
    then show "bit ((set_eot e t XOR tail (protocol st)) AND tail_mask st) n = bit 0 n"
      using b by (auto simp: bit_xor_iff)
  qed
  ultimately show "rx_matches st w (set_eot e t)"
    using assms by (simp add: rx_matches_def expecting_def)
  show "sot (set_eot e t)"
    using b by (simp add: sot_def)
qed

text \<open>The state after the identifier and the transfer id of the first frame have been taken over.\<close>

definition captured :: "u32 \<Rightarrow> u8 \<Rightarrow> 'a rx_state \<Rightarrow> 'a rx_state" where
  "captured w rt st = masks_OnStartOfTransfer (st\<lparr>protocol := (protocol st)
     \<lparr>can_id := set_source_node_id (source_node_id w) (can_id (protocol st)),
      tail := set_transfer_id (transfer_id rt) (set_sot False (tail (protocol st)))\<rparr>, total_rx := 0\<rparr>)"

lemma captured_tid: "transfer_id (tail (protocol (captured w rt st))) = transfer_id rt"
  by (rule bit_word_eqI) (auto simp: captured_def masks_OnStartOfTransfer_def)

lemma captured_receiving:
  assumes "expecting w t st"
  shows "receiving w (next_tail (set_eot e t)) ((captured w (set_eot e t) st)\<lparr>bl_of := b, transfer := tr, total_rx := k, transfer_crc := c,
    protocol := (protocol (captured w (set_eot e t) st))\<lparr>tail :=
      set_toggle (\<not> toggle (tail (protocol (captured w (set_eot e t) st)))) (tail (protocol (captured w (set_eot e t) st)))\<rparr>\<rparr>)"
proof -
  have b: "bit t 7" "\<not> bit t 5" "bit (tail (protocol st)) 7" "\<not> bit (tail (protocol st)) 5"
    using assms by (auto simp: expecting_def sot_def toggle_def)
  have "bit w n = bit (can_id (protocol st)) n" if "bit (id_mask st) n" for n
    using assms that bit_imp_le_length [OF that] by (auto simp: expecting_def bit_eq_iff bit_xor_iff)
  then have "(w XOR set_source_node_id (source_node_id w) (can_id (protocol st))) AND
      (id_mask st OR MaskUavCanMessageSourceNodeID) = 0"
    by (intro bit_word_eqI) (auto simp: id_masks bit_xor_iff)
  moreover have "bit v n \<Longrightarrow> n < 5 \<or> n = 5 \<or> n = 6 \<or> n = 7" for v :: u8 and n
    using bit_imp_le_length [of v n] by auto
  ultimately show ?thesis
    using assms b
    by (auto simp: receiving_def expecting_def captured_def masks_OnStartOfTransfer_def sot_def toggle_def or.assoc)
qed

lemma rx_start_captured:
  assumes "\<not> e \<Longrightarrow> 2 < length xs" and "\<And>j. j < length xs \<Longrightarrow> xs ! j = bytes ! j"
  shows "rx_start w (set_eot e t) bytes (length xs) (st\<lparr>bl_of := b\<rparr>) =
    ((captured w (set_eot e t) st)\<lparr>bl_of := b, transfer_crc := if e then transfer_crc st else push_bit 8 (ucast (xs ! 1)) OR ucast (xs ! 0)\<rparr>,
     if e then 0 else 2, if e then length xs else length xs - 2)"
proof (cases e)
  case False
  then have "2 < length xs" by (rule assms(1))
  then have "xs ! 0 = bytes ! 0" "xs ! 1 = bytes ! 1" "\<not> length xs < 2"
    using assms(2) [of 0] assms(2) [of 1] by (auto simp del: length_greater_0_conv)
  then show ?thesis
    using False by (simp add: rx_start_def Let_def captured_def masks_OnStartOfTransfer_def)
qed (simp add: rx_start_def Let_def captured_def masks_OnStartOfTransfer_def)

lemma rx_body_first:
  assumes "expecting w t st" and "timer_ok timer n (bl_of st)" and "k < unat ms"
    and "carries \<lparr>message_id = w, frame_data = xs @ [set_eot e t]\<rparr> r" and "length xs \<le> 7"
    and "ys = (if e then xs else drop 2 xs)" and "ys \<noteq> []"
    and "length ys \<le> in_out_length st" and "in_out_length st \<le> length (transfer st)" and "in_out_length st < 2 ^ 32"
  shows "\<exists>st'. rx_body timer ms r st = (if e then Break (set_eot e t) (st'\<lparr>in_out_length := total_rx st'\<rparr>) else Continue st') \<and>
    receiving w (next_tail (set_eot e t)) st' \<and> timer_ok timer k (bl_of st') \<and> in_out_length st' = in_out_length st \<and>
    appended (st\<lparr>transfer_crc := if e then transfer_crc st else push_bit 8 (ucast (xs ! 1)) OR ucast (xs ! 0)\<rparr>) ys st'"
proof -
  have r: "uavcan_rx r = Some (w, set_eot e t, length xs)" "take (length xs) (rx_bytes r) = xs" "length (rx_bytes r) = 8"
    using carries_rx [OF assms(4,5)] by simp_all
  have xs: "xs ! j = rx_bytes r ! j" if "j < length xs" for j
    using that r(2) by (metis nth_take)
  obtain b where b: "timer_restart timer ms (bl_of st) = Some b" "timer_ok timer k b"
    using timer_ok_restart [OF assms(2,3)] by auto
  have tot: "total_rx st = 0" using assms(1) by (simp add: expecting_def)
  define crc where "crc = (if e then transfer_crc st else push_bit 8 (ucast (xs ! 1)) OR ucast (xs ! 0))"
  define c where "c = captured w (set_eot e t) st"
  define st' where "st' = c\<lparr>bl_of := b, transfer := ys @ drop (length ys) (transfer st), total_rx := length ys, transfer_crc := crc,
    protocol := (protocol c)\<lparr>tail := set_toggle (\<not> toggle (tail (protocol c))) (tail (protocol c))\<rparr>\<rparr>"
  have two: "\<not> length xs \<le> 2 \<Longrightarrow> Suc (Suc (length xs - 2)) = length xs" by simp
  have ys: "take (length ys) (drop (if e then 0 else 2) (rx_bytes r)) = ys" "length ys = (if e then length xs else length xs - 2)"
      "\<not> e \<Longrightarrow> 2 < length xs"
    using assms(5-7) r(2,3) two by (auto simp: take_drop)
  have bound: "(if e then 0 else 2) + length ys \<le> 8"
    using assms(5) ys(2,3) by (auto split: if_splits)
  have "rx_copy (set_eot e t) (rx_bytes r) (if e then 0 else 2) (length ys) (c\<lparr>bl_of := b, transfer_crc := crc\<rparr>) =
      (if e then Break (set_eot e t) (st'\<lparr>in_out_length := total_rx st'\<rparr>) else Continue st')"
    using assms(8-10) ys(1) bound r(3)
    by (cases e) (simp_all add: rx_copy_def Let_def st'_def c_def captured_def masks_OnStartOfTransfer_def)
  moreover have "rx_start w (set_eot e t) (rx_bytes r) (length xs) (st\<lparr>bl_of := b\<rparr>) =
      (c\<lparr>bl_of := b, transfer_crc := crc\<rparr>, if e then 0 else 2, length ys)"
    using rx_start_captured [where e = e and xs = xs and bytes = "rx_bytes r" and st = st] ys(2,3) xs by (simp add: c_def crc_def)
  moreover have "\<not> in_out_length st \<le> 0"
    using assms(7,8) by (cases ys) auto
  ultimately have "rx_body timer ms r st = (if e then Break (set_eot e t) (st'\<lparr>in_out_length := total_rx st'\<rparr>) else Continue st')"
    using r(1) b(1) expecting_matches [OF assms(1), of e] captured_tid [of w "set_eot e t" st]
    by (simp add: rx_body_def Let_def c_def captured_def masks_OnStartOfTransfer_def)
  moreover have "receiving w (next_tail (set_eot e t)) st'"
    using captured_receiving [OF assms(1)] by (simp add: st'_def c_def)
  ultimately show ?thesis
    using b(2) tot
    by (intro exI [of _ st']) (auto simp: st'_def c_def captured_def masks_OnStartOfTransfer_def appended_def crc_def)
qed

section \<open>Whole transfers\<close>

text \<open>The bytes of a transfer as they are split into frames, with the checksum \<open>c\<close> in front if there are several.\<close>

definition transfer_bytes :: "u16 \<Rightarrow> u8 list \<Rightarrow> u8 list" where
  "transfer_bytes c data = (if length data \<le> 7 then data else ucast c # ucast (drop_bit 8 c) # data)"

lemma join_crc: "push_bit 8 (ucast (ucast (drop_bit 8 c) :: u8)) OR ucast (ucast c :: u8) = (c :: u16)"
  by (rule bit_word_eqI) (auto simp: bit_simps)

lemma rx_loop_multi:
  assumes keep: "callouts_keep E (unat timer)" and "expecting w t st" and "timer_ok timer k (bl_of st)"
    and ticks: "n + sum_list (map snd polls) < unat ms"
    and "carries \<lparr>message_id = w, frame_data = (ucast c # ucast (drop_bit 8 c) # take 5 data) @ [set_eot False t]\<rparr> r"
    and rest: "list_all2 carries (transfer_frames w (next_tail (set_eot False t)) (drop 5 data)) (polled polls)"
    and long: "7 < length data" and "length data \<le> in_out_length st" and "in_out_length st \<le> length (transfer st)"
    and "in_out_length st < 2 ^ 32"
  shows "delivers d timer False (st\<lparr>transfer_crc := c\<rparr>) data (rx_loop E d timer ms ((Some r, n) # polls) st)"
proof -
  have "take 5 data \<noteq> []" "length (take 5 data) \<le> in_out_length st" "length (ucast c # ucast (drop_bit 8 c) # take 5 data) \<le> 7"
    using long assms(8) by auto
  with rx_body_first [OF assms(2,3) ticks assms(5), of "take 5 data"] assms(9,10)
  obtain st' where st': "rx_body timer ms r st = Continue st'" "receiving w (next_tail (set_eot False t)) st'"
      "timer_ok timer (n + sum_list (map snd polls)) (bl_of st')" "in_out_length st' = in_out_length st"
      "appended (st\<lparr>transfer_crc := c\<rparr>) (take 5 data) st'"
    by (auto simp: join_crc)
  let ?st = "st'\<lparr>bl_of := (nxsched_process_timer E ^^ n) (bl_of st')\<rparr>"
  note t = timer_ok_ticks [OF st'(3) keep]
  have "total_rx st = 0" using assms(2) by (simp add: expecting_def)
  then have "delivers d timer False st' (drop 5 data) (rx_loop E d timer ms polls ?st)"
    using rx_loop_rest [OF keep _ _ _ _ rest, of ?st ms d] st'(2,4,5) t(2) ticks long assms(8-10)
      appended_length [OF st'(5)]
    by (simp add: receiving_def appended_def)
  from delivers_append [OF this st'(5)] show ?thesis
    using st'(1) t(1) \<open>total_rx st = 0\<close> assms(8,9) long by simp
qed

lemma rx_loop_transfer:
  assumes "callouts_keep E (unat timer)" and "data \<noteq> []" and "sum_list (map snd polls) < unat ms"
  shows "expecting w t st \<Longrightarrow> timer_ok timer (sum_list (map snd polls)) (bl_of st) \<Longrightarrow>
    list_all2 carries (transfer_frames w t (transfer_bytes c data)) (polled polls) \<Longrightarrow>
    length data \<le> in_out_length st \<Longrightarrow> in_out_length st \<le> length (transfer st) \<Longrightarrow> in_out_length st < 2 ^ 32 \<Longrightarrow>
    \<exists>c'. (length data > 7 \<longrightarrow> c' = c) \<and>
      delivers d timer (length data \<le> 7) (st\<lparr>transfer_crc := c'\<rparr>) data (rx_loop E d timer ms polls st)"
  using assms(3)
proof (induction polls arbitrary: st)
  case Nil
  then show ?case by (subst (asm) transfer_frames.simps) (auto split: if_splits)
next
  case (Cons poll polls)
  obtain po n where poll: "poll = (po, n)" by (cases poll)
  let ?m = "sum_list (map snd polls)"
  have tick: "timer_expired timer ((nxsched_process_timer E ^^ n) b) = Some False"
      "timer_ok timer ?m ((nxsched_process_timer E ^^ n) b)" if "timer_ok timer (n + ?m) b" for b
    using timer_ok_ticks [OF that assms(1)] by simp_all
  show ?case
  proof (cases po)
    case None
    then show ?thesis
      using Cons(1) [of "st\<lparr>bl_of := (nxsched_process_timer E ^^ n) (bl_of st)\<rparr>"] Cons(2-8) tick [of "bl_of st"] poll
      by (simp add: expecting_def)
  next
    case (Some r)
    show ?thesis
    proof (cases "length data \<le> 7")
      case True
      then have "carries \<lparr>message_id = w, frame_data = data @ [set_eot True t]\<rparr> r"
        using Cons(4) poll Some by (subst (asm) transfer_frames.simps) (simp add: transfer_bytes_def)
      from rx_body_first [OF Cons(2,3) _ this True, of 0 ms data] Cons(5-8) assms(2)
      obtain st' where "rx_body timer ms r st = Break (set_eot True t) (st'\<lparr>in_out_length := total_rx st'\<rparr>)"
          "timer_ok timer 0 (bl_of st')" "appended (st\<lparr>transfer_crc := transfer_crc st\<rparr>) data st'"
        by auto
      then have "delivers d timer True (st\<lparr>transfer_crc := transfer_crc st\<rparr>) data (rx_loop E d timer ms (poll # polls) st)"
        unfolding delivers_def using expecting_matches(2) [OF Cons(2), of True] poll Some
        by (intro exI [of _ "set_eot True t"] exI [of _ "st'\<lparr>in_out_length := total_rx st'\<rparr>"]) (simp add: appended_def)
      then show ?thesis using True by (intro exI [of _ "transfer_crc st"]) simp
    next
      case False
      then have "carries \<lparr>message_id = w, frame_data = (ucast c # ucast (drop_bit 8 c) # take 5 data) @ [set_eot False t]\<rparr> r"
        and "list_all2 carries (transfer_frames w (next_tail (set_eot False t)) (drop 5 data)) (polled polls)"
        using Cons(4) poll Some by (subst (asm) transfer_frames.simps, simp add: transfer_bytes_def)+
      from rx_loop_multi [OF assms(1) Cons(2,3) _ this _ Cons(5,6,7)] Cons(8) False show ?thesis
        using poll Some by auto
    qed
  qed
qed

section \<open>Sender and receiver\<close>

text \<open>
  A service transfer is addressed to the receiver, and the receiver waits for the sender or for any node. Messages
  have no destination, and are received from any node.
\<close>

definition addressed :: "uavcan_dsdl \<Rightarrow> uavcan_node \<Rightarrow> uavcan_protocol \<Rightarrow> uavcan_node \<Rightarrow> uavcan_protocol \<Rightarrow> bool" where
  "addressed dsdl gt pt gr pr \<longleftrightarrow> (service_not_message (prototype (dsdl_table dsdl)) \<longrightarrow>
     source_node_id (can_id pt) = ucast (g_this_node_id gr) \<and> source_node_id (can_id pr) \<in> {ANY_NODE_ID, ucast (g_this_node_id gt)})"

lemma dsdl_facts:
  "bit (outtail (dsdl_table x)) 7" "\<not> bit (outtail (dsdl_table x)) 5" "x \<noteq> DSDLMsgLogMessage \<Longrightarrow> bit (intail (dsdl_table x)) 7"
  "\<not> bit (intail (dsdl_table x)) 5"
  "\<not> service_not_message (prototype (dsdl_table x)) \<Longrightarrow> n < 7 \<Longrightarrow> \<not> bit (prototype (dsdl_table x)) n"
  by (cases x; simp add: SingleFrameTailInit_def MultiFrameTailInit_def tail_masks UAVCAN_DSDL_MESG_DEF_def UAVCAN_DSDL_SREQ_DEF_def
      UAVCAN_DSDL_SRSP_DEF_def service_not_message_def)+

lemma ids_match:
  assumes "addressed dsdl gt pt gr pr"
    and w: "w = can_id (load_dsdl_protocol gt dsdl False (ucast (source_node_id (can_id pt))) pt)"
    and v: "v = load_dsdl_protocol gr dsdl True (ucast (source_node_id (can_id pr))) pr"
  shows "(w XOR can_id v) AND fst (masks_Initialization v) = 0"
proof (rule bit_word_eqI)
  fix n
  let ?p = "prototype (dsdl_table dsdl)"
  have cast: "bit (ucast (ucast (source_node_id x) :: u8) :: u32) k \<longleftrightarrow> bit (source_node_id x) k" for x k
    by (auto simp: bit_simps)
  have "bit w n = bit (can_id v) n" if "bit (fst (masks_Initialization v)) n"
  proof (cases "service_not_message ?p")
    case True
    then have *: "source_node_id (can_id pt) = ucast (g_this_node_id gr)"
        "source_node_id (can_id pr) \<in> {0, ucast (g_this_node_id gt)}"
      using assms(1) by (auto simp: addressed_def)
    have src: "source_node_id (can_id v) = source_node_id (can_id pr)"
      by (rule bit_word_eqI) (use True in \<open>auto simp: v load_dsdl_protocol_def Let_def cast\<close>)
    have dest: "bit (source_node_id (can_id pt)) (n - 8) = bit (ucast (g_this_node_id gr) :: u32) (n - 8)"
      using *(1) by simp
    have "bit (can_id pr) n = bit (ucast (g_this_node_id gt) :: u32) n" if "source_node_id (can_id pr) \<noteq> 0" "n < 7"
      using *(2) that bit_fields(1) [of "can_id pr" n] by auto
    then show ?thesis
      using that True src dest unfolding masks_Initialization_def
      by (auto simp: id_masks w v load_dsdl_protocol_def Let_def cast service_not_message_def split: if_splits)
  next
    case False
    have "source_node_id (can_id v) = 0"
      by (rule bit_word_eqI) (use False dsdl_facts(5) in \<open>auto simp: v load_dsdl_protocol_def Let_def\<close>)
    then show ?thesis
      using that False unfolding masks_Initialization_def
      by (auto simp: id_masks w v load_dsdl_protocol_def Let_def service_not_message_def split: if_splits)
  qed
  then show "bit ((w XOR can_id v) AND fst (masks_Initialization v)) n = bit 0 n"
    by (auto simp: bit_xor_iff)
qed

lemma tx_dsdl_frames:
  assumes "uavcan_tx_dsdl can_tx gt dsdl pt data buf bus = (UavcanOk, pt', bus @ frames)" and "data \<noteq> []" and "length buf = 8"
    and "p1 = load_dsdl_protocol gt dsdl False (ucast (source_node_id (can_id pt))) pt"
  shows "frames = transfer_frames (can_id p1) (tail p1)
           (transfer_bytes (crc16_signature (signature_crc16 (dsdl_table dsdl)) data) data)"
proof -
  obtain b0 b1 rest where "buf = b0 # b1 # rest"
    using assms(3) by (auto simp: numeral_eq_Suc length_Suc_conv)
  note buf = this
  let ?mb = "mailbox (dsdl_table dsdl)" and ?c = "crc16_signature (signature_crc16 (dsdl_table dsdl)) data"
  show ?thesis
  proof (cases "length data \<le> 7")
    case True
    then show ?thesis
      using assms tx_loop_frames [of can_tx ?mb data p1 buf 0 bus pt' "bus @ frames"]
      by (simp add: uavcan_tx_dsdl_def transfer_bytes_def Let_def)
  next
    case False
    then show ?thesis
      using assms tx_loop_frames [of can_tx ?mb data p1 "ucast ?c # ucast (drop_bit 8 ?c) # rest" 2 bus pt' "bus @ frames"] buf
      by (simp add: uavcan_tx_dsdl_def transfer_bytes_def Let_def)
  qed
qed

text \<open>What the receiver makes of frames with checksum \<open>c\<close> and data \<open>data\<close> from an addressed sender.\<close>

lemma rx_dsdl_frames:
  assumes "dsdl \<noteq> DSDLMsgLogMessage" and "addressed dsdl gt pt gr pr"
    and p1: "p1 = load_dsdl_protocol gt dsdl False (ucast (source_node_id (can_id pt))) pt"
    and "list_all2 carries (transfer_frames (can_id p1) (tail p1) (transfer_bytes c data)) (polled polls)"
    and "data \<noteq> []" and "sum_list (map snd polls) < unat ms"
    and "length data \<le> in_len" and "in_len \<le> length buf" and "in_len < 2 ^ 32"
    and "length (timers b) = 7" and "fst (timer_allocate (modeTimeout OR modeStarted) ms None b) \<noteq> - 1"
    and "\<forall>j<7. callouts_keep E j"
  shows "\<exists>st. uavcan_rx_dsdl E gr dsdl pr buf in_len ms polls b =
       Returned (if length data \<le> 7 \<or> c = crc16_signature (signature_crc16 (dsdl_table dsdl)) data then UavcanOk else UavcanError) st \<and>
     in_out_length st = length data \<and> transfer st = data @ drop (length data) buf"
proof -
  define v where "v = load_dsdl_protocol gr dsdl True (ucast (source_node_id (can_id pr))) pr"
  obtain timer b1 where tm: "timer_allocate (modeTimeout OR modeStarted) ms None b = (timer, b1)" "timer \<noteq> - 1"
    using assms(11) by (cases "timer_allocate (modeTimeout OR modeStarted) ms None b") auto
  define st where "st = \<lparr>protocol = v, id_mask = fst (masks_Initialization v), tail_mask = snd (masks_Initialization v),
    transfer_crc = 0, total_rx = 0, transfer = buf, in_out_length = in_len, bl_of = b1\<rparr>"
  have ok: "timer_ok timer (sum_list (map snd polls)) (bl_of st)"
    using timer_ok_allocate [OF tm assms(10,6)] by (simp add: st_def)
  then have keep: "callouts_keep E (unat timer)"
    using assms(12) by (simp add: timer_ok_def)
  have "expecting (can_id p1) (tail p1) st"
    using ids_match [OF assms(2) arg_cong [OF p1, of can_id] v_def] dsdl_facts(1-4) [of dsdl] assms(1)
    by (simp add: expecting_def st_def masks_Initialization_def sot_def toggle_def v_def p1 load_dsdl_protocol_def Let_def tail_masks)
  with ok keep obtain c' where c': "length data > 7 \<longrightarrow> c' = c"
      "delivers (dsdl_table dsdl) timer (length data \<le> 7) (st\<lparr>transfer_crc := c'\<rparr>) data (rx_loop E (dsdl_table dsdl) timer ms polls st)"
    using rx_loop_transfer [of E timer data polls ms "can_id p1" "tail p1" st c "dsdl_table dsdl"] assms(4-9)
    by (auto simp: st_def)
  obtain rt st' where st': "rx_loop E (dsdl_table dsdl) timer ms polls st = rx_return (dsdl_table dsdl) timer False rt st'"
      "sot rt = (length data \<le> 7)" "timer_ok timer 0 (bl_of st')" "appended (st\<lparr>transfer_crc := c'\<rparr>) data st'"
      "in_out_length st' = total_rx st'"
    using c'(2) by (auto simp: delivers_def)
  have "uavcan_rx_dsdl E gr dsdl pr buf in_len ms polls b = rx_loop E (dsdl_table dsdl) timer ms polls st"
    by (simp add: uavcan_rx_dsdl_def v_def st_def tm(1) case_prod_unfold Let_def)
  then show ?thesis
    using st' c'(1) timer_ok_free [OF st'(3)] by (auto simp: rx_return_def appended_def st_def)
qed

lemma transfer_arrives:
  assumes "uavcan_tx_dsdl can_tx gt dsdl pt data junk bus = (UavcanOk, pt', bus @ frames)" and "data \<noteq> []"
    and "length junk = CanPayloadLength" and "dsdl \<noteq> DSDLMsgLogMessage" and "addressed dsdl gt pt gr pr"
    and "list_all2 carries frames (polled polls)" and "sum_list (map snd polls) < unat timeout_ms"
    and "length data \<le> in_len" and "in_len \<le> length buf" and "in_len < 2 ^ 32"
    and "length (timers b) = 7" and "fst (timer_allocate (modeTimeout OR modeStarted) timeout_ms None b) \<noteq> - 1"
    and "\<forall>j<7. callouts_keep E j"
  shows "\<exists>st. uavcan_rx_dsdl E gr dsdl pr buf in_len timeout_ms polls b = Returned UavcanOk st \<and>
     in_out_length st = length data \<and> transfer st = data @ drop (length data) buf"
proof -
  define p1 where "p1 = load_dsdl_protocol gt dsdl False (ucast (source_node_id (can_id pt))) pt"
  define c where "c = crc16_signature (signature_crc16 (dsdl_table dsdl)) data"
  have "frames = transfer_frames (can_id p1) (tail p1) (transfer_bytes c data)"
    using tx_dsdl_frames [OF assms(1,2) _ p1_def] assms(3) by (simp add: c_def)
  with assms(6) have "list_all2 carries (transfer_frames (can_id p1) (tail p1) (transfer_bytes c data)) (polled polls)"
    by simp
  from rx_dsdl_frames [OF assms(4,5) p1_def this assms(2,7-13)] show ?thesis
    by (simp add: c_def)
qed

text \<open>
  C26. A transfer arrives as it was sent. If the CAN driver took all frames of \<^verbatim>\<open>uavcan_tx_dsdl\<close>, and they reach an
  addressed node waiting in \<^verbatim>\<open>uavcan_rx_dsdl\<close> in order, with any number of empty polls in between and within the timeout,
  then the receiver returns success, with the data and its length, for every type of transfer but the log message, which is only sent,
  and for every length that fits its buffer.
\<close>

theorem transfer_received:
  assumes "uavcan_tx_dsdl can_tx gt dsdl pt data junk bus = (UavcanOk, pt', bus @ frames)" and "data \<noteq> []"
    and "length junk = CanPayloadLength" and "dsdl \<noteq> DSDLMsgLogMessage" and "addressed dsdl gt pt gr pr"
    and "list_all2 carries frames (polled polls)" and "sum_list (map snd polls) < unat timeout_ms"
    and "length data \<le> in_len" and "in_len \<le> length buf" and "in_len < 2 ^ 32"
    and "length (timers b) = 7" and "fst (timer_allocate (modeTimeout OR modeStarted) timeout_ms None b) \<noteq> - 1"
    and "\<forall>j<7. callouts_keep E j"
  shows "\<exists>st. uavcan_rx_dsdl E gr dsdl pr buf in_len timeout_ms polls b = Returned UavcanOk st \<and>
     in_out_length st = length data \<and> transfer st = data @ drop (length data) buf"
  using assms by (rule transfer_arrives)

section \<open>Damage\<close>

lemma transfer_frames_update:
  "k < length (transfer_frames w t xs) \<Longrightarrow> j + 1 < length (frame_data (transfer_frames w t xs ! k)) \<Longrightarrow>
   7 * k + j < length xs \<and>
   frame_data (transfer_frames w t xs ! k) ! j = xs ! (7 * k + j) \<and>
   (transfer_frames w t xs)[k := (transfer_frames w t xs ! k)\<lparr>frame_data := (frame_data (transfer_frames w t xs ! k))[j := v]\<rparr>] =
   transfer_frames w t (xs[7 * k + j := v])"
proof (induction w t xs arbitrary: k rule: transfer_frames.induct)
  case (1 w t xs)
  note unfold = transfer_frames.simps [of w t xs] transfer_frames.simps [of w t "xs[n := v]" for n]
  show ?case
  proof (cases "length xs \<le> 7")
    case True
    then show ?thesis
      using 1(2,3) by (simp add: unfold list_update_append nth_append)
  next
    case False
    show ?thesis
    proof (cases k)
      case 0
      then show ?thesis
        using False 1(3) by (simp add: unfold list_update_append nth_append take_update_swap drop_update_cancel)
    next
      case (Suc i)
      then show ?thesis
        using False 1(1) [OF False, of i] 1(2,3) by (simp add: unfold drop_update_swap less_diff_conv add.assoc)
    qed
  qed
qed

lemma damaged_bytes:
  assumes "7 < length data" and "i < length (transfer_bytes c data)" and "transfer_bytes c data ! i \<noteq> v"
    and "c = crc16_signature sig data"
  shows "\<exists>c' data'. (transfer_bytes c data)[i := v] = transfer_bytes c' data' \<and> length data' = length data \<and>
           c' \<noteq> crc16_signature sig data'"
proof -
  have tb: "transfer_bytes c data = ucast c # ucast (drop_bit 8 c) # data"
    using assms(1) by (simp add: transfer_bytes_def)
  consider "i = 0" | "i = 1" | j where "i = Suc (Suc j)"
    by (metis One_nat_def not0_implies_Suc)
  then show ?thesis
  proof cases
    case 1
    define c' :: u16 where "c' = push_bit 8 (ucast (ucast (drop_bit 8 c) :: u8)) OR ucast v"
    have "ucast c' = v" "ucast (drop_bit 8 c') = (ucast (drop_bit 8 c) :: u8)"
      unfolding c'_def by (rule bit_word_eqI; auto simp: bit_simps dest: bit_imp_le_length)+
    moreover from this assms(3) 1 tb have "c' \<noteq> c" by auto
    ultimately show ?thesis
      using 1 assms(1,4) tb by (intro exI [of _ c'] exI [of _ data]) (simp add: transfer_bytes_def)
  next
    case 2
    define c' :: u16 where "c' = push_bit 8 (ucast v) OR ucast (ucast c :: u8)"
    have "ucast c' = (ucast c :: u8)" "ucast (drop_bit 8 c') = v"
      unfolding c'_def by (rule bit_word_eqI; auto simp: bit_simps dest: bit_imp_le_length)+
    moreover from this assms(3) 2 tb have "c' \<noteq> c" by auto
    ultimately show ?thesis
      using 2 assms(1,4) tb by (intro exI [of _ c'] exI [of _ data]) (simp add: transfer_bytes_def)
  next
    case 3
    have j: "j < length data" "v \<noteq> data ! j"
      using 3 assms(2,3) tb by auto
    have "c \<noteq> crc16_signature sig (data[j := v])"
      using crc16.one_change [OF j, of sig] assms(4) by (auto simp: crc16_signature_def CRC16_OUTPUT_XOR_def)
    then show ?thesis
      using 3 assms(1) tb by (intro exI [of _ c] exI [of _ "data[j := v]"]) (simp add: transfer_bytes_def)
  qed
qed

text \<open>
  C27. Damage is noticed: if one byte of one frame of a transfer of several frames, whether of the data or of the
  checksum, has another value when it is received, \<^verbatim>\<open>uavcan_rx_dsdl\<close> returns the error code.
\<close>

theorem damaged_transfer_rejected:
  assumes "uavcan_tx_dsdl can_tx gt dsdl pt data junk bus = (UavcanOk, pt', bus @ frames)" and "7 < length data"
    and "length junk = CanPayloadLength" and "dsdl \<noteq> DSDLMsgLogMessage" and "addressed dsdl gt pt gr pr"
    and "k < length frames" and "j + 1 < length (frame_data (frames ! k))" and "frame_data (frames ! k) ! j \<noteq> v"
    and "list_all2 carries (frames[k := (frames ! k)\<lparr>frame_data := (frame_data (frames ! k))[j := v]\<rparr>]) (polled polls)"
    and "sum_list (map snd polls) < unat timeout_ms"
    and "length data \<le> in_len" and "in_len \<le> length buf" and "in_len < 2 ^ 32"
    and "length (timers b) = 7" and "fst (timer_allocate (modeTimeout OR modeStarted) timeout_ms None b) \<noteq> - 1"
    and "\<forall>j<7. callouts_keep E j"
  shows "\<exists>st. uavcan_rx_dsdl E gr dsdl pr buf in_len timeout_ms polls b = Returned UavcanError st"
proof -
  define p1 where "p1 = load_dsdl_protocol gt dsdl False (ucast (source_node_id (can_id pt))) pt"
  define c where "c = crc16_signature (signature_crc16 (dsdl_table dsdl)) data"
  have ne: "data \<noteq> []" using assms(2) by auto
  have frames: "frames = transfer_frames (can_id p1) (tail p1) (transfer_bytes c data)"
    using tx_dsdl_frames [OF assms(1) ne _ p1_def] assms(3) by (simp add: c_def)
  note upd = transfer_frames_update [OF assms(6,7) [unfolded frames], of v]
  have "7 * k + j < length (transfer_bytes c data)" "transfer_bytes c data ! (7 * k + j) \<noteq> v"
    using upd assms(8) unfolding frames by simp_all
  from damaged_bytes [OF assms(2) this c_def]
  obtain c' data' where d: "(transfer_bytes c data)[7 * k + j := v] = transfer_bytes c' data'" "length data' = length data"
      "c' \<noteq> crc16_signature (signature_crc16 (dsdl_table dsdl)) data'"
    by blast
  have "list_all2 carries (transfer_frames (can_id p1) (tail p1) (transfer_bytes c' data')) (polled polls)"
    using assms(9) upd frames d(1) by simp
  moreover have "data' \<noteq> []" using d(2) ne by auto
  ultimately show ?thesis
    using rx_dsdl_frames [OF assms(4,5) p1_def _ _ assms(10) _ assms(12-16), of c' data'] d(2,3) assms(2,11) by auto
qed

section \<open>Waiting in vain\<close>

text \<open>A receiver that has not seen a start of transfer: frames that are no start do not match.\<close>

definition waiting :: "'a rx_state \<Rightarrow> bool" where
  "waiting st \<longleftrightarrow> tail_mask st = MaskUavCanToggle OR MaskUavCanStartOfTransfer \<and> sot (tail (protocol st)) \<and>
     \<not> toggle (tail (protocol st))"

definition no_start :: "rx_frame \<Rightarrow> bool" where
  "no_start r \<longleftrightarrow> (case uavcan_rx r of None \<Rightarrow> False | Some (_, rtail, _) \<Rightarrow> \<not> sot rtail \<or> toggle rtail)"

lemma bad_tail: "bit rt 5 \<Longrightarrow> bit rt 7 \<Longrightarrow> \<not> rx_matches st rid rt"
proof -
  assume "bit rt 5" "bit rt 7"
  moreover have "bit BadTailState n \<longleftrightarrow> n = 5 \<or> n = 7" for n
    by (auto simp: BadTailState_def tail_masks)
  ultimately have "BadTailState = rt AND BadTailState"
    by (intro bit_word_eqI) auto
  then show ?thesis by (simp add: rx_matches_def)
qed

lemma tail_differs: "bit (tail_mask st) n \<Longrightarrow> bit rt n \<noteq> bit (tail (protocol st)) n \<Longrightarrow> \<not> rx_matches st rid rt"
proof -
  assume "bit (tail_mask st) n" "bit rt n \<noteq> bit (tail (protocol st)) n"
  then have "bit ((rt XOR tail (protocol st)) AND tail_mask st) n"
    by (simp add: bit_xor_iff)
  then have "(rt XOR tail (protocol st)) AND tail_mask st \<noteq> 0"
    by (metis bit_0_eq bot_apply bot_bool_def)
  then show ?thesis by (simp add: rx_matches_def)
qed

lemma waiting_no_match:
  assumes "waiting st" and "\<not> sot rt \<or> toggle rt"
  shows "\<not> rx_matches st rid rt"
  using assms bad_tail tail_differs [of st 7 rt] by (auto simp: waiting_def sot_def toggle_def tail_masks)

lemma rx_body_no_start: "waiting st \<Longrightarrow> no_start r \<Longrightarrow> rx_body timer ms r st = Continue st"
  using waiting_no_match by (auto simp: rx_body_def no_start_def split: option.splits)

lemma rx_loop_waiting:
  assumes keep: "callouts_keep E (unat timer)" and t: "unat timer < 7"
  shows "waiting st \<Longrightarrow> length (timers (bl_of st)) = 7 \<Longrightarrow> live modeTimeout (timers (bl_of st) ! unat timer) \<Longrightarrow>
    list_all no_start (polled polls) \<Longrightarrow> polls \<noteq> [] \<Longrightarrow>
    unat (t_count (timers (bl_of st) ! unat timer)) \<le> sum_list (map snd polls) \<Longrightarrow>
    \<exists>st'. rx_loop E d timer ms polls st = Returned UavcanError st' \<and> transfer st' = transfer st \<and> in_out_length st' = in_out_length st"
proof (induction polls arbitrary: st)
  case (Cons poll polls)
  obtain po n where poll: "poll = (po, n)" by (cases poll)
  let ?b = "(nxsched_process_timer E ^^ n) (bl_of st)" and ?c = "unat (t_count (timers (bl_of st) ! unat timer))"
  have body: "(case po of None \<Rightarrow> Continue st | Some f \<Rightarrow> rx_body timer ms f st) = Continue st"
    using Cons(2,5) poll by (cases po) (auto simp: rx_body_no_start)
  have expired: "timer_expired timer ?b = Some (?c \<le> n)"
    by (rule timeout_expired [OF keep t Cons(3,4)])
  have b: "length (timers ?b) = 7" "live modeTimeout (timers ?b ! unat timer)" "unat (t_count (timers ?b ! unat timer)) = ?c - n"
    using ticks_live [OF keep t Cons(3,4), of n] timeout_count [OF Cons(4), of n] by simp_all
  show ?case
  proof (cases "?c \<le> n")
    case True
    then show ?thesis
      using body expired poll b t by (simp add: rx_return_def timer_free_def with_timer_def)
  next
    case False
    have "polls \<noteq> []" "list_all no_start (polled polls)"
      using False Cons(5,7) poll by (auto, cases po, auto)
    then show ?thesis
      using Cons(1) [of "st\<lparr>bl_of := ?b\<rparr>"] False body expired poll b Cons(2,7) by (simp add: waiting_def)
  qed
qed simp

text \<open>
  C28. A node that waits for a transfer does not wait for ever: if no start of a transfer is seen, only empty polls
  and later frames of other transfers, \<^verbatim>\<open>uavcan_rx_dsdl\<close> returns the error code once the ticks of the timeout have passed, with
  the caller's buffer and length unchanged.
\<close>

theorem receive_times_out:
  assumes "dsdl \<noteq> DSDLMsgLogMessage" and "list_all no_start (polled polls)" and "polls \<noteq> []"
    and "unat timeout_ms \<le> sum_list (map snd polls)"
    and "length (timers b) = 7" and "fst (timer_allocate (modeTimeout OR modeStarted) timeout_ms None b) \<noteq> - 1"
    and "\<forall>j<7. callouts_keep E j"
  shows "\<exists>st. uavcan_rx_dsdl E g dsdl p buf in_len timeout_ms polls b = Returned UavcanError st \<and>
     transfer st = buf \<and> in_out_length st = in_len"
proof -
  define v where "v = load_dsdl_protocol g dsdl True (ucast (source_node_id (can_id p))) p"
  obtain timer b1 where tm: "timer_allocate (modeTimeout OR modeStarted) timeout_ms None b = (timer, b1)" "timer \<noteq> - 1"
    using assms(6) by (cases "timer_allocate (modeTimeout OR modeStarted) timeout_ms None b") auto
  define st where "st = \<lparr>protocol = v, id_mask = fst (masks_Initialization v), tail_mask = snd (masks_Initialization v),
    transfer_crc = 0, total_rx = 0, transfer = buf, in_out_length = in_len, bl_of = b1\<rparr>"
  have t: "unat timer < 7" "length (timers b1) = 7" "live modeTimeout (timers b1 ! unat timer)"
      "t_count (timers b1 ! unat timer) = timeout_ms"
    using allocate_some [OF tm assms(5)] assms(5) by (auto simp: live_def timer_consts)
  have "waiting st"
    using dsdl_facts(3,4) [of dsdl] assms(1)
    by (simp add: waiting_def st_def masks_Initialization_def sot_def toggle_def v_def load_dsdl_protocol_def Let_def tail_masks)
  moreover have "uavcan_rx_dsdl E g dsdl p buf in_len timeout_ms polls b = rx_loop E (dsdl_table dsdl) timer timeout_ms polls st"
    by (simp add: uavcan_rx_dsdl_def v_def st_def tm(1) case_prod_unfold Let_def)
  ultimately show ?thesis
    using rx_loop_waiting [of E timer st polls "dsdl_table dsdl" timeout_ms] t assms(2-4,7) by (auto simp: st_def)
qed

section \<open>Example\<close>

definition demo_sender :: uavcan_node where "demo_sender = \<lparr>g_uavcan_priority = 30, g_this_node_id = 10\<rparr>"
definition demo_receiver :: uavcan_node where "demo_receiver = \<lparr>g_uavcan_priority = 30, g_this_node_id = 20\<rparr>"
definition demo_to :: uavcan_protocol where "demo_to = \<lparr>can_id = 20, tail = 3\<rparr>"
definition demo_from :: uavcan_protocol where "demo_from = \<lparr>can_id = 10, tail = 0\<rparr>"
definition demo_data :: "u8 list" where "demo_data = [1, 2, 3, 4, 5, 6, 7, 8, 9]"

definition demo_frames :: "can_frame list" where
  "demo_frames = snd (snd (uavcan_tx_dsdl (\<lambda>_ _ _. 0) demo_sender DSDLRspRead demo_to demo_data (replicate 8 0) []))"

definition as_received :: "can_frame \<Rightarrow> rx_frame" where
  "as_received f = \<lparr>rx_id = message_id f, rx_dlc = length (frame_data f),
     rx_bytes = frame_data f @ replicate (8 - length (frame_data f)) 0xFF\<rparr>"

definition demo_polls :: "can_frame list \<Rightarrow> (rx_frame option \<times> nat) list" where
  "demo_polls fs = (None, 5) # map (\<lambda>f. (Some (as_received f), 0)) fs"

lemma tx_loop_ok: "fst (tx_loop (\<lambda>_ _ _. 0) mb bs p buf m bus) = UavcanOk"
  by (induction bs arbitrary: p buf m bus) (auto simp: uavcan_tx_def Let_def)

lemma demo_polled: "polled (demo_polls fs) = map as_received fs"
  by (simp add: demo_polls_def) (induction fs; simp)

lemma demo_ticks: "sum_list (map snd (demo_polls fs)) = 5"
  by (simp add: demo_polls_def comp_def)

lemma demo_carries: "\<forall>f\<in>set fs. length (frame_data f) \<le> 8 \<Longrightarrow> list_all2 carries fs (map as_received fs)"
  by (induction fs) (auto simp: carries_def as_received_def)

lemma demo_sent:
  "\<exists>p'. uavcan_tx_dsdl (\<lambda>_ _ _. 0) demo_sender DSDLRspRead demo_to demo_data (replicate 8 0) [] = (UavcanOk, p', [] @ demo_frames)"
  using tx_loop_ok by (simp add: demo_frames_def prod_eq_iff uavcan_tx_dsdl_def Let_def)

lemma demo_frames_eq:
  "\<exists>w t u c d. demo_frames = [\<lparr>message_id = w, frame_data = [c, d, 1, 2, 3, 4, 5, t]\<rparr>,
     \<lparr>message_id = w, frame_data = [6, 7, 8, 9, u]\<rparr>]"
proof -
  obtain p' where "uavcan_tx_dsdl (\<lambda>_ _ _. 0) demo_sender DSDLRspRead demo_to demo_data (replicate 8 0) [] = (UavcanOk, p', [] @ demo_frames)"
    using demo_sent by blast
  from tx_dsdl_frames [OF this _ _ refl] show ?thesis
    by (simp add: demo_data_def transfer_bytes_def transfer_frames.simps) blast
qed

lemma demo_addressed: "addressed DSDLRspRead demo_sender demo_to demo_receiver demo_from"
proof -
  have "source_node_id 20 = 20" "source_node_id 10 = 10"
    by (simp_all add: source_node_id_def fld_get_def BITFEILD_MASK_def mask_eq_exp_minus_1)
  then show ?thesis
    by (simp add: addressed_def demo_sender_def demo_to_def demo_receiver_def demo_from_def)
qed

lemma demo_setup:
  "length (timers demo_bl) = 7" "fst (timer_allocate (modeTimeout OR modeStarted) 1000 None demo_bl) \<noteq> - 1"
  "\<forall>j<7. callouts_keep demo_callout j"
  by (simp_all add: demo_bl_allocate demo_callout_keeps) (simp add: demo_bl_def timer_init_def OPT_BL_NUMBER_TIMERS_def)

theorem transfer_received_witness:
  "\<exists>st. uavcan_rx_dsdl demo_callout demo_receiver DSDLRspRead demo_from (replicate 12 0) 10 1000 (demo_polls demo_frames) demo_bl =
       Returned UavcanOk st \<and> in_out_length st = 9 \<and> transfer st = [1, 2, 3, 4, 5, 6, 7, 8, 9, 0, 0, 0]"
proof -
  obtain p' where sent: "uavcan_tx_dsdl (\<lambda>_ _ _. 0) demo_sender DSDLRspRead demo_to demo_data (replicate 8 0) [] = (UavcanOk, p', [] @ demo_frames)"
    using demo_sent by blast
  obtain w t u c d where fr: "demo_frames = [\<lparr>message_id = w, frame_data = [c, d, 1, 2, 3, 4, 5, t]\<rparr>,
      \<lparr>message_id = w, frame_data = [6, 7, 8, 9, u]\<rparr>]"
    using demo_frames_eq by blast
  have "list_all2 carries demo_frames (polled (demo_polls demo_frames))"
    unfolding demo_polled by (rule demo_carries) (simp add: fr)
  from transfer_received [OF sent _ _ _ demo_addressed this, of 1000 10 "replicate 12 0" demo_bl demo_callout] demo_setup
  show ?thesis
    by (simp add: demo_ticks) (simp add: demo_data_def numeral_eq_Suc)
qed

theorem damaged_transfer_rejected_witness:
  "\<exists>st. uavcan_rx_dsdl demo_callout demo_receiver DSDLRspRead demo_from (replicate 12 0) 10 1000
     (demo_polls (demo_frames[1 := (demo_frames ! 1)\<lparr>frame_data := (frame_data (demo_frames ! 1))[2 := 80]\<rparr>])) demo_bl =
     Returned UavcanError st"
proof -
  obtain p' where sent: "uavcan_tx_dsdl (\<lambda>_ _ _. 0) demo_sender DSDLRspRead demo_to demo_data (replicate 8 0) [] = (UavcanOk, p', [] @ demo_frames)"
    using demo_sent by blast
  let ?fs = "demo_frames[1 := (demo_frames ! 1)\<lparr>frame_data := (frame_data (demo_frames ! 1))[2 := 80]\<rparr>]"
  obtain w t u c d where fr: "demo_frames = [\<lparr>message_id = w, frame_data = [c, d, 1, 2, 3, 4, 5, t]\<rparr>,
      \<lparr>message_id = w, frame_data = [6, 7, 8, 9, u]\<rparr>]"
    using demo_frames_eq by blast
  have c: "list_all2 carries ?fs (polled (demo_polls ?fs))"
    unfolding demo_polled by (rule demo_carries) (simp add: fr)
  have "1 < length demo_frames" "2 + 1 < length (frame_data (demo_frames ! 1))" "frame_data (demo_frames ! 1) ! 2 \<noteq> 80"
    by (simp_all add: fr)
  from damaged_transfer_rejected [OF sent _ _ _ demo_addressed this c, of 1000 10 "replicate 12 0" demo_bl demo_callout] demo_setup
  show ?thesis
    by (simp add: demo_ticks demo_data_def)
qed

theorem receive_times_out_witness:
  "\<exists>st. uavcan_rx_dsdl demo_callout demo_receiver DSDLRspRead demo_from [7] 1 1000 [(None, 400), (None, 600)] demo_bl =
       Returned UavcanError st \<and> transfer st = [7] \<and> in_out_length st = 1"
  using receive_times_out [of DSDLRspRead "[(None, 400), (None, 600)]" 1000 demo_bl demo_callout demo_receiver demo_from "[7]" 1]
    demo_setup by simp

section \<open>A full buffer\<close>

text \<open>
  When the buffer is full and a further frame of the transfer arrives that is not its last, the receiver resets itself to
  wait for a new transfer, but then toggles its sequence bit as for any frame. It now waits for a start of transfer
  with the toggle bit set, which the test for bad tail bytes excludes: no frame is accepted until the timeout.
\<close>

lemma full_buffer_deafens:
  assumes "receiving w t st" and "timer_ok timer n (bl_of st)" and "k < unat ms"
    and "carries \<lparr>message_id = w, frame_data = xs @ [set_eot False t]\<rparr> r" and "xs \<noteq> []" and "length xs \<le> 7"
    and "total_rx st = in_out_length st" and "in_out_length st + 7 < 2 ^ 32"
  shows "\<exists>st'. rx_body timer ms r st = Continue st' \<and> (\<forall>rid rt. \<not> rx_matches st' rid rt)"
proof -
  have r: "uavcan_rx r = Some (w, set_eot False t, length xs)" "length (rx_bytes r) = 8"
    using carries_rx [OF assms(4,6)] by simp_all
  obtain b where b: "timer_restart timer ms (bl_of st) = Some b"
    using timer_ok_restart [OF assms(2,3)] by auto
  define s1 where "s1 = rx_reset (st\<lparr>bl_of := b\<rparr>)"
  define st' where "st' = s1\<lparr>protocol := (protocol s1)\<lparr>tail := set_toggle (\<not> toggle (tail (protocol s1))) (tail (protocol s1))\<rparr>\<rparr>"
  have s1: "total_rx s1 = in_out_length s1" "in_out_length s1 = in_out_length st"
      "tail_mask s1 = MaskUavCanToggle OR MaskUavCanStartOfTransfer" "bit (tail (protocol s1)) 7" "\<not> bit (tail (protocol s1)) 5"
    using assms(7) by (simp_all add: s1_def rx_reset_def masks_Initialization_def case_prod_unfold Let_def)
  have "\<not> (total_rx s1 + length xs) mod 2 ^ 32 \<le> in_out_length s1"
    using s1(1,2) assms(5,6,8) by (cases xs) auto
  then have "rx_copy (set_eot False t) (rx_bytes r) 0 (length xs) s1 = Continue st'"
    by (simp add: rx_copy_def Let_def st'_def)
  then have "rx_body timer ms r st = Continue st'"
    using r b receiving_matches [OF assms(1), of False] assms(7) by (simp add: rx_body_def Let_def s1_def)
  moreover have "\<not> rx_matches st' rid rt" for rid rt
    using bad_tail [of rt st'] tail_differs [of st' 5 rt] tail_differs [of st' 7 rt] s1(3-5)
    by (auto simp: st'_def toggle_def tail_masks)
  ultimately show ?thesis by blast
qed

section \<open>Messages of one frame\<close>

definition PackedSizeMsgLogMessage :: nat where [simp]: "PackedSizeMsgLogMessage = 7"
definition MAX_LENGTH_OF_UNIQUE_ID_IN_REQUEST :: nat where [simp]: "MAX_LENGTH_OF_UNIQUE_ID_IN_REQUEST = 6"

record uavcan_LogMessage =
  log_level :: u8
  log_source :: "u8 list"
  log_text :: "u8 list"

definition uavcan_pack_LogMessage :: "u8 list \<Rightarrow> uavcan_LogMessage \<Rightarrow> u8 list \<times> nat" where
  "uavcan_pack_LogMessage external msg =
     ((push_bit 5 (log_level msg) AND BITFEILD_MASK 5 3 OR 4 AND BITFEILD_MASK 0 5) #
      take 6 (log_source msg @ log_text msg) @ drop 7 external, PackedSizeMsgLogMessage)"

text \<open>The transfer ids of the two messages are kept between calls.\<close>

record uavcan_ids =
  log_transfer_id :: u8
  allocation_transfer_id :: u8

definition uavcan_tx_log_message ::
  "can_driver \<Rightarrow> uavcan_node \<Rightarrow> u8 list \<Rightarrow> u8 \<Rightarrow> u8 \<Rightarrow> u8 \<Rightarrow> uavcan_protocol \<Rightarrow> u8 list \<Rightarrow> uavcan_ids \<times> can_frame list \<Rightarrow>
   uavcan_ids \<times> can_frame list" where
  "uavcan_tx_log_message can_tx g debug_log_source level stage status p0 buf = (\<lambda>(ids, bus).
     let p1 = load_dsdl_protocol g DSDLMsgLogMessage False 0 (p0\<lparr>tail := set_transfer_id (log_transfer_id ids) (tail p0)\<rparr>);
         (buf1, len) = uavcan_pack_LogMessage buf
           \<lparr>log_level = level, log_source = take 4 debug_log_source, log_text = [stage, status]\<rparr>
     in (ids\<lparr>log_transfer_id := log_transfer_id ids + 1\<rparr>,
         snd (snd (uavcan_tx can_tx p1 buf1 len (mailbox (dsdl_table DSDLMsgLogMessage)) bus))))"

definition uavcan_tx_allocation_message ::
  "can_driver \<Rightarrow> uavcan_node \<Rightarrow> u8 \<Rightarrow> u8 list \<Rightarrow> u8 \<Rightarrow> u16 \<Rightarrow> uavcan_protocol \<Rightarrow> u8 list \<Rightarrow> uavcan_ids \<times> can_frame list \<Rightarrow>
   (uavcan_ids \<times> can_frame list) option" where
  "uavcan_tx_allocation_message can_tx g requested_node_id unique_id offset random p0 buf = (\<lambda>(ids, bus).
     let p1 = load_dsdl_protocol g DSDLMsgAllocation False 0 (p0\<lparr>tail := set_transfer_id (allocation_transfer_id ids) (tail p0)\<rparr>);
         p2 = p1\<lparr>can_id := fld_set 10 14 (ucast random) (can_id p1)\<rparr>;
         remaining = (if unat offset \<le> length unique_id then length unique_id - unat offset
                      else 2 ^ 32 + length unique_id - unat offset);
         max_copy = min MAX_LENGTH_OF_UNIQUE_ID_IN_REQUEST remaining;
         buf1 = (push_bit 1 requested_node_id AND BITFEILD_MASK 1 7 OR (if offset \<noteq> 0 then 0 else BITFEILD_MASK 0 1)) #
                take max_copy (drop (unat offset) unique_id) @ drop (max_copy + 1) buf
     in if unat offset + max_copy > length unique_id then None
        else Some (ids\<lparr>allocation_transfer_id := allocation_transfer_id ids + 1\<rparr>,
         snd (snd (uavcan_tx can_tx p2 buf1 (max_copy + 1) (mailbox (dsdl_table DSDLMsgAllocation)) bus))))"

text \<open>
  An allocation request carries up to six bytes of the unique id from the offset on; requests at the offsets 0, 6
  and 12 together carry an id of 16 bytes, and only the first has the flag for the first part.
\<close>

lemma take_written: "length as = n \<Longrightarrow> bs \<noteq> [] \<Longrightarrow> take (n + 1) ((as @ bs)[n := t]) = as @ [t]"
  by (cases bs) (simp_all add: list_update_append)

lemma allocation_request:
  assumes "\<forall>bus f mb. can_tx bus f mb = UavcanOk" and "length buf = 8" and "unat offset < length unique_id"
  shows "\<exists>ids' w t. uavcan_tx_allocation_message can_tx g node unique_id offset random p0 buf (ids, bus) =
     Some (ids', bus @ [\<lparr>message_id = w,
       frame_data = (push_bit 1 node AND BITFEILD_MASK 1 7 OR (if offset \<noteq> 0 then 0 else 1)) #
                    take 6 (drop (unat offset) unique_id) @ [t]\<rparr>])"
proof -
  define xs where "xs = drop (unat offset) unique_id"
  define k where "k = min 6 (length xs)"
  have xs: "take k xs = take 6 xs" "length (take 6 xs) = k" "k \<le> 6"
    by (simp_all add: k_def min_def)
  have mask: "BITFEILD_MASK 0 1 = (1 :: u8)"
    by (simp add: BITFEILD_MASK_def mask_eq_exp_minus_1)
  have tail: "take (k + 1 + 1) ((x # take 6 xs @ drop (k + 1) buf)[k + 1 := t]) = x # take 6 xs @ [t]" for x t
    using take_written [of "x # take 6 xs" "k + 1" "drop (k + 1) buf" t] xs(2,3) assms(2) by simp
  have "min 6 (length unique_id - unat offset) = k" "\<not> unat offset + k > length unique_id" "unat offset \<le> length unique_id"
    using assms(3) by (simp_all add: k_def xs_def)
  then show ?thesis
    using assms(1) tail xs(1) mask by (simp add: uavcan_tx_allocation_message_def uavcan_tx_def Let_def xs_def [symmetric])
qed

section \<open>The node information response\<close>

text \<open>
  The packed structure as bytes: status and software version, hardware version with the length of the certificate at 40
  and up to 255 bytes of certificate behind it, the name at 296 and its length at 376.
\<close>

definition FixedSizeGetNodeInfo :: nat where [simp]: "FixedSizeGetNodeInfo = 7 + 15 + 19"
definition coa_length_at :: nat where [simp]: "coa_length_at = 40"
definition name_at :: nat where [simp]: "name_at = 296"
definition name_length_at :: nat where [simp]: "name_length_at = 376"

definition uavcan_pack_GetNodeInfo_response :: "u8 list \<Rightarrow> u8 list \<times> nat" where
  "uavcan_pack_GetNodeInfo_response resp =
     (let n = FixedSizeGetNodeInfo + unat (resp ! coa_length_at); k = unat (resp ! name_length_at)
      in (take n resp @ take k (drop name_at resp) @ drop (n + k) resp, n + k))"

lemma packed_GetNodeInfo:
  assumes "length resp = 377" and "unat (resp ! 376) \<le> 80" and "uavcan_pack_GetNodeInfo_response resp = (bytes, len)"
  shows "take len bytes = take 41 resp @ take (unat (resp ! 40)) (drop 41 resp) @ take (unat (resp ! 376)) (drop 296 resp)"
proof -
  have "unat (resp ! 40) < 256"
    using unsigned_less [of "resp ! 40"] by simp
  then have "take (41 + unat (resp ! 40)) resp = take 41 resp @ take (unat (resp ! 40)) (drop 41 resp)"
    using assms(1) by (simp add: take_add)
  then show ?thesis
    using assms \<open>unat (resp ! 40) < 256\<close> by (auto simp: uavcan_pack_GetNodeInfo_response_def Let_def)
qed

end
