(* ===== verification/Can_Image.thy ===== *)
theory Can_Image
  imports Crc
begin

text \<open>
  The application in the flash of a CAN node: erasing and writing it (\<^verbatim>\<open>src/platforms/nuttx/src/canbootloader/fs/flash.c\<close>),
  finding its descriptor and checking it (\<^verbatim>\<open>src/platforms/nuttx/src/canbootloader/uavcan/main.c\<close>). The flash is a function
  from addresses to bytes; the operating system's flash driver is a parameter. Pointers into the flash are natural
  numbers, sizes and addresses computed with \<^verbatim>\<open>size_t\<close> or \<^verbatim>\<open>uint32_t\<close> have 32 bits.
\<close>

type_synonym flash_bytes = "nat \<Rightarrow> u8"

section \<open>The flash\<close>

datatype flash_error_t = FLASH_OK | FLASH_ERROR | FLASH_ERASE_ERROR | FLASH_ERASE_VERIFY_ERROR
  | FLASH_ERROR_SUICIDE | FLASH_ERROR_AFU

text \<open>The application area of a board's \<^verbatim>\<open>boot_config.h\<close>, and the calls of the flash driver.\<close>

record app_area =
  APPLICATION_LOAD_ADDRESS :: u32
  APPLICATION_SIZE :: u32
  LATER_FLAHSED_WORDS :: nat
  progmem_getpage :: "u32 \<Rightarrow> int"
  progmem_eraseblock :: "int \<Rightarrow> flash_bytes \<Rightarrow> int \<times> flash_bytes"
  progmem_write :: "u32 \<Rightarrow> u8 list \<Rightarrow> flash_bytes \<Rightarrow> int \<times> flash_bytes"

definition APPLICATION_LAST_8BIT_ADDRRESS :: "'b app_area_scheme \<Rightarrow> u32" where
  "APPLICATION_LAST_8BIT_ADDRRESS b = (APPLICATION_LOAD_ADDRESS b + APPLICATION_SIZE b) - 1"

definition APPLICATION_LAST_64BIT_ADDRRESS :: "'b app_area_scheme \<Rightarrow> u32" where
  "APPLICATION_LAST_64BIT_ADDRRESS b = (APPLICATION_LOAD_ADDRESS b + APPLICATION_SIZE b) - 8"

text \<open>Before each block is erased the processor is yielded; what that does to the rest of the state is \<open>yield\<close>.\<close>

function erase_pages ::
  "'b app_area_scheme \<Rightarrow> ('s \<Rightarrow> 's) \<Rightarrow> int \<Rightarrow> int \<Rightarrow> flash_bytes \<Rightarrow> 's \<Rightarrow> flash_error_t \<times> flash_bytes \<times> 's" where
  "erase_pages b yield appstartpage appendpage m s =
     (if appstartpage \<le> appendpage
      then case progmem_eraseblock b appstartpage m of (ps, m1) \<Rightarrow>
             if ps \<le> 0 then (FLASH_ERASE_ERROR, m1, yield s)
             else erase_pages b yield (appstartpage + 1) appendpage m1 (yield s)
      else (FLASH_OK, m, s))"
  by pat_completeness auto
termination
  by (relation "measure (\<lambda>(_, _, p, q, _). nat (q + 1 - p))") auto

declare erase_pages.simps [simp del]

definition bl_flash_erase ::
  "'b app_area_scheme \<Rightarrow> ('s \<Rightarrow> 's) \<Rightarrow> u32 \<Rightarrow> u32 \<Rightarrow> flash_bytes \<Rightarrow> 's \<Rightarrow> flash_error_t \<times> flash_bytes \<times> 's" where
  "bl_flash_erase b yield address nbytes m s =
     (let bllastpage = progmem_getpage b (address - 1) in
      if bllastpage < 0 then (FLASH_ERROR_AFU, m, s)
      else let appstartpage = progmem_getpage b address; appendpage = progmem_getpage b (address + nbytes - 4) in
        if appendpage < 0 \<or> appstartpage < 0 then (FLASH_ERROR_AFU, m, s)
        else if bllastpage \<ge> 0 \<and> appstartpage > bllastpage then erase_pages b yield appstartpage appendpage m s
        else (FLASH_ERROR_SUICIDE, m, s))"

definition bl_flash_write :: "'b app_area_scheme \<Rightarrow> u32 \<Rightarrow> u8 list \<Rightarrow> flash_bytes \<Rightarrow> flash_error_t \<times> flash_bytes" where
  "bl_flash_write b flash_address data m =
     (if flash_address \<ge> APPLICATION_LOAD_ADDRESS b \<and>
         flash_address + of_nat (length data) \<le> APPLICATION_LAST_8BIT_ADDRRESS b
      then case progmem_write b flash_address data m of (n, m1) \<Rightarrow>
             (if n = int (length data) then FLASH_OK else FLASH_ERROR, m1)
      else (FLASH_ERROR, m))"

section \<open>The descriptor\<close>

definition APP_DESCRIPTOR_SIGNATURE :: "u8 list" where
  "APP_DESCRIPTOR_SIGNATURE = [0x40, 0xa2, 0xe4, 0xf1, 0x64, 0x68, 0x91, 0x06]"

text \<open>The fields of the packed structure \<^verbatim>\<open>app_descriptor_t\<close> at an address, and its size.\<close>

definition crc32_block1 :: "flash_bytes \<Rightarrow> nat \<Rightarrow> u32" where "crc32_block1 m d = rd32 m (d + 8)"
definition crc32_block2 :: "flash_bytes \<Rightarrow> nat \<Rightarrow> u32" where "crc32_block2 m d = rd32 m (d + 12)"
definition image_size :: "flash_bytes \<Rightarrow> nat \<Rightarrow> u32" where "image_size m d = rd32 m (d + 16)"
definition git_hash :: "flash_bytes \<Rightarrow> nat \<Rightarrow> u32" where "git_hash m d = rd32 m (d + 20)"
definition major_version :: "flash_bytes \<Rightarrow> nat \<Rightarrow> u8" where "major_version m d = m (d + 24)"
definition minor_version :: "flash_bytes \<Rightarrow> nat \<Rightarrow> u8" where "minor_version m d = m (d + 25)"
definition sizeof_app_descriptor :: u32 where "sizeof_app_descriptor = 36"

function scan_descriptor :: "flash_bytes \<Rightarrow> nat \<Rightarrow> nat \<Rightarrow> nat option" where
  "scan_descriptor m bound p =
     (if rd_bytes m p 8 = APP_DESCRIPTOR_SIGNATURE then Some p
      else if p + 8 < bound then scan_descriptor m bound (p + 8) else None)"
  by pat_completeness auto
termination
  by (relation "measure (\<lambda>(_, n, p). n - p)") auto

declare scan_descriptor.simps [simp del]

definition find_descriptor :: "'b app_area_scheme \<Rightarrow> flash_bytes \<Rightarrow> nat option" where
  "find_descriptor b m =
     scan_descriptor m (unat (APPLICATION_LAST_64BIT_ADDRRESS b)) (unat (APPLICATION_LOAD_ADDRESS b))"

section \<open>Validity\<close>

text \<open>
  The first words are passed separately, since they are programmed last. The result has the descriptor, which the code
  keeps in a global variable. A length is the 32-bit difference of two addresses.
\<close>

definition is_app_valid :: "'b app_area_scheme \<Rightarrow> u32 list \<Rightarrow> flash_bytes \<Rightarrow> bool \<times> nat option" where
  "is_app_valid b first_words m =
     (let desc = find_descriptor b m; fw_image = unat (APPLICATION_LOAD_ADDRESS b) in
      case desc of
        None \<Rightarrow> (False, desc)
      | Some d \<Rightarrow>
          if first_words ! 0 = 0xFFFFFFFF then (False, desc)
          else if image_size m d > APPLICATION_SIZE b \<or> image_size m d = 0 then (False, desc)
          else let block2_len = image_size m d - (of_nat (d + 24) - of_nat fw_image)
               in if block2_len > APPLICATION_SIZE b \<or> block2_len = 0 then (False, desc)
                  else let later = LATER_FLAHSED_WORDS b;
                           block_crc1 = crc32_signature 0 (concat (map le_bytes32 (take later first_words)));
                           block_crc1 = crc32_signature block_crc1
                             (rd_bytes m (fw_image + 4 * later) (unat (of_nat (d + 8) - of_nat (fw_image + 4 * later) :: u32)));
                           block_crc2 = crc32_signature 0 (rd_bytes m (d + 24) (unat block2_len))
                       in (block_crc1 = crc32_block1 m d \<and> block_crc2 = crc32_block2 m d, desc))"

section \<open>What a valid image is\<close>

text \<open>The words at the start of the application, as \<^verbatim>\<open>bootloader.fw_image\<close> gives them.\<close>

definition fw_words :: "'b app_area_scheme \<Rightarrow> flash_bytes \<Rightarrow> u32 list" where
  "fw_words b m = map (\<lambda>i. rd32 m (unat (APPLICATION_LOAD_ADDRESS b) + 4 * i)) [0..<LATER_FLAHSED_WORDS b]"

definition area_ok :: "'b app_area_scheme \<Rightarrow> bool" where
  "area_ok b \<longleftrightarrow> unat (APPLICATION_LOAD_ADDRESS b) + unat (APPLICATION_SIZE b) + 64 \<le> 2 ^ 31 \<and> 0 < unat (APPLICATION_LOAD_ADDRESS b) \<and>
     64 \<le> unat (APPLICATION_SIZE b) \<and> LATER_FLAHSED_WORDS b \<in> {1, 2}"

text \<open>
  The two checksums cover the image from its start to the end of the signature, and from the version numbers to its
  end. The checksums themselves, the size and the revision are not covered.
\<close>

definition image_verified :: "'b app_area_scheme \<Rightarrow> flash_bytes \<Rightarrow> nat \<Rightarrow> bool" where
  "image_verified b m d \<longleftrightarrow> (let start = unat (APPLICATION_LOAD_ADDRESS b); len = unat (image_size m d) in
     start \<le> d \<and> d + 24 < start + len \<and> len \<le> unat (APPLICATION_SIZE b) \<and> rd32 m start \<noteq> 0xFFFFFFFF \<and>
     crc32_signature 0 (rd_bytes m start (d + 8 - start)) = crc32_block1 m d \<and>
     crc32_signature 0 (rd_bytes m (d + 24) (start + len - (d + 24))) = crc32_block2 m d)"

lemmas descriptor_fields = crc32_block1_def crc32_block2_def image_size_def git_hash_def

lemma rd_bytes_add: "rd_bytes m a (n + k) = rd_bytes m a n @ rd_bytes m (a + n) k"
  by (rule nth_equalityI) (auto simp: rd_bytes_def nth_append)

lemma rd_bytes_cong: "(\<And>i. i < n \<Longrightarrow> m (a + i) = m' (a + i)) \<Longrightarrow> rd_bytes m a n = rd_bytes m' a n"
  by (simp add: rd_bytes_def)

lemma rd32_cong: "(\<And>i. i < 4 \<Longrightarrow> m (a + i) = m' (a + i)) \<Longrightarrow> rd32 m a = rd32 m' a"
proof -
  assume *: "\<And>i. i < 4 \<Longrightarrow> m (a + i) = m' (a + i)"
  have "rd16 m a = rd16 m' a" "rd16 m (a + 2) = rd16 m' (a + 2)"
    using *[of 0] *[of 1] *[of 2] *[of 3] by (simp_all add: rd16_def numeral_3_eq_3)
  then show ?thesis by (simp add: rd32_def)
qed

lemma le_bytes32_rd32: "le_bytes32 (rd32 m a) = rd_bytes m a 4"
proof -
  have "ucast (rd32 m a) = rd16 m a" "ucast (drop_bit 16 (rd32 m a)) = rd16 m (a + 2)"
    by (rule bit_word_eqI; auto simp: rd32_def bit_simps dest: bit_imp_le_length)+
  moreover have "le_bytes (rd16 m x) = [m x, m (x + 1)]" for x
  proof -
    have "ucast (rd16 m x) = m x" "ucast (drop_bit 8 (rd16 m x)) = m (x + 1)"
      by (rule bit_word_eqI; auto simp: rd16_def bit_simps dest: bit_imp_le_length)+
    then show ?thesis by (simp add: le_bytes_def)
  qed
  ultimately show ?thesis
    by (simp add: le_bytes32_def rd_bytes_def upt_conv_Cons eval_nat_numeral)
qed

lemma replicate_four: "replicate 4 x = [x, x, x, x]"
  by (simp add: eval_nat_numeral)

lemma le_bytes32_ones: "le_bytes32 0xFFFFFFFF = replicate 4 0xFF"
  by (simp add: le_bytes32_def le_bytes_def replicate_four)

lemma rd32_inj: "rd32 m a = rd32 m' a' \<Longrightarrow> rd_bytes m a 4 = rd_bytes m' a' 4"
  by (metis le_bytes32_rd32)

lemma rd32_rd_bytes: "rd_bytes m a 4 = rd_bytes m' a' 4 \<Longrightarrow> rd32 m a = rd32 m' a'"
  by (simp add: rd32_def rd16_def rd_bytes_def upt_conv_Cons eval_nat_numeral)

lemma rd32_written: "rd_bytes m a 4 = le_bytes32 w \<Longrightarrow> rd32 m a = w"
  by (rule rd32_le; rule rd16_le) (simp_all add: rd_bytes_def le_bytes32_def le_bytes_def upt_conv_Cons eval_nat_numeral)

lemma crc32_signature_append: "crc32_signature (crc32_signature c xs) ys = crc32_signature c (xs @ ys)"
  by (simp add: crc32_signature_def)

lemma concat_rd_bytes: "concat (map (\<lambda>i. rd_bytes m (a + 4 * i) 4) [0..<n]) = rd_bytes m a (4 * n)"
proof (induction n)
  case 0
  then show ?case by (simp add: rd_bytes_def)
next
  case (Suc n)
  then show ?case
    using rd_bytes_add [of m a "4 * n" 4] by (simp add: add.commute)
qed

lemma concat_fw_words:
  "concat (map le_bytes32 (fw_words b m)) = rd_bytes m (unat (APPLICATION_LOAD_ADDRESS b)) (4 * LATER_FLAHSED_WORDS b)"
  using concat_rd_bytes by (simp add: fw_words_def le_bytes32_rd32 comp_def)

text \<open>The scan.\<close>

lemma scan_descriptor_Some:
  "scan_descriptor m n p = Some d \<Longrightarrow>
     p \<le> d \<and> 8 dvd d - p \<and> (d = p \<or> d < n) \<and> rd_bytes m d 8 = APP_DESCRIPTOR_SIGNATURE"
proof (induction m n p rule: scan_descriptor.induct)
  case (1 m n p)
  show ?case
  proof (cases "rd_bytes m p 8 = APP_DESCRIPTOR_SIGNATURE")
    case True
    then show ?thesis
      using 1(2) by (simp add: scan_descriptor.simps [of m n p])
  next
    case False
    then have *: "p + 8 < n" "scan_descriptor m n (p + 8) = Some d"
      using 1(2) by (simp_all add: scan_descriptor.simps [of m n p] split: if_splits)
    have "8 dvd d - p" if "p + 8 \<le> d" "8 dvd d - (p + 8)"
    proof -
      have "d - p = (d - (p + 8)) + 8" using that(1) by simp
      then show ?thesis using that(2) by (metis dvd_add dvd_refl)
    qed
    then show ?thesis
      using 1(1) [OF False *] *(1) by auto
  qed
qed

lemma APPLICATION_LAST_64BIT_unat:
  "area_ok b \<Longrightarrow> unat (APPLICATION_LAST_64BIT_ADDRRESS b) = unat (APPLICATION_LOAD_ADDRESS b) + unat (APPLICATION_SIZE b) - 8"
  by (simp add: APPLICATION_LAST_64BIT_ADDRRESS_def area_ok_def unat_sub word_le_nat_alt unat_word_ariths(1))

lemma find_descriptor_Some:
  assumes "find_descriptor b m = Some d" and "area_ok b"
  shows "unat (APPLICATION_LOAD_ADDRESS b) \<le> d" "rd_bytes m d 8 = APP_DESCRIPTOR_SIGNATURE"
    "8 dvd d - unat (APPLICATION_LOAD_ADDRESS b)"
    "d \<le> unat (APPLICATION_LOAD_ADDRESS b) + unat (APPLICATION_SIZE b)"
proof -
  note last64 = APPLICATION_LAST_64BIT_unat [OF assms(2)]
  note scan = scan_descriptor_Some [OF assms(1) [unfolded find_descriptor_def]]
  show "unat (APPLICATION_LOAD_ADDRESS b) \<le> d" "rd_bytes m d 8 = APP_DESCRIPTOR_SIGNATURE"
    "8 dvd d - unat (APPLICATION_LOAD_ADDRESS b)"
    using scan by blast+
  show "d \<le> unat (APPLICATION_LOAD_ADDRESS b) + unat (APPLICATION_SIZE b)"
    using scan last64 assms(2) by (auto simp: area_ok_def)
qed


lemma unat_diff_of_nat: "k \<le> n \<Longrightarrow> n < 2 ^ 32 \<Longrightarrow> unat (word_of_nat n - word_of_nat k :: u32) = n - k"
  by (simp add: unat_sub word_le_nat_alt unat_of_nat)

text \<open>
  The check with the first words \<open>ws\<close> says whether the image would be verified if they were in place. An image whose
  end lies before the version numbers is refused because the length of its second block wraps around.
\<close>

lemma is_app_valid_iff:
  assumes "area_ok b" and "find_descriptor b m = Some d" and "length ws = LATER_FLAHSED_WORDS b"
    and m': "m' = wr_bytes (unat (APPLICATION_LOAD_ADDRESS b)) (concat (map le_bytes32 ws)) m"
  shows "is_app_valid b ws m = (image_verified b m' d, Some d)"
proof -
  define start where "start = unat (APPLICATION_LOAD_ADDRESS b)"
  define later where "later = LATER_FLAHSED_WORDS b"
  have b: "start + unat (APPLICATION_SIZE b) + 64 \<le> 2 ^ 31" "later = 1 \<or> later = 2" "length ws = later"
    using assms(1,3) by (auto simp: area_ok_def start_def later_def)
  have d: "start \<le> d" "d \<le> start + unat (APPLICATION_SIZE b)"
    using find_descriptor_Some [OF assms(2,1)] by (auto simp: start_def)
  define bs where "bs = concat (map le_bytes32 ws)"
  have bs: "length bs = 4 * later" "take later ws = ws"
    using b(2,3) by (auto simp: bs_def length_concat comp_def sum_list_triv)
  have m': "m' = wr_bytes start bs m"
    using m' by (simp add: start_def bs_def)
  have same: "m' x = m x" if "start + 8 \<le> x" for x
    using that bs(1) b(2) by (auto simp: m' wr_bytes_def)
  have fields: "crc32_block1 m' d = crc32_block1 m d" "crc32_block2 m' d = crc32_block2 m d" "image_size m' d = image_size m d"
    unfolding descriptor_fields by (rule rd32_cong; use d(1) in \<open>simp add: same\<close>)+
  have first: "rd32 m' start = ws ! 0"
  proof (rule rd32_written)
    have "bs = le_bytes32 (ws ! 0) @ concat (map le_bytes32 (tl ws))"
      using b(2,3) by (cases ws) (auto simp: bs_def)
    then show "rd_bytes m' start 4 = le_bytes32 (ws ! 0)"
      by (intro nth_equalityI) (auto simp: m' rd_bytes_def wr_bytes_def nth_append)
  qed
  have later: "4 * later \<le> d + 8 - start" "start + 4 * later \<le> d + 8" "d + 8 < 2 ^ 32"
    using d b(1,2) by auto
  have "rd_bytes m' start (4 * later) = bs"
    using rd_bytes_wr [of start bs m] bs(1) by (simp add: m')
  moreover have "rd_bytes m' (start + 4 * later) (d + 8 - start - 4 * later) = rd_bytes m (start + 4 * later) (d + 8 - start - 4 * later)"
    by (rule rd_bytes_cong) (simp add: m' wr_bytes_def bs(1))
  ultimately have block1: "rd_bytes m' start (d + 8 - start) = bs @ rd_bytes m (start + 4 * later) (d + 8 - start - 4 * later)"
    using rd_bytes_add [of m' start "4 * later" "d + 8 - start - 4 * later"] later by simp
  have len1: "unat (word_of_nat (d + 8) - word_of_nat (start + 4 * later) :: u32) = d + 8 - start - 4 * later"
    using unat_diff_of_nat [OF later(2,3)] by simp
  have off: "unat (word_of_nat (d + 24) - word_of_nat start :: u32) = d + 24 - start"
    using d b(1) by (intro unat_diff_of_nat) auto
  define len where "len = image_size m d"
  define blk where "blk = len - (word_of_nat (d + 24) - word_of_nat start)"
  have wrap: "unat blk > unat (APPLICATION_SIZE b)" if "unat len < d + 24 - start"
  proof -
    have "unat blk = 2 ^ 32 + unat len - (d + 24 - start)"
      using that off by (simp add: blk_def unat_sub_if' not_le word_le_nat_alt)
    moreover have "d + 24 - start \<le> unat (APPLICATION_SIZE b) + 24" "unat (APPLICATION_SIZE b) + 64 \<le> 2 ^ 31"
      using d b(1) by auto
    ultimately show ?thesis by simp
  qed
  have fits: "unat blk = start + unat len - (d + 24)" if "d + 24 - start \<le> unat len"
    using that off d(1) by (simp add: blk_def unat_sub_if')
  have "is_app_valid b ws m = (rd32 m' start \<noteq> 0xFFFFFFFF \<and> \<not> len > APPLICATION_SIZE b \<and> len \<noteq> 0 \<and>
      \<not> blk > APPLICATION_SIZE b \<and> blk \<noteq> 0 \<and>
      crc32_signature 0 (rd_bytes m' start (d + 8 - start)) = crc32_block1 m d \<and>
      crc32_signature 0 (rd_bytes m (d + 24) (unat blk)) = crc32_block2 m d, Some d)"
    unfolding is_app_valid_def assms(2) Let_def option.case start_def [symmetric] later_def [symmetric] len_def [symmetric]
      blk_def [symmetric] bs(2) bs_def [symmetric] len1 crc32_signature_append block1 first by auto
  also have "\<dots> = (image_verified b m' d, Some d)"
  proof (cases "d + 24 < start + unat len \<and> unat len \<le> unat (APPLICATION_SIZE b)")
    case True
    then have *: "unat blk = start + unat len - (d + 24)" "blk \<noteq> 0" "len \<noteq> 0" "\<not> blk > APPLICATION_SIZE b"
      using fits d(1) by (auto simp: word_less_nat_alt unat_eq_0 [symmetric] simp del: unat_eq_0)
    have "rd_bytes m' (d + 24) (unat blk) = rd_bytes m (d + 24) (unat blk)"
      using d(1) by (intro rd_bytes_cong same) simp
    then show ?thesis
      using True * d(1) by (simp add: image_verified_def fields start_def [symmetric] len_def [symmetric] Let_def word_less_nat_alt)
  next
    case False
    have "len > APPLICATION_SIZE b \<or> blk > APPLICATION_SIZE b \<or> blk = 0"
    proof (cases "unat len \<le> unat (APPLICATION_SIZE b)")
      case le: True
      show ?thesis
      proof (cases "unat len < d + 24 - start")
        case True
        then show ?thesis using wrap by (simp add: word_less_nat_alt)
      next
        case ge: False
        then have "unat blk = 0" using False le fits by simp
        then show ?thesis by (simp add: unat_eq_0)
      qed
    qed (simp add: word_less_nat_alt)
    then show ?thesis
      using False d(1) by (auto simp: image_verified_def fields start_def [symmetric] len_def [symmetric] Let_def)
  qed
  finally show ?thesis .
qed

lemma app_valid_iff:
  assumes "area_ok b" and "find_descriptor b m = Some d"
  shows "is_app_valid b (fw_words b m) m = (image_verified b m d, Some d)"
proof -
  have "wr_bytes a (rd_bytes m a n) m = m" for a n
    by (auto simp: wr_bytes_def rd_bytes_def fun_eq_iff)
  then show ?thesis
    using is_app_valid_iff [OF assms, of "fw_words b m"] by (simp add: concat_fw_words) (simp add: fw_words_def)
qed

lemma is_app_valid_descriptor:
  assumes "is_app_valid b ws m = (ok, desc)"
  shows "desc = find_descriptor b m \<and> (ok \<longrightarrow> desc \<noteq> None)"
proof (cases "find_descriptor b m")
  case (Some d)
  then have "snd (is_app_valid b ws m) = Some d"
    by (simp add: is_app_valid_def Let_def)
  then show ?thesis
    using assms Some by simp
qed (use assms in \<open>simp add: is_app_valid_def\<close>)

lemma app_valid_verified:
  assumes "area_ok b" and "is_app_valid b (fw_words b m) m = (True, desc)"
  obtains d where "desc = Some d" and "find_descriptor b m = Some d" and "image_verified b m d"
  using app_valid_iff [OF assms(1)] is_app_valid_descriptor [OF assms(2)] assms(2) that by auto

end
