(* ===== verification/Boot_Shared.thy ===== *)
theory Boot_Shared
  imports Crc
begin

text \<open>
  The data the CAN bootloader and the application hand to each other across a reset,
  \<^verbatim>\<open>src/src/drivers/bootloaders/boot_app_shared.c\<close>. They lie in five registers that a reset keeps, marked with a
  signature for the side that wrote them and a CRC-64.
\<close>

definition BOOTLOADER_COMMON_APP_SIGNATURE :: u32 where "BOOTLOADER_COMMON_APP_SIGNATURE = 0xB0A04150"
definition BOOTLOADER_COMMON_BOOTLOADER_SIGNATURE :: u32 where "BOOTLOADER_COMMON_BOOTLOADER_SIGNATURE = 0xB0A0424C"
definition CRC64_INITIAL :: u64 where "CRC64_INITIAL = 0xFFFFFFFFFFFFFFFF"
definition CRC64_OUTPUT_XOR :: u64 where "CRC64_OUTPUT_XOR = 0xFFFFFFFFFFFFFFFF"
definition EBADR :: int where "EBADR = 53"

datatype eRole_t = Invalid | App | BootLoader

datatype shared_loc = crc_HiLOC | crc_LoLOC | signature_LOC | bus_speed_LOC | node_id_LOC

record bootloader_app_shared_t =
  crc_ull :: u64
  signature :: u32
  bus_speed :: u32
  node_id :: u32

definition ul :: "u64 \<Rightarrow> nat \<Rightarrow> u32" where
  "ul c i = ucast (drop_bit (32 * i) c)"

definition shared_load :: "(shared_loc \<Rightarrow> u32) \<Rightarrow> bootloader_app_shared_t" where
  "shared_load regs = \<lparr>
     crc_ull = ucast (regs crc_LoLOC) OR push_bit 32 (ucast (regs crc_HiLOC)),
     signature = regs signature_LOC, bus_speed = regs bus_speed_LOC, node_id = regs node_id_LOC \<rparr>"

definition shared_store :: "bootloader_app_shared_t \<Rightarrow> (shared_loc \<Rightarrow> u32) \<Rightarrow> shared_loc \<Rightarrow> u32" where
  "shared_store p regs = regs(signature_LOC := signature p, bus_speed_LOC := bus_speed p, node_id_LOC := node_id p,
     crc_LoLOC := ul (crc_ull p) 0, crc_HiLOC := ul (crc_ull p) 1)"

definition calulate_signature :: "bootloader_app_shared_t \<Rightarrow> u64" where
  "calulate_signature p =
     (let c = crc64_add_word CRC64_INITIAL (signature p);
          c = crc64_add_word c (bus_speed p);
          c = crc64_add_word c (node_id p)
      in c XOR CRC64_OUTPUT_XOR)"

definition bootloader_app_shared_init :: "eRole_t \<Rightarrow> bootloader_app_shared_t" where
  "bootloader_app_shared_init role =
     (let p = \<lparr> crc_ull = 0, signature = 0, bus_speed = 0, node_id = 0 \<rparr>
      in if role \<noteq> Invalid
         then p\<lparr>signature := (if role = App then BOOTLOADER_COMMON_APP_SIGNATURE
                              else BOOTLOADER_COMMON_BOOTLOADER_SIGNATURE)\<rparr>
         else p)"

definition bootloader_app_shared_read ::
  "bootloader_app_shared_t \<Rightarrow> eRole_t \<Rightarrow> (shared_loc \<Rightarrow> u32) \<Rightarrow> int \<times> bootloader_app_shared_t" where
  "bootloader_app_shared_read shared role regs =
     (let working = shared_load regs
      in if (if role = App then signature working = BOOTLOADER_COMMON_APP_SIGNATURE
             else signature working = BOOTLOADER_COMMON_BOOTLOADER_SIGNATURE) \<and>
            crc_ull working = calulate_signature working
         then (0, working)
         else (- EBADR, shared))"

definition bootloader_app_shared_write ::
  "bootloader_app_shared_t \<Rightarrow> eRole_t \<Rightarrow> (shared_loc \<Rightarrow> u32) \<Rightarrow> shared_loc \<Rightarrow> u32" where
  "bootloader_app_shared_write shared role regs =
     (let working = shared\<lparr>signature := (if role = App then BOOTLOADER_COMMON_APP_SIGNATURE
                                         else BOOTLOADER_COMMON_BOOTLOADER_SIGNATURE)\<rparr>;
          working = working\<lparr>crc_ull := calulate_signature working\<rparr>
      in shared_store working regs)"

definition bootloader_app_shared_invalidate :: "(shared_loc \<Rightarrow> u32) \<Rightarrow> shared_loc \<Rightarrow> u32" where
  "bootloader_app_shared_invalidate regs = shared_store (bootloader_app_shared_init Invalid) regs"

section \<open>Handing data over\<close>

lemma calulate_signature_fold:
  "calulate_signature p = foldl crc64_add_word CRC64_INITIAL [signature p, bus_speed p, node_id p] XOR CRC64_OUTPUT_XOR"
  by (simp add: calulate_signature_def Let_def)

lemma calulate_signature_crc [simp]: "calulate_signature (p\<lparr>crc_ull := c\<rparr>) = calulate_signature p"
  by (simp add: calulate_signature_def)

lemma calulate_signature_inj:
  "bus_speed p \<noteq> v \<Longrightarrow> calulate_signature (p\<lparr>bus_speed := v\<rparr>) \<noteq> calulate_signature p"
  "node_id p \<noteq> v \<Longrightarrow> calulate_signature (p\<lparr>node_id := v\<rparr>) \<noteq> calulate_signature p"
  using crc64.one_change [of 1 "[signature p, bus_speed p, node_id p]" v CRC64_INITIAL]
    crc64.one_change [of 2 "[signature p, bus_speed p, node_id p]" v CRC64_INITIAL]
  by (auto simp: calulate_signature_fold dest: xor_cancel_word)

lemma ull_ul: "ucast (ul c 0) OR push_bit 32 (ucast (ul c 1)) = c"
  by (rule bit_word_eqI) (auto simp: ul_def bit_simps)

lemma ull_parts:
  assumes "ucast (l :: u32) OR push_bit 32 (ucast (h :: u32)) = (ucast l' OR push_bit 32 (ucast h') :: u64)"
  shows "l = l'" "h = h'"
proof -
  have "bit l n = bit l' n" "bit h n = bit h' n" if "n < 32" for n
    using arg_cong [OF assms, of "\<lambda>w. bit w n"] arg_cong [OF assms, of "\<lambda>w. bit w (n + 32)"] that
    by (auto simp: bit_simps dest: bit_imp_le_length)
  then show "l = l'" "h = h'"
    by (auto intro: bit_word_eqI)
qed

lemma shared_load_store [simp]: "shared_load (shared_store p regs) = p"
  using ull_ul [of "crc_ull p"] by (simp add: shared_load_def shared_store_def)

lemma shared_load_upd:
  "shared_load (regs(bus_speed_LOC := v)) = (shared_load regs)\<lparr>bus_speed := v\<rparr>"
  "shared_load (regs(node_id_LOC := v)) = (shared_load regs)\<lparr>node_id := v\<rparr>"
  "shared_load (regs(signature_LOC := v)) = (shared_load regs)\<lparr>signature := v\<rparr>"
  "shared_load (regs(crc_LoLOC := v)) = (shared_load regs)\<lparr>crc_ull := ucast v OR push_bit 32 (ucast (regs crc_HiLOC))\<rparr>"
  "shared_load (regs(crc_HiLOC := v)) = (shared_load regs)\<lparr>crc_ull := ucast (regs crc_LoLOC) OR push_bit 32 (ucast v)\<rparr>"
  by (simp_all add: shared_load_def)

lemma accepted_iff:
  "fst (bootloader_app_shared_read shared role regs) = 0 \<longleftrightarrow>
     signature (shared_load regs) = (if role = App then BOOTLOADER_COMMON_APP_SIGNATURE
                                     else BOOTLOADER_COMMON_BOOTLOADER_SIGNATURE) \<and>
     crc_ull (shared_load regs) = calulate_signature (shared_load regs)"
  by (simp add: bootloader_app_shared_read_def Let_def EBADR_def)

lemma rejected: "fst (bootloader_app_shared_read shared role regs) \<noteq> 0 \<Longrightarrow>
  bootloader_app_shared_read shared role regs = (- EBADR, shared)"
  by (simp add: bootloader_app_shared_read_def Let_def split: if_splits)

lemma damage_rejected:
  assumes ok: "fst (bootloader_app_shared_read s role regs) = 0" and "v \<noteq> regs l"
  shows "fst (bootloader_app_shared_read s role (regs(l := v))) \<noteq> 0"
proof (cases l)
  case crc_HiLOC
  with assms show ?thesis
    by (auto simp: accepted_iff shared_load_upd) (auto simp: shared_load_def dest: ull_parts)
next
  case crc_LoLOC
  with assms show ?thesis
    by (auto simp: accepted_iff shared_load_upd) (auto simp: shared_load_def dest: ull_parts)
next
  case signature_LOC
  with assms show ?thesis
    by (auto simp: accepted_iff shared_load_upd) (auto simp: shared_load_def)
next
  case bus_speed_LOC
  with assms show ?thesis
    using calulate_signature_inj(1) [of "shared_load regs" v]
    by (auto simp: accepted_iff shared_load_upd) (auto simp: shared_load_def)
next
  case node_id_LOC
  with assms show ?thesis
    using calulate_signature_inj(2) [of "shared_load regs" v]
    by (auto simp: accepted_iff shared_load_upd) (auto simp: shared_load_def)
qed

text \<open>
  C30. What one side hands over, the other side reads: data written for a role and read for it give the bus speed and
  the node id that were written. They are refused, with the caller's structure untouched, when read for the other
  role, after they are invalidated, and after a change of any one of the five registers.
\<close>

theorem shared_handover:
  assumes "role \<in> {App, BootLoader}" and "role' \<in> {App, BootLoader}" and "role' \<noteq> role"
    and "v \<noteq> bootloader_app_shared_write d role regs l"
  shows "(\<exists>d'. bootloader_app_shared_read s role (bootloader_app_shared_write d role regs) = (0, d') \<and>
              bus_speed d' = bus_speed d \<and> node_id d' = node_id d) \<and>
         bootloader_app_shared_read s role' (bootloader_app_shared_write d role regs) = (- EBADR, s) \<and>
         bootloader_app_shared_read s role (bootloader_app_shared_invalidate regs) = (- EBADR, s) \<and>
         bootloader_app_shared_read s role ((bootloader_app_shared_write d role regs)(l := v)) = (- EBADR, s)"
proof (intro conjI)
  show ok: "\<exists>d'. bootloader_app_shared_read s role (bootloader_app_shared_write d role regs) = (0, d') \<and>
              bus_speed d' = bus_speed d \<and> node_id d' = node_id d"
    by (simp add: bootloader_app_shared_read_def bootloader_app_shared_write_def Let_def)
  show "bootloader_app_shared_read s role' (bootloader_app_shared_write d role regs) = (- EBADR, s)"
    using assms(1-3) by (auto simp: bootloader_app_shared_read_def bootloader_app_shared_write_def Let_def
      BOOTLOADER_COMMON_APP_SIGNATURE_def BOOTLOADER_COMMON_BOOTLOADER_SIGNATURE_def)
  show "bootloader_app_shared_read s role (bootloader_app_shared_invalidate regs) = (- EBADR, s)"
    by (simp add: bootloader_app_shared_read_def bootloader_app_shared_invalidate_def Let_def
      bootloader_app_shared_init_def BOOTLOADER_COMMON_APP_SIGNATURE_def BOOTLOADER_COMMON_BOOTLOADER_SIGNATURE_def)
  show "bootloader_app_shared_read s role ((bootloader_app_shared_write d role regs)(l := v)) = (- EBADR, s)"
    using ok assms(4) by (intro rejected damage_rejected) auto
qed

theorem shared_handover_witness:
  "\<exists>d'. bootloader_app_shared_read (bootloader_app_shared_init Invalid) App
          (bootloader_app_shared_write \<lparr>crc_ull = 0, signature = 0, bus_speed = 1000000, node_id = 42\<rparr> App (\<lambda>_. 0)) = (0, d') \<and>
        bus_speed d' = 1000000 \<and> node_id d' = 42"
  using shared_handover [of App BootLoader 43 "\<lparr>crc_ull = 0, signature = 0, bus_speed = 1000000, node_id = 42\<rparr>"
    "\<lambda>_. 0" node_id_LOC "bootloader_app_shared_init Invalid"]
  by (simp add: bootloader_app_shared_write_def shared_store_def Let_def)

end
