(* ===== verification/Can_Node.thy ===== *)
theory Can_Node
  imports Can_Transfer Can_Image Boot_Shared
begin

text \<open>
  The program of the CAN bootloader up to its main function, \<^verbatim>\<open>src/platforms/nuttx/src/canbootloader/uavcan/main.c\<close>: the timer
  callbacks, the allocation of a node id, and the dialogue with the file server. The state extends that of the timers,
  so that the callbacks change all of it.

  What comes from outside is in the state as lists that are used up: the polls of each call of \<^verbatim>\<open>uavcan_rx_dsdl\<close>
  (\<open>rx_in\<close>), the frames that the callback for GetNodeInfo finds (\<open>info_in\<close>), the ticks between two tests of a waiting loop
  (\<open>idle_in\<close>), and the measurements of the baud rate (\<open>baud_in\<close>). A function that waits for more than there is ends as
  \<open>Waiting\<close>, with the state it waits in; undefined behaviour is \<open>Crash\<close>.
\<close>

section \<open>State\<close>

record baud_poll =
  bp_samples :: "u32 list"
  bp_count :: nat
  bp_ticks :: nat
  bp_pending :: bool

datatype uiindication_t = ind_off | ind_reset | autobaud_start | autobaud_end | allocation_start | allocation_end
  | fw_update_start | fw_update_erase_fail | fw_update_invalid_response | fw_update_timeout | fw_update_invalid_crc | jump_to_app_ind

text \<open>The board: what is under the program, and the contents of uninitialised memory, by place in the program.\<close>

record can_board = app_area +
  can_tx :: can_driver
  hw_version :: "u8 list"
  mfguid_length :: nat
  product_name :: "u8 list"
  hrt_cycles_per_us :: u32
  hrt_reload :: u32
  hrt_now :: u32
  wait_jumper :: bool
  uninit :: "nat \<Rightarrow> nat \<Rightarrow> u8"

record can_node = bl +
  b_bus_speed :: u32
  b_health :: u8
  b_mode :: u8
  b_sub_mode :: u8
  b_app_valid :: bool
  b_uptime :: u32
  b_fw_image_descriptor :: "nat option"
  b_wait_for_getnodeinfo :: bool
  b_app_bl_request :: bool
  b_sent_node_info_response :: bool
  b_percentage_done :: u16
  b_fw_word0 :: "u32 list"
  g_node :: uavcan_node
  g_server_node_id :: u8
  msg_ids :: uavcan_ids
  status_transfer_id :: u8
  rseed :: u32
  flash_mem :: flash_bytes
  shared_regs :: "shared_loc \<Rightarrow> u32"
  can_rate :: u32
  bus :: "can_frame list"
  indicated :: "uiindication_t list"
  isr_fault :: bool
  rx_in :: "(rx_frame option \<times> nat) list list"
  info_in :: "rx_frame option list"
  idle_in :: "nat list"
  baud_in :: "baud_poll list"

definition junk :: "can_board \<Rightarrow> nat \<Rightarrow> nat \<Rightarrow> u8 list" where
  "junk b place n = map (uninit b place) [0..<n]"

definition board_indicate :: "uiindication_t \<Rightarrow> can_node \<Rightarrow> can_node" where
  "board_indicate i s = s\<lparr>indicated := indicated s @ [i]\<rparr>"

text \<open>Of the CAN controller's set-up, only the speed is kept.\<close>

definition can_init :: "u32 \<Rightarrow> can_node \<Rightarrow> can_node" where
  "can_init speed s = s\<lparr>can_rate := speed\<rparr>"

section \<open>Outcomes\<close>

datatype 'a run = Done 'a can_node | Waiting can_node | Crash

definition and_then :: "'a run \<Rightarrow> ('a \<Rightarrow> can_node \<Rightarrow> 'b run) \<Rightarrow> 'b run" where
  "and_then r f = (case r of Done x s \<Rightarrow> f x s | Waiting s \<Rightarrow> Waiting s | Crash \<Rightarrow> Crash)"

definition of_option :: "can_node option \<Rightarrow> unit run" where
  "of_option r = (case r of None \<Rightarrow> Crash | Some s \<Rightarrow> Done () s)"

definition expired :: "u8 \<Rightarrow> can_node \<Rightarrow> bool run" where
  "expired t s = (case timer_expired t s of None \<Rightarrow> Crash | Some e \<Rightarrow> Done e s)"

text \<open>
  A loop: its body goes round again with a new value (\<open>Inl\<close>) or leaves with a result (\<open>Inr\<close>). Every round of the loops below uses
  up some of the input, so as many rounds as there is input, and one more, are enough.
\<close>

fun rounds :: "nat \<Rightarrow> ('x \<Rightarrow> can_node \<Rightarrow> ('x + 'r) run) \<Rightarrow> 'x \<Rightarrow> can_node \<Rightarrow> 'r run" where
  "rounds 0 body x s = Waiting s"
| "rounds (Suc n) body x s =
     and_then (body x s) (\<lambda>r s. case r of Inl y \<Rightarrow> rounds n body y s | Inr y \<Rightarrow> Done y s)"

definition input_left :: "can_node \<Rightarrow> nat" where
  "input_left s = length (rx_in s) + length (idle_in s) + length (baud_in s)"

definition loop :: "('x \<Rightarrow> can_node \<Rightarrow> ('x + 'r) run) \<Rightarrow> 'x \<Rightarrow> can_node \<Rightarrow> 'r run" where
  "loop body x s = rounds (Suc (input_left s)) body x s"

section \<open>Timer callbacks\<close>

definition HEALTH_OK :: u8 where [simp]: "HEALTH_OK = 0"
definition HEALTH_CRITICAL :: u8 where [simp]: "HEALTH_CRITICAL = 3"
definition MODE_INITIALIZATION :: u8 where [simp]: "MODE_INITIALIZATION = 1"
definition MODE_SOFTWARE_UPDATE :: u8 where [simp]: "MODE_SOFTWARE_UPDATE = 3"
definition OPTIONAL_FIELD_FLAG_VCS_COMMIT :: u8 where "OPTIONAL_FIELD_FLAG_VCS_COMMIT = 1"
definition OPTIONAL_FIELD_FLAG_IMAGE_CRC :: u8 where "OPTIONAL_FIELD_FLAG_IMAGE_CRC = 2"

definition uptime_process :: "can_node \<Rightarrow> can_node" where
  "uptime_process s = s\<lparr>b_uptime := b_uptime s + 1\<rparr>"

definition node_status_bytes :: "u16 \<Rightarrow> can_node \<Rightarrow> u8 list" where
  "node_status_bytes vendor s = le_bytes32 (b_uptime s) @
     [(push_bit 0 (b_sub_mode s) AND BITFEILD_MASK 0 3) OR (push_bit 3 (b_mode s) AND BITFEILD_MASK 3 3) OR
      (push_bit 6 (b_health s) AND BITFEILD_MASK 6 2)] @ le_bytes vendor"

text \<open>The version of the application, read through the pointer to its descriptor; a null pointer is noted.\<close>

definition software_version :: "can_node \<Rightarrow> u8 list option" where
  "software_version s =
     (if b_app_valid s
      then case b_fw_image_descriptor s of
             None \<Rightarrow> None
           | Some d \<Rightarrow> Some ([major_version (flash_mem s) d, minor_version (flash_mem s) d,
               OPTIONAL_FIELD_FLAG_IMAGE_CRC OR OPTIONAL_FIELD_FLAG_VCS_COMMIT] @
               le_bytes32 (git_hash (flash_mem s) d) @ rd_bytes (flash_mem s) (d + 8) 8)
      else Some (replicate 15 0))"

definition send :: "can_board \<Rightarrow> uavcan_dsdl \<Rightarrow> uavcan_protocol \<Rightarrow> u8 list \<Rightarrow> can_node \<Rightarrow> nat \<times> uavcan_protocol \<times> can_node" where
  "send b dsdl p data s =
     (case uavcan_tx_dsdl (can_tx b) (g_node s) dsdl p data (junk b 0 CanPayloadLength) (bus s) of
        (status, p, frames) \<Rightarrow> (status, p, s\<lparr>bus := frames\<rparr>))"

definition no_callout :: "'a callout" where "no_callout cb t ctx s = s"

text \<open>The response as bytes, and its length once it is packed.\<close>

definition node_info_response :: "can_board \<Rightarrow> u8 list \<Rightarrow> can_node \<Rightarrow> u8 list \<times> nat" where
  "node_info_response b version s = uavcan_pack_GetNodeInfo_response
     (node_status_bytes 0 s @ version @ hw_version b @ take 80 (product_name b @ junk b 1 80) @ [of_nat (length (product_name b))])"

definition node_info_process :: "can_board \<Rightarrow> can_node \<Rightarrow> can_node" where
  "node_info_process b s =
     (case software_version s of
        None \<Rightarrow> s\<lparr>isr_fault := True\<rparr>
      | Some version \<Rightarrow>
          let (response, send_length) = node_info_response b version s;
              poll = (case info_in s of [] \<Rightarrow> None | f # fs \<Rightarrow> f);
              protocol0 = \<lparr>can_id = ANY_NODE_ID, tail = uninit b 2 0\<rparr>
          in case uavcan_rx_dsdl no_callout (g_node s) DSDLReqGetNodeInfo protocol0 (junk b 3 8) 8 0 [(poll, 0)]
                    (s\<lparr>info_in := tl (info_in s)\<rparr>) of
               Returned status st \<Rightarrow>
                 if status = UavcanOk
                 then case send b DSDLRspGetNodeInfo (protocol st) (take send_length response) (bl_of st) of
                        (status, p, s) \<Rightarrow> if status = UavcanOk then s\<lparr>b_sent_node_info_response := True\<rparr> else s
                 else bl_of st
             | _ \<Rightarrow> s\<lparr>isr_fault := True\<rparr>)"

definition node_status_process :: "can_board \<Rightarrow> can_node \<Rightarrow> can_node" where
  "node_status_process b s =
     (let p = \<lparr>can_id = rd32 (uninit b 4) 0, tail = set_transfer_id (status_transfer_id s) (uninit b 4 4)\<rparr>
      in snd (snd (send b DSDLMsgNodeStatus p (node_status_bytes (b_percentage_done s) s)
           (s\<lparr>status_transfer_id := status_transfer_id s + 1\<rparr>))))"

definition callouts :: "can_board \<Rightarrow> nat \<Rightarrow> nat \<Rightarrow> nat \<Rightarrow> can_node \<Rightarrow> can_node" where
  "callouts b cb t ctx s =
     (if cb = 0 then uptime_process s else if cb = 1 then node_info_process b s
      else if cb = 2 then node_status_process b s else s)"

definition tick :: "can_board \<Rightarrow> nat \<Rightarrow> can_node \<Rightarrow> can_node" where
  "tick b n s = (nxsched_process_timer (callouts b) ^^ n) s"

definition receive ::
  "can_board \<Rightarrow> uavcan_dsdl \<Rightarrow> uavcan_protocol \<Rightarrow> u8 list \<Rightarrow> nat \<Rightarrow> u32 \<Rightarrow> can_node \<Rightarrow> (nat \<times> uavcan_protocol \<times> u8 list \<times> nat) run" where
  "receive b dsdl p buf in_len timeout_ms s =
     (case rx_in s of
        [] \<Rightarrow> Waiting s
      | polls # rest \<Rightarrow>
          (case uavcan_rx_dsdl (callouts b) (g_node s) dsdl p buf in_len timeout_ms polls (s\<lparr>rx_in := rest\<rparr>) of
             Polling st \<Rightarrow> Waiting (bl_of st)
           | Faulted \<Rightarrow> Crash
           | Returned status st \<Rightarrow> Done (status, protocol st, transfer st, in_out_length st) (bl_of st)))"

section \<open>Random numbers\<close>

definition RAND_MAX_32 :: u32 where "RAND_MAX_32 = push_bit 31 1 - 1"

definition util_srand :: "u16 \<Rightarrow> can_node \<Rightarrow> can_node" where
  "util_srand seed s = s\<lparr>rseed := ucast seed\<rparr>"

definition util_random :: "u16 \<Rightarrow> u16 \<Rightarrow> can_node \<Rightarrow> u16 \<times> can_node" where
  "util_random lo hi s =
     (let seed = (rseed s * 214013 + 2531011) AND RAND_MAX_32; rand = ucast (drop_bit 16 seed) :: u16
      in (word_of_int (uint rand mod (uint hi - uint lo) + uint lo), s\<lparr>rseed := seed\<rparr>))"

section \<open>The baud rate\<close>

definition CAN_OK :: nat where [simp]: "CAN_OK = 0"
definition CAN_BOOT_TIMEOUT :: nat where [simp]: "CAN_BOOT_TIMEOUT = 1"
definition CAN_UNKNOWN :: u32 where [simp]: "CAN_UNKNOWN = 0"
definition CAN_125KBAUD :: u32 where [simp]: "CAN_125KBAUD = 1"
definition CAN_1MBAUD :: u32 where [simp]: "CAN_1MBAUD = 4"
definition CAN_UNDEFINED :: u32 where [simp]: "CAN_UNDEFINED = 999"
definition CAN_BAUD_SAMPLES_NEEDED :: nat where [simp]: "CAN_BAUD_SAMPLES_NEEDED = 32"
definition CAN_BAUD_SAMPLES_DISCARDED :: nat where [simp]: "CAN_BAUD_SAMPLES_DISCARDED = 8"

definition CAN_125KBAUD_BIT_CYCLES :: "can_board \<Rightarrow> u32" where
  "CAN_125KBAUD_BIT_CYCLES b = 8 * hrt_cycles_per_us b"

definition timer_hrt_elapsed :: "can_board \<Rightarrow> u32 \<Rightarrow> u32 \<Rightarrow> u32" where
  "timer_hrt_elapsed b begin_t end_t =
     (let elapsed = begin_t - end_t; reload = hrt_reload b + 1
      in if elapsed > reload then elapsed + reload else elapsed)"

definition can_speed2freq :: "u32 \<Rightarrow> u32" where
  "can_speed2freq speed = drop_bit (unat (CAN_1MBAUD - speed)) 1000000"

definition can_freq2speed :: "u32 \<Rightarrow> u32" where
  "can_freq2speed freq = (if freq = 1000000 then 4 else if freq = 500000 then 3 else if freq = 250000 then 2 else 1)"

text \<open>The shortest time between two edges, leaving out the first ones, and the speed it belongs to.\<close>

definition min_cycles :: "can_board \<Rightarrow> baud_poll \<Rightarrow> u32" where
  "min_cycles b p =
     foldl (\<lambda>least i. let bit_time = timer_hrt_elapsed b (bp_samples p ! i) (bp_samples p ! (i + 1))
                        in if i > CAN_BAUD_SAMPLES_DISCARDED \<and> bit_time < least then bit_time else least)
       (- 1) (filter even [0..<bp_count p])"

fun baud_speed :: "nat \<Rightarrow> u32 \<Rightarrow> u32 \<Rightarrow> u32 \<Rightarrow> u32" where
  "baud_speed 0 least bit34 speed = speed"
| "baud_speed (Suc n) least bit34 speed =
     (if least < bit34 \<and> speed < CAN_1MBAUD then baud_speed n least (bit34 div 2) (speed + 1) else speed)"

definition autobaud_round :: "can_board \<Rightarrow> u8 \<Rightarrow> u32 \<Rightarrow> can_node \<Rightarrow> (u32 + nat \<times> u32) run" where
  "autobaud_round b timeout speed s =
     (case baud_in s of
        [] \<Rightarrow> Waiting s
      | p # rest \<Rightarrow>
          and_then (expired timeout (tick b (bp_ticks p) (s\<lparr>baud_in := rest\<rparr>))) (\<lambda>e s.
          if e then Done (Inr (CAN_BOOT_TIMEOUT, CAN_UNKNOWN)) s
          else if bp_pending p then Done (Inr (CAN_OK, speed)) (can_init speed s)
          else if bp_count p < CAN_BAUD_SAMPLES_NEEDED then Done (Inl speed) s
          else let bit34 = CAN_125KBAUD_BIT_CYCLES b - CAN_125KBAUD_BIT_CYCLES b div 4;
                   speed = baud_speed 3 (min_cycles b p) bit34 CAN_125KBAUD
               in Done (Inl speed) (can_init speed s)))"

definition can_autobaud :: "can_board \<Rightarrow> u8 \<Rightarrow> can_node \<Rightarrow> (nat \<times> u32) run" where
  "can_autobaud b timeout s = loop (autobaud_round b timeout) CAN_125KBAUD s"

section \<open>The node id\<close>

definition MIN_REQUEST_PERIOD_MS :: u16 where [simp]: "MIN_REQUEST_PERIOD_MS = 600"
definition MAX_REQUEST_PERIOD_MS :: u16 where [simp]: "MAX_REQUEST_PERIOD_MS = 1400"
definition MIN_FOLLOWUP_DELAY_MS :: u16 where [simp]: "MIN_FOLLOWUP_DELAY_MS = 0"
definition MAX_FOLLOWUP_DELAY_MS :: u16 where [simp]: "MAX_FOLLOWUP_DELAY_MS = 400"
definition UavcanAnonymousNodeID :: u32 where [simp]: "UavcanAnonymousNodeID = 0"
definition PayloadLengthAllocationunique_id :: nat where [simp]: "PayloadLengthAllocationunique_id = 16"

definition unique_id_of :: "can_board \<Rightarrow> u8 list" where
  "unique_id_of b = take 16 (drop 2 (hw_version b))"

text \<open>What is kept from one round to the next: the server's node id and its message, and the protocol structure.\<close>

record alloc_vars =
  server_node_id :: u8
  allocation_message :: "u8 list"
  alloc_protocol :: uavcan_protocol

definition restart_request :: "u8 \<Rightarrow> can_node \<Rightarrow> unit run" where
  "restart_request trequest s =
     (case util_random MIN_REQUEST_PERIOD_MS MAX_REQUEST_PERIOD_MS s of
        (ms, s) \<Rightarrow> of_option (timer_restart trequest (ucast ms) s))"

definition send_allocation :: "can_board \<Rightarrow> u16 \<Rightarrow> u32 \<Rightarrow> nat \<Rightarrow> can_node \<Rightarrow> unit run" where
  "send_allocation b random preferred offset s =
     (case uavcan_tx_allocation_message (can_tx b) (g_node s) (ucast preferred) (unique_id_of b) (of_nat offset) random
             \<lparr>can_id = rd32 (uninit b 5) 0, tail = uninit b 5 4\<rparr> (junk b 6 CanPayloadLength) (msg_ids s, bus s) of
        None \<Rightarrow> Crash
      | Some (ids, frames) \<Rightarrow> Done () (s\<lparr>msg_ids := ids, bus := frames\<rparr>))"

definition unique_id_matched :: "u8 list \<Rightarrow> u8 list \<Rightarrow> nat \<Rightarrow> nat" where
  "unique_id_matched own other max_compare =
     length (takeWhile (\<lambda>i. own ! i = other ! i) [0..<max_compare])"

text \<open>
  One receive of the allocation loop and what follows it. The result says how to go on: with the test of the boot timer
  (\<open>Some False\<close>), from the label \<^verbatim>\<open>restart\<close> (\<open>Some True\<close>), or that the loop is left, with the id that was allocated.
\<close>

definition alloc_receive ::
  "can_board \<Rightarrow> u16 \<Rightarrow> u8 \<Rightarrow> u32 \<Rightarrow> alloc_vars \<Rightarrow> can_node \<Rightarrow> ((bool \<times> alloc_vars) + u32) run" where
  "alloc_receive b random trequest preferred v s =
     (let p = alloc_protocol v; p = p\<lparr>can_id := set_source_node_id (ucast (server_node_id v)) (can_id p)\<rparr> in
      and_then (receive b DSDLMsgAllocation p (allocation_message v) 17 50 s) (\<lambda>(status, p, msg, rx_len) s.
      let v = v\<lparr>allocation_message := msg, alloc_protocol := p\<rparr> in
      if status \<noteq> UavcanOk then Done (Inl (False, v)) s
      else let rx_len = (if rx_len = 0 then 2 ^ 32 - 1 else rx_len - 1) in
        and_then (restart_request trequest s) (\<lambda>_ s.
        if source_node_id (can_id p) = UavcanAnonymousNodeID then Done (Inl (False, v)) s
        else let v = (if server_node_id v = 0 then v\<lparr>server_node_id := ucast (source_node_id (can_id p))\<rparr> else v);
                 max_compare = min PayloadLengthAllocationunique_id rx_len;
                 matched = unique_id_matched (unique_id_of b) (tl msg) max_compare
             in if matched < rx_len then Done (Inl (True, v)) s
                else if matched = PayloadLengthAllocationunique_id
                then Done (Inr (ucast (drop_bit 1 (msg ! 0 AND BITFEILD_MASK 1 7)))) s
                else case util_random MIN_FOLLOWUP_DELAY_MS MAX_FOLLOWUP_DELAY_MS s of (delay, s) \<Rightarrow>
                  and_then (receive b DSDLMsgAllocation (p\<lparr>can_id := ANY_NODE_ID\<rparr>) (junk b 7 CanPayloadLength) rx_len (ucast delay) s)
                    (\<lambda>(status, p, _, _) s.
                  let v = v\<lparr>alloc_protocol := p\<rparr> in
                  if status = UavcanOk then Done (Inl (True, v)) s
                  else and_then (send_allocation b random preferred matched s) (\<lambda>_ s. Done (Inl (False, v)) s)))))"

text \<open>What precedes the receive: a request when its timer has expired, and the label \<^verbatim>\<open>restart\<close>. The result says if the label was passed.\<close>

definition alloc_prepare :: "can_board \<Rightarrow> u16 \<Rightarrow> u8 \<Rightarrow> u32 \<Rightarrow> bool \<Rightarrow> can_node \<Rightarrow> bool run" where
  "alloc_prepare b random trequest preferred at_restart s =
     and_then
       (if at_restart then Done True s
        else and_then (expired trequest s) (\<lambda>e s.
          if e then and_then (send_allocation b random preferred 0 s) (\<lambda>_ s. Done True s) else Done False s)) (\<lambda>restart s.
     and_then (if restart then restart_request trequest s else Done () s) (\<lambda>_ s. Done restart s))"

definition alloc_round ::
  "can_board \<Rightarrow> u16 \<Rightarrow> u8 \<Rightarrow> u8 \<Rightarrow> u32 \<Rightarrow> bool \<times> alloc_vars \<Rightarrow> can_node \<Rightarrow> ((bool \<times> alloc_vars) + u32) run" where
  "alloc_round b random trequest tboot preferred = (\<lambda>(at_restart, v) s.
     and_then (alloc_prepare b random trequest preferred at_restart s) (\<lambda>restart s.
     and_then (alloc_receive b random trequest preferred
                 (if restart then v\<lparr>server_node_id := ucast ANY_NODE_ID\<rparr> else v) s) (\<lambda>r s.
     case r of
       Inr allocated \<Rightarrow> Done (Inr allocated) s
     | Inl (True, v) \<Rightarrow> Done (Inl (True, v)) s
     | Inl (False, v) \<Rightarrow>
         and_then (expired tboot s) (\<lambda>e s. if e then Done (Inr preferred) s else Done (Inl (False, v)) s))))"

definition get_dynamic_node_id :: "can_board \<Rightarrow> u8 \<Rightarrow> u32 \<Rightarrow> can_node \<Rightarrow> (nat \<times> u32) run" where
  "get_dynamic_node_id b tboot preferred s =
     (let random = crc16_signature (ucast (hrt_now b)) (take (mfguid_length b) (unique_id_of b));
          s = util_srand random s;
          (ms, s) = util_random MIN_REQUEST_PERIOD_MS MAX_REQUEST_PERIOD_MS s;
          (trequest, s) = timer_allocate (modeTimeout OR modeStarted) (ucast ms) None s;
          v = \<lparr>server_node_id = 0, allocation_message = replicate 17 0,
               alloc_protocol = \<lparr>can_id = rd32 (uninit b 8) 0, tail = uninit b 8 4\<rparr>\<rparr>
      in and_then (loop (alloc_round b random trequest tboot preferred) (False, v) s) (\<lambda>allocated s.
         and_then (of_option (timer_free trequest s)) (\<lambda>_ s.
         Done (if allocated = ANY_NODE_ID then CAN_BOOT_TIMEOUT else CAN_OK, allocated) s)))"

section \<open>Log messages\<close>

definition LOGMESSAGE_LEVELINFO :: u8 where [simp]: "LOGMESSAGE_LEVELINFO = 1"
definition LOGMESSAGE_LEVELERROR :: u8 where [simp]: "LOGMESSAGE_LEVELERROR = 3"
definition LOGMESSAGE_STAGE_INIT :: u8 where [simp]: "LOGMESSAGE_STAGE_INIT = 0x49"
definition LOGMESSAGE_STAGE_GET_INFO :: u8 where [simp]: "LOGMESSAGE_STAGE_GET_INFO = 0x47"
definition LOGMESSAGE_STAGE_ERASE :: u8 where [simp]: "LOGMESSAGE_STAGE_ERASE = 0x45"
definition LOGMESSAGE_STAGE_PROGRAM :: u8 where [simp]: "LOGMESSAGE_STAGE_PROGRAM = 0x50"
definition LOGMESSAGE_STAGE_VALIDATE :: u8 where [simp]: "LOGMESSAGE_STAGE_VALIDATE = 0x56"
definition LOGMESSAGE_STAGE_FINALIZE :: u8 where [simp]: "LOGMESSAGE_STAGE_FINALIZE = 0x46"
definition LOGMESSAGE_RESULT_START :: u8 where [simp]: "LOGMESSAGE_RESULT_START = 0x73"
definition LOGMESSAGE_RESULT_FAIL :: u8 where [simp]: "LOGMESSAGE_RESULT_FAIL = 0x66"
definition LOGMESSAGE_RESULT_OK :: u8 where [simp]: "LOGMESSAGE_RESULT_OK = 0x6f"
definition debug_log_source :: "u8 list" where [simp]: "debug_log_source = [0x42, 0x6f, 0x6f, 0x74]"

definition log_message :: "can_board \<Rightarrow> u8 \<Rightarrow> u8 \<Rightarrow> u8 \<Rightarrow> can_node \<Rightarrow> can_node" where
  "log_message b level stage result s =
     (case uavcan_tx_log_message (can_tx b) (g_node s) debug_log_source level stage result
             \<lparr>can_id = rd32 (uninit b 9) 0, tail = uninit b 9 4\<rparr> (junk b 10 CanPayloadLength) (msg_ids s, bus s) of
        (ids, frames) \<Rightarrow> s\<lparr>msg_ids := ids, bus := frames\<rparr>)"

section \<open>The file server\<close>

definition UavcanBootTimeout :: nat where [simp]: "UavcanBootTimeout = 1"
definition UavcanServiceRetries :: nat where [simp]: "UavcanServiceRetries = 3"
definition UavcanServiceTimeOutMs :: u32 where [simp]: "UavcanServiceTimeOutMs = 1000"
definition PayloadLengthPathpath :: nat where [simp]: "PayloadLengthPathpath = 200"
definition PayloadLengthReaddata :: nat where [simp]: "PayloadLengthReaddata = 256"
definition FixedSizeGetInfoRequest :: nat where [simp]: "FixedSizeGetInfoRequest = 0"
definition FixedSizeReadRequest :: nat where [simp]: "FixedSizeReadRequest = 5"
definition FILE_ERROR_OK :: u16 where [simp]: "FILE_ERROR_OK = 0"
definition ENTRY_TYPE_FLAG_FILE :: u8 where "ENTRY_TYPE_FLAG_FILE = 1"
definition ENTRY_TYPE_FLAG_READABLE :: u8 where "ENTRY_TYPE_FLAG_READABLE = 8"
definition ERROR_OK :: u8 where [simp]: "ERROR_OK = 0"

text \<open>Sending a length of a buffer that is longer than the buffer reads outside of it.\<close>

definition send_buffer ::
  "can_board \<Rightarrow> uavcan_dsdl \<Rightarrow> uavcan_protocol \<Rightarrow> u8 list \<Rightarrow> nat \<Rightarrow> can_node \<Rightarrow> (nat \<times> uavcan_protocol) run" where
  "send_buffer b dsdl p buf len s =
     (if len > length buf then Crash
      else case send b dsdl p (take len buf) s of (status, p, s) \<Rightarrow> Done (status, p) s)"

text \<open>The result: no request before the boot timer expired, or the path and its length.\<close>

definition request_round ::
  "can_board \<Rightarrow> u8 \<Rightarrow> uavcan_protocol \<times> u8 list \<Rightarrow> can_node \<Rightarrow>
   (uavcan_protocol \<times> u8 list + (uavcan_protocol \<times> u8 list \<times> nat) option) run" where
  "request_round b tboot = (\<lambda>(p, request) s.
     and_then (expired tboot s) (\<lambda>e s.
     if e then Done (Inr None) s
     else and_then (receive b DSDLReqBeginFirmwareUpdate (p\<lparr>can_id := ANY_NODE_ID\<rparr>) request 201 UavcanServiceTimeOutMs s)
            (\<lambda>(status, p, request, rx_length) s.
              if status = UavcanOk then Done (Inr (Some (p, request, rx_length))) s else Done (Inl (p, request)) s)))"

definition wait_for_beginfirmwareupdate :: "can_board \<Rightarrow> u8 \<Rightarrow> can_node \<Rightarrow> (u8 list \<times> nat) option run" where
  "wait_for_beginfirmwareupdate b tboot s =
     and_then (loop (request_round b tboot)
       (\<lparr>can_id = 0, tail = uninit b 11 4\<rparr>, junk b 12 201) (s\<lparr>g_server_node_id := ucast ANY_NODE_ID\<rparr>)) (\<lambda>r s.
     case r of
       None \<Rightarrow> Done None s
     | Some (p, request, rx_length) \<Rightarrow>
         let s = s\<lparr>g_node := (g_node s)\<lparr>g_uavcan_priority := ucast (fld_get 24 5 (can_id p))\<rparr>\<rparr>;
             (_, _, s) = send b DSDLRspBeginFirmwareUpdate p [ERROR_OK] s;
             rx_length = (if rx_length = 0 then 2 ^ 32 - 1 else rx_length - 1)
         in Done (Some (drop 1 request, rx_length)) (s\<lparr>g_server_node_id := request ! 0\<rparr>))"

definition next_transfer :: "uavcan_protocol \<Rightarrow> uavcan_protocol" where
  "next_transfer p = p\<lparr>tail := set_transfer_id (transfer_id (tail p) + 1) (tail p)\<rparr>"

definition to_server :: "can_node \<Rightarrow> uavcan_protocol \<Rightarrow> uavcan_protocol" where
  "to_server s p = p\<lparr>can_id := set_source_node_id (ucast (g_server_node_id s)) (can_id p)\<rparr>"

definition file_info_ok :: "can_board \<Rightarrow> u8 list \<Rightarrow> bool" where
  "file_info_ok b response \<longleftrightarrow> rd16 ((!) response) 5 = FILE_ERROR_OK \<and>
     response ! 7 AND (ENTRY_TYPE_FLAG_FILE OR ENTRY_TYPE_FLAG_READABLE) \<noteq> 0 \<and>
     rd32 ((!) response) 0 > 0 \<and> rd32 ((!) response) 0 < APPLICATION_SIZE b"

fun getinfo_attempts ::
  "can_board \<Rightarrow> u8 list \<Rightarrow> nat \<Rightarrow> nat \<Rightarrow> uavcan_protocol \<Rightarrow> u8 list \<Rightarrow> can_node \<Rightarrow> u32 run" where
  "getinfo_attempts b path path_len 0 p response s = Done 0 s"
| "getinfo_attempts b path path_len (Suc retries) p response s =
     and_then (send_buffer b DSDLReqGetInfo (to_server s p) path ((FixedSizeGetInfoRequest + path_len) mod 2 ^ 32) s) (\<lambda>(status, p) s.
     if status = UavcanOk
     then and_then (receive b DSDLRspGetInfo (to_server s p) response 8 UavcanServiceTimeOutMs s) (\<lambda>(status, p, response, _) s.
          if status = UavcanOk \<and> file_info_ok b response then Done (rd32 ((!) response) 0) s
          else getinfo_attempts b path path_len retries (next_transfer p) response s)
     else getinfo_attempts b path path_len retries p response s)"

definition file_getinfo :: "can_board \<Rightarrow> u8 list \<Rightarrow> nat \<Rightarrow> can_node \<Rightarrow> u32 run" where
  "file_getinfo b path path_len s =
     getinfo_attempts b path path_len UavcanServiceRetries \<lparr>can_id = rd32 (uninit b 13) 0, tail = 0\<rparr> (junk b 14 8) s"

text \<open>The request is the structure with the offset in the file and the path.\<close>

definition read_request :: "u32 \<Rightarrow> u8 list \<Rightarrow> u8 list" where
  "read_request offset path = le_bytes32 offset @ [0] @ path"

text \<open>
  The attempts to read at an offset. A response of more than the error code counts as data. A shorter one with no
  error is taken as it is, and so is its length.
\<close>

fun read_attempts ::
  "can_board \<Rightarrow> u8 list \<Rightarrow> nat \<Rightarrow> nat \<Rightarrow> uavcan_protocol \<Rightarrow> u8 list \<Rightarrow> can_node \<Rightarrow> (nat option \<times> uavcan_protocol \<times> u8 list) run" where
  "read_attempts b request len 0 p response s = Done (None, p, response) s"
| "read_attempts b request len (Suc retries) p response s =
     and_then (send_buffer b DSDLReqRead (to_server s p) request len s) (\<lambda>(status, p) s.
     if status \<noteq> UavcanOk then read_attempts b request len retries p response s
     else and_then (receive b DSDLRspRead (to_server s p) response 258 UavcanServiceTimeOutMs s) (\<lambda>(status, p, response, length) s.
       let p = next_transfer p in
       if status \<noteq> UavcanOk then read_attempts b request len retries p response s
       else if length > 2 then Done (Some (length - 2), p, response) s
       else if rd16 ((!) response) 0 \<noteq> FILE_ERROR_OK
       then read_attempts b request len retries p response
              (log_message b LOGMESSAGE_LEVELERROR LOGMESSAGE_STAGE_PROGRAM LOGMESSAGE_RESULT_FAIL
                (board_indicate fw_update_invalid_response s))
       else Done (Some length, p, response) s))"

text \<open>The first words are saved, and erased in the data, before the data of the first response are written.\<close>

definition save_first_words :: "can_board \<Rightarrow> u32 \<Rightarrow> u8 list \<Rightarrow> can_node \<Rightarrow> u8 list \<times> can_node" where
  "save_first_words b offset data s =
     (if offset = 0
      then (replicate (4 * LATER_FLAHSED_WORDS b) 0xff @ drop (4 * LATER_FLAHSED_WORDS b) data,
            s\<lparr>b_fw_word0 := map (\<lambda>i. rd32 ((!) data) (4 * i)) [0..<LATER_FLAHSED_WORDS b]\<rparr>)
      else (data, s))"

definition write_flash :: "can_board \<Rightarrow> u32 \<Rightarrow> u8 list \<Rightarrow> can_node \<Rightarrow> flash_error_t \<times> can_node" where
  "write_flash b address data s =
     (case bl_flash_write b address data (flash_mem s) of (status, m) \<Rightarrow> (status, s\<lparr>flash_mem := m\<rparr>))"

text \<open>One round of the loop over the file. The quotient of the progress is undefined when the image has less than 100 bytes.\<close>

definition program_round ::
  "can_board \<Rightarrow> u8 list \<Rightarrow> u8 \<Rightarrow> u32 \<Rightarrow> u32 \<times> uavcan_protocol \<times> u8 list \<Rightarrow> can_node \<Rightarrow>
   ((u32 \<times> uavcan_protocol \<times> u8 list) + flash_error_t) run" where
  "program_round b path path_len fw_image_size = (\<lambda>(offset, p, response) s.
     and_then (read_attempts b (read_request offset path) (FixedSizeReadRequest + unat path_len) UavcanServiceRetries p response s)
       (\<lambda>(length_read, p, response) s.
     case length_read of
       None \<Rightarrow> Done (Inr FLASH_ERROR) (board_indicate fw_update_timeout s)
     | Some len \<Rightarrow>
         let odd_byte = len mod 2;
             data = (if odd_byte = 1 then (drop 2 response)[len := 0xff] else drop 2 response);
             (data, s) = save_first_words b offset data s;
             (flash_status, s) = write_flash b (APPLICATION_LOAD_ADDRESS b + offset) (take (len + odd_byte) data) s;
             offset = offset + word_of_nat len;
             a_percent = fw_image_size div 100
         in if a_percent = 0 then Crash
            else let s = s\<lparr>b_percentage_done := ucast (offset div a_percent)\<rparr> in
              if offset < fw_image_size \<and> len = PayloadLengthReaddata \<and> flash_status = FLASH_OK
              then Done (Inl (offset, p, take 2 response @ data)) s
              else Done (Inr (if flash_status = FLASH_OK \<and> offset = fw_image_size \<and> len \<noteq> 0
                              then FLASH_OK else FLASH_ERROR)) s))"

definition file_read_and_program :: "can_board \<Rightarrow> u8 list \<Rightarrow> u8 \<Rightarrow> u32 \<Rightarrow> can_node \<Rightarrow> flash_error_t run" where
  "file_read_and_program b path path_len fw_image_size s =
     loop (program_round b path path_len fw_image_size)
       (0, \<lparr>can_id = rd32 (uninit b 15) 0, tail = 0\<rparr>, replicate 258 0) (s\<lparr>b_percentage_done := 0\<rparr>)"

end
