(* ===== verification/Can_Main.thy ===== *)
theory Can_Main
  imports Can_Node
begin

text \<open>
  The main function of the CAN bootloader, \<^verbatim>\<open>src/platforms/nuttx/src/canbootloader/uavcan/main.c\<close>: it checks the application in
  flash, gets a node id, takes an update if the bus has one, and starts the application. The labels \<^verbatim>\<open>boot\<close> and
  \<^verbatim>\<open>failure\<close> are functions; the option for a second kind of hand-over (\<^verbatim>\<open>SUPPORT_ALT_CAN_BOOTLOADER\<close>) is set by no board.
\<close>

section \<open>Starting the application\<close>

definition OPT_TBOOT_MS :: u32 where [simp]: "OPT_TBOOT_MS = 5000"
definition OPT_NODE_STATUS_RATE_MS :: u32 where [simp]: "OPT_NODE_STATUS_RATE_MS = 800"
definition OPT_NODE_INFO_RATE_MS :: u32 where [simp]: "OPT_NODE_INFO_RATE_MS = 50"
definition OPT_RESTART_TIMEOUT_MS :: u32 where [simp]: "OPT_RESTART_TIMEOUT_MS = 20000"
definition OPT_PREFERRED_NODE_ID :: u32 where [simp]: "OPT_PREFERRED_NODE_ID = 0"

datatype ending = Jump u32 u32 | SystemReset

text \<open>The flag \<^verbatim>\<open>crc.valid\<close> is the low byte of the checksum.\<close>

definition set_valid :: "bool \<Rightarrow> bootloader_app_shared_t \<Rightarrow> bootloader_app_shared_t" where
  "set_valid v c = c\<lparr>crc_ull := (crc_ull c AND NOT 0xff) OR of_bool v\<rparr>"

definition crc_valid :: "bootloader_app_shared_t \<Rightarrow> bool" where
  "crc_valid c \<longleftrightarrow> crc_ull c AND 0xff \<noteq> 0"

definition application_run ::
  "can_board \<Rightarrow> u32 \<Rightarrow> bootloader_app_shared_t \<Rightarrow> can_node \<Rightarrow> (u32 \<times> u32) option \<times> can_node" where
  "application_run b fw_image_size common s =
     (let load = APPLICATION_LOAD_ADDRESS b;
          fw_image0 = rd32 (flash_mem s) (unat load); fw_image1 = rd32 (flash_mem s) (unat load + 4)
      in if fw_image0 \<noteq> 0xffffffff \<and> fw_image1 > load \<and> fw_image1 < load + fw_image_size
         then let s = board_indicate jump_to_app_ind s;
                  s = (if crc_valid common
                       then s\<lparr>shared_regs := bootloader_app_shared_write common BootLoader (shared_regs s)\<rparr> else s)
              in (Some (fw_image0, fw_image1), s)
         else (None, s))"

text \<open>Waiting in a loop that only tests a timer, and the end of the program.\<close>

definition expired_round :: "can_board \<Rightarrow> u8 \<Rightarrow> unit \<Rightarrow> can_node \<Rightarrow> (unit + unit) run" where
  "expired_round b t _ s = and_then (expired t s) (\<lambda>e s.
     if e then Done (Inr ()) s
     else case idle_in s of [] \<Rightarrow> Waiting s | n # rest \<Rightarrow> Done (Inl ()) (tick b n (s\<lparr>idle_in := rest\<rparr>)))"

definition wait_expired :: "can_board \<Rightarrow> u8 \<Rightarrow> can_node \<Rightarrow> unit run" where
  "wait_expired b t s = loop (expired_round b t) () s"

definition failure :: "can_board \<Rightarrow> u8 \<Rightarrow> can_node \<Rightarrow> ending run" where
  "failure b error_log_stage s =
     (let s = log_message b LOGMESSAGE_LEVELERROR error_log_stage LOGMESSAGE_RESULT_FAIL s;
          s = s\<lparr>b_health := HEALTH_CRITICAL\<rparr>;
          (tmr, s) = timer_allocate (modeTimeout OR modeStarted) OPT_RESTART_TIMEOUT_MS None s
      in and_then (wait_expired b tmr s) (\<lambda>_ s.
         and_then (of_option (timer_free tmr s)) (\<lambda>_ s. Done SystemReset s)))"

definition boot_application :: "can_board \<Rightarrow> u8 \<Rightarrow> bootloader_app_shared_t \<Rightarrow> can_node \<Rightarrow> ending run" where
  "boot_application b error_log_stage common s =
     (case b_fw_image_descriptor s of
        None \<Rightarrow> Crash
      | Some d \<Rightarrow>
          case application_run b (image_size (flash_mem s) d) common s of
            (Some (stacktop, entrypoint), s) \<Rightarrow> Done (Jump stacktop entrypoint) s
          | (None, s) \<Rightarrow> failure b error_log_stage s)"

section \<open>The update\<close>

definition bl_sched_yield :: "can_board \<Rightarrow> can_node \<Rightarrow> can_node" where
  "bl_sched_yield b s = node_status_process b s"

definition erase_application :: "can_board \<Rightarrow> can_node \<Rightarrow> flash_error_t \<times> can_node" where
  "erase_application b s =
     (case bl_flash_erase b (bl_sched_yield b) (APPLICATION_LOAD_ADDRESS b) (APPLICATION_SIZE b) (flash_mem s) s of
        (status, m, s) \<Rightarrow> (status, s\<lparr>flash_mem := m\<rparr>))"

text \<open>From the erasing of the flash to the writing of the first words.\<close>

definition program_update :: "can_board \<Rightarrow> u8 list \<Rightarrow> nat \<Rightarrow> u32 \<Rightarrow> bootloader_app_shared_t \<Rightarrow> can_node \<Rightarrow> ending run" where
  "program_update b fw_path fw_path_length fw_image_size common s =
     (let s = log_message b LOGMESSAGE_LEVELINFO LOGMESSAGE_STAGE_ERASE LOGMESSAGE_RESULT_START s;
          (status, s) = erase_application b (s\<lparr>b_app_valid := False\<rparr>)
      in if status \<noteq> FLASH_OK then failure b LOGMESSAGE_STAGE_ERASE (board_indicate fw_update_erase_fail s)
         else and_then (file_read_and_program b fw_path (word_of_nat fw_path_length) fw_image_size s) (\<lambda>status s.
           if status \<noteq> FLASH_OK then failure b LOGMESSAGE_STAGE_PROGRAM s
           else let (ok, desc) = is_app_valid b (b_fw_word0 s) (flash_mem s); s = s\<lparr>b_fw_image_descriptor := desc\<rparr>
             in if \<not> ok
                then failure b LOGMESSAGE_STAGE_VALIDATE (board_indicate fw_update_invalid_crc (s\<lparr>b_app_valid := False\<rparr>))
                else let (status, s) = write_flash b (APPLICATION_LOAD_ADDRESS b) (concat (map le_bytes32 (b_fw_word0 s))) s
                  in if status \<noteq> FLASH_OK then failure b LOGMESSAGE_STAGE_FINALIZE s
                     else boot_application b LOGMESSAGE_STAGE_INIT common
                            (log_message b LOGMESSAGE_LEVELINFO LOGMESSAGE_STAGE_FINALIZE LOGMESSAGE_RESULT_OK
                              (s\<lparr>b_percentage_done := 100\<rparr>))))"

definition update :: "can_board \<Rightarrow> u8 \<Rightarrow> u8 list \<Rightarrow> nat \<Rightarrow> bootloader_app_shared_t \<Rightarrow> can_node \<Rightarrow> ending run" where
  "update b tboot fw_path fw_path_length common s =
     and_then (of_option (timer_stop tboot s)) (\<lambda>_ s.
     let s = board_indicate fw_update_start s; s = s\<lparr>b_mode := MODE_SOFTWARE_UPDATE\<rparr> in
     and_then (file_getinfo b fw_path fw_path_length s) (\<lambda>fw_image_size s.
     if fw_image_size < sizeof_app_descriptor then failure b LOGMESSAGE_STAGE_GET_INFO s
     else program_update b fw_path fw_path_length fw_image_size common s))"

section \<open>The main function\<close>

definition autobaud_and_get_dynamic_node_id :: "can_board \<Rightarrow> u8 \<Rightarrow> u32 \<Rightarrow> u32 \<Rightarrow> can_node \<Rightarrow> (nat \<times> u32 \<times> u32) run" where
  "autobaud_and_get_dynamic_node_id b tboot speed nid s =
     (let s = board_indicate autobaud_start s; autobaud_only = (speed = CAN_UNDEFINED) in
      and_then (can_autobaud b tboot s) (\<lambda>(rv, speed) s.
      if rv = CAN_BOOT_TIMEOUT then Done (rv, speed, nid) s
      else let s = board_indicate autobaud_end s in
        if autobaud_only then Done (rv, speed, nid) s
        else let s = board_indicate allocation_start s in
          and_then (get_dynamic_node_id b tboot nid s) (\<lambda>(rv, nid) s.
          Done (rv, speed, nid) (if rv \<noteq> CAN_BOOT_TIMEOUT then board_indicate allocation_end s else s))))"

text \<open>The state after reset: the timers are set up by \<^verbatim>\<open>timer_init\<close>, the structure \<^verbatim>\<open>bootloader\<close> is cleared.\<close>

definition main_reset :: "can_board \<Rightarrow> can_node \<Rightarrow> can_node" where
  "main_reset b s = (timer_init s)\<lparr>b_bus_speed := 0, b_health := HEALTH_OK, b_mode := MODE_INITIALIZATION, b_sub_mode := 0,
     b_app_valid := False, b_uptime := 0, b_fw_image_descriptor := None, b_wait_for_getnodeinfo := wait_jumper b,
     b_app_bl_request := False, b_sent_node_info_response := False, b_percentage_done := 0,
     b_fw_word0 := replicate (LATER_FLAHSED_WORDS b) 0,
     g_node := \<lparr>g_uavcan_priority = 30, g_this_node_id = 0\<rparr>, g_server_node_id := 0,
     msg_ids := \<lparr>log_transfer_id = 0, allocation_transfer_id = 0\<rparr>, status_transfer_id := 0, rseed := 0, isr_fault := False\<rparr>"

text \<open>The timers, in the order of their allocation: uptime, node information, node status, boot.\<close>

definition start_timers :: "can_node \<Rightarrow> u8 \<times> u8 \<times> u8 \<times> can_node" where
  "start_timers s =
     (let (_, s) = timer_allocate (modeRepeating OR modeStarted) 1000 (Some (null_cb\<lparr>cb_fn := Some 0\<rparr>)) s;
          (tinfo, s) = timer_allocate modeRepeating OPT_NODE_INFO_RATE_MS (Some (null_cb\<lparr>cb_fn := Some 1\<rparr>)) s;
          (tstatus, s) = timer_allocate modeRepeating OPT_NODE_STATUS_RATE_MS (Some (null_cb\<lparr>cb_fn := Some 2\<rparr>)) s;
          (tboot, s) = timer_allocate modeTimeout OPT_TBOOT_MS None s
      in (tinfo, tstatus, tboot, s))"

definition main_init :: "can_board \<Rightarrow> bootloader_app_shared_t \<Rightarrow> can_node \<Rightarrow> bootloader_app_shared_t \<times> can_node" where
  "main_init b common s =
     (let s = main_reset b s;
          (valid, desc) = is_app_valid b (fw_words b (flash_mem s)) (flash_mem s);
          s = board_indicate ind_reset (s\<lparr>b_app_valid := valid, b_fw_image_descriptor := desc\<rparr>);
          (rv, common) = bootloader_app_shared_read common App (shared_regs s);
          s = s\<lparr>b_app_bl_request := (rv = 0 \<and> bus_speed common \<noteq> 0 \<and> node_id common \<noteq> 0)\<rparr>
      in (set_valid False common, s\<lparr>shared_regs := bootloader_app_shared_invalidate (shared_regs s)\<rparr>))"

definition timer_start_if :: "bool \<Rightarrow> u8 \<Rightarrow> can_node \<Rightarrow> unit run" where
  "timer_start_if c t s = (if c then of_option (timer_start t s) else Done () s)"

text \<open>Getting on the bus; \<open>None\<close> if the boot timer expired first.\<close>

definition join_bus :: "can_board \<Rightarrow> u8 \<Rightarrow> bootloader_app_shared_t \<Rightarrow> can_node \<Rightarrow> (bool \<times> bootloader_app_shared_t) run" where
  "join_bus b tboot common s =
     (if b_app_bl_request s
      then let s = s\<lparr>b_bus_speed := bus_speed common\<rparr> in
        if bus_speed common = CAN_UNDEFINED
        then and_then (autobaud_and_get_dynamic_node_id b tboot (b_bus_speed s) (node_id common) s) (\<lambda>(rv, speed, nid) s.
             let s = s\<lparr>b_bus_speed := speed\<rparr>; common = common\<lparr>node_id := nid\<rparr> in
             if rv \<noteq> CAN_OK then Done (False, common) s
             else Done (True, set_valid True common) (can_init (can_freq2speed (bus_speed common)) s))
        else Done (True, set_valid True common) (can_init (can_freq2speed (bus_speed common)) s)
      else and_then (autobaud_and_get_dynamic_node_id b tboot (b_bus_speed s) OPT_PREFERRED_NODE_ID s) (\<lambda>(rv, speed, nid) s.
        let s = s\<lparr>b_bus_speed := speed\<rparr>; common = common\<lparr>node_id := nid\<rparr> in
        if rv \<noteq> CAN_OK then Done (False, common) s
        else let s = s\<lparr>b_uptime := 0\<rparr>; common = set_valid True (common\<lparr>bus_speed := can_speed2freq (b_bus_speed s)\<rparr>) in
          and_then (timer_start_if (b_app_valid s \<and> \<not> b_wait_for_getnodeinfo s) tboot s) (\<lambda>_ s. Done (True, common) s)))"

text \<open>Waiting for the node information to be asked for; false if the boot timer expired.\<close>

definition node_info_round :: "can_board \<Rightarrow> u8 \<Rightarrow> unit \<Rightarrow> can_node \<Rightarrow> (unit + bool) run" where
  "node_info_round b tboot _ s =
     (if b_sent_node_info_response s then Done (Inr True) s
      else and_then (expired tboot s) (\<lambda>e s.
        if e then Done (Inr False) s
        else case idle_in s of [] \<Rightarrow> Waiting s | n # rest \<Rightarrow> Done (Inl ()) (tick b n (s\<lparr>idle_in := rest\<rparr>))))"

definition wait_node_info :: "can_board \<Rightarrow> u8 \<Rightarrow> can_node \<Rightarrow> bool run" where
  "wait_node_info b tboot s = loop (node_info_round b tboot) () s"

text \<open>Waiting for a request with a path; \<open>None\<close> if the boot timer expired.\<close>

definition update_round :: "can_board \<Rightarrow> u8 \<Rightarrow> unit \<Rightarrow> can_node \<Rightarrow> (unit + (u8 list \<times> nat) option) run" where
  "update_round b tboot _ s =
     and_then (wait_for_beginfirmwareupdate b tboot s) (\<lambda>r s.
     case r of
       None \<Rightarrow> Done (Inr None) s
     | Some (path, len) \<Rightarrow> Done (if len = 0 then Inl () else Inr (Some (path, len))) s)"

definition wait_update :: "can_board \<Rightarrow> u8 \<Rightarrow> can_node \<Rightarrow> (u8 list \<times> nat) option run" where
  "wait_update b tboot s = loop (update_round b tboot) () s"

definition on_bus :: "can_board \<Rightarrow> u8 \<Rightarrow> u8 \<Rightarrow> u8 \<Rightarrow> bootloader_app_shared_t \<Rightarrow> can_node \<Rightarrow> ending run" where
  "on_bus b tinfo tstatus tboot common s =
     (let s = s\<lparr>g_node := (g_node s)\<lparr>g_this_node_id := ucast (node_id common)\<rparr>\<rparr> in
      and_then (of_option (timer_start tinfo s)) (\<lambda>_ s.
      and_then (of_option (timer_start tstatus s)) (\<lambda>_ s.
      and_then (wait_node_info b tboot s) (\<lambda>seen s.
      if \<not> seen then boot_application b LOGMESSAGE_STAGE_INIT common s
      else and_then (timer_start_if (b_app_valid s \<and> (b_wait_for_getnodeinfo s \<or> b_app_bl_request s)) tboot s) (\<lambda>_ s.
        and_then (wait_update b tboot s) (\<lambda>r s.
        case r of
          None \<Rightarrow> boot_application b LOGMESSAGE_STAGE_INIT common s
        | Some (path, len) \<Rightarrow> update b tboot path len common s))))))"

text \<open>The main function up to the bus: the timers it allocated, whether the node is on the bus, and the data for the application.\<close>

definition main_join :: "can_board \<Rightarrow> bootloader_app_shared_t \<Rightarrow> can_node \<Rightarrow> (u8 \<times> u8 \<times> u8 \<times> bool \<times> bootloader_app_shared_t) run" where
  "main_join b common s =
     (let (common, s) = main_init b common s; (tinfo, tstatus, tboot, s) = start_timers s in
      and_then (timer_start_if (b_app_valid s \<and> \<not> b_wait_for_getnodeinfo s \<and> \<not> b_app_bl_request s) tboot s) (\<lambda>_ s.
      and_then (join_bus b tboot common s) (\<lambda>(joined, common) s. Done (tinfo, tstatus, tboot, joined, common) s)))"

definition main :: "can_board \<Rightarrow> bootloader_app_shared_t \<Rightarrow> can_node \<Rightarrow> ending run" where
  "main b common s =
     and_then (main_join b common s) (\<lambda>(tinfo, tstatus, tboot, joined, common) s.
     if joined then on_bus b tinfo tstatus tboot common s
     else boot_application b LOGMESSAGE_STAGE_INIT common s)"

end
