(* ===== verification/Can_Run.thy ===== *)
theory Can_Run
  imports Can_Main
begin

text \<open>
  The means to reason about the CAN bootloader: facts that ticks and receiving keep, what is true of the outcomes of a
  composed function, and that the loops have enough rounds.
\<close>

section \<open>The receiver and its timer\<close>

text \<open>A receiver touches the timers only by ticks and by its own timer: a fact \<open>I\<close> that these keep holds while it waits.\<close>

lemma rx_body_keeps:
  assumes "\<And>s s'. I s \<Longrightarrow> timer_restart t ms s = Some s' \<Longrightarrow> I s'" and "I (bl_of st)"
  shows "case rx_body t ms f st of Continue st' \<Rightarrow> I (bl_of st') | Break _ st' \<Rightarrow> I (bl_of st') | Fault \<Rightarrow> True"
proof -
  have copy: "case rx_copy rt bs i l st of Continue st' \<Rightarrow> I (bl_of st') | Break _ st' \<Rightarrow> I (bl_of st') | Fault \<Rightarrow> True"
    if "I (bl_of st)" for rt bs i l st
    using that by (auto simp: rx_copy_def Let_def)
  show ?thesis
    using assms(2) assms(1) [OF assms(2)] copy
    by (auto simp: rx_body_def rx_start_def rx_reset_def masks_OnStartOfTransfer_def Let_def case_prod_unfold split: option.splits)
qed

lemma rx_loop_keeps:
  assumes "\<And>n s. n \<in> snd ` set polls \<Longrightarrow> I s \<Longrightarrow> I ((nxsched_process_timer E ^^ n) s)"
    and restart: "\<And>s s'. I s \<Longrightarrow> timer_restart t ms s = Some s' \<Longrightarrow> I s'"
    and free: "\<And>s s'. I s \<Longrightarrow> timer_free t s = Some s' \<Longrightarrow> Q s'"
    and "I (bl_of st)"
  shows "case rx_loop E d t ms polls st of Polling st' \<Rightarrow> I (bl_of st') | Faulted \<Rightarrow> True | Returned _ st' \<Rightarrow> Q (bl_of st')"
  using assms(1,4)
proof (induction polls arbitrary: st)
  case (Cons a polls)
  obtain poll ticks where a: "a = (poll, ticks)" by force
  define r where "r = (case poll of None \<Rightarrow> Continue st | Some f \<Rightarrow> rx_body t ms f st)"
  have r: "case r of Continue st' \<Rightarrow> I (bl_of st') | Break _ st' \<Rightarrow> I (bl_of st') | Fault \<Rightarrow> True"
    using Cons(3) rx_body_keeps [of I t ms st, OF restart Cons(3)] by (auto simp: r_def split: option.split)
  have ret: "case rx_return d t tm rt st of Polling st' \<Rightarrow> I (bl_of st') | Faulted \<Rightarrow> True | Returned _ st' \<Rightarrow> Q (bl_of st')"
    if "I (bl_of st)" for tm rt st
    using free [OF that] by (auto simp: rx_return_def split: option.split)
  have ticks: "I s \<Longrightarrow> I ((nxsched_process_timer E ^^ ticks) s)" for s
    using Cons(2) [of ticks s] by (simp add: a)
  have IH: "I (bl_of st) \<Longrightarrow>
      case rx_loop E d t ms polls st of Polling st' \<Rightarrow> I (bl_of st') | Faulted \<Rightarrow> True | Returned _ st' \<Rightarrow> Q (bl_of st')" for st
    using Cons(1) [of st] Cons(2) by simp
  show ?case
    using r IH ret ticks by (auto simp: a r_def [symmetric] Let_def split: rx_step.splits option.splits bool.splits)
qed simp

lemma rx_dsdl_keeps:
  assumes "timer_allocate (modeTimeout OR modeStarted) ms None b = (t, b1)" and "I b1"
    and "\<And>n s. n \<in> snd ` set polls \<Longrightarrow> I s \<Longrightarrow> I ((nxsched_process_timer E ^^ n) s)"
    and "\<And>s s'. I s \<Longrightarrow> timer_restart t ms s = Some s' \<Longrightarrow> I s'"
    and "\<And>s s'. I s \<Longrightarrow> timer_free t s = Some s' \<Longrightarrow> Q s'"
  shows "case uavcan_rx_dsdl E g dsdl p buf in_len ms polls b of
           Polling st' \<Rightarrow> I (bl_of st') | Faulted \<Rightarrow> True | Returned _ st' \<Rightarrow> Q (bl_of st')"
  using assms(2) by (auto simp: uavcan_rx_dsdl_def assms(1) Let_def case_prod_unfold intro!: rx_loop_keeps [where I = I and Q = Q] intro: assms(3-5))

section \<open>Facts that the timers keep\<close>

text \<open>
  A fact \<open>P\<close> about the state that holds for users of timers: the timers in \<open>J\<close> are in use, so that no one else gets them, and
  on the others it does not depend.
\<close>

locale timer_client =
  fixes P :: "'a bl_scheme \<Rightarrow> bool" and J :: "nat set"
  assumes others: "P s \<Longrightarrow> t \<notin> J \<Longrightarrow> P (set_timer t e s)"
    and held: "P s \<Longrightarrow> t \<in> J \<Longrightarrow> t_ctl (timers s ! t) AND inuse \<noteq> 0"
    and table: "J \<subseteq> {..<7}"
begin

lemma allocate_fact:
  assumes "P s" and "timer_allocate mode ms fc s = (t, s')"
  shows "P s'" and "unat t \<notin> J"
proof -
  let ?free = "find (\<lambda>t. t_ctl (timers s ! t) AND inuse = 0) (rev [0..<OPT_BL_NUMBER_TIMERS])"
  have free: "k \<notin> J \<and> k < 7" if "?free = Some k" for k
    using that held [OF assms(1), of k] by (auto simp: find_Some_iff OPT_BL_NUMBER_TIMERS_def rev_nth)
  show "P s'"
    using assms free by (auto simp: timer_allocate_def intro: others split: option.splits)
  show "unat t \<notin> J"
  proof (cases ?free)
    case None
    then have "t = - 1" using assms(2) by (simp add: timer_allocate_def)
    then have "unat t = 255" by (simp add: unsigned_minus_1_eq_mask mask_eq_exp_minus_1)
    then show ?thesis using table by auto
  qed (use assms(2) free in \<open>auto simp: timer_allocate_def unat_of_nat\<close>)
qed

lemma timer_ops_fact:
  assumes "P s" and "unat t \<notin> J"
  shows "timer_free t s = Some s' \<Longrightarrow> P s'" and "timer_restart t ms s = Some s' \<Longrightarrow> P s'" and "timer_start t s = Some s' \<Longrightarrow> P s'"
  using others [OF assms] by (auto simp: timer_free_def timer_restart_def timer_start_def with_timer_def split: if_splits)

lemma rx_dsdl_client:
  assumes "P b" and "\<And>n s. n \<in> snd ` set polls \<Longrightarrow> P s \<Longrightarrow> P ((nxsched_process_timer E ^^ n) s)"
  shows "case uavcan_rx_dsdl E g dsdl p buf in_len ms polls b of
           Polling st' \<Rightarrow> P (bl_of st') | Faulted \<Rightarrow> True | Returned _ st' \<Rightarrow> P (bl_of st')"
proof -
  obtain t b1 where t: "timer_allocate (modeTimeout OR modeStarted) ms None b = (t, b1)" by force
  note alloc = allocate_fact [OF assms(1) t]
  show ?thesis
    using t alloc(1)
    by (rule rx_dsdl_keeps) (erule (1) assms(2) | erule timer_ops_fact(2) [OF _ alloc(2)] timer_ops_fact(1) [OF _ alloc(2)], assumption)+
qed

end

text \<open>If \<open>P\<close> does not depend on the counts of the timers in \<open>J\<close> either, and the callbacks keep it, then so do ticks.\<close>

locale timer_fact = timer_client P J for P :: "'a bl_scheme \<Rightarrow> bool" and J +
  fixes E :: "'a callout"
  assumes tic: "P s \<Longrightarrow> P (s\<lparr>sys_tic := n\<rparr>)"
    and fires: "P s \<Longrightarrow> P (s\<lparr>fired := l\<rparr>)"
    and own: "P s \<Longrightarrow> t \<in> J \<Longrightarrow> P (set_timer t ((timers s ! t)\<lparr>t_count := n\<rparr>) s)"
    and kept: "P s \<Longrightarrow> t \<in> J \<Longrightarrow> t_ctl (timers s ! t) AND NOT (inuse OR running) \<noteq> modeOneShot"
    and callback: "P s \<Longrightarrow> P (E cb t ctx s)"
begin

lemma run_cb_fact: "P s \<Longrightarrow> P (run_cb E t user s)"
  by (auto simp: run_cb_def callback fires split: option.split)

lemma process_entry_fact: "P s \<Longrightarrow> P (process_entry E t s)"
proof (cases "t \<in> J")
  case True
  assume "P s"
  with True show ?thesis
    using kept [OF \<open>P s\<close> True] own [OF \<open>P s\<close> True]
    by (auto simp: process_entry_def expire_def Let_def intro!: run_cb_fact)
next
  case False
  assume "P s"
  with False show ?thesis
    by (auto simp: process_entry_def expire_def Let_def intro!: run_cb_fact others)
qed

lemma process_timer_fact: "P s \<Longrightarrow> P (nxsched_process_timer E s)"
proof -
  have "P s \<Longrightarrow> P (fold (process_entry E) ts s)" for ts s
    by (induction ts arbitrary: s) (auto intro: process_entry_fact)
  then show "P s \<Longrightarrow> P (nxsched_process_timer E s)"
    by (simp add: nxsched_process_timer_def tic)
qed

lemma ticks_fact: "P s \<Longrightarrow> P ((nxsched_process_timer E ^^ n) s)"
  by (induction n) (auto intro: process_timer_fact)

lemma rx_dsdl_fact:
  "P b \<Longrightarrow> case uavcan_rx_dsdl E g dsdl p buf in_len ms polls b of
     Polling st' \<Rightarrow> P (bl_of st') | Faulted \<Rightarrow> True | Returned _ st' \<Rightarrow> P (bl_of st')"
  by (rule rx_dsdl_client) (auto intro: ticks_fact)

end

section \<open>Outcomes of composed functions\<close>

text \<open>A function that returns does so with \<open>Q\<close>; one that waits does so in a state with \<open>W\<close>.\<close>

definition run_ok :: "('a \<Rightarrow> can_node \<Rightarrow> bool) \<Rightarrow> (can_node \<Rightarrow> bool) \<Rightarrow> 'a run \<Rightarrow> bool" where
  "run_ok Q W r \<longleftrightarrow> (case r of Done x s \<Rightarrow> Q x s | Waiting s \<Rightarrow> W s | Crash \<Rightarrow> True)"

lemma run_ok_simps [simp]:
  "run_ok Q W (Done x s) \<longleftrightarrow> Q x s" "run_ok Q W (Waiting s) \<longleftrightarrow> W s" "run_ok Q W Crash"
  by (simp_all add: run_ok_def)

lemma and_then_simps [simp]:
  "and_then (Done x s) f = f x s" "and_then (Waiting s) f = Waiting s" "and_then Crash f = Crash"
  by (simp_all add: and_then_def)

lemma run_ok_and_then: "run_ok (\<lambda>x s. run_ok Q W (f x s)) W r \<Longrightarrow> run_ok Q W (and_then r f)"
  by (cases r) simp_all

lemma run_ok_mono:
  assumes "run_ok Q W r" and "\<And>x s. Q x s \<Longrightarrow> Q' x s" and "\<And>s. W s \<Longrightarrow> W' s"
  shows "run_ok Q' W' r"
  using assms by (cases r) auto

lemma run_ok_conj: "run_ok Q W r \<Longrightarrow> run_ok Q' W' r \<Longrightarrow> run_ok (\<lambda>x s. Q x s \<and> Q' x s) (\<lambda>s. W s \<and> W' s) r"
  by (cases r) auto

lemma run_ok_rounds:
  assumes "\<And>x s. I x s \<Longrightarrow> run_ok (\<lambda>r s. case r of Inl y \<Rightarrow> I y s | Inr y \<Rightarrow> Q y s) W (body x s)"
    and "\<And>x s. I x s \<Longrightarrow> W s" and "I x s"
  shows "run_ok Q W (rounds n body x s)"
  using assms(3)
proof (induction n arbitrary: x s)
  case (Suc n)
  show ?case
    unfolding rounds.simps
    by (rule run_ok_and_then, rule run_ok_mono [OF assms(1) [OF Suc(2)]]) (auto simp: Suc(1) split: sum.splits)
qed (use assms(2) in simp)

lemma run_ok_loop:
  assumes "\<And>x s. I x s \<Longrightarrow> run_ok (\<lambda>r s. case r of Inl y \<Rightarrow> I y s | Inr y \<Rightarrow> Q y s) W (body x s)"
    and "\<And>x s. I x s \<Longrightarrow> W s" and "I x s"
  shows "run_ok Q W (loop body x s)"
  unfolding loop_def by (rule run_ok_rounds [OF assms])

section \<open>Enough rounds\<close>

text \<open>
  A body that uses up input before it goes round again: then the loop is the loop of the program, whatever the number of
  rounds it is given.
\<close>

definition consumes :: "('x \<Rightarrow> can_node \<Rightarrow> ('x + 'r) run) \<Rightarrow> bool" where
  "consumes body \<longleftrightarrow> (\<forall>x s. run_ok (\<lambda>r s'. case r of Inl _ \<Rightarrow> input_left s' < input_left s | Inr _ \<Rightarrow> True) (\<lambda>_. True) (body x s))"

lemma rounds_enough:
  assumes "consumes body" and "input_left s < n" and "n \<le> k"
  shows "rounds k body x s = rounds n body x s"
  using assms(2,3)
proof (induction n arbitrary: k x s)
  case (Suc n)
  obtain k' where k: "k = Suc k'" "n \<le> k'" using Suc(3) by (cases k) auto
  show ?case
  proof (cases "body x s")
    case (Done r s')
    show ?thesis
    proof (cases r)
      case (Inl y)
      then have "input_left s' < n"
        using assms(1) Done Suc(2) by (simp add: consumes_def) (metis (no_types, lifting) less_le_trans less_Suc_eq_le old.sum.simps(5) run_ok_simps(1))
      then show ?thesis
        using Suc(1) [of s' k' y] k Done Inl by simp
    qed (simp add: k Done)
  qed (simp_all add: k)
qed simp

lemma loop_enough: "consumes body \<Longrightarrow> input_left s < n \<Longrightarrow> rounds n body x s = loop body x s"
  unfolding loop_def by (rule rounds_enough) auto

lemma loop_unfold:
  assumes "consumes body"
  shows "loop body x s = and_then (body x s) (\<lambda>r s. case r of Inl y \<Rightarrow> loop body y s | Inr y \<Rightarrow> Done y s)"
proof (cases "body x s")
  case (Done r s')
  show ?thesis
  proof (cases r)
    case (Inl y)
    then have "input_left s' < input_left s"
      using assms Done unfolding consumes_def by (metis (no_types, lifting) old.sum.simps(5) run_ok_simps(1))
    then show ?thesis
      using rounds_enough [OF assms, of s' "Suc (input_left s')" "input_left s" y] Done Inl by (simp add: loop_def)
  qed (simp add: loop_def Done)
qed (simp_all add: loop_def)

section \<open>Facts about the node\<close>

text \<open>The part of the state that callbacks, sending and receiving leave alone, apart from the timers' counts and the input.\<close>

definition node_data :: "can_node \<Rightarrow> _" where
  "node_data s = ((flash_mem s, b_app_valid s, b_fw_image_descriptor s, b_fw_word0 s), (shared_regs s, b_app_bl_request s,
     b_wait_for_getnodeinfo s, g_node s, g_server_node_id s), rx_in s, idle_in s, baud_in s)"

definition node_core :: "can_node \<Rightarrow> _" where
  "node_core s = (timers s, node_data s)"

lemmas node_core_simp = node_core_def node_data_def

lemma node_core_send: "send b dsdl p data s = (status, p', s') \<Longrightarrow> node_core s' = node_core s"
  by (auto simp: send_def node_core_simp split: prod.splits)

lemma node_core_simps [simp]:
  "node_core (board_indicate i s) = node_core s" "node_core (can_init speed s) = node_core s" "node_core (util_srand seed s) = node_core s"
  "node_core (snd (util_random lo hi s)) = node_core s" "node_core (log_message b level stage result s) = node_core s"
  "node_core (uptime_process s) = node_core s" "node_core (node_status_process b s) = node_core s"
  by (simp_all add: node_core_simp board_indicate_def can_init_def util_srand_def util_random_def log_message_def uptime_process_def
      node_status_process_def send_def Let_def case_prod_unfold)

lemma node_core_upd [simp]:
  "node_core (s\<lparr>b_uptime := u\<rparr>) = node_core s" "node_core (s\<lparr>b_sent_node_info_response := x\<rparr>) = node_core s" "node_core (s\<lparr>isr_fault := x\<rparr>) = node_core s"
  "node_core (s\<lparr>info_in := i\<rparr>) = node_core s" "node_core (s\<lparr>b_mode := m\<rparr>) = node_core s" "node_core (s\<lparr>b_health := m\<rparr>) = node_core s"
  "node_core (s\<lparr>b_bus_speed := sp\<rparr>) = node_core s"
  "node_core (s\<lparr>b_percentage_done := c\<rparr>) = node_core s" "node_core (s\<lparr>sys_tic := k\<rparr>) = node_core s" "node_core (s\<lparr>fired := l\<rparr>) = node_core s"
  by (simp_all add: node_core_simp)

lemma node_core_random: "util_random lo hi s = (ms, s') \<Longrightarrow> node_core s' = node_core s"
  using node_core_simps(4) [of lo hi s] by simp

locale node_client = timer_client P J for P :: "can_node \<Rightarrow> bool" and J +
  assumes same_core: "P s \<Longrightarrow> node_core s' = node_core s \<Longrightarrow> P s'"
begin

lemma send_fact: "P s \<Longrightarrow> send b dsdl p data s = (status, p', s') \<Longrightarrow> P s'"
  by (erule same_core) (rule node_core_send)

lemma node_info_process_fact: "P s \<Longrightarrow> P (node_info_process b s)"
proof (cases "software_version s")
  case None
  then show "P s \<Longrightarrow> P (node_info_process b s)"
    by (simp add: node_info_process_def) (erule same_core, simp)
next
  case (Some version)
  assume P: "P s"
  define poll where "poll = (case info_in s of [] \<Rightarrow> None | f # fs \<Rightarrow> f)"
  define r where "r = uavcan_rx_dsdl no_callout (g_node s) DSDLReqGetNodeInfo \<lparr>can_id = ANY_NODE_ID, tail = uninit b 2 0\<rparr> (junk b 3 8) 8 0
    [(poll, 0)] (s\<lparr>info_in := tl (info_in s)\<rparr>)"
  obtain response len where response: "node_info_response b version s = (response, len)" by force
  have "P (s\<lparr>info_in := tl (info_in s)\<rparr>)" and fault: "P (s\<lparr>isr_fault := True\<rparr>)"
    using P by (auto intro: same_core)
  then have rx: "case r of Polling st \<Rightarrow> P (bl_of st) | Faulted \<Rightarrow> True | Returned _ st \<Rightarrow> P (bl_of st)"
    unfolding r_def by (intro rx_dsdl_client) auto
  have sent: "P (case send b dsdl p data s' of (status, p, s) \<Rightarrow> if status = UavcanOk then s\<lparr>b_sent_node_info_response := True\<rparr> else s)"
    if "P s'" for dsdl p data s'
  proof -
    obtain st p' s1 where s1: "send b dsdl p data s' = (st, p', s1)" by (cases "send b dsdl p data s'") auto
    from send_fact [OF that s1] show ?thesis
      using same_core [of s1 "s1\<lparr>b_sent_node_info_response := True\<rparr>"] by (simp add: s1)
  qed
  show ?thesis
    using rx fault sent unfolding node_info_process_def Some Let_def option.case response prod.case poll_def [symmetric] r_def [symmetric]
    by (cases r) simp_all
qed

lemma callouts_fact: "P s \<Longrightarrow> P (callouts b cb t ctx s)"
  by (auto simp: callouts_def node_info_process_fact intro: same_core)

end

text \<open>Facts that ticks keep, and then those that do not depend on the input either.\<close>

locale node_ticks = node_client P J for P :: "can_node \<Rightarrow> bool" and J +
  assumes own: "P s \<Longrightarrow> t \<in> J \<Longrightarrow> P (set_timer t ((timers s ! t)\<lparr>t_count := n\<rparr>) s)"
    and kept: "P s \<Longrightarrow> t \<in> J \<Longrightarrow> t_ctl (timers s ! t) AND NOT (inuse OR running) \<noteq> modeOneShot"
begin

sublocale bus: timer_fact P J "callouts b" for b
  by unfold_locales (erule same_core, simp | erule (1) own | erule (1) kept | erule callouts_fact)+

lemma tick_fact: "P s \<Longrightarrow> P (tick b n s)"
  unfolding tick_def by (rule bus.ticks_fact)

end

locale node_fact = node_ticks P J for P :: "can_node \<Rightarrow> bool" and J +
  assumes less_input: "P s \<Longrightarrow> rx_in s = ps # pss \<Longrightarrow> P (s\<lparr>rx_in := pss\<rparr>)" "P s \<Longrightarrow> idle_in s = m # ns \<Longrightarrow> P (s\<lparr>idle_in := ns\<rparr>)"
      "P s \<Longrightarrow> baud_in s = q # qs \<Longrightarrow> P (s\<lparr>baud_in := qs\<rparr>)"
begin

lemma receive_fact: "P s \<Longrightarrow> run_ok (\<lambda>_. P) P (receive b dsdl p buf in_len ms s)"
proof (cases "rx_in s")
  case (Cons polls rest)
  assume "P s"
  from bus.rx_dsdl_fact [OF less_input(1) [OF this Cons], of b "g_node s" dsdl p buf in_len ms polls] show ?thesis
    by (auto simp: receive_def Cons split: rx_result.splits)
qed (simp add: receive_def)

lemma restart_request_fact: "P s \<Longrightarrow> unat t \<notin> J \<Longrightarrow> run_ok (\<lambda>_. P) P (restart_request t s)"
proof -
  assume *: "P s" "unat t \<notin> J"
  obtain ms s1 where s1: "util_random MIN_REQUEST_PERIOD_MS MAX_REQUEST_PERIOD_MS s = (ms, s1)" by force
  then have "P s1" using *(1) node_core_random by (blast intro: same_core)
  then show ?thesis
    using timer_ops_fact(2) [OF _ *(2)]
    unfolding restart_request_def s1 prod.case by (simp add: of_option_def split: option.split)
qed

lemma send_allocation_fact: "P s \<Longrightarrow> run_ok (\<lambda>_. P) P (send_allocation b random nid k s)"
  by (auto simp: send_allocation_def node_core_simp split: option.split intro: same_core)

lemma send_buffer_fact: "P s \<Longrightarrow> run_ok (\<lambda>_. P) P (send_buffer b dsdl p buf len s)"
  by (auto simp: send_buffer_def split: prod.split intro: send_fact)

end

section \<open>The timers in use\<close>

text \<open>A callback of the program changes no timer that is in use.\<close>

definition entry_kept :: "nat \<Rightarrow> bl_timer_t \<Rightarrow> nat \<Rightarrow> can_node \<Rightarrow> bool" where
  "entry_kept j e n s \<longleftrightarrow> j < 7 \<and> timers s ! j = e \<and> t_ctl e AND inuse \<noteq> 0 \<and> length (timers s) = n"

interpretation entry: node_client "entry_kept j e n" "{j} \<inter> {..<7}" for j e n
  by unfold_locales (auto simp: entry_kept_def node_core_simp set_timer_def nth_list_update)

interpretation len: node_client "\<lambda>s. length (timers s) = n" "{}" for n
  by unfold_locales (auto simp: node_core_simp)

lemma timer_ops_fired:
  "timer_allocate mode ms fc s = (t, s') \<Longrightarrow> fired s' = fired s" "timer_restart t ms s = Some s' \<Longrightarrow> fired s' = fired s"
  "timer_free t s = Some s' \<Longrightarrow> fired s' = fired s"
  by (auto simp: timer_allocate_def timer_restart_def timer_free_def with_timer_def split: option.splits if_splits)

lemma node_info_fired: "fired (node_info_process b s) = fired s"
proof (cases "software_version s")
  case (Some version)
  define poll where "poll = (case info_in s of [] \<Rightarrow> None | f # fs \<Rightarrow> f)"
  define r where "r = uavcan_rx_dsdl no_callout (g_node s) DSDLReqGetNodeInfo \<lparr>can_id = ANY_NODE_ID, tail = uninit b 2 0\<rparr> (junk b 3 8) 8 0
    [(poll, 0)] (s\<lparr>info_in := tl (info_in s)\<rparr>)"
  obtain response len where response: "node_info_response b version s = (response, len)" by force
  obtain t s1 where t: "timer_allocate (modeTimeout OR modeStarted) 0 None (s\<lparr>info_in := tl (info_in s)\<rparr>) = (t, s1)" by force
  have "case r of Polling st \<Rightarrow> fired (bl_of st) = fired s | Faulted \<Rightarrow> True | Returned _ st \<Rightarrow> fired (bl_of st) = fired s"
    unfolding r_def
    by (rule rx_dsdl_keeps [OF t, where I = "\<lambda>s'. fired s' = fired s"]) (auto dest: timer_ops_fired simp: timer_ops_fired(1) [OF t])
  then show ?thesis
    unfolding node_info_process_def Some Let_def option.case response prod.case poll_def [symmetric] r_def [symmetric]
    by (cases r) (auto simp: send_def split: prod.split)
qed (simp add: node_info_process_def)

lemma callouts_keep_callouts: "j < 7 \<Longrightarrow> callouts_keep (callouts b) j"
  unfolding callouts_keep_def
proof (intro allI conjI impI)
  fix cb t ctx s
  assume j: "j < 7"
  show "fired (callouts b cb t ctx s) = fired s"
    by (simp add: callouts_def node_info_fired uptime_process_def node_status_process_def send_def Let_def case_prod_unfold)
  show "timers (callouts b cb t ctx s) ! j = timers s ! j" if "t_ctl (timers s ! j) AND inuse \<noteq> 0"
    using entry.callouts_fact [of j "timers s ! j" "length (timers s)" s b cb t ctx] j that by (simp add: entry_kept_def)
  show "length (timers (callouts b cb t ctx s)) = length (timers s)"
    using len.callouts_fact [where s = s] by simp
qed

text \<open>
  Which timers are in use is the same after a receive, as the receiver frees its timer, and so it is after a tick, as no timer
  of the program is of the kind that frees itself.
\<close>

definition used :: "bool list \<Rightarrow> 'a bl_scheme \<Rightarrow> bool" where
  "used us s \<longleftrightarrow> map (\<lambda>e. t_ctl e AND inuse \<noteq> 0) (timers s) = us \<and>
     (\<forall>e\<in>set (timers s). t_ctl e AND NOT (inuse OR running) \<noteq> modeOneShot)"

lemma used_length: "used us s \<Longrightarrow> length (timers s) = length us"
  by (auto simp: used_def)

lemma used_nth: "used us s \<Longrightarrow> i < length us \<Longrightarrow> us ! i \<longleftrightarrow> t_ctl (timers s ! i) AND inuse \<noteq> 0"
  using nth_map [of i "timers s" "\<lambda>e. t_ctl e AND inuse \<noteq> 0"] used_length [of us s] unfolding used_def by simp

lemma find_in: "find P xs = Some x \<Longrightarrow> P x \<and> x \<in> set xs"
  by (auto simp: find_Some_iff)

lemma used_set_timer:
  assumes "used us s" and "t < length us \<Longrightarrow> u \<longleftrightarrow> t_ctl e AND inuse \<noteq> 0"
    and "t < length us \<Longrightarrow> t_ctl e AND NOT (inuse OR running) \<noteq> modeOneShot"
  shows "used (us[t := u]) (set_timer t e s)"
proof (cases "t < length us")
  case True
  then show ?thesis
    using assms set_update_subset_insert [of "timers s" t e] by (auto simp: used_def set_timer_def map_update)
next
  case False
  then show ?thesis
    using assms(1) used_length [OF assms(1)] by (simp add: set_timer_def used_def not_less list_update_beyond)
qed

lemma used_same:
  assumes "used us s" and "t < length us \<Longrightarrow> t_ctl e AND inuse = t_ctl (timers s ! t) AND inuse"
    and "t < length us \<Longrightarrow> t_ctl e AND NOT (inuse OR running) = t_ctl (timers s ! t) AND NOT (inuse OR running)"
  shows "used us (set_timer t e s)"
proof -
  have len: "length (timers s) = length us"
    by (rule used_length [OF assms(1)])
  have mode: "t_ctl e AND NOT (inuse OR running) \<noteq> modeOneShot" if "t < length us"
    using assms(1) assms(3) [OF that] that len nth_mem [of t "timers s"] unfolding used_def by metis
  have "used (us[t := us ! t]) (set_timer t e s)"
  proof (rule used_set_timer [OF assms(1) _ mode])
    show "us ! t \<longleftrightarrow> t_ctl e AND inuse \<noteq> 0" if "t < length us"
      using used_nth [OF assms(1) that] assms(2) [OF that] by simp
  qed assumption
  then show ?thesis by simp
qed

definition calm :: "'a callout \<Rightarrow> bool list \<Rightarrow> bool" where
  "calm E us \<longleftrightarrow> (\<forall>cb t ctx s. used us s \<longrightarrow> used us (E cb t ctx s))"

lemma used_upd [simp]: "used us (s\<lparr>fired := l\<rparr>) = used us s" "used us (s\<lparr>sys_tic := k\<rparr>) = used us s"
  by (simp_all add: used_def)

lemma used_run_cb: "calm E us \<Longrightarrow> used us s \<Longrightarrow> used us (run_cb E t user s)"
  by (simp add: run_cb_def calm_def split: option.split)

lemma used_process_entry:
  assumes "calm E us" and "used us s"
  shows "used us (process_entry E t s)"
proof -
  have "t_ctl (timers s ! t) AND NOT (inuse OR running) \<noteq> modeOneShot" if "t < length us"
    using assms(2) that used_length [OF assms(2)] by (auto simp: used_def)
  moreover have "set_timer t zero_timer s = s" if "\<not> t < length us"
    using that used_length [OF assms(2)] by (simp add: set_timer_def not_less list_update_beyond)
  moreover have "used us (set_timer t ((timers s ! t)\<lparr>t_count := n\<rparr>) s)" for n
    by (rule used_same [OF assms(2)]) simp_all
  ultimately show ?thesis
    using assms(2) by (cases "t < length us") (auto simp: process_entry_def expire_def Let_def intro!: used_run_cb [OF assms(1)])
qed

lemma used_ticks:
  assumes "calm E us" and "used us s"
  shows "used us ((nxsched_process_timer E ^^ n) s)"
proof -
  have "used us s \<Longrightarrow> used us (fold (process_entry E) ts s)" for ts s
    by (induction ts arbitrary: s) (auto intro: used_process_entry [OF assms(1)])
  then show ?thesis
    using assms(2) by (induction n) (simp_all add: nxsched_process_timer_def)
qed

lemma ctl_running:
  "(c OR running) AND inuse = c AND inuse" "(c OR running) AND NOT inuse AND NOT running = c AND NOT inuse AND NOT running"
proof -
  show "(c OR running) AND inuse = c AND inuse"
    by (simp only: bit.conj_disj_distrib2) (simp add: timer_consts)
  have "NOT inuse AND NOT running = (0xFFFFFF3F :: u32)" "running AND 0xFFFFFF3F = 0"
    by (simp_all add: timer_consts)
  then show "(c OR running) AND NOT inuse AND NOT running = c AND NOT inuse AND NOT running"
    by (simp only: and.assoc bit.conj_disj_distrib2) simp
qed

lemma rx_dsdl_used:
  assumes "used us s" and "length us = 7" and "\<forall>n\<in>snd ` set polls. n = 0 \<or> (\<forall>us. length us = 7 \<longrightarrow> calm E us)"
  shows "case uavcan_rx_dsdl E g dsdl p buf in_len ms polls s of
           Polling st \<Rightarrow> True | Faulted \<Rightarrow> True | Returned _ st \<Rightarrow> used us (bl_of st)"
proof -
  let ?find = "find (\<lambda>t. t_ctl (timers s ! t) AND inuse = 0) (rev [0..<OPT_BL_NUMBER_TIMERS])"
  obtain t s1 where t: "timer_allocate (modeTimeout OR modeStarted) ms None s = (t, s1)" by force
  define vs where "vs = us[unat t := True]"
  have len: "length vs = 7" by (simp add: vs_def assms(2))
  have "used vs s1 \<and> (unat t < 7 \<longrightarrow> vs[unat t := False] = us)"
  proof -
    consider "?find = None" "t = - 1" "s1 = s" | i where "?find = Some i" "i < 7" "unat t = i" "us ! i = False"
        "s1 = set_timer i \<lparr>usr = null_cb, t_count = ms, t_reload = ms, t_ctl = ((modeTimeout OR modeStarted) AND (modeMsk OR running)) OR inuse\<rparr> s"
    proof (cases ?find)
      case None
      have "timer_allocate (modeTimeout OR modeStarted) ms None s = (- 1, s)"
        unfolding timer_allocate_def None by simp
      then have "t = - 1" "s1 = s" using t by simp_all
      then show ?thesis using that(1) [OF None] by blast
    next
      case (Some i)
      then have i: "i < 7" "t_ctl (timers s ! i) AND inuse = 0"
        using find_in [OF Some] unfolding OPT_BL_NUMBER_TIMERS_def set_rev set_upt by simp_all
      have "timer_allocate (modeTimeout OR modeStarted) ms None s = (word_of_nat i, set_timer i \<lparr>usr = null_cb, t_count = ms, t_reload = ms,
          t_ctl = ((modeTimeout OR modeStarted) AND (modeMsk OR running)) OR inuse\<rparr> s)"
        unfolding timer_allocate_def Some by simp
      then show ?thesis
        using t that(2) [OF Some] used_nth [OF assms(1), of i] assms(2) i by (simp add: unat_of_nat)
    qed
    then show ?thesis
    proof cases
      case 1
      then have "unat t = 255" by (simp add: unsigned_minus_1_eq_mask mask_eq_exp_minus_1)
      then show ?thesis
        using 1(3) assms(1,2) by (simp add: vs_def list_update_beyond)
    next
      case 2
      then have "used vs s1"
        by (simp add: vs_def) (rule used_set_timer [OF assms(1)]; simp add: timer_consts)
      then show ?thesis
        using 2(3,4) list_update_id [of us i] by (simp add: vs_def)
    qed
  qed
  then have s1: "used vs s1" and freed: "unat t < 7 \<Longrightarrow> vs[unat t := False] = us" by simp_all
  have "case uavcan_rx_dsdl E g dsdl p buf in_len ms polls s of
      Polling st \<Rightarrow> used vs (bl_of st) | Faulted \<Rightarrow> True | Returned _ st \<Rightarrow> used us (bl_of st)"
    using t s1
  proof (rule rx_dsdl_keeps)
    show "used vs ((nxsched_process_timer E ^^ n) s)" if "n \<in> snd ` set polls" "used vs s" for n s
      using that assms(3) used_ticks [of E vs s n] len by fastforce
    show "used vs s'" if "used vs s" "timer_restart t ms s = Some s'" for s s'
      using that(2) by (auto simp: timer_restart_def with_timer_def ctl_running split: if_splits intro!: used_same [OF that(1)])
    show "used us s'" if "used vs s" "timer_free t s = Some s'" for s s'
      using that used_set_timer [OF that(1), of "unat t" False zero_timer] freed used_length [OF that(1)] len
      by (auto simp: timer_free_def with_timer_def zero_timer_def timer_consts split: if_splits)
  qed
  then show ?thesis by (auto split: rx_result.splits)
qed

lemma used_node:
  assumes "node_core s' = node_core s"
  shows "used us s' = used us s"
  using assms by (simp add: used_def node_core_simp)

lemma calm_callouts: "length us = 7 \<Longrightarrow> calm (callouts b) us"
  unfolding calm_def
proof (intro allI impI)
  fix cb t ctx and s :: can_node
  assume us: "length us = 7" and s: "used us s"
  have "used us (node_info_process b s)"
  proof (cases "software_version s")
    case (Some version)
    define poll where "poll = (case info_in s of [] \<Rightarrow> None | f # fs \<Rightarrow> f)"
    define r where "r = uavcan_rx_dsdl no_callout (g_node s) DSDLReqGetNodeInfo \<lparr>can_id = ANY_NODE_ID, tail = uninit b 2 0\<rparr> (junk b 3 8) 8 0
      [(poll, 0)] (s\<lparr>info_in := tl (info_in s)\<rparr>)"
    obtain response len where response: "node_info_response b version s = (response, len)" by force
    have "case r of Polling st \<Rightarrow> True | Faulted \<Rightarrow> True | Returned _ st \<Rightarrow> used us (bl_of st)"
      unfolding r_def by (rule rx_dsdl_used) (use s us in \<open>simp_all add: used_def\<close>)
    then show ?thesis
      using s unfolding node_info_process_def Some Let_def option.case response prod.case poll_def [symmetric] r_def [symmetric]
      by (cases r) (auto simp: send_def used_def split: prod.split)
  qed (use s in \<open>simp add: node_info_process_def used_def\<close>)
  then show "used us (callouts b cb t ctx s)"
    using s used_node [OF node_core_simps(6)] used_node [OF node_core_simps(7)] by (simp add: callouts_def)
qed

section \<open>The input is used up\<close>

interpretation input: node_fact "\<lambda>s. input_left s \<le> n" "{}" for n
  by unfold_locales (auto simp: node_core_simp input_left_def set_timer_def)

lemma receive_input: "run_ok (\<lambda>_ s'. input_left s' < input_left s) (\<lambda>_. True) (receive b dsdl p buf in_len ms s)"
proof (cases "rx_in s")
  case (Cons polls rest)
  have "input_left (s\<lparr>rx_in := rest\<rparr>) \<le> input_left s - 1" and "input_left s > 0"
    by (simp_all add: input_left_def Cons)
  from input.bus.rx_dsdl_fact [OF this(1), of b "g_node s" dsdl p buf in_len ms polls] this(2) show ?thesis
    by (auto simp: receive_def Cons split: rx_result.splits)
qed (simp add: receive_def)

text \<open>The body of a loop that tests a timer and then waits for a tick.\<close>

lemma idle_input:
  "idle_in s = n # rest \<Longrightarrow> input_left (tick b n (s\<lparr>idle_in := rest\<rparr>)) < input_left s"
  "baud_in s = q # qs \<Longrightarrow> input_left (tick b k (s\<lparr>baud_in := qs\<rparr>)) < input_left s"
  using input.tick_fact [of "s\<lparr>idle_in := rest\<rparr>" "input_left s - 1" b n] input.tick_fact [of "s\<lparr>baud_in := qs\<rparr>" "input_left s - 1" b k]
  by (auto simp: input_left_def)

end
