(* ===== verification/Can_Tool.thy ===== *)
theory Can_Tool
  imports Can_Image
begin

text \<open>
  The build tool that completes the descriptor of an application, \<^verbatim>\<open>src/src/drivers/bootloaders/make_can_boot_descriptor.py\<close>,
  and what the bootloader says about the images it makes. A file is a list of bytes; an exception is \<open>None\<close>.
\<close>

section \<open>The checksum of the tool\<close>

definition py_crctab :: "u32 list" where
  "py_crctab = [
     0x00000000, 0x77073096, 0xee0e612c, 0x990951ba, 0x076dc419, 0x706af48f, 0xe963a535, 0x9e6495a3, 0x0edb8832,
     0x79dcb8a4, 0xe0d5e91e, 0x97d2d988, 0x09b64c2b, 0x7eb17cbd, 0xe7b82d07, 0x90bf1d91, 0x1db71064, 0x6ab020f2,
     0xf3b97148, 0x84be41de, 0x1adad47d, 0x6ddde4eb, 0xf4d4b551, 0x83d385c7, 0x136c9856, 0x646ba8c0, 0xfd62f97a,
     0x8a65c9ec, 0x14015c4f, 0x63066cd9, 0xfa0f3d63, 0x8d080df5, 0x3b6e20c8, 0x4c69105e, 0xd56041e4, 0xa2677172,
     0x3c03e4d1, 0x4b04d447, 0xd20d85fd, 0xa50ab56b, 0x35b5a8fa, 0x42b2986c, 0xdbbbc9d6, 0xacbcf940, 0x32d86ce3,
     0x45df5c75, 0xdcd60dcf, 0xabd13d59, 0x26d930ac, 0x51de003a, 0xc8d75180, 0xbfd06116, 0x21b4f4b5, 0x56b3c423,
     0xcfba9599, 0xb8bda50f, 0x2802b89e, 0x5f058808, 0xc60cd9b2, 0xb10be924, 0x2f6f7c87, 0x58684c11, 0xc1611dab,
     0xb6662d3d, 0x76dc4190, 0x01db7106, 0x98d220bc, 0xefd5102a, 0x71b18589, 0x06b6b51f, 0x9fbfe4a5, 0xe8b8d433,
     0x7807c9a2, 0x0f00f934, 0x9609a88e, 0xe10e9818, 0x7f6a0dbb, 0x086d3d2d, 0x91646c97, 0xe6635c01, 0x6b6b51f4,
     0x1c6c6162, 0x856530d8, 0xf262004e, 0x6c0695ed, 0x1b01a57b, 0x8208f4c1, 0xf50fc457, 0x65b0d9c6, 0x12b7e950,
     0x8bbeb8ea, 0xfcb9887c, 0x62dd1ddf, 0x15da2d49, 0x8cd37cf3, 0xfbd44c65, 0x4db26158, 0x3ab551ce, 0xa3bc0074,
     0xd4bb30e2, 0x4adfa541, 0x3dd895d7, 0xa4d1c46d, 0xd3d6f4fb, 0x4369e96a, 0x346ed9fc, 0xad678846, 0xda60b8d0,
     0x44042d73, 0x33031de5, 0xaa0a4c5f, 0xdd0d7cc9, 0x5005713c, 0x270241aa, 0xbe0b1010, 0xc90c2086, 0x5768b525,
     0x206f85b3, 0xb966d409, 0xce61e49f, 0x5edef90e, 0x29d9c998, 0xb0d09822, 0xc7d7a8b4, 0x59b33d17, 0x2eb40d81,
     0xb7bd5c3b, 0xc0ba6cad, 0xedb88320, 0x9abfb3b6, 0x03b6e20c, 0x74b1d29a, 0xead54739, 0x9dd277af, 0x04db2615,
     0x73dc1683, 0xe3630b12, 0x94643b84, 0x0d6d6a3e, 0x7a6a5aa8, 0xe40ecf0b, 0x9309ff9d, 0x0a00ae27, 0x7d079eb1,
     0xf00f9344, 0x8708a3d2, 0x1e01f268, 0x6906c2fe, 0xf762575d, 0x806567cb, 0x196c3671, 0x6e6b06e7, 0xfed41b76,
     0x89d32be0, 0x10da7a5a, 0x67dd4acc, 0xf9b9df6f, 0x8ebeeff9, 0x17b7be43, 0x60b08ed5, 0xd6d6a3e8, 0xa1d1937e,
     0x38d8c2c4, 0x4fdff252, 0xd1bb67f1, 0xa6bc5767, 0x3fb506dd, 0x48b2364b, 0xd80d2bda, 0xaf0a1b4c, 0x36034af6,
     0x41047a60, 0xdf60efc3, 0xa867df55, 0x316e8eef, 0x4669be79, 0xcb61b38c, 0xbc66831a, 0x256fd2a0, 0x5268e236,
     0xcc0c7795, 0xbb0b4703, 0x220216b9, 0x5505262f, 0xc5ba3bbe, 0xb2bd0b28, 0x2bb45a92, 0x5cb36a04, 0xc2d7ffa7,
     0xb5d0cf31, 0x2cd99e8b, 0x5bdeae1d, 0x9b64c2b0, 0xec63f226, 0x756aa39c, 0x026d930a, 0x9c0906a9, 0xeb0e363f,
     0x72076785, 0x05005713, 0x95bf4a82, 0xe2b87a14, 0x7bb12bae, 0x0cb61b38, 0x92d28e9b, 0xe5d5be0d, 0x7cdcefb7,
     0x0bdbdf21, 0x86d3d2d4, 0xf1d4e242, 0x68ddb3f8, 0x1fda836e, 0x81be16cd, 0xf6b9265b, 0x6fb077e1, 0x18b74777,
     0x88085ae6, 0xff0f6a70, 0x66063bca, 0x11010b5c, 0x8f659eff, 0xf862ae69, 0x616bffd3, 0x166ccf45, 0xa00ae278,
     0xd70dd2ee, 0x4e048354, 0x3903b3c2, 0xa7672661, 0xd06016f7, 0x4969474d, 0x3e6e77db, 0xaed16a4a, 0xd9d65adc,
     0x40df0b66, 0x37d83bf0, 0xa9bcae53, 0xdebb9ec5, 0x47b2cf7f, 0x30b5ffe9, 0xbdbdf21c, 0xcabac28a, 0x53b39330,
     0x24b4a3a6, 0xbad03605, 0xcdd70693, 0x54de5729, 0x23d967bf, 0xb3667a2e, 0xc4614ab8, 0x5d681b02, 0x2a6f2b94,
     0xb40bbe37, 0xc30c8ea1, 0x5a05df1b, 0x2d02ef8d]"

definition py_crc32 :: "u8 list \<Rightarrow> u32" where
  "py_crc32 bytes = foldl (\<lambda>c byte. py_crctab ! unat ((c XOR ucast byte) AND 0xff) XOR drop_bit 8 c) 0 bytes"

section \<open>The descriptor\<close>

record AppDescriptor =
  ad_signature :: "u8 list"
  ad_crc32_block1 :: u32
  ad_crc32_block2 :: u32
  ad_image_size :: u32
  ad_vcs_commit :: u32
  ad_version_major :: u8
  ad_version_minor :: u8
  ad_board_id :: u16
  ad_reserved :: "u8 list"

definition ad_LENGTH :: nat where "ad_LENGTH = 36"
definition ad_DESLENGTH :: nat where "ad_DESLENGTH = 16"
definition ad_SIGNATURE :: "u8 list" where "ad_SIGNATURE = [0x40, 0xa2, 0xe4, 0xf1, 0x64, 0x68, 0x91, 0x06]"
definition ad_RESERVED :: "u8 list" where "ad_RESERVED = replicate 8 0xFF"

lemmas ad_consts = ad_LENGTH_def ad_DESLENGTH_def ad_SIGNATURE_def ad_RESERVED_def

text \<open>The format \<^verbatim>\<open><8sLLLLBBH8s\<close>.\<close>

definition ad_pack :: "AppDescriptor \<Rightarrow> u8 list" where
  "ad_pack d = ad_signature d @ le_bytes32 (ad_crc32_block1 d) @ le_bytes32 (ad_crc32_block2 d) @ le_bytes32 (ad_image_size d) @
     le_bytes32 (ad_vcs_commit d) @ [ad_version_major d, ad_version_minor d] @ le_bytes (ad_board_id d) @ ad_reserved d"

definition ad_empty :: "AppDescriptor \<Rightarrow> bool" where
  "ad_empty d \<longleftrightarrow> ad_signature d = ad_SIGNATURE \<and> ad_crc32_block1 d = 0 \<and> ad_crc32_block2 d = 0 \<and> ad_image_size d = 0 \<and>
     ad_reserved d = ad_RESERVED"

definition ad_valid :: "AppDescriptor \<Rightarrow> bool" where
  "ad_valid d \<longleftrightarrow> ad_signature d = ad_SIGNATURE \<and> ad_crc32_block1 d \<noteq> 0 \<and> ad_crc32_block2 d \<noteq> 0 \<and> ad_image_size d > 0 \<and>
     ad_board_id d \<noteq> 0 \<and> ad_reserved d = ad_RESERVED"

definition ad_unpack :: "u8 list \<Rightarrow> AppDescriptor option" where
  "ad_unpack bytes =
     (if length bytes \<noteq> ad_LENGTH then None
      else let d = \<lparr>ad_signature = take 8 bytes, ad_crc32_block1 = rd32 ((!) bytes) 8, ad_crc32_block2 = rd32 ((!) bytes) 12,
                   ad_image_size = rd32 ((!) bytes) 16, ad_vcs_commit = rd32 ((!) bytes) 20, ad_version_major = bytes ! 24,
                   ad_version_minor = bytes ! 25, ad_board_id = rd16 ((!) bytes) 26, ad_reserved = drop 28 bytes\<rparr>
           in if \<not> ad_empty d \<and> \<not> ad_valid d then None else Some d)"

section \<open>The image\<close>

text \<open>The file is padded to a multiple of four, with four bytes when it already is one.\<close>

definition img_padding :: "u8 list \<Rightarrow> nat" where
  "img_padding contents = 4 - length contents mod 4"

definition img_length :: "u8 list \<Rightarrow> nat" where
  "img_length contents = length contents + img_padding contents"

function scan_offset :: "u8 list \<Rightarrow> nat \<Rightarrow> nat option" where
  "scan_offset contents offset =
     (if offset + ad_LENGTH < img_length contents
      then case ad_unpack (take ad_LENGTH (drop offset contents)) of
             None \<Rightarrow> scan_offset contents (offset + 1)
           | Some _ \<Rightarrow> Some offset
      else None)"
  by pat_completeness auto
termination
  by (relation "measure (\<lambda>(c, n). img_length c - n)") auto

declare scan_offset.simps [simp del]

text \<open>An offset of zero counts as not found.\<close>

definition app_descriptor_offset :: "u8 list \<Rightarrow> nat option" where
  "app_descriptor_offset contents =
     (case scan_offset contents 0 of None \<Rightarrow> None | Some n \<Rightarrow> if n = 0 then None else Some n)"

definition app_descriptor :: "u8 list \<Rightarrow> AppDescriptor option" where
  "app_descriptor contents =
     (case app_descriptor_offset contents of None \<Rightarrow> None | Some n \<Rightarrow> ad_unpack (take ad_LENGTH (drop n contents)))"

definition write_descriptor_raw :: "nat \<Rightarrow> AppDescriptor \<Rightarrow> u8 list \<Rightarrow> u8 list" where
  "write_descriptor_raw offset d contents = take offset contents @ ad_pack d @ drop (offset + length (ad_pack d)) contents"

text \<open>The contents of the output file, with the revision set if one is given.\<close>

definition write_descriptor :: "u32 option \<Rightarrow> u8 list \<Rightarrow> u8 list option" where
  "write_descriptor vcs_commit contents =
     (case (app_descriptor_offset contents, app_descriptor contents) of
        (Some offset, Some d) \<Rightarrow>
          if img_length contents \<ge> 2 ^ 32 then None
          else let pad = replicate (img_padding contents) 0xff;
                   d = (case vcs_commit of None \<Rightarrow> d | Some c \<Rightarrow> d\<lparr>ad_vcs_commit := c\<rparr>)
                     \<lparr>ad_image_size := word_of_nat (img_length contents), ad_crc32_block1 := 0, ad_crc32_block2 := 0\<rparr>;
                   contents = write_descriptor_raw offset d contents;
                   content = contents @ pad;
                   b2 = offset + length ad_SIGNATURE + ad_DESLENGTH;
                   d = d\<lparr>ad_crc32_block1 := py_crc32 (take (offset + length ad_SIGNATURE) content),
                         ad_crc32_block2 := py_crc32 (drop b2 content)\<rparr>
               in Some (write_descriptor_raw offset d contents @ pad)
      | _ \<Rightarrow> None)"

section \<open>What the tool writes\<close>

lemma crc32_bit_num:
  "crc32_bit 0 = 0" "crc32_bit 1 = 0xedb88320"
  "crc32_bit (numeral (Num.Bit0 k)) = drop_bit 1 (numeral (Num.Bit0 k))"
  "crc32_bit (numeral (Num.Bit1 k)) = drop_bit 1 (numeral (Num.Bit1 k)) XOR 0xedb88320"
  by (simp_all add: crc32_bit_def)

lemma funpow_8: "(f ^^ 8) c = f (f (f (f (f (f (f (f c)))))))"
  by (simp add: eval_nat_numeral)

lemma py_crctab_eq: "py_crctab = map (\<lambda>i. (crc32_bit ^^ 8) (word_of_nat i)) [0..<256]"
  by (simp add: py_crctab_def upt_conv_Cons funpow_8 crc32_bit_num)

lemma py_crc32_eq: "py_crc32 bytes = crc32_signature 0 bytes"
proof -
  have "py_crctab ! unat ((c XOR ucast b) AND 0xff) XOR drop_bit 8 c = crc32_add c b" for c and b :: u8
    using crc32_table_step [of c b] crc32_table_index [of c b] by (simp add: py_crctab_eq)
  then show ?thesis
    by (simp add: py_crc32_def crc32_signature_def)
qed

lemma scan_offset_Some:
  "scan_offset contents k = Some n \<Longrightarrow> \<exists>d. ad_unpack (take ad_LENGTH (drop n contents)) = Some d"
  by (induction contents k rule: scan_offset.induct)
    (auto simp: scan_offset.simps [of contents k for contents k] split: if_splits option.splits)

lemma ad_unpack_Some:
  assumes "ad_unpack bytes = Some d"
  shows "length bytes = 36" "ad_signature d = APP_DESCRIPTOR_SIGNATURE" "take 8 bytes = APP_DESCRIPTOR_SIGNATURE"
    "ad_reserved d = replicate 8 0xFF"
  using assms by (auto simp: ad_unpack_def ad_empty_def ad_valid_def ad_consts APP_DESCRIPTOR_SIGNATURE_def Let_def split: if_splits)

text \<open>The parts of an image: what is before the descriptor, the descriptor's fields, and what follows the revision.\<close>

lemma written_image:
  assumes "write_descriptor vcs_commit contents = Some img" and "app_descriptor_offset contents = Some n"
  shows "\<exists>vcs rest. img = take n contents @ APP_DESCRIPTOR_SIGNATURE @
      le_bytes32 (crc32_signature 0 (take n contents @ APP_DESCRIPTOR_SIGNATURE)) @ le_bytes32 (crc32_signature 0 rest) @
      le_bytes32 (word_of_nat (length img)) @ le_bytes32 vcs @ rest \<and> 12 \<le> length rest \<and> length img < 2 ^ 32 \<and>
      n + 36 \<le> length contents \<and> length img = img_length contents"
proof -
  obtain d where d: "app_descriptor contents = Some d" "ad_unpack (take ad_LENGTH (drop n contents)) = Some d"
    using assms by (auto simp: write_descriptor_def app_descriptor_def split: option.splits)
  have u: "n + 36 \<le> length contents" "ad_signature d = APP_DESCRIPTOR_SIGNATURE" "ad_reserved d = replicate 8 0xFF"
    using ad_unpack_Some [OF d(2)] by (auto simp: ad_LENGTH_def)
  have sig: "length APP_DESCRIPTOR_SIGNATURE = 8" "length ad_SIGNATURE = 8"
    by (simp_all add: APP_DESCRIPTOR_SIGNATURE_def ad_SIGNATURE_def)
  define pad :: "u8 list" where "pad = replicate (img_padding contents) 0xff"
  define d1 where "d1 = (case vcs_commit of None \<Rightarrow> d | Some c \<Rightarrow> d\<lparr>ad_vcs_commit := c\<rparr>)
    \<lparr>ad_image_size := word_of_nat (img_length contents), ad_crc32_block1 := 0, ad_crc32_block2 := 0\<rparr>"
  define rest where "rest = [ad_version_major d1, ad_version_minor d1] @ le_bytes (ad_board_id d1) @ ad_reserved d1 @
    drop (n + 36) contents @ pad"
  have d1: "ad_signature d1 = APP_DESCRIPTOR_SIGNATURE" "ad_reserved d1 = replicate 8 0xFF"
    using u(2,3) by (auto simp: d1_def split: option.splits)
  define put where "put c1 c2 = take n contents @ APP_DESCRIPTOR_SIGNATURE @ le_bytes32 c1 @ le_bytes32 c2 @
    le_bytes32 (word_of_nat (img_length contents)) @ le_bytes32 (ad_vcs_commit d1) @ rest" for c1 c2
  have len: "length (ad_pack (d1\<lparr>ad_crc32_block1 := c1, ad_crc32_block2 := c2\<rparr>)) = 36" for c1 c2
    using d1 sig by (simp add: ad_pack_def)
  have raw: "write_descriptor_raw n (d1\<lparr>ad_crc32_block1 := c1, ad_crc32_block2 := c2\<rparr>) cs @ pad = put c1 c2"
    if "take n cs = take n contents" "drop (n + 36) cs = drop (n + 36) contents" for c1 c2 cs
    using that d1(1) unfolding write_descriptor_raw_def len
    by (simp add: put_def rest_def ad_pack_def) (simp add: d1_def)
  have same: "take n (write_descriptor_raw n x contents) = take n contents"
      "drop (n + 36) (write_descriptor_raw n x contents) = drop (n + 36) contents" if "length (ad_pack x) = 36" for x
    using u(1) that by (simp_all add: write_descriptor_raw_def)
  have d0: "d1 = d1\<lparr>ad_crc32_block1 := 0, ad_crc32_block2 := 0\<rparr>"
    by (simp add: d1_def)
  have img: "img = put (crc32_signature 0 (take n contents @ APP_DESCRIPTOR_SIGNATURE)) (crc32_signature 0 rest)"
      "img_length contents < 2 ^ 32"
  proof -
    have first: "write_descriptor_raw n d1 contents @ pad = put 0 0"
      using raw [OF refl refl, of 0 0] d0 by simp
    have parts: "take (n + 8) (put 0 0) = take n contents @ APP_DESCRIPTOR_SIGNATURE" "drop (n + 24) (put 0 0) = rest"
      using u(1) sig(1) by (simp_all add: put_def)
    have "write_descriptor vcs_commit contents =
        (if img_length contents \<ge> 2 ^ 32 then None
         else Some (write_descriptor_raw n (d1\<lparr>ad_crc32_block1 := py_crc32 (take (n + 8) (put 0 0)),
             ad_crc32_block2 := py_crc32 (drop (n + 24) (put 0 0))\<rparr>) (write_descriptor_raw n d1 contents) @ pad))"
      unfolding write_descriptor_def assms(2) d(1) sig(2) Let_def prod.case option.case d1_def [symmetric] pad_def [symmetric] first
        ad_DESLENGTH_def by (simp add: add.commute)
    then show "img = put (crc32_signature 0 (take n contents @ APP_DESCRIPTOR_SIGNATURE)) (crc32_signature 0 rest)"
      "img_length contents < 2 ^ 32"
      using assms(1) raw [OF same, of d1] len [of 0 0] d0 by (simp_all add: parts py_crc32_eq split: if_splits)
  qed
  have "length img = img_length contents"
    using u(1) sig(1) d1(2) unfolding img(1) put_def rest_def by (simp add: img_length_def pad_def)
  then show ?thesis
    using img u(1) d1(2) unfolding put_def by (intro exI [of _ "ad_vcs_commit d1"] exI [of _ rest]) (auto simp: rest_def)
qed

lemma scan_descriptor_at:
  assumes "rd_bytes m d 8 = APP_DESCRIPTOR_SIGNATURE" and "d < bound"
    and "\<And>k. p \<le> k \<Longrightarrow> k < d \<Longrightarrow> 8 dvd k - p \<Longrightarrow> rd_bytes m k 8 \<noteq> APP_DESCRIPTOR_SIGNATURE" and "p \<le> d" and "8 dvd d - p"
  shows "scan_descriptor m bound p = Some d"
  using assms
proof (induction m bound p rule: scan_descriptor.induct)
  case (1 m bound p)
  show ?case
  proof (cases "p = d")
    case True
    then show ?thesis
      using 1(2) by (subst scan_descriptor.simps) simp
  next
    case False
    then have sig: "rd_bytes m p 8 \<noteq> APP_DESCRIPTOR_SIGNATURE"
      using 1(4) [of p] 1(5) by simp
    obtain j where j: "d - p = 8 * j" using 1(6) by (auto elim: dvdE)
    then have next8: "p + 8 \<le> d" "8 dvd d - (p + 8)"
      using False 1(5) by (cases j; simp add: diff_diff_add [symmetric])+
    have "rd_bytes m k 8 \<noteq> APP_DESCRIPTOR_SIGNATURE" if "p + 8 \<le> k" "k < d" "8 dvd k - (p + 8)" for k
    proof (rule 1(4))
      have "k - p = (k - (p + 8)) + 8" using that(1) by simp
      then show "8 dvd k - p" using that(3) by (metis dvd_add dvd_refl)
    qed (use that in auto)
    then have "scan_descriptor m bound (p + 8) = Some d"
      using 1(1) [OF sig] 1(2,3) next8 by simp
    then show ?thesis
      using sig next8(1) 1(3) by (subst scan_descriptor.simps) simp
  qed
qed

lemma rd_bytes_part:
  assumes "rd_bytes m a (length xs) = xs" and "k + n \<le> length xs"
  shows "rd_bytes m (a + k) n = take n (drop k xs)"
proof (rule nth_equalityI)
  fix i
  assume "i < length (rd_bytes m (a + k) n)"
  then have "k + i < length xs" using assms(2) by simp
  then have "m (a + (k + i)) = xs ! (k + i)"
    using arg_cong [OF assms(1), of "\<lambda>ys. ys ! (k + i)"] by (simp add: rd_bytes_def)
  then show "rd_bytes m (a + k) n ! i = take n (drop k xs) ! i"
    using \<open>i < length (rd_bytes m (a + k) n)\<close> assms(2) by (simp add: rd_bytes_def add.assoc)
qed (use assms(2) in simp)

lemma tool_image:
  assumes "area_ok b" and "app_descriptor_offset contents = Some n" and "write_descriptor vcs_commit contents = Some img"
    and "rd_bytes m (unat (APPLICATION_LOAD_ADDRESS b)) (length img) = img" and "length img \<le> unat (APPLICATION_SIZE b)"
    and "8 dvd n" and "\<forall>k < n. 8 dvd k \<longrightarrow> take 8 (drop k img) \<noteq> APP_DESCRIPTOR_SIGNATURE" and "take 4 img \<noteq> replicate 4 0xFF"
  shows "is_app_valid b (fw_words b m) m = (True, Some (unat (APPLICATION_LOAD_ADDRESS b) + n)) \<and>
         image_size m (unat (APPLICATION_LOAD_ADDRESS b) + n) = word_of_nat (length img)"
proof -
  define start where "start = unat (APPLICATION_LOAD_ADDRESS b)"
  define d where "d = start + n"
  define pre where "pre = take n contents"
  define sz :: u32 where "sz = word_of_nat (length img)"
  obtain vcs rest where img: "img = pre @ APP_DESCRIPTOR_SIGNATURE @ le_bytes32 (crc32_signature 0 (pre @ APP_DESCRIPTOR_SIGNATURE)) @
      le_bytes32 (crc32_signature 0 rest) @ le_bytes32 sz @ le_bytes32 vcs @ rest" and rest: "12 \<le> length rest" "length img < 2 ^ 32"
      "n + 36 \<le> length contents"
    using written_image [OF assms(3,2)] unfolding pre_def sz_def by blast
  have n: "length pre = n" "length APP_DESCRIPTOR_SIGNATURE = 8"
    using rest(3) by (simp_all add: pre_def APP_DESCRIPTOR_SIGNATURE_def)
  have len: "length img = n + 24 + length rest"
    by (simp add: img n)
  have part: "rd_bytes m (start + k) j = take j (drop k img)" if "k + j \<le> length img" for k j
    using rd_bytes_part [OF assms(4) that] by (simp add: start_def)
  have sig: "rd_bytes m d 8 = APP_DESCRIPTOR_SIGNATURE"
    using part [of n 8] by (simp add: img n d_def)
  have find: "find_descriptor b m = Some d"
    unfolding find_descriptor_def APPLICATION_LAST_64BIT_unat [OF assms(1)]
  proof (rule scan_descriptor_at)
    show "d < unat (APPLICATION_LOAD_ADDRESS b) + unat (APPLICATION_SIZE b) - 8"
      using assms(5) len rest(1) by (simp add: d_def start_def)
    show "rd_bytes m k 8 \<noteq> APP_DESCRIPTOR_SIGNATURE"
      if "unat (APPLICATION_LOAD_ADDRESS b) \<le> k" "k < d" "8 dvd k - unat (APPLICATION_LOAD_ADDRESS b)" for k
      using that assms(7) part [of "k - start" 8] len by (auto simp: d_def start_def)
  qed (use sig assms(6) in \<open>simp_all add: d_def start_def\<close>)
  have "rd_bytes m (d + 8) 4 = le_bytes32 (crc32_signature 0 (pre @ APP_DESCRIPTOR_SIGNATURE))"
      "rd_bytes m (d + 12) 4 = le_bytes32 (crc32_signature 0 rest)" "rd_bytes m (d + 16) 4 = le_bytes32 sz"
    using part [of "n + 8" 4] part [of "n + 12" 4] part [of "n + 16" 4] by (simp_all add: img n d_def add.assoc)
  then have fields: "crc32_block1 m d = crc32_signature 0 (pre @ APP_DESCRIPTOR_SIGNATURE)"
      "crc32_block2 m d = crc32_signature 0 rest" "image_size m d = sz"
    by (auto simp: descriptor_fields intro: rd32_written)
  have blocks: "rd_bytes m start (n + 8) = pre @ APP_DESCRIPTOR_SIGNATURE" "rd_bytes m (d + 24) (length rest) = rest"
    using part [of 0 "n + 8"] part [of "n + 24" "length rest"] by (simp_all add: img n d_def add.assoc)
  have "rd32 m start \<noteq> 0xFFFFFFFF"
  proof
    assume "rd32 m start = 0xFFFFFFFF"
    then have "rd_bytes m start 4 = replicate 4 0xFF"
      using le_bytes32_rd32 [of m start] by (simp add: le_bytes32_ones)
    then show False
      using part [of 0 4] len assms(8) by simp
  qed
  moreover have "unat sz = length img" "d + 8 - start = n + 8"
    using rest(2) by (simp_all add: sz_def d_def unat_of_nat)
  ultimately have "image_verified b m d"
    using rest(1) len assms(5) blocks by (auto simp: image_verified_def Let_def fields [unfolded d_def] d_def start_def [symmetric])
  then show ?thesis
    using app_valid_iff [OF assms(1) find] fields(3) by (simp add: d_def start_def sz_def)
qed

lemma tool_image_valid:
  assumes "area_ok b" and "app_descriptor_offset contents = Some n" and "write_descriptor vcs_commit contents = Some img"
    and "rd_bytes m (unat (APPLICATION_LOAD_ADDRESS b)) (length img) = img" and "length img \<le> unat (APPLICATION_SIZE b)"
    and "8 dvd n" and "\<forall>k < n. 8 dvd k \<longrightarrow> take 8 (drop k img) \<noteq> APP_DESCRIPTOR_SIGNATURE" and "take 4 img \<noteq> replicate 4 0xFF"
  shows "is_app_valid b (fw_words b m) m = (True, Some (unat (APPLICATION_LOAD_ADDRESS b) + n))"
  using tool_image [OF assms] by (rule conjunct1)

text \<open>
  C35. The bootloader accepts what the build tool makes. An image with a completed descriptor that is in the
  application area passes the check, whatever its contents, provided the tool found the descriptor at a multiple of
  eight, no signature precedes it at such an offset, the first word is not that of erased flash, and the image fits.
\<close>

theorem tool_image_accepted:
  assumes "area_ok b" and "app_descriptor_offset contents = Some n" and "write_descriptor vcs_commit contents = Some img"
    and "rd_bytes m (unat (APPLICATION_LOAD_ADDRESS b)) (length img) = img" and "length img \<le> unat (APPLICATION_SIZE b)"
    and "8 dvd n" and "\<forall>k < n. 8 dvd k \<longrightarrow> take 8 (drop k img) \<noteq> APP_DESCRIPTOR_SIGNATURE" and "take 4 img \<noteq> replicate 4 0xFF"
  shows "is_app_valid b (fw_words b m) m = (True, Some (unat (APPLICATION_LOAD_ADDRESS b) + n))"
  using assms by (rule tool_image_valid)

text \<open>A board, and a small application: two words of a vector table, an empty descriptor and a few bytes.\<close>

definition demo_area :: app_area where
  "demo_area = \<lparr>APPLICATION_LOAD_ADDRESS = 0x800C000, APPLICATION_SIZE = 0x74000, LATER_FLAHSED_WORDS = 1,
     progmem_getpage = (\<lambda>a. if a < 0x8000000 \<or> a \<ge> 0x8080000 then -1 else (uint a - 0x8000000) div 0x4000),
     progmem_eraseblock = (\<lambda>p m. (0x4000, \<lambda>a. if 0x8000000 + p * 0x4000 \<le> int a \<and> int a < 0x8000000 + (p + 1) * 0x4000 then 0xff else m a)),
     progmem_write = (\<lambda>a xs m. (int (length xs), wr_bytes (unat a) xs m))\<rparr>"

definition demo_contents :: "u8 list" where
  "demo_contents = [0, 0, 2, 0x20, 9, 0xC0, 0, 8] @ APP_DESCRIPTOR_SIGNATURE @ [0, 0, 0, 0, 0, 0, 0, 0, 0, 0, 0, 0, 0, 0, 0, 0] @
     [1, 2, 0x10, 0, 0xFF, 0xFF, 0xFF, 0xFF, 0xFF, 0xFF, 0xFF, 0xFF] @ replicate 64 0"

lemma demo_area_ok: "area_ok demo_area"
  by (simp add: area_ok_def demo_area_def)

lemma scan_offset_step:
  assumes "n + 36 \<le> length contents" and "contents ! n \<noteq> 0x40"
  shows "scan_offset contents n = scan_offset contents (n + 1)"
proof -
  have "ad_unpack (take 36 (drop n contents)) = None"
  proof (rule ccontr)
    assume "ad_unpack (take 36 (drop n contents)) \<noteq> None"
    then have "take 8 (drop n contents) = APP_DESCRIPTOR_SIGNATURE"
      using ad_unpack_Some(3) [of "take 36 (drop n contents)"] by auto
    from arg_cong [OF this, of "\<lambda>xs. xs ! 0"] show False
      using assms by (simp add: APP_DESCRIPTOR_SIGNATURE_def)
  qed
  moreover have "n + 36 < img_length contents"
    using assms(1) mod_less_divisor [of 4 "length contents"] by (simp add: img_length_def img_padding_def)
  ultimately show ?thesis
    by (simp add: scan_offset.simps [of contents n] ad_LENGTH_def)
qed

lemma demo_length: "length demo_contents = 108"
  by (simp add: demo_contents_def APP_DESCRIPTOR_SIGNATURE_def)

lemma demo_offset: "app_descriptor_offset demo_contents = Some 8"
proof -
  have "list_all (\<lambda>x. x \<noteq> 0x40) (take 8 demo_contents)"
    by (simp add: demo_contents_def)
  then have "demo_contents ! i \<noteq> 0x40" if "i < 8" for i
    using that demo_length by (auto simp: list_all_length)
  then have "scan_offset demo_contents i = scan_offset demo_contents (i + 1)" if "i < 8" for i
    using that demo_length by (intro scan_offset_step) auto
  then have "k \<le> 8 \<Longrightarrow> scan_offset demo_contents 0 = scan_offset demo_contents k" for k
    by (induction k) auto
  from this [of 8] have "scan_offset demo_contents 0 = scan_offset demo_contents 8" by simp
  also have "\<dots> = Some 8"
  proof -
    have "(replicate 8 0xFF :: u8 list) = [0xFF, 0xFF, 0xFF, 0xFF, 0xFF, 0xFF, 0xFF, 0xFF]"
      by (simp only: numeral_Bit0 replicate_add) simp
    then have "\<exists>d. ad_unpack (take ad_LENGTH (drop 8 demo_contents)) = Some d"
      by (simp add: demo_contents_def APP_DESCRIPTOR_SIGNATURE_def ad_unpack_def ad_empty_def ad_consts rd32_def rd16_def Let_def)
    then show ?thesis
      by (auto simp: scan_offset.simps [of demo_contents 8] img_length_def img_padding_def demo_length ad_consts)
  qed
  finally show ?thesis
    by (simp add: app_descriptor_offset_def)
qed

definition demo_image :: "u8 list" where
  "demo_image = (case write_descriptor None demo_contents of None \<Rightarrow> [] | Some img \<Rightarrow> img)"

lemma demo_image: "write_descriptor None demo_contents = Some demo_image"
  and demo_image_start: "take 8 demo_image = take 8 demo_contents"
  and demo_image_length: "length demo_image = 112"
proof -
  have "scan_offset demo_contents 0 = Some 8"
    using demo_offset by (simp add: app_descriptor_offset_def split: option.splits if_splits)
  then obtain d where "app_descriptor demo_contents = Some d"
    using scan_offset_Some [of demo_contents 0 8] demo_offset by (auto simp: app_descriptor_def)
  then have "\<exists>img. write_descriptor None demo_contents = Some img"
    using demo_offset by (simp add: write_descriptor_def img_length_def img_padding_def demo_length Let_def)
  then show img: "write_descriptor None demo_contents = Some demo_image"
    by (auto simp: demo_image_def)
  obtain xs where "demo_image = take 8 demo_contents @ xs" "length demo_image = img_length demo_contents"
    using written_image [OF img demo_offset] by blast
  note xs = this
  show "take 8 demo_image = take 8 demo_contents"
    by (subst xs(1)) (simp add: demo_length)
  show "length demo_image = 112"
    using xs(2) by (simp add: img_length_def img_padding_def demo_length)
qed

definition demo_can_flash :: flash_bytes where
  "demo_can_flash = wr_bytes 0x800C000 demo_image (\<lambda>_. 0xFF)"

lemma demo_can_flash: "rd_bytes demo_can_flash 0x800C000 112 = demo_image"
  using rd_bytes_wr [of "0x800C000" demo_image] by (simp add: demo_can_flash_def demo_image_length)

lemma demo_no_signature: "k < 8 \<Longrightarrow> 8 dvd k \<Longrightarrow> take 8 (drop k demo_image) \<noteq> APP_DESCRIPTOR_SIGNATURE"
  using demo_image_start by (auto simp: demo_contents_def APP_DESCRIPTOR_SIGNATURE_def dest: dvd_imp_le)

lemma demo_area_simps: "unat (APPLICATION_LOAD_ADDRESS demo_area) = 0x800C000" "unat (APPLICATION_SIZE demo_area) = 0x74000"
  by (simp_all add: demo_area_def)

lemma demo_image_first: "take 4 demo_image = [0, 0, 2, 0x20]"
  using arg_cong [OF demo_image_start, of "take 4"] by (simp add: demo_contents_def)

theorem tool_image_accepted_witness:
  "is_app_valid demo_area (fw_words demo_area demo_can_flash) demo_can_flash = (True, Some 0x800C008)"
  using tool_image_accepted [OF demo_area_ok demo_offset demo_image, of demo_can_flash] demo_image_length demo_can_flash demo_no_signature
  by (simp add: demo_area_simps demo_image_first replicate_four)

section \<open>Damage\<close>

lemma rd_bytes_upd:
  "rd_bytes (m(x := v)) a n = (if a \<le> x \<and> x < a + n then (rd_bytes m a n)[x - a := v] else rd_bytes m a n)"
  by (rule nth_equalityI) (auto simp: rd_bytes_def nth_list_update)

lemma crc32_damage:
  assumes "a \<le> x" and "x < a + n" and "v \<noteq> m x"
  shows "crc32_signature c (rd_bytes (m(x := v)) a n) \<noteq> crc32_signature c (rd_bytes m a n)"
proof -
  have "x - a < n" using assms(1,2) by simp
  then show ?thesis
    using crc32.one_change [of "x - a" "rd_bytes m a n" v c] assms
    by (auto simp: rd_bytes_upd crc32_signature_def) (simp_all add: rd_bytes_def)
qed

lemma rd32_damage: "a \<le> x \<Longrightarrow> x < a + 4 \<Longrightarrow> v \<noteq> m x \<Longrightarrow> rd32 (m(x := v)) a \<noteq> rd32 m a"
proof
  assume *: "a \<le> x" "x < a + 4" "v \<noteq> m x" "rd32 (m(x := v)) a = rd32 m a"
  from rd32_inj [OF *(4)] have "rd_bytes (m(x := v)) a 4 ! (x - a) = rd_bytes m a 4 ! (x - a)"
    by (rule arg_cong)
  with *(1-3) show False by (simp add: rd_bytes_def)
qed

lemma rd32_upd_other: "x < a \<or> a + 4 \<le> x \<Longrightarrow> rd32 (m(x := v)) a = rd32 m a"
  by (rule rd32_cong) auto


text \<open>The address of the reset handler of the small application is damaged.\<close>

lemma demo_valid: "is_app_valid demo_area (fw_words demo_area demo_can_flash) demo_can_flash = (True, Some 0x800C008)"
  using tool_image_valid [OF demo_area_ok demo_offset demo_image, of demo_can_flash] demo_image_length demo_can_flash demo_no_signature
  by (simp add: demo_area_simps demo_image_first replicate_four)


end
