(* ===== verification/Can_Start.thy ===== *)
theory Can_Start
  imports Can_Run Can_Tool
begin

text \<open>
  What the CAN bootloader starts, and when: the application is started only if its image was checked, and it is started when
  the bus stays silent.
\<close>

section \<open>Facts through the functions of the program\<close>

context node_fact
begin

lemma expired_fact: "P s \<Longrightarrow> run_ok (\<lambda>e s'. P s' \<and> (e \<longrightarrow> timer_expired t s' = Some True)) P (expired t s)"
  by (simp add: expired_def split: option.split)

lemma can_autobaud_fact:
  assumes "P s"
  shows "run_ok (\<lambda>(rv, _) s'. P s' \<and> (rv \<noteq> CAN_OK \<longrightarrow> timer_expired t s' = Some True)) P (can_autobaud b t s)"
  unfolding can_autobaud_def
proof (rule run_ok_loop [where I = "\<lambda>_. P"], goal_cases)
  case (1 speed s)
  show ?case
  proof (cases "baud_in s")
    case (Cons p rest)
    have "P (tick b (bp_ticks p) (s\<lparr>baud_in := rest\<rparr>))"
      by (rule tick_fact [OF less_input(3) [OF 1 Cons]])
    from expired_fact [OF this, of t] show ?thesis
      unfolding autobaud_round_def Cons list.case by (intro run_ok_and_then) (erule run_ok_mono, auto simp: Let_def intro: same_core)
  qed (use 1 in \<open>simp add: autobaud_round_def\<close>)
qed (use assms in auto)

lemma random_fact: "P s \<Longrightarrow> util_random lo hi s = (ms, s') \<Longrightarrow> P s'"
  by (erule same_core) (rule node_core_random)

text \<open>The allocation, if the first receive gives the fact.\<close>

lemma alloc_receive_after:
  assumes receive: "\<And>p. run_ok (\<lambda>_. P) W (receive b DSDLMsgAllocation p (allocation_message v) 17 50 s)"
    and W: "\<And>s. P s \<Longrightarrow> W s" and t: "unat trequest \<notin> J"
  shows "run_ok (\<lambda>_. P) W (alloc_receive b random trequest preferred v s)"
  unfolding alloc_receive_def Let_def
proof (rule run_ok_and_then, rule run_ok_mono [OF receive], goal_cases)
  case (1 x s)
  obtain status p msg rx_len where x: "x = (status, p, msg, rx_len)" by (cases x) auto
  have follow: "run_ok (\<lambda>_. P) W (and_then (receive b DSDLMsgAllocation p buf n ms s) (\<lambda>(status, p, _, _) s.
      if status = UavcanOk then Done (Inl (True, f p)) s
      else and_then (send_allocation b random preferred k s) (\<lambda>_ s. Done (Inl (False, f p)) s)))" if "P s" for p buf n ms s k f
    by (rule run_ok_and_then, rule run_ok_mono [OF receive_fact [OF that]])
      (auto intro!: run_ok_and_then run_ok_mono [OF send_allocation_fact] W)
  show ?case
    unfolding x prod.case
    by (cases "status = UavcanOk")
      (auto simp: 1 W intro!: run_ok_and_then run_ok_mono [OF restart_request_fact [OF 1 t]] follow [unfolded UavcanOk_def]
        elim: random_fact split: prod.split)
qed

lemma alloc_prepare_fact:
  assumes "P s" and "unat trequest \<notin> J"
  shows "run_ok (\<lambda>_. P) P (alloc_prepare b random trequest preferred at_restart s)"
  unfolding alloc_prepare_def
  by (auto simp: assms intro!: run_ok_and_then run_ok_mono [OF expired_fact [OF assms(1)]]
      run_ok_mono [OF send_allocation_fact] run_ok_mono [OF restart_request_fact [OF _ assms(2)]])

lemma alloc_round_fact:
  assumes "P s" and "unat trequest \<notin> J"
  shows "run_ok (\<lambda>_. P) P (alloc_round b random trequest tboot preferred x s)"
proof -
  obtain at_restart v where x: "x = (at_restart, v)" by force
  show ?thesis
    unfolding alloc_round_def x prod.case
    by (rule run_ok_and_then, rule run_ok_mono [OF alloc_prepare_fact [OF assms]])
      (auto intro!: run_ok_and_then run_ok_mono [OF alloc_receive_after [where W = P, OF receive_fact _ assms(2)]]
        run_ok_mono [OF expired_fact] split: sum.split bool.split)
qed

lemma get_dynamic_node_id_fact:
  assumes "P s"
  shows "run_ok (\<lambda>_. P) P (get_dynamic_node_id b tboot preferred s)"
proof -
  define random where "random = crc16_signature (ucast (hrt_now b)) (take (mfguid_length b) (unique_id_of b))"
  obtain ms s1 where s1: "util_random MIN_REQUEST_PERIOD_MS MAX_REQUEST_PERIOD_MS (util_srand random s) = (ms, s1)" by force
  obtain t s2 where s2: "timer_allocate (modeTimeout OR modeStarted) (ucast ms) None s1 = (t, s2)" by force
  have "P (util_srand random s)" using assms by (rule same_core) simp
  from random_fact [OF this s1] have "P s1" .
  note s2' = allocate_fact [OF this s2]
  have allocated: "run_ok (\<lambda>_. P) P (loop (alloc_round b random t tboot preferred) x s2)" for x
    by (rule run_ok_loop [where I = "\<lambda>_. P"])
      (use alloc_round_fact [OF _ s2'(2)] s2'(1) in \<open>auto intro: run_ok_mono split: sum.split\<close>)
  show ?thesis
    unfolding get_dynamic_node_id_def Let_def random_def [symmetric] s1 prod.case s2
    by (rule run_ok_and_then, rule run_ok_mono [OF allocated])
      (auto simp: of_option_def intro!: run_ok_and_then intro: timer_ops_fact(1) [OF _ s2'(2)] split: option.split)
qed

lemma autobaud_fact:
  assumes "P s"
  shows "run_ok (\<lambda>_. P) P (autobaud_and_get_dynamic_node_id b tboot speed nid s)"
proof -
  have indicated: "P (board_indicate i s)" if "P s" for i s
    using that by (rule same_core) simp
  show ?thesis
    unfolding autobaud_and_get_dynamic_node_id_def Let_def
    by (rule run_ok_and_then, rule run_ok_mono [OF can_autobaud_fact [OF indicated [OF assms]]])
      (auto intro!: indicated run_ok_and_then run_ok_mono [OF get_dynamic_node_id_fact])
qed

lemma idle_fact: "P s \<Longrightarrow> idle_in s = n # rest \<Longrightarrow> P (tick b n (s\<lparr>idle_in := rest\<rparr>))"
  by (rule tick_fact) (rule less_input(2))

lemma wait_node_info_fact:
  assumes "P s"
  shows "run_ok (\<lambda>seen s'. P s' \<and> (\<not> seen \<longrightarrow> timer_expired tboot s' = Some True)) P (wait_node_info b tboot s)"
  unfolding wait_node_info_def
proof (rule run_ok_loop [where I = "\<lambda>_. P"], goal_cases)
  case (1 x s)
  show ?case
    by (auto simp: node_info_round_def 1 intro!: run_ok_and_then run_ok_mono [OF expired_fact [OF 1]] idle_fact split: list.split)
qed (use assms in auto)

end

context node_fact
begin

lemma file_getinfo_fact: "P s \<Longrightarrow> run_ok (\<lambda>_. P) P (file_getinfo b path len s)"
proof -
  have "run_ok (\<lambda>_. P) P (getinfo_attempts b path len n p response s)" if "P s" for n p response s
    using that
    by (induction b path len n p response s rule: getinfo_attempts.induct)
      (auto intro!: run_ok_and_then run_ok_mono [OF send_buffer_fact] run_ok_mono [OF receive_fact])
  then show "P s \<Longrightarrow> run_ok (\<lambda>_. P) P (file_getinfo b path len s)"
    by (simp add: file_getinfo_def)
qed

text \<open>An attempt to read that succeeds ends with a receive.\<close>

lemma read_attempts_fact:
  assumes receive: "\<And>s p buf. P s \<Longrightarrow> run_ok (\<lambda>_ s'. P s' \<and> Q s') P (receive b DSDLRspRead p buf 258 UavcanServiceTimeOutMs s)"
    and "P s"
  shows "run_ok (\<lambda>(r, _) s'. P s' \<and> (r \<noteq> None \<longrightarrow> Q s')) P (read_attempts b request len n p response s)"
  using assms(2)
proof (induction n arbitrary: p response s)
  case (Suc n)
  have logged: "P (log_message b l i r (board_indicate j s))" if "P s" for s l i r j
    using that by (rule same_core) simp
  show ?case
    unfolding read_attempts.simps
    by (rule run_ok_and_then, rule run_ok_mono [OF send_buffer_fact [OF Suc(2)]])
      (auto simp: Let_def simp del: not_None_eq
        intro!: run_ok_and_then run_ok_mono [OF receive [unfolded UavcanServiceTimeOutMs_def]] Suc(1) logged)
qed simp

end

text \<open>
  The boot timer \<open>tboot\<close> is started while the application is valid only, and the program sets node ids.
\<close>

locale boot_fact = node_fact P "{unat tboot}" for P and tboot :: u8 +
  assumes sets_node: "P s \<Longrightarrow> P (s\<lparr>g_node := g\<rparr>)" and sets_server: "P s \<Longrightarrow> P (s\<lparr>g_server_node_id := k\<rparr>)"
    and starts_boot: "P s \<Longrightarrow> b_app_valid s \<Longrightarrow> timer_start tboot s = Some s' \<Longrightarrow> P s'"
begin

lemma wait_for_beginfirmwareupdate_fact:
  assumes "P s"
  shows "run_ok (\<lambda>r s'. P s' \<and> (r = None \<longrightarrow> timer_expired tboot s' = Some True)) P (wait_for_beginfirmwareupdate b tboot s)"
proof -
  have waited: "run_ok (\<lambda>r s'. P s' \<and> (r = None \<longrightarrow> timer_expired tboot s' = Some True)) P (loop (request_round b tboot) x s)" if "P s" for x s
  proof (rule run_ok_loop [where I = "\<lambda>_. P"], goal_cases)
    case (1 x s)
    show ?case
      by (cases x) (auto simp: request_round_def 1 intro!: run_ok_and_then run_ok_mono [OF expired_fact [OF 1]] run_ok_mono [OF receive_fact])
  qed (use that in auto)
  have answered: "P s'" if "P s" and "send b dsdl p data s = (status, p', s')" for s dsdl p data status p' s'
    using that by (rule send_fact)
  show ?thesis
    unfolding wait_for_beginfirmwareupdate_def
    by (rule run_ok_and_then, rule run_ok_mono [OF waited [OF sets_server [OF assms]]])
      (auto simp: Let_def intro!: sets_server elim: answered [OF sets_node] split: option.split prod.split)
qed

lemma wait_update_fact:
  assumes "P s"
  shows "run_ok (\<lambda>r s'. P s' \<and> (r = None \<longrightarrow> timer_expired tboot s' = Some True)) P (wait_update b tboot s)"
  unfolding wait_update_def
proof (rule run_ok_loop [where I = "\<lambda>_. P"], goal_cases)
  case (1 x s)
  show ?case
    unfolding update_round_def
    by (rule run_ok_and_then, rule run_ok_mono [OF wait_for_beginfirmwareupdate_fact [OF 1]]) (auto split: option.split)
qed (use assms in auto)

lemma timer_start_if_fact:
  assumes "P s" and "c \<longrightarrow> b_app_valid s"
  shows "run_ok (\<lambda>_. P) P (timer_start_if c tboot s)"
  using assms starts_boot [OF assms(1)] by (auto simp: timer_start_if_def of_option_def split: option.split)

lemma join_bus_fact:
  assumes "P s"
  shows "run_ok (\<lambda>_. P) P (join_bus b tboot common s)"
proof -
  have speed: "P (s\<lparr>b_bus_speed := v\<rparr>)" "P (can_init v s)" "P (s\<lparr>b_uptime := v\<rparr>)" if "P s" for v s
    using that by (auto intro: same_core)
  show ?thesis
    unfolding join_bus_def Let_def
    by (auto simp: assms intro!: speed run_ok_and_then run_ok_mono [OF autobaud_fact] run_ok_mono [OF timer_start_if_fact])
qed

end

section \<open>The loops use up input\<close>

lemma consumesI:
  "(\<And>x s. run_ok (\<lambda>r s'. case r of Inl _ \<Rightarrow> input_left s' < input_left s | Inr _ \<Rightarrow> True) (\<lambda>_. True) (body x s)) \<Longrightarrow> consumes body"
  by (simp add: consumes_def)

lemma expired_input: "run_ok (\<lambda>_ s'. s' = s) (\<lambda>_. True) (expired t s)"
  by (simp add: expired_def split: option.split)

lemma timer_loops_consume:
  shows "consumes (autobaud_round b t)" and "consumes (expired_round b t)" and "consumes (node_info_round b t)"
proof -
  show "consumes (autobaud_round b t)"
    by (rule consumesI)
      (auto simp: autobaud_round_def Let_def can_init_def input_left_def [of "s\<lparr>can_rate := v\<rparr>" for s v] input_left_def [symmetric] idle_input(2)
        intro!: run_ok_and_then run_ok_mono [OF expired_input] split: list.split)
  show "consumes (expired_round b t)" "consumes (node_info_round b t)"
    by (rule consumesI, auto simp: expired_round_def node_info_round_def idle_input(1)
        intro!: run_ok_and_then run_ok_mono [OF expired_input] split: list.split)+
qed

lemma request_round_input:
  "run_ok (\<lambda>r s'. r = Inr None \<or> input_left s' < input_left s) (\<lambda>_. True) (request_round b t x s)"
  by (cases x) (auto simp: request_round_def intro!: run_ok_and_then run_ok_mono [OF expired_input] run_ok_mono [OF receive_input])

lemma request_round_consumes: "consumes (request_round b t)"
  by (rule consumesI, rule run_ok_mono [OF request_round_input]) (auto split: sum.split)

lemma update_round_consumes: "consumes (update_round b t)"
proof (rule consumesI)
  fix x and s :: can_node
  define s0 where "s0 = s\<lparr>g_server_node_id := ucast ANY_NODE_ID\<rparr>"
  have s0: "input_left s0 = input_left s" by (simp add: s0_def input_left_def)
  have waited: "run_ok (\<lambda>r s'. r = None \<or> input_left s' < input_left s) (\<lambda>_. True) (loop (request_round b t) y s0)" for y
    by (rule run_ok_loop [where I = "\<lambda>_ s'. input_left s' \<le> input_left s"])
      (auto simp: s0 intro!: run_ok_mono [OF request_round_input] split: sum.split)
  have "run_ok (\<lambda>r s'. r = None \<or> input_left s' < input_left s) (\<lambda>_. True) (wait_for_beginfirmwareupdate b t s)"
    unfolding wait_for_beginfirmwareupdate_def s0_def [symmetric]
    by (rule run_ok_and_then, rule run_ok_mono [OF waited])
      (auto simp: Let_def send_def input_left_def split: option.split prod.split)
  then show "run_ok (\<lambda>r s'. case r of Inl _ \<Rightarrow> input_left s' < input_left s | Inr _ \<Rightarrow> True) (\<lambda>_. True) (update_round b t x s)"
    unfolding update_round_def by (intro run_ok_and_then) (erule run_ok_mono, auto split: option.split)
qed

lemma alloc_round_consumes: "consumes (alloc_round b random trequest tboot preferred)"
proof (rule consumesI)
  fix x :: "bool \<times> alloc_vars" and s :: can_node
  obtain at_restart v where x: "x = (at_restart, v)" by force
  have received: "run_ok (\<lambda>_ s'. input_left s' < input_left s) (\<lambda>_. True) (alloc_receive b random trequest preferred v s1)"
    if "input_left s1 \<le> input_left s" for v s1
  proof (cases "input_left s1")
    case 0
    then show ?thesis by (simp add: alloc_receive_def Let_def receive_def input_left_def)
  next
    case (Suc n)
    have "run_ok (\<lambda>_ s'. input_left s' \<le> n) (\<lambda>_. True) (receive b DSDLMsgAllocation p (allocation_message v) 17 50 s1)" for p
      by (rule run_ok_mono [OF receive_input]) (auto simp: Suc)
    from input.alloc_receive_after [OF this] show ?thesis
      by (rule run_ok_mono) (use that Suc in auto)
  qed
  show "run_ok (\<lambda>r s'. case r of Inl _ \<Rightarrow> input_left s' < input_left s | Inr _ \<Rightarrow> True) (\<lambda>_. True)
      (alloc_round b random trequest tboot preferred x s)"
    unfolding alloc_round_def x prod.case
    by (rule run_ok_and_then, rule run_ok_mono [OF input.alloc_prepare_fact [of s "input_left s"]])
      (auto intro!: run_ok_and_then run_ok_mono [OF received] run_ok_mono [OF expired_input] split: sum.split bool.split)
qed

lemma program_round_consumes: "consumes (program_round b path len sz)"
proof (rule consumesI)
  fix x :: "u32 \<times> uavcan_protocol \<times> u8 list" and s :: can_node
  obtain offset p response where x: "x = (offset, p, response)" by (cases x) auto
  have "run_ok (\<lambda>_ s'. input_left s' \<le> input_left s \<and> input_left s' < input_left s) (\<lambda>s'. input_left s' \<le> input_left s)
      (receive b dsdl p buf n ms s1)" if "input_left s1 \<le> input_left s" for dsdl p buf n ms s1
    by (rule run_ok_mono [OF run_ok_conj [OF input.receive_fact [OF that] receive_input]]) (use that in auto)
  from input.read_attempts_fact [where Q = "\<lambda>s'. input_left s' < input_left s", OF this]
  have read: "run_ok (\<lambda>(r, _) s'. r = None \<or> input_left s' < input_left s) (\<lambda>_. True) (read_attempts b request k n p response s)"
    for request k n p response
    by (rule run_ok_mono) auto
  show "run_ok (\<lambda>r s'. case r of Inl _ \<Rightarrow> input_left s' < input_left s | Inr _ \<Rightarrow> True) (\<lambda>_. True) (program_round b path len sz x s)"
    unfolding program_round_def x prod.case
    by (rule run_ok_and_then, rule run_ok_mono [OF read])
      (auto simp: Let_def save_first_words_def write_flash_def case_prod_unfold input_left_def split: option.split)
qed

lemmas loops_consume = timer_loops_consume request_round_consumes update_round_consumes alloc_round_consumes program_round_consumes


section \<open>The words that are written last\<close>

interpretation words: node_fact "\<lambda>s. length (b_fw_word0 s) = n" "{}" for n
  by unfold_locales (auto simp: node_core_simp set_timer_def)

lemma erase_pages_yield: "(\<And>s. P s \<Longrightarrow> P (yield s)) \<Longrightarrow> P s \<Longrightarrow> P (snd (snd (erase_pages b yield p q m s)))"
proof (induction b yield p q m s rule: erase_pages.induct)
  case (1 b yield p q m s)
  then show ?case
    by (subst erase_pages.simps) (auto split: prod.split)
qed

lemma erase_application_core:
  assumes "erase_application b s = (status, s')"
  shows "node_core (s'\<lparr>flash_mem := flash_mem s\<rparr>) = node_core s"
proof -
  let ?yield = "bl_sched_yield b"
  obtain m s1 where s1: "bl_flash_erase b ?yield (APPLICATION_LOAD_ADDRESS b) (APPLICATION_SIZE b) (flash_mem s) s = (status, m, s1)"
      "s' = s1\<lparr>flash_mem := m\<rparr>"
    using assms by (auto simp: erase_application_def split: prod.splits)
  have "node_core (snd (snd (erase_pages b ?yield p q m s))) = node_core s" for p q m
    by (rule erase_pages_yield [where P = "\<lambda>s'. node_core s' = node_core s"]) (simp_all add: bl_sched_yield_def)
  then have "node_core s1 = node_core s"
    using s1(1) by (auto simp: bl_flash_erase_def Let_def split: if_splits) (metis snd_conv)+
  then show ?thesis
    by (simp add: s1(2) node_core_simp)
qed

lemma program_round_words:
  assumes "length (b_fw_word0 s) = LATER_FLAHSED_WORDS b"
  shows "run_ok (\<lambda>_ s. length (b_fw_word0 s) = LATER_FLAHSED_WORDS b) (\<lambda>_. True) (program_round b path len sz x s)"
proof -
  obtain offset p response where x: "x = (offset, p, response)" by (cases x) auto
  show ?thesis
    unfolding program_round_def x prod.case
    by (rule run_ok_and_then, rule run_ok_mono [OF words.read_attempts_fact [where Q = "\<lambda>_. True", OF _ assms]])
      (auto simp: Let_def save_first_words_def write_flash_def board_indicate_def case_prod_unfold
        intro: words.receive_fact split: option.split)
qed

lemma file_read_and_program_words:
  assumes "length (b_fw_word0 s) = LATER_FLAHSED_WORDS b"
  shows "run_ok (\<lambda>_ s. length (b_fw_word0 s) = LATER_FLAHSED_WORDS b) (\<lambda>_. True) (file_read_and_program b path len sz s)"
  unfolding file_read_and_program_def
  by (rule run_ok_loop [where I = "\<lambda>_ s. length (b_fw_word0 s) = LATER_FLAHSED_WORDS b"])
    (use assms in \<open>auto intro!: run_ok_mono [OF program_round_words] split: sum.split\<close>)

section \<open>Only a verified application is started\<close>

text \<open>The flash driver: a write that reports all bytes has written them. (It reads them back.)\<close>

definition write_verifies :: "'b app_area_scheme \<Rightarrow> bool" where
  "write_verifies b \<longleftrightarrow> (\<forall>a data m m1. progmem_write b a data m = (int (length data), m1) \<longrightarrow> m1 = wr_bytes (unat a) data m)"

definition app_verified :: "can_board \<Rightarrow> can_node \<Rightarrow> bool" where
  "app_verified b s \<longleftrightarrow> (\<exists>d. b_fw_image_descriptor s = Some d \<and> image_verified b (flash_mem s) d)"

definition starts_image :: "can_board \<Rightarrow> u32 \<Rightarrow> u32 \<Rightarrow> can_node \<Rightarrow> bool" where
  "starts_image b stacktop entrypoint s \<longleftrightarrow> (\<exists>d. b_fw_image_descriptor s = Some d \<and> image_verified b (flash_mem s) d \<and>
     stacktop = rd32 (flash_mem s) (unat (APPLICATION_LOAD_ADDRESS b)) \<and>
     entrypoint = rd32 (flash_mem s) (unat (APPLICATION_LOAD_ADDRESS b) + 4) \<and>
     unat (APPLICATION_LOAD_ADDRESS b) < unat entrypoint \<and>
     unat entrypoint < unat (APPLICATION_LOAD_ADDRESS b) + unat (image_size (flash_mem s) d))"

text \<open>What holds from the start of the timers to the update: the boot timer, number three, runs only if the application is valid.\<close>

definition boot_state :: "can_board \<Rightarrow> can_node \<Rightarrow> bool" where
  "boot_state b s \<longleftrightarrow> length (timers s) = 7 \<and>
     t_ctl (timers s ! 3) \<in> {modeTimeout OR inuse, (modeTimeout OR running) OR inuse} \<and>
     (t_ctl (timers s ! 3) AND running \<noteq> 0 \<longrightarrow> b_app_valid s) \<and> (b_app_valid s \<longrightarrow> app_verified b s) \<and>
     length (b_fw_word0 s) = LATER_FLAHSED_WORDS b"

interpretation started: boot_fact "boot_state b" 3 for b
proof unfold_locales
  fix s s' t
  show "timer_start 3 s = Some s' \<Longrightarrow> boot_state b s'" if "boot_state b s" "b_app_valid s"
    using that by (auto simp: boot_state_def app_verified_def timer_start_def with_timer_def set_timer_def timer_consts)
qed (auto simp: boot_state_def app_verified_def node_core_simp set_timer_def timer_consts)

lemma failure_resets: "run_ok (\<lambda>e _. e = SystemReset) (\<lambda>_. True) (failure b stage s)"
proof -
  have any: "run_ok (\<lambda>_ _. True) (\<lambda>_. True) r" for r :: "'a run" by (cases r) auto
  show ?thesis
    unfolding failure_def Let_def case_prod_unfold
    by (rule run_ok_and_then, rule run_ok_mono [OF any], rule run_ok_and_then, rule run_ok_mono [OF any]) simp_all
qed

lemma failure_no_jump: "failure b stage s \<noteq> Done (Jump sp pc) s'"
  using failure_resets [of b stage s] by auto

lemma boot_application_jump:
  assumes "boot_application b stage common s = Done (Jump sp pc) s'" and "app_verified b s" and "area_ok b"
  shows "starts_image b sp pc s'"
proof -
  obtain d where d: "b_fw_image_descriptor s = Some d" "image_verified b (flash_mem s) d"
    using assms(2) by (auto simp: app_verified_def)
  let ?load = "APPLICATION_LOAD_ADDRESS b" and ?len = "image_size (flash_mem s) d"
  have jump: "sp = rd32 (flash_mem s) (unat ?load)" "pc = rd32 (flash_mem s) (unat ?load + 4)" "?load < pc" "pc < ?load + ?len"
      "flash_mem s' = flash_mem s" "b_fw_image_descriptor s' = Some d"
    using assms(1) failure_no_jump d(1)
    by (auto simp: boot_application_def application_run_def Let_def board_indicate_def split: if_splits)
  have "unat (?load + ?len) = unat ?load + unat ?len"
    using d(2) assms(3) by (simp add: image_verified_def area_ok_def Let_def unat_word_ariths(1))
  then show ?thesis
    using jump d(2) unfolding starts_image_def by (simp add: word_less_nat_alt)
qed

lemma boot_state_expired:
  "boot_state b s \<Longrightarrow> timer_expired 3 s = Some True \<Longrightarrow> app_verified b s"
  by (auto simp: boot_state_def timer_expired_def with_timer_def)

text \<open>The update: the image is checked with the words that are not yet in the flash, and started once they are.\<close>

lemma commit_verified:
  assumes "area_ok b" and "write_verifies b" and "length ws = LATER_FLAHSED_WORDS b"
    and "is_app_valid b ws m = (True, desc)"
    and "bl_flash_write b (APPLICATION_LOAD_ADDRESS b) (concat (map le_bytes32 ws)) m = (FLASH_OK, m')"
  shows "\<exists>d. desc = Some d \<and> image_verified b m' d"
proof -
  obtain d where d: "find_descriptor b m = Some d"
    using is_app_valid_descriptor [OF assms(4)] by auto
  have "m' = wr_bytes (unat (APPLICATION_LOAD_ADDRESS b)) (concat (map le_bytes32 ws)) m"
    using assms(2,5) by (auto simp: bl_flash_write_def write_verifies_def split: prod.splits if_splits)
  from is_app_valid_iff [OF assms(1) d assms(3) this] show ?thesis
    using assms(4) by simp
qed

lemma program_update_jump:
  assumes "area_ok b" and "write_verifies b" and "length (b_fw_word0 s) = LATER_FLAHSED_WORDS b"
  shows "run_ok (\<lambda>e s'. \<forall>sp pc. e = Jump sp pc \<longrightarrow> starts_image b sp pc s') (\<lambda>_. True) (program_update b path len sz common s)"
proof -
  let ?R = "run_ok (\<lambda>e s'. \<forall>sp pc. e = Jump sp pc \<longrightarrow> starts_image b sp pc s') (\<lambda>_. True)"
  have fail: "?R (failure b stage s)" for stage s
    by (rule run_ok_mono [OF failure_resets]) simp_all
  have boot: "?R (boot_application b stage common s)" if "app_verified b s" for stage s
    using boot_application_jump [OF _ that assms(1)] by (cases "boot_application b stage common s") auto
  define s0 where "s0 = (log_message b LOGMESSAGE_LEVELINFO LOGMESSAGE_STAGE_ERASE LOGMESSAGE_RESULT_START s)\<lparr>b_app_valid := False\<rparr>"
  obtain status s1 where s1: "erase_application b s0 = (status, s1)" by force
  have len0: "length (b_fw_word0 s0) = LATER_FLAHSED_WORDS b"
    using words.same_core [OF assms(3) node_core_simps(5)] by (simp add: s0_def)
  have len1: "length (b_fw_word0 s1) = LATER_FLAHSED_WORDS b"
    using erase_application_core [OF s1] len0 by (simp add: node_core_simp)
  have finish: "?R (let (ok, desc) = is_app_valid b (b_fw_word0 s) (flash_mem s); s = s\<lparr>b_fw_image_descriptor := desc\<rparr>
      in if \<not> ok
         then failure b LOGMESSAGE_STAGE_VALIDATE (board_indicate fw_update_invalid_crc (s\<lparr>b_app_valid := False\<rparr>))
         else let (status, s) = write_flash b (APPLICATION_LOAD_ADDRESS b) (concat (map le_bytes32 (b_fw_word0 s))) s
           in if status \<noteq> FLASH_OK then failure b LOGMESSAGE_STAGE_FINALIZE s
              else boot_application b LOGMESSAGE_STAGE_INIT common
                     (log_message b LOGMESSAGE_LEVELINFO LOGMESSAGE_STAGE_FINALIZE LOGMESSAGE_RESULT_OK (s\<lparr>b_percentage_done := 100\<rparr>)))"
    if len: "length (b_fw_word0 s) = LATER_FLAHSED_WORDS b" for s
  proof -
    obtain ok desc where valid: "is_app_valid b (b_fw_word0 s) (flash_mem s) = (ok, desc)" by force
    obtain st m where wr: "bl_flash_write b (APPLICATION_LOAD_ADDRESS b) (concat (map le_bytes32 (b_fw_word0 s))) (flash_mem s) = (st, m)" by force
    have "app_verified b (log_message b l i r (s\<lparr>b_fw_image_descriptor := desc, flash_mem := m, b_percentage_done := 100\<rparr>))"
      if "ok" "st = FLASH_OK" for l i r
      using commit_verified [OF assms(1,2) len] valid wr that
        node_core_simps(5) [of b l i r "s\<lparr>b_fw_image_descriptor := desc, flash_mem := m, b_percentage_done := 100\<rparr>"]
      by (auto simp: app_verified_def node_core_simp)
    then show ?thesis
      using fail boot by (simp add: valid write_flash_def wr Let_def)
  qed
  show ?thesis
    unfolding program_update_def Let_def s0_def [symmetric] s1 prod.case
    by (auto simp: fail intro!: run_ok_and_then run_ok_mono [OF file_read_and_program_words [OF len1]] finish [unfolded Let_def])
qed

lemma update_jump:
  assumes "area_ok b" and "write_verifies b" and "length (b_fw_word0 s) = LATER_FLAHSED_WORDS b"
  shows "run_ok (\<lambda>e s'. \<forall>sp pc. e = Jump sp pc \<longrightarrow> starts_image b sp pc s') (\<lambda>_. True) (update b tboot path len common s)"
proof -
  have stop: "run_ok (\<lambda>_ s'. length (b_fw_word0 s') = LATER_FLAHSED_WORDS b) (\<lambda>_. True) (of_option (timer_stop tboot s))"
    using assms(3) by (simp add: of_option_def timer_stop_def with_timer_def set_timer_def)
  have fail: "run_ok (\<lambda>e s'. \<forall>sp pc. e = Jump sp pc \<longrightarrow> starts_image b sp pc s') (\<lambda>_. True) (failure b stage s)" for stage s
    by (rule run_ok_mono [OF failure_resets]) simp_all
  show ?thesis
    unfolding update_def Let_def
    by (rule run_ok_and_then, rule run_ok_mono [OF stop])
      (auto simp: board_indicate_def intro!: run_ok_and_then run_ok_mono [OF words.file_getinfo_fact]
        fail program_update_jump [OF assms(1,2)])
qed

lemma on_bus_jump:
  assumes "area_ok b" and "write_verifies b" and "boot_state b s" and "unat tinfo \<noteq> 3" and "unat tstatus \<noteq> 3"
  shows "run_ok (\<lambda>e s'. \<forall>sp pc. e = Jump sp pc \<longrightarrow> starts_image b sp pc s') (\<lambda>_. True) (on_bus b tinfo tstatus 3 common s)"
proof -
  let ?Q = "\<lambda>e s'. \<forall>sp pc. e = Jump sp pc \<longrightarrow> starts_image b sp pc s'"
  have boot: "run_ok ?Q (\<lambda>_. True) (boot_application b stage common s)" if "boot_state b s" "timer_expired 3 s = Some True" for stage s
    using boot_application_jump [OF _ boot_state_expired [OF that] assms(1)] by (cases "boot_application b stage common s") auto
  have start: "run_ok (\<lambda>_. boot_state b) (\<lambda>_. True) (of_option (timer_start t s))" if "boot_state b s" "unat t \<noteq> 3" for t s
    using started.timer_ops_fact(3) [OF that(1), of t] that(2) by (auto simp: of_option_def split: option.split)
  have cond: "run_ok (\<lambda>_. boot_state b) (\<lambda>_. True) (timer_start_if (b_app_valid s \<and> c) 3 s)" if "boot_state b s" for c s
    by (rule run_ok_mono [OF started.timer_start_if_fact [OF that]]) auto
  have upd: "run_ok ?Q (\<lambda>_. True) (update b 3 path len common s)" if "boot_state b s" for path len s
    using update_jump [OF assms(1,2)] that by (simp add: boot_state_def)
  show ?thesis
    unfolding on_bus_def Let_def
    by (rule run_ok_and_then, rule run_ok_mono [OF start [OF started.sets_node [OF assms(3)] assms(4)]])
      (auto intro!: run_ok_and_then run_ok_mono [OF start [OF _ assms(5)]] run_ok_mono [OF started.wait_node_info_fact]
        run_ok_mono [OF cond] run_ok_mono [OF started.wait_update_fact] boot upd split: option.split)
qed

text \<open>After reset the timers have the numbers six to three.\<close>

lemma start_timers_fresh:
  assumes "timers s = replicate 7 zero_timer"
  shows "start_timers s = (5, 4, 3, s\<lparr>timers := replicate 3 zero_timer @ map (\<lambda>(f, ms, ctl). \<lparr>usr = f, t_count = ms, t_reload = ms, t_ctl = ctl\<rparr>)
    [(null_cb, OPT_TBOOT_MS, modeTimeout OR inuse), (null_cb\<lparr>cb_fn := Some 2\<rparr>, OPT_NODE_STATUS_RATE_MS, modeRepeating OR inuse),
     (null_cb\<lparr>cb_fn := Some 1\<rparr>, OPT_NODE_INFO_RATE_MS, modeRepeating OR inuse),
     (null_cb\<lparr>cb_fn := Some 0\<rparr>, 1000, (modeRepeating OR running) OR inuse)]\<rparr>)"
proof -
  have rev: "rev [0..<OPT_BL_NUMBER_TIMERS] = [6, 5, 4, 3, 2, 1, 0]"
    by (simp add: OPT_BL_NUMBER_TIMERS_def upt_rec)
  have seven: "timers s = [zero_timer, zero_timer, zero_timer, zero_timer, zero_timer, zero_timer, zero_timer]"
    using assms by (simp add: numeral_eq_Suc)
  have three: "replicate 3 zero_timer = [zero_timer, zero_timer, zero_timer]"
    by (simp add: numeral_eq_Suc)
  show ?thesis
    unfolding three by (simp add: start_timers_def timer_allocate_def rev set_timer_def seven zero_timer_def timer_consts)
qed

lemma main_init_state:
  assumes "main_init b common s = (common', s1)"
  shows "timers s1 = replicate 7 zero_timer" "flash_mem s1 = flash_mem s" "length (b_fw_word0 s1) = LATER_FLAHSED_WORDS b"
    "is_app_valid b (fw_words b (flash_mem s)) (flash_mem s) = (b_app_valid s1, b_fw_image_descriptor s1)"
    "b_wait_for_getnodeinfo s1 = wait_jumper b" "baud_in s1 = baud_in s"
    "fst (bootloader_app_shared_read common App (shared_regs s)) \<noteq> 0 \<Longrightarrow> \<not> b_app_bl_request s1"
  using assms
  by (auto simp: main_init_def main_reset_def timer_init_def OPT_BL_NUMBER_TIMERS_def board_indicate_def Let_def split: prod.splits)

lemma main_join_fact:
  assumes "area_ok b"
  shows "run_ok (\<lambda>(tinfo, tstatus, tboot, _) s'. tinfo = 5 \<and> tstatus = 4 \<and> tboot = 3 \<and> boot_state b s') (\<lambda>_. True) (main_join b common s)"
proof -
  obtain c s1 where s1: "main_init b common s = (c, s1)" by force
  obtain s2 where s2: "start_timers s1 = (5, 4, 3, s2)" and t3: "length (timers s2) = 7" "t_ctl (timers s2 ! 3) = modeTimeout OR inuse"
      and same: "flash_mem s2 = flash_mem s1" "b_app_valid s2 = b_app_valid s1" "b_fw_image_descriptor s2 = b_fw_image_descriptor s1"
        "b_fw_word0 s2 = b_fw_word0 s1"
    using start_timers_fresh [OF main_init_state(1) [OF s1]] by (simp add: nth_append)
  have "app_verified b s2" if "b_app_valid s2"
  proof -
    have "is_app_valid b (fw_words b (flash_mem s2)) (flash_mem s2) = (True, b_fw_image_descriptor s2)"
      using main_init_state(2,4) [OF s1] same that by simp
    from app_valid_verified [OF assms this] show ?thesis
      by (auto simp: app_verified_def)
  qed
  then have "boot_state b s2"
    using t3 same main_init_state(3) [OF s1] by (simp add: boot_state_def timer_consts)
  then show ?thesis
    unfolding main_join_def Let_def s1 prod.case s2
    by (auto intro!: run_ok_and_then run_ok_mono [OF started.timer_start_if_fact] run_ok_mono [OF started.join_bus_fact])
qed

text \<open>
  C38. Only a checked application is started. If the bootloader jumps to an application, the two checksums of its image
  are right at that moment, its descriptor is the one in use, and the stack and the entry point are those of its
  first words, with the entry point inside the image. This holds with and without an update, whatever is on the bus,
  if the flash driver verifies what it writes. The one exception is a node that has given up joining the bus although
  the boot timer, which runs for a valid application only, has not expired: it starts whatever is in the flash.
\<close>

theorem started_application_verified:
  assumes "area_ok b" and "write_verifies b" and "main b common s = Done (Jump stacktop entrypoint) s'"
  shows "starts_image b stacktop entrypoint s' \<or>
    (\<exists>common1 s1. main_join b common s = Done (5, 4, 3, False, common1) s1 \<and> timer_expired 3 s1 = Some False)"
proof -
  obtain tinfo tstatus tboot joined common1 s1 where join: "main_join b common s = Done (tinfo, tstatus, tboot, joined, common1) s1"
    using assms(3) by (cases "main_join b common s") (auto simp: main_def)
  then have *: "tinfo = 5" "tstatus = 4" "tboot = 3" "boot_state b s1"
    using main_join_fact [OF assms(1), of common s] by simp_all
  show ?thesis
  proof (cases joined)
    case True
    then show ?thesis
      using on_bus_jump [OF assms(1,2) *(4), of 5 4 common1] assms(3) join * by (simp add: main_def)
  next
    case False
    then have jump: "boot_application b LOGMESSAGE_STAGE_INIT common1 s1 = Done (Jump stacktop entrypoint) s'"
      using assms(3) join by (simp add: main_def)
    obtain e where e: "timer_expired 3 s1 = Some e"
      using *(4) by (auto simp: boot_state_def timer_expired_def with_timer_def)
    then show ?thesis
      using boot_application_jump [OF jump boot_state_expired [OF *(4)] assms(1)] join False * by (cases e) auto
  qed
qed

section \<open>A silent bus\<close>

interpretation flash: node_fact "\<lambda>s. flash_mem s = m \<and> b_fw_image_descriptor s = d" "{}" for m d
  by unfold_locales (auto simp: node_core_simp set_timer_def)

interpretation baud: node_ticks "\<lambda>s. baud_in s = l" "{}" for l
  by unfold_locales (auto simp: node_core_simp set_timer_def)

lemma autobaud_silent:
  assumes "length (timers s) = 7" and "live modeTimeout (timers s ! 3)" and "baud_in s = ps @ rest" and "ps \<noteq> []"
    and "unat (t_count (timers s ! 3)) \<le> sum_list (map bp_ticks ps)" and "\<forall>p\<in>set ps. \<not> bp_pending p"
  shows "\<exists>s'. loop (autobaud_round b 3) speed s = Done (CAN_BOOT_TIMEOUT, CAN_UNKNOWN) s'"
  using assms
proof (induction ps arbitrary: s speed)
  case (Cons p ps)
  define s0 where "s0 = s\<lparr>baud_in := ps @ rest\<rparr>"
  define s1 where "s1 = tick b (bp_ticks p) s0"
  have s0: "length (timers s0) = 7" "timers s0 ! 3 = timers s ! 3"
    using Cons(2) by (simp_all add: s0_def)
  note keep = callouts_keep_callouts [of 3 b, simplified]
  have live: "length (timers s1) = 7" "live modeTimeout (timers s1 ! 3)"
      "unat (t_count (timers s1 ! 3)) = unat (t_count (timers s ! 3)) - bp_ticks p"
    using ticks_live [OF keep _ s0(1), of modeTimeout "bp_ticks p"] timeout_count [of "timers s ! 3" "bp_ticks p"] Cons(3) s0(2)
    by (simp_all add: s1_def tick_def)
  have expired: "expired 3 s1 = Done (unat (t_count (timers s ! 3)) \<le> bp_ticks p) s1"
    using timeout_expired [of "callouts b" 3 s0 "bp_ticks p"] keep s0 Cons(3) by (simp add: expired_def s1_def tick_def)
  have baud: "baud_in s1 = ps @ rest"
    unfolding s1_def by (rule baud.tick_fact) (simp add: s0_def)
  have body: "autobaud_round b 3 speed s = (if unat (t_count (timers s ! 3)) \<le> bp_ticks p then Done (Inr (CAN_BOOT_TIMEOUT, CAN_UNKNOWN)) s1
      else let v = baud_speed 3 (min_cycles b p) (CAN_125KBAUD_BIT_CYCLES b - CAN_125KBAUD_BIT_CYCLES b div 4) CAN_125KBAUD
        in if bp_count p < CAN_BAUD_SAMPLES_NEEDED then Done (Inl speed) s1 else Done (Inl v) (can_init v s1))"
    using Cons(4,7) expired by (simp add: autobaud_round_def s1_def s0_def Let_def)
  have "\<exists>s'. loop (autobaud_round b 3) v s2 = Done (CAN_BOOT_TIMEOUT, CAN_UNKNOWN) s'"
    if "\<not> unat (t_count (timers s ! 3)) \<le> bp_ticks p" and "s2 = s1 \<or> s2 = can_init v s1" for v s2
    by (rule Cons(1)) (use that Cons(6,7) live baud in \<open>auto simp: can_init_def\<close>)
  then show ?case
    by (subst loop_unfold [OF timer_loops_consume(1)]) (auto simp: body Let_def)
qed simp

lemma silent_main:
  assumes "area_ok b" and "is_app_valid b (fw_words b (flash_mem s)) (flash_mem s) = (True, Some d)" and "\<not> wait_jumper b"
    and "fst (bootloader_app_shared_read common App (shared_regs s)) \<noteq> 0"
    and "baud_in s = ps @ rest" and "5000 \<le> sum_list (map bp_ticks ps)" and "\<forall>p\<in>set ps. \<not> bp_pending p"
    and entry: "entry = rd32 (flash_mem s) (unat (APPLICATION_LOAD_ADDRESS b) + 4)" "unat (APPLICATION_LOAD_ADDRESS b) < unat entry"
      "unat entry < unat (APPLICATION_LOAD_ADDRESS b) + unat (image_size (flash_mem s) d)"
  shows "\<exists>s'. main b common s = Done (Jump (rd32 (flash_mem s) (unat (APPLICATION_LOAD_ADDRESS b))) entry) s' \<and> flash_mem s' = flash_mem s"
proof -
  let ?load = "APPLICATION_LOAD_ADDRESS b" and ?m = "flash_mem s"
  obtain c s1 where s1: "main_init b common s = (c, s1)" by force
  note init = main_init_state [OF s1]
  have flags: "b_app_valid s1" "b_fw_image_descriptor s1 = Some d" "\<not> b_wait_for_getnodeinfo s1" "\<not> b_app_bl_request s1" "baud_in s1 = baud_in s"
    using init(4-7) assms(2-4) by simp_all
  obtain s2 where s2: "start_timers s1 = (5, 4, 3, s2)" and t3: "length (timers s2) = 7" "t_ctl (timers s2 ! 3) = modeTimeout OR inuse"
      "t_reload (timers s2 ! 3) = 5000"
      and same: "flash_mem s2 = flash_mem s1" "b_app_valid s2 = b_app_valid s1" "b_fw_image_descriptor s2 = b_fw_image_descriptor s1"
        "b_wait_for_getnodeinfo s2 = b_wait_for_getnodeinfo s1" "b_app_bl_request s2 = b_app_bl_request s1" "baud_in s2 = baud_in s1"
    using start_timers_fresh [OF init(1)] by (simp add: nth_append)
  define s3 where "s3 = set_timer 3 ((timers s2 ! 3)\<lparr>t_count := 5000, t_ctl := (modeTimeout OR inuse) OR running\<rparr>) s2"
  have start: "timer_start_if True 3 s2 = Done () s3"
    using t3 by (simp add: timer_start_if_def timer_start_def with_timer_def of_option_def s3_def)
  define s4 where "s4 = board_indicate autobaud_start s3"
  have s4: "length (timers s4) = 7" "live modeTimeout (timers s4 ! 3)" "baud_in s4 = ps @ rest" "unat (t_count (timers s4 ! 3)) = 5000"
      "flash_mem s4 = ?m" "b_fw_image_descriptor s4 = Some d" "\<not> b_app_bl_request s3"
    using t3 same flags init assms(5) by (simp_all add: s4_def s3_def board_indicate_def set_timer_def live_def timer_consts)
  have "ps \<noteq> []" using assms(6) by auto
  with autobaud_silent [OF s4(1,2,3), of b CAN_125KBAUD] s4(4) assms(6,7)
  obtain s5 where s5: "can_autobaud b 3 s4 = Done (CAN_BOOT_TIMEOUT, CAN_UNKNOWN) s5"
    unfolding can_autobaud_def by auto
  have mem5: "flash_mem s5 = ?m" "b_fw_image_descriptor s5 = Some d"
    using flash.can_autobaud_fact [of s4 ?m "Some d" 3 b] s4(5,6) s5 by simp_all
  obtain c' where join: "join_bus b 3 c s3 = Done (False, c') (s5\<lparr>b_bus_speed := CAN_UNKNOWN\<rparr>)"
    using s4(7) s5 by (simp add: join_bus_def autobaud_and_get_dynamic_node_id_def Let_def s4_def [symmetric])
  have "image_verified b ?m d"
    using app_valid_verified [OF assms(1,2)] by blast
  then have len: "rd32 ?m (unat ?load) \<noteq> 0xFFFFFFFF" "unat (?load + image_size ?m d) = unat ?load + unat (image_size ?m d)"
    using assms(1) by (simp_all add: image_verified_def area_ok_def Let_def unat_word_ariths(1))
  have "main b common s = boot_application b LOGMESSAGE_STAGE_INIT c' (s5\<lparr>b_bus_speed := CAN_UNKNOWN\<rparr>)"
    using start join same flags by (simp add: main_def main_join_def s1 s2 Let_def)
  then show ?thesis
    using entry len mem5 by (simp add: boot_application_def application_run_def Let_def board_indicate_def word_less_nat_alt)
qed

text \<open>
  C39. A node with a valid application does not wait for the bus for ever. If no frame arrives for the five seconds of the
  boot timer, the bootloader starts the application, unless a jumper tells it to wait or the application has asked
  for the bootloader; this needs an entry point inside the image.
\<close>

theorem silent_bus_starts_application:
  assumes "area_ok b" and "is_app_valid b (fw_words b (flash_mem s)) (flash_mem s) = (True, Some d)" and "\<not> wait_jumper b"
    and "fst (bootloader_app_shared_read common App (shared_regs s)) \<noteq> 0"
    and "baud_in s = ps @ rest" and "5000 \<le> sum_list (map bp_ticks ps)" and "\<forall>p\<in>set ps. \<not> bp_pending p"
    and "entry = rd32 (flash_mem s) (unat (APPLICATION_LOAD_ADDRESS b) + 4)" and "unat (APPLICATION_LOAD_ADDRESS b) < unat entry"
    and "unat entry < unat (APPLICATION_LOAD_ADDRESS b) + unat (image_size (flash_mem s) d)"
  shows "\<exists>s'. main b common s = Done (Jump (rd32 (flash_mem s) (unat (APPLICATION_LOAD_ADDRESS b))) entry) s' \<and> flash_mem s' = flash_mem s"
  using assms by (rule silent_main)

section \<open>Example\<close>

text \<open>The board of the example of the build tool, with its application in the flash and no traffic.\<close>

definition demo_board :: can_board where
  "demo_board = \<lparr>APPLICATION_LOAD_ADDRESS = 0x800C000, APPLICATION_SIZE = 0x74000, LATER_FLAHSED_WORDS = 1,
     progmem_getpage = progmem_getpage demo_area, progmem_eraseblock = progmem_eraseblock demo_area, progmem_write = progmem_write demo_area,
     can_tx = (\<lambda>_ _ _. 0), hw_version = replicate 18 0, mfguid_length = 12, product_name = [0x70, 0x78, 0x34],
     hrt_cycles_per_us = 90, hrt_reload = 65535, hrt_now = 7, wait_jumper = False, uninit = (\<lambda>_ _. 0)\<rparr>"

definition demo_node :: can_node where
  "demo_node = \<lparr>sys_tic = 0, timers = [], fired = [], b_bus_speed = 0, b_health = 0, b_mode = 0, b_sub_mode = 0, b_app_valid = False,
     b_uptime = 0, b_fw_image_descriptor = None, b_wait_for_getnodeinfo = False, b_app_bl_request = False, b_sent_node_info_response = False,
     b_percentage_done = 0, b_fw_word0 = [0], g_node = \<lparr>g_uavcan_priority = 30, g_this_node_id = 0\<rparr>, g_server_node_id = 0,
     msg_ids = \<lparr>log_transfer_id = 0, allocation_transfer_id = 0\<rparr>, status_transfer_id = 0, rseed = 0, flash_mem = demo_can_flash,
     shared_regs = (\<lambda>_. 0), can_rate = 0, bus = [], indicated = [], isr_fault = False, rx_in = [], info_in = [], idle_in = [],
     baud_in = [\<lparr>bp_samples = [], bp_count = 0, bp_ticks = 3000, bp_pending = False\<rparr>, \<lparr>bp_samples = [], bp_count = 0, bp_ticks = 2500, bp_pending = False\<rparr>]\<rparr>"

lemma demo_board_ok: "area_ok demo_board" "write_verifies demo_board"
  by (simp_all add: area_ok_def write_verifies_def demo_board_def demo_area_def)

lemma demo_image_words: "rd32 demo_can_flash 0x800C000 = 0x20020000" "rd32 demo_can_flash 0x800C004 = 0x800C009"
proof -
  have "rd_bytes demo_can_flash 0x800C000 8 = [0, 0, 2, 0x20, 9, 0xC0, 0, 8]"
    using rd_bytes_part [of demo_can_flash "0x800C000" demo_image 0 8] demo_can_flash demo_image_length demo_image_start
    by (simp add: demo_contents_def)
  then have "rd_bytes demo_can_flash 0x800C000 4 = le_bytes32 0x20020000" "rd_bytes demo_can_flash 0x800C004 4 = le_bytes32 0x800C009"
    by (simp_all add: rd_bytes_def upt_rec le_bytes32_def le_bytes_def)
  then show "rd32 demo_can_flash 0x800C000 = 0x20020000" "rd32 demo_can_flash 0x800C004 = 0x800C009"
    by (auto intro: rd32_written)
qed

lemma demo_board_image:
  "is_app_valid demo_board (fw_words demo_board demo_can_flash) demo_can_flash = (True, Some 0x800C008)"
  "image_size demo_can_flash 0x800C008 = 112"
  using tool_image [OF demo_board_ok(1) demo_offset demo_image, of demo_can_flash] demo_image_length demo_can_flash demo_no_signature
  by (simp_all add: demo_board_def demo_image_first replicate_four)

lemma demo_no_request: "fst (bootloader_app_shared_read common App (\<lambda>_. 0)) \<noteq> 0"
  by (simp add: bootloader_app_shared_read_def shared_load_def BOOTLOADER_COMMON_APP_SIGNATURE_def EBADR_def Let_def)

lemma demo_started:
  "\<exists>s'. main demo_board common demo_node = Done (Jump 0x20020000 0x800C009) s' \<and> flash_mem s' = demo_can_flash"
  using silent_main [of demo_board demo_node "0x800C008" common "baud_in demo_node" "[]" "0x800C009"] demo_board_ok demo_board_image demo_no_request demo_image_words
  by (simp add: demo_node_def demo_board_def)

theorem silent_bus_starts_application_witness:
  "\<exists>s'. main demo_board (bootloader_app_shared_init Invalid) demo_node = Done (Jump 0x20020000 0x800C009) s' \<and> flash_mem s' = demo_can_flash"
  using silent_bus_starts_application [of demo_board demo_node "0x800C008" "bootloader_app_shared_init Invalid" "baud_in demo_node" "[]" "0x800C009"]
    demo_board_ok demo_board_image demo_no_request demo_image_words
  by (simp add: demo_node_def demo_board_def)


theorem started_application_verified_witness:
  "\<exists>s'. main demo_board (bootloader_app_shared_init Invalid) demo_node = Done (Jump 0x20020000 0x800C009) s' \<and>
     (starts_image demo_board 0x20020000 0x800C009 s' \<or>
      (\<exists>common1 s1. main_join demo_board (bootloader_app_shared_init Invalid) demo_node = Done (5, 4, 3, False, common1) s1 \<and>
        timer_expired 3 s1 = Some False))"
proof -
  obtain s' where s': "main demo_board (bootloader_app_shared_init Invalid) demo_node = Done (Jump 0x20020000 0x800C009) s'"
    using demo_started by blast
  from started_application_verified [OF demo_board_ok s'] show ?thesis
    by (intro exI [of _ s'] conjI s')
qed

end
