(* ===== verification/Can_Update.thy ===== *)
theory Can_Update
  imports Can_Start Can_Tool
begin

text \<open>
  The update over the bus, from the question for the file's size to the start of the new application, with a file server that
  answers. The CAN driver takes every frame, the flash driver erases and programs.
\<close>

section \<open>Answers\<close>

text \<open>The frames of an answer, and polls of the driver that yield them in time.\<close>

definition answer_frames :: "uavcan_node \<Rightarrow> uavcan_protocol \<Rightarrow> uavcan_dsdl \<Rightarrow> u8 list \<Rightarrow> can_frame list" where
  "answer_frames gs pt dsdl data = snd (snd (uavcan_tx_dsdl (\<lambda>_ _ _. 0) gs dsdl pt data (replicate 8 0) []))"

definition answered :: "uavcan_node \<Rightarrow> uavcan_protocol \<Rightarrow> uavcan_dsdl \<Rightarrow> u8 list \<Rightarrow> (rx_frame option \<times> nat) list \<Rightarrow> bool" where
  "answered gs pt dsdl data polls \<longleftrightarrow>
     list_all2 carries (answer_frames gs pt dsdl data) (polled polls) \<and> sum_list (map snd polls) < 1000"

lemma tx_dsdl_sent:
  assumes "\<And>fs f mb. tx fs f mb = 0"
  shows "fst (uavcan_tx_dsdl tx g dsdl p data buf fs) = UavcanOk"
proof -
  have "tx = (\<lambda>_ _ _. 0)" using assms by (intro ext) simp
  then show ?thesis
    using tx_loop_ok by (simp add: uavcan_tx_dsdl_def Let_def)
qed

lemma timer_available:
  assumes "used us s" and "length us = 7" and "i < 7" and "\<not> us ! i"
  shows "fst (timer_allocate mode ms fc s) \<noteq> - 1"
proof -
  let ?find = "find (\<lambda>t. t_ctl (timers s ! t) AND inuse = 0) (rev [0..<OPT_BL_NUMBER_TIMERS])"
  have "i \<in> set (rev [0..<OPT_BL_NUMBER_TIMERS])" "t_ctl (timers s ! i) AND inuse = 0"
    using assms(2-4) used_nth [OF assms(1), of i] by (simp_all add: OPT_BL_NUMBER_TIMERS_def)
  then obtain k where k: "?find = Some k"
    using find_None_iff [of "\<lambda>t. t_ctl (timers s ! t) AND inuse = 0" "rev [0..<OPT_BL_NUMBER_TIMERS]"] by (cases ?find) auto
  then have "k < 7"
    using find_in [OF k] unfolding OPT_BL_NUMBER_TIMERS_def set_rev set_upt by simp
  then have "(word_of_nat k :: u8) \<noteq> - 1"
    using unat_of_nat [of k, where ?'a = 8] by (auto simp: word_unat_eq_iff unsigned_minus_1_eq_mask mask_eq_exp_minus_1)
  then show ?thesis
    unfolding timer_allocate_def k by simp
qed

interpretation data: node_ticks "\<lambda>s. node_data s = k" "{}" for k
  by unfold_locales (auto simp: node_core_simp set_timer_def)

lemma receive_answer:
  assumes "rx_in s = polls # rest" and "answered gs pt dsdl xs polls" and "dsdl \<noteq> DSDLMsgLogMessage" and "xs \<noteq> []"
    and "addressed dsdl gs pt (g_node s) p" and "length xs \<le> in_len" and "in_len \<le> length buf" and "in_len < 2 ^ 32"
    and "used us s" and "length us = 7" and "i < 7" and "\<not> us ! i"
  shows "\<exists>p' s'. receive b dsdl p buf in_len UavcanServiceTimeOutMs s = Done (UavcanOk, p', xs @ drop (length xs) buf, length xs) s' \<and>
     used us s' \<and> node_data s' = node_data (s\<lparr>rx_in := rest\<rparr>)"
proof -
  let ?s = "s\<lparr>rx_in := rest\<rparr>"
  have used: "used us ?s" using assms(9) by (simp add: used_def)
  obtain pt' frames where sent: "uavcan_tx_dsdl (\<lambda>_ _ _. 0) gs dsdl pt xs (replicate 8 0) [] = (UavcanOk, pt', [] @ frames)"
    using tx_dsdl_sent [of "\<lambda>_ _ _. 0" gs dsdl pt xs "replicate 8 0" "[]"]
    by (cases "uavcan_tx_dsdl (\<lambda>_ _ _. 0) gs dsdl pt xs (replicate 8 0) []") auto
  have "list_all2 carries frames (polled polls)" "sum_list (map snd polls) < unat UavcanServiceTimeOutMs"
    using assms(2) sent by (simp_all add: answered_def answer_frames_def)
  from transfer_arrives [OF sent assms(4) _ assms(3,5) this assms(6-8), of ?s "callouts b"]
  obtain st where st: "uavcan_rx_dsdl (callouts b) (g_node s) dsdl p buf in_len UavcanServiceTimeOutMs polls ?s = Returned UavcanOk st"
      "in_out_length st = length xs" "transfer st = xs @ drop (length xs) buf"
    using used_length [OF used] timer_available [OF used assms(10-12)] assms(10) callouts_keep_callouts by auto
  have "used us (bl_of st)"
    using rx_dsdl_used [OF used assms(10), of polls "callouts b" "g_node s" dsdl p buf in_len UavcanServiceTimeOutMs] calm_callouts st(1) by simp
  moreover have "node_data (bl_of st) = node_data ?s"
    using data.bus.rx_dsdl_fact [of ?s "node_data ?s" b "g_node s" dsdl p buf in_len UavcanServiceTimeOutMs polls] st(1) by simp
  ultimately show ?thesis
    using assms(1) st by (simp add: receive_def)
qed

section \<open>The file server\<close>

text \<open>A server \<open>gs\<close> that answers the node with the protocol structure \<open>pt\<close>, and a free timer for the receiver.\<close>

definition served :: "bool list \<Rightarrow> uavcan_node \<Rightarrow> uavcan_protocol \<Rightarrow> can_node \<Rightarrow> bool" where
  "served us gs pt s \<longleftrightarrow> used us s \<and> length us = 7 \<and> False \<in> set us \<and> source_node_id (can_id pt) = ucast (g_this_node_id (g_node s)) \<and>
     g_this_node_id gs = g_server_node_id s \<and> g_server_node_id s < 128"

lemma source_set_source: "v < 128 \<Longrightarrow> source_node_id (set_source_node_id (ucast (v :: u8)) w) = ucast v"
proof -
  assume "v < 128"
  then have "v = take_bit 7 v"
    by (simp add: word_unat_eq_iff word_less_nat_alt take_bit_eq_mod unat_mod)
  then have *: "bit v k \<Longrightarrow> k < 7" for k
    by (metis bit_take_bit_iff)
  show ?thesis
    by (rule bit_word_eqI) (auto simp: source_node_id_def set_source_node_id_def fld_get_def bit_simps dest: * bit_imp_le_length)
qed

lemma addressed_server: "served us gs pt s \<Longrightarrow> addressed dsdl gs pt (g_node s) (to_server s p)"
  by (simp add: addressed_def served_def to_server_def source_set_source)

lemma served_core: "served us gs pt s \<Longrightarrow> used us s' \<Longrightarrow> g_node s' = g_node s \<Longrightarrow> g_server_node_id s' = g_server_node_id s \<Longrightarrow> served us gs pt s'"
  by (simp add: served_def)

lemma served_same: "served us gs pt s \<Longrightarrow> node_core s' = node_core s \<Longrightarrow> served us gs pt s'"
  using used_node [of s' s us] by (simp add: served_def node_core_simp)

lemma receive_served:
  assumes "served us gs pt s" and "rx_in s = polls # rest" and "answered gs pt dsdl xs polls" and "dsdl \<noteq> DSDLMsgLogMessage" and "xs \<noteq> []"
    and "length xs \<le> in_len" and "in_len \<le> length buf" and "in_len < 2 ^ 32"
  shows "\<exists>p' s'. receive b dsdl (to_server s p) buf in_len UavcanServiceTimeOutMs s =
      Done (UavcanOk, p', xs @ drop (length xs) buf, length xs) s' \<and> served us gs pt s' \<and> node_data s' = node_data (s\<lparr>rx_in := rest\<rparr>)"
proof -
  have us: "used us s" "length us = 7" using assms(1) by (simp_all add: served_def)
  obtain i where i: "i < 7" "\<not> us ! i"
    using assms(1) by (auto simp: served_def in_set_conv_nth)
  from receive_answer [OF assms(2-5) addressed_server [OF assms(1)] assms(6-8) us i, of b p]
  show ?thesis
    using served_core [OF assms(1)] by (auto simp: node_data_def)
qed

lemma send_buffer_taken:
  assumes "\<And>fs f mb. can_tx b fs f mb = 0" and "len \<le> length buf"
  shows "\<exists>p' s'. send_buffer b dsdl p buf len s = Done (UavcanOk, p') s' \<and> node_core s' = node_core s"
proof -
  obtain status p' fs where tx: "uavcan_tx_dsdl (can_tx b) (g_node s) dsdl p (take len buf) (junk b 0 CanPayloadLength) (bus s) = (status, p', fs)"
    using prod_cases3 by blast
  then have "status = UavcanOk"
    using tx_dsdl_sent [of "can_tx b", OF assms(1), of "g_node s" dsdl p "take len buf" "junk b 0 CanPayloadLength" "bus s"] by simp
  then have "send b dsdl p (take len buf) s = (UavcanOk, p', s\<lparr>bus := fs\<rparr>)"
    unfolding send_def tx by simp
  from node_core_send [OF this] this show ?thesis
    using assms(2) by (simp add: send_buffer_def)
qed

text \<open>A read that is answered at once.\<close>

lemma read_chunk:
  assumes "served us gs pt s" and "rx_in s = polls # rest" and "answered gs pt DSDLRspRead ([0, 0] @ chunk) polls"
    and "chunk \<noteq> []" and "length chunk \<le> 256" and "length response = 258" and "len \<le> length request"
    and tx: "\<And>fs f mb. can_tx b fs f mb = 0"
  shows "\<exists>p' s'. read_attempts b request len UavcanServiceRetries p response s =
      Done (Some (length chunk), p', [0, 0] @ chunk @ drop (2 + length chunk) response) s' \<and>
      served us gs pt s' \<and> node_data s' = node_data (s\<lparr>rx_in := rest\<rparr>)"
proof -
  obtain p1 s1 where s1: "send_buffer b DSDLReqRead (to_server s p) request len s = Done (UavcanOk, p1) s1" "node_core s1 = node_core s"
    using send_buffer_taken [OF tx assms(7)] by blast
  have "served us gs pt s1" "rx_in s1 = polls # rest"
    using served_same [OF assms(1) s1(2)] s1(2) assms(2) by (simp_all add: node_core_simp)
  from receive_served [OF this assms(3), of 258 response b p1] assms(5,6)
  obtain p2 s2 where "receive b DSDLRspRead (to_server s1 p1) response 258 UavcanServiceTimeOutMs s1 =
      Done (UavcanOk, p2, [0, 0] @ chunk @ drop (2 + length chunk) response, 2 + length chunk) s2"
      "served us gs pt s2" "node_data s2 = node_data (s1\<lparr>rx_in := rest\<rparr>)"
    by auto
  moreover have "node_data (s1\<lparr>rx_in := rest\<rparr>) = node_data (s\<lparr>rx_in := rest\<rparr>)"
    using s1(2) by (simp add: node_core_simp)
  ultimately show ?thesis
    using s1(1) assms(4) by (simp add: numeral_3_eq_3 Let_def)
qed

section \<open>The flash driver\<close>

text \<open>
  The documented behaviour of the driver: programming erased bytes succeeds and stores them, erasing a page succeeds
  and sets its bytes, and the pages of the application follow those of the bootloader.
\<close>

definition flash_driver :: "'b app_area_scheme \<Rightarrow> bool" where
  "flash_driver b \<longleftrightarrow> (let first = progmem_getpage b (APPLICATION_LOAD_ADDRESS b);
       final = progmem_getpage b (APPLICATION_LOAD_ADDRESS b + APPLICATION_SIZE b - 4) in
     (\<forall>a data m. (\<forall>i<length data. m (unat a + i) = 0xff) \<longrightarrow> progmem_write b a data m = (int (length data), wr_bytes (unat a) data m)) \<and>
     (\<forall>p m. first \<le> p \<and> p \<le> final \<longrightarrow> fst (progmem_eraseblock b p m) > 0 \<and>
        snd (progmem_eraseblock b p m) = (\<lambda>a. if a < 2 ^ 32 \<and> progmem_getpage b (word_of_nat a) = p then 0xff else m a)) \<and>
     0 \<le> progmem_getpage b (APPLICATION_LOAD_ADDRESS b - 1) \<and> progmem_getpage b (APPLICATION_LOAD_ADDRESS b - 1) < first \<and>
     (\<forall>a. unat (APPLICATION_LOAD_ADDRESS b) \<le> a \<and> a < unat (APPLICATION_LOAD_ADDRESS b) + unat (APPLICATION_SIZE b) \<longrightarrow>
        first \<le> progmem_getpage b (word_of_nat a) \<and> progmem_getpage b (word_of_nat a) \<le> final))"

definition app_erased :: "'b app_area_scheme \<Rightarrow> flash_bytes \<Rightarrow> bool" where
  "app_erased b m \<longleftrightarrow> (\<forall>a. unat (APPLICATION_LOAD_ADDRESS b) \<le> a \<and> a < unat (APPLICATION_LOAD_ADDRESS b) + unat (APPLICATION_SIZE b) \<longrightarrow> m a = 0xff)"

lemma bl_flash_write_erased:
  assumes "area_ok b" and "flash_driver b" and "off + length xs < unat (APPLICATION_SIZE b)"
    and "\<And>i. i < length xs \<Longrightarrow> m (unat (APPLICATION_LOAD_ADDRESS b) + off + i) = 0xff"
  shows "bl_flash_write b (APPLICATION_LOAD_ADDRESS b + word_of_nat off) xs m = (FLASH_OK, wr_bytes (unat (APPLICATION_LOAD_ADDRESS b) + off) xs m)"
proof -
  let ?load = "APPLICATION_LOAD_ADDRESS b" and ?size = "APPLICATION_SIZE b"
  have b: "unat ?load + unat ?size + 64 \<le> 2 ^ 31" using assms(1) by (simp add: area_ok_def)
  have at: "unat (?load + word_of_nat off) = unat ?load + off"
    using b assms(3) by (simp add: unat_word_ariths(1) unat_of_nat)
  have "unat (?load + word_of_nat off + word_of_nat (length xs)) = unat ?load + off + length xs"
    using b assms(3) at by (simp add: unat_word_ariths(1) unat_of_nat)
  moreover have "unat (?load + ?size - 1) = unat ?load + unat ?size - 1"
    using b assms(3) by (simp add: unat_sub word_le_nat_alt unat_word_ariths(1))
  ultimately have "?load + word_of_nat off \<ge> ?load \<and> ?load + word_of_nat off + word_of_nat (length xs) \<le> APPLICATION_LAST_8BIT_ADDRRESS b"
    using at assms(3) by (simp add: word_le_nat_alt APPLICATION_LAST_8BIT_ADDRRESS_def)
  moreover have "progmem_write b (?load + word_of_nat off) xs m = (int (length xs), wr_bytes (unat ?load + off) xs m)"
    using assms(2,4) at by (simp add: flash_driver_def Let_def)
  ultimately show ?thesis
    by (simp add: bl_flash_write_def)
qed

lemma flash_driver_erases:
  assumes "flash_driver b" and "progmem_getpage b (APPLICATION_LOAD_ADDRESS b) \<le> p"
    and "p \<le> progmem_getpage b (APPLICATION_LOAD_ADDRESS b + APPLICATION_SIZE b - 4)"
  shows "fst (progmem_eraseblock b p m) > 0 \<and>
     snd (progmem_eraseblock b p m) = (\<lambda>a. if a < 2 ^ 32 \<and> progmem_getpage b (word_of_nat a) = p then 0xff else m a)"
  using assms unfolding flash_driver_def Let_def by blast

lemma erase_pages_done:
  assumes "flash_driver b" and "final = progmem_getpage b (APPLICATION_LOAD_ADDRESS b + APPLICATION_SIZE b - 4)"
    and "progmem_getpage b (APPLICATION_LOAD_ADDRESS b) \<le> p"
  shows "\<exists>s'. erase_pages b yield p final m s =
    (FLASH_OK, \<lambda>a. if a < 2 ^ 32 \<and> p \<le> progmem_getpage b (word_of_nat a) \<and> progmem_getpage b (word_of_nat a) \<le> final then 0xff else m a, s')"
  using assms
proof (induction b yield p final m s rule: erase_pages.induct)
  case (1 b yield p final m s)
  obtain n m1 where m1: "progmem_eraseblock b p m = (n, m1)" by force
  show ?case
  proof (cases "p \<le> final")
    case True
    then have n: "n > 0" "m1 = (\<lambda>a. if a < 2 ^ 32 \<and> progmem_getpage b (word_of_nat a) = p then 0xff else m a)"
      using flash_driver_erases [OF 1(2,4), of m] True 1(3) m1 by simp_all
    from 1(1) [OF True m1 [symmetric] _ 1(2,3)] 1(4) n(1)
    obtain s' where s': "erase_pages b yield (p + 1) final m1 (yield s) = (FLASH_OK,
        \<lambda>a. if a < 2 ^ 32 \<and> p + 1 \<le> progmem_getpage b (word_of_nat a) \<and> progmem_getpage b (word_of_nat a) \<le> final then 0xff else m1 a, s')"
      by auto
    moreover have "(\<lambda>a. if a < 2 ^ 32 \<and> p + 1 \<le> progmem_getpage b (word_of_nat a) \<and> progmem_getpage b (word_of_nat a) \<le> final then 0xff else m1 a) =
        (\<lambda>a. if a < 2 ^ 32 \<and> p \<le> progmem_getpage b (word_of_nat a) \<and> progmem_getpage b (word_of_nat a) \<le> final then 0xff else m a)"
      using True by (auto simp: n(2) fun_eq_iff)
    moreover have "erase_pages b yield p final m s = erase_pages b yield (p + 1) final m1 (yield s)"
      using True n(1) by (subst erase_pages.simps) (simp add: m1)
    ultimately show ?thesis by simp
  next
    case False
    then show ?thesis
      by (subst erase_pages.simps) (auto simp: fun_eq_iff)
  qed
qed

lemma erase_application_done:
  assumes "area_ok b" and "flash_driver b"
  shows "\<exists>s'. erase_application b s = (FLASH_OK, s') \<and> app_erased b (flash_mem s') \<and> node_core (s'\<lparr>flash_mem := flash_mem s\<rparr>) = node_core s"
proof -
  let ?load = "APPLICATION_LOAD_ADDRESS b" and ?size = "APPLICATION_SIZE b"
  let ?page = "\<lambda>a. progmem_getpage b (word_of_nat a)"
  have size: "unat ?load + unat ?size + 64 \<le> 2 ^ 31" "64 \<le> unat ?size" using assms(1) by (simp_all add: area_ok_def)
  obtain s1 where s1: "erase_pages b (bl_sched_yield b) (progmem_getpage b ?load) (progmem_getpage b (?load + ?size - 4)) (flash_mem s) s =
      (FLASH_OK, \<lambda>a. if a < 2 ^ 32 \<and> progmem_getpage b ?load \<le> ?page a \<and> ?page a \<le> progmem_getpage b (?load + ?size - 4)
        then 0xff else flash_mem s a, s1)"
    using erase_pages_done [OF assms(2) refl order_refl, of "bl_sched_yield b" "flash_mem s" s] by blast
  have pages: "0 \<le> progmem_getpage b (?load - 1)" "progmem_getpage b (?load - 1) < progmem_getpage b ?load"
      "\<And>a. unat ?load \<le> a \<and> a < unat ?load + unat ?size \<Longrightarrow>
        progmem_getpage b ?load \<le> ?page a \<and> ?page a \<le> progmem_getpage b (?load + ?size - 4)"
    using assms(2) by (simp_all add: flash_driver_def Let_def)
  have "progmem_getpage b ?load \<le> progmem_getpage b (?load + ?size - 4)"
    using pages(3) [of "unat ?load"] size(2) by simp
  then have erase: "erase_application b s = (FLASH_OK, s1\<lparr>flash_mem := \<lambda>a. if a < 2 ^ 32 \<and> progmem_getpage b ?load \<le> ?page a \<and>
      ?page a \<le> progmem_getpage b (?load + ?size - 4) then 0xff else flash_mem s a\<rparr>)"
    using pages(1,2) s1 by (simp add: erase_application_def bl_flash_erase_def Let_def)
  show ?thesis
    using erase erase_application_core [OF erase] pages(3) size(1) by (auto simp: app_erased_def)
qed

section \<open>Programming the file\<close>

text \<open>The flash when the file has been programmed up to an offset, without its first words, and these words.\<close>

definition programmed_part :: "'b app_area_scheme \<Rightarrow> u8 list \<Rightarrow> nat \<Rightarrow> flash_bytes \<Rightarrow> flash_bytes" where
  "programmed_part b file off m = (\<lambda>a. if unat (APPLICATION_LOAD_ADDRESS b) + 4 * LATER_FLAHSED_WORDS b \<le> a \<and>
     a < unat (APPLICATION_LOAD_ADDRESS b) + off then file ! (a - unat (APPLICATION_LOAD_ADDRESS b)) else m a)"

definition first_words :: "'b app_area_scheme \<Rightarrow> u8 list \<Rightarrow> u32 list" where
  "first_words b file = map (\<lambda>i. rd32 ((!) file) (4 * i)) [0..<LATER_FLAHSED_WORDS b]"

text \<open>What one round writes for a chunk of the file, and what it keeps of the first words.\<close>

lemma save_first_words_chunk:
  fixes off :: nat
  assumes "LATER_FLAHSED_WORDS b \<in> {1, 2}" and "chunk = take 256 (drop off file)" and "off < length file" and "8 \<le> length file" and "length old = 256 - length chunk"
    and "off < 2 ^ 32"
    and "xs = (if length chunk mod 2 = 1 then (chunk @ old)[length chunk := 0xff] else chunk @ old)"
    and "save_first_words b (word_of_nat off) xs s = (ys, s')"
  shows "length ys = 256" and "off = 0 \<Longrightarrow> s' = s\<lparr>b_fw_word0 := first_words b file\<rparr>" and "off \<noteq> 0 \<Longrightarrow> s' = s"
    and "i < length chunk + length chunk mod 2 \<Longrightarrow> ys ! i =
      (if i = length chunk \<or> off = 0 \<and> i < 4 * LATER_FLAHSED_WORDS b then 0xff else file ! (off + i))"
proof -
  have len: "length chunk = min 256 (length file - off)" "length chunk \<le> 256" using assms(2) by auto
  have xs: "length xs = 256" using assms(5,7) len by simp
  have even: "length chunk < 256" if "length chunk mod 2 = 1"
    using that len(2) by (cases "length chunk = 256") auto
  have nth: "xs ! i = file ! (off + i)" if "i < length chunk" for i
  proof -
    have "xs ! i = chunk ! i"
      using that assms(7) by (simp add: nth_append)
    then show ?thesis
      using that assms(2,3) by simp
  qed
  have zero: "word_of_nat off = (0 :: u32) \<longleftrightarrow> off = 0"
    using assms(6) unat_of_nat [of off, where ?'a = 32] by (auto simp: word_unat_eq_iff)
  have ys: "ys = (if off = 0 then replicate (4 * LATER_FLAHSED_WORDS b) 0xff @ drop (4 * LATER_FLAHSED_WORDS b) xs else xs)"
    and s': "s' = (if off = 0 then s\<lparr>b_fw_word0 := map (\<lambda>i. rd32 ((!) xs) (4 * i)) [0..<LATER_FLAHSED_WORDS b]\<rparr> else s)"
    using assms(8) by (auto simp: save_first_words_def zero split: if_splits)
  show "length ys = 256"
    using xs assms(1) by (auto simp: ys)
  have "rd32 ((!) xs) (4 * i) = rd32 ((!) file) (4 * i)" if "i < LATER_FLAHSED_WORDS b" "off = 0" for i
    by (rule rd32_cong) (use that nth len assms(1,4) in auto)
  then show "off = 0 \<Longrightarrow> s' = s\<lparr>b_fw_word0 := first_words b file\<rparr>" "off \<noteq> 0 \<Longrightarrow> s' = s"
    by (simp_all add: s' first_words_def cong: map_cong)
  show "ys ! i = (if i = length chunk \<or> off = 0 \<and> i < 4 * LATER_FLAHSED_WORDS b then 0xff else file ! (off + i))"
    if "i < length chunk + length chunk mod 2"
  proof (cases "i < length chunk")
    case True
    then show ?thesis
      using nth [OF True] xs len assms(1) by (auto simp: ys nth_append)
  next
    case False
    then have "i = length chunk" "length chunk mod 2 = 1" using that by auto
    then have "xs ! i = 0xff" "i < 256" using assms(5,7) even len by auto
    then show ?thesis
      using \<open>i = length chunk\<close> xs len assms(1,4) by (auto simp: ys nth_append)
  qed
qed

text \<open>The bytes that a round writes continue the programmed part.\<close>

lemma programmed_part_next:
  assumes "app_erased b m" and "off = 0 \<or> 8 \<le> off" and "LATER_FLAHSED_WORDS b \<in> {1, 2}" and "len \<le> length file - off" and "off < length file"
    and "off + length zs \<le> unat (APPLICATION_SIZE b)" and "length zs = len + len mod 2"
    and "\<And>i. i < length zs \<Longrightarrow> zs ! i = (if i = len \<or> off = 0 \<and> i < 4 * LATER_FLAHSED_WORDS b then 0xff else file ! (off + i))"
  shows "wr_bytes (unat (APPLICATION_LOAD_ADDRESS b) + off) zs (programmed_part b file off m) = programmed_part b file (off + len) m"
proof
  fix a
  define start where "start = unat (APPLICATION_LOAD_ADDRESS b)"
  have erased: "m x = 0xff" if "start \<le> x" "x < start + unat (APPLICATION_SIZE b)" for x
    using assms(1) that by (simp add: app_erased_def start_def)
  show "wr_bytes (unat (APPLICATION_LOAD_ADDRESS b) + off) zs (programmed_part b file off m) a = programmed_part b file (off + len) m a"
  proof (cases "start + off \<le> a \<and> a < start + off + length zs")
    case True
    define i where "i = a - (start + off)"
    have i: "a = start + off + i" "i < length zs" "m a = 0xff"
      using True assms(6) erased [of a] by (auto simp: i_def)
    then show ?thesis
      using assms(2,3,7,8) by (auto simp: wr_bytes_def programmed_part_def start_def [symmetric] add.assoc)
  next
    case False
    then show ?thesis
      using assms(7) by (auto simp: wr_bytes_def programmed_part_def start_def [symmetric])
  qed
qed

lemma programmed_part_erased:
  "app_erased b m \<Longrightarrow> off + i < unat (APPLICATION_SIZE b) \<Longrightarrow> programmed_part b file off m (unat (APPLICATION_LOAD_ADDRESS b) + off + i) = 0xff"
  by (simp add: programmed_part_def app_erased_def)

text \<open>What a round does with the data of a chunk once they are read.\<close>

lemma chunk_written:
  assumes "area_ok b" and "flash_driver b" and chunk: "chunk = take 256 (drop off file)" and off: "off < length file" "off = 0 \<or> 8 \<le> off"
    and len: "8 \<le> length file" "length file + 2 \<le> unat (APPLICATION_SIZE b)" and "length old = 256 - length chunk" and "app_erased b m"
    and "flash_mem s = programmed_part b file off m" and "off \<noteq> 0 \<Longrightarrow> b_fw_word0 s = first_words b file" and n: "n = length chunk"
    and xs: "xs = (if n mod 2 = 1 then (chunk @ old)[n := 0xff] else chunk @ old)"
  shows "\<exists>ys s1. save_first_words b (word_of_nat off) xs s = (ys, s1) \<and> length ys = 256 \<and>
     write_flash b (APPLICATION_LOAD_ADDRESS b + word_of_nat off) (take (n + n mod 2) ys) s1 =
       (FLASH_OK, s\<lparr>b_fw_word0 := first_words b file, flash_mem := programmed_part b file (off + n) m\<rparr>)"
proof -
  have later: "LATER_FLAHSED_WORDS b \<in> {1, 2}" and size: "off < 2 ^ 32"
    using assms(1) len(2) off(1) by (auto simp: area_ok_def)
  obtain ys s1 where s1: "save_first_words b (word_of_nat off) xs s = (ys, s1)" by force
  note saved = save_first_words_chunk [OF later chunk off(1) len(1) assms(8) size xs [unfolded n] s1]
  have s1': "s1 = s\<lparr>b_fw_word0 := first_words b file\<rparr>"
    using saved(2,3) assms(11) by (cases "off = 0") simp_all
  define zs where "zs = take (n + n mod 2) ys"
  have n': "n = min 256 (length file - off)" using n chunk by simp
  then have "n + n mod 2 \<le> 256" by (cases "n = 256") auto
  then have zs: "length zs = n + n mod 2" "\<And>i. i < length zs \<Longrightarrow> zs ! i =
      (if i = n \<or> off = 0 \<and> i < 4 * LATER_FLAHSED_WORDS b then 0xff else file ! (off + i))"
    using saved(1,4) by (simp_all add: zs_def n)
  have "off + n \<le> length file" "n mod 2 < 2" using n' off(1) by simp_all
  then have fits: "off + length zs < unat (APPLICATION_SIZE b)" using len(2) zs(1) by linarith
  have "write_flash b (APPLICATION_LOAD_ADDRESS b + word_of_nat off) zs s1 = (FLASH_OK, s1\<lparr>flash_mem := programmed_part b file (off + n) m\<rparr>)"
    using bl_flash_write_erased [OF assms(1,2) fits, of "programmed_part b file off m"] programmed_part_erased [OF assms(9)] fits
      programmed_part_next [OF assms(9) off(2) later _ off(1) _ zs(1,2)] n'
    by (simp add: write_flash_def assms(10) s1')
  then show ?thesis
    using s1 saved(1) by (simp add: zs_def s1')
qed

text \<open>The test at the end of a round.\<close>

lemma round_test:
  fixes g :: "flash_error_t \<Rightarrow> 'a run"
  assumes "100 \<le> len" and "len < 2 ^ 32" and "off < len" and n: "n = min 256 (len - off)"
  shows "(if word_of_nat len div 100 = (0 :: u32) then Crash
      else if word_of_nat (off + n) < (word_of_nat len :: u32) \<and> n = PayloadLengthReaddata \<and> FLASH_OK = FLASH_OK then f
      else g (if FLASH_OK = FLASH_OK \<and> word_of_nat (off + n) = (word_of_nat len :: u32) \<and> n \<noteq> 0 then FLASH_OK else FLASH_ERROR)) =
    (if off + 256 < len then f else g FLASH_OK)"
proof -
  have words: "unat (word_of_nat k :: u32) = k" if "k \<le> len" for k
    using that assms(2) by (simp add: unat_of_nat)
  have sum: "off + n \<le> len" using n assms(3) by simp
  have percent: "(word_of_nat len :: u32) div 100 \<noteq> 0"
    using assms(1) words [of len] by (simp add: word_unat_eq_iff unat_div)
  have less: "word_of_nat (off + n) < (word_of_nat len :: u32) \<longleftrightarrow> off + n < len"
    using words [OF sum] words [of len] by (simp add: word_less_nat_alt)
  show ?thesis
  proof (cases "off + n < len")
    case True
    then have "n = 256" using n by linarith
    then show ?thesis unfolding less using percent True by simp
  next
    case False
    then have "off + n = len" "n \<noteq> 0" "\<not> off + 256 < len" using sum n assms(3) by auto
    moreover from this(1) have "word_of_nat (off + n) = (word_of_nat len :: u32)" by simp
    ultimately show ?thesis unfolding less using percent by simp
  qed
qed

lemma program_round_chunk:
  assumes "area_ok b" and "flash_driver b" and tx: "\<And>fs f mb. can_tx b fs f mb = 0"
    and "served us gs pt s" and "rx_in s = polls # rest" and "answered gs pt DSDLRspRead ([0, 0] @ chunk) polls"
    and chunk: "chunk = take 256 (drop off file)" and off: "off < length file" "off = 0 \<or> 8 \<le> off"
    and len: "100 \<le> length file" "length file + 2 \<le> unat (APPLICATION_SIZE b)"
    and "length response = 258" and "unat path_len \<le> length path" and "app_erased b m"
    and "flash_mem s = programmed_part b file off m" and "off \<noteq> 0 \<Longrightarrow> b_fw_word0 s = first_words b file"
  shows "\<exists>p' response' s'. length response' = 258 \<and> served us gs pt s' \<and> rx_in s' = rest \<and> b_fw_word0 s' = first_words b file \<and>
     flash_mem s' = programmed_part b file (off + length chunk) m \<and>
     program_round b path path_len (word_of_nat (length file)) (word_of_nat off, p, response) s =
       Done (if off + 256 < length file then Inl (word_of_nat (off + 256), p', response') else Inr FLASH_OK) s'"
proof -
  define n where "n = length chunk"
  have n: "n = min 256 (length file - off)" "n \<le> 256" "chunk \<noteq> []"
    using chunk off by (auto simp: n_def)
  obtain p1 s1 where s1: "read_attempts b (read_request (word_of_nat off) path) (FixedSizeReadRequest + unat path_len) UavcanServiceRetries p response s =
      Done (Some n, p1, [0, 0] @ chunk @ drop (2 + n) response) s1" "served us gs pt s1" "node_data s1 = node_data (s\<lparr>rx_in := rest\<rparr>)"
    using read_chunk [OF assms(4-6) n(3) _ assms(12) _ tx, of "FixedSizeReadRequest + unat path_len" "read_request (word_of_nat off) path" p]
      n(2) assms(13) by (auto simp: n_def read_request_def)
  have d1: "flash_mem s1 = programmed_part b file off m" "rx_in s1 = rest" "b_fw_word0 s1 = b_fw_word0 s"
    using s1(3) assms(15) by (simp_all add: node_data_def)
  define xs where "xs = (if n mod 2 = 1 then (chunk @ drop (2 + n) response)[n := 0xff] else chunk @ drop (2 + n) response)"
  define s3 where "s3 = s1\<lparr>b_fw_word0 := first_words b file, flash_mem := programmed_part b file (off + n) m\<rparr>"
  have old: "length (drop (2 + n) response) = 256 - length chunk" using assms(12) n by (simp add: n_def)
  have "8 \<le> length file" using len(1) by simp
  from chunk_written [OF assms(1,2) chunk off this len(2) old assms(14) d1(1) _ n_def xs_def] d1(3) assms(16)
  obtain ys s2 where s2: "save_first_words b (word_of_nat off) xs s1 = (ys, s2)" "length ys = 256"
      and wr: "write_flash b (APPLICATION_LOAD_ADDRESS b + word_of_nat off) (take (n + n mod 2) ys) s2 = (FLASH_OK, s3)"
    by (auto simp: s3_def)
  have next_off: "word_of_nat off + word_of_nat n = (word_of_nat (off + n) :: u32)" by simp
  have drop2: "drop 2 ([0, 0] @ chunk @ drop (2 + n) response) = chunk @ drop (2 + n) response" by simp
  have size: "length file < 2 ^ 32" using len(2) assms(1) by (simp add: area_ok_def)
  have full: "off + 256 < length file \<Longrightarrow> n = 256" using n(1) by simp
  define s4 where "s4 = s3\<lparr>b_percentage_done := ucast (word_of_nat (off + n) div ((word_of_nat (length file) :: u32) div 100))\<rparr>"
  have "program_round b path path_len (word_of_nat (length file)) (word_of_nat off, p, response) s =
      Done (if off + 256 < length file then Inl (word_of_nat (off + 256), p1, [0, 0] @ ys) else Inr FLASH_OK) s4"
    unfolding program_round_def prod.case s1(1) and_then_simps option.case Let_def drop2 xs_def [symmetric] s2(1) wr next_off s4_def [symmetric]
    by (rule trans [OF round_test [OF len(1) size off(1) n(1), where g = "\<lambda>r. Done (Inr r) s4"]], cases "off + 256 < length file")
      (simp_all add: full)
  moreover have "served us gs pt s4" "rx_in s4 = rest" "b_fw_word0 s4 = first_words b file" "flash_mem s4 = programmed_part b file (off + length chunk) m"
    using s1(2) d1(2) by (simp_all add: s4_def s3_def n_def served_def used_def)
  ultimately show ?thesis
    using s2(2) by (intro exI [of _ p1] exI [of _ "[0, 0] @ ys"] exI [of _ s4]) simp
qed

text \<open>A file is read in chunks of 256 bytes; the last one may be shorter.\<close>

function file_chunks :: "u8 list \<Rightarrow> u8 list list" where
  "file_chunks xs = (if length xs \<le> 256 then [xs] else take 256 xs # file_chunks (drop 256 xs))"
  by pat_completeness auto
termination
  by (relation "measure length") auto

declare file_chunks.simps [simp del]

lemma program_loop:
  assumes "area_ok b" and "flash_driver b" and tx: "\<And>fs f mb. can_tx b fs f mb = 0"
    and len: "100 \<le> length file" "length file + 2 \<le> unat (APPLICATION_SIZE b)"
    and "unat path_len \<le> length path" and "app_erased b m"
  shows "served us gs pt s \<Longrightarrow> rx_in s = pss @ rest \<Longrightarrow>
    list_all2 (\<lambda>chunk. answered gs pt DSDLRspRead ([0, 0] @ chunk)) (file_chunks (drop off file)) pss \<Longrightarrow>
    off < length file \<Longrightarrow> off = 0 \<or> 8 \<le> off \<Longrightarrow> length response = 258 \<Longrightarrow>
    flash_mem s = programmed_part b file off m \<Longrightarrow> (off \<noteq> 0 \<Longrightarrow> b_fw_word0 s = first_words b file) \<Longrightarrow>
    \<exists>s'. loop (program_round b path path_len (word_of_nat (length file))) (word_of_nat off, p, response) s = Done FLASH_OK s' \<and>
      flash_mem s' = programmed_part b file (length file) m \<and> b_fw_word0 s' = first_words b file"
proof (induction "length file - off" arbitrary: off s p response pss rule: less_induct)
  case less
  define chunk where "chunk = take 256 (drop off file)"
  define more where "more = (if off + 256 < length file then file_chunks (drop (off + 256) file) else [])"
  have chunks: "file_chunks (drop off file) = chunk # more"
    using less(5) by (subst file_chunks.simps) (auto simp: chunk_def more_def add.commute)
  obtain polls pss' where pss: "pss = polls # pss'" and polls: "answered gs pt DSDLRspRead ([0, 0] @ chunk) polls"
      and rest: "list_all2 (\<lambda>chunk. answered gs pt DSDLRspRead ([0, 0] @ chunk)) more pss'"
    using less(4) unfolding chunks by (auto simp: list_all2_Cons1)
  have "rx_in s = polls # (pss' @ rest)" using less(3) pss by simp
  from program_round_chunk [OF assms(1-3) less(2) this polls chunk_def less(5,6) len less(7) assms(6,7) less(8,9), of p]
  obtain p' response' s' where r: "length response' = 258" "served us gs pt s'" "rx_in s' = pss' @ rest" "b_fw_word0 s' = first_words b file"
      "flash_mem s' = programmed_part b file (off + length chunk) m"
      "program_round b path path_len (word_of_nat (length file)) (word_of_nat off, p, response) s =
         Done (if off + 256 < length file then Inl (word_of_nat (off + 256), p', response') else Inr FLASH_OK) s'"
    by auto
  show ?case
  proof (cases "off + 256 < length file")
    case True
    then have "length chunk = 256" "length file - (off + 256) < length file - off" by (simp_all add: chunk_def)
    with less(1) [OF _ r(2,3) _ True _ r(1), of p'] True r(4,5) rest
    obtain s2 where "loop (program_round b path path_len (word_of_nat (length file))) (word_of_nat (off + 256), p', response') s' = Done FLASH_OK s2"
        "flash_mem s2 = programmed_part b file (length file) m" "b_fw_word0 s2 = first_words b file"
      by (auto simp: more_def)
    then show ?thesis
      using True r(6) by (subst loop_unfold [OF program_round_consumes]) simp
  next
    case False
    then have "off + length chunk = length file" using less(5) by (simp add: chunk_def)
    then show ?thesis
      using False r(4-6) by (subst loop_unfold [OF program_round_consumes]) simp
  qed
qed

lemma file_programmed:
  assumes "area_ok b" and "flash_driver b" and "\<And>fs f mb. can_tx b fs f mb = 0"
    and "100 \<le> length file" "length file + 2 \<le> unat (APPLICATION_SIZE b)"
    and "unat path_len \<le> length path" and "app_erased b (flash_mem s)" and "served us gs pt s" and "rx_in s = pss @ rest"
    and "list_all2 (\<lambda>chunk. answered gs pt DSDLRspRead ([0, 0] @ chunk)) (file_chunks file) pss"
  shows "\<exists>s'. file_read_and_program b path path_len (word_of_nat (length file)) s = Done FLASH_OK s' \<and>
    flash_mem s' = programmed_part b file (length file) (flash_mem s) \<and> b_fw_word0 s' = first_words b file"
proof -
  let ?s = "s\<lparr>b_percentage_done := 0\<rparr>"
  have "served us gs pt ?s" using served_same [OF assms(8)] by simp
  moreover have "flash_mem ?s = programmed_part b file 0 (flash_mem s)" by (auto simp: programmed_part_def fun_eq_iff)
  moreover have "file \<noteq> []" using assms(4) by auto
  ultimately show ?thesis
    using program_loop [OF assms(1-7), of us gs pt ?s pss rest 0 "replicate 258 0" "\<lparr>can_id = rd32 (uninit b 15) 0, tail = 0\<rparr>"] assms(4,9,10)
    by (auto simp: file_read_and_program_def)
qed

section \<open>The new application\<close>

text \<open>The answer to the question for the file: its size, no error, and the kind of the entry.\<close>

definition file_info :: "u32 \<Rightarrow> u8 \<Rightarrow> u8 list" where
  "file_info sz flags = le_bytes32 sz @ [0, 0, 0, flags]"

lemma getinfo_answered:
  assumes tx: "\<And>fs f mb. can_tx b fs f mb = 0" and "served us gs pt s" and "rx_in s = polls # rest"
    and "answered gs pt DSDLRspGetInfo (file_info sz flags) polls" and "path_len \<le> length path" and "length path < 2 ^ 32"
    and "flags AND (ENTRY_TYPE_FLAG_FILE OR ENTRY_TYPE_FLAG_READABLE) \<noteq> 0" and "0 < sz" and "sz < APPLICATION_SIZE b"
  shows "\<exists>s'. file_getinfo b path path_len s = Done sz s' \<and> served us gs pt s' \<and> node_data s' = node_data (s\<lparr>rx_in := rest\<rparr>)"
proof -
  define p where "p = \<lparr>can_id = rd32 (uninit b 13) 0, tail = 0\<rparr>"
  have len: "(FixedSizeGetInfoRequest + path_len) mod 2 ^ 32 = path_len" using assms(5,6) by simp
  obtain p1 s1 where s1: "send_buffer b DSDLReqGetInfo (to_server s p) path path_len s = Done (UavcanOk, p1) s1" "node_core s1 = node_core s"
    using send_buffer_taken [OF tx assms(5)] by blast
  have "served us gs pt s1" "rx_in s1 = polls # rest"
    using served_same [OF assms(2) s1(2)] s1(2) assms(3) by (simp_all add: node_core_simp)
  from receive_served [OF this assms(4), of 8 "junk b 14 8" b p1]
  obtain p2 s2 where s2: "receive b DSDLRspGetInfo (to_server s1 p1) (junk b 14 8) 8 UavcanServiceTimeOutMs s1 =
      Done (UavcanOk, p2, file_info sz flags, 8) s2" "served us gs pt s2" "node_data s2 = node_data (s1\<lparr>rx_in := rest\<rparr>)"
    by (auto simp: file_info_def junk_def)
  have "rd_bytes ((!) (file_info sz flags)) 0 4 = le_bytes32 sz"
    by (rule nth_equalityI) (auto simp: rd_bytes_def file_info_def nth_append)
  then have size: "rd32 ((!) (file_info sz flags)) 0 = sz"
    by (rule rd32_written)
  have "file_info_ok b (file_info sz flags)"
    unfolding file_info_ok_def size using assms(7-9) by (simp add: rd16_def file_info_def nth_append)
  moreover have "node_data (s1\<lparr>rx_in := rest\<rparr>) = node_data (s\<lparr>rx_in := rest\<rparr>)"
    using s1(2) by (simp add: node_core_simp)
  ultimately show ?thesis
    using s2 s1(1) size by (simp add: file_getinfo_def numeral_3_eq_3 p_def [symmetric] len [simplified])
qed

text \<open>The flash once the first words are written, and before.\<close>

lemma concat_first_words:
  assumes "4 * LATER_FLAHSED_WORDS b \<le> length file"
  shows "concat (map le_bytes32 (first_words b file)) = take (4 * LATER_FLAHSED_WORDS b) file"
proof -
  have "concat (map le_bytes32 (first_words b file)) = rd_bytes ((!) file) 0 (4 * LATER_FLAHSED_WORDS b)"
    using concat_rd_bytes [of "(!) file" 0] by (simp add: first_words_def le_bytes32_rd32 comp_def)
  also have "\<dots> = take (4 * LATER_FLAHSED_WORDS b) file"
    using assms by (intro nth_equalityI) (auto simp: rd_bytes_def)
  finally show ?thesis .
qed

lemma committed_file:
  assumes "4 * LATER_FLAHSED_WORDS b \<le> length file"
    and "m' = wr_bytes (unat (APPLICATION_LOAD_ADDRESS b)) (take (4 * LATER_FLAHSED_WORDS b) file) (programmed_part b file (length file) m)"
  shows "rd_bytes m' (unat (APPLICATION_LOAD_ADDRESS b)) (length file) = file"
  using assms by (intro nth_equalityI) (auto simp: rd_bytes_def wr_bytes_def programmed_part_def)

lemma descriptor_programmed:
  assumes "area_ok b" and "app_erased b m" and "length file \<le> unat (APPLICATION_SIZE b)" and "n + 16 < length file" and "8 dvd n" and "0 < n"
    and "take 8 (drop n file) = APP_DESCRIPTOR_SIGNATURE"
    and "\<forall>k < n. 8 dvd k \<longrightarrow> take 8 (drop k file) \<noteq> APP_DESCRIPTOR_SIGNATURE"
  shows "find_descriptor b (programmed_part b file (length file) m) = Some (unat (APPLICATION_LOAD_ADDRESS b) + n)"
proof -
  define start where "start = unat (APPLICATION_LOAD_ADDRESS b)"
  let ?m = "programmed_part b file (length file) m"
  have later: "4 \<le> 4 * LATER_FLAHSED_WORDS b" "4 * LATER_FLAHSED_WORDS b \<le> 8"
    using assms(1) by (auto simp: area_ok_def)
  have part: "rd_bytes ?m (start + k) 8 = take 8 (drop k file)" if "8 \<le> k" "k + 8 \<le> length file" for k
    using that later by (intro nth_equalityI) (auto simp: rd_bytes_def programmed_part_def start_def [symmetric])
  have blank: "rd_bytes ?m start 8 \<noteq> APP_DESCRIPTOR_SIGNATURE"
  proof
    assume "rd_bytes ?m start 8 = APP_DESCRIPTOR_SIGNATURE"
    then have "?m start = 0x40"
      by (simp add: rd_bytes_def APP_DESCRIPTOR_SIGNATURE_def upt_rec)
    moreover have "?m start = 0xff"
      using assms(1,2) later by (simp add: programmed_part_def app_erased_def start_def area_ok_def)
    ultimately show False by simp
  qed
  have n8: "8 \<le> k" if "8 dvd k" "0 < k" for k :: nat using that by (rule dvd_imp_le)
  show ?thesis
    unfolding find_descriptor_def APPLICATION_LAST_64BIT_unat [OF assms(1)] start_def [symmetric]
  proof (rule scan_descriptor_at)
    show "rd_bytes ?m (start + n) 8 = APP_DESCRIPTOR_SIGNATURE"
      using part [of n] n8 [OF assms(5,6)] assms(4,7) by simp
    show "rd_bytes ?m k 8 \<noteq> APP_DESCRIPTOR_SIGNATURE" if "start \<le> k" "k < start + n" "8 dvd k - start" for k
      using that blank part [of "k - start"] n8 [of "k - start"] assms(4,8) by (cases "k = start") auto
  qed (use assms(3-5) in auto)
qed

lemma tool_signature:
  assumes "app_descriptor_offset contents = Some n" and "write_descriptor vcs_commit contents = Some file"
  shows "take 8 (drop n file) = APP_DESCRIPTOR_SIGNATURE" and "n + 36 \<le> length file"
proof -
  define pre where "pre = take n contents"
  obtain vcs rest where img: "file = pre @ APP_DESCRIPTOR_SIGNATURE @ le_bytes32 (crc32_signature 0 (pre @ APP_DESCRIPTOR_SIGNATURE)) @
      le_bytes32 (crc32_signature 0 rest) @ le_bytes32 (word_of_nat (length file)) @ le_bytes32 vcs @ rest" and rest: "12 \<le> length rest"
      "n + 36 \<le> length contents"
    using written_image [OF assms(2,1)] unfolding pre_def by blast
  have "length pre = n" "length APP_DESCRIPTOR_SIGNATURE = 8"
    using rest(2) by (simp_all add: pre_def APP_DESCRIPTOR_SIGNATURE_def)
  then show "take 8 (drop n file) = APP_DESCRIPTOR_SIGNATURE" "n + 36 \<le> length file"
    using rest(1) by (subst img, simp)+
qed

text \<open>The last steps of the update, from the check to the jump, on a file that the build tool has completed.\<close>

lemma new_image_accepted:
  assumes "area_ok b" and "app_erased b m" and "app_descriptor_offset contents = Some n" and "write_descriptor vcs_commit contents = Some file"
    and "8 dvd n" and "0 < n" and "\<forall>k < n. 8 dvd k \<longrightarrow> take 8 (drop k file) \<noteq> APP_DESCRIPTOR_SIGNATURE" and "take 4 file \<noteq> replicate 4 0xFF"
    and "length file \<le> unat (APPLICATION_SIZE b)" and part: "part = programmed_part b file (length file) m"
    and m': "m' = wr_bytes (unat (APPLICATION_LOAD_ADDRESS b)) (take (4 * LATER_FLAHSED_WORDS b) file) part"
  shows "is_app_valid b (first_words b file) part = (True, Some (unat (APPLICATION_LOAD_ADDRESS b) + n))"
    and "image_size m' (unat (APPLICATION_LOAD_ADDRESS b) + n) = word_of_nat (length file)"
    and "rd_bytes m' (unat (APPLICATION_LOAD_ADDRESS b)) (length file) = file"
    and "rd32 m' (unat (APPLICATION_LOAD_ADDRESS b)) \<noteq> 0xFFFFFFFF"
proof -
  let ?d = "unat (APPLICATION_LOAD_ADDRESS b) + n"
  note sig = tool_signature [OF assms(3,4)]
  have later: "4 * LATER_FLAHSED_WORDS b \<le> length file"
    using assms(1) sig(2) by (auto simp: area_ok_def)
  show holds_file: "rd_bytes m' (unat (APPLICATION_LOAD_ADDRESS b)) (length file) = file"
    by (rule committed_file [OF later m' [unfolded part]])
  from tool_image [OF assms(1,3,4) this assms(9,5,7,8)]
  have valid: "is_app_valid b (fw_words b m') m' = (True, Some ?d)" and size: "image_size m' ?d = word_of_nat (length file)"
    by simp_all
  show "image_size m' ?d = word_of_nat (length file)" by (rule size)
  from app_valid_verified [OF assms(1) valid] have ver: "image_verified b m' ?d" by auto
  then show "rd32 m' (unat (APPLICATION_LOAD_ADDRESS b)) \<noteq> 0xFFFFFFFF"
    by (simp add: image_verified_def Let_def)
  have find: "find_descriptor b part = Some ?d"
    unfolding part using sig assms(5-7) by (intro descriptor_programmed [OF assms(1,2,9)]) auto
  have "length (first_words b file) = LATER_FLAHSED_WORDS b" by (simp add: first_words_def)
  from is_app_valid_iff [OF assms(1) find this refl] ver show "is_app_valid b (first_words b file) part = (True, Some ?d)"
    by (simp add: concat_first_words [OF later] m')
qed

text \<open>What the update needs of the board and of the file.\<close>

definition can_update :: "can_board \<Rightarrow> u8 list \<Rightarrow> nat \<Rightarrow> bool" where
  "can_update b file n \<longleftrightarrow> area_ok b \<and> flash_driver b \<and> (\<forall>fs f mb. can_tx b fs f mb = 0) \<and>
     100 \<le> length file \<and> length file + 2 \<le> unat (APPLICATION_SIZE b) \<and> 8 dvd n \<and> 0 < n \<and>
     (\<forall>k < n. 8 dvd k \<longrightarrow> take 8 (drop k file) \<noteq> APP_DESCRIPTOR_SIGNATURE) \<and> take 4 file \<noteq> replicate 4 0xFF \<and>
     unat (APPLICATION_LOAD_ADDRESS b) < unat (rd32 ((!) file) 4) \<and>
     unat (rd32 ((!) file) 4) < unat (APPLICATION_LOAD_ADDRESS b) + length file"

lemma commit_first_words:
  assumes "area_ok b" and "flash_driver b" and "app_erased b m" and "8 \<le> length file" and "length file + 2 \<le> unat (APPLICATION_SIZE b)"
  shows "bl_flash_write b (APPLICATION_LOAD_ADDRESS b) (take (4 * LATER_FLAHSED_WORDS b) file) (programmed_part b file (length file) m) =
    (FLASH_OK, wr_bytes (unat (APPLICATION_LOAD_ADDRESS b)) (take (4 * LATER_FLAHSED_WORDS b) file) (programmed_part b file (length file) m))"
proof -
  let ?xs = "take (4 * LATER_FLAHSED_WORDS b) file"
  have len: "length ?xs = 4 * LATER_FLAHSED_WORDS b" "4 * LATER_FLAHSED_WORDS b \<le> 8"
    using assms(1,4) by (auto simp: area_ok_def)
  then show ?thesis
    using bl_flash_write_erased [OF assms(1,2), of 0 ?xs "programmed_part b file (length file) m"] assms(3-5)
    by (simp add: programmed_part_def app_erased_def)
qed

lemma boot_new_image:
  assumes "b_fw_image_descriptor s = Some d" and "area_ok b" and "image_size (flash_mem s) d = word_of_nat (length file)"
    and "rd_bytes (flash_mem s) (unat (APPLICATION_LOAD_ADDRESS b)) (length file) = file"
    and "rd32 (flash_mem s) (unat (APPLICATION_LOAD_ADDRESS b)) \<noteq> 0xFFFFFFFF"
    and "8 \<le> length file" and "length file + 2 \<le> unat (APPLICATION_SIZE b)"
    and "unat (APPLICATION_LOAD_ADDRESS b) < unat (rd32 ((!) file) 4)"
    and "unat (rd32 ((!) file) 4) < unat (APPLICATION_LOAD_ADDRESS b) + length file"
  shows "\<exists>s'. boot_application b stage common s = Done (Jump (rd32 ((!) file) 0) (rd32 ((!) file) 4)) s' \<and> flash_mem s' = flash_mem s"
proof -
  let ?load = "APPLICATION_LOAD_ADDRESS b"
  have at: "flash_mem s (unat ?load + i) = file ! i" if "i < length file" for i
    using arg_cong [OF assms(4), of "\<lambda>xs. xs ! i"] that by (simp add: rd_bytes_def)
  have word: "rd32 (flash_mem s) (unat ?load + k) = rd32 ((!) file) k" if "k + 4 \<le> length file" for k
  proof -
    have "rd_bytes (flash_mem s) (unat ?load + k) 4 = rd_bytes ((!) file) k 4"
      using that at by (intro nth_equalityI) (auto simp: rd_bytes_def add.assoc)
    then show ?thesis by (rule rd32_rd_bytes)
  qed
  have "unat (?load + word_of_nat (length file)) = unat ?load + length file"
    using assms(2,7) by (simp add: area_ok_def unat_word_ariths(1) unat_of_nat)
  then show ?thesis
    using assms(1,3,5,6,8,9) word [of 0] word [of 4]
    by (simp add: boot_application_def application_run_def Let_def board_indicate_def word_less_nat_alt)
qed

lemma program_update_done:
  assumes "can_update b file n" and "app_descriptor_offset contents = Some n" and "write_descriptor vcs_commit contents = Some file"
    and "unat (word_of_nat path_len :: u8) \<le> length path" and "served us gs pt s" and "rx_in s = pss @ rest"
    and "list_all2 (\<lambda>chunk. answered gs pt DSDLRspRead ([0, 0] @ chunk)) (file_chunks file) pss"
  shows "\<exists>s'. program_update b path path_len (word_of_nat (length file)) common s = Done (Jump (rd32 ((!) file) 0) (rd32 ((!) file) 4)) s' \<and>
     rd_bytes (flash_mem s') (unat (APPLICATION_LOAD_ADDRESS b)) (length file) = file"
proof -
  have u: "area_ok b" "flash_driver b" "\<And>fs f mb. can_tx b fs f mb = 0" "100 \<le> length file" "length file + 2 \<le> unat (APPLICATION_SIZE b)" "8 dvd n" "0 < n"
      "\<forall>k < n. 8 dvd k \<longrightarrow> take 8 (drop k file) \<noteq> APP_DESCRIPTOR_SIGNATURE" "take 4 file \<noteq> replicate 4 0xFF"
      "unat (APPLICATION_LOAD_ADDRESS b) < unat (rd32 ((!) file) 4)" "unat (rd32 ((!) file) 4) < unat (APPLICATION_LOAD_ADDRESS b) + length file"
    using assms(1) by (simp_all add: can_update_def)
  have len: "8 \<le> length file" "length file \<le> unat (APPLICATION_SIZE b)" "4 * LATER_FLAHSED_WORDS b \<le> length file"
    using u(1,4,5) by (auto simp: area_ok_def)
  define s0 where "s0 = (log_message b LOGMESSAGE_LEVELINFO LOGMESSAGE_STAGE_ERASE LOGMESSAGE_RESULT_START s)\<lparr>b_app_valid := False\<rparr>"
  have "served us gs pt (log_message b LOGMESSAGE_LEVELINFO LOGMESSAGE_STAGE_ERASE LOGMESSAGE_RESULT_START s)"
    by (rule served_same [OF assms(5)]) simp
  then have s0: "served us gs pt s0" "rx_in s0 = pss @ rest"
    using assms(6) node_core_simps(5) [of b LOGMESSAGE_LEVELINFO LOGMESSAGE_STAGE_ERASE LOGMESSAGE_RESULT_START s]
    by (simp_all add: s0_def served_def used_def node_core_simp)
  obtain s1 where s1: "erase_application b s0 = (FLASH_OK, s1)" "app_erased b (flash_mem s1)"
      "node_core (s1\<lparr>flash_mem := flash_mem s0\<rparr>) = node_core s0"
    using erase_application_done [OF u(1,2)] by blast
  have "served us gs pt s1" "rx_in s1 = pss @ rest"
    using s0 s1(3) used_node [OF s1(3), of us] by (auto simp: served_def node_core_simp used_def)
  from file_programmed [OF u(1-5) assms(4) s1(2) this assms(7)]
  obtain s2 where s2: "file_read_and_program b path (word_of_nat path_len) (word_of_nat (length file)) s1 = Done FLASH_OK s2"
      "flash_mem s2 = programmed_part b file (length file) (flash_mem s1)" "b_fw_word0 s2 = first_words b file"
    by blast
  define m' where "m' = wr_bytes (unat (APPLICATION_LOAD_ADDRESS b)) (take (4 * LATER_FLAHSED_WORDS b) file) (flash_mem s2)"
  note image = new_image_accepted [OF u(1) s1(2) assms(2,3) u(6-9) len(2) s2(2) m'_def]
  define s3 where "s3 = log_message b LOGMESSAGE_LEVELINFO LOGMESSAGE_STAGE_FINALIZE LOGMESSAGE_RESULT_OK
    (s2\<lparr>b_fw_image_descriptor := Some (unat (APPLICATION_LOAD_ADDRESS b) + n), flash_mem := m', b_percentage_done := 100\<rparr>)"
  have s3: "flash_mem s3 = m'" "b_fw_image_descriptor s3 = Some (unat (APPLICATION_LOAD_ADDRESS b) + n)"
    using node_core_simps(5) [of b LOGMESSAGE_LEVELINFO LOGMESSAGE_STAGE_FINALIZE LOGMESSAGE_RESULT_OK
      "s2\<lparr>b_fw_image_descriptor := Some (unat (APPLICATION_LOAD_ADDRESS b) + n), flash_mem := m', b_percentage_done := 100\<rparr>"]
    by (simp_all add: s3_def node_core_simp)
  have "write_flash b (APPLICATION_LOAD_ADDRESS b) (concat (map le_bytes32 (first_words b file)))
      (s2\<lparr>b_fw_image_descriptor := Some (unat (APPLICATION_LOAD_ADDRESS b) + n)\<rparr>) =
      (FLASH_OK, s2\<lparr>b_fw_image_descriptor := Some (unat (APPLICATION_LOAD_ADDRESS b) + n), flash_mem := m'\<rparr>)"
    using commit_first_words [OF u(1,2) s1(2) len(1) u(5)] by (simp add: write_flash_def concat_first_words [OF len(3)] s2(2) m'_def)
  then have "program_update b path path_len (word_of_nat (length file)) common s = boot_application b LOGMESSAGE_STAGE_INIT common s3"
    unfolding program_update_def Let_def s0_def [symmetric] s1(1) prod.case s2(1) and_then_simps s3_def
    using image(1) s2(3) by simp
  with boot_new_image [OF s3(2) u(1), unfolded s3(1), OF image(2-4) len(1) u(5,10,11)] image(3) show ?thesis
    by (metis s3(1))
qed


section \<open>Boundary cases\<close>

text \<open>A file of less than 100 bytes passes the test of its size, and then the computation of the progress divides by zero.\<close>

lemma short_file_crashes:
  assumes "served us gs pt s" and "rx_in s = polls # rest" and "answered gs pt DSDLRspRead ([0, 0] @ file) polls"
    and "file \<noteq> []" and "length file < 100" and "unat path_len \<le> length path" and "\<And>fs f mb. can_tx b fs f mb = 0"
  shows "file_read_and_program b path path_len (word_of_nat (length file)) s = Crash"
proof -
  let ?s = "s\<lparr>b_percentage_done := 0\<rparr>" and ?p = "\<lparr>can_id = rd32 (uninit b 15) 0, tail = 0\<rparr>"
  have "served us gs pt ?s" "rx_in ?s = polls # rest" using served_same [OF assms(1)] assms(2) by simp_all
  from read_chunk [OF this assms(3,4) _ _ _ assms(7), of "replicate 258 0" "FixedSizeReadRequest + unat path_len" "read_request 0 path" ?p]
  obtain p1 r s1 where "read_attempts b (read_request 0 path) (FixedSizeReadRequest + unat path_len) UavcanServiceRetries ?p (replicate 258 0) ?s =
      Done (Some (length file), p1, r) s1"
    using assms(5,6) by (auto simp: read_request_def)
  moreover have "(word_of_nat (length file) :: u32) div 100 = 0"
    using assms(5) by (simp add: word_unat_eq_iff unat_div unat_of_nat)
  ultimately have "program_round b path path_len (word_of_nat (length file)) (0, ?p, replicate 258 0) ?s = Crash"
    unfolding program_round_def by (simp add: Let_def case_prod_unfold)
  then show ?thesis
    unfolding file_read_and_program_def by (subst loop_unfold [OF program_round_consumes]) simp
qed

text \<open>
  A file of one byte less than the application area passes the test of its size, but its last chunk, which is filled up
  to an even number of bytes, is refused.
\<close>

lemma last_byte_refused:
  assumes "area_ok b" and "off + length xs = unat (APPLICATION_SIZE b)"
  shows "bl_flash_write b (APPLICATION_LOAD_ADDRESS b + word_of_nat off) xs m = (FLASH_ERROR, m)"
proof -
  let ?load = "APPLICATION_LOAD_ADDRESS b" and ?size = "APPLICATION_SIZE b"
  have b: "unat ?load + unat ?size + 64 \<le> 2 ^ 31" "64 \<le> unat ?size" using assms(1) by (simp_all add: area_ok_def)
  have "word_of_nat (off + length xs) = ?size"
    unfolding assms(2) by simp
  then have sum: "?load + word_of_nat off + word_of_nat (length xs) = ?load + ?size"
    by (simp add: add.assoc)
  moreover have "unat (?load + ?size) = unat ?load + unat ?size" using b by (simp add: unat_word_ariths(1))
  moreover have "unat (?load + ?size - 1) = unat ?load + unat ?size - 1"
    using b by (simp add: unat_sub word_le_nat_alt unat_word_ariths(1))
  moreover have "\<not> unat ?load + unat ?size \<le> unat ?load + unat ?size - 1" using b(2) by linarith
  ultimately show ?thesis
    unfolding bl_flash_write_def APPLICATION_LAST_8BIT_ADDRRESS_def sum word_le_nat_alt by simp
qed

text \<open>A request without data gives a path of almost \<open>2 ^ 32\<close> bytes, which the question for the file sends.\<close>

lemma empty_request_crashes:
  "length path = PayloadLengthPathpath \<Longrightarrow> file_getinfo b path (2 ^ 32 - 1) s = Crash"
proof -
  assume "length path = PayloadLengthPathpath"
  then have "send_buffer b dsdl p path ((FixedSizeGetInfoRequest + (2 ^ 32 - 1)) mod 2 ^ 32) s = Crash" for dsdl p
    by (simp add: send_buffer_def)
  then have "getinfo_attempts b path (2 ^ 32 - 1) (Suc n) p r s = Crash" for n p r
    unfolding getinfo_attempts.simps by (simp only: and_then_simps)
  then show ?thesis
    unfolding file_getinfo_def UavcanServiceRetries_def numeral_3_eq_3 by blast
qed

text \<open>
  The server may allocate the number zero: the comment in the code excludes it, the code does not, and takes it for the
  expiry of the boot timer. Then the bootloader starts what is in the flash without looking at the result of the check.
\<close>

lemma zero_node_id_gives_up:
  assumes "receive b DSDLMsgAllocation (p\<lparr>can_id := set_source_node_id (ucast (server_node_id v)) (can_id p)\<rparr>) (allocation_message v) 17 50 s =
      Done (UavcanOk, p1, 0 # unique_id_of b, 17) s1" and "p = alloc_protocol v"
    and "source_node_id (can_id p1) \<noteq> UavcanAnonymousNodeID" and "length (unique_id_of b) = 16" and "restart_request trequest s1 = Done () s2"
  shows "alloc_receive b random trequest preferred v s = Done (Inr ANY_NODE_ID) s2"
proof -
  have all: "takeWhile (\<lambda>i. True) xs = xs" for xs :: "nat list"
    by (induction xs) simp_all
  have "unique_id_matched (unique_id_of b) (unique_id_of b) 16 = 16"
    by (simp only: unique_id_matched_def simp_thms all length_upt)
  then show ?thesis
    using assms by (simp add: alloc_receive_def Let_def ANY_NODE_ID_def)
qed

lemma unchecked_application_started:
  assumes "b_fw_image_descriptor s = Some d" and "rd32 (flash_mem s) (unat (APPLICATION_LOAD_ADDRESS b)) \<noteq> 0xFFFFFFFF"
    and "entry = rd32 (flash_mem s) (unat (APPLICATION_LOAD_ADDRESS b) + 4)" and "APPLICATION_LOAD_ADDRESS b < entry"
    and "entry < APPLICATION_LOAD_ADDRESS b + image_size (flash_mem s) d"
  shows "\<exists>s'. boot_application b stage common s = Done (Jump (rd32 (flash_mem s) (unat (APPLICATION_LOAD_ADDRESS b))) entry) s'"
  using assms by (simp add: boot_application_def application_run_def Let_def)

section \<open>Example\<close>

text \<open>The node of the example asks the server with the number ten for the small application.\<close>

definition demo_server :: uavcan_node where "demo_server = \<lparr>g_uavcan_priority = 30, g_this_node_id = 10\<rparr>"
definition demo_reply :: uavcan_protocol where "demo_reply = \<lparr>can_id = 20, tail = 0\<rparr>"

definition demo_answer :: "uavcan_dsdl \<Rightarrow> u8 list \<Rightarrow> (rx_frame option \<times> nat) list" where
  "demo_answer dsdl data = demo_polls (answer_frames demo_server demo_reply dsdl data)"

definition demo_requested :: can_node where
  "demo_requested = demo_node\<lparr>timers := replicate 7 zero_timer, g_node := \<lparr>g_uavcan_priority = 30, g_this_node_id = 20\<rparr>, g_server_node_id := 10,
     flash_mem := (\<lambda>_. 0), rx_in := [demo_answer DSDLRspGetInfo (file_info 112 9), demo_answer DSDLRspRead ([0, 0] @ demo_image)]\<rparr>"

lemma transfer_frames_short: "f \<in> set (transfer_frames w t xs) \<Longrightarrow> length (frame_data f) \<le> 8"
proof (induction w t xs rule: transfer_frames.induct)
  case (1 w t xs)
  show ?case
    using 1(2) 1(1) by (subst (asm) (1) transfer_frames.simps) (auto split: if_splits)
qed

lemma demo_answered: "xs \<noteq> [] \<Longrightarrow> answered demo_server demo_reply dsdl xs (demo_answer dsdl xs)"
proof -
  assume xs: "xs \<noteq> []"
  obtain p' fs where fs: "uavcan_tx_dsdl (\<lambda>_ _ _. 0) demo_server dsdl demo_reply xs (replicate 8 0) [] = (UavcanOk, p', [] @ fs)"
    using tx_dsdl_sent [of "\<lambda>_ _ _. 0" demo_server dsdl demo_reply xs "replicate 8 0" "[]"]
    by (cases "uavcan_tx_dsdl (\<lambda>_ _ _. 0) demo_server dsdl demo_reply xs (replicate 8 0) []") auto
  have "\<forall>f\<in>set fs. length (frame_data f) \<le> 8"
    using tx_dsdl_frames [OF fs xs _ refl] transfer_frames_short by auto
  then show ?thesis
    using fs by (simp add: answered_def demo_answer_def answer_frames_def demo_polled demo_carries demo_ticks)
qed

lemma demo_page:
  assumes "0 \<le> p"
  shows "progmem_getpage demo_board (word_of_nat a) = p \<and> a < 2 ^ 32 \<longleftrightarrow>
    0x8000000 \<le> a \<and> a < 0x8080000 \<and> (int a - 0x8000000) div 0x4000 = p"
  using assms by (auto simp: demo_board_def demo_area_def word_less_nat_alt word_le_nat_alt unat_of_nat uint_nat take_bit_eq_mod unsigned_of_nat)

lemma demo_flash_driver: "flash_driver demo_board"
proof -
  have load: "APPLICATION_LOAD_ADDRESS demo_board = 0x800C000" "APPLICATION_SIZE demo_board = 0x74000" by (simp_all add: demo_board_def)
  have pages: "progmem_getpage demo_board 0x800C000 = 3" "progmem_getpage demo_board 0x807FFFC = 31" "progmem_getpage demo_board 0x800BFFF = 2"
    by (simp_all add: demo_board_def demo_area_def)
  have erase: "fst (progmem_eraseblock demo_board p m) > 0 \<and>
      snd (progmem_eraseblock demo_board p m) = (\<lambda>a. if a < 2 ^ 32 \<and> progmem_getpage demo_board (word_of_nat a) = p then 0xff else m a)"
    if "3 \<le> p" "p \<le> 31" for p m
  proof -
    have "(a < 2 ^ 32 \<and> progmem_getpage demo_board (word_of_nat a) = p) \<longleftrightarrow> 0x8000000 + p * 0x4000 \<le> int a \<and> int a < 0x8000000 + (p + 1) * 0x4000" for a
      using demo_page [of p a] that by auto
    then show ?thesis by (simp add: demo_board_def demo_area_def)
  qed
  have inside: "3 \<le> progmem_getpage demo_board (word_of_nat a) \<and> progmem_getpage demo_board (word_of_nat a) \<le> 31"
    if "0x800C000 \<le> a" "a < 0x8080000" for a
    using demo_page [of "(int a - 0x8000000) div 0x4000" a] that by auto
  show ?thesis
    using erase inside by (simp add: flash_driver_def load pages) (simp add: demo_board_def demo_area_def)
qed

lemma demo_can_update: "can_update demo_board demo_image 8"
proof -
  have "take 8 demo_image = [0, 0, 2, 0x20, 9, 0xC0, 0, 8]"
    using demo_image_start by (simp add: demo_contents_def)
  then obtain xs where img: "demo_image = [0, 0, 2, 0x20, 9, 0xC0, 0, 8] @ xs"
    by (metis append_take_drop_id)
  have "rd32 ((!) demo_image) 4 = 0x800C009"
    unfolding img by (simp add: rd32_def rd16_def)
  then show ?thesis
    using demo_board_ok(1) demo_flash_driver demo_image_length demo_image_first demo_no_signature
    by (simp add: can_update_def demo_board_def replicate_four)
qed


end
