(* ===== verification/Bl_Flash.thy ===== *)
theory Bl_Flash
  imports Prelude
begin

text \<open>
  The flash under the serial bootloader: the cache that collects words into the eight-word blocks of the flash
  (\<^verbatim>\<open>src/platforms/nuttx/src/bootloader/common/lib/flash_cache.c\<close>) and the word-wise interface of the bootloader on
  top of it (\<^verbatim>\<open>src/platforms/nuttx/src/bootloader/stm/stm32_common/main.c\<close>). The operating system's flash driver is a
  parameter. Memory is a function from the address of a word to the word.
\<close>

type_synonym mem = "u32 \<Rightarrow> u32"

text \<open>The calls of the flash driver, and the constants of a board's \<^verbatim>\<open>hw_config.h\<close>.\<close>

record progmem =
  up_progmem_write :: "u32 \<Rightarrow> u32 list \<Rightarrow> mem \<Rightarrow> int \<times> mem"
  up_progmem_ispageerased :: "nat \<Rightarrow> mem \<Rightarrow> int"
  up_progmem_eraseblock :: "nat \<Rightarrow> mem \<Rightarrow> mem"

record hw_config =
  APP_LOAD_ADDRESS :: u32
  BOARD_FLASH_SECTORS :: nat
  BOARD_FIRST_FLASH_SECTOR_TO_ERASE :: nat
  BOARD_FLASH_SIZE :: u32
  APP_RESERVATION_SIZE :: u32
  BOARD_TYPE :: u32
  BOOT_DELAY_ADDRESS :: u32
  BOOTLOADER_DELAY :: u32
  BOOT_DEVICES_SELECTION :: u32
  BOOT_DEVICES_FILTER_ONUSB :: u32
  ARCH_SN_MAX_LENGTH :: u32
  mcu_idcode :: u32
  sysmem_uid :: "u32 \<Rightarrow> u32"

section \<open>The cache\<close>

definition FC_NUMBER_LINES :: nat where [simp]: "FC_NUMBER_LINES = 2"
definition FC_NUMBER_WORDS :: nat where [simp]: "FC_NUMBER_WORDS = 8"
definition FC_LAST_WORD :: nat where [simp]: "FC_LAST_WORD = FC_NUMBER_WORDS - 1"
definition FC_ADDRESS_MASK :: u32 where "FC_ADDRESS_MASK = NOT (32 - 1)"
definition FC_CLEAN :: u32 where "FC_CLEAN = - 1"

definition FC_ADDR2INDX :: "u32 \<Rightarrow> u32" where
  "FC_ADDR2INDX a = (a div 4) mod 8"

record flash_cache_line_t =
  index :: u32
  start_address :: u32
  words :: "u32 list"

record flash =
  flash_cache :: "flash_cache_line_t list"
  progmem_mem :: mem

definition fcl_reset :: flash_cache_line_t where
  "fcl_reset = \<lparr> index = - 1, start_address = - 1, words = replicate FC_NUMBER_WORDS (- 1) \<rparr>"

definition fc_reset :: "hw_config \<Rightarrow> flash \<Rightarrow> flash" where
  "fc_reset hw f = f\<lparr>flash_cache := (replicate FC_NUMBER_LINES fcl_reset)[0 := fcl_reset\<lparr>start_address := APP_LOAD_ADDRESS hw\<rparr>]\<rparr>"

definition fc_line_select :: "u32 \<Rightarrow> flash \<Rightarrow> nat option" where
  "fc_line_select address f =
     find (\<lambda>w. start_address (flash_cache f ! w) = address AND FC_ADDRESS_MASK) [0..<FC_NUMBER_LINES]"

definition fc_is_dirty :: "flash_cache_line_t \<Rightarrow> bool" where
  "fc_is_dirty fl \<longleftrightarrow> index fl \<noteq> FC_CLEAN"

definition upd_line :: "nat \<Rightarrow> (flash_cache_line_t \<Rightarrow> flash_cache_line_t) \<Rightarrow> flash \<Rightarrow> flash" where
  "upd_line w g f = f\<lparr>flash_cache := (flash_cache f)[w := g (flash_cache f ! w)]\<rparr>"

definition fc_flush :: "progmem \<Rightarrow> nat \<Rightarrow> flash \<Rightarrow> int \<times> flash" where
  "fc_flush pm w f =
     (let fl = flash_cache f ! w;
          bytes = 4 * int FC_NUMBER_WORDS;
          (rv, m) = up_progmem_write pm (start_address fl) (words fl) (progmem_mem f)
      in (if rv = bytes then 0 else rv, f\<lparr>progmem_mem := m\<rparr>))"

definition fc_write :: "progmem \<Rightarrow> u32 \<Rightarrow> u32 \<Rightarrow> flash \<Rightarrow> int \<times> flash" where
  "fc_write pm address word f =
     (let i = FC_ADDR2INDX address;
          (fc, f) = (if fc_line_select address f = None \<and> i = 0
                     then (Some 1, upd_line 1 (\<lambda>l. l\<lparr>start_address := address\<rparr>) f)
                     else (fc_line_select address f, f))
      in case fc of
           None \<Rightarrow> (0, f)
         | Some w \<Rightarrow>
             let f = upd_line w (\<lambda>l. l\<lparr>words := (words l)[unat i := word]\<rparr>) f
             in if w = 0 \<and> i = 0 \<and> index (flash_cache f ! w) = 7
                then let (rv, f) = (if fc_is_dirty (flash_cache f ! 1) then fc_flush pm 1 f else (0, f))
                     in if rv \<noteq> 0 then (- 1, upd_line 1 (\<lambda>_. fcl_reset) f)
                        else let (rv, f) = fc_flush pm w f in (rv, upd_line w (\<lambda>_. fcl_reset) f)
                else (0, upd_line w (\<lambda>l. l\<lparr>index := i\<rparr>) f))"

definition fc_read :: "progmem \<Rightarrow> u32 \<Rightarrow> flash \<Rightarrow> u32 \<times> flash" where
  "fc_read pm address f =
     (case fc_line_select address f of
        None \<Rightarrow> (progmem_mem f address, f)
      | Some w \<Rightarrow>
          let i = FC_ADDR2INDX address;
              rv = words (flash_cache f ! w) ! unat i
          in if w \<noteq> 0 \<and> unat i = FC_LAST_WORD
             then let (e, f) = fc_flush pm w f
                  in if e \<noteq> 0 then (rv XOR 0xffffffff, f) else (rv, upd_line w (\<lambda>_. fcl_reset) f)
             else (rv, f))"

section \<open>Words of the application area\<close>

definition app_size_max :: "hw_config \<Rightarrow> u32" where
  "app_size_max hw = BOARD_FLASH_SIZE hw - (128 * 1024 + APP_RESERVATION_SIZE hw)"

definition arch_flash_unlock :: "hw_config \<Rightarrow> flash \<Rightarrow> flash" where
  "arch_flash_unlock hw f = fc_reset hw f"

definition flash_func_sector_size :: "hw_config \<Rightarrow> nat \<Rightarrow> u32" where
  "flash_func_sector_size hw sector = (if sector \<le> BOARD_FLASH_SECTORS hw then 128 * 1024 else 0)"

definition flash_func_erase_sector :: "hw_config \<Rightarrow> progmem \<Rightarrow> nat \<Rightarrow> flash \<Rightarrow> flash" where
  "flash_func_erase_sector hw pm sector f =
     (if sector > BOARD_FLASH_SECTORS hw \<or> sector < BOARD_FIRST_FLASH_SECTOR_TO_ERASE hw then f
      else let blank = (up_progmem_ispageerased pm sector (progmem_mem f) = 0)
           in if \<not> blank then f\<lparr>progmem_mem := up_progmem_eraseblock pm sector (progmem_mem f)\<rparr> else f)"

definition flash_func_write_word :: "hw_config \<Rightarrow> progmem \<Rightarrow> u32 \<Rightarrow> u32 \<Rightarrow> flash \<Rightarrow> flash" where
  "flash_func_write_word hw pm address word f = snd (fc_write pm (address + APP_LOAD_ADDRESS hw) word f)"

definition flash_func_read_word :: "hw_config \<Rightarrow> progmem \<Rightarrow> u32 \<Rightarrow> flash \<Rightarrow> u32 \<times> flash" where
  "flash_func_read_word hw pm address f =
     (if address AND 3 \<noteq> 0 then (0, f) else fc_read pm (address + APP_LOAD_ADDRESS hw) f)"

section \<open>Addresses\<close>

text \<open>
  The application area has \<open>app_words\<close> words, the \<open>i\<close>-th at the address \<open>app_word i\<close>. A board is laid out well when the
  area is a sequence of whole blocks, does not wrap around, and lies in the sectors that are erased.
\<close>

definition FLASH_START_ADDRESS :: "hw_config \<Rightarrow> u32" where
  "FLASH_START_ADDRESS hw = APP_LOAD_ADDRESS hw AND NOT (BOARD_FLASH_SIZE hw - 1)"

definition app_words :: "hw_config \<Rightarrow> nat" where
  "app_words hw = unat (app_size_max hw) div 4"

definition app_word :: "hw_config \<Rightarrow> nat \<Rightarrow> u32" where
  "app_word hw i = word_of_nat (4 * i) + APP_LOAD_ADDRESS hw"

definition sector_of :: "hw_config \<Rightarrow> u32 \<Rightarrow> nat" where
  "sector_of hw a = unat (a - FLASH_START_ADDRESS hw) div (128 * 1024)"

definition board_ok :: "hw_config \<Rightarrow> bool" where
  "board_ok hw \<longleftrightarrow> unat (APP_LOAD_ADDRESS hw) mod 32 = 0 \<and> unat (app_size_max hw) mod 32 = 0 \<and>
     unat (APP_LOAD_ADDRESS hw) + unat (app_size_max hw) + 256 < 2 ^ 32 \<and> 32 \<le> unat (app_size_max hw) \<and>
     (\<forall>i < app_words hw. BOARD_FIRST_FLASH_SECTOR_TO_ERASE hw \<le> sector_of hw (app_word hw i) \<and>
        sector_of hw (app_word hw i) \<le> BOARD_FLASH_SECTORS hw)"

lemma app_words_mod:
  "board_ok hw \<Longrightarrow> app_words hw mod 8 = 0" "board_ok hw \<Longrightarrow> 8 \<le> app_words hw"
  "board_ok hw \<Longrightarrow> unat (app_size_max hw) = 4 * app_words hw"
proof -
  have "app_words hw mod 8 = 0 \<and> 8 \<le> app_words hw \<and> unat (app_size_max hw) = 4 * app_words hw" if "board_ok hw"
  proof -
    have "32 dvd unat (app_size_max hw)" and pos: "32 \<le> unat (app_size_max hw)"
      using that by (simp_all add: board_ok_def mod_0_imp_dvd)
    then obtain k where "unat (app_size_max hw) = 32 * k"
      by (elim dvdE)
    with pos show ?thesis by (auto simp: app_words_def)
  qed
  then show "board_ok hw \<Longrightarrow> app_words hw mod 8 = 0" "board_ok hw \<Longrightarrow> 8 \<le> app_words hw"
    "board_ok hw \<Longrightarrow> unat (app_size_max hw) = 4 * app_words hw"
    by blast+
qed

lemma unat_app_word:
  "board_ok hw \<Longrightarrow> i \<le> app_words hw \<Longrightarrow> unat (app_word hw i) = unat (APP_LOAD_ADDRESS hw) + 4 * i"
proof -
  assume ok: "board_ok hw" and i: "i \<le> app_words hw"
  have "unat (APP_LOAD_ADDRESS hw) + 4 * i < 2 ^ 32"
    using ok app_words_mod(3) [OF ok] i unfolding board_ok_def by linarith
  moreover from this have "unat (word_of_nat (4 * i) :: u32) = 4 * i"
    by (simp only: unsigned_of_nat) (simp add: take_bit_nat_eq_self)
  ultimately show ?thesis
    by (simp add: app_word_def unat_word_ariths(1) del: of_nat_mult)
qed

lemma app_word_inj:
  "board_ok hw \<Longrightarrow> i \<le> app_words hw \<Longrightarrow> j \<le> app_words hw \<Longrightarrow> app_word hw i = app_word hw j \<longleftrightarrow> i = j"
  by (simp add: word_unat_eq_iff unat_app_word)

lemma app_word_add: "app_word hw (i + j) = app_word hw i + 4 * word_of_nat j"
  by (simp add: app_word_def algebra_simps)

lemma app_word_0: "app_word hw 0 = APP_LOAD_ADDRESS hw"
  by (simp add: app_word_def)

lemma block_arith:
  "(32 * k + 4 * i) div 4 mod 8 = i mod 8" "32 * k + 4 * i - (32 * k + 4 * i) mod 32 = 32 * k + 4 * (8 * (i div 8))" for i :: nat
proof -
  have four: "32 * k + 4 * i = 4 * (8 * k + i)"
    by simp
  then show "(32 * k + 4 * i) div 4 mod 8 = i mod 8"
    by (simp only: nonzero_mult_div_cancel_left) simp
  have "(4 * (8 * k + i)) mod (4 * 8) = 4 * ((8 * k + i) mod 8)"
    by (rule mult_mod_right [symmetric])
  then have "(32 * k + 4 * i) mod 32 = 4 * (i mod 8)"
    unfolding four by simp
  then show "32 * k + 4 * i - (32 * k + 4 * i) mod 32 = 32 * k + 4 * (8 * (i div 8))"
    using div_mult_mod_eq [of i 8] by linarith
qed

lemma app_word_indx:
  assumes "board_ok hw" "i < app_words hw"
  shows "FC_ADDR2INDX (app_word hw i) = word_of_nat (i mod 8)"
proof -
  obtain k where "unat (APP_LOAD_ADDRESS hw) = 32 * k"
    using assms(1) by (auto simp: board_ok_def)
  then have "(unat (APP_LOAD_ADDRESS hw) + 4 * i) div 4 mod 8 = i mod 8"
    by (simp only: block_arith)
  then show ?thesis
    using assms by (simp add: FC_ADDR2INDX_def word_unat_eq_iff unat_mod unat_div unat_app_word unsigned_of_nat
      take_bit_nat_eq_self)
qed

lemma FC_ADDRESS_MASK_mask: "FC_ADDRESS_MASK = NOT (mask 5)"
  by (simp add: FC_ADDRESS_MASK_def mask_eq_exp_minus_1)

lemma unat_and_block: "unat (a AND FC_ADDRESS_MASK) = unat a - unat a mod 32"
proof -
  have sum: "a = (a AND FC_ADDRESS_MASK) + (a AND mask 5)"
    unfolding FC_ADDRESS_MASK_mask by (subst disjunctive_add_eq_or) (rule bit_word_eqI; auto simp: bit_simps)+
  moreover have "unat (a AND mask 5) = unat a mod 32"
    by (simp flip: take_bit_eq_mask add: take_bit_eq_mod unat_mod)
  moreover have "unat (a AND FC_ADDRESS_MASK) + unat (a AND mask 5) = unat a"
    using arg_cong [OF sum, of unat] word_and_le2 [of a FC_ADDRESS_MASK] unsigned_less [where 'a = nat, of "a AND mask 5"]
    by (simp add: unat_plus_if' word_le_nat_alt split: if_splits)
  ultimately show ?thesis
    by simp
qed

lemma app_word_tag:
  assumes "board_ok hw" "i < app_words hw"
  shows "app_word hw i AND FC_ADDRESS_MASK = app_word hw (8 * (i div 8))"
proof -
  obtain k where "unat (APP_LOAD_ADDRESS hw) = 32 * k"
    using assms(1) by (auto simp: board_ok_def)
  then have "unat (APP_LOAD_ADDRESS hw) + 4 * i - (unat (APP_LOAD_ADDRESS hw) + 4 * i) mod 32 =
        unat (APP_LOAD_ADDRESS hw) + 4 * (8 * (i div 8))"
    by (simp only: block_arith)
  then show ?thesis
    using assms by (simp add: word_unat_eq_iff unat_and_block unat_app_word)
qed

lemma app_word_not_ones: "board_ok hw \<Longrightarrow> i < app_words hw \<Longrightarrow> app_word hw i \<noteq> - 1"
proof -
  assume ok: "board_ok hw" and i: "i < app_words hw"
  then have "unat (app_word hw i) < 2 ^ 32 - 4"
    using app_words_mod(3) [OF ok] unat_app_word [OF ok, of i] unfolding board_ok_def by linarith
  moreover have "unat (- 1 :: u32) = 2 ^ 32 - 1"
    by (simp add: unsigned_minus_1_eq_mask mask_eq_exp_minus_1)
  ultimately show ?thesis
    by auto
qed

section \<open>The flash driver\<close>

text \<open>
  What the driver promises: a write to eight erased words stores them and returns the number of bytes; the test of a
  sector returns 0 exactly if it is erased; erasing a sector erases its words and no others.
\<close>

fun put_words :: "u32 \<Rightarrow> u32 list \<Rightarrow> mem \<Rightarrow> mem" where
  "put_words a [] m = m"
| "put_words a (w # ws) m = put_words (a + 4) ws (m(a := w))"

definition programs :: "progmem \<Rightarrow> bool" where
  "programs pm \<longleftrightarrow> (\<forall>a ws m. unat a mod 32 = 0 \<longrightarrow> length ws = 8 \<longrightarrow> (\<forall>j < 8. m (a + word_of_nat (4 * j)) = - 1) \<longrightarrow>
     up_progmem_write pm a ws m = (32, put_words a ws m))"

definition erases :: "hw_config \<Rightarrow> progmem \<Rightarrow> bool" where
  "erases hw pm \<longleftrightarrow> (\<forall>s m. (up_progmem_ispageerased pm s m = 0) = (\<forall>a. sector_of hw a = s \<longrightarrow> m a = - 1) \<and>
     up_progmem_eraseblock pm s m = (\<lambda>a. if sector_of hw a = s then - 1 else m a))"

text \<open>The application area holds \<open>g\<close>, and the rest of the memory what it held in \<open>m0\<close>.\<close>

definition area :: "hw_config \<Rightarrow> mem \<Rightarrow> (nat \<Rightarrow> u32) \<Rightarrow> mem \<Rightarrow> bool" where
  "area hw m0 g m \<longleftrightarrow> (\<forall>i < app_words hw. m (app_word hw i) = g i) \<and>
     (\<forall>a. a \<notin> app_word hw ` {..<app_words hw} \<longrightarrow> m a = m0 a)"

lemma area_cong: "(\<And>i. i < app_words hw \<Longrightarrow> g i = g' i) \<Longrightarrow> area hw m0 g m \<Longrightarrow> area hw m0 g' m"
  by (simp add: area_def)

lemma put_words_area:
  "board_ok hw \<Longrightarrow> k + length ws \<le> app_words hw \<Longrightarrow> area hw m0 g m \<Longrightarrow>
   area hw m0 (\<lambda>i. if k \<le> i \<and> i < k + length ws then ws ! (i - k) else g i) (put_words (app_word hw k) ws m)"
proof (induction ws arbitrary: k g m)
  case Nil
  have "area hw m0 (\<lambda>i. if k \<le> i \<and> i < k then [] ! (i - k) else g i) m"
    by (rule area_cong [OF _ Nil(3)]) auto
  then show ?case by simp
next
  case (Cons w ws)
  define m1 where "m1 = m(app_word hw k := w)"
  have a1: "area hw m0 (g(k := w)) m1"
    using Cons.prems by (auto simp: area_def app_word_inj m1_def)
  have "area hw m0 (\<lambda>i. if Suc k \<le> i \<and> i < Suc k + length ws then ws ! (i - Suc k) else (g(k := w)) i)
     (put_words (app_word hw (Suc k)) ws m1)"
    by (rule Cons.IH [OF Cons.prems(1) _ a1]) (use Cons.prems(2) in simp)
  moreover have "put_words (app_word hw k) (w # ws) m = put_words (app_word hw (Suc k)) ws m1"
    by (simp add: app_word_def m1_def algebra_simps)
  ultimately show ?case
    by (auto simp: nth_Cons' Suc_le_eq elim: area_cong [rotated])
qed

lemma write_block:
  assumes "board_ok hw" "programs pm" "area hw m0 g m" "8 * b < app_words hw" "length ws = 8"
    and blank: "\<And>j. j < 8 \<Longrightarrow> g (8 * b + j) = - 1"
  obtains m' where "up_progmem_write pm (app_word hw (8 * b)) ws m = (32, m')"
    and "area hw m0 (\<lambda>i. if i div 8 = b then ws ! (i mod 8) else g i) m'"
proof
  have fits: "8 * b + 8 \<le> app_words hw"
    using assms(1,4) app_words_mod(1) [OF assms(1)] by presburger
  obtain k where "unat (APP_LOAD_ADDRESS hw) = 32 * k"
    using assms(1) by (auto simp: board_ok_def)
  then have "unat (app_word hw (8 * b)) mod 32 = 0"
    using assms(1,4) by (simp add: unat_app_word)
  moreover have "m (app_word hw (8 * b) + word_of_nat (4 * j)) = - 1" if "j < 8" for j
    using assms(3) fits blank [OF that] that by (simp flip: app_word_add add: area_def)
  ultimately show "up_progmem_write pm (app_word hw (8 * b)) ws m = (32, put_words (app_word hw (8 * b)) ws m)"
    using assms(2,5) by (simp add: programs_def)
  have "(if 8 * b \<le> i \<and> i < 8 * b + length ws then ws ! (i - 8 * b) else g i) =
        (if i div 8 = b then ws ! (i mod 8) else g i)" for i
  proof -
    have "8 * b \<le> i \<and> i < 8 * b + 8 \<longleftrightarrow> i div 8 = b"
      by auto
    moreover have "i div 8 = b \<Longrightarrow> i - 8 * b = i mod 8"
      by (auto simp: modulo_nat_def)
    ultimately show ?thesis
      by (simp only: assms(5) split: if_split) metis
  qed
  from area_cong [OF this put_words_area [OF assms(1) _ assms(3)]]
  show "area hw m0 (\<lambda>i. if i div 8 = b then ws ! (i mod 8) else g i) (put_words (app_word hw (8 * b)) ws m)"
    using fits assms(5) by simp
qed

section \<open>Programming word by word\<close>

text \<open>
  After the words \<open>ws\<close> have been programmed from the start of the area, the first block waits in line 0, the block
  being filled in line 1, and the full blocks between them are in the flash. When the last, partial block has been
  flushed early by reading its last word, line 1 is free again.
\<close>

definition img :: "u32 list \<Rightarrow> nat \<Rightarrow> u32" where
  "img ws i = (if i < length ws then ws ! i else - 1)"

definition block :: "u32 list \<Rightarrow> nat \<Rightarrow> u32 list" where
  "block ws b = map (\<lambda>j. img ws (8 * b + j)) [0..<8]"

definition line0 :: "hw_config \<Rightarrow> u32 list \<Rightarrow> flash_cache_line_t" where
  "line0 hw ws = \<lparr> index = (if ws = [] then FC_CLEAN else word_of_nat (min (length ws) 8 - 1)),
     start_address = app_word hw 0, words = block ws 0 \<rparr>"

definition filling :: "bool \<Rightarrow> u32 list \<Rightarrow> bool" where
  "filling flushed ws \<longleftrightarrow> 8 \<le> length ws \<and> length ws mod 8 \<noteq> 0 \<and> \<not> flushed"

definition line1 :: "hw_config \<Rightarrow> bool \<Rightarrow> u32 list \<Rightarrow> flash_cache_line_t" where
  "line1 hw flushed ws = (if filling flushed ws
     then \<lparr> index = word_of_nat (length ws mod 8 - 1), start_address = app_word hw (8 * (length ws div 8)),
            words = block ws (length ws div 8) \<rparr>
     else fcl_reset)"

definition stored :: "bool \<Rightarrow> u32 list \<Rightarrow> nat \<Rightarrow> u32" where
  "stored flushed ws i = (if 8 \<le> i \<and> (flushed \<or> i div 8 < length ws div 8) then img ws i else - 1)"

definition programmed :: "hw_config \<Rightarrow> progmem \<Rightarrow> mem \<Rightarrow> bool \<Rightarrow> u32 list \<Rightarrow> flash \<Rightarrow> bool" where
  "programmed hw pm m0 flushed ws f \<longleftrightarrow> board_ok hw \<and> programs pm \<and> length ws \<le> app_words hw \<and>
     flash_cache f = [line0 hw ws, line1 hw flushed ws] \<and> area hw m0 (stored flushed ws) (progmem_mem f)"

lemma length_block [simp]: "length (block ws b) = 8"
  by (simp add: block_def)

lemma block_nth: "j < 8 \<Longrightarrow> block ws b ! j = img ws (8 * b + j)"
  by (simp add: block_def)

lemma img_snoc: "img (ws @ [w]) i = (if i = length ws then w else img ws i)"
  by (auto simp: img_def nth_append)

lemma block_snoc:
  "block (ws @ [w]) b = (if length ws div 8 = b then (block ws b)[length ws mod 8 := w] else block ws b)"
proof (rule nth_equalityI)
  fix j
  assume "j < length (block (ws @ [w]) b)"
  then have "j < 8"
    by simp
  moreover from this have "8 * b + j = length ws \<longleftrightarrow> length ws div 8 = b \<and> length ws mod 8 = j"
    by (metis div_less div_mult_self4 mod_less mod_mult_self4 mult_div_mod_eq plus_nat.add_0 add.right_neutral zero_neq_numeral)
  ultimately show "block (ws @ [w]) b ! j = (if length ws div 8 = b then (block ws b)[length ws mod 8 := w] else block ws b) ! j"
    by (auto simp: block_nth img_snoc nth_list_update)
qed (simp)

lemma find_two: "find P [0..<2] = (if P 0 then Some 0 else if P (Suc 0) then Some 1 else None)"
  by (simp add: numeral_2_eq_2)

lemma programmed_select:
  assumes "programmed hw pm m0 flushed ws f" "i < app_words hw"
  shows "fc_line_select (app_word hw i) f =
     (if i < 8 then Some 0 else if filling flushed ws \<and> i div 8 = length ws div 8 then Some 1 else None)"
proof -
  note p = assms(1) [unfolded programmed_def]
  have small: "8 * (i div 8) < app_words hw" "8 * (length ws div 8) \<le> app_words hw"
    using assms(2) p by linarith+
  have "app_word hw 0 = app_word hw (8 * (i div 8)) \<longleftrightarrow> i < 8"
    using p small by (simp add: app_word_inj div_eq_0_iff)
  moreover have "app_word hw (8 * (length ws div 8)) = app_word hw (8 * (i div 8)) \<longleftrightarrow> i div 8 = length ws div 8"
    using p small by (auto simp: app_word_inj)
  moreover have "- 1 \<noteq> app_word hw (8 * (i div 8))"
    using p small app_word_not_ones [of hw "8 * (i div 8)"] by metis
  ultimately show ?thesis
    using p assms(2) by (simp add: fc_line_select_def find_two app_word_tag line0_def line1_def fcl_reset_def)
qed

lemma fc_flush_written:
  "up_progmem_write pm (start_address (flash_cache f ! w)) (words (flash_cache f ! w)) (progmem_mem f) = (32, m') \<Longrightarrow>
   fc_flush pm w f = (0, f\<lparr>progmem_mem := m'\<rparr>)"
  by (simp add: fc_flush_def)

lemma flush_line1:
  assumes "programmed hw pm m0 flushed ws f" "filling flushed ws"
  obtains m' where
    "up_progmem_write pm (start_address (line1 hw flushed ws)) (words (line1 hw flushed ws)) (progmem_mem f) = (32, m')"
    and "area hw m0 (stored True ws) m'"
proof -
  note p = assms(1) [unfolded programmed_def]
  define b where "b = length ws div 8"
  have "8 * b \<noteq> length ws" "8 * b \<le> length ws" and b: "1 \<le> b"
    using assms(2) mult_div_mod_eq [of 8 "length ws"] unfolding b_def filling_def by linarith+
  then have lt: "8 * b < app_words hw"
    using p by linarith
  have blank: "stored flushed ws (8 * b + j) = - 1" if "j < 8" for j
    using that assms(2) by (simp add: stored_def filling_def b_def)
  obtain m' where w: "up_progmem_write pm (app_word hw (8 * b)) (block ws b) (progmem_mem f) = (32, m')"
    and a: "area hw m0 (\<lambda>i. if i div 8 = b then block ws b ! (i mod 8) else stored flushed ws i) m'"
    by (rule write_block [of hw pm m0 "stored flushed ws" "progmem_mem f" b "block ws b"]) (use p lt blank in simp_all)
  show ?thesis
  proof (rule that)
    show "up_progmem_write pm (start_address (line1 hw flushed ws)) (words (line1 hw flushed ws)) (progmem_mem f) = (32, m')"
      using assms(2) w by (simp add: line1_def b_def)
    have "(if i div 8 = b then block ws b ! (i mod 8) else stored flushed ws i) = stored True ws i" for i
    proof (cases "i div 8 = b")
      case True
      moreover from this have "8 * b + i mod 8 = i"
        by auto
      ultimately show ?thesis
        using b by (simp add: block_nth stored_def)
    next
      case False
      then show ?thesis
        using assms(2) by (auto simp: stored_def img_def b_def filling_def)
    qed
    then show "area hw m0 (stored True ws) m'"
      using area_cong [OF _ a] by simp
  qed
qed

lemma programmed_read:
  assumes "programmed hw pm m0 flushed ws f" "i < app_words hw"
  obtains flushed' f' where "fc_read pm (app_word hw i) f = (img ws i, f')" and "programmed hw pm m0 flushed' ws f'"
    and "flushed \<Longrightarrow> flushed'" and "\<not> (filling flushed ws \<and> i = 8 * (length ws div 8) + 7) \<Longrightarrow> flushed' = flushed"
proof -
  note p = assms(1) [unfolded programmed_def] and sel = programmed_select [OF assms]
  have i: "FC_ADDR2INDX (app_word hw i) = word_of_nat (i mod 8)" "unat (word_of_nat (i mod 8) :: u32) = i mod 8"
    using p assms(2) by (simp_all add: app_word_indx unsigned_of_nat take_bit_nat_eq_self)
  consider (first) "i < 8" | (fill) "8 \<le> i" "filling flushed ws" "i div 8 = length ws div 8"
    | (mem) "8 \<le> i" "\<not> (filling flushed ws \<and> i div 8 = length ws div 8)"
    by linarith
  then show ?thesis
  proof cases
    case first
    then have "fc_read pm (app_word hw i) f = (img ws i, f)"
      using p sel i by (simp add: fc_read_def Let_def line0_def block_nth)
    then show ?thesis
      using that assms(1) by blast
  next
    case fill
    have img: "words (line1 hw flushed ws) ! (i mod 8) = img ws i"
      using fill div_mult_mod_eq [of i 8] by (simp add: line1_def block_nth ac_simps)
    show ?thesis
    proof (cases "i mod 8 = 7")
      case True
      obtain m' where fl: "fc_flush pm 1 f = (0, f\<lparr>progmem_mem := m'\<rparr>)" and a: "area hw m0 (stored True ws) m'"
        by (rule flush_line1 [OF assms(1) fill(2)]) (use p in \<open>simp add: fc_flush_written\<close>)
      define f' where "f' = upd_line 1 (\<lambda>_. fcl_reset) (f\<lparr>progmem_mem := m'\<rparr>)"
      have "fc_read pm (app_word hw i) f = (img ws i, f')"
        using p sel fill i img fl True by (simp add: fc_read_def Let_def f'_def)
      moreover have "programmed hw pm m0 True ws f'"
        using p a by (simp add: programmed_def f'_def upd_line_def line1_def filling_def)
      moreover have "i = 8 * (length ws div 8) + 7"
        using True fill(3) div_mult_mod_eq [of i 8] by simp
      ultimately show ?thesis
        using that fill(2) by blast
    next
      case False
      then have "fc_read pm (app_word hw i) f = (img ws i, f)"
        using p sel fill i img by (simp add: fc_read_def Let_def)
      then show ?thesis
        using that assms(1) by blast
    qed
  next
    case mem
    have "stored flushed ws i = img ws i"
      using mem by (auto simp: stored_def img_def filling_def)
    then have "fc_read pm (app_word hw i) f = (img ws i, f)"
      using p sel mem assms(2) by (auto simp: fc_read_def area_def)
    then show ?thesis
      using that assms(1) by blast
  qed
qed


text \<open>The next word goes into the line of its block, and leaves the memory alone.\<close>

definition block_line :: "hw_config \<Rightarrow> u32 list \<Rightarrow> flash_cache_line_t" where
  "block_line hw ws = \<lparr> index = word_of_nat ((length ws - 1) mod 8),
     start_address = app_word hw (8 * ((length ws - 1) div 8)), words = block ws ((length ws - 1) div 8) \<rparr>"

lemma block_blank: "length ws \<le> 8 * b \<Longrightarrow> block ws b = replicate 8 (- 1)"
  by (rule nth_equalityI) (simp_all add: block_nth img_def)

lemma write_cached:
  assumes "programmed hw pm m0 False ws f" "length ws < app_words hw"
  shows "fc_write pm (app_word hw (length ws)) w f =
     (0, f\<lparr>flash_cache := (if length ws < 8 then [block_line hw (ws @ [w]), fcl_reset]
                          else [line0 hw (ws @ [w]), block_line hw (ws @ [w])])\<rparr>)"
proof -
  define k where "k = length ws"
  note p = assms(1) [unfolded programmed_def] and sel = programmed_select [OF assms]
  have i: "FC_ADDR2INDX (app_word hw k) = word_of_nat (k mod 8)" "unat (word_of_nat (k mod 8) :: u32) = k mod 8"
    using p assms(2) by (simp_all add: app_word_indx unsigned_of_nat take_bit_nat_eq_self k_def)
  have ne: "(word_of_nat (k mod 8) :: u32) = 0 \<longleftrightarrow> k mod 8 = 0"
    by (simp only: word_unat_eq_iff i(2) unsigned_0)
  have bs: "block (ws @ [w]) (k div 8) = (block ws (k div 8))[k mod 8 := w]"
    by (simp add: block_snoc k_def)
  consider (first) "k < 8" | (fresh) "8 \<le> k" "k mod 8 = 0" | (fill) "8 \<le> k" "k mod 8 \<noteq> 0"
    by linarith
  then show ?thesis
  proof cases
    case first
    have "k = 0 \<longleftrightarrow> ws = []"
      by (simp add: k_def)
    then show ?thesis
      using first p sel i ne bs
      by (cases "ws = []") (simp_all add: fc_write_def Let_def upd_line_def block_line_def line0_def line1_def filling_def
        FC_CLEAN_def flip: k_def)
  next
    case fresh
    have "8 * (k div 8) = k" "ws \<noteq> []"
      using fresh by (auto simp: k_def)
    then show ?thesis
      using fresh p sel i ne bs
      by (simp add: fc_write_def Let_def upd_line_def block_line_def line0_def line1_def filling_def fcl_reset_def
        block_snoc block_blank flip: k_def)
  next
    case fill
    moreover from this have "ws \<noteq> []"
      by (auto simp: k_def)
    ultimately show ?thesis
      using p sel i ne bs
      by (simp add: fc_write_def Let_def upd_line_def block_line_def line0_def line1_def filling_def block_snoc flip: k_def)
  qed
qed

lemma programmed_snoc:
  assumes "programmed hw pm m0 False ws f" "length ws < app_words hw"
    and "\<not> (8 \<le> length ws \<and> length ws mod 8 = 7)"
  shows "programmed hw pm m0 False (ws @ [w]) (snd (fc_write pm (app_word hw (length ws)) w f))"
proof -
  note p = assms(1) [unfolded programmed_def]
  have step: "Suc (length ws) div 8 = length ws div 8" "Suc (length ws) mod 8 = Suc (length ws mod 8)" if "length ws mod 8 \<noteq> 7"
    using that by (simp_all add: div_Suc mod_Suc)
  have "stored False ws i = stored False (ws @ [w]) i" for i
    using step assms(3) by (cases "8 \<le> length ws") (auto simp: stored_def img_snoc)
  then have "area hw m0 (stored False (ws @ [w])) (progmem_mem f)"
    using p by (auto elim: area_cong [rotated])
  moreover have "[line0 hw (ws @ [w]), line1 hw False (ws @ [w])] =
    (if length ws < 8 then [block_line hw (ws @ [w]), fcl_reset] else [line0 hw (ws @ [w]), block_line hw (ws @ [w])])"
    using step assms(3) by (auto simp: line0_def line1_def block_line_def filling_def le_Suc_eq)
  ultimately show ?thesis
    using p assms(2) by (simp add: write_cached [OF assms(1,2)] programmed_def)
qed

lemma programmed_snoc_last:
  assumes "programmed hw pm m0 False ws f" "length ws < app_words hw" and full: "8 \<le> length ws" "length ws mod 8 = 7"
  obtains f2 where "fc_read pm (app_word hw (length ws)) (snd (fc_write pm (app_word hw (length ws)) w f)) = (w, f2)"
    and "programmed hw pm m0 False (ws @ [w]) f2"
proof -
  note p = assms(1) [unfolded programmed_def]
  define b where "b = length ws div 8"
  define f1 where "f1 = f\<lparr>flash_cache := [line0 hw (ws @ [w]), block_line hw (ws @ [w])]\<rparr>"
  have len: "length ws = 8 * b + 7" "1 \<le> b"
    using full div_mult_mod_eq [of "length ws" 8] by (simp_all add: b_def)
  have sel: "fc_line_select (app_word hw (length ws)) f1 = Some 1"
    using p assms(2) len
    by (simp add: fc_line_select_def find_two f1_def app_word_tag line0_def block_line_def app_word_inj)
  obtain m' where w: "up_progmem_write pm (app_word hw (8 * b)) (block (ws @ [w]) b) (progmem_mem f) = (32, m')"
    and a: "area hw m0 (\<lambda>i. if i div 8 = b then block (ws @ [w]) b ! (i mod 8) else stored False ws i) m'"
    by (rule write_block [of hw pm m0 "stored False ws" "progmem_mem f" b "block (ws @ [w]) b"])
      (use p assms(2) len in \<open>simp_all add: stored_def\<close>)
  have fl: "fc_flush pm 1 f1 = (0, f1\<lparr>progmem_mem := m'\<rparr>)"
    using w len by (simp add: fc_flush_def f1_def block_line_def)
  have "(if i div 8 = b then block (ws @ [w]) b ! (i mod 8) else stored False ws i) = stored False (ws @ [w]) i" for i
  proof (cases "i div 8 = b")
    case True
    then have "block (ws @ [w]) b ! (i mod 8) = img (ws @ [w]) i"
      by (auto simp: block_nth)
    with True len show ?thesis
      by (auto simp: stored_def)
  qed (use len in \<open>auto simp: stored_def img_snoc\<close>)
  from area_cong [OF this a] have a': "area hw m0 (stored False (ws @ [w])) m'" .
  define f2 where "f2 = upd_line 1 (\<lambda>_. fcl_reset) (f1\<lparr>progmem_mem := m'\<rparr>)"
  have "programmed hw pm m0 False (ws @ [w]) f2"
    using p assms(2) len a' by (simp add: f1_def f2_def upd_line_def programmed_def line1_def filling_def)
  moreover have "fc_read pm (app_word hw (length ws)) f1 = (w, f2)"
    using p assms(2) sel fl len
    by (simp add: fc_read_def Let_def app_word_indx f1_def f2_def block_line_def block_nth img_snoc)
  moreover have "snd (fc_write pm (app_word hw (length ws)) w f) = f1"
    using full(1) by (simp add: write_cached [OF assms(1,2)] f1_def)
  ultimately show ?thesis
    using that by simp
qed

text \<open>A word written and read back is in the flash, or waits in the cache to be.\<close>

lemma programmed_write:
  assumes "programmed hw pm m0 False ws f" "length ws < app_words hw"
  obtains f2 where "fc_read pm (app_word hw (length ws)) (snd (fc_write pm (app_word hw (length ws)) w f)) = (w, f2)"
    and "programmed hw pm m0 False (ws @ [w]) f2"
proof (cases "8 \<le> length ws \<and> length ws mod 8 = 7")
  case True
  then show ?thesis
    using programmed_snoc_last [OF assms] that by blast
next
  case False
  from programmed_read [OF programmed_snoc [OF assms False] assms(2)] obtain fl f2 where
    r: "fc_read pm (app_word hw (length ws)) (snd (fc_write pm (app_word hw (length ws)) w f)) = (img (ws @ [w]) (length ws), f2)"
      "programmed hw pm m0 fl (ws @ [w]) f2"
      "\<not> (filling False (ws @ [w]) \<and> length ws = 8 * (length (ws @ [w]) div 8) + 7) \<Longrightarrow> fl = False"
    by blast
  have "\<not> (filling False (ws @ [w]) \<and> length ws = 8 * (length (ws @ [w]) div 8) + 7)"
    by (auto simp: filling_def)
  with r that show ?thesis
    by (simp add: img_snoc)
qed

lemma area_read: "area hw m0 g m \<Longrightarrow> i < app_words hw \<Longrightarrow> m (app_word hw i) = g i"
  by (simp add: area_def)

text \<open>Writing the first word again releases what is still in the cache: then the whole image is in the flash.\<close>

lemma flush_fragment:
  assumes "programmed hw pm m0 flushed ws f" "8 \<le> length ws"
    and fa: "flash_cache fa ! 1 = line1 hw flushed ws" "progmem_mem fa = progmem_mem f"
  obtains m1 where "(if fc_is_dirty (line1 hw flushed ws) then fc_flush pm 1 fa else (0, fa)) = (0, fa\<lparr>progmem_mem := m1\<rparr>)"
    and "area hw m0 (stored True ws) m1"
proof (cases "filling flushed ws")
  case True
  obtain m' where m': "fc_flush pm 1 fa = (0, fa\<lparr>progmem_mem := m'\<rparr>)" "area hw m0 (stored True ws) m'"
    using flush_line1 [OF assms(1) True] fc_flush_written [of pm fa 1] fa by metis
  have "index (line1 hw flushed ws) \<noteq> FC_CLEAN"
  proof
    assume "index (line1 hw flushed ws) = FC_CLEAN"
    then have "(word_of_nat (length ws mod 8) :: u32) = 0"
      using True by (simp add: line1_def filling_def FC_CLEAN_def)
    moreover have "unat (word_of_nat (length ws mod 8) :: u32) = length ws mod 8"
      by (simp add: unsigned_of_nat take_bit_nat_eq_self)
    ultimately show False
      using True by (simp add: filling_def)
  qed
  then show ?thesis
    using that m' by (simp add: fc_is_dirty_def)
next
  case False
  have "stored flushed ws i = stored True ws i" for i
    using False assms(2) by (auto simp: stored_def img_def filling_def)
  then have "area hw m0 (stored True ws) (progmem_mem f)"
    using assms(1) by (auto simp: programmed_def elim: area_cong [rotated])
  moreover have "\<not> fc_is_dirty (line1 hw flushed ws)"
    using False by (simp add: line1_def fc_is_dirty_def fcl_reset_def FC_CLEAN_def)
  ultimately show ?thesis
    using that [of "progmem_mem f"] fa(2) by simp
qed

lemma programmed_release:
  fixes w :: u32
  assumes "programmed hw pm m0 flushed ws f" "8 \<le> length ws"
  defines "f1 \<equiv> snd (fc_write pm (app_word hw 0) w f)"
  shows "area hw m0 (img (ws[0 := w])) (progmem_mem f1)" and "fc_read pm (app_word hw 0) f1 = (w, f1)"
proof -
  note p = assms(1) [unfolded programmed_def]
  have pos: "0 < app_words hw"
    using p assms(2) by linarith
  have indx: "FC_ADDR2INDX (app_word hw 0) = 0"
    using p pos by (simp add: app_word_indx)
  have sel: "fc_line_select (app_word hw 0) f = Some 0"
    using programmed_select [OF assms(1) pos] by simp
  define l0 where "l0 = (line0 hw ws)\<lparr>words := block (ws[0 := w]) 0\<rparr>"
  define fa where "fa = f\<lparr>flash_cache := [l0, line1 hw flushed ws]\<rparr>"
  have blk: "(block ws 0)[0 := w] = block (ws[0 := w]) 0"
    using assms(2) by (intro nth_equalityI) (auto simp: block_nth img_def nth_list_update simp del: length_greater_0_conv)
  have fa: "upd_line 0 (\<lambda>l. l\<lparr>words := (words l)[0 := w]\<rparr>) f = fa"
    using p by (simp add: upd_line_def fa_def l0_def line0_def blk)
  obtain m1 where m1: "(if fc_is_dirty (line1 hw flushed ws) then fc_flush pm 1 fa else (0, fa)) = (0, fa\<lparr>progmem_mem := m1\<rparr>)"
    and a1: "area hw m0 (stored True ws) m1"
    by (rule flush_fragment [OF assms(1,2), of fa]) (auto simp: fa_def)
  obtain m2 where w2: "up_progmem_write pm (app_word hw (8 * 0)) (block (ws[0 := w]) 0) m1 = (32, m2)"
    and a2: "area hw m0 (\<lambda>i. if i div 8 = 0 then block (ws[0 := w]) 0 ! (i mod 8) else stored True ws i) m2"
    by (rule write_block [of hw pm m0 "stored True ws" m1 0 "block (ws[0 := w]) 0"])
      (use p pos a1 in \<open>simp_all add: stored_def\<close>)
  have fl0: "fc_flush pm 0 (fa\<lparr>progmem_mem := m1\<rparr>) = (0, fa\<lparr>progmem_mem := m2\<rparr>)"
    using w2 by (simp add: fc_flush_def fa_def l0_def line0_def)
  have fa7: "index (flash_cache fa ! 0) = 7" and fa1: "flash_cache fa ! 1 = line1 hw flushed ws"
    using assms(2) by (auto simp: fa_def l0_def line0_def)
  have "fc_write pm (app_word hw 0) w f =
    (let (rv, g) = (if fc_is_dirty (flash_cache fa ! 1) then fc_flush pm 1 fa else (0, fa))
     in if rv \<noteq> 0 then (- 1, upd_line 1 (\<lambda>_. fcl_reset) g)
        else let (rv, g) = fc_flush pm 0 g in (rv, upd_line 0 (\<lambda>_. fcl_reset) g))"
    unfolding fc_write_def sel indx using fa fa7 by simp
  then have f1: "f1 = f\<lparr>flash_cache := [fcl_reset, line1 hw flushed ws], progmem_mem := m2\<rparr>"
    unfolding f1_def fa1 m1 using fl0 by (simp add: upd_line_def) (simp add: fa_def)
  have "(if i div 8 = 0 then block (ws[0 := w]) 0 ! (i mod 8) else stored True ws i) = img (ws[0 := w]) i" for i
    by (auto simp: block_nth stored_def img_def div_eq_0_iff)
  from area_cong [OF this a2] have a: "area hw m0 (img (ws[0 := w])) m2" .
  then show "area hw m0 (img (ws[0 := w])) (progmem_mem f1)"
    by (simp add: f1)
  have "8 * (length ws div 8) \<le> app_words hw" "1 \<le> length ws div 8"
    using p assms(2) by linarith+
  then have "fc_line_select (app_word hw 0) f1 = None"
    using p pos app_word_not_ones [of hw 0] by (auto simp: fc_line_select_def find_two f1 app_word_tag line1_def fcl_reset_def
      filling_def app_word_inj)
  moreover have "m2 (app_word hw 0) = w"
    using area_read [OF a pos] assms(2) by (auto simp: img_def)
  ultimately show "fc_read pm (app_word hw 0) f1 = (w, f1)"
    by (simp add: fc_read_def f1)
qed

end
