(* ===== verification/Bl_Serial.thy ===== *)
theory Bl_Serial
  imports Bl_Flash Crc "HOL-Library.Monad_Syntax"
begin

text \<open>
  The serial bootloader, \<^verbatim>\<open>src/platforms/nuttx/src/bootloader/common/bl.c\<close>, with the functions of
  \<^verbatim>\<open>stm/stm32_common/main.c\<close> that it calls: a host uploads an image over USB or a serial port, command by command.

  Time and input are a list of polls: at each poll of the ports the milliseconds that have passed and the bytes that
  have arrived before it, and the milliseconds that pass until the timer is looked at. \<open>None\<close> is waiting for a
  poll beyond the list.
\<close>

section \<open>Constants\<close>

definition BL_PROTOCOL_VERSION :: u32 where [simp]: "BL_PROTOCOL_VERSION = 5"
definition PROTO_INSYNC :: u8 where [simp]: "PROTO_INSYNC = 0x12"
definition PROTO_EOC :: u8 where [simp]: "PROTO_EOC = 0x20"
definition PROTO_OK :: u8 where [simp]: "PROTO_OK = 0x10"
definition PROTO_FAILED :: u8 where [simp]: "PROTO_FAILED = 0x11"
definition PROTO_INVALID :: u8 where [simp]: "PROTO_INVALID = 0x13"
definition PROTO_GET_SYNC :: u8 where [simp]: "PROTO_GET_SYNC = 0x21"
definition PROTO_GET_DEVICE :: u8 where [simp]: "PROTO_GET_DEVICE = 0x22"
definition PROTO_CHIP_ERASE :: u8 where [simp]: "PROTO_CHIP_ERASE = 0x23"
definition PROTO_PROG_MULTI :: u8 where [simp]: "PROTO_PROG_MULTI = 0x27"
definition PROTO_GET_CRC :: u8 where [simp]: "PROTO_GET_CRC = 0x29"
definition PROTO_GET_OTP :: u8 where [simp]: "PROTO_GET_OTP = 0x2a"
definition PROTO_GET_SN :: u8 where [simp]: "PROTO_GET_SN = 0x2b"
definition PROTO_GET_CHIP :: u8 where [simp]: "PROTO_GET_CHIP = 0x2c"
definition PROTO_SET_DELAY :: u8 where [simp]: "PROTO_SET_DELAY = 0x2d"
definition PROTO_GET_CHIP_DES :: u8 where [simp]: "PROTO_GET_CHIP_DES = 0x2e"
definition PROTO_BOOT :: u8 where [simp]: "PROTO_BOOT = 0x30"
definition PROTO_DEBUG :: u8 where [simp]: "PROTO_DEBUG = 0x31"
definition PROTO_DEVICE_BL_REV :: u8 where [simp]: "PROTO_DEVICE_BL_REV = 1"
definition PROTO_DEVICE_BOARD_ID :: u8 where [simp]: "PROTO_DEVICE_BOARD_ID = 2"
definition PROTO_DEVICE_BOARD_REV :: u8 where [simp]: "PROTO_DEVICE_BOARD_REV = 3"
definition PROTO_DEVICE_FW_SIZE :: u8 where [simp]: "PROTO_DEVICE_FW_SIZE = 4"
definition PROTO_DEVICE_VEC_AREA :: u8 where [simp]: "PROTO_DEVICE_VEC_AREA = 5"

definition STATE_PROTO_GET_SYNC :: u32 where "STATE_PROTO_GET_SYNC = BIT 0"
definition STATE_PROTO_GET_DEVICE :: u32 where "STATE_PROTO_GET_DEVICE = BIT 1"
definition STATE_PROTO_CHIP_ERASE :: u32 where "STATE_PROTO_CHIP_ERASE = BIT 2"
definition STATE_PROTO_PROG_MULTI :: u32 where "STATE_PROTO_PROG_MULTI = BIT 3"
definition STATE_PROTO_GET_CRC :: u32 where "STATE_PROTO_GET_CRC = BIT 4"
definition STATE_PROTO_GET_SN :: u32 where "STATE_PROTO_GET_SN = BIT 6"
definition STATE_PROTO_GET_CHIP :: u32 where "STATE_PROTO_GET_CHIP = BIT 7"
definition STATE_PROTO_GET_CHIP_DES :: u32 where "STATE_PROTO_GET_CHIP_DES = BIT 8"

definition STATE_ALLOWS_ERASE :: u32 where
  "STATE_ALLOWS_ERASE = STATE_PROTO_GET_SYNC OR STATE_PROTO_GET_DEVICE"

definition STATE_ALLOWS_REBOOT :: u32 where
  "STATE_ALLOWS_REBOOT = STATE_ALLOWS_ERASE OR STATE_PROTO_PROG_MULTI OR STATE_PROTO_GET_CRC"

definition NONE :: u8 where [simp]: "NONE = 0"
definition USART :: u8 where [simp]: "USART = 1"
definition USB :: u8 where [simp]: "USB = 2"
definition USB0_DEV :: u32 where [simp]: "USB0_DEV = 0x01"
definition SERIAL0_DEV :: u32 where [simp]: "SERIAL0_DEV = 0x02"

definition TIMER_BL_WAIT :: nat where [simp]: "TIMER_BL_WAIT = 0"
definition TIMER_CIN :: nat where [simp]: "TIMER_CIN = 1"
definition TIMER_LED :: nat where [simp]: "TIMER_LED = 2"
definition TIMER_DELAY :: nat where [simp]: "TIMER_DELAY = 3"

definition BOOT_DELAY_SIGNATURE1 :: u32 where "BOOT_DELAY_SIGNATURE1 = 0x92c2ecff"
definition BOOT_DELAY_SIGNATURE2 :: u32 where "BOOT_DELAY_SIGNATURE2 = 0xc5057d5d"
definition BOOT_DELAY_MAX :: u8 where "BOOT_DELAY_MAX = 30"
definition MAX_DES_LENGTH :: nat where "MAX_DES_LENGTH = 20"

section \<open>State\<close>

datatype led_state = LED_BLINK | LED_ON | LED_OFF

record poll =
  before_ms :: nat
  usb_arrived :: "u8 list"
  uart_arrived :: "u8 list"
  after_ms :: nat

record bl_serial =
  bl_type :: u8
  last_input :: u8
  timer :: "u32 list"
  led_st :: led_state
  led_activity :: bool
  led_bootloader :: bool
  led_red :: bool
  cin_count :: u32
  usb_rx :: "u8 list"
  uart_rx :: "u8 list"
  usb_tx :: "u8 list"
  uart_tx :: "u8 list"
  polls :: "poll list"
  flash_st :: flash
  bl_state :: u32
  address :: u32
  first_word :: u32
  bl_timeout :: u32
  flash_buffer :: "u8 list"

section \<open>Receive ring\<close>

record rx_ring =
  ring_head :: nat
  ring_tail :: nat
  rx_buf :: "u8 list"

definition buf_put :: "u8 \<Rightarrow> rx_ring \<Rightarrow> rx_ring" where
  "buf_put b r =
     (let nxt = (ring_head r + 1) mod 256
      in if nxt \<noteq> ring_tail r
         then r\<lparr>rx_buf := (rx_buf r)[ring_head r := b], ring_head := nxt\<rparr>
         else r)"

definition buf_get :: "rx_ring \<Rightarrow> int \<times> rx_ring" where
  "buf_get r =
     (if ring_tail r \<noteq> ring_head r
      then (uint (rx_buf r ! ring_tail r), r\<lparr>ring_tail := (ring_tail r + 1) mod 256\<rparr>)
      else (- 1, r))"

section \<open>Timers and lights\<close>

definition tick_timer :: "nat \<Rightarrow> bl_serial \<Rightarrow> bl_serial" where
  "tick_timer i s =
     (if timer s ! i > 0
      then s\<lparr>timer := (timer s)[i := timer s ! i - 1], led_red := True, led_activity := \<not> led_activity s\<rparr>
      else s)"

definition sys_tick_handler :: "bl_serial \<Rightarrow> bl_serial" where
  "sys_tick_handler s =
     (let s = fold tick_timer [0..<4] s
      in if led_st s = LED_BLINK \<and> timer s ! TIMER_LED = 0
         then s\<lparr>led_red := True, led_bootloader := \<not> led_bootloader s, timer := (timer s)[TIMER_LED := 50]\<rparr>
         else s)"

text \<open>The loop of \<^verbatim>\<open>delay\<close> ends with the tick that brings the timer to 0.\<close>

definition delay :: "u32 \<Rightarrow> bl_serial \<Rightarrow> bl_serial" where
  "delay msec s = (sys_tick_handler ^^ unat msec) (s\<lparr>timer := (timer s)[TIMER_DELAY := msec]\<rparr>)"

definition led_set :: "led_state \<Rightarrow> bl_serial \<Rightarrow> bl_serial" where
  "led_set st s =
     (let s = s\<lparr>led_st := st\<rparr>
      in case st of
           LED_OFF \<Rightarrow> s\<lparr>led_bootloader := False\<rparr>
         | LED_ON \<Rightarrow> s\<lparr>led_bootloader := True\<rparr>
         | LED_BLINK \<Rightarrow> s\<lparr>timer := (timer s)[TIMER_LED := 0]\<rparr>)"

section \<open>Input and output\<close>

definition board_get_devices :: "hw_config \<Rightarrow> bool \<Rightarrow> u32" where
  "board_get_devices hw usb_connected =
     (let devices = BOOT_DEVICES_SELECTION hw
      in if usb_connected then devices AND BOOT_DEVICES_FILTER_ONUSB hw else devices)"

definition cin :: "u32 \<Rightarrow> bl_serial \<Rightarrow> int \<times> bl_serial" where
  "cin devices s =
     (if (bl_type s = NONE \<or> bl_type s = USB) \<and> devices AND USB0_DEV \<noteq> 0 \<and> usb_rx s \<noteq> []
      then (uint (hd (usb_rx s)), s\<lparr>usb_rx := tl (usb_rx s), last_input := USB\<rparr>)
      else if (bl_type s = NONE \<or> bl_type s = USART) \<and> devices AND SERIAL0_DEV \<noteq> 0 \<and> uart_rx s \<noteq> []
      then (uint (hd (uart_rx s)), s\<lparr>uart_rx := tl (uart_rx s), last_input := USART\<rparr>)
      else (- 1, s))"

definition cout :: "u8 list \<Rightarrow> bl_serial \<Rightarrow> bl_serial" where
  "cout buf s =
     (let s = (if bl_type s = USB then s\<lparr>usb_tx := usb_tx s @ buf\<rparr> else s)
      in if bl_type s = USART then s\<lparr>uart_tx := uart_tx s @ buf\<rparr> else s)"

definition sync_response :: "bl_serial \<Rightarrow> bl_serial" where
  "sync_response = cout [PROTO_INSYNC, PROTO_OK]"

definition invalid_response :: "bl_serial \<Rightarrow> bl_serial" where
  "invalid_response = cout [PROTO_INSYNC, PROTO_INVALID]"

definition failure_response :: "bl_serial \<Rightarrow> bl_serial" where
  "failure_response = cout [PROTO_INSYNC, PROTO_FAILED]"

definition cout_word :: "u32 \<Rightarrow> bl_serial \<Rightarrow> bl_serial" where
  "cout_word val = cout (le_bytes32 val)"

definition arrive :: "poll \<Rightarrow> bl_serial \<Rightarrow> bl_serial" where
  "arrive e s = (let s = (sys_tick_handler ^^ before_ms e) s
     in s\<lparr>usb_rx := usb_rx s @ usb_arrived e, uart_rx := uart_rx s @ uart_arrived e\<rparr>)"

fun cin_loop :: "u32 \<Rightarrow> poll list \<Rightarrow> bl_serial \<Rightarrow> (int \<times> bl_serial) option" where
  "cin_loop devices [] s = None"
| "cin_loop devices (e # es) s =
     (let (c, s) = cin devices (arrive e s);
          s = (sys_tick_handler ^^ after_ms e) s
      in if c \<ge> 0 then Some (c, s\<lparr>cin_count := cin_count s + 1, polls := es\<rparr>)
         else if timer s ! TIMER_CIN > 0 then cin_loop devices es s
         else Some (c, s\<lparr>polls := es\<rparr>))"

definition cin_wait :: "u32 \<Rightarrow> u32 \<Rightarrow> bl_serial \<Rightarrow> (int \<times> bl_serial) option" where
  "cin_wait devices t s = cin_loop devices (polls s) (s\<lparr>timer := (timer s)[TIMER_CIN := t]\<rparr>)"

definition wait_for_eoc :: "u32 \<Rightarrow> u32 \<Rightarrow> bl_serial \<Rightarrow> (bool \<times> bl_serial) option" where
  "wait_for_eoc devices t s = do {
     (c, s) \<leftarrow> cin_wait devices t s;
     Some (c = uint PROTO_EOC, s) }"

text \<open>Reading \<open>n\<close> bytes, each with its own timeout; the first that does not come ends it.\<close>

fun cin_bytes :: "u32 \<Rightarrow> u32 \<Rightarrow> nat \<Rightarrow> u8 list \<Rightarrow> bl_serial \<Rightarrow> (u8 list option \<times> u8 list \<times> bl_serial) option" where
  "cin_bytes devices t 0 got s = Some (Some got, got, s)"
| "cin_bytes devices t (Suc n) got s = do {
     (c, s) \<leftarrow> cin_wait devices t s;
     if c < 0 then Some (None, got, s) else cin_bytes devices t n (got @ [word_of_int c]) s }"

definition word_at :: "u8 list \<Rightarrow> nat \<Rightarrow> u32" where
  "word_at b i = rd32 (\<lambda>a. b ! a) (4 * i)"

definition cin_word :: "u32 \<Rightarrow> u32 \<Rightarrow> bl_serial \<Rightarrow> (u32 option \<times> bl_serial) option" where
  "cin_word devices t s = do {
     (r, _, s) \<leftarrow> cin_bytes devices t 4 [] s;
     Some (map_option (\<lambda>b. word_at b 0) r, s) }"

section \<open>Checksum\<close>

definition crctab_bit :: "u32 \<Rightarrow> u32" where
  "crctab_bit c = (if c AND 1 \<noteq> 0 then 0xedb88320 XOR drop_bit 1 c else drop_bit 1 c)"

definition crctab :: "u32 list" where
  "crctab = map (\<lambda>i. (crctab_bit ^^ 8) (word_of_nat i)) [0..<256]"

definition crc32 :: "u8 list \<Rightarrow> u32 \<Rightarrow> u32" where
  "crc32 src state =
     foldl (\<lambda>state b. crctab ! unat ((state XOR ucast b) AND 0xff) XOR drop_bit 8 state) state src"

section \<open>Commands\<close>

text \<open>
  How the handling of a command ends: with the reply for success (\<open>Break\<close>), at one of the labels \<^verbatim>\<open>cmd_bad\<close> and
  \<^verbatim>\<open>cmd_fail\<close>, with the next command at once, or with the end of the bootloader.
\<close>

datatype outcome = Break | Bad | Fail | Continue | Return

definition SET_BL_STATE :: "u32 \<Rightarrow> bl_serial \<Rightarrow> bl_serial" where
  "SET_BL_STATE f s = s\<lparr>bl_state := bl_state s OR f\<rparr>"

definition read_word :: "hw_config \<Rightarrow> progmem \<Rightarrow> u32 \<Rightarrow> bl_serial \<Rightarrow> u32 \<times> bl_serial" where
  "read_word hw pm a s = (let (w, f) = flash_func_read_word hw pm a (flash_st s) in (w, s\<lparr>flash_st := f\<rparr>))"

definition write_word :: "hw_config \<Rightarrow> progmem \<Rightarrow> u32 \<Rightarrow> u32 \<Rightarrow> bl_serial \<Rightarrow> bl_serial" where
  "write_word hw pm a w s = s\<lparr>flash_st := flash_func_write_word hw pm a w (flash_st s)\<rparr>"

text \<open>The addresses \<^verbatim>\<open>0, 4, ...\<close> below a size; the size is at most \<^verbatim>\<open>2^32 - 4\<close>, so that the counter does not wrap.\<close>

definition addresses_below :: "u32 \<Rightarrow> u32 list" where
  "addresses_below n = map (\<lambda>i. word_of_nat (4 * i)) [0..<(unat n + 3) div 4]"

definition cmd_get_sync :: "u32 \<Rightarrow> bl_serial \<Rightarrow> (outcome \<times> bl_serial) option" where
  "cmd_get_sync dev s = do {
     (eoc, s) \<leftarrow> wait_for_eoc dev 2 s;
     if \<not> eoc then Some (Bad, s) else Some (Break, SET_BL_STATE STATE_PROTO_GET_SYNC s) }"

fun cout_vectors :: "hw_config \<Rightarrow> progmem \<Rightarrow> nat list \<Rightarrow> bl_serial \<Rightarrow> bl_serial" where
  "cout_vectors hw pm [] s = s"
| "cout_vectors hw pm (p # ps) s =
     (let (bytes, s) = read_word hw pm (word_of_nat (p * 4)) s in cout_vectors hw pm ps (cout (le_bytes32 bytes) s))"

definition cmd_get_device :: "hw_config \<Rightarrow> progmem \<Rightarrow> u32 \<Rightarrow> bl_serial \<Rightarrow> (outcome \<times> bl_serial) option" where
  "cmd_get_device hw pm dev s = do {
     (arg, s) \<leftarrow> cin_wait dev 1000 s;
     if arg < 0 then Some (Bad, s) else do {
       (eoc, s) \<leftarrow> wait_for_eoc dev 2 s;
       if \<not> eoc then Some (Bad, s)
       else if arg = uint PROTO_DEVICE_BL_REV
         then Some (Break, SET_BL_STATE STATE_PROTO_GET_DEVICE (cout (le_bytes32 BL_PROTOCOL_VERSION) s))
       else if arg = uint PROTO_DEVICE_BOARD_ID
         then Some (Break, SET_BL_STATE STATE_PROTO_GET_DEVICE (cout (le_bytes32 (BOARD_TYPE hw)) s))
       else if arg = uint PROTO_DEVICE_BOARD_REV
         then Some (Break, SET_BL_STATE STATE_PROTO_GET_DEVICE (cout (le_bytes32 0) s))
       else if arg = uint PROTO_DEVICE_FW_SIZE
         then Some (Break, SET_BL_STATE STATE_PROTO_GET_DEVICE (cout (le_bytes32 (app_size_max hw)) s))
       else if arg = uint PROTO_DEVICE_VEC_AREA
         then Some (Break, SET_BL_STATE STATE_PROTO_GET_DEVICE (cout_vectors hw pm [7..<11] s))
       else Some (Bad, s) } }"

function erase_loop :: "hw_config \<Rightarrow> progmem \<Rightarrow> nat \<Rightarrow> flash \<Rightarrow> flash" where
  "erase_loop hw pm i f =
     (if flash_func_sector_size hw i \<noteq> 0 then erase_loop hw pm (Suc i) (flash_func_erase_sector hw pm i f) else f)"
  by pat_completeness auto
termination
  by (relation "measure (\<lambda>(hw, pm, i, f). Suc (BOARD_FLASH_SECTORS hw) - i)")
    (auto simp: flash_func_sector_size_def split: if_splits)

declare erase_loop.simps [simp del]

fun verify_erased :: "hw_config \<Rightarrow> progmem \<Rightarrow> u32 list \<Rightarrow> bl_serial \<Rightarrow> bool \<times> bl_serial" where
  "verify_erased hw pm [] s = (True, s)"
| "verify_erased hw pm (a # as) s =
     (let (w, s) = read_word hw pm a (s\<lparr>address := a\<rparr>)
      in if w \<noteq> 0xffffffff then (False, s) else verify_erased hw pm as s)"

definition cmd_chip_erase :: "hw_config \<Rightarrow> progmem \<Rightarrow> u32 \<Rightarrow> bl_serial \<Rightarrow> (outcome \<times> bl_serial) option" where
  "cmd_chip_erase hw pm dev s = do {
     (eoc, s) \<leftarrow> wait_for_eoc dev 2 s;
     if \<not> eoc then Some (Bad, s)
     else if bl_state s AND STATE_ALLOWS_ERASE \<noteq> STATE_ALLOWS_ERASE then Some (Bad, s)
     else let s = led_set LED_ON s;
              s = s\<lparr>flash_st := erase_loop hw pm 0 (arch_flash_unlock hw (flash_st s))\<rparr>;
              s = led_set LED_OFF s;
              (ok, s) = verify_erased hw pm (addresses_below (app_size_max hw)) s
          in if \<not> ok then Some (Fail, s)
             else Some (Break, led_set LED_BLINK (SET_BL_STATE STATE_PROTO_CHIP_ERASE (s\<lparr>address := 0\<rparr>))) }"

fun prog_loop :: "(u32 \<Rightarrow> u32 \<Rightarrow> 'f \<Rightarrow> 'f) \<Rightarrow> (u32 \<Rightarrow> 'f \<Rightarrow> u32 \<times> 'f) \<Rightarrow> u32 list \<Rightarrow> u32 \<Rightarrow> 'f \<Rightarrow> bool \<times> u32 \<times> 'f" where
  "prog_loop wr rd [] a f = (True, a, f)"
| "prog_loop wr rd (w # ws) a f =
     (let (r, f) = rd a (wr a w f) in if r \<noteq> w then (False, a, f) else prog_loop wr rd ws (a + 4) f)"

definition save_first_word :: "bl_serial \<Rightarrow> bl_serial" where
  "save_first_word s =
     (if address s = 0
      then s\<lparr>first_word := word_at (flash_buffer s) 0, flash_buffer := le_bytes32 0xffffffff @ drop 4 (flash_buffer s)\<rparr>
      else s)"

definition cmd_prog_multi :: "hw_config \<Rightarrow> progmem \<Rightarrow> u32 \<Rightarrow> bl_serial \<Rightarrow> (outcome \<times> bl_serial) option" where
  "cmd_prog_multi hw pm dev s = do {
     (arg, s) \<leftarrow> cin_wait dev 50 s;
     if arg < 0 then Some (Bad, s)
     else if arg mod 4 \<noteq> 0 then Some (Bad, s)
     else if address s + word_of_int arg > app_size_max hw then Some (Bad, s)
     else if arg > 256 then Some (Bad, s)
     else do {
       (all, got, s) \<leftarrow> cin_bytes dev 1000 (nat arg) [] s;
       let s = s\<lparr>flash_buffer := got @ drop (length got) (flash_buffer s)\<rparr>;
       if all = None then Some (Bad, s)
       else do {
         (eoc, s) \<leftarrow> wait_for_eoc dev 200 s;
         if \<not> eoc then Some (Bad, s)
         else let s = save_first_word s;
                  (ok, a, f) = prog_loop (flash_func_write_word hw pm) (flash_func_read_word hw pm)
                    (map (word_at (flash_buffer s)) [0..<nat arg div 4]) (address s) (flash_st s);
                  s = s\<lparr>address := a, flash_st := f\<rparr>
              in if \<not> ok then Some (Fail, s) else Some (Break, SET_BL_STATE STATE_PROTO_PROG_MULTI s) } } }"

fun crc_loop :: "hw_config \<Rightarrow> progmem \<Rightarrow> u32 list \<Rightarrow> u32 \<Rightarrow> bl_serial \<Rightarrow> u32 \<times> bl_serial" where
  "crc_loop hw pm [] chk s = (chk, s)"
| "crc_loop hw pm (p # ps) chk s =
     (let (bytes, s) = (if p = 0 \<and> first_word s \<noteq> 0xffffffff then (first_word s, s) else read_word hw pm p s)
      in crc_loop hw pm ps (crc32 (le_bytes32 bytes) chk) s)"

definition cmd_get_crc :: "hw_config \<Rightarrow> progmem \<Rightarrow> u32 \<Rightarrow> bl_serial \<Rightarrow> (outcome \<times> bl_serial) option" where
  "cmd_get_crc hw pm dev s = do {
     (eoc, s) \<leftarrow> wait_for_eoc dev 2 s;
     if \<not> eoc then Some (Bad, s)
     else let (chk, s) = crc_loop hw pm (addresses_below (app_size_max hw)) 0 s
          in Some (Break, SET_BL_STATE STATE_PROTO_GET_CRC (cout_word chk s)) }"

definition flash_func_read_otp :: "u32 \<Rightarrow> u32" where
  "flash_func_read_otp a = 0"

definition flash_func_read_sn :: "hw_config \<Rightarrow> u32 \<Rightarrow> u32" where
  "flash_func_read_sn hw a = sysmem_uid hw a"

definition cmd_get_otp :: "u32 \<Rightarrow> bl_serial \<Rightarrow> (outcome \<times> bl_serial) option" where
  "cmd_get_otp dev s = do {
     (i, s) \<leftarrow> cin_word dev 100 s;
     case i of None \<Rightarrow> Some (Bad, s) | Some i \<Rightarrow> do {
       (eoc, s) \<leftarrow> wait_for_eoc dev 2 s;
       if \<not> eoc then Some (Bad, s) else Some (Break, cout_word (flash_func_read_otp i) s) } }"

definition cmd_get_sn :: "hw_config \<Rightarrow> u32 \<Rightarrow> bl_serial \<Rightarrow> (outcome \<times> bl_serial) option" where
  "cmd_get_sn hw dev s = do {
     (i, s) \<leftarrow> cin_word dev 100 s;
     case i of None \<Rightarrow> Some (Bad, s) | Some i \<Rightarrow> do {
       (eoc, s) \<leftarrow> wait_for_eoc dev 2 s;
       if \<not> eoc then Some (Bad, s)
       else if i mod 4 \<noteq> 0 \<or> i > ARCH_SN_MAX_LENGTH hw - 4 then Some (Bad, s)
       else Some (Break, SET_BL_STATE STATE_PROTO_GET_SN (cout_word (flash_func_read_sn hw i) s)) } }"

definition get_mcu_id :: "hw_config \<Rightarrow> u32" where
  "get_mcu_id hw = mcu_idcode hw"

definition cmd_get_chip :: "hw_config \<Rightarrow> u32 \<Rightarrow> bl_serial \<Rightarrow> (outcome \<times> bl_serial) option" where
  "cmd_get_chip hw dev s = do {
     (eoc, s) \<leftarrow> wait_for_eoc dev 2 s;
     if \<not> eoc then Some (Bad, s)
     else Some (Break, SET_BL_STATE STATE_PROTO_GET_CHIP (cout_word (get_mcu_id hw) s)) }"

record mcu_des_t =
  mcuid :: u16
  desc :: string
  mcu_rev :: char

definition mcu_descriptions :: "mcu_des_t list" where
  "mcu_descriptions =
     [\<lparr>mcuid = 0, desc = ''STM32???????'', mcu_rev = CHR ''?''\<rparr>,
      \<lparr>mcuid = 0x450, desc = ''STM32H7[4|5]x'', mcu_rev = CHR ''?''\<rparr>]"

definition silicon_revs :: "(u32 \<times> char) list" where
  "silicon_revs = [(0x1003, CHR ''Y''), (0x2001, CHR ''X''), (0x2003, CHR ''V''), (0x1001, CHR ''Z'')]"

text \<open>At most \<^verbatim>\<open>max - 1\<close> characters of the description, then a comma and the revision as far as they fit.\<close>

definition get_mcu_desc :: "hw_config \<Rightarrow> nat \<Rightarrow> u8 list" where
  "get_mcu_desc hw n =
     (let idcode = mcu_idcode hw;
          mid = idcode AND 0xFFF;
          revid = drop_bit 16 (idcode AND 0xFFFF0000);
          des = (case find (\<lambda>d. mid = ucast (mcuid d)) mcu_descriptions of
                   None \<Rightarrow> mcu_descriptions ! 0 | Some d \<Rightarrow> d);
          rev = fold (\<lambda>(r, c) rev. if r = revid then c else rev) silicon_revs (mcu_rev des);
          str = take (n - 1) (desc des);
          str = (if length str < n - 1 then str @ '','' else str);
          str = (if length str < n - 1 then str @ [rev] else str)
      in map (\<lambda>c. word_of_nat (of_char c)) str)"

definition cmd_get_chip_des :: "hw_config \<Rightarrow> u32 \<Rightarrow> bl_serial \<Rightarrow> (outcome \<times> bl_serial) option" where
  "cmd_get_chip_des hw dev s = do {
     (eoc, s) \<leftarrow> wait_for_eoc dev 2 s;
     if \<not> eoc then Some (Bad, s)
     else let buffer = get_mcu_desc hw MAX_DES_LENGTH;
              s = cout_word (word_of_nat (length buffer)) s
          in Some (Break, SET_BL_STATE STATE_PROTO_GET_CHIP_DES (cout buffer s)) }"

definition cmd_set_delay :: "hw_config \<Rightarrow> progmem \<Rightarrow> u32 \<Rightarrow> bl_serial \<Rightarrow> (outcome \<times> bl_serial) option" where
  "cmd_set_delay hw pm dev s = do {
     (v, s) \<leftarrow> cin_wait dev 100 s;
     if v < 0 then Some (Bad, s)
     else let boot_delay = word_of_int v :: u8
          in if boot_delay > BOOT_DELAY_MAX then Some (Bad, s)
          else do {
            (eoc, s) \<leftarrow> wait_for_eoc dev 2 s;
            if \<not> eoc then Some (Bad, s)
            else let (sig1, s) = read_word hw pm (BOOT_DELAY_ADDRESS hw) s;
                     (sig2, s) = read_word hw pm (BOOT_DELAY_ADDRESS hw + 4) s
                 in if sig1 \<noteq> BOOT_DELAY_SIGNATURE1 \<or> sig2 \<noteq> BOOT_DELAY_SIGNATURE2 then Some (Bad, s)
                    else let val = (BOOT_DELAY_SIGNATURE1 AND 0xFFFFFF00) OR ucast boot_delay;
                             s = write_word hw pm (BOOT_DELAY_ADDRESS hw) val s;
                             (r, s) = read_word hw pm (BOOT_DELAY_ADDRESS hw) s
                         in if r \<noteq> val then Some (Fail, s) else Some (Break, s) } }"

definition cmd_boot :: "hw_config \<Rightarrow> progmem \<Rightarrow> u32 \<Rightarrow> bl_serial \<Rightarrow> (outcome \<times> bl_serial) option" where
  "cmd_boot hw pm dev s = do {
     (eoc, s) \<leftarrow> wait_for_eoc dev 1000 s;
     if \<not> eoc then Some (Bad, s)
     else if first_word s \<noteq> 0xffffffff \<and> bl_state s AND STATE_ALLOWS_REBOOT \<noteq> STATE_ALLOWS_REBOOT then Some (Bad, s)
     else if first_word s \<noteq> 0xffffffff
     then let s = write_word hw pm 0 (first_word s) s;
              (r, s) = read_word hw pm 0 s
          in if r \<noteq> first_word s then Some (Fail, s)
             else Some (Return, delay 100 (sync_response (s\<lparr>first_word := 0xffffffff\<rparr>)))
     else Some (Return, delay 100 (sync_response s)) }"

definition bl_command :: "hw_config \<Rightarrow> progmem \<Rightarrow> u32 \<Rightarrow> int \<Rightarrow> bl_serial \<Rightarrow> (outcome \<times> bl_serial) option" where
  "bl_command hw pm dev c s =
     (if c = uint PROTO_GET_SYNC then cmd_get_sync dev s
      else if c = uint PROTO_GET_DEVICE then cmd_get_device hw pm dev s
      else if c = uint PROTO_CHIP_ERASE then cmd_chip_erase hw pm dev s
      else if c = uint PROTO_PROG_MULTI then cmd_prog_multi hw pm dev s
      else if c = uint PROTO_GET_CRC then cmd_get_crc hw pm dev s
      else if c = uint PROTO_GET_OTP then cmd_get_otp dev s
      else if c = uint PROTO_GET_SN then cmd_get_sn hw dev s
      else if c = uint PROTO_GET_CHIP then cmd_get_chip hw dev s
      else if c = uint PROTO_GET_CHIP_DES then cmd_get_chip_des hw dev s
      else if c = uint PROTO_SET_DELAY then cmd_set_delay hw pm dev s
      else if c = uint PROTO_BOOT then cmd_boot hw pm dev s
      else if c = uint PROTO_DEBUG then Some (Break, s)
      else Some (Continue, s))"

definition finish :: "outcome \<Rightarrow> bl_serial \<Rightarrow> bl_serial" where
  "finish out s =
     (case out of
        Break \<Rightarrow> let s = s\<lparr>bl_timeout := 0\<rparr>;
                     s = (if bl_type s = NONE then s\<lparr>bl_type := last_input s\<rparr> else s)
                 in sync_response s
      | Bad \<Rightarrow> (invalid_response s)\<lparr>bl_state := 0\<rparr>
      | Fail \<Rightarrow> failure_response s
      | _ \<Rightarrow> s)"


section \<open>The command loop\<close>

lemma cin_loop_polls: "cin_loop dev es s = Some (c, s') \<Longrightarrow> length (polls s') < length es"
proof (induction dev es s arbitrary: c s' rule: cin_loop.induct)
  case (2 dev e es s)
  then show ?case
    by (auto simp: Let_def split: prod.splits if_splits) fastforce+
qed simp

lemma cin_wait_polls: "cin_wait dev t s = Some (c, s') \<Longrightarrow> length (polls s') < length (polls s)"
  by (simp add: cin_wait_def cin_loop_polls)

text \<open>Waiting for a command: \<open>None\<close> as the byte is the return from the bootloader.\<close>

function wait_command :: "u32 \<Rightarrow> bool \<Rightarrow> bl_serial \<Rightarrow> (int option \<times> bl_serial) option" where
  "wait_command dev usb_connected s =
     (if \<not> usb_connected then Some (None, s)
      else if bl_timeout s \<noteq> 0 \<and> timer s ! TIMER_BL_WAIT = 0 then Some (None, s)
      else case cin_wait dev 0 s of
             None \<Rightarrow> None
           | Some (c, s') \<Rightarrow> if c < 0 then wait_command dev usb_connected s' else Some (Some c, s'))"
  by pat_completeness auto
termination
  by (relation "measure (\<lambda>(dev, u, s). length (polls s))") (auto dest: cin_wait_polls)

declare wait_command.simps [simp del]

text \<open>One pass of the loop; the flag says that the bootloader has returned.\<close>

definition bl_step :: "hw_config \<Rightarrow> progmem \<Rightarrow> bool \<Rightarrow> bl_serial \<Rightarrow> (bool \<times> bl_serial) option" where
  "bl_step hw pm usb_connected s = (let dev = board_get_devices hw usb_connected in do {
     (c, s) \<leftarrow> wait_command dev usb_connected (s\<lparr>led_activity := False\<rparr>);
     case c of
       None \<Rightarrow> Some (True, s)
     | Some c \<Rightarrow> do {
         (out, s) \<leftarrow> bl_command hw pm dev c (s\<lparr>led_activity := True\<rparr>);
         Some (out = Return, finish out s) } })"

definition bootloader_start :: "hw_config \<Rightarrow> u32 \<Rightarrow> bl_serial \<Rightarrow> bl_serial" where
  "bootloader_start hw tmo s =
     (let s = s\<lparr>bl_type := NONE, bl_state := 0, address := app_size_max hw, first_word := 0xffffffff, bl_timeout := tmo\<rparr>;
          s = (if tmo \<noteq> 0 then s\<lparr>timer := (timer s)[TIMER_BL_WAIT := tmo]\<rparr> else s)
      in led_set LED_BLINK s)"

partial_function (option) bootloader_loop :: "hw_config \<Rightarrow> progmem \<Rightarrow> bool \<Rightarrow> bl_serial \<Rightarrow> bl_serial option" where
  [code]: "bootloader_loop hw pm usb_connected s =
     (case bl_step hw pm usb_connected s of
        None \<Rightarrow> None
      | Some (returned, s') \<Rightarrow> if returned then Some s' else bootloader_loop hw pm usb_connected s')"

definition bootloader :: "hw_config \<Rightarrow> progmem \<Rightarrow> u32 \<Rightarrow> bool \<Rightarrow> bl_serial \<Rightarrow> bl_serial option" where
  "bootloader hw pm tmo usb_connected s = bootloader_loop hw pm usb_connected (bootloader_start hw tmo s)"

end
