(* ===== verification/Bl_Upload.thy ===== *)
theory Bl_Upload
  imports Bl_Serial
begin

text \<open>
  Proofs about the serial bootloader: its checksum, its receive ring, what the flash holds at each point of an upload,
  and that a whole upload leaves the image in the flash.
\<close>

section \<open>The table-driven checksum\<close>

lemma crctab_bit_eq: "crctab_bit = crc32_bit"
proof
  fix c :: u32
  have "c AND 1 \<noteq> 0 \<longleftrightarrow> bit c 0"
    by (simp add: and_one_eq bit_0 odd_iff_mod_2_eq_one)
  then show "crctab_bit c = crc32_bit c"
    by (simp add: crctab_bit_def crc32_bit_eq xor.commute)
qed

lemma crc32_step: "crctab ! unat ((c XOR ucast b) AND 0xff) XOR drop_bit 8 c = crc32_add c b"
  using crc32_table_step [of c b] crc32_table_index [of c b] by (simp add: crctab_def crctab_bit_eq)

lemma crc32_is_signature: "crc32 src st = crc32_signature st src"
  by (simp add: crc32_def crc32_signature_def crc32_step)

section \<open>The receive ring\<close>

text \<open>The bytes in the ring, oldest first. It holds up to 255 of them; what does not fit is dropped.\<close>

definition ring_ok :: "rx_ring \<Rightarrow> bool" where
  "ring_ok r \<longleftrightarrow> length (rx_buf r) = 256 \<and> ring_head r < 256 \<and> ring_tail r < 256"

definition ring_len :: "rx_ring \<Rightarrow> nat" where
  "ring_len r = (if ring_tail r \<le> ring_head r then ring_head r - ring_tail r else ring_head r + 256 - ring_tail r)"

definition ring_at :: "nat \<Rightarrow> nat" where
  "ring_at i = (if i < 256 then i else i - 256)"

definition ring_bytes :: "rx_ring \<Rightarrow> u8 list" where
  "ring_bytes r = map (\<lambda>i. rx_buf r ! ring_at (ring_tail r + i)) [0..<ring_len r]"

lemma mod_256: "Suc i mod 256 = (if i = 255 then 0 else Suc i)" if "i < 256"
  using that by simp

lemma buf_put_refines:
  assumes "ring_ok r"
  shows "ring_ok (buf_put b r) \<and>
    ring_bytes (buf_put b r) = (if length (ring_bytes r) < 255 then ring_bytes r @ [b] else ring_bytes r)"
proof -
  note ok = assms [unfolded ring_ok_def]
  define nxt where "nxt = (ring_head r + 1) mod 256"
  have nxt: "nxt = (if ring_head r = 255 then 0 else Suc (ring_head r))"
    using ok mod_256 [of "ring_head r"] by (simp add: nxt_def)
  have full: "nxt = ring_tail r \<longleftrightarrow> \<not> ring_len r < 255"
    using ok by (auto simp: nxt ring_len_def)
  show ?thesis
  proof (cases "nxt = ring_tail r")
    case True
    then show ?thesis
      using assms full by (simp add: buf_put_def Let_def nxt_def ring_bytes_def)
  next
    case False
    define r' where "r' = r\<lparr>rx_buf := (rx_buf r)[ring_head r := b], ring_head := nxt\<rparr>"
    have put: "buf_put b r = r'"
      using False by (simp add: buf_put_def Let_def nxt_def r'_def)
    have len: "ring_len r' = Suc (ring_len r)"
      using False ok by (auto simp: r'_def ring_len_def nxt)
    have at: "ring_at (ring_tail r + ring_len r) = ring_head r"
      "i < ring_len r \<Longrightarrow> ring_head r \<noteq> ring_at (ring_tail r + i)" for i
      using ok by (auto simp: ring_at_def ring_len_def split: if_splits)
    have "ring_bytes r' = ring_bytes r @ [b]"
      using ok at by (simp add: ring_bytes_def len) (simp add: r'_def)
    moreover have "ring_ok r'"
      using ok by (simp add: r'_def ring_ok_def nxt)
    ultimately show ?thesis
      using False full by (simp add: put ring_bytes_def)
  qed
qed

lemma buf_get_refines:
  assumes "ring_ok r"
  shows "ring_ok (snd (buf_get r)) \<and>
    (case ring_bytes r of
       [] \<Rightarrow> buf_get r = (- 1, r)
     | b # bs \<Rightarrow> fst (buf_get r) = uint b \<and> ring_bytes (snd (buf_get r)) = bs)"
proof (cases "ring_tail r = ring_head r")
  case True
  then show ?thesis
    using assms by (simp add: buf_get_def ring_bytes_def ring_len_def)
next
  case False
  note ok = assms [unfolded ring_ok_def]
  define r' where "r' = r\<lparr>ring_tail := (ring_tail r + 1) mod 256\<rparr>"
  have t: "ring_tail r' = (if ring_tail r = 255 then 0 else Suc (ring_tail r))"
    using ok mod_256 [of "ring_tail r"] by (simp add: r'_def)
  have len: "ring_len r = Suc (ring_len r')"
    using ok False t by (auto simp: ring_len_def r'_def)
  have at: "ring_at (ring_tail r) = ring_tail r" "i < ring_len r' \<Longrightarrow> ring_at (Suc (ring_tail r + i)) = ring_at (ring_tail r' + i)" for i
    using ok t by (auto simp: ring_at_def ring_len_def r'_def split: if_splits)
  have "ring_bytes r = rx_buf r ! ring_tail r # ring_bytes r'"
    using at by (simp add: ring_bytes_def len upt_conv_Cons map_Suc_upt [symmetric] del: upt_Suc) (simp add: r'_def)
  moreover have "ring_ok r'"
    using ok t by (simp add: ring_ok_def r'_def)
  ultimately show ?thesis
    using False by (simp add: buf_get_def r'_def)
qed

section \<open>Bytes that arrive\<close>

text \<open>
  The part of the state the commands work on. Waiting for input changes none of it.
\<close>

definition core :: "bl_serial \<Rightarrow> u8 \<times> flash \<times> u32 \<times> u32 \<times> u32 \<times> u32 \<times> u8 list \<times> u8 list \<times> u8 list" where
  "core s = (bl_type s, flash_st s, bl_state s, address s, first_word s, bl_timeout s, flash_buffer s, usb_tx s, uart_tx s)"

lemma core_simps [simp]:
  "core (s\<lparr>timer := t\<rparr>) = core s" "core (s\<lparr>led_activity := b\<rparr>) = core s" "core (s\<lparr>led_bootloader := b\<rparr>) = core s"
  "core (s\<lparr>led_red := b\<rparr>) = core s" "core (s\<lparr>led_st := l\<rparr>) = core s" "core (s\<lparr>cin_count := n\<rparr>) = core s"
  "core (s\<lparr>usb_rx := q\<rparr>) = core s" "core (s\<lparr>uart_rx := q\<rparr>) = core s" "core (s\<lparr>polls := ps\<rparr>) = core s"
  "core (s\<lparr>last_input := i\<rparr>) = core s"
  by (simp_all add: core_def)

lemma core_bl_type: "core s = core s' \<Longrightarrow> bl_type s = bl_type s'"
  by (simp add: core_def)

lemma tick_timer_keeps:
  "core (tick_timer i s) = core s" "usb_rx (tick_timer i s) = usb_rx s" "uart_rx (tick_timer i s) = uart_rx s"
  "polls (tick_timer i s) = polls s" "last_input (tick_timer i s) = last_input s"
  "length (timer (tick_timer i s)) = length (timer s)"
  by (simp_all add: tick_timer_def)

lemma tick_keeps [simp]:
  "core (sys_tick_handler s) = core s" "usb_rx (sys_tick_handler s) = usb_rx s"
  "uart_rx (sys_tick_handler s) = uart_rx s"
  "polls (sys_tick_handler s) = polls s" "last_input (sys_tick_handler s) = last_input s"
  "length (timer (sys_tick_handler s)) = length (timer s)"
  by (simp_all add: sys_tick_handler_def Let_def upt_conv_Cons tick_timer_keeps)

lemma ticks_keep [simp]:
  "core ((sys_tick_handler ^^ n) s) = core s" "usb_rx ((sys_tick_handler ^^ n) s) = usb_rx s"
  "uart_rx ((sys_tick_handler ^^ n) s) = uart_rx s"
  "polls ((sys_tick_handler ^^ n) s) = polls s" "last_input ((sys_tick_handler ^^ n) s) = last_input s"
  "length (timer ((sys_tick_handler ^^ n) s)) = length (timer s)"
  by (induction n) simp_all

lemma arrive_keeps [simp]:
  "core (arrive e s) = core s" "usb_rx (arrive e s) = usb_rx s @ usb_arrived e"
  "uart_rx (arrive e s) = uart_rx s @ uart_arrived e"
  "polls (arrive e s) = polls s" "last_input (arrive e s) = last_input s"
  "length (timer (arrive e s)) = length (timer s)"
  by (simp_all add: arrive_def Let_def)

lemma cin_keeps [simp]:
  "core (snd (cin dev s)) = core s" "polls (snd (cin dev s)) = polls s" "timer (snd (cin dev s)) = timer s"
  by (simp_all add: cin_def)

lemma cin_core: "cin dev s = (c, s') \<Longrightarrow> core s' = core s"
  using cin_keeps(1) [of dev s] by simp

lemma cin_loop_core: "cin_loop dev es s = Some (c, s') \<Longrightarrow> core s' = core s"
proof (induction dev es s arbitrary: c s' rule: cin_loop.induct)
  case (2 dev e es s)
  then show ?case
    by (auto simp: Let_def cin_core split: prod.splits if_splits)
qed simp

lemma cin_wait_core: "cin_wait dev t s = Some (c, s') \<Longrightarrow> core s' = core s"
  by (auto simp: cin_wait_def dest: cin_loop_core)

text \<open>
  The bytes \<open>bs\<close> are what USB brings at the next polls, and every poll up to the last of them finds a byte; they may
  come in packets.
\<close>

fun feeds :: "u8 list \<Rightarrow> u8 list \<Rightarrow> poll list \<Rightarrow> bool" where
  "feeds q [] ps = True"
| "feeds q (b # bs) [] = False"
| "feeds q (b # bs) (e # es) = (case q @ usb_arrived e of [] \<Rightarrow> False | c # q' \<Rightarrow> c = b \<and> feeds q' bs es)"

definition ready :: "u32 \<Rightarrow> u8 list \<Rightarrow> bl_serial \<Rightarrow> bool" where
  "ready dev bs s \<longleftrightarrow> feeds (usb_rx s) bs (polls s) \<and> bl_type s \<in> {NONE, USB} \<and> dev AND USB0_DEV \<noteq> 0"

lemma cin_wait_ready:
  assumes "ready dev (b # bs) s"
  obtains s' where "cin_wait dev t s = Some (uint b, s')" "ready dev bs s'" "core s' = core s" "last_input s' = USB"
proof -
  obtain e es q' where e: "polls s = e # es" "usb_rx s @ usb_arrived e = b # q'" "feeds q' bs es"
    using assms by (auto simp: ready_def neq_Nil_conv elim!: feeds.elims split: list.splits)
  define s0 where "s0 = arrive e (s\<lparr>timer := (timer s)[TIMER_CIN := t]\<rparr>)"
  define s1 where "s1 = (sys_tick_handler ^^ after_ms e) (s0\<lparr>usb_rx := q', last_input := USB\<rparr>)"
  have s0: "core s0 = core s" "usb_rx s0 = b # q'"
    using e(2) by (simp_all add: s0_def)
  have "cin dev s0 = (uint b, s0\<lparr>usb_rx := q', last_input := USB\<rparr>)"
    using assms s0 core_bl_type [OF s0(1)] by (auto simp: cin_def ready_def)
  then have w: "cin_wait dev t s = Some (uint b, s1\<lparr>cin_count := cin_count s1 + 1, polls := es\<rparr>)"
    unfolding cin_wait_def e(1) cin_loop.simps s0_def [symmetric] by (simp add: s1_def Let_def)
  have s1: "core s1 = core s" "usb_rx s1 = q'" "last_input s1 = USB"
    by (simp_all add: s1_def s0)
  show ?thesis
    using assms e(3) core_bl_type [OF s1(1)] by (intro that [OF w]) (simp_all add: ready_def s1)
qed

text \<open>
  A session: USB has been chosen as the port, the timeout is off, and the host is about to send \<open>bs\<close>.
\<close>

definition session ::
  "u32 \<Rightarrow> u8 list \<Rightarrow> u32 \<Rightarrow> u32 \<Rightarrow> u32 \<Rightarrow> flash \<Rightarrow> u8 list \<Rightarrow> bl_serial \<Rightarrow> bool" where
  "session dev bs st ad fw f tx s \<longleftrightarrow> ready dev bs s \<and> bl_type s = USB \<and> bl_timeout s = 0 \<and> bl_state s = st \<and>
     address s = ad \<and> first_word s = fw \<and> flash_st s = f \<and> usb_tx s = tx \<and> length (flash_buffer s) = 256"

lemma session_core:
  "core s' = core s \<Longrightarrow> ready dev bs s' \<Longrightarrow> session dev bs' st ad fw f tx s \<Longrightarrow> session dev bs st ad fw f tx s'"
  by (simp add: session_def core_def)

lemma session_leds [simp]:
  "session dev bs st ad fw f tx (s\<lparr>led_activity := b\<rparr>) = session dev bs st ad fw f tx s"
  "session dev bs st ad fw f tx (led_set l s) = session dev bs st ad fw f tx s"
  by (simp_all add: session_def ready_def led_set_def Let_def split: led_state.split)

lemma session_wait:
  assumes "session dev (b # bs) st ad fw f tx s"
  obtains s' where "cin_wait dev t s = Some (uint b, s')" "session dev bs st ad fw f tx s'" "flash_buffer s' = flash_buffer s"
proof -
  have "ready dev (b # bs) s"
    using assms by (simp add: session_def)
  then obtain s' where r: "cin_wait dev t s = Some (uint b, s')" "ready dev bs s'" "core s' = core s"
    by (rule cin_wait_ready)
  show ?thesis
    by (rule that [OF r(1) session_core [OF r(3,2) assms]]) (use r(3) in \<open>simp add: core_def\<close>)
qed

lemma session_eoc:
  assumes "session dev (PROTO_EOC # bs) st ad fw f tx s"
  obtains s' where "wait_for_eoc dev t s = Some (True, s')" "session dev bs st ad fw f tx s'"
    "flash_buffer s' = flash_buffer s"
proof -
  obtain s' where "cin_wait dev t s = Some (uint PROTO_EOC, s')" "session dev bs st ad fw f tx s'"
      "flash_buffer s' = flash_buffer s"
    by (rule session_wait [OF assms])
  with that show ?thesis
    by (simp add: wait_for_eoc_def)
qed

lemma session_bytes:
  "session dev (ds @ bs) st ad fw f tx s \<Longrightarrow>
   \<exists>s'. cin_bytes dev t (length ds) got s = Some (Some (got @ ds), got @ ds, s') \<and>
        session dev bs st ad fw f tx s' \<and> flash_buffer s' = flash_buffer s"
proof (induction ds arbitrary: got s)
  case (Cons d ds)
  have "session dev (d # (ds @ bs)) st ad fw f tx s"
    using Cons.prems by simp
  then obtain s1 where s1: "cin_wait dev t s = Some (uint d, s1)" "session dev (ds @ bs) st ad fw f tx s1"
      "flash_buffer s1 = flash_buffer s"
    by (rule session_wait)
  from Cons.IH [OF s1(2), of "got @ [d]"] s1 show ?case
    by (auto simp: word_of_int_uint)
qed simp

lemma session_cout: "session dev bs st ad fw f tx s \<Longrightarrow> session dev bs st ad fw f (tx @ buf) (cout buf s)"
  by (simp add: session_def cout_def ready_def)

lemma session_state: "session dev bs st ad fw f tx s \<Longrightarrow> session dev bs (st OR x) ad fw f tx (SET_BL_STATE x s)"
  by (simp add: session_def SET_BL_STATE_def ready_def)

lemma session_flash: "session dev bs st ad fw f tx s \<Longrightarrow> session dev bs st ad fw f' tx (s\<lparr>flash_st := f'\<rparr>)"
  by (simp add: session_def ready_def)

lemma session_address: "session dev bs st ad fw f tx s \<Longrightarrow> session dev bs st ad' fw f tx (s\<lparr>address := ad'\<rparr>)"
  by (simp add: session_def ready_def)

lemma session_finish:
  "session dev bs st ad fw f tx s \<Longrightarrow> session dev bs st ad fw f (tx @ [PROTO_INSYNC, PROTO_OK]) (finish Break s)"
  by (simp add: session_def finish_def sync_response_def cout_def ready_def)

lemma session_command:
  assumes "session (board_get_devices hw True) (b # bs) st ad fw f tx s"
    and "\<And>s1. session (board_get_devices hw True) bs st ad fw f tx s1 \<Longrightarrow>
      \<exists>s2. bl_command hw pm (board_get_devices hw True) (uint b) s1 = Some (out, s2) \<and> Q s2"
  shows "\<exists>s2. bl_step hw pm True s = Some (out = Return, finish out s2) \<and> Q s2"
proof -
  define dev where "dev = board_get_devices hw True"
  have "session dev (b # bs) st ad fw f tx (s\<lparr>led_activity := False\<rparr>)"
    using assms(1) by (simp add: dev_def)
  then obtain s1 where s1: "cin_wait dev 0 (s\<lparr>led_activity := False\<rparr>) = Some (uint b, s1)" "session dev bs st ad fw f tx s1"
    by (rule session_wait)
  have "wait_command dev True (s\<lparr>led_activity := False\<rparr>) = Some (Some (uint b), s1)"
    using assms(1) s1(1) by (subst wait_command.simps) (simp add: session_def)
  moreover obtain s2 where "bl_command hw pm dev (uint b) (s1\<lparr>led_activity := True\<rparr>) = Some (out, s2)" "Q s2"
    using assms(2) [of "s1\<lparr>led_activity := True\<rparr>"] s1(2) by (auto simp: dev_def)
  ultimately show ?thesis
    by (auto simp: bl_step_def simp flip: dev_def)
qed

section \<open>Erasing\<close>

definition erased_mem :: "hw_config \<Rightarrow> nat \<Rightarrow> mem \<Rightarrow> mem" where
  "erased_mem hw i m = (\<lambda>a. if i \<le> sector_of hw a \<and> BOARD_FIRST_FLASH_SECTOR_TO_ERASE hw \<le> sector_of hw a \<and>
     sector_of hw a \<le> BOARD_FLASH_SECTORS hw then - 1 else m a)"

lemma erase_sector_mem:
  assumes "erases hw pm" "i \<le> BOARD_FLASH_SECTORS hw"
  shows "erased_mem hw (Suc i) (progmem_mem (flash_func_erase_sector hw pm i f)) = erased_mem hw i (progmem_mem f)"
proof -
  define m where "m = progmem_mem f"
  have drv: "(up_progmem_ispageerased pm i m = 0) = (\<forall>a. sector_of hw a = i \<longrightarrow> m a = - 1)"
    "up_progmem_eraseblock pm i m = (\<lambda>a. if sector_of hw a = i then - 1 else m a)"
    using assms(1) by (simp_all add: erases_def)
  have "progmem_mem (flash_func_erase_sector hw pm i f) a =
      (if BOARD_FIRST_FLASH_SECTOR_TO_ERASE hw \<le> i \<and> sector_of hw a = i then - 1 else m a)" for a
    using assms(2) by (simp add: flash_func_erase_sector_def Let_def drv flip: m_def)
  then show ?thesis
    using assms(2) by (simp add: fun_eq_iff erased_mem_def flip: m_def) (metis Suc_leD le_antisym not_less_eq_eq)
qed

lemma erase_loop_mem:
  "erases hw pm \<Longrightarrow> i \<le> Suc (BOARD_FLASH_SECTORS hw) \<Longrightarrow>
   erase_loop hw pm i f = f\<lparr>progmem_mem := erased_mem hw i (progmem_mem f)\<rparr>"
proof (induction hw pm i f rule: erase_loop.induct)
  case (1 hw pm i f)
  show ?case
  proof (cases "i \<le> BOARD_FLASH_SECTORS hw")
    case True
    then have "flash_func_sector_size hw i \<noteq> 0"
      by (simp add: flash_func_sector_size_def)
    moreover have "flash_func_erase_sector hw pm i f = f\<lparr>progmem_mem := progmem_mem (flash_func_erase_sector hw pm i f)\<rparr>"
      by (simp add: flash_func_erase_sector_def Let_def)
    ultimately show ?thesis
      using 1 True erase_sector_mem [OF 1(2) True, of f]
      by (subst erase_loop.simps) (metis (no_types, lifting) Suc_le_mono flash.surjective flash.update_convs(2))
  next
    case False
    then have "erased_mem hw i m = m" for m
      by (auto simp: erased_mem_def fun_eq_iff)
    with False show ?thesis
      by (subst erase_loop.simps) (simp add: flash_func_sector_size_def)
  qed
qed

lemma erased_programmed:
  fixes f :: flash
  assumes "board_ok hw" "programs pm" "erases hw pm"
  defines "f' \<equiv> erase_loop hw pm 0 (arch_flash_unlock hw f)"
  shows "programmed hw pm (progmem_mem f') False [] f'" and "progmem_mem f' = erased_mem hw 0 (progmem_mem f)"
proof -
  show m: "progmem_mem f' = erased_mem hw 0 (progmem_mem f)"
    using assms(3) by (simp add: f'_def erase_loop_mem arch_flash_unlock_def fc_reset_def)
  have "flash_cache f' = [line0 hw [], line1 hw False []]"
    using assms(3) by (simp add: f'_def erase_loop_mem arch_flash_unlock_def fc_reset_def line0_def line1_def filling_def
      fcl_reset_def FC_CLEAN_def app_word_0 block_blank numeral_2_eq_2)
  moreover have "area hw (progmem_mem f') (stored False []) (progmem_mem f')"
    using assms(1) by (auto simp: area_def m erased_mem_def stored_def img_def board_ok_def)
  ultimately show "programmed hw pm (progmem_mem f') False [] f'"
    using assms(1,2) by (simp add: programmed_def)
qed

section \<open>Words by offset\<close>

lemma offset_aligned: "(word_of_nat (4 * i) :: u32) AND 3 = 0"
proof -
  have shift: "(word_of_nat (4 * i) :: u32) = push_bit 2 (word_of_nat i)"
    by (simp add: push_bit_eq_mult)
  have mask: "(3 :: u32) = mask 2"
    by (simp add: mask_eq_exp_minus_1)
  show ?thesis
    unfolding shift mask by (rule bit_word_eqI) (auto simp: bit_simps)
qed

lemma read_offset: "flash_func_read_word hw pm (word_of_nat (4 * i)) f = fc_read pm (app_word hw i) f"
  by (simp only: flash_func_read_word_def offset_aligned app_word_def) simp

lemma write_offset: "flash_func_write_word hw pm (word_of_nat (4 * i)) w f = snd (fc_write pm (app_word hw i) w f)"
  by (simp add: flash_func_write_word_def app_word_def)

lemma addresses_app: "board_ok hw \<Longrightarrow> addresses_below (app_size_max hw) = map (\<lambda>i. word_of_nat (4 * i)) [0..<app_words hw]"
proof -
  assume "board_ok hw"
  then have "(unat (app_size_max hw) + 3) div 4 = app_words hw"
    using app_words_mod(3) [of hw] by simp
  then show ?thesis
    by (simp add: addresses_below_def)
qed

lemma verify_erased_ok:
  "programmed hw pm m0 False [] (flash_st s) \<Longrightarrow> set is \<subseteq> {..<app_words hw} \<Longrightarrow>
   \<exists>f a. verify_erased hw pm (map (\<lambda>i. word_of_nat (4 * i)) is) s = (True, s\<lparr>flash_st := f, address := a\<rparr>) \<and>
       programmed hw pm m0 False [] f"
proof (induction "is" arbitrary: s)
  case Nil
  have "s\<lparr>flash_st := flash_st s, address := address s\<rparr> = s"
    by simp
  with Nil show ?case
    by (metis list.simps(8) verify_erased.simps(1))
next
  case (Cons i "is")
  have "i < app_words hw"
    using Cons.prems(2) by simp
  from programmed_read [OF Cons.prems(1) this] obtain f where
    r: "fc_read pm (app_word hw i) (flash_st s) = (img [] i, f)" "programmed hw pm m0 False [] f"
    by (auto simp: filling_def)
  define s1 where "s1 = s\<lparr>address := word_of_nat (4 * i), flash_st := f\<rparr>"
  have "read_word hw pm (word_of_nat (4 * i)) (s\<lparr>address := word_of_nat (4 * i)\<rparr>) = (- 1, s1)"
    unfolding read_word_def read_offset using r(1) by (simp add: img_def s1_def)
  moreover obtain f' a where "verify_erased hw pm (map (\<lambda>i. word_of_nat (4 * i)) is) s1 = (True, s1\<lparr>flash_st := f', address := a\<rparr>)"
      "programmed hw pm m0 False [] f'"
    using Cons.IH [of s1] Cons.prems r(2) by (auto simp: s1_def)
  ultimately show ?case
    by (auto simp: s1_def simp del: of_nat_mult)
qed

section \<open>Programming\<close>

text \<open>
  What the loop that programs and verifies needs of the flash: the word after those it holds can be written and is
  read back.
\<close>

locale word_flash =
  fixes wr :: "u32 \<Rightarrow> u32 \<Rightarrow> 'f \<Rightarrow> 'f" and rd :: "u32 \<Rightarrow> 'f \<Rightarrow> u32 \<times> 'f"
    and holds :: "u32 list \<Rightarrow> 'f \<Rightarrow> bool" and room :: nat
  assumes write_read: "holds ws f \<Longrightarrow> length ws < room \<Longrightarrow>
    \<exists>f'. rd (word_of_nat (4 * length ws)) (wr (word_of_nat (4 * length ws)) w f) = (w, f') \<and> holds (ws @ [w]) f'"
begin

lemma prog_loop_holds:
  "holds ws f \<Longrightarrow> length ws + length vs \<le> room \<Longrightarrow>
   \<exists>f'. prog_loop wr rd vs (word_of_nat (4 * length ws)) f = (True, word_of_nat (4 * (length ws + length vs)), f') \<and>
        holds (ws @ vs) f'"
proof (induction vs arbitrary: ws f)
  case (Cons v vs)
  then obtain f1 where f1: "rd (word_of_nat (4 * length ws)) (wr (word_of_nat (4 * length ws)) v f) = (v, f1)" "holds (ws @ [v]) f1"
    using write_read [of ws f v] by auto
  have "(word_of_nat (4 * length ws) + 4 :: u32) = word_of_nat (4 * length (ws @ [v]))"
    by simp
  with Cons.IH [OF f1(2)] Cons.prems(2) f1(1) show ?case
    by (simp add: ac_simps del: of_nat_mult)
qed simp

end

interpretation fc: word_flash "flash_func_write_word hw pm" "flash_func_read_word hw pm" "programmed hw pm m0 False" "app_words hw"
  for hw pm m0
  by unfold_locales (metis programmed_write read_offset write_offset)

text \<open>The words of a buffer that starts with the bytes of given words.\<close>

lemma word_at_bytes:
  "i < length ws \<Longrightarrow> word_at (concat (map le_bytes32 ws) @ rest) i = ws ! i"
proof -
  assume i: "i < length ws"
  define b where "b = concat (map le_bytes32 ws) @ rest"
  have len: "length (concat (map le_bytes32 vs)) = 4 * length vs" for vs
    by (induction vs) simp_all
  have "b = concat (map le_bytes32 (take i ws)) @ le_bytes32 (ws ! i) @ concat (map le_bytes32 (drop (Suc i) ws)) @ rest"
    unfolding b_def by (subst id_take_nth_drop [OF i]) simp
  then have at: "b ! (4 * i + j) = le_bytes32 (ws ! i) ! j" if "j < 4" for j
    using that i len [of "take i ws"] by (simp add: nth_append)
  have "rd16 ((!) b) (4 * i) = ucast (ws ! i)" "rd16 ((!) b) (4 * i + 2) = ucast (drop_bit 16 (ws ! i))"
    by (rule rd16_le; use at [of 0] at [of 1] at [of 2] at [of 3] in \<open>simp add: le_bytes32_def le_bytes_def numeral_eq_Suc\<close>)+
  then show ?thesis
    unfolding word_at_def b_def [symmetric] by (rule rd32_le)
qed

definition word_bytes :: "u32 list \<Rightarrow> u8 list" where
  "word_bytes ws = concat (map le_bytes32 ws)"

lemma length_word_bytes [simp]: "length (word_bytes ws) = 4 * length ws"
  by (induction ws) (simp_all add: word_bytes_def)

text \<open>The image as it is programmed before the last step: its first word is held back.\<close>

definition blank_first :: "u32 list \<Rightarrow> u32 list" where
  "blank_first ws = ws[0 := - 1]"

lemma length_blank_first [simp]: "length (blank_first ws) = length ws"
  by (simp add: blank_first_def)

lemma blank_first_append: "ws \<noteq> [] \<Longrightarrow> blank_first (ws @ vs) = blank_first ws @ vs"
  by (cases ws) (simp_all add: blank_first_def)

lemma ones_word: "(0xffffffff :: u32) = - 1"
  by simp

lemma saved_words:
  assumes "vs \<noteq> []" "address s = word_of_nat (4 * n)" "n = 0 \<longleftrightarrow> ws = []" "4 * n < 2 ^ 32"
    and "flash_buffer s = word_bytes vs @ rest"
  shows "map (word_at (flash_buffer (save_first_word s))) [0..<length vs] = (if ws = [] then blank_first vs else vs)"
    and "first_word (save_first_word s) = (if ws = [] then vs ! 0 else first_word s)"
proof -
  have addr: "address s = 0 \<longleftrightarrow> ws = []"
    using assms(2-4) by (simp add: word_unat_eq_iff unsigned_of_nat take_bit_nat_eq_self del: of_nat_mult)
  have all: "map (word_at (word_bytes us @ r)) [0..<length us] = us" for us r
    by (rule nth_equalityI) (simp_all add: word_at_bytes word_bytes_def)
  have "le_bytes32 0xffffffff @ drop 4 (word_bytes vs @ rest) = word_bytes (blank_first vs) @ rest"
    unfolding ones_word using assms(1) by (cases vs) (simp_all add: word_bytes_def blank_first_def)
  then show "map (word_at (flash_buffer (save_first_word s))) [0..<length vs] = (if ws = [] then blank_first vs else vs)"
    using all [of "blank_first vs" rest] all [of vs rest] by (simp add: save_first_word_def addr assms(5))
  show "first_word (save_first_word s) = (if ws = [] then vs ! 0 else first_word s)"
    using assms(1) word_at_bytes [of 0 vs rest] by (simp add: save_first_word_def addr assms(5) word_bytes_def)
qed

lemma fits_area:
  assumes "board_ok hw" "n + k \<le> app_words hw"
  shows "\<not> (word_of_nat (4 * n) + word_of_int (int (4 * k)) > app_size_max hw)" and "4 * n < 2 ^ 32"
proof -
  have "4 * app_words hw < 2 ^ 32"
    using app_words_mod(3) [OF assms(1)] unsigned_less [where 'a = nat, of "app_size_max hw"] by simp
  then have le: "4 * (n + k) < 2 ^ 32"
    using assms(2) by simp
  then show "4 * n < 2 ^ 32"
    by simp
  have "unat (word_of_nat (4 * (n + k)) :: u32) = 4 * (n + k)"
    using le by (simp only: unsigned_of_nat) (simp add: take_bit_nat_eq_self)
  moreover have "word_of_nat (4 * n) + word_of_int (int (4 * k)) = (word_of_nat (4 * (n + k)) :: u32)"
    by (simp add: algebra_simps)
  ultimately show "\<not> (word_of_nat (4 * n) + word_of_int (int (4 * k)) > app_size_max hw)"
    using assms(2) app_words_mod(3) [OF assms(1)] by (simp add: word_less_nat_alt)
qed

definition prog_cmd :: "u32 list \<Rightarrow> u8 list" where
  "prog_cmd vs = PROTO_PROG_MULTI # word_of_nat (4 * length vs) # word_bytes vs @ [PROTO_EOC]"

lemma session_prog:
  assumes "session dev (tl (prog_cmd vs) @ bs) st (word_of_nat (4 * length ws)) fw f tx s"
    and "programmed hw pm m0 False (blank_first ws) f" "vs \<noteq> []" "length vs < 64" "length ws + length vs \<le> app_words hw"
    and "ws \<noteq> [] \<Longrightarrow> fw = ws ! 0"
  shows "\<exists>s' f'. cmd_prog_multi hw pm dev s = Some (Break, s') \<and> programmed hw pm m0 False (blank_first (ws @ vs)) f' \<and>
    session dev bs (st OR STATE_PROTO_PROG_MULTI) (word_of_nat (4 * length (ws @ vs))) ((ws @ vs) ! 0) f' tx s'"
proof -
  define n where "n = 4 * length vs"
  have ok: "board_ok hw"
    using assms(2) by (simp add: programmed_def)
  have u: "uint (word_of_nat n :: u8) = int n"
    using assms(4) by (simp add: uint_nat unsigned_of_nat take_bit_nat_eq_self n_def del: of_nat_mult)
  obtain s1 where s1: "cin_wait dev 50 s = Some (int n, s1)"
      "session dev (word_bytes vs @ PROTO_EOC # bs) st (word_of_nat (4 * length ws)) fw f tx s1"
  proof -
    have "session dev (word_of_nat n # (word_bytes vs @ PROTO_EOC # bs)) st (word_of_nat (4 * length ws)) fw f tx s"
      using assms(1) by (simp add: prog_cmd_def n_def)
    then show thesis
      by (rule session_wait [where t = 50]) (use that u in simp)
  qed
  obtain s2 where s2: "cin_bytes dev 1000 n [] s1 = Some (Some (word_bytes vs), word_bytes vs, s2)"
      "session dev (PROTO_EOC # bs) st (word_of_nat (4 * length ws)) fw f tx s2"
    using session_bytes [OF s1(2), of 1000 "[]"] by (auto simp: n_def)
  define s3 where "s3 = s2\<lparr>flash_buffer := word_bytes vs @ drop n (flash_buffer s2)\<rparr>"
  have "session dev (PROTO_EOC # bs) st (word_of_nat (4 * length ws)) fw f tx s3"
    using s2(2) assms(4) by (simp add: session_def ready_def s3_def n_def)
  then obtain s4 where s4: "wait_for_eoc dev 200 s3 = Some (True, s4)"
      "session dev bs st (word_of_nat (4 * length ws)) fw f tx s4" "flash_buffer s4 = word_bytes vs @ drop n (flash_buffer s2)"
    by (rule session_eoc [where t = 200]) (use that in \<open>simp add: s3_def\<close>)
  define vs' where "vs' = (if ws = [] then blank_first vs else vs)"
  define s5 where "s5 = save_first_word s4"
  have fits: "\<not> (word_of_nat (4 * length ws) + word_of_int (int n) > app_size_max hw)" "4 * length ws < 2 ^ 32"
    using fits_area [OF ok assms(5)] by (simp_all add: n_def)
  have s5: "map (word_at (flash_buffer s5)) [0..<length vs] = vs'" "first_word s5 = (ws @ vs) ! 0"
    using saved_words [OF assms(3) _ _ fits(2) s4(3), of ws] s4(2) assms(3,6)
    by (auto simp: s5_def vs'_def session_def nth_append split: if_splits)
  have s5': "session dev bs st (word_of_nat (4 * length ws)) ((ws @ vs) ! 0) f tx s5"
    using s4(2) s5(2) by (simp add: s5_def session_def ready_def save_first_word_def)
  have "length (blank_first ws) + length vs' \<le> app_words hw"
    using assms(5) by (simp add: vs'_def)
  from fc.prog_loop_holds [OF assms(2) this] obtain f' where f': "prog_loop (flash_func_write_word hw pm) (flash_func_read_word hw pm)
      vs' (word_of_nat (4 * length ws)) f = (True, word_of_nat (4 * (length ws + length vs)), f')"
      "programmed hw pm m0 False (blank_first ws @ vs') f'"
    by (auto simp: vs'_def simp del: of_nat_mult)
  define s6 where "s6 = s5\<lparr>address := word_of_nat (4 * length (ws @ vs)), flash_st := f'\<rparr>"
  have n: "int n mod 4 = 0" "\<not> int n > 256" "n div 4 = length vs" "length (word_bytes vs) = n"
    using assms(4) by (simp_all add: n_def)
  have a1: "address s1 = word_of_nat (4 * length ws)" and a5: "address s5 = word_of_nat (4 * length ws)" "flash_st s5 = f"
    using s1(2) s5' by (simp_all add: session_def)
  have "cmd_prog_multi hw pm dev s = Some (Break, SET_BL_STATE STATE_PROTO_PROG_MULTI s6)"
    unfolding cmd_prog_multi_def s1(1) Option.bind.simps prod.case a1
    using n fits(1) s2(1) s4(1) f'(1) s5(1) a5
    by (simp add: s6_def Let_def flip: s3_def s5_def del: of_nat_mult)
  moreover have "blank_first ws @ vs' = blank_first (ws @ vs)"
    by (simp add: vs'_def blank_first_append) (simp add: blank_first_def)
  moreover have "session dev bs st (word_of_nat (4 * length (ws @ vs))) ((ws @ vs) ! 0) f' tx s6"
    using s5' by (simp add: session_def ready_def s6_def)
  ultimately show ?thesis
    using f'(2) session_state by metis
qed

section \<open>The other commands of an upload\<close>

definition device_info :: "hw_config \<Rightarrow> u8 \<Rightarrow> u32" where
  "device_info hw a = (if a = PROTO_DEVICE_BL_REV then BL_PROTOCOL_VERSION else if a = PROTO_DEVICE_BOARD_ID then BOARD_TYPE hw
     else if a = PROTO_DEVICE_BOARD_REV then 0 else app_size_max hw)"

lemma session_device:
  assumes "session dev ([a, PROTO_EOC] @ bs) st ad fw f tx s" "a \<in> {1, 2, 3, 4}"
  shows "\<exists>s'. cmd_get_device hw pm dev s = Some (Break, s') \<and>
    session dev bs (st OR STATE_PROTO_GET_DEVICE) ad fw f (tx @ le_bytes32 (device_info hw a)) s'"
proof -
  have "session dev (a # PROTO_EOC # bs) st ad fw f tx s"
    using assms(1) by simp
  then obtain s1 where s1: "cin_wait dev 1000 s = Some (uint a, s1)" "session dev (PROTO_EOC # bs) st ad fw f tx s1"
    by (rule session_wait)
  obtain s2 where s2: "wait_for_eoc dev 2 s1 = Some (True, s2)" "session dev bs st ad fw f tx s2"
    by (rule session_eoc [OF s1(2)])
  have "cmd_get_device hw pm dev s =
      Some (Break, SET_BL_STATE STATE_PROTO_GET_DEVICE (cout (le_bytes32 (device_info hw a)) s2))"
    using assms(2) s1(1) s2(1) by (auto simp: cmd_get_device_def device_info_def)
  then show ?thesis
    using session_state [OF session_cout [OF s2(2)]] by blast
qed

lemma session_erase:
  assumes "session dev (PROTO_EOC # bs) st ad fw f tx s" "st AND STATE_ALLOWS_ERASE = STATE_ALLOWS_ERASE"
    and "board_ok hw" "programs pm" "erases hw pm"
  shows "\<exists>s' f'. cmd_chip_erase hw pm dev s = Some (Break, s') \<and>
    programmed hw pm (erased_mem hw 0 (progmem_mem f)) False [] f' \<and>
    session dev bs (st OR STATE_PROTO_CHIP_ERASE) 0 fw f' tx s'"
proof -
  obtain s1 where s1: "wait_for_eoc dev 2 s = Some (True, s1)" "session dev bs st ad fw f tx s1"
    by (rule session_eoc [OF assms(1)])
  define f1 where "f1 = erase_loop hw pm 0 (arch_flash_unlock hw f)"
  define s2 where "s2 = led_set LED_OFF ((led_set LED_ON s1)\<lparr>flash_st := f1\<rparr>)"
  have on: "session dev bs st ad fw f tx (led_set LED_ON s1)"
    using s1(2) by simp
  have s2: "session dev bs st ad fw f1 tx s2"
    using session_flash [OF on] by (simp add: s2_def)
  have f: "flash_st (led_set LED_ON s1) = f" "bl_state s1 = st"
    using on s1(2) unfolding session_def by blast+
  have p: "programmed hw pm (erased_mem hw 0 (progmem_mem f)) False [] f1"
    using erased_programmed [OF assms(3-5), of f] by (simp add: f1_def)
  obtain f2 a where v: "verify_erased hw pm (addresses_below (app_size_max hw)) s2 = (True, s2\<lparr>flash_st := f2, address := a\<rparr>)"
      "programmed hw pm (erased_mem hw 0 (progmem_mem f)) False [] f2"
  proof -
    have "flash_st s2 = f1" "set [0..<app_words hw] \<subseteq> {..<app_words hw}"
      using s2 by (auto simp: session_def)
    then show thesis
      using verify_erased_ok [of hw pm _ s2 "[0..<app_words hw]"] p that unfolding addresses_app [OF assms(3)] by metis
  qed
  define s3 where "s3 = led_set LED_BLINK (SET_BL_STATE STATE_PROTO_CHIP_ERASE (s2\<lparr>flash_st := f2, address := 0\<rparr>))"
  have "cmd_chip_erase hw pm dev s = Some (Break, s3)"
    unfolding cmd_chip_erase_def s1(1) using f assms(2) v(1)
    by (simp add: s3_def flip: f1_def s2_def)
  moreover have "session dev bs st 0 fw f2 tx (s2\<lparr>flash_st := f2, address := 0\<rparr>)"
    by (rule session_address [OF session_flash [OF s2]])
  then have "session dev bs (st OR STATE_PROTO_CHIP_ERASE) 0 fw f2 tx s3"
    using session_state by (simp add: s3_def)
  ultimately show ?thesis
    using v(2) by blast
qed

text \<open>The checksum runs over the whole area, with the word held back in its place.\<close>

lemma crc_loop_ok:
  "programmed hw pm m0 flushed ws (flash_st s) \<Longrightarrow> set is \<subseteq> {0<..<app_words hw} \<Longrightarrow>
   \<exists>f flushed'. crc_loop hw pm (map (\<lambda>i. word_of_nat (4 * i)) is) c s =
       (foldl (\<lambda>c i. crc32 (le_bytes32 (img ws i)) c) c is, s\<lparr>flash_st := f\<rparr>) \<and> programmed hw pm m0 flushed' ws f"
proof (induction "is" arbitrary: s c flushed)
  case Nil
  have "s\<lparr>flash_st := flash_st s\<rparr> = s"
    by simp
  with Nil show ?case
    by (metis crc_loop.simps(1) foldl_Nil list.simps(8))
next
  case (Cons i "is")
  have i: "i < app_words hw" "0 < i" and ok: "board_ok hw"
    using Cons.prems by (simp_all add: programmed_def)
  then have "4 * i < 2 ^ 32"
    using app_words_mod(3) [of hw] unsigned_less [where 'a = nat, of "app_size_max hw"] by simp
  then have nz: "(word_of_nat (4 * i) :: u32) \<noteq> 0"
    using i(2) by (simp add: word_unat_eq_iff unsigned_of_nat take_bit_nat_eq_self del: of_nat_mult)
  obtain fl1 f1 where f1: "fc_read pm (app_word hw i) (flash_st s) = (img ws i, f1)" "programmed hw pm m0 fl1 ws f1"
    by (rule programmed_read [OF Cons.prems(1) i(1)])
  then have rd: "read_word hw pm (word_of_nat (4 * i)) s = (img ws i, s\<lparr>flash_st := f1\<rparr>)"
    unfolding read_word_def read_offset by simp
  from Cons.IH [of fl1 "s\<lparr>flash_st := f1\<rparr>" "crc32 (le_bytes32 (img ws i)) c"] f1(2) Cons.prems(2) rd nz show ?case
    by (simp del: of_nat_mult)
qed

definition area_bytes :: "hw_config \<Rightarrow> u32 list \<Rightarrow> u8 list" where
  "area_bytes hw ws = word_bytes (map (img ws) [0..<app_words hw])"

lemma crc_words:
  "foldl (\<lambda>c i. crc32 (le_bytes32 (g i)) c) c is = crc32_signature c (word_bytes (map g is))"
  by (induction "is" arbitrary: c) (simp_all add: word_bytes_def crc32_is_signature crc32_signature_def)

lemma session_crc:
  assumes "session dev (PROTO_EOC # bs) st ad (ws ! 0) f tx s" "programmed hw pm m0 False (blank_first ws) f"
    and "ws \<noteq> []" "ws ! 0 \<noteq> - 1"
  shows "\<exists>s' f' flushed. cmd_get_crc hw pm dev s = Some (Break, s') \<and> programmed hw pm m0 flushed (blank_first ws) f' \<and>
    session dev bs (st OR STATE_PROTO_GET_CRC) ad (ws ! 0) f' (tx @ le_bytes32 (crc32_signature 0 (area_bytes hw ws))) s'"
proof -
  obtain s1 where s1: "wait_for_eoc dev 2 s = Some (True, s1)" "session dev bs st ad (ws ! 0) f tx s1"
    by (rule session_eoc [OF assms(1)])
  have ok: "board_ok hw"
    using assms(2) by (simp add: programmed_def)
  have s1f: "first_word s1 = ws ! 0" "flash_st s1 = f"
    using s1(2) by (simp_all add: session_def)
  have split: "[0..<app_words hw] = 0 # [1..<app_words hw]"
    using app_words_mod(2) [OF ok] by (simp add: upt_conv_Cons)
  define c0 where "c0 = crc32 (le_bytes32 (ws ! 0)) 0"
  obtain f' flushed where c: "crc_loop hw pm (map (\<lambda>i. word_of_nat (4 * i)) [1..<app_words hw]) c0 s1 =
       (foldl (\<lambda>c i. crc32 (le_bytes32 (img (blank_first ws) i)) c) c0 [1..<app_words hw], s1\<lparr>flash_st := f'\<rparr>)"
      "programmed hw pm m0 flushed (blank_first ws) f'"
  proof -
    have "set [1..<app_words hw] \<subseteq> {0<..<app_words hw}"
      by auto
    then show thesis
      using crc_loop_ok [of hw pm m0 False "blank_first ws" s1 "[1..<app_words hw]" c0] assms(2) s1f(2) that by blast
  qed
  have tail: "map (img (blank_first ws)) [1..<app_words hw] = map (img ws) [1..<app_words hw]"
    by (simp add: img_def blank_first_def nth_list_update)
  have "img ws 0 = ws ! 0"
    using assms(3) by (simp add: img_def)
  then have "foldl (\<lambda>c i. crc32 (le_bytes32 (img (blank_first ws) i)) c) c0 [1..<app_words hw] =
      crc32_signature 0 (area_bytes hw ws)"
    unfolding crc_words tail area_bytes_def split c0_def
    by (simp add: word_bytes_def crc32_is_signature crc32_signature_def del: upt_Suc)
  then have "crc_loop hw pm (addresses_below (app_size_max hw)) 0 s1 =
      (crc32_signature 0 (area_bytes hw ws), s1\<lparr>flash_st := f'\<rparr>)"
    unfolding addresses_app [OF ok] split using c(1) s1f(1) assms(4) by (simp add: c0_def ones_word)
  then have "cmd_get_crc hw pm dev s =
      Some (Break, SET_BL_STATE STATE_PROTO_GET_CRC (cout_word (crc32_signature 0 (area_bytes hw ws)) (s1\<lparr>flash_st := f'\<rparr>)))"
    by (simp add: cmd_get_crc_def s1(1))
  then show ?thesis
    using session_state [OF session_cout [OF session_flash [OF s1(2)]]] c(2) unfolding cout_word_def by blast
qed

lemma session_boot:
  assumes "session dev (PROTO_EOC # bs) st ad (ws ! 0) f tx s" "programmed hw pm m0 flushed (blank_first ws) f"
    and "8 \<le> length ws" "ws ! 0 \<noteq> - 1" "st AND STATE_ALLOWS_REBOOT = STATE_ALLOWS_REBOOT"
  shows "\<exists>s'. cmd_boot hw pm dev s = Some (Return, s') \<and> area hw m0 (img ws) (progmem_mem (flash_st s')) \<and>
    usb_tx s' = tx @ [PROTO_INSYNC, PROTO_OK]"
proof -
  obtain s1 where s1: "wait_for_eoc dev 1000 s = Some (True, s1)" "session dev bs st ad (ws ! 0) f tx s1"
    by (rule session_eoc [OF assms(1)])
  define f1 where "f1 = snd (fc_write pm (app_word hw 0) (ws ! 0) f)"
  have "(blank_first ws)[0 := ws ! 0] = ws"
    using assms(3) by (simp add: blank_first_def)
  then have f1: "area hw m0 (img ws) (progmem_mem f1)" "fc_read pm (app_word hw 0) f1 = (ws ! 0, f1)"
    using programmed_release [OF assms(2), of "ws ! 0"] assms(3) by (simp_all add: f1_def)
  define s2 where "s2 = s1\<lparr>flash_st := f1\<rparr>"
  have s2: "session dev bs st ad (ws ! 0) f1 tx s2"
    unfolding s2_def by (rule session_flash [OF s1(2)])
  have s1f: "first_word s1 = ws ! 0" "flash_st s1 = f" "bl_state s1 = st" "first_word s2 = ws ! 0" "flash_st s2 = f1"
    using s1(2) s2 by (simp_all add: session_def)
  have wr: "write_word hw pm 0 (ws ! 0) s1 = s2"
    using write_offset [of hw pm 0] s1f by (simp add: write_word_def s2_def f1_def)
  have rd: "read_word hw pm 0 s2 = (ws ! 0, s2)"
    using read_offset [of hw pm 0] f1(2) s1f by (simp add: read_word_def)
  define s3 where "s3 = delay 100 (sync_response (s2\<lparr>first_word := 0xffffffff\<rparr>))"
  have "cmd_boot hw pm dev s = Some (Return, s3)"
    using s1(1) s1f assms(4,5) wr rd by (simp add: cmd_boot_def ones_word flip: s3_def) (simp add: s3_def ones_word)
  moreover have "core s3 = core (sync_response (s2\<lparr>first_word := 0xffffffff\<rparr>))"
    by (simp add: s3_def delay_def)
  then have "flash_st s3 = f1" "usb_tx s3 = tx @ [PROTO_INSYNC, PROTO_OK]"
    using s2 by (simp_all add: core_def sync_response_def cout_def session_def)
  ultimately show ?thesis
    using f1(1) by auto
qed

section \<open>A whole upload\<close>

lemma run_step: "bl_step hw pm u s = Some (False, s') \<Longrightarrow> bootloader_loop hw pm u s = bootloader_loop hw pm u s'"
  by (subst bootloader_loop.simps) simp

definition ok_reply :: "u8 list" where
  "ok_reply = [PROTO_INSYNC, PROTO_OK]"

definition sync_cmd :: "u8 list" where "sync_cmd = [PROTO_GET_SYNC, PROTO_EOC]"
definition device_cmd :: "u8 \<Rightarrow> u8 list" where "device_cmd a = [PROTO_GET_DEVICE, a, PROTO_EOC]"
definition erase_cmd :: "u8 list" where "erase_cmd = [PROTO_CHIP_ERASE, PROTO_EOC]"
definition crc_cmd :: "u8 list" where "crc_cmd = [PROTO_GET_CRC, PROTO_EOC]"
definition boot_cmd :: "u8 list" where "boot_cmd = [PROTO_BOOT, PROTO_EOC]"

lemma step_device:
  assumes "session (board_get_devices hw True) (device_cmd a @ bs) st ad fw f tx s" "a \<in> {1, 2, 3, 4}"
  shows "\<exists>s'. bl_step hw pm True s = Some (False, s') \<and> session (board_get_devices hw True) bs
    (st OR STATE_PROTO_GET_DEVICE) ad fw f (tx @ le_bytes32 (device_info hw a) @ ok_reply) s'"
proof -
  define D where "D = board_get_devices hw True"
  have "\<exists>s2. bl_step hw pm True s = Some (Break = Return, finish Break s2) \<and>
    session D bs (st OR STATE_PROTO_GET_DEVICE) ad fw f (tx @ le_bytes32 (device_info hw a)) s2"
    by (rule session_command [where b = PROTO_GET_DEVICE and bs = "[a, PROTO_EOC] @ bs"])
      (use assms session_device [OF _ assms(2)] in \<open>auto simp: device_cmd_def bl_command_def D_def\<close>)
  then show ?thesis
    using session_finish by (fastforce simp: ok_reply_def D_def)
qed

lemma step_erase:
  assumes "session (board_get_devices hw True) (erase_cmd @ bs) st ad fw f tx s"
    and "st AND STATE_ALLOWS_ERASE = STATE_ALLOWS_ERASE" "board_ok hw" "programs pm" "erases hw pm"
  shows "\<exists>s' f'. bl_step hw pm True s = Some (False, s') \<and>
    programmed hw pm (erased_mem hw 0 (progmem_mem f)) False [] f' \<and>
    session (board_get_devices hw True) bs (st OR STATE_PROTO_CHIP_ERASE) 0 fw f' (tx @ ok_reply) s'"
proof -
  define D where "D = board_get_devices hw True"
  have "\<exists>s2. bl_step hw pm True s = Some (Break = Return, finish Break s2) \<and>
    (\<exists>f'. programmed hw pm (erased_mem hw 0 (progmem_mem f)) False [] f' \<and>
      session D bs (st OR STATE_PROTO_CHIP_ERASE) 0 fw f' tx s2)"
    by (rule session_command [where b = PROTO_CHIP_ERASE and bs = "PROTO_EOC # bs"])
      (use assms session_erase [OF _ assms(2-5)] in \<open>auto simp: erase_cmd_def bl_command_def D_def\<close>)
  then show ?thesis
    using session_finish by (fastforce simp: ok_reply_def D_def)
qed

lemma step_prog:
  assumes "session (board_get_devices hw True) (prog_cmd vs @ bs) st (word_of_nat (4 * length ws)) fw f tx s"
    and "programmed hw pm m0 False (blank_first ws) f" "vs \<noteq> []" "length vs < 64" "length ws + length vs \<le> app_words hw"
    and "ws \<noteq> [] \<Longrightarrow> fw = ws ! 0"
  shows "\<exists>s' f'. bl_step hw pm True s = Some (False, s') \<and> programmed hw pm m0 False (blank_first (ws @ vs)) f' \<and>
    session (board_get_devices hw True) bs (st OR STATE_PROTO_PROG_MULTI) (word_of_nat (4 * length (ws @ vs)))
      ((ws @ vs) ! 0) f' (tx @ ok_reply) s'"
proof -
  define D where "D = board_get_devices hw True"
  have "\<exists>s2. bl_step hw pm True s = Some (Break = Return, finish Break s2) \<and>
    (\<exists>f'. programmed hw pm m0 False (blank_first (ws @ vs)) f' \<and>
      session D bs (st OR STATE_PROTO_PROG_MULTI) (word_of_nat (4 * length (ws @ vs))) ((ws @ vs) ! 0) f' tx s2)"
  proof (rule session_command [where b = PROTO_PROG_MULTI and bs = "tl (prog_cmd vs) @ bs"])
    show "session (board_get_devices hw True) (PROTO_PROG_MULTI # tl (prog_cmd vs) @ bs) st (word_of_nat (4 * length ws)) fw f tx s"
      using assms(1) by (simp add: prog_cmd_def)
  next
    fix s1
    assume "session (board_get_devices hw True) (tl (prog_cmd vs) @ bs) st (word_of_nat (4 * length ws)) fw f tx s1"
    from session_prog [OF this assms(2-6)]
    show "\<exists>s2. bl_command hw pm (board_get_devices hw True) (uint PROTO_PROG_MULTI) s1 = Some (Break, s2) \<and>
      (\<exists>f'. programmed hw pm m0 False (blank_first (ws @ vs)) f' \<and>
        session D bs (st OR STATE_PROTO_PROG_MULTI) (word_of_nat (4 * length (ws @ vs))) ((ws @ vs) ! 0) f' tx s2)"
      by (auto simp: bl_command_def D_def simp del: of_nat_mult)
  qed
  then show ?thesis
    using session_finish by (fastforce simp: ok_reply_def D_def simp del: of_nat_mult)
qed

lemma step_crc:
  assumes "session (board_get_devices hw True) (crc_cmd @ bs) st ad (ws ! 0) f tx s"
    and "programmed hw pm m0 False (blank_first ws) f" "ws \<noteq> []" "ws ! 0 \<noteq> - 1"
  shows "\<exists>s' f' flushed. bl_step hw pm True s = Some (False, s') \<and> programmed hw pm m0 flushed (blank_first ws) f' \<and>
    session (board_get_devices hw True) bs (st OR STATE_PROTO_GET_CRC) ad (ws ! 0) f'
      (tx @ le_bytes32 (crc32_signature 0 (area_bytes hw ws)) @ ok_reply) s'"
proof -
  define D where "D = board_get_devices hw True"
  have "\<exists>s2. bl_step hw pm True s = Some (Break = Return, finish Break s2) \<and>
    (\<exists>f' flushed. programmed hw pm m0 flushed (blank_first ws) f' \<and> session D bs (st OR STATE_PROTO_GET_CRC) ad (ws ! 0) f'
      (tx @ le_bytes32 (crc32_signature 0 (area_bytes hw ws))) s2)"
    by (rule session_command [where b = PROTO_GET_CRC and bs = "PROTO_EOC # bs"])
      (use assms session_crc [OF _ assms(2-4)] in \<open>auto simp: crc_cmd_def bl_command_def D_def\<close>)
  then show ?thesis
    using session_finish by (fastforce simp: ok_reply_def D_def)
qed

lemma step_boot:
  assumes "session (board_get_devices hw True) (boot_cmd @ bs) st ad (ws ! 0) f tx s"
    and "programmed hw pm m0 flushed (blank_first ws) f"
    and "8 \<le> length ws" "ws ! 0 \<noteq> - 1" "st AND STATE_ALLOWS_REBOOT = STATE_ALLOWS_REBOOT"
  shows "\<exists>s'. bl_step hw pm True s = Some (True, s') \<and> area hw m0 (img ws) (progmem_mem (flash_st s')) \<and>
    usb_tx s' = tx @ ok_reply"
proof -
  have "\<exists>s2. bl_step hw pm True s = Some (Return = Return, finish Return s2) \<and>
    (area hw m0 (img ws) (progmem_mem (flash_st s2)) \<and> usb_tx s2 = tx @ ok_reply)"
    by (rule session_command [where b = PROTO_BOOT and bs = "PROTO_EOC # bs"])
      (use assms session_boot [OF _ assms(2-5)] in \<open>auto simp: boot_cmd_def bl_command_def ok_reply_def\<close>)
  then show ?thesis
    by (auto simp: finish_def)
qed

lemma step_first_sync:
  assumes "ready (board_get_devices hw True) (sync_cmd @ bs) s" "bl_type s = NONE" "length (flash_buffer s) = 256"
    and "bl_timeout s \<noteq> 0 \<Longrightarrow> timer s ! TIMER_BL_WAIT \<noteq> 0"
  shows "\<exists>s'. bl_step hw pm True s = Some (False, s') \<and> session (board_get_devices hw True) bs
    (bl_state s OR STATE_PROTO_GET_SYNC) (address s) (first_word s) (flash_st s) (usb_tx s @ ok_reply) s'"
proof -
  define D where "D = board_get_devices hw True"
  define sa where "sa = s\<lparr>led_activity := False\<rparr>"
  have "ready D (PROTO_GET_SYNC # PROTO_EOC # bs) sa"
    using assms(1) by (simp add: D_def sa_def ready_def sync_cmd_def)
  then obtain s1 where s1: "cin_wait D 0 sa = Some (uint PROTO_GET_SYNC, s1)" "ready D (PROTO_EOC # bs) s1" "core s1 = core sa"
    by (rule cin_wait_ready)
  have w: "wait_command D True sa = Some (Some (uint PROTO_GET_SYNC), s1)"
    using assms(4) s1(1) by (subst wait_command.simps) (auto simp: sa_def)
  have "ready D (PROTO_EOC # bs) (s1\<lparr>led_activity := True\<rparr>)"
    using s1(2) by (simp add: ready_def)
  then obtain s2 where s2: "cin_wait D 2 (s1\<lparr>led_activity := True\<rparr>) = Some (uint PROTO_EOC, s2)" "ready D bs s2"
      "core s2 = core (s1\<lparr>led_activity := True\<rparr>)" "last_input s2 = USB"
    by (rule cin_wait_ready)
  then have c: "core s2 = core s"
    using s1(3) by (simp add: sa_def)
  have "bl_step hw pm True s = Some (False, finish Break (SET_BL_STATE STATE_PROTO_GET_SYNC s2))"
    unfolding bl_step_def using w s2(1) by (simp add: Let_def bl_command_def cmd_get_sync_def wait_for_eoc_def flip: D_def sa_def)
  moreover have "session D bs (bl_state s OR STATE_PROTO_GET_SYNC) (address s) (first_word s) (flash_st s) (usb_tx s @ ok_reply)
      (finish Break (SET_BL_STATE STATE_PROTO_GET_SYNC s2))"
    using c s2(2,4) assms(2,3)
    by (simp add: session_def finish_def Let_def SET_BL_STATE_def sync_response_def cout_def core_def ready_def ok_reply_def)
  ultimately show ?thesis
    by (auto simp: D_def)
qed

lemma run_devices:
  assumes "set args \<subseteq> {1, 2, 3, 4}"
    and "session (board_get_devices hw True) (concat (map device_cmd args) @ bs) st ad fw f tx s"
  shows "\<exists>s'. bootloader_loop hw pm True s = bootloader_loop hw pm True s' \<and> session (board_get_devices hw True) bs
    (if args = [] then st else st OR STATE_PROTO_GET_DEVICE) ad fw f
    (tx @ concat (map (\<lambda>a. le_bytes32 (device_info hw a) @ ok_reply) args)) s'"
  using assms
proof (induction args arbitrary: st tx s)
  case (Cons a args)
  from Cons.prems have "session (board_get_devices hw True) (device_cmd a @ concat (map device_cmd args) @ bs) st ad fw f tx s"
    and "a \<in> {1, 2, 3, 4}"
    by simp_all
  from step_device [OF this] obtain s1 where s1: "bl_step hw pm True s = Some (False, s1)"
      "session (board_get_devices hw True) (concat (map device_cmd args) @ bs) (st OR STATE_PROTO_GET_DEVICE) ad fw f
        (tx @ le_bytes32 (device_info hw a) @ ok_reply) s1"
    by blast
  from Cons.IH [OF _ s1(2)] Cons.prems(1) run_step [OF s1(1)] show ?case
    by (simp add: or.assoc split: if_splits)
qed auto

lemma run_chunks:
  assumes "\<forall>c \<in> set chunks. c \<noteq> [] \<and> length c < 64" "length ws + length (concat chunks) \<le> app_words hw"
    and "session (board_get_devices hw True) (concat (map prog_cmd chunks) @ bs) st (word_of_nat (4 * length ws)) fw f tx s"
    and "programmed hw pm m0 False (blank_first ws) f" "ws \<noteq> [] \<Longrightarrow> fw = ws ! 0"
  shows "\<exists>s' f'. bootloader_loop hw pm True s = bootloader_loop hw pm True s' \<and>
    programmed hw pm m0 False (blank_first (ws @ concat chunks)) f' \<and>
    session (board_get_devices hw True) bs (if chunks = [] then st else st OR STATE_PROTO_PROG_MULTI)
      (word_of_nat (4 * length (ws @ concat chunks))) (if chunks = [] then fw else (ws @ concat chunks) ! 0) f'
      (tx @ concat (map (\<lambda>_. ok_reply) chunks)) s'"
  using assms
proof (induction chunks arbitrary: ws st fw f tx s)
  case Nil
  then show ?case by auto
next
  case (Cons c chunks)
  from Cons.prems have pre: "session (board_get_devices hw True) (prog_cmd c @ concat (map prog_cmd chunks) @ bs) st
      (word_of_nat (4 * length ws)) fw f tx s" "c \<noteq> []" "length c < 64" "length ws + length c \<le> app_words hw"
    by simp_all
  from step_prog [OF pre(1) Cons.prems(4) pre(2-4) Cons.prems(5)] obtain s1 f1 where
    s1: "bl_step hw pm True s = Some (False, s1)" "programmed hw pm m0 False (blank_first (ws @ c)) f1"
      "session (board_get_devices hw True) (concat (map prog_cmd chunks) @ bs) (st OR STATE_PROTO_PROG_MULTI)
        (word_of_nat (4 * length (ws @ c))) ((ws @ c) ! 0) f1 (tx @ ok_reply) s1"
    by blast
  have "(ws @ c) ! 0 = (ws @ c @ concat chunks) ! 0"
    using pre(2) by (simp add: nth_append)
  then show ?case
    using Cons.IH [OF _ _ s1(3,2)] Cons.prems(1,2) run_step [OF s1(1)]
    by (simp add: or.assoc split: if_splits del: of_nat_mult of_nat_add)
qed

definition upload_bytes :: "u8 list \<Rightarrow> u32 list list \<Rightarrow> u8 list" where
  "upload_bytes args chunks =
     sync_cmd @ concat (map device_cmd args) @ erase_cmd @ concat (map prog_cmd chunks) @ crc_cmd @ boot_cmd"

definition upload_replies :: "hw_config \<Rightarrow> u8 list \<Rightarrow> u32 list list \<Rightarrow> u8 list" where
  "upload_replies hw args chunks =
     ok_reply @ concat (map (\<lambda>a. le_bytes32 (device_info hw a) @ ok_reply) args) @ ok_reply @
     concat (map (\<lambda>_. ok_reply) chunks) @ le_bytes32 (crc32_signature 0 (area_bytes hw (concat chunks))) @ ok_reply @ ok_reply"

lemma state_allows:
  "(0 OR STATE_PROTO_GET_SYNC OR STATE_PROTO_GET_DEVICE) AND STATE_ALLOWS_ERASE = STATE_ALLOWS_ERASE"
  "(0 OR STATE_PROTO_GET_SYNC OR STATE_PROTO_GET_DEVICE OR STATE_PROTO_CHIP_ERASE OR STATE_PROTO_PROG_MULTI OR STATE_PROTO_GET_CRC)
     AND STATE_ALLOWS_REBOOT = STATE_ALLOWS_REBOOT"
  by (rule bit_word_eqI; auto simp: STATE_ALLOWS_ERASE_def STATE_ALLOWS_REBOOT_def STATE_PROTO_GET_SYNC_def
    STATE_PROTO_GET_DEVICE_def STATE_PROTO_CHIP_ERASE_def STATE_PROTO_PROG_MULTI_def STATE_PROTO_GET_CRC_def)+

lemma start_ready:
  fixes tmo :: u32
  assumes "feeds (usb_rx s) bs (polls s)" "board_get_devices hw True AND USB0_DEV \<noteq> 0" "length (timer s) = 4"
  defines "s0 \<equiv> bootloader_start hw tmo s"
  shows "ready (board_get_devices hw True) bs s0" "bl_type s0 = NONE" "bl_timeout s0 \<noteq> 0 \<Longrightarrow> timer s0 ! TIMER_BL_WAIT \<noteq> 0"
    "bl_state s0 = 0" "flash_st s0 = flash_st s" "usb_tx s0 = usb_tx s" "flash_buffer s0 = flash_buffer s"
  using assms(1-3) by (auto simp: s0_def bootloader_start_def led_set_def Let_def ready_def)

text \<open>
  C31. An upload stores the image and says so: a host that sends the commands in the expected order (synchronise, ask
  for device information, erase, program the chunks, ask for the checksum, boot) gets the reply of success for each,
  the device information, and the CRC-32 of the application area with the image in it; when the bootloader returns to
  start the application, the area holds the image followed by erased words, and the rest of the flash is as
  erasing left it. The flash driver writes and erases as documented; bytes may arrive in packets of any size; the
  image has at least the eight words of one flash block, and its first word is not the value of erased flash.
\<close>

theorem upload_stores_image:
  assumes board: "board_ok hw" "programs pm" "erases hw pm" "board_get_devices hw True AND USB0_DEV \<noteq> 0"
    and args: "args \<noteq> []" "set args \<subseteq> {1, 2, 3, 4}"
    and chunks: "\<forall>c \<in> set chunks. c \<noteq> [] \<and> length c < 64"
    and im: "im = concat chunks" "8 \<le> length im" "length im \<le> app_words hw" "im ! 0 \<noteq> - 1"
    and s: "feeds (usb_rx s) (upload_bytes args chunks) (polls s)" "length (flash_buffer s) = 256" "length (timer s) = 4"
  shows "\<exists>s'. bootloader hw pm tmo True s = Some s' \<and>
    area hw (erased_mem hw 0 (progmem_mem (flash_st s))) (img im) (progmem_mem (flash_st s')) \<and>
    usb_tx s' = usb_tx s @ upload_replies hw args chunks"
proof -
  define s0 where "s0 = bootloader_start hw tmo s"
  note s0 = start_ready [OF s(1) board(4) s(3), of tmo, folded s0_def]
  define m0 where "m0 = erased_mem hw 0 (progmem_mem (flash_st s))"
  define st2 where "st2 = (0 OR STATE_PROTO_GET_SYNC) OR STATE_PROTO_GET_DEVICE"
  define st3 where "st3 = st2 OR STATE_PROTO_CHIP_ERASE"
  define st5 where "st5 = (st3 OR STATE_PROTO_PROG_MULTI) OR STATE_PROTO_GET_CRC"
  define tx2 where "tx2 = (usb_tx s @ ok_reply) @ concat (map (\<lambda>a. le_bytes32 (device_info hw a) @ ok_reply) args)"
  define tx4 where "tx4 = (tx2 @ ok_reply) @ concat (map (\<lambda>_. ok_reply) chunks)"
  define tx5 where "tx5 = tx4 @ le_bytes32 (crc32_signature 0 (area_bytes hw im)) @ ok_reply"
  note allowed = state_allows [folded or.assoc, folded st2_def, folded st3_def, folded st5_def]
  have "im \<noteq> []"
    using im(2) by auto
  then have nonempty: "chunks \<noteq> []" "im \<noteq> []"
    using im(1) by auto
  obtain s1 where s1: "bl_step hw pm True s0 = Some (False, s1)"
      "session (board_get_devices hw True) (concat (map device_cmd args) @ erase_cmd @ concat (map prog_cmd chunks) @ crc_cmd @ boot_cmd)
        (0 OR STATE_PROTO_GET_SYNC) (address s0) (first_word s0) (flash_st s) (usb_tx s @ ok_reply) s1"
    using step_first_sync [OF s0(1) [unfolded upload_bytes_def] s0(2) _ s0(3)] s(2) s0(4-7) by auto
  obtain s2 where s2: "bootloader_loop hw pm True s1 = bootloader_loop hw pm True s2"
      "session (board_get_devices hw True) (erase_cmd @ concat (map prog_cmd chunks) @ crc_cmd @ boot_cmd) st2
        (address s0) (first_word s0) (flash_st s) tx2 s2"
    using run_devices [OF args(2) s1(2)] args(1) by (auto simp: st2_def tx2_def)
  obtain s3 f3 where s3: "bl_step hw pm True s2 = Some (False, s3)" "programmed hw pm m0 False [] f3"
      "session (board_get_devices hw True) (concat (map prog_cmd chunks) @ crc_cmd @ boot_cmd) st3 0 (first_word s0) f3 (tx2 @ ok_reply) s3"
    using step_erase [OF s2(2) allowed(1) board(1-3)] by (auto simp: m0_def st3_def)
  have "session (board_get_devices hw True) (concat (map prog_cmd chunks) @ crc_cmd @ boot_cmd) st3
      (word_of_nat (4 * length ([] :: u32 list))) (first_word s0) f3 (tx2 @ ok_reply) s3"
    using s3(3) by simp
  from run_chunks [OF chunks _ this, of pm m0] obtain s4 f4 where
    s4: "bootloader_loop hw pm True s3 = bootloader_loop hw pm True s4" "programmed hw pm m0 False (blank_first im) f4"
      "session (board_get_devices hw True) (crc_cmd @ boot_cmd) (st3 OR STATE_PROTO_PROG_MULTI)
        (word_of_nat (4 * length im)) (im ! 0) f4 tx4 s4"
    using s3(2) im(1,3) nonempty by (auto simp: blank_first_def tx4_def)
  obtain s5 f5 flushed where s5: "bl_step hw pm True s4 = Some (False, s5)" "programmed hw pm m0 flushed (blank_first im) f5"
      "session (board_get_devices hw True) (boot_cmd @ []) st5 (word_of_nat (4 * length im)) (im ! 0) f5 tx5 s5"
    using step_crc [OF s4(3,2) nonempty(2) im(4)] by (auto simp: st5_def tx5_def)
  obtain s6 where s6: "bl_step hw pm True s5 = Some (True, s6)"
      "area hw m0 (img im) (progmem_mem (flash_st s6))" "usb_tx s6 = tx5 @ ok_reply"
    using step_boot [OF s5(3,2) im(2,4) allowed(2)] by blast
  have "bootloader_loop hw pm True s0 = Some s6"
    using run_step [OF s1(1)] s2(1) run_step [OF s3(1)] s4(1) run_step [OF s5(1)] s6(1)
    by (simp add: bootloader_loop.simps [of hw pm True s5])
  then show ?thesis
    using s6(2,3) im(1) by (simp add: bootloader_def m0_def s0_def upload_replies_def tx5_def tx4_def tx2_def)
qed

text \<open>The board \<^verbatim>\<open>px4/fmu-v6x\<close>, and a flash driver that never fails.\<close>

definition fmu_v6x :: hw_config where
  "fmu_v6x = \<lparr> APP_LOAD_ADDRESS = 0x08020000, BOARD_FLASH_SECTORS = 15, BOARD_FIRST_FLASH_SECTOR_TO_ERASE = 1,
     BOARD_FLASH_SIZE = 2048 * 1024, APP_RESERVATION_SIZE = 0, BOARD_TYPE = 53, BOOT_DELAY_ADDRESS = 0x1a0,
     BOOTLOADER_DELAY = 2500, BOOT_DEVICES_SELECTION = 7, BOOT_DEVICES_FILTER_ONUSB = 7, ARCH_SN_MAX_LENGTH = 12,
     mcu_idcode = 0x20036450, sysmem_uid = (\<lambda>_. 0) \<rparr>"

definition ideal_progmem :: "hw_config \<Rightarrow> progmem" where
  "ideal_progmem hw = \<lparr> up_progmem_write = (\<lambda>a ws m. (4 * int (length ws), put_words a ws m)),
     up_progmem_ispageerased = (\<lambda>s m. if \<forall>a. sector_of hw a = s \<longrightarrow> m a = - 1 then 0 else 1),
     up_progmem_eraseblock = (\<lambda>s m a. if sector_of hw a = s then - 1 else m a) \<rparr>"

lemma ideal_driver: "programs (ideal_progmem hw)" "erases hw (ideal_progmem hw)"
  by (simp_all add: programs_def erases_def ideal_progmem_def)

lemma fmu_v6x_ok: "board_ok fmu_v6x" and fmu_v6x_words: "app_words fmu_v6x = 491520"
proof -
  have size: "app_size_max fmu_v6x = 0x1E0000" and start: "FLASH_START_ADDRESS fmu_v6x = 0x08000000"
    by (simp_all add: app_size_max_def FLASH_START_ADDRESS_def fmu_v6x_def)
  then show words: "app_words fmu_v6x = 491520"
    by (simp add: app_words_def)
  have "sector_of fmu_v6x (app_word fmu_v6x i) = 1 + 4 * i div 131072" if "i < 491520" for i
  proof -
    have "app_word fmu_v6x i - FLASH_START_ADDRESS fmu_v6x = word_of_nat (4 * i + 131072)"
      by (simp add: app_word_def start) (simp add: fmu_v6x_def)
    moreover have "unat (word_of_nat (4 * i + 131072) :: u32) = 4 * i + 131072"
      using that by (simp only: unsigned_of_nat) (simp add: take_bit_nat_eq_self)
    ultimately show ?thesis
      by (simp add: sector_of_def)
  qed
  moreover have "4 * i div 131072 \<le> 14" if "i < 491520" for i :: nat
    using that by simp
  ultimately show "board_ok fmu_v6x"
    by (simp add: board_ok_def words size) (simp add: fmu_v6x_def)
qed

definition boot_image :: "u32 list" where
  "boot_image = [0x20080000, 0x08020101, 3, 4, 5, 6, 7, 8, 9]"

definition host_polls :: "u8 list \<Rightarrow> poll list" where
  "host_polls bs = map (\<lambda>b. \<lparr> before_ms = 1, usb_arrived = [b], uart_arrived = [], after_ms = 2 \<rparr>) bs"

definition idle_state :: "poll list \<Rightarrow> bl_serial" where
  "idle_state ps = \<lparr> bl_type = 0, last_input = 0, timer = [0, 0, 0, 0], led_st = LED_OFF, led_activity = False,
     led_bootloader = False, led_red = False, cin_count = 0, usb_rx = [], uart_rx = [], usb_tx = [], uart_tx = [], polls = ps,
     flash_st = \<lparr> flash_cache = replicate 2 \<lparr> index = 0, start_address = 0, words = replicate 8 0 \<rparr>, progmem_mem = (\<lambda>a. 0) \<rparr>,
     bl_state = 0, address = 0, first_word = 0, bl_timeout = 0, flash_buffer = replicate 256 0 \<rparr>"

lemma feeds_host: "feeds [] bs (host_polls bs)"
  by (induction bs) (simp_all add: host_polls_def)

theorem upload_stores_image_witness:
  "\<exists>s'. bootloader fmu_v6x (ideal_progmem fmu_v6x) 2500 True (idle_state (host_polls (upload_bytes [1, 2, 4] [boot_image]))) = Some s' \<and>
     area fmu_v6x (erased_mem fmu_v6x 0 (\<lambda>_. 0)) (img boot_image) (progmem_mem (flash_st s')) \<and>
     usb_tx s' = upload_replies fmu_v6x [1, 2, 4] [boot_image]"
proof -
  have "board_get_devices fmu_v6x True AND USB0_DEV \<noteq> 0"
    by (simp add: board_get_devices_def fmu_v6x_def)
  then show ?thesis
    using upload_stores_image [OF fmu_v6x_ok ideal_driver, of "[1, 2, 4]" "[boot_image]" boot_image
        "idle_state (host_polls (upload_bytes [1, 2, 4] [boot_image]))" 2500]
    by (simp add: feeds_host idle_state_def fmu_v6x_words boot_image_def)
qed

end
