(* ===== verification/Bl_Time.thy ===== *)
theory Bl_Time
  imports Bl_Upload
begin

text \<open>
  The timers of the serial bootloader: they count down the milliseconds, and end the waits for input and the command
  loop.
\<close>

section \<open>Timeouts\<close>

lemma tick_timer_nth:
  "length (timer s) = 4 \<Longrightarrow> j < 4 \<Longrightarrow>
   unat (timer (tick_timer i s) ! j) = (if i = j then unat (timer s ! j) - 1 else unat (timer s ! j))"
  by (auto simp: tick_timer_def unat_sub_if' word_less_nat_alt nth_list_update word_le_nat_alt)

lemma tick_nth:
  assumes "length (timer s) = 4" "j \<in> {TIMER_BL_WAIT, TIMER_CIN, TIMER_DELAY}"
  shows "unat (timer (sys_tick_handler s) ! j) = unat (timer s ! j) - 1"
  using assms by (auto simp: sys_tick_handler_def Let_def upt_conv_Cons tick_timer_nth tick_timer_keeps nth_list_update)

lemma ticks_nth:
  "length (timer s) = 4 \<Longrightarrow> j \<in> {TIMER_BL_WAIT, TIMER_CIN, TIMER_DELAY} \<Longrightarrow>
   unat (timer ((sys_tick_handler ^^ n) s) ! j) = unat (timer s ! j) - n"
  by (induction n) (simp_all add: tick_nth)

lemma delay_ends: "length (timer s) = 4 \<Longrightarrow> timer (delay n s) ! TIMER_DELAY = 0"
  using ticks_nth [of "s\<lparr>timer := (timer s)[TIMER_DELAY := n]\<rparr>" TIMER_DELAY "unat n"]
  by (simp add: delay_def unsigned_eq_0_iff)

text \<open>A poll at which nothing arrives, and the time that passes over such polls.\<close>

definition quiet :: "poll \<Rightarrow> bool" where
  "quiet e \<longleftrightarrow> usb_arrived e = [] \<and> uart_arrived e = []"

definition elapsed :: "poll list \<Rightarrow> nat" where
  "elapsed es = sum_list (map (\<lambda>e. before_ms e + after_ms e) es)"

definition silent :: "bl_serial \<Rightarrow> bool" where
  "silent s \<longleftrightarrow> usb_rx s = [] \<and> uart_rx s = [] \<and> length (timer s) = 4"

lemma cin_silent: "usb_rx s = [] \<Longrightarrow> uart_rx s = [] \<Longrightarrow> cin dev s = (- 1, s)"
  by (simp add: cin_def)

lemma quiet_poll:
  assumes "silent s" "quiet e"
  defines "s1 \<equiv> (sys_tick_handler ^^ after_ms e) (arrive e s)"
  shows "cin dev (arrive e s) = (- 1, arrive e s)" "silent s1" "core s1 = core s"
    "j \<in> {TIMER_BL_WAIT, TIMER_CIN, TIMER_DELAY} \<Longrightarrow> unat (timer s1 ! j) = unat (timer s ! j) - (before_ms e + after_ms e)"
proof -
  show "cin dev (arrive e s) = (- 1, arrive e s)"
    using assms(1,2) by (simp add: cin_silent silent_def quiet_def)
  show "silent s1" "core s1 = core s"
    using assms(1,2) by (simp_all add: s1_def silent_def quiet_def)
  have "timer (arrive e s) = timer ((sys_tick_handler ^^ before_ms e) s)"
    by (simp add: arrive_def Let_def)
  then show "j \<in> {TIMER_BL_WAIT, TIMER_CIN, TIMER_DELAY} \<Longrightarrow> unat (timer s1 ! j) = unat (timer s ! j) - (before_ms e + after_ms e)"
    using assms(1) by (simp add: s1_def silent_def ticks_nth del: insert_iff)
qed

lemma cin_wait_quiet:
  assumes "silent s" "quiet e" "polls s = e # es"
  obtains s' where "cin_wait dev 0 s = Some (- 1, s')" "silent s'" "core s' = core s" "polls s' = es"
    "unat (timer s' ! TIMER_BL_WAIT) = unat (timer s ! TIMER_BL_WAIT) - (before_ms e + after_ms e)"
proof -
  define s0 where "s0 = s\<lparr>timer := (timer s)[TIMER_CIN := 0]\<rparr>"
  have "silent s0"
    using assms(1) by (simp add: s0_def silent_def)
  note q = quiet_poll [OF this assms(2)]
  define s1 where "s1 = (sys_tick_handler ^^ after_ms e) (arrive e s0)"
  have "unat (timer s1 ! TIMER_CIN) = 0"
    using q(4) [of TIMER_CIN] assms(1) by (simp add: s1_def s0_def silent_def)
  then have "\<not> timer s1 ! TIMER_CIN > 0"
    by (simp add: word_less_nat_alt)
  then have w: "cin_wait dev 0 s = Some (- 1, s1\<lparr>polls := es\<rparr>)"
    unfolding cin_wait_def assms(3) cin_loop.simps s0_def [symmetric] using q(1) by (simp add: Let_def s1_def)
  show ?thesis
    using q(2,3) q(4) [of TIMER_BL_WAIT] by (intro that [OF w]) (simp_all add: s1_def s0_def silent_def)
qed

lemma wait_command_quiet:
  assumes "silent s" "polls s = es @ rest" "\<forall>e \<in> set es. quiet e" "unat (timer s ! TIMER_BL_WAIT) \<le> elapsed es" "bl_timeout s \<noteq> 0"
  shows "\<exists>s'. wait_command dev True s = Some (None, s') \<and> core s' = core s"
  using assms
proof (induction es arbitrary: s)
  case Nil
  then have "timer s ! TIMER_BL_WAIT = 0"
    by (simp add: elapsed_def unsigned_eq_0_iff)
  with Nil show ?case
    by (subst wait_command.simps) simp
next
  case (Cons e es)
  show ?case
  proof (cases "timer s ! TIMER_BL_WAIT = 0")
    case True
    with Cons.prems show ?thesis
      by (subst wait_command.simps) simp
  next
    case False
    have "quiet e" "polls s = e # (es @ rest)"
      using Cons.prems by simp_all
    from cin_wait_quiet [OF Cons.prems(1) this] obtain s1 where
      s1: "cin_wait dev 0 s = Some (- 1, s1)" "silent s1" "core s1 = core s" "polls s1 = es @ rest"
        "unat (timer s1 ! TIMER_BL_WAIT) = unat (timer s ! TIMER_BL_WAIT) - (before_ms e + after_ms e)" .
    have "bl_timeout s1 \<noteq> 0"
      using s1(3) Cons.prems(5) by (simp add: core_def)
    then have "\<exists>s'. wait_command dev True s1 = Some (None, s') \<and> core s' = core s1"
      using s1 Cons.prems by (intro Cons.IH) (auto simp: elapsed_def)
    with False s1 show ?thesis
      by (subst wait_command.simps) simp
  qed
qed

text \<open>
  C34. Without a host the bootloader gives up: when it was started with a timeout and nothing arrives for that many
  milliseconds, it returns, having written nothing to the flash and sent nothing.
\<close>

theorem bootloader_times_out:
  assumes "tmo \<noteq> 0" "silent s" "polls s = es @ rest" "\<forall>e \<in> set es. quiet e" "unat tmo \<le> elapsed es"
  shows "\<exists>s'. bootloader hw pm tmo True s = Some s' \<and> flash_st s' = flash_st s \<and>
    usb_tx s' = usb_tx s \<and> uart_tx s' = uart_tx s"
proof -
  define s0 where "s0 = (bootloader_start hw tmo s)\<lparr>led_activity := False\<rparr>"
  have s0: "silent s0" "polls s0 = es @ rest" "timer s0 ! TIMER_BL_WAIT = tmo" "bl_timeout s0 \<noteq> 0"
    and c: "flash_st s0 = flash_st s" "usb_tx s0 = usb_tx s" "uart_tx s0 = uart_tx s"
    using assms(1-3) by (simp_all add: s0_def bootloader_start_def led_set_def silent_def Let_def)
  obtain s1 where s1: "wait_command (board_get_devices hw True) True s0 = Some (None, s1)" "core s1 = core s0"
    using wait_command_quiet [OF s0(1,2) assms(4)] s0(3,4) assms(5) by auto
  then have "bl_step hw pm True (bootloader_start hw tmo s) = Some (True, s1)"
    by (simp add: bl_step_def s0_def)
  then have "bootloader hw pm tmo True s = Some s1"
    by (simp add: bootloader_def bootloader_loop.simps)
  then show ?thesis
    using s1(2) c by (simp add: core_def)
qed

theorem bootloader_times_out_witness:
  "\<exists>s'. bootloader fmu_v6x (ideal_progmem fmu_v6x) 2500 True
     (idle_state (replicate 1250 \<lparr> before_ms = 1, usb_arrived = [], uart_arrived = [], after_ms = 1 \<rparr>)) = Some s' \<and> usb_tx s' = []"
  using bootloader_times_out [of 2500 "idle_state (replicate 1250 \<lparr> before_ms = 1, usb_arrived = [], uart_arrived = [], after_ms = 1 \<rparr>)"
      "replicate 1250 \<lparr> before_ms = 1, usb_arrived = [], uart_arrived = [], after_ms = 1 \<rparr>" "[]" fmu_v6x "ideal_progmem fmu_v6x"]
  by (simp add: idle_state_def silent_def quiet_def elapsed_def sum_list_replicate) metis

end
