(* ===== verification/Bl_Main.thy ===== *)
theory Bl_Main
  imports Bl_Time
begin

text \<open>
  Starting the application: \<^verbatim>\<open>jump_to_app\<close> of \<^verbatim>\<open>src/platforms/nuttx/src/bootloader/common/bl.c\<close>, the table of contents of a
  signed image (\<^verbatim>\<open>image_toc.c\<close>, \<^verbatim>\<open>crypto.c\<close>), and the main program \<^verbatim>\<open>stm/stm32_common/main.c\<close> around the command
  loop. The check of a signature is a parameter; what the pins show is an input.
\<close>

section \<open>Table of contents\<close>

definition MAX_TOC_ENTRIES :: nat where [simp]: "MAX_TOC_ENTRIES = 32"
definition TOC_FLAG1_BOOT :: u8 where "TOC_FLAG1_BOOT = BIT 0"
definition TOC_FLAG1_VTORS :: u8 where "TOC_FLAG1_VTORS = BIT 1"
definition TOC_FLAG1_CHECK_SIGNATURE :: u8 where "TOC_FLAG1_CHECK_SIGNATURE = BIT 2"
definition TOC_FLAG1_DECRYPT :: u8 where "TOC_FLAG1_DECRYPT = BIT 3"
definition TOC_FLAG1_COPY :: u8 where "TOC_FLAG1_COPY = BIT 4"
definition TOC_START_MAGIC :: u32 where "TOC_START_MAGIC = 0x00434f54"
definition TOC_END_MAGIC :: u32 where "TOC_END_MAGIC = 0x00444e45"
definition TOC_VERSION :: u32 where "TOC_VERSION = 1"

record image_toc_entry_t =
  toc_name :: u32
  toc_start :: u32
  toc_end :: u32
  toc_target :: u32
  signature_idx :: u8
  signature_key :: u8
  encryption_key :: u8
  flags1 :: u8

definition FLASH_END_ADDRESS :: "hw_config \<Rightarrow> u32" where
  "FLASH_END_ADDRESS hw = FLASH_START_ADDRESS hw + BOARD_FLASH_SIZE hw"

definition toc_start_u32 :: "hw_config \<Rightarrow> u32" where
  "toc_start_u32 hw = APP_LOAD_ADDRESS hw + BOOT_DELAY_ADDRESS hw + 8"

definition entry_addr :: "hw_config \<Rightarrow> nat \<Rightarrow> u32" where
  "entry_addr hw i = toc_start_u32 hw + 8 + 24 * word_of_nat i"

definition toc_entry :: "hw_config \<Rightarrow> mem \<Rightarrow> nat \<Rightarrow> image_toc_entry_t" where
  "toc_entry hw m i =
     (let a = entry_addr hw i; b = m (a + 16)
      in \<lparr> toc_name = m a, toc_start = m (a + 4), toc_end = m (a + 8), toc_target = m (a + 12),
           signature_idx = ucast b, signature_key = ucast (drop_bit 8 b), encryption_key = ucast (drop_bit 16 b),
           flags1 = ucast (drop_bit 24 b) \<rparr>)"

function toc_count :: "hw_config \<Rightarrow> mem \<Rightarrow> nat \<Rightarrow> nat" where
  "toc_count hw m i =
     (if i < MAX_TOC_ENTRIES \<and> entry_addr hw i \<le> FLASH_END_ADDRESS hw - 4 \<and> m (entry_addr hw i) \<noteq> TOC_END_MAGIC
      then toc_count hw m (Suc i) else i)"
  by pat_completeness auto
termination
  by (relation "measure (\<lambda>(hw, m, i). MAX_TOC_ENTRIES - i)") auto

declare toc_count.simps [simp del]

definition find_toc :: "hw_config \<Rightarrow> mem \<Rightarrow> nat option" where
  "find_toc hw m =
     (if m (toc_start_u32 hw) = TOC_START_MAGIC \<and> m (toc_start_u32 hw + 4) \<le> TOC_VERSION
      then let i = toc_count hw m 0; e0 = toc_entry hw m 0
           in if i \<le> MAX_TOC_ENTRIES \<and> i > 0 \<and> toc_start e0 = APP_LOAD_ADDRESS hw \<and>
                 toc_end e0 \<le> FLASH_END_ADDRESS hw - 4 \<and> toc_end e0 > toc_start e0
              then let sig_idx = unat (signature_idx e0); es = toc_entry hw m sig_idx
                   in if sig_idx > 0 \<and> sig_idx < MAX_TOC_ENTRIES \<and> toc_start es \<ge> toc_end e0 \<and>
                         toc_end es \<le> FLASH_END_ADDRESS hw \<and> toc_end es > toc_start es
                      then Some i else None
              else None
      else None)"

definition get_base_addr :: "image_toc_entry_t \<Rightarrow> u32" where
  "get_base_addr e =
     (if tst (flags1 e) TOC_FLAG1_DECRYPT \<or> tst (flags1 e) TOC_FLAG1_COPY then toc_target e else toc_start e)"

text \<open>The check of a signature: key, address of the signature, address and length of the data.\<close>

type_synonym signature_check = "u8 \<Rightarrow> u32 \<Rightarrow> u32 \<Rightarrow> u32 \<Rightarrow> mem \<Rightarrow> bool"

definition verify_app :: "signature_check \<Rightarrow> hw_config \<Rightarrow> mem \<Rightarrow> nat \<Rightarrow> bool" where
  "verify_app crypto_signature_check hw m idx =
     (let e = toc_entry hw m idx;
          app_signature_ptr = toc_start (toc_entry hw m (unat (signature_idx e)));
          len = toc_end e - toc_start e
      in crypto_signature_check (signature_key e) app_signature_ptr (toc_start e) len m)"

definition decrypt_app :: "nat \<Rightarrow> bool" where
  "decrypt_app idx = False"

section \<open>The jump\<close>

text \<open>What \<^verbatim>\<open>jump_to_app\<close> does: it stays, or it jumps, with the vectors and the application at given addresses.\<close>

datatype jump = Stay | Jump (vectors: u32) (app: u32)

definition jump_to_app :: "hw_config \<Rightarrow> mem \<Rightarrow> jump" where
  "jump_to_app hw m =
     (let app_base = APP_LOAD_ADDRESS hw
      in if m app_base = 0xffffffff then Stay
         else if m (app_base + 4) < APP_LOAD_ADDRESS hw then Stay
         else if m (app_base + 4) \<ge> APP_LOAD_ADDRESS hw + app_size_max hw then Stay
         else Jump app_base app_base)"

text \<open>
  With a table of contents. One pass over an entry may copy it to memory (recorded in the first component), and sets the
  addresses of the application and of the vectors.
\<close>

definition toc_pass ::
  "signature_check \<Rightarrow> hw_config \<Rightarrow> mem \<Rightarrow> nat \<Rightarrow> (u32 \<times> u32 \<times> u32) list \<times> u32 \<times> u32 \<Rightarrow> (u32 \<times> u32 \<times> u32) list \<times> u32 \<times> u32" where
  "toc_pass sc hw m i = (\<lambda>(copies, app_base, vec_base).
     let e = toc_entry hw m i
     in if i \<noteq> 0 \<and> tst (flags1 e) TOC_FLAG1_CHECK_SIGNATURE \<and> \<not> verify_app sc hw m i then (copies, app_base, vec_base)
        else if tst (flags1 e) TOC_FLAG1_DECRYPT \<and> \<not> decrypt_app i then (copies, app_base, vec_base)
        else (if tst (flags1 e) TOC_FLAG1_COPY then copies @ [(toc_target e, toc_start e, toc_end e - toc_start e)] else copies,
              if tst (flags1 e) TOC_FLAG1_BOOT then get_base_addr e else app_base,
              if tst (flags1 e) TOC_FLAG1_VTORS then get_base_addr e else vec_base))"

definition jump_to_app_toc :: "signature_check \<Rightarrow> hw_config \<Rightarrow> mem \<Rightarrow> jump" where
  "jump_to_app_toc sc hw m =
     (if m (APP_LOAD_ADDRESS hw) = 0xffffffff then Stay
      else case find_toc hw m of
             None \<Rightarrow> Stay
           | Some len \<Rightarrow>
               if \<not> verify_app sc hw m 0 then Stay
               else let (_, app_base, vec_base) = fold (toc_pass sc hw m) [0..<len] ([], 0, 0)
                    in if app_base = 0 then Stay
                       else Jump (if vec_base = 0 then app_base else vec_base) app_base)"

section \<open>The main program\<close>

definition BOOT_RTC_SIGNATURE :: u32 where "BOOT_RTC_SIGNATURE = 0xb007b007"

text \<open>Two pins strapped together: the readings while 1 is driven and while 0 is, in ten cycles.\<close>

definition force_pin_pair :: "(bool list \<times> bool list) list \<Rightarrow> bool" where
  "force_pin_pair cycles =
     (let vote = sum_list (map (\<lambda>(hi, lo). length (filter (\<lambda>b. b) hi) + length (filter (\<lambda>b. \<not> b) lo)) cycles);
          samples = sum_list (map (\<lambda>(hi, lo). length hi + length lo) cycles)
      in vote * 100 > samples * 90)"

definition force_pin_single :: "bool \<Rightarrow> bool list \<Rightarrow> bool" where
  "force_pin_single forced readings =
     (let vote = length (filter (\<lambda>b. b = forced) readings) in vote * 100 > length readings * 90)"

text \<open>Looking for a break on the serial line: the pairs are the tick flag and the level of the line.\<close>

fun break_loop :: "(bool \<times> bool) list \<Rightarrow> nat \<Rightarrow> nat \<Rightarrow> bool option" where
  "break_loop ps cnt low =
     (if \<not> cnt < 60 then Some (low \<ge> 18)
      else case ps of
             [] \<Rightarrow> None
           | (tick, level) # ps \<Rightarrow>
               let low = (if tick then (if \<not> level then low + 1 else 0) else low);
                   cnt = (if tick then cnt + 1 else cnt)
               in if low \<ge> 18 then Some True else break_loop ps cnt low)"

declare break_loop.simps [simp del]

definition board_test_usart_receiving_break :: "(bool \<times> bool) list \<Rightarrow> bool option" where
  "board_test_usart_receiving_break ps = break_loop ps 0 0"

record boot_choice =
  try_boot :: bool
  boot_timeout :: u32
  rtc_signature :: u32

definition boot_decide :: "hw_config \<Rightarrow> mem \<Rightarrow> u32 \<Rightarrow> bool \<Rightarrow> bool \<Rightarrow> bool \<Rightarrow> boot_choice" where
  "boot_decide hw m rtc force_pin vbus receiving_break =
     (let c = \<lparr> try_boot = True, boot_timeout = BOOTLOADER_DELAY hw, rtc_signature = rtc \<rparr>;
          c = (if rtc = BOOT_RTC_SIGNATURE then c\<lparr>try_boot := False, boot_timeout := 0, rtc_signature := 0\<rparr> else c);
          sig1 = m (APP_LOAD_ADDRESS hw + BOOT_DELAY_ADDRESS hw);
          sig2 = m (APP_LOAD_ADDRESS hw + (BOOT_DELAY_ADDRESS hw + 4));
          boot_delay = sig1 AND 0xFF;
          c = (if sig2 = BOOT_DELAY_SIGNATURE2 \<and> sig1 AND 0xFFFFFF00 = BOOT_DELAY_SIGNATURE1 AND 0xFFFFFF00 \<and>
                  boot_delay \<le> ucast BOOT_DELAY_MAX
               then c\<lparr>try_boot := False, boot_timeout := (if boot_timeout c < boot_delay * 1000 then boot_delay * 1000 else boot_timeout c)\<rparr>
               else c);
          c = (if force_pin then c\<lparr>try_boot := False\<rparr> else c);
          c = (if vbus then c\<lparr>try_boot := False\<rparr> else c)
      in if receiving_break then c\<lparr>try_boot := False\<rparr> else c)"

text \<open>
  The first attempt to start the application, and one pass of the endless loop around the command loop. The application
  that is started does not return; otherwise the bootloader stays.
\<close>

definition first_attempt :: "hw_config \<Rightarrow> mem \<Rightarrow> boot_choice \<Rightarrow> jump \<times> boot_choice" where
  "first_attempt hw m c =
     (if try_boot c
      then case jump_to_app hw m of
             Stay \<Rightarrow> (Stay, c\<lparr>rtc_signature := BOOT_RTC_SIGNATURE, boot_timeout := 0\<rparr>)
           | j \<Rightarrow> (j, c)
      else (Stay, c))"

definition main_pass ::
  "hw_config \<Rightarrow> progmem \<Rightarrow> bool \<Rightarrow> bool \<Rightarrow> bool \<Rightarrow> u32 \<times> bl_serial \<Rightarrow> (jump \<times> u32 \<times> bl_serial) option" where
  "main_pass hw pm usb_connected force_pin receiving_break = (\<lambda>(tmo, s). do {
     s \<leftarrow> bootloader hw pm tmo usb_connected s;
     if force_pin then Some (Stay, tmo, s)
     else if receiving_break then Some (Stay, tmo, s)
     else Some (jump_to_app hw (progmem_mem (flash_st s)), 0, s) })"

section \<open>The word held back\<close>

text \<open>
  Writes of the driver, even those that fail, touch no other words, and erasing leaves a word as it is or erases it.
\<close>

definition confined :: "progmem \<Rightarrow> bool" where
  "confined pm \<longleftrightarrow> (\<forall>a ws m x. (\<forall>j < length ws. x \<noteq> a + word_of_nat (4 * j)) \<longrightarrow> snd (up_progmem_write pm a ws m) x = m x) \<and>
     (\<forall>s m x. up_progmem_eraseblock pm s m x = m x \<or> up_progmem_eraseblock pm s m x = - 1)"

text \<open>
  The first word of the application is erased, and the only cached block that contains it is line 0, which is
  not written out before its first word is written again.
\<close>

definition held :: "hw_config \<Rightarrow> flash \<Rightarrow> bool" where
  "held hw f \<longleftrightarrow> length (flash_cache f) = 2 \<and> length (words (flash_cache f ! 0)) = 8 \<and> length (words (flash_cache f ! 1)) = 8 \<and>
     start_address (flash_cache f ! 0) = app_word hw 0 \<and>
     (\<forall>j < 8. app_word hw 0 \<noteq> start_address (flash_cache f ! 1) + word_of_nat (4 * j)) \<and>
     progmem_mem f (app_word hw 0) = - 1"

lemma reset_avoids:
  assumes "board_ok hw" "j < 8"
  shows "app_word hw 0 \<noteq> - 1 + word_of_nat (4 * j)"
proof
  assume "app_word hw 0 = - 1 + word_of_nat (4 * j)"
  then have "app_word hw 0 + 1 = word_of_nat (4 * j)"
    by simp
  then have "unat (app_word hw 0 + 1) = 4 * j"
    using assms(2) by (simp add: unsigned_of_nat take_bit_nat_eq_self del: of_nat_mult)
  moreover have "unat (app_word hw 0 + 1) = unat (APP_LOAD_ADDRESS hw) + 1"
    using assms(1) app_words_mod(2,3) [OF assms(1)] by (simp add: app_word_0 unat_word_ariths(1) board_ok_def)
  moreover obtain k where "unat (APP_LOAD_ADDRESS hw) = 32 * k"
    using assms(1) by (auto simp: board_ok_def)
  ultimately have "32 * k + 1 = 4 * j"
    by simp
  then show False
    by presburger
qed

lemma held_flush:
  assumes "held hw f" "confined pm"
  shows "held hw (snd (fc_flush pm 1 f))" "flash_cache (snd (fc_flush pm 1 f)) = flash_cache f"
  using assms by (auto simp: held_def fc_flush_def confined_def Let_def split: prod.split) (metis snd_conv)

lemma held_read:
  assumes "held hw f" "confined pm" "board_ok hw"
  shows "held hw (snd (fc_read pm a f))" "index (flash_cache (snd (fc_read pm a f)) ! 0) = index (flash_cache f ! 0)"
proof -
  have sel: "fc_line_select a f = None \<or> fc_line_select a f = Some 0 \<or> fc_line_select a f = Some 1"
    by (simp add: fc_line_select_def find_two)
  obtain e f1 where f1: "fc_flush pm 1 f = (e, f1)"
    by fastforce
  have h: "held hw f1" "flash_cache f1 = flash_cache f"
    using held_flush [OF assms(1,2)] f1 by simp_all
  have "held hw (upd_line 1 (\<lambda>_. fcl_reset) f1)"
    using h(1) reset_avoids [OF assms(3)] by (simp add: held_def upd_line_def fcl_reset_def)
  then show "held hw (snd (fc_read pm a f))" "index (flash_cache (snd (fc_read pm a f)) ! 0) = index (flash_cache f ! 0)"
    using sel h f1 assms(1) by (auto simp: fc_read_def Let_def upd_line_def)
qed

lemma held_write:
  fixes w :: u32 and pm :: progmem
  assumes "held hw f" "board_ok hw" "i < app_words hw" "\<not> (i = 0 \<and> index (flash_cache f ! 0) = 7)"
  defines "f' \<equiv> snd (fc_write pm (app_word hw i) w f)"
  shows "held hw f'" "index (flash_cache f' ! 0) = (if i < 8 then word_of_nat i else index (flash_cache f ! 0))"
    "i = 0 \<Longrightarrow> fst (fc_read pm (app_word hw 0) f') = w"
proof -
  note h = assms(1) [unfolded held_def]
  have i8: "8 * (i div 8) < app_words hw"
    using assms(3) by linarith
  have ix: "FC_ADDR2INDX (app_word hw i) = word_of_nat (i mod 8)" "unat (word_of_nat (i mod 8) :: u32) = i mod 8"
    using assms(2,3) by (simp_all add: app_word_indx unsigned_of_nat take_bit_nat_eq_self)
  have zero: "(word_of_nat (i mod 8) :: u32) = 0 \<longleftrightarrow> i mod 8 = 0"
    by (simp only: word_unat_eq_iff ix(2) unsigned_0)
  have tag0: "app_word hw 0 = app_word hw (8 * (i div 8)) \<longleftrightarrow> i < 8"
    using assms(2) i8 by (simp add: app_word_inj div_eq_0_iff)
  have avoid: "app_word hw 0 \<noteq> app_word hw i + word_of_nat (4 * j)" if "j < 8" "i mod 8 = 0" "8 \<le> i" for j
  proof -
    have "i + j < app_words hw"
      using that assms(3) app_words_mod(1) [OF assms(2)] by presburger
    moreover have "app_word hw i + word_of_nat (4 * j) = app_word hw (i + j)"
      by (simp add: app_word_add)
    ultimately show ?thesis
      using assms(2) that(3) by (simp add: app_word_inj)
  qed
  have sel: "fc_line_select (app_word hw i) f =
      (if i < 8 then Some 0 else if start_address (flash_cache f ! 1) = app_word hw (8 * (i div 8)) then Some 1 else None)"
    using h tag0 assms(2,3) by (simp add: fc_line_select_def find_two app_word_tag)
  consider (first) "i < 8" | (fresh) "8 \<le> i" "start_address (flash_cache f ! 1) \<noteq> app_word hw (8 * (i div 8))" "i mod 8 = 0"
    | (lost) "8 \<le> i" "start_address (flash_cache f ! 1) \<noteq> app_word hw (8 * (i div 8))" "i mod 8 \<noteq> 0"
    | (fill) "8 \<le> i" "start_address (flash_cache f ! 1) = app_word hw (8 * (i div 8))"
    by linarith
  then have f': "held hw f' \<and> index (flash_cache f' ! 0) = (if i < 8 then word_of_nat i else index (flash_cache f ! 0)) \<and>
    (i = 0 \<longrightarrow> words (flash_cache f' ! 0) ! 0 = w)"
  proof cases
    case first
    have z: "(word_of_nat i :: u32) = 0 \<longleftrightarrow> i = 0" "unat (word_of_nat i :: u32) = i" "FC_ADDR2INDX (app_word hw i) = word_of_nat i"
      using first zero ix by simp_all
    have "fc_write pm (app_word hw i) w f = (0, upd_line 0 (\<lambda>l. l\<lparr>words := (words l)[i := w], index := word_of_nat i\<rparr>) f)"
      unfolding fc_write_def Let_def z(3) sel using first h assms(4) z(1,2) by (auto simp: upd_line_def)
    then have "f' = upd_line 0 (\<lambda>l. l\<lparr>words := (words l)[i := w], index := word_of_nat i\<rparr>) f"
      by (simp add: f'_def)
    then show ?thesis
      using first h by (simp add: upd_line_def held_def)
  next
    case fresh
    then show ?thesis
      using h avoid by (auto simp: f'_def fc_write_def Let_def sel ix zero upd_line_def held_def)
  next
    case lost
    then show ?thesis
      using h by (auto simp: f'_def fc_write_def Let_def sel ix zero held_def)
  next
    case fill
    then show ?thesis
      using h by (auto simp: f'_def fc_write_def Let_def sel ix zero upd_line_def held_def)
  qed
  then show "held hw f'" "index (flash_cache f' ! 0) = (if i < 8 then word_of_nat i else index (flash_cache f ! 0))"
    by blast+
  assume i: "i = 0"
  then have "fc_line_select (app_word hw 0) f' = Some 0"
    using f' assms(2) app_word_tag [OF assms(2,3)] by (simp add: fc_line_select_def find_two held_def)
  then show "fst (fc_read pm (app_word hw 0) f') = w"
    using f' i ix by (simp add: fc_read_def Let_def)
qed

text \<open>The program address is that of a word, and while it is the first one, line 0 is not ready to be written out.\<close>

definition armed :: "flash \<Rightarrow> bool" where
  "armed f \<longleftrightarrow> index (flash_cache f ! 0) = 7"

lemma prog_loop_held:
  assumes "held hw f" "confined pm" "board_ok hw" "k + length ws \<le> app_words hw" "k = 0 \<Longrightarrow> \<not> armed f"
    and "prog_loop (flash_func_write_word hw pm) (flash_func_read_word hw pm) ws (word_of_nat (4 * k)) f = (ok, a, f')"
  shows "held hw f' \<and> (\<exists>k' \<le> app_words hw. a = word_of_nat (4 * k') \<and> (k' = 0 \<longrightarrow> \<not> armed f'))"
  using assms
proof (induction ws arbitrary: k f)
  case Nil
  then show ?case by auto
next
  case (Cons w ws)
  define f1 where "f1 = snd (fc_write pm (app_word hw k) w f)"
  obtain r f2 where f2: "fc_read pm (app_word hw k) f1 = (r, f2)"
    by fastforce
  have k: "k < app_words hw" "\<not> (k = 0 \<and> index (flash_cache f ! 0) = 7)"
    using Cons.prems(4,5) by (auto simp: armed_def)
  note w = held_write [OF Cons.prems(1,3) k, of pm w, folded f1_def]
  have h2: "held hw f2" "index (flash_cache f2 ! 0) = index (flash_cache f1 ! 0)"
    using held_read [OF w(1) Cons.prems(2,3), of "app_word hw k"] f2 by simp_all
  have next_addr: "(word_of_nat (4 * k) + 4 :: u32) = word_of_nat (4 * Suc k)"
    by simp
  have loop: "prog_loop (flash_func_write_word hw pm) (flash_func_read_word hw pm) (w # ws) (word_of_nat (4 * k)) f =
      (if r \<noteq> w then (False, word_of_nat (4 * k), f2)
       else prog_loop (flash_func_write_word hw pm) (flash_func_read_word hw pm) ws (word_of_nat (4 * Suc k)) f2)"
    unfolding prog_loop.simps write_offset read_offset f1_def [symmetric] f2 next_addr by simp
  show ?case
  proof (cases "r = w")
    case True
    then show ?thesis
      using Cons.IH [OF h2(1) Cons.prems(2,3), of "Suc k"] Cons.prems(4,6) loop by simp
  next
    case False
    moreover from this have "k \<noteq> 0"
      using w(3) f2 by (metis fst_conv)
    ultimately have "a = word_of_nat (4 * k)" "f' = f2" "k \<noteq> 0"
      using Cons.prems(6) loop by simp_all
    then show ?thesis
      using h2(1) k(1) less_imp_le by blast
  qed
qed

definition hold :: "hw_config \<Rightarrow> bl_serial \<Rightarrow> bool" where
  "hold hw s \<longleftrightarrow> held hw (flash_st s) \<and>
     (\<exists>k \<le> app_words hw. address s = word_of_nat (4 * k) \<and> (k = 0 \<longrightarrow> \<not> armed (flash_st s)))"

lemma hold_core: "core s' = core s \<Longrightarrow> hold hw s' = hold hw s"
  by (simp add: hold_def core_def)

lemma hold_cout [simp]: "hold hw (cout buf s) = hold hw s" "hold hw (SET_BL_STATE x s) = hold hw s"
  "hold hw (led_set l s) = hold hw s" "hold hw (cout_word v s) = hold hw s" "hold hw (s\<lparr>bl_timeout := t\<rparr>) = hold hw s"
  "hold hw (s\<lparr>bl_type := y\<rparr>) = hold hw s" "hold hw (s\<lparr>bl_state := z\<rparr>) = hold hw s" "hold hw (s\<lparr>first_word := v\<rparr>) = hold hw s"
  "hold hw (s\<lparr>flash_buffer := b\<rparr>) = hold hw s"
  by (simp_all add: hold_def cout_def SET_BL_STATE_def led_set_def cout_word_def Let_def split: led_state.split)

lemma hold_finish [simp]: "hold hw (finish out s) = hold hw s"
  by (simp add: finish_def sync_response_def invalid_response_def failure_response_def Let_def split: outcome.split)

lemma hold_delay [simp]: "hold hw (delay n s) = hold hw s"
  by (rule hold_core) (simp add: delay_def)

lemma wait_for_eoc_core: "wait_for_eoc dev t s = Some (e, s') \<Longrightarrow> core s' = core s"
  by (auto simp: wait_for_eoc_def bind_eq_Some_conv dest!: cin_wait_core)

lemmas hold_wait = hold_core [OF cin_wait_core] hold_core [OF wait_for_eoc_core]

lemma cin_bytes_core: "cin_bytes dev t n got s = Some (r, g, s') \<Longrightarrow> core s' = core s"
proof (induction n arbitrary: got s)
  case (Suc n)
  then show ?case
    by (auto simp: bind_eq_Some_conv split: if_splits dest: cin_wait_core)
qed simp

lemma read_word_hold:
  assumes "hold hw s" "confined pm" "board_ok hw" "read_word hw pm a s = (w, s')"
  shows "hold hw s'" "core s' = core (s\<lparr>flash_st := flash_st s'\<rparr>)"
proof -
  obtain f where f: "flash_func_read_word hw pm a (flash_st s) = (w, f)" "s' = s\<lparr>flash_st := f\<rparr>"
    using assms(4) by (auto simp: read_word_def split: prod.splits)
  have "held hw f" "armed f = armed (flash_st s)"
  proof -
    have h: "held hw (flash_st s)"
      using assms(1) by (simp add: hold_def)
    show "held hw f" "armed f = armed (flash_st s)"
      using held_read [OF h assms(2,3), of "a + APP_LOAD_ADDRESS hw"] h f(1)
      by (simp_all add: flash_func_read_word_def armed_def split: if_splits)
  qed
  then show "hold hw s'" "core s' = core (s\<lparr>flash_st := flash_st s'\<rparr>)"
    using assms(1) f(2) by (simp_all add: hold_def)
qed

lemma cin_word_core: "cin_word dev t s = Some (r, s') \<Longrightarrow> core s' = core s"
  by (auto simp: cin_word_def bind_eq_Some_conv dest!: cin_bytes_core)

lemma wait_command_core: "wait_command dev u s = Some (c, s') \<Longrightarrow> core s' = core s"
proof (induction dev u s rule: wait_command.induct)
  case (1 dev u s)
  then show ?case
    by (subst (asm) (2) wait_command.simps) (auto split: if_splits option.splits dest: cin_wait_core)
qed

section \<open>Every command keeps the word back\<close>

lemma cout_vectors_hold: "hold hw s \<Longrightarrow> confined pm \<Longrightarrow> board_ok hw \<Longrightarrow> hold hw (cout_vectors hw pm ps s)"
proof (induction ps arbitrary: s)
  case (Cons p ps)
  obtain w s1 where s1: "read_word hw pm (word_of_nat (p * 4)) s = (w, s1)"
    by fastforce
  then show ?case
    using Cons read_word_hold(1) [OF Cons.prems s1] by simp
qed simp

lemma verify_erased_hold:
  assumes "hold hw s" "confined pm" "board_ok hw" "\<not> armed (flash_st s)" "set is \<subseteq> {..<app_words hw}"
    and "verify_erased hw pm (map (\<lambda>i. word_of_nat (4 * i)) is) s = (ok, s')"
  shows "hold hw s' \<and> \<not> armed (flash_st s')"
  using assms
proof (induction "is" arbitrary: s)
  case (Cons i "is")
  define s0 where "s0 = s\<lparr>address := word_of_nat (4 * i)\<rparr>"
  obtain w s1 where s1: "read_word hw pm (word_of_nat (4 * i)) s0 = (w, s1)"
    by fastforce
  have h0: "hold hw s0"
    using Cons.prems(1,4,5) by (auto simp: hold_def s0_def intro!: exI [of _ i] simp del: of_nat_mult)
  have "held hw (flash_st s0)"
    using h0 by (simp add: hold_def)
  then have "armed (flash_st s1) = armed (flash_st s0)"
    using s1 held_read(2) [of hw "flash_st s0" pm "app_word hw i"] Cons.prems(2,3)
    unfolding read_word_def read_offset by (auto simp: armed_def split: prod.splits)
  then have a1: "\<not> armed (flash_st s1)"
    using Cons.prems(4) by (simp add: s0_def)
  have h1: "hold hw s1"
    by (rule read_word_hold(1) [OF h0 Cons.prems(2,3) s1])
  have "verify_erased hw pm (map (\<lambda>i. word_of_nat (4 * i)) (i # is)) s =
      (if w \<noteq> 0xffffffff then (False, s1) else verify_erased hw pm (map (\<lambda>i. word_of_nat (4 * i)) is) s1)"
    using s1 by (simp add: s0_def)
  then show ?case
    using Cons.IH [OF h1 Cons.prems(2,3) a1] Cons.prems(5,6) h1 a1 by (simp split: if_splits)
qed simp

lemma erase_loop_held:
  "confined pm \<Longrightarrow> held hw f \<Longrightarrow> held hw (erase_loop hw pm i f) \<and> flash_cache (erase_loop hw pm i f) = flash_cache f"
proof (induction hw pm i f rule: erase_loop.induct)
  case (1 hw pm i f)
  have "held hw (flash_func_erase_sector hw pm i f)" "flash_cache (flash_func_erase_sector hw pm i f) = flash_cache f"
    using 1(2,3) by (auto simp: held_def flash_func_erase_sector_def Let_def confined_def) metis+
  with 1 show ?case
    by (subst (1 2) erase_loop.simps) simp
qed

lemma replicate_two: "replicate 2 x = [x, x]"
  by (simp add: numeral_2_eq_2)

lemma reset_held:
  assumes "board_ok hw" "progmem_mem f (app_word hw 0) = - 1"
  shows "held hw (arch_flash_unlock hw f)" "\<not> armed (arch_flash_unlock hw f)"
  using assms reset_avoids [OF assms(1)]
  by (simp_all add: held_def armed_def arch_flash_unlock_def fc_reset_def fcl_reset_def app_word_0 replicate_two)

lemma cmd_erase_hold:
  assumes "hold hw s" "confined pm" "board_ok hw" "cmd_chip_erase hw pm dev s = Some (out, s')"
  shows "hold hw s'"
proof -
  obtain e s1 where s1: "wait_for_eoc dev 2 s = Some (e, s1)"
    using assms(4) by (auto simp: cmd_chip_erase_def bind_eq_Some_conv)
  have h1: "hold hw s1"
    using hold_wait(2) [OF s1] assms(1) by simp
  define f1 where "f1 = erase_loop hw pm 0 (arch_flash_unlock hw (flash_st (led_set LED_ON s1)))"
  define s2 where "s2 = led_set LED_OFF ((led_set LED_ON s1)\<lparr>flash_st := f1\<rparr>)"
  have "hold hw (led_set LED_ON s1)"
    using h1 by simp
  then have f1: "held hw f1" "\<not> armed f1"
    using erase_loop_held [OF assms(2)] reset_held [OF assms(3)] by (simp_all add: f1_def hold_def held_def armed_def)
  have "hold hw ((led_set LED_ON s1)\<lparr>flash_st := f1\<rparr>)"
    using f1 \<open>hold hw (led_set LED_ON s1)\<close> by (auto simp: hold_def simp del: of_nat_mult)
  then have h2: "hold hw s2" "\<not> armed (flash_st s2)"
    using f1(2) by (simp_all add: s2_def) (simp add: led_set_def)
  obtain ok s3 where v: "verify_erased hw pm (addresses_below (app_size_max hw)) s2 = (ok, s3)"
    by fastforce
  then have h3: "hold hw s3" "\<not> armed (flash_st s3)"
  proof -
    have "set [0..<app_words hw] \<subseteq> {..<app_words hw}"
      by auto
    then show "hold hw s3" "\<not> armed (flash_st s3)"
      using verify_erased_hold [OF h2(1) assms(2,3) h2(2)] v unfolding addresses_app [OF assms(3)] by blast+
  qed
  have "hold hw (s3\<lparr>address := 0\<rparr>)"
    using h3 by (auto simp: hold_def intro!: exI [of _ 0])
  then show ?thesis
    using assms(4) s1 v h1 h3(1) by (auto simp: cmd_chip_erase_def f1_def s2_def Let_def split: if_splits prod.splits)
qed

lemma save_first_word_hold [simp]: "hold hw (save_first_word s) = hold hw s"
  by (simp add: hold_def save_first_word_def)

lemma prog_room:
  assumes "board_ok hw" "k \<le> app_words hw" "\<not> (word_of_nat (4 * k) + word_of_int arg > app_size_max hw)" "0 \<le> arg" "arg \<le> 256"
  shows "k + nat arg div 4 \<le> app_words hw"
proof -
  define n where "n = nat arg"
  have "n \<le> 256"
    using assms(5) by (simp add: n_def)
  then have "4 * k + n < 2 ^ 32"
    using assms(1,2) app_words_mod(3) [OF assms(1)] unfolding board_ok_def by linarith
  then have "unat (word_of_nat (4 * k + n) :: u32) = 4 * k + n"
    by (simp only: unsigned_of_nat) (simp add: take_bit_nat_eq_self)
  moreover have "word_of_nat (4 * k) + word_of_int arg = (word_of_nat (4 * k + n) :: u32)"
    using assms(4) by (simp add: n_def)
  ultimately have "4 * k + n \<le> 4 * app_words hw"
    using assms(3) app_words_mod(3) [OF assms(1)] by (simp add: word_less_nat_alt)
  then show ?thesis
    by (simp add: n_def)
qed

lemma cmd_prog_hold:
  assumes "hold hw s" "confined pm" "board_ok hw" "cmd_prog_multi hw pm dev s = Some (out, s')"
  shows "hold hw s'"
proof -
  obtain arg s1 where s1: "cin_wait dev 50 s = Some (arg, s1)"
    using assms(4) by (auto simp: cmd_prog_multi_def bind_eq_Some_conv)
  have h1: "hold hw s1"
    using hold_wait(1) [OF s1] assms(1) by simp
  show ?thesis
  proof (cases "arg < 0 \<or> arg mod 4 \<noteq> 0 \<or> address s1 + word_of_int arg > app_size_max hw \<or> arg > 256")
    case True
    then show ?thesis
      using assms(4) s1 h1 by (auto simp: cmd_prog_multi_def split: if_splits)
  next
    case False
    then obtain r got s2 where s2: "cin_bytes dev 1000 (nat arg) [] s1 = Some (r, got, s2)"
      using assms(4) s1 by (auto simp: cmd_prog_multi_def bind_eq_Some_conv)
    define s3 where "s3 = s2\<lparr>flash_buffer := got @ drop (length got) (flash_buffer s2)\<rparr>"
    have h3: "hold hw s3"
      using hold_core [OF cin_bytes_core [OF s2]] h1 by (simp add: s3_def)
    have cmd: "(if r = None then Some (Bad, s3)
        else do {
          (eoc, s) \<leftarrow> wait_for_eoc dev 200 s3;
          if \<not> eoc then Some (Bad, s)
          else let s = save_first_word s;
                  (ok, a, f) = prog_loop (flash_func_write_word hw pm) (flash_func_read_word hw pm)
                    (map (word_at (flash_buffer s)) [0..<nat arg div 4]) (address s) (flash_st s);
                  s = s\<lparr>address := a, flash_st := f\<rparr>
               in if \<not> ok then Some (Fail, s) else Some (Break, SET_BL_STATE STATE_PROTO_PROG_MULTI s) }) = Some (out, s')"
      using assms(4) False s1 s2 unfolding s3_def by (simp add: cmd_prog_multi_def Let_def split del: if_split)
    show ?thesis
    proof (cases "r = None")
      case True
      then show ?thesis
        using cmd h3 by simp
    next
      case some: False
      obtain e s4 where s4: "wait_for_eoc dev 200 s3 = Some (e, s4)"
        using cmd some by (auto simp: bind_eq_Some_conv)
      define s5 where "s5 = save_first_word s4"
      obtain ok a f where pl: "prog_loop (flash_func_write_word hw pm) (flash_func_read_word hw pm)
          (map (word_at (flash_buffer s5)) [0..<nat arg div 4]) (address s5) (flash_st s5) = (ok, a, f)"
        using prod_cases3 by blast
      have h4: "hold hw s4"
        using hold_wait(2) [OF s4] h3 by simp
      then have h5: "hold hw s5"
        by (simp add: s5_def)
      have "address s5 = address s1"
        using wait_for_eoc_core [OF s4] cin_bytes_core [OF s2] by (simp add: s5_def save_first_word_def s3_def core_def)
      then obtain k where k: "address s5 = word_of_nat (4 * k)" "k \<le> app_words hw" "k = 0 \<Longrightarrow> \<not> armed (flash_st s5)"
          "\<not> (word_of_nat (4 * k) + word_of_int arg > app_size_max hw)"
        using h5 False by (auto simp: hold_def)
      have "held hw f \<and> (\<exists>k' \<le> app_words hw. a = word_of_nat (4 * k') \<and> (k' = 0 \<longrightarrow> \<not> armed f))"
        using pl h5 assms(2,3) k prog_room [OF assms(3) k(2,4)] False
        by (intro prog_loop_held [where k = k]) (auto simp: hold_def simp del: of_nat_mult)
      then have "hold hw (s5\<lparr>address := a, flash_st := f\<rparr>)"
        by (simp add: hold_def)
      then show ?thesis
        using cmd some s4 pl h4 by (auto simp: Let_def split: if_splits simp flip: s5_def)
    qed
  qed
qed

lemma crc_loop_hold:
  "hold hw s \<Longrightarrow> confined pm \<Longrightarrow> board_ok hw \<Longrightarrow> hold hw (snd (crc_loop hw pm as c s))"
proof (induction "as" arbitrary: s c)
  case (Cons p "as")
  obtain w s1 where s1: "read_word hw pm p s = (w, s1)"
    by fastforce
  show ?case
    using Cons read_word_hold(1) [OF Cons.prems s1] s1 by simp
qed simp

text \<open>The word with the boot delay lies behind the first block.\<close>

definition delay_placed :: "hw_config \<Rightarrow> bool" where
  "delay_placed hw \<longleftrightarrow> (\<exists>d < app_words hw. 8 \<le> d \<and> BOOT_DELAY_ADDRESS hw = word_of_nat (4 * d))"

lemma write_word_hold:
  assumes "hold hw s" "board_ok hw" "8 \<le> d" "d < app_words hw"
  shows "hold hw (write_word hw pm (word_of_nat (4 * d)) w s)"
proof -
  have h: "held hw (flash_st s)"
    using assms(1) by (simp add: hold_def)
  then show ?thesis
    using assms(1,3) held_write(1,2) [OF h assms(2,4), of pm w]
    unfolding hold_def write_word_def write_offset by (auto simp: armed_def)
qed

lemma cmd_set_delay_hold:
  assumes "hold hw s" "confined pm" "board_ok hw" "delay_placed hw" "cmd_set_delay hw pm dev s = Some (out, s')"
  shows "hold hw s'"
proof -
  obtain d where d: "8 \<le> d" "d < app_words hw" "BOOT_DELAY_ADDRESS hw = word_of_nat (4 * d)"
    using assms(4) by (auto simp: delay_placed_def)
  obtain v s1 where s1: "cin_wait dev 100 s = Some (v, s1)"
    using assms(5) by (auto simp: cmd_set_delay_def bind_eq_Some_conv)
  have h1: "hold hw s1"
    using hold_wait(1) [OF s1] assms(1) by simp
  have "hold hw s'" if "wait_for_eoc dev 2 s1 = Some (e, s2)" for e s2
  proof -
    have h2: "hold hw s2"
      using hold_wait(2) [OF that] h1 by simp
    obtain g1 s3 g2 s4 where r: "read_word hw pm (BOOT_DELAY_ADDRESS hw) s2 = (g1, s3)"
        "read_word hw pm (BOOT_DELAY_ADDRESS hw + 4) s3 = (g2, s4)"
      by fastforce
    have h4: "hold hw s4"
      using read_word_hold(1) [OF read_word_hold(1) [OF h2 assms(2,3) r(1)] assms(2,3) r(2)] .
    define val where "val = (BOOT_DELAY_SIGNATURE1 AND 0xFFFFFF00) OR ucast (word_of_int v :: u8)"
    have h5: "hold hw (write_word hw pm (BOOT_DELAY_ADDRESS hw) val s4)"
      using write_word_hold [OF h4 assms(3) d(1,2)] by (simp add: d(3))
    obtain r6 s6 where s6: "read_word hw pm (BOOT_DELAY_ADDRESS hw) (write_word hw pm (BOOT_DELAY_ADDRESS hw) val s4) = (r6, s6)"
      by fastforce
    have h6: "hold hw s6"
      by (rule read_word_hold(1) [OF h5 assms(2,3) s6])
    show ?thesis
      using assms(5) s1 that r s6 h1 h2 h4 h6
      by (simp add: cmd_set_delay_def Let_def flip: val_def split: if_splits)
  qed
  then show ?thesis
    using assms(5) s1 h1 by (auto simp: cmd_set_delay_def bind_eq_Some_conv Let_def split: if_splits)
qed

lemma cmd_others_hold:
  assumes "hold hw s" "confined pm" "board_ok hw"
  shows "cmd_get_sync dev s = Some (out, s') \<Longrightarrow> hold hw s'"
    and "cmd_get_device hw pm dev s = Some (out, s') \<Longrightarrow> hold hw s'"
    and "cmd_get_crc hw pm dev s = Some (out, s') \<Longrightarrow> hold hw s'"
    and "cmd_get_otp dev s = Some (out, s') \<Longrightarrow> hold hw s'"
    and "cmd_get_sn hw dev s = Some (out, s') \<Longrightarrow> hold hw s'"
    and "cmd_get_chip hw dev s = Some (out, s') \<Longrightarrow> hold hw s'"
    and "cmd_get_chip_des hw dev s = Some (out, s') \<Longrightarrow> hold hw s'"
proof -
  show "cmd_get_sync dev s = Some (out, s') \<Longrightarrow> hold hw s'"
    using assms by (auto simp: cmd_get_sync_def bind_eq_Some_conv hold_wait split: if_splits)
  show "cmd_get_device hw pm dev s = Some (out, s') \<Longrightarrow> hold hw s'"
    using assms by (auto simp: cmd_get_device_def bind_eq_Some_conv hold_wait cout_vectors_hold simp del: cout_vectors.simps
      split: if_splits)
  show "cmd_get_crc hw pm dev s = Some (out, s') \<Longrightarrow> hold hw s'"
    using assms crc_loop_hold [of hw _ pm]
    by (auto simp: cmd_get_crc_def bind_eq_Some_conv hold_wait split: if_splits prod.splits) (metis hold_wait(2) snd_conv)
  show "cmd_get_otp dev s = Some (out, s') \<Longrightarrow> hold hw s'" "cmd_get_sn hw dev s = Some (out, s') \<Longrightarrow> hold hw s'"
    using assms hold_core [OF cin_word_core, of dev 100 s]
    by (auto simp: cmd_get_otp_def cmd_get_sn_def bind_eq_Some_conv hold_wait split: if_splits option.splits)
  show "cmd_get_chip hw dev s = Some (out, s') \<Longrightarrow> hold hw s'" "cmd_get_chip_des hw dev s = Some (out, s') \<Longrightarrow> hold hw s'"
    using assms by (auto simp: cmd_get_chip_def cmd_get_chip_des_def bind_eq_Some_conv hold_wait Let_def split: if_splits)
qed

lemma cmd_boot_hold:
  assumes "hold hw s" "bl_state s AND STATE_ALLOWS_REBOOT \<noteq> STATE_ALLOWS_REBOOT" "cmd_boot hw pm dev s = Some (out, s')"
  shows "hold hw s'"
proof -
  obtain e s1 where s1: "wait_for_eoc dev 1000 s = Some (e, s1)"
    using assms(3) by (auto simp: cmd_boot_def bind_eq_Some_conv)
  moreover have "hold hw s1" "bl_state s1 = bl_state s"
    using hold_wait(2) [OF s1] wait_for_eoc_core [OF s1] assms(1) by (simp_all add: core_def)
  ultimately show ?thesis
    using assms(2,3) by (auto simp: cmd_boot_def sync_response_def split: if_splits)
qed

lemma bl_step_hold:
  assumes "hold hw s" "confined pm" "board_ok hw" "delay_placed hw"
    and "bl_state s AND STATE_ALLOWS_REBOOT \<noteq> STATE_ALLOWS_REBOOT" "bl_step hw pm u s = Some (r, s')"
  shows "hold hw s'"
proof -
  define D where "D = board_get_devices hw u"
  define sa where "sa = s\<lparr>led_activity := False\<rparr>"
  obtain c s1 where s1: "wait_command D u sa = Some (c, s1)"
    using assms(6) by (auto simp: bl_step_def Let_def bind_eq_Some_conv D_def sa_def)
  define sb where "sb = s1\<lparr>led_activity := True\<rparr>"
  have "core sb = core s"
    using wait_command_core [OF s1] by (simp add: sa_def sb_def)
  then have hb: "hold hw sb" "hold hw s1" and st: "bl_state sb AND STATE_ALLOWS_REBOOT \<noteq> STATE_ALLOWS_REBOOT"
    using assms(1,5) hold_core [of sb s hw] hold_core [of sb s1 hw] by (simp_all add: sb_def core_def)
  show ?thesis
  proof (cases c)
    case None
    then show ?thesis
      using assms(6) s1 hb(2) by (simp add: bl_step_def Let_def flip: D_def sa_def)
  next
    case (Some x)
    then obtain out s2 where s2: "bl_command hw pm D x sb = Some (out, s2)" "s' = finish out s2"
      using assms(6) s1 by (auto simp: bl_step_def Let_def bind_eq_Some_conv D_def sa_def sb_def)
    note holds = cmd_others_hold [OF hb(1) assms(2,3)] cmd_erase_hold [OF hb(1) assms(2,3)] cmd_prog_hold [OF hb(1) assms(2,3)]
      cmd_set_delay_hold [OF hb(1) assms(2-4)] cmd_boot_hold [OF hb(1) st]
    have "hold hw s2"
      using s2(1) hb(1) by (auto simp: bl_command_def split: if_splits dest: holds)
    then show ?thesis
      using s2(2) by simp
  qed
qed

text \<open>
  The states of the command loop from \<open>s0\<close> on, as long as the host has not, since its last invalid command,
  synchronised, asked for the device, programmed, and asked for the checksum.
\<close>

inductive unreleased :: "hw_config \<Rightarrow> progmem \<Rightarrow> bool \<Rightarrow> bl_serial \<Rightarrow> bl_serial \<Rightarrow> bool" for hw pm u s0 where
  start: "unreleased hw pm u s0 s0"
| step: "unreleased hw pm u s0 s \<Longrightarrow> bl_state s AND STATE_ALLOWS_REBOOT \<noteq> STATE_ALLOWS_REBOOT \<Longrightarrow>
         bl_step hw pm u s = Some (r, s') \<Longrightarrow> unreleased hw pm u s0 s'"

lemma unreleased_hold:
  assumes "unreleased hw pm u s0 s" "hold hw s0" "confined pm" "board_ok hw" "delay_placed hw"
  shows "hold hw s"
  using assms by (induction rule: unreleased.induct) (auto intro: bl_step_hold)

lemma programmed_hold:
  "programmed hw pm m0 False [] (flash_st s) \<Longrightarrow> address s = 0 \<Longrightarrow> hold hw s"
  using app_words_mod(2) [of hw] reset_avoids [of hw]
  by (auto simp: programmed_def hold_def held_def armed_def line0_def line1_def filling_def fcl_reset_def FC_CLEAN_def
    area_def stored_def intro!: exI [of _ 0])

lemma erase_done:
  assumes "board_ok hw" "programs pm" "erases hw pm" "cmd_chip_erase hw pm dev s = Some (Break, s0)"
  shows "hold hw s0"
proof -
  obtain e s1 where s1: "wait_for_eoc dev 2 s = Some (e, s1)"
    using assms(4) by (auto simp: cmd_chip_erase_def bind_eq_Some_conv)
  define f where "f = erase_loop hw pm 0 (arch_flash_unlock hw (flash_st (led_set LED_ON s1)))"
  define s2 where "s2 = led_set LED_OFF ((led_set LED_ON s1)\<lparr>flash_st := f\<rparr>)"
  have "flash_st s2 = f"
    by (simp add: s2_def led_set_def)
  then have "programmed hw pm (progmem_mem f) False [] (flash_st s2)"
    using erased_programmed(1) [OF assms(1-3)] by (simp add: f_def)
  moreover have "set [0..<app_words hw] \<subseteq> {..<app_words hw}"
    by auto
  ultimately obtain f' a where v: "verify_erased hw pm (addresses_below (app_size_max hw)) s2 = (True, s2\<lparr>flash_st := f', address := a\<rparr>)"
      "programmed hw pm (progmem_mem f) False [] f'"
    unfolding addresses_app [OF assms(1)] using verify_erased_ok by meson
  then have "s0 = led_set LED_BLINK (SET_BL_STATE STATE_PROTO_CHIP_ERASE (s2\<lparr>flash_st := f', address := 0\<rparr>))"
    using assms(4) s1 by (simp add: cmd_chip_erase_def f_def s2_def Let_def split: if_splits)
  moreover have "hold hw (s2\<lparr>flash_st := f', address := 0\<rparr>)"
    by (rule programmed_hold) (use v(2) in simp_all)
  ultimately show ?thesis
    by simp
qed

text \<open>
  C32. An unfinished upload is never started: from the end of a successful erase on, whatever the host sends, in
  whatever order and with whatever timing, and even if writes to the flash fail, the first word of the
  application stays erased as long as the host has not, since its last invalid command, synchronised, asked for the
  device, programmed and asked for the checksum. With that word erased neither form of the start of the application
  jumps, so a reset at any such point leads back to the bootloader.
\<close>

theorem unfinished_upload_not_started:
  assumes "board_ok hw" "delay_placed hw" "programs pm" "erases hw pm" "confined pm"
    and "cmd_chip_erase hw pm dev s = Some (Break, s0)" and "unreleased hw pm u (finish Break s0) s'"
  shows "progmem_mem (flash_st s') (APP_LOAD_ADDRESS hw) = 0xffffffff \<and>
    jump_to_app hw (progmem_mem (flash_st s')) = Stay \<and> jump_to_app_toc sc hw (progmem_mem (flash_st s')) = Stay"
proof -
  have "hold hw s'"
    using unreleased_hold [OF assms(7) _ assms(5,1,2)] erase_done [OF assms(1,3,4,6)] by simp
  then have "progmem_mem (flash_st s') (APP_LOAD_ADDRESS hw) = 0xffffffff"
    by (simp add: hold_def held_def app_word_0)
  then show ?thesis
    by (simp add: jump_to_app_def jump_to_app_toc_def)
qed

lemma put_words_other: "(\<forall>j < length ws. x \<noteq> a + word_of_nat (4 * j)) \<Longrightarrow> put_words a ws m x = m x"
proof (induction ws arbitrary: a m)
  case (Cons w ws)
  have "\<forall>j < length ws. x \<noteq> (a + 4) + word_of_nat (4 * j)"
  proof (intro allI impI)
    fix j
    assume "j < length ws"
    then show "x \<noteq> (a + 4) + word_of_nat (4 * j)"
      using Cons.prems [rule_format, of "Suc j"] by (simp add: algebra_simps)
  qed
  moreover have "x \<noteq> a"
    using Cons.prems [rule_format, of 0] by simp
  ultimately show ?case
    using Cons.IH by simp
qed simp

lemma ideal_confined: "confined (ideal_progmem hw)"
  by (simp add: confined_def ideal_progmem_def put_words_other)

theorem unfinished_upload_not_started_witness:
  "\<exists>s0. cmd_chip_erase fmu_v6x (ideal_progmem fmu_v6x) 1
       ((idle_state (host_polls [PROTO_EOC]))\<lparr>bl_type := USB, bl_state := STATE_ALLOWS_ERASE\<rparr>) = Some (Break, s0) \<and>
     jump_to_app fmu_v6x (progmem_mem (flash_st (finish Break s0))) = Stay"
proof -
  define s where "s = (idle_state (host_polls [PROTO_EOC]))\<lparr>bl_type := USB, bl_state := STATE_ALLOWS_ERASE\<rparr>"
  have "session 1 [PROTO_EOC] STATE_ALLOWS_ERASE 0 0 (flash_st s) [] s"
    using feeds_host [of "[PROTO_EOC]"] by (simp add: session_def ready_def s_def idle_state_def)
  then obtain s0 where e: "cmd_chip_erase fmu_v6x (ideal_progmem fmu_v6x) 1 s = Some (Break, s0)"
    using session_erase [OF _ _ fmu_v6x_ok ideal_driver, of 1 "[]"] by fastforce
  have "delay_placed fmu_v6x"
    unfolding delay_placed_def fmu_v6x_words by (rule exI [of _ 104]) (simp add: fmu_v6x_def)
  then show ?thesis
    using e unfinished_upload_not_started [OF fmu_v6x_ok _ ideal_driver ideal_confined e unreleased.start]
    by (auto simp: s_def)
qed

section \<open>Signed images\<close>

text \<open>An entry that may be started: it is marked for it, not encrypted, and its signature is good if it must be checked.\<close>

definition bootable :: "signature_check \<Rightarrow> hw_config \<Rightarrow> mem \<Rightarrow> nat \<Rightarrow> bool" where
  "bootable sc hw m i \<longleftrightarrow> tst (flags1 (toc_entry hw m i)) TOC_FLAG1_BOOT \<and> \<not> tst (flags1 (toc_entry hw m i)) TOC_FLAG1_DECRYPT \<and>
     (i \<noteq> 0 \<longrightarrow> tst (flags1 (toc_entry hw m i)) TOC_FLAG1_CHECK_SIGNATURE \<longrightarrow> verify_app sc hw m i)"

lemma toc_pass_app:
  "fold (toc_pass sc hw m) is (cs0, a0, v0) = (cs, a, v) \<Longrightarrow>
   a = a0 \<or> (\<exists>i \<in> set is. bootable sc hw m i \<and> a = get_base_addr (toc_entry hw m i))"
proof (induction "is" arbitrary: cs0 a0 v0)
  case (Cons i "is")
  obtain cs1 a1 v1 where p: "toc_pass sc hw m i (cs0, a0, v0) = (cs1, a1, v1)"
    using prod_cases3 by blast
  then have "a1 = a0 \<or> (bootable sc hw m i \<and> a1 = get_base_addr (toc_entry hw m i))"
    by (auto simp: toc_pass_def bootable_def decrypt_app_def Let_def split: if_splits)
  with Cons p show ?case
    by fastforce
qed simp

text \<open>
  C33. With a table of contents only verified code is started: when the bootloader jumps, the signature over the first
  entry, which holds the table itself, has been checked and lies in the flash behind that entry; the entry starts
  at the load address; and the application started is an entry within the table marked as bootable and not
  encrypted, whose own signature has been checked if the table asks for it.
\<close>

theorem toc_boot_verified:
  assumes "jump_to_app_toc sc hw m = Jump v a"
  shows "verify_app sc hw m 0 \<and> toc_start (toc_entry hw m 0) = APP_LOAD_ADDRESS hw \<and>
    toc_end (toc_entry hw m 0) \<le> toc_start (toc_entry hw m (unat (signature_idx (toc_entry hw m 0)))) \<and>
    toc_end (toc_entry hw m (unat (signature_idx (toc_entry hw m 0)))) \<le> FLASH_END_ADDRESS hw \<and>
    (\<exists>len i. find_toc hw m = Some len \<and> i < len \<and> bootable sc hw m i \<and> a = get_base_addr (toc_entry hw m i))"
proof -
  obtain len where len: "find_toc hw m = Some len" and v: "verify_app sc hw m 0"
    using assms by (auto simp: jump_to_app_toc_def split: if_splits option.splits)
  obtain cs a' v' where f: "fold (toc_pass sc hw m) [0..<len] ([], 0, 0) = (cs, a', v')"
    using prod_cases3 by blast
  then have "a' \<noteq> 0" "a = a'"
    using assms len v by (auto simp: jump_to_app_toc_def Let_def split: if_splits)
  moreover from this obtain i where "i < len" "bootable sc hw m i" "a = get_base_addr (toc_entry hw m i)"
    using toc_pass_app [OF f] by auto
  ultimately show ?thesis
    using len v by (auto simp: find_toc_def Let_def split: if_splits)
qed

definition signed_mem :: mem where
  "signed_mem = (\<lambda>_. 0)(0x08020000 := 0x20080000, 0x080201a8 := TOC_START_MAGIC, 0x080201ac := 1,
     0x080201b4 := 0x08020000, 0x080201b8 := 0x08030000, 0x080201c0 := 0x01000001,
     0x080201cc := 0x08030000, 0x080201d0 := 0x08030040, 0x080201e0 := TOC_END_MAGIC, 0x08030000 := 0x5349474e)"

theorem toc_boot_verified_witness:
  "jump_to_app_toc (\<lambda>key sig d len m. m sig = 0x5349474e) fmu_v6x signed_mem = Jump 0x08020000 0x08020000 \<and>
   verify_app (\<lambda>key sig d len m. m sig = 0x5349474e) fmu_v6x signed_mem 0"
proof -
  have cfg: "toc_start_u32 fmu_v6x = 0x080201a8" "FLASH_END_ADDRESS fmu_v6x = 0x08200000" "APP_LOAD_ADDRESS fmu_v6x = 0x08020000"
    by (simp_all add: toc_start_u32_def FLASH_END_ADDRESS_def FLASH_START_ADDRESS_def fmu_v6x_def)
  have entries: "toc_entry fmu_v6x signed_mem 0 = \<lparr> toc_name = 0, toc_start = 0x08020000, toc_end = 0x08030000, toc_target = 0,
      signature_idx = 1, signature_key = 0, encryption_key = 0, flags1 = 1 \<rparr>"
    "toc_entry fmu_v6x signed_mem (Suc 0) = \<lparr> toc_name = 0, toc_start = 0x08030000, toc_end = 0x08030040, toc_target = 0,
      signature_idx = 0, signature_key = 0, encryption_key = 0, flags1 = 0 \<rparr>"
    by (simp_all add: toc_entry_def entry_addr_def cfg signed_mem_def Let_def)
  have "toc_count fmu_v6x signed_mem 0 = 2"
    by (simp add: toc_count.simps [of _ _ 0] toc_count.simps [of _ _ "Suc 0"] toc_count.simps [of _ _ "Suc (Suc 0)"]
      entry_addr_def cfg signed_mem_def TOC_END_MAGIC_def)
  then have "find_toc fmu_v6x signed_mem = Some 2"
    by (simp add: find_toc_def cfg entries Let_def TOC_VERSION_def) (simp add: signed_mem_def)
  moreover have v: "verify_app (\<lambda>key sig d len m. m sig = 0x5349474e) fmu_v6x signed_mem 0"
    by (simp add: verify_app_def entries Let_def) (simp add: signed_mem_def)
  moreover have "signed_mem 0x08020000 \<noteq> 0xffffffff" and "[0..<2] = [0, Suc 0]"
    by (simp add: signed_mem_def) (simp add: numeral_2_eq_2)
  ultimately have j: "jump_to_app_toc (\<lambda>key sig d len m. m sig = 0x5349474e) fmu_v6x signed_mem = Jump 0x08020000 0x08020000"
    by (simp add: jump_to_app_toc_def cfg toc_pass_def entries TOC_FLAG1_BOOT_def TOC_FLAG1_VTORS_def
      TOC_FLAG1_CHECK_SIGNATURE_def TOC_FLAG1_DECRYPT_def TOC_FLAG1_COPY_def get_base_addr_def)
  show ?thesis
    using j toc_boot_verified [OF j] by blast
qed

section \<open>Where the bootloader falls short\<close>

text \<open>Without USB the command loop returns before it looks at the serial port.\<close>

lemma no_usb_no_upload:
  "\<exists>s'. bootloader hw pm tmo False s = Some s' \<and> flash_st s' = flash_st s \<and> polls s' = polls s \<and> uart_rx s' = uart_rx s"
proof -
  have "bl_step hw pm False s0 = Some (True, s0\<lparr>led_activity := False\<rparr>)" for s0
    by (simp add: bl_step_def wait_command.simps)
  then show ?thesis
    by (simp add: bootloader_def bootloader_loop.simps bootloader_start_def led_set_def Let_def)
qed

text \<open>The verification of the erase reads the first block from the cache, whatever is in the flash.\<close>

lemma erase_check_blind:
  assumes "board_ok hw" "i < 8"
  shows "flash_func_read_word hw pm (word_of_nat (4 * i)) (arch_flash_unlock hw f) = (0xffffffff, arch_flash_unlock hw f)"
proof -
  have i: "i < app_words hw" "i div 8 = 0"
    using assms app_words_mod(2) [OF assms(1)] by simp_all
  have "unat (word_of_nat i :: u32) = i"
    using assms(2) by (simp add: unsigned_of_nat take_bit_nat_eq_self)
  then show ?thesis
    unfolding read_offset using assms i
    by (simp add: fc_read_def fc_line_select_def find_two arch_flash_unlock_def fc_reset_def replicate_two fcl_reset_def
      app_word_tag app_word_indx app_word_0 Let_def)
qed

text \<open>An erase that fails leaves the program address inside the area, where programming is accepted.\<close>

lemma failed_erase_leaves_address:
  assumes "board_ok hw" "cmd_chip_erase hw pm dev s = Some (Fail, s')"
  shows "\<exists>k < app_words hw. address s' = word_of_nat (4 * k)"
proof -
  have fail: "\<exists>k < app_words hw. address t' = word_of_nat (4 * k)"
    if "verify_erased hw pm (map (\<lambda>i. word_of_nat (4 * i)) is) t = (False, t')" "set is \<subseteq> {..<app_words hw}" for "is" t t'
    using that
  proof (induction "is" arbitrary: t)
    case (Cons i "is")
    then show ?case
      by (auto simp: read_word_def split: prod.splits if_splits)
  qed simp
  have "set [0..<app_words hw] \<subseteq> {..<app_words hw}"
    by auto
  moreover obtain t where "verify_erased hw pm (addresses_below (app_size_max hw)) t = (False, s')"
    using assms(2) by (auto simp: cmd_chip_erase_def bind_eq_Some_conv Let_def split: if_splits prod.splits)
  ultimately show ?thesis
    using fail unfolding addresses_app [OF assms(1)] by blast
qed

definition uncached :: "hw_config \<Rightarrow> nat \<Rightarrow> mem \<Rightarrow> flash \<Rightarrow> bool" where
  "uncached hw d m f \<longleftrightarrow> start_address (flash_cache f ! 0) \<noteq> app_word hw d \<and> progmem_mem f = m"

lemma delay_block_cached:
  assumes "board_ok hw" "8 \<le> d" "d mod 8 = 0" "d < app_words hw" "uncached hw d m f"
  shows "uncached hw d m (snd (fc_write pm (app_word hw d) w f))"
    "uncached hw d m (snd (fc_read pm (app_word hw d) f))"
    "uncached hw d m (snd (fc_read pm (app_word hw (Suc d)) f))"
proof -
  have d: "Suc d < app_words hw" "8 * (Suc d div 8) = d" "8 * (d div 8) = d" "Suc d mod 8 = 1"
    using assms(3,4) app_words_mod(1) [OF assms(1)] by presburger+
  have ix: "FC_ADDR2INDX (app_word hw d) = 0" "FC_ADDR2INDX (app_word hw (Suc d)) = 1"
    using assms d by (simp_all add: app_word_indx)
  have tag: "app_word hw d AND FC_ADDRESS_MASK = app_word hw d" "app_word hw (Suc d) AND FC_ADDRESS_MASK = app_word hw d"
    using assms d by (simp_all add: app_word_tag)
  show "uncached hw d m (snd (fc_write pm (app_word hw d) w f))"
    "uncached hw d m (snd (fc_read pm (app_word hw d) f))"
    "uncached hw d m (snd (fc_read pm (app_word hw (Suc d)) f))"
    using assms(5) by (auto simp: uncached_def fc_write_def fc_read_def fc_line_select_def find_two tag ix Let_def upd_line_def)
qed

text \<open>
  The boot delay is acknowledged but not stored: the word with the delay is the first of its flash block, as on all
  boards, so it goes no further than the cache. Whatever the outcome of the command, the flash is as it was; and when
  no upload is pending, the command that boots does not write it either.
\<close>

lemma set_delay_not_stored:
  assumes "board_ok hw" "BOOT_DELAY_ADDRESS hw = word_of_nat (4 * d)" "8 \<le> d" "d mod 8 = 0" "d < app_words hw"
    and "start_address (flash_cache (flash_st s) ! 0) \<noteq> app_word hw d"
    and "cmd_set_delay hw pm dev s = Some (out, s1)"
    and "first_word s1 = 0xffffffff" and "cmd_boot hw pm dev s1 = Some (out2, s2)"
  shows "progmem_mem (flash_st s1) = progmem_mem (flash_st s) \<and> progmem_mem (flash_st s2) = progmem_mem (flash_st s)"
proof -
  define m where "m = progmem_mem (flash_st s)"
  have u: "uncached hw d m (flash_st s)"
    using assms(6) by (simp add: uncached_def m_def)
  note blk = delay_block_cached [OF assms(1,3-5)]
  have rd: "read_word hw pm (BOOT_DELAY_ADDRESS hw) t = (w, t') \<Longrightarrow> uncached hw d m (flash_st t) \<longrightarrow> uncached hw d m (flash_st t')"
    "read_word hw pm (BOOT_DELAY_ADDRESS hw + 4) t = (w, t') \<Longrightarrow> uncached hw d m (flash_st t) \<longrightarrow> uncached hw d m (flash_st t')" for t t' w
  proof -
    have four: "BOOT_DELAY_ADDRESS hw + 4 = word_of_nat (4 * Suc d)"
      by (simp add: assms(2))
    show "read_word hw pm (BOOT_DELAY_ADDRESS hw) t = (w, t') \<Longrightarrow> uncached hw d m (flash_st t) \<longrightarrow> uncached hw d m (flash_st t')"
      using blk(2) [of m "flash_st t" pm] unfolding read_word_def assms(2) read_offset by (auto split: prod.splits)
    show "read_word hw pm (BOOT_DELAY_ADDRESS hw + 4) t = (w, t') \<Longrightarrow> uncached hw d m (flash_st t) \<longrightarrow> uncached hw d m (flash_st t')"
      using blk(3) [of m "flash_st t" pm] unfolding read_word_def four read_offset by (auto split: prod.splits)
  qed
  have wr: "uncached hw d m (flash_st t) \<Longrightarrow> uncached hw d m (flash_st (write_word hw pm (BOOT_DELAY_ADDRESS hw) w t))" for t w
    using blk(1) [of m "flash_st t" pm] unfolding write_word_def assms(2) write_offset by simp
  have eoc: "wait_for_eoc dev n t = Some (e, t') \<Longrightarrow> flash_st t' = flash_st t" for n t e t'
    using wait_for_eoc_core by (fastforce simp: core_def)
  have "uncached hw d m (flash_st s1)"
  proof -
    obtain v t1 where t1: "cin_wait dev 100 s = Some (v, t1)"
      using assms(7) by (auto simp: cmd_set_delay_def bind_eq_Some_conv)
    have "flash_st t1 = flash_st s"
      using cin_wait_core [OF t1] by (simp add: core_def)
    with assms(7) t1 u show ?thesis
      by (auto simp: cmd_set_delay_def bind_eq_Some_conv Let_def wr split: if_splits prod.splits dest!: eoc rd)
  qed
  moreover have "flash_st s2 = flash_st s1"
  proof -
    obtain e t where t: "wait_for_eoc dev 1000 s1 = Some (e, t)" "core t = core s1"
      using assms(9) wait_for_eoc_core by (auto simp: cmd_boot_def bind_eq_Some_conv)
    have "core (delay 100 (sync_response t)) = core (sync_response t)"
      by (simp add: delay_def)
    then show ?thesis
      using assms(8,9) t by (auto simp: cmd_boot_def core_def sync_response_def cout_def split: if_splits)
  qed
  ultimately show ?thesis
    by (simp add: uncached_def m_def)
qed

text \<open>An image of fewer than eight words never leaves the cache.\<close>

lemma short_image_stays_cached:
  assumes "programmed hw pm m0 False ws f" "length ws < 8"
  shows "progmem_mem (snd (fc_write pm (app_word hw 0) w f)) = progmem_mem f \<and>
    fst (fc_read pm (app_word hw 0) (snd (fc_write pm (app_word hw 0) w f))) = w"
proof -
  note p = assms(1) [unfolded programmed_def]
  have pos: "0 < app_words hw"
    using app_words_mod(2) [of hw] p by linarith
  have ix: "FC_ADDR2INDX (app_word hw 0) = 0"
    using p pos by (simp add: app_word_indx)
  have sel: "fc_line_select (app_word hw 0) f = Some 0"
    using programmed_select [OF assms(1) pos] by simp
  have "unat (word_of_nat (length ws - 1) :: u32) = length ws - 1"
    using assms(2) by (simp add: unsigned_of_nat take_bit_nat_eq_self del: of_nat_diff)
  moreover have "unat (7 :: u32) = 7"
    by simp
  ultimately have "(word_of_nat (length ws - 1) :: u32) \<noteq> 7"
    using assms(2) by force
  then have "index (line0 hw ws) \<noteq> 7"
    using assms(2) by (simp add: line0_def FC_CLEAN_def)
  then have wr: "fc_write pm (app_word hw 0) w f = (0, upd_line 0 (\<lambda>l. l\<lparr>words := (words l)[0 := w], index := 0\<rparr>) f)"
    using p by (simp add: fc_write_def sel ix Let_def upd_line_def)
  have "fc_line_select (app_word hw 0) (snd (fc_write pm (app_word hw 0) w f)) = Some 0"
    using p pos sel by (simp add: wr fc_line_select_def find_two upd_line_def split: if_splits)
  then show ?thesis
    using p by (simp add: wr fc_read_def ix Let_def) (simp add: upd_line_def line0_def)
qed

end
