(* ===== verification/Spec2Isabelle.thy ===== *)
theory Spec2Isabelle
  imports IO_Main Rc_St24 Rc_Sumd Rc_Sbus Flashfs Hrt_Ppm Work_Queue Can_Update Bl_Main
begin

text \<open>
  Verification of the flight-critical low-level C code of the P600 aerial manipulator's PX4 firmware.

  \<^bold>\<open>The program.\<close> The vehicle has two processors. The main one (FMU) runs the flight control stack; the
  second one (PX4IO) drives the servos and motors, reads the R/C receiver and the safety switch, and
  takes over with failsafe outputs when the FMU is lost. The FMU writes and reads PX4IO's register pages
  over a serial link. Underneath both are the platform layer's timer, queues and work threads, and the
  store of the parameters in flash. Before any of it runs, a bootloader decides whether to start the
  application in flash or to take a new one, over a serial line or USB on the FMU and over CAN on nodes.

  \<^bold>\<open>Theories and sources.\<close>

  \<^item> \<^verbatim>\<open>Prelude\<close>: fixed-width integers, flag words, little-endian memory access, lemmas used everywhere.
  \<^item> \<^verbatim>\<open>IO_Protocol\<close> (\<^verbatim>\<open>src/src/modules/px4iofirmware/protocol.h\<close>): pages, registers, flags, the packet and
    its table-driven CRC, proved equal to the bitwise CRC.
  \<^item> \<^verbatim>\<open>Float32\<close>: the single-precision arithmetic the firmware uses, as rationals rounded to nearest even.
  \<^item> \<^verbatim>\<open>Output_Limit\<close> (\<^verbatim>\<open>src/src/lib/output_limit\<close>): the arming ramp and the limits of the outputs.
  \<^item> \<^verbatim>\<open>IO_State\<close> (\<^verbatim>\<open>px4io.h\<close> and the variables of \<^verbatim>\<open>registers.c\<close>, \<^verbatim>\<open>mixer.cpp\<close>, \<^verbatim>\<open>controls.c\<close>): the record \<open>io\<close> of
    all state, with the register pages as lists, and the commands given to the drivers as a log.
  \<^item> \<^verbatim>\<open>IO_Registers\<close> (\<^verbatim>\<open>registers.c\<close>): reads and writes of every page, with the locale \<open>register_invariant\<close>
    for facts that every write keeps.
  \<^item> \<^verbatim>\<open>IO_Safety\<close> (\<^verbatim>\<open>safety.c\<close>), \<^verbatim>\<open>IO_Serial\<close> (\<^verbatim>\<open>serial.c\<close>): the safety button; the interrupt handler that checks and
    answers packets.
  \<^item> \<^verbatim>\<open>IO_Mixer\<close> (\<^verbatim>\<open>mixer.cpp\<close>): source selection, arming decision, failsafe, mixing, servo output.
  \<^item> \<^verbatim>\<open>IO_Controls\<close> (\<^verbatim>\<open>controls.c\<close>): receiver input, its mapping and its loss, the override.
  \<^item> \<^verbatim>\<open>IO_Main\<close> (\<^verbatim>\<open>px4io.c\<close>, \<^verbatim>\<open>adc.c\<close>): the main loop, and the step relation \<open>fw_step\<close> of the whole firmware, with
    the locale \<open>firmware_invariant\<close>.
  \<^item> \<^verbatim>\<open>Rc_St24\<close>, \<^verbatim>\<open>Rc_Sumd\<close> (\<^verbatim>\<open>src/src/lib/rc/st24.cpp\<close>, \<^verbatim>\<open>sumd.cpp\<close>): two byte-wise receiver decoders, with their
    packet buffers as bytes.
  \<^item> \<^verbatim>\<open>Rc_Sbus\<close> (\<^verbatim>\<open>sbus.cpp\<close>): the S.BUS receiver with frame detection and resynchronisation, and the S.BUS output.
    In the code the buffers of all receiver decoders are one union, \<^verbatim>\<open>rc_decode_buf\<close>; each decoder is modelled as the only one
    that uses it.
  \<^item> \<^verbatim>\<open>Flashfs\<close> (\<^verbatim>\<open>src/src/lib/parameters/flashparams/flashfs.c\<close>): the log-structured store of the parameters.
  \<^item> \<^verbatim>\<open>Queues\<close> (\<^verbatim>\<open>src/platforms/common/work_queue\<close>): linked queues on a store of links, and the locale
    \<open>sq_queue\<close>, interpreted on them, that states what a client relies on.
  \<^item> \<^verbatim>\<open>Hrt\<close> (\<^verbatim>\<open>src/platforms/nuttx/src/px4/stm/stm32_common/hrt/hrt.c\<close>): absolute time, callout queue, dispatch.
  \<^item> \<^verbatim>\<open>Hrt_Ppm\<close> (the same file): the decoder of PPM receiver pulses and the timer interrupt.
  \<^item> \<^verbatim>\<open>Work_Queue\<close> (\<^verbatim>\<open>src/platforms/common/work_queue\<close>): the work queues and their threads' loop.
  \<^item> \<^verbatim>\<open>Crc\<close> (\<^verbatim>\<open>src/src/lib/systemlib/crc.c\<close>): the CRC-16, CRC-32 and CRC-64 of the bootloaders, with the locale
    \<open>crc_register\<close>, interpreted on all three, for registers that can be run backwards.
  \<^item> \<^verbatim>\<open>Can_Timer\<close> (\<^verbatim>\<open>src/platforms/nuttx/src/canbootloader/sched/timer.c\<close>): the CAN bootloader's software timers.
  \<^item> \<^verbatim>\<open>Can_Transfer\<close> (\<^verbatim>\<open>src/platforms/nuttx/src/canbootloader/protocol/uavcan.c\<close>): UAVCAN transfers over CAN frames, on
    the timers and the CRC-16.
  \<^item> \<^verbatim>\<open>Boot_Shared\<close> (\<^verbatim>\<open>src/src/drivers/bootloaders/boot_app_shared.c\<close>): the signed record that a CAN bootloader and
    its application leave for each other in the registers of the CAN controller.
  \<^item> \<^verbatim>\<open>Can_Image\<close> (\<^verbatim>\<open>src/platforms/nuttx/src/canbootloader\<close>: \<^verbatim>\<open>fs/flash.c\<close>, \<^verbatim>\<open>uavcan/main.c\<close>): the application in the flash of a node, its
    descriptor and its check.
  \<^item> \<^verbatim>\<open>Can_Tool\<close> (\<^verbatim>\<open>src/src/drivers/bootloaders/make_can_boot_descriptor.py\<close>): the tool of the build that completes the descriptor.
  \<^item> \<^verbatim>\<open>Can_Node\<close> (\<^verbatim>\<open>uavcan/main.c\<close>, the CAN driver's \<^verbatim>\<open>can_autobaud\<close>): the CAN bootloader's callbacks, detection of the baud rate,
    allocation of the node id, and dialogue with the file server.
  \<^item> \<^verbatim>\<open>Can_Main\<close> (\<^verbatim>\<open>uavcan/main.c\<close>): its main function.
  \<^item> \<^verbatim>\<open>Can_Run\<close>: how to reason about it. The locales \<open>timer_client\<close>, \<open>timer_fact\<close>, \<open>node_client\<close>, \<open>node_ticks\<close> and \<open>node_fact\<close> state
    what a fact must be indifferent to so that receiving, ticks and callbacks keep it; \<open>run_ok\<close> is about the outcomes of composed functions.
  \<^item> \<^verbatim>\<open>Can_Start\<close>: which application is started and when; the locale \<open>boot_fact\<close> adds the boot timer.
  \<^item> \<^verbatim>\<open>Can_Update\<close>: an update over the bus.
  \<^item> \<^verbatim>\<open>Bl_Flash\<close> (\<^verbatim>\<open>src/platforms/nuttx/src/bootloader\<close>: \<^verbatim>\<open>stm/stm32_common/main.c\<close>, \<^verbatim>\<open>common/lib/flash_cache.c\<close>): the flash functions of
    the serial bootloader, with the two-line cache in front of flash that is written in blocks of 32 bytes.
  \<^item> \<^verbatim>\<open>Bl_Serial\<close> (\<^verbatim>\<open>bl.c\<close>): the bootloader's command loop: receive ring, timers, CRC-32, every command.
  \<^item> \<^verbatim>\<open>Bl_Upload\<close>: what sessions of commands do; the locale \<open>word_flash\<close> states what the commands rely on in the
    flash functions and is interpreted on \<^verbatim>\<open>Bl_Flash\<close>.
  \<^item> \<^verbatim>\<open>Bl_Time\<close>: the millisecond interrupt and the waits that depend on it.
  \<^item> \<^verbatim>\<open>Bl_Main\<close> (\<^verbatim>\<open>stm/stm32_common/main.c\<close>, \<^verbatim>\<open>image_toc.c\<close>): the table of contents of signed images and the decision to
    start the application.

  \<^bold>\<open>Conventions.\<close> A C structure is a record and an array a list of its length; integers have their width
  and wrap. Pointers are addresses, and memory a function from addresses. Code that is not in the
  repository or that talks to hardware is a parameter: drivers, the mixer library, the receivers
  as PX4IO sees them, the CAN and flash drivers, the CRC of the flash store, \<^verbatim>\<open>malloc\<close>, callouts and workers, the queue library under the
  timer, the check of an image's signature. Time and sampled registers are inputs; the serial bootloader's loops poll
  their surroundings, and what the polls find is a list (\<open>poll\<close>: a millisecond passes, a byte arrives, nothing). The CAN
  bootloader has such lists in its state, one per place that waits; a function of it returns (\<open>Done\<close>), waits for more input (\<open>Waiting\<close>),
  or does what C leaves undefined (\<open>Crash\<close>). Contents of uninitialised memory are a parameter. An error code is a value; a null pointer that would be
  followed, an access outside a buffer and a loop without end are \<open>None\<close>.

  \<^bold>\<open>What is shown.\<close> For PX4IO: flight termination cannot be undone (over all runs of \<open>fw_step\<close>); with the safety
  on no pulse reaches the servos; failsafe, lockdown and disarmed values are driven when they must be;
  pulses and controls are within their limits; register writes keep the pages well formed; corrupt
  packets change nothing and accepted ones stay inside the packet buffer, except for one case that does
  not; loss of the receiver and the conditions of override. For the decoders: a transmitter's packet gives
  the values sent, and the lengths for which the buffers are overrun; what the S.BUS output sends the S.BUS input
  receives unchanged, however it is cut into reads, and its receiver keeps to its buffers. For the flash store: what is written is read
  back. For the timer: the clock is exact, the callout queue implements a schedule sorted by deadline, the
  interrupt runs every due call and is programmed within the counter period, and a PPM signal is decoded
  to the values sent. For the queues: the pointer code implements lists, and a pass of the worker thread
  runs the due work and ends. For the CAN bootloader: a transfer is received as sent, damage of a byte is
  noticed, a receiver does not wait for ever, and the timers keep their time; the record handed over in the
  CAN registers is read back as written, and only by the side it is meant for; what the build tool makes of an image passes the
  check and a damaged image does not; an update with a server that answers ends with the file in the flash and the
  jump to it; only an application that passed the check is started, with one exception, and with a silent bus it is started in time. For the serial bootloader: an upload
  that passes the checksum command has stored the image in flash, one that was broken off is not started at
  the next power-up, signed images are started only when the table and each image it lists for booting are
  verified, and the loop ends when its time is over and nothing has arrived; a boot delay that is set is lost.

  \<^bold>\<open>Loops.\<close> Structural recursion where the bound is in the code. The scans of the flash, the searches in
  linked lists, the timer's dispatch loop and the work loop are option-valued partial functions; that they
  return is part of the theorems about them. The serial bootloader's loops consume the list of polls, so they
  end when it does; that result is \<open>None\<close>, the program still waiting. The CAN bootloader's loops have one more round than there
  is input, and are shown to be the same for any larger number, because each round uses up input. The dispatch loop is shown to end if the clock does not pass
  a time \<open>B\<close> during as many reads as the queued calls can need until \<open>B\<close>; the bound \<open>2 ^ 63\<close> microseconds on
  the clock keeps deadlines from wrapping.

  \<^bold>\<open>Not modelled.\<close> The flight stack in C++ (\<^verbatim>\<open>src/src/modules\<close> besides PX4IO): it is large, and its control and
  estimation code is floating-point and matrix computation. The DSM, CRSF and GHST decoders and
  the mixer library, used through parameters. Of the CAN bootloader, the
  sampling of the bus for the baud rate, the watchdog, and the option \<^verbatim>\<open>SUPPORT_ALT_CAN_BOOTLOADER\<close>, which no board sets;
  of the serial bootloader, the port drivers and the variants of older boards. Register set-up of
  peripherals, threads, semaphores and signals. Vendored code such as CMSIS.
\<close>

end
